(* ===== verification/Prelude.thy ===== *)
theory Prelude
  imports
    Complex_Main
    "HOL-Library.AList"
    "HOL-Library.Multiset"
    "HOL-Library.List_Lexorder"
    "HOL-Library.Char_ord"
    "HOL-Library.Product_Lexorder"
begin

text \<open>
  The vocabulary shared by all component theories: raised exceptions as values of a sum type,
  Python dictionaries as association lists in insertion order, the list idioms of the source
  (\<open>dict.fromkeys\<close>, \<open>max\<close> with a key, grouping with \<open>setdefault\<close>), strings over the code points
  U+0000 to U+00FF, and numbers (unbounded integers, floats with infinities and NaN, rounding not
  modelled). The lemmas are collected so that the component proofs are short.
\<close>

named_theorems res_simps \<open>sequencing of fallible computations\<close>
named_theorems dict_simps \<open>lookups and keys of dictionaries\<close>

section \<open>Raised exceptions\<close>

datatype py_error =
    ValueError string
  | KeyError string
  | TypeError string
  | AttributeError string
  | IndexError
  | ZeroDivisionError
  | OverflowError

type_synonym 'a res = "py_error + 'a"

definition rbind :: "'e + 'a \<Rightarrow> ('a \<Rightarrow> 'e + 'b) \<Rightarrow> 'e + 'b" where
  "rbind m f = (case m of Inl e \<Rightarrow> Inl e | Inr x \<Rightarrow> f x)"

definition rguard :: "bool \<Rightarrow> 'e \<Rightarrow> 'e + unit" where
  "rguard b e = (if b then Inr () else Inl e)"

fun rmap :: "('a \<Rightarrow> 'e + 'b) \<Rightarrow> 'a list \<Rightarrow> 'e + 'b list" where
  "rmap f [] = Inr []"
| "rmap f (x # xs) = rbind (f x) (\<lambda>y. rbind (rmap f xs) (\<lambda>ys. Inr (y # ys)))"

lemma rbind_simps [simp]:
  "rbind (Inl e) f = Inl e"
  "rbind (Inr x) f = f x"
  by (simp_all add: rbind_def)

lemma rbind_Inr_iff [res_simps]:
  "rbind m f = Inr y \<longleftrightarrow> (\<exists>x. m = Inr x \<and> f x = Inr y)"
  by (cases m) auto

lemma rbind_Inl_iff [res_simps]:
  "rbind m f = Inl e \<longleftrightarrow> m = Inl e \<or> (\<exists>x. m = Inr x \<and> f x = Inl e)"
  by (cases m) auto

lemma rguard_simps [simp]:
  "rguard b e = Inr u \<longleftrightarrow> b"
  "rguard b e = Inl e' \<longleftrightarrow> \<not> b \<and> e' = e"
  "rguard True e = Inr ()"
  "rguard False e = Inl e"
  by (auto simp: rguard_def)

lemma rmap_Inr_map: "(\<And>x. x \<in> set xs \<Longrightarrow> f x = Inr (g x)) \<Longrightarrow> rmap f xs = Inr (map g xs)"
  by (induction xs) auto

fun rfilter :: "('a \<Rightarrow> 'e + bool) \<Rightarrow> 'a list \<Rightarrow> 'e + 'a list" where
  "rfilter f [] = Inr []"
| "rfilter f (x # xs) = rbind (f x) (\<lambda>b. rbind (rfilter f xs) (\<lambda>ys. Inr (if b then x # ys else ys)))"

lemma rfilter_Inr: "(\<And>x. x \<in> set xs \<Longrightarrow> f x = Inr (g x)) \<Longrightarrow> rfilter f xs = Inr (filter g xs)"
  by (induction xs) auto

lemma rmap_pairs_Inr:
  assumes "\<And>k. k \<in> set ks \<Longrightarrow> \<exists>b. f k = Inr b \<and> P k b"
  shows "\<exists>kvs. rmap (\<lambda>k. rbind (f k) (\<lambda>b. Inr (k, g k b))) ks = Inr kvs \<and> map fst kvs = ks
    \<and> (\<forall>(k, v) \<in> set kvs. \<exists>b. v = g k b \<and> P k b)"
  using assms
proof (induction ks)
  case Nil
  then show ?case by simp
next
  case (Cons k ks)
  then obtain kvs where "rmap (\<lambda>k. rbind (f k) (\<lambda>b. Inr (k, g k b))) ks = Inr kvs" "map fst kvs = ks"
    "\<forall>(k, v) \<in> set kvs. \<exists>b. v = g k b \<and> P k b" by auto
  moreover obtain b where "f k = Inr b" "P k b" using Cons.prems [of k] by auto
  ultimately show ?case by (intro exI [of _ "(k, g k b) # kvs"]) auto
qed

lemma rmap_Inl_D: "rmap f xs = Inl e \<Longrightarrow> \<exists>x \<in> set xs. f x = Inl e"
  by (induction xs) (auto simp: res_simps)

lemma rmap_Inl:
  "(\<And>x. x \<in> set xs \<Longrightarrow> f x = Inl e \<or> (\<exists>y. f x = Inr y)) \<Longrightarrow> \<exists>x \<in> set xs. f x = Inl e \<Longrightarrow> rmap f xs = Inl e"
proof (induction xs)
  case Nil
  then show ?case by simp
next
  case (Cons x xs)
  show ?case
  proof (cases "f x")
    case (Inl e')
    with Cons.prems(1) [of x] show ?thesis by simp
  next
    case (Inr y)
    with Cons show ?thesis by simp
  qed
qed

lemma rmap_Inr_D:
  assumes "rmap f xs = Inr ys"
  shows "list_all2 (\<lambda>x y. f x = Inr y) xs ys"
  using assms by (induction xs arbitrary: ys) (auto simp: res_simps)

section \<open>Dictionaries in insertion order\<close>

type_synonym ('k, 'v) dict = "('k \<times> 'v) list"

abbreviation dget :: "('k, 'v) dict \<Rightarrow> 'k \<Rightarrow> 'v option" where
  "dget d k \<equiv> map_of d k"

abbreviation dset :: "'k \<Rightarrow> 'v \<Rightarrow> ('k, 'v) dict \<Rightarrow> ('k, 'v) dict" where
  "dset k v d \<equiv> AList.update k v d"

abbreviation dkeys :: "('k, 'v) dict \<Rightarrow> 'k list" where
  "dkeys d \<equiv> map fst d"

abbreviation dvals :: "('k, 'v) dict \<Rightarrow> 'v list" where
  "dvals d \<equiv> map snd d"

definition dget_or :: "('k, 'v) dict \<Rightarrow> 'k \<Rightarrow> 'v \<Rightarrow> 'v" where
  "dget_or d k v = (case map_of d k of None \<Rightarrow> v | Some x \<Rightarrow> x)"

definition dict_of :: "('k \<times> 'v) list \<Rightarrow> ('k, 'v) dict" where
  "dict_of kvs = fold (\<lambda>(k, v) d. AList.update k v d) kvs []"

definition dict_wf :: "('k, 'v) dict \<Rightarrow> bool" where
  "dict_wf d \<longleftrightarrow> distinct (map fst d)"

lemma dget_dset [simp, dict_simps]: "dget (dset k v d) k' = (if k' = k then Some v else dget d k')"
  by (simp add: update_conv')

lemma dget_or_dset: "dget_or (dset k v d) k' x = (if k' = k then v else dget_or d k' x)"
  by (simp add: dget_or_def update_conv')

lemma dict_wf_dset [simp, intro]: "dict_wf d \<Longrightarrow> dict_wf (dset k v d)"
  by (simp add: dict_wf_def distinct_update)

lemma dict_wf_Nil [simp]: "dict_wf []"
  by (simp add: dict_wf_def)

lemma keys_dset [simp]: "fst ` set (dset k v d) = insert k (fst ` set d)"
  using update_keys [of k v d] by (auto simp flip: set_map split: if_splits)

lemma dget_None_iff [dict_simps]: "dget d k = None \<longleftrightarrow> k \<notin> fst ` set d"
  by (simp add: map_of_eq_None_iff)

lemma dget_mem: "dget d k = Some v \<Longrightarrow> (k, v) \<in> set d"
  by (rule map_of_SomeD)

lemma dget_wf_iff: "dict_wf d \<Longrightarrow> dget d k = Some v \<longleftrightarrow> (k, v) \<in> set d"
  by (auto simp: dict_wf_def dest: map_of_SomeD)

lemma dset_fresh: "k \<notin> fst ` set d \<Longrightarrow> dset k v d = d @ [(k, v)]"
  by (induction d) auto

lemma fold_dset_wf: "dict_wf d \<Longrightarrow> dict_wf (fold (\<lambda>(k, v) d. dset k v d) kvs d)"
  by (induction kvs arbitrary: d) auto

lemma dict_wf_dict_of [simp]: "dict_wf (dict_of kvs)"
  by (simp add: dict_of_def fold_dset_wf)

lemma keys_fold_dset:
  "fst ` set (fold (\<lambda>(k, v) d. dset k v d) kvs d) = fst ` set d \<union> fst ` set kvs"
  by (induction kvs arbitrary: d) (simp_all add: case_prod_beta)

lemma keys_dict_of [simp]: "fst ` set (dict_of kvs) = fst ` set kvs"
  by (simp add: dict_of_def keys_fold_dset)

lemma dget_fold_dset:
  "dget (fold (\<lambda>(k, v) d. dset k v d) kvs d) k = (case dget (rev kvs) k of None \<Rightarrow> dget d k | Some v \<Rightarrow> Some v)"
proof (induction kvs arbitrary: d)
  case Nil
  then show ?case by simp
next
  case (Cons p kvs)
  show ?case
    by (cases p) (auto simp: Cons.IH map_add_def split: option.splits)
qed

lemma dget_dict_of [dict_simps]: "dget (dict_of kvs) k = dget (rev kvs) k"
  by (simp add: dict_of_def dget_fold_dset split: option.splits)

lemma fold_dset_distinct:
  "distinct (map fst kvs) \<Longrightarrow> fst ` set kvs \<inter> fst ` set d = {} \<Longrightarrow>
   fold (\<lambda>(k, v) d. dset k v d) kvs d = d @ kvs"
proof (induction kvs arbitrary: d)
  case Nil
  then show ?case by simp
next
  case (Cons p kvs)
  obtain k v where p: "p = (k, v)" by (cases p)
  with Cons.prems have "k \<notin> fst ` set d" by auto
  then have upd: "dset k v d = d @ [(k, v)]" by (rule dset_fresh)
  have "fold (\<lambda>(k, v) d. dset k v d) kvs (d @ [(k, v)]) = (d @ [(k, v)]) @ kvs"
    using Cons.prems p by (intro Cons.IH) auto
  then show ?case by (simp add: p upd)
qed

lemma dict_of_distinct: "distinct (map fst kvs) \<Longrightarrow> dict_of kvs = kvs"
  by (simp add: dict_of_def fold_dset_distinct)

text \<open>Comprehensions that keep one entry per element, \<open>{f(x): g(x) for x in xs if g(x) is not None}\<close>.\<close>

lemma set_pairs:
  "set (List.map_filter (\<lambda>x. map_option (Pair (f x)) (g x)) xs) = {(f x, y) |x y. x \<in> set xs \<and> g x = Some y}"
  by (induction xs) (auto simp: List.map_filter_simps split: option.splits)

lemma distinct_pairs:
  "distinct (map f xs) \<Longrightarrow> distinct (map fst (List.map_filter (\<lambda>x. map_option (Pair (f x)) (g x)) xs))"
  by (induction xs) (auto simp: List.map_filter_simps set_pairs split: option.splits)

lemma dget_pairs:
  assumes "distinct (map f xs)"
  shows "dget (dict_of (List.map_filter (\<lambda>x. map_option (Pair (f x)) (g x)) xs)) k = Some y
    \<longleftrightarrow> (\<exists>x \<in> set xs. f x = k \<and> g x = Some y)"
  using distinct_pairs [OF assms, of g]
  by (auto simp: dict_of_distinct dget_wf_iff dict_wf_def set_pairs)

section \<open>List idioms\<close>

lemma set_map_filter: "set (List.map_filter g xs) = {y. \<exists>x \<in> set xs. g x = Some y}"
  by (induction xs) (auto simp: List.map_filter_simps split: option.splits)

text \<open>\<open>dict.fromkeys(xs)\<close>: first occurrences, in order.\<close>

fun dedup :: "'a list \<Rightarrow> 'a list" where
  "dedup [] = []"
| "dedup (x # xs) = x # removeAll x (dedup xs)"

lemma set_dedup [simp]: "set (dedup xs) = set xs"
  by (induction xs) auto

lemma distinct_dedup [simp]: "distinct (dedup xs)"
  by (induction xs) (auto simp: distinct_removeAll)

lemma dedup_Nil [simp]: "dedup xs = [] \<longleftrightarrow> xs = []"
  by (cases xs) simp_all

lemma dedup_distinct [simp]: "distinct xs \<Longrightarrow> dedup xs = xs"
  by (induction xs) auto

text \<open>\<open>max(xs, key=f)\<close>: the first element whose key is largest.\<close>

fun max_from :: "('a \<Rightarrow> 'k::linorder) \<Rightarrow> 'a \<Rightarrow> 'a list \<Rightarrow> 'a" where
  "max_from f m [] = m"
| "max_from f m (x # xs) = max_from f (if f m < f x then x else m) xs"

definition max_by :: "('a \<Rightarrow> 'k::linorder) \<Rightarrow> 'a list \<Rightarrow> 'a option" where
  "max_by f xs = (case xs of [] \<Rightarrow> None | x # ys \<Rightarrow> Some (max_from f x ys))"

definition max_or :: "'k::linorder \<Rightarrow> 'k list \<Rightarrow> 'k" where
  "max_or d xs = (case xs of [] \<Rightarrow> d | x # ys \<Rightarrow> fold max ys x)"

lemma max_from_in: "max_from f m xs \<in> insert m (set xs)"
proof (induction xs arbitrary: m)
  case Nil
  then show ?case by simp
next
  case (Cons x xs)
  from Cons.IH [of "if f m < f x then x else m"] show ?case by (auto split: if_splits)
qed

lemma max_from_ge: "x \<in> insert m (set xs) \<Longrightarrow> f x \<le> f (max_from f m xs)"
proof (induction xs arbitrary: m x)
  case Nil
  then show ?case by simp
next
  case (Cons y ys)
  have step: "f (if f m < f y then y else m) \<le> f (max_from f (if f m < f y then y else m) ys)"
    by (rule Cons.IH) simp
  from Cons.prems consider "x = m" | "x = y" | "x \<in> set ys" by auto
  then show ?case
  proof cases
    case 3
    then show ?thesis using Cons.IH [of x "if f m < f y then y else m"] by simp
  qed (use step in \<open>auto split: if_splits\<close>)
qed

lemma max_by_None [simp]: "max_by f xs = None \<longleftrightarrow> xs = []"
  by (simp add: max_by_def split: list.splits)

lemma max_by_Nil [simp]: "max_by f [] = None"
  by (simp add: max_by_def)

lemma max_by_in: "max_by f xs = Some x \<Longrightarrow> x \<in> set xs"
  using max_from_in [of f] by (auto simp: max_by_def split: list.splits)

lemma max_by_ge: "max_by f xs = Some x \<Longrightarrow> y \<in> set xs \<Longrightarrow> f y \<le> f x"
  by (cases xs) (auto simp: max_by_def intro: max_from_ge)

lemma max_or_Max: "xs \<noteq> [] \<Longrightarrow> max_or d xs = Max (set xs)"
  by (cases xs) (simp_all add: max_or_def flip: Max.set_eq_fold)

lemma max_or_Nil [simp]: "max_or d [] = d"
  by (simp add: max_or_def)

lemma max_or_in: "xs \<noteq> [] \<Longrightarrow> max_or d xs \<in> set xs"
  by (simp add: max_or_Max)

lemma max_or_ge: "x \<in> set xs \<Longrightarrow> x \<le> max_or d xs"
  by (cases "xs = []") (auto simp: max_or_Max)

lemma inj_on_pair: "inj_on g S \<Longrightarrow> inj_on (\<lambda>x. (f x, g x)) S"
  by (auto simp: inj_on_def)

text \<open>Grouping with \<open>d.setdefault(key(x), []).append(x)\<close>.\<close>

definition dict_append :: "'k \<Rightarrow> 'v \<Rightarrow> ('k, 'v list) dict \<Rightarrow> ('k, 'v list) dict" where
  "dict_append k x d = dset k (dget_or d k [] @ [x]) d"

definition group_by :: "('a \<Rightarrow> 'k) \<Rightarrow> 'a list \<Rightarrow> ('k, 'a list) dict" where
  "group_by f xs = fold (\<lambda>x d. dict_append (f x) x d) xs []"

lemma dict_wf_fold_append: "dict_wf d \<Longrightarrow> dict_wf (fold (\<lambda>x d. dict_append (f x) (g x) d) xs d)"
  by (induction xs arbitrary: d) (auto simp: dict_append_def)

lemma dget_or_fold_append:
  "dget_or (fold (\<lambda>x d. dict_append (f x) (g x) d) xs d) k [] =
   dget_or d k [] @ map g (filter (\<lambda>x. f x = k) xs)"
  by (induction xs arbitrary: d) (auto simp: dict_append_def dget_or_def split: option.splits)

lemma keys_fold_append:
  "fst ` set (fold (\<lambda>x d. dict_append (f x) (g x) d) xs d) = fst ` set d \<union> f ` set xs"
  by (induction xs arbitrary: d) (simp_all add: dict_append_def)

lemma dget_group_by:
  "dget (group_by f xs) k = (if k \<in> f ` set xs then Some (filter (\<lambda>x. f x = k) xs) else None)"
proof -
  have keys: "fst ` set (group_by f xs) = f ` set xs"
    using keys_fold_append [of f "\<lambda>x. x" xs "[]"] by (simp add: group_by_def)
  have vals: "dget_or (group_by f xs) k [] = filter (\<lambda>x. f x = k) xs"
    using dget_or_fold_append [of f "\<lambda>x. x" xs "[]" k] by (simp add: group_by_def dget_or_def)
  show ?thesis
  proof (cases "dget (group_by f xs) k")
    case None
    then have "k \<notin> f ` set xs" by (simp add: dget_None_iff keys)
    with None show ?thesis by simp
  next
    case (Some ys)
    then have "k \<in> f ` set xs" using keys by (force dest: map_of_SomeD)
    moreover have "ys = filter (\<lambda>x. f x = k) xs" using vals Some by (simp add: dget_or_def)
    ultimately show ?thesis using Some by simp
  qed
qed

text \<open>Sorting and grouping commute with a change of the elements that keeps their keys.\<close>

lemma sort_key_map_inv: "(\<And>x. f (g x) = f x) \<Longrightarrow> sort_key f (map g xs) = map g (sort_key f xs)"
proof -
  assume key: "\<And>x. f (g x) = f x"
  have "insort_key f (g x) (map g ys) = map g (insort_key f x ys)" for x ys
    by (induction ys) (simp_all add: key)
  then show ?thesis by (induction xs) simp_all
qed

lemma dset_map: "dset k (h v) (map (apsnd h) d) = map (apsnd h) (dset k v d)"
  by (induction d) auto

lemma dget_or_map: "dget_or (map (apsnd (map g)) d) k [] = map g (dget_or d k [])"
  by (induction d) (auto simp: dget_or_def)

lemma fold_append_map:
  "(\<And>x. f (g x) = f x) \<Longrightarrow>
   fold (\<lambda>x d. dict_append (f x) x d) (map g xs) (map (apsnd (map g)) d)
   = map (apsnd (map g)) (fold (\<lambda>x d. dict_append (f x) x d) xs d)"
proof (induction xs arbitrary: d)
  case Nil
  then show ?case by simp
next
  case (Cons x xs)
  have "dict_append (f x) (g x) (map (apsnd (map g)) d) = map (apsnd (map g)) (dict_append (f x) x d)"
    by (simp add: dict_append_def dget_or_map flip: dset_map)
  then show ?case using Cons by simp
qed

lemma group_by_map: "(\<And>x. f (g x) = f x) \<Longrightarrow> group_by f (map g xs) = map (apsnd (map g)) (group_by f xs)"
  using fold_append_map [of f g xs "[]"] by (simp add: group_by_def)

lemma dict_wf_group_by [simp]: "dict_wf (group_by f xs)"
  by (simp add: group_by_def dict_wf_fold_append [where g = "\<lambda>x. x", simplified])

lemma set_group_by:
  "set (group_by f xs) = (\<lambda>k. (k, filter (\<lambda>x. f x = k) xs)) ` (f ` set xs)"
proof -
  have "(k, ys) \<in> set (group_by f xs) \<longleftrightarrow> k \<in> f ` set xs \<and> ys = filter (\<lambda>x. f x = k) xs" for k ys
    using dget_wf_iff [OF dict_wf_group_by, of f xs k ys] by (auto simp: dget_group_by split: if_splits)
  then show ?thesis by auto
qed

end
