(* ===== verification/PyValues.thy ===== *)
theory PyValues
  imports Prelude
begin

text \<open>
  Python values the source inspects at run time: strings, numbers and the dynamically typed values
  that reach a validating constructor (\<open>__post_init__\<close>) or come out of decoded JSON.
  A \<open>char\<close> stands for the code point with its number, so strings range over U+0000 to U+00FF;
  \<open>lower_str\<close> and \<open>strip_str\<close> follow \<open>str.lower\<close> and \<open>str.strip\<close> on that range. Floats are exact
  reals with the two infinities and NaN: rounding is not modelled.
\<close>

section \<open>Strings\<close>

definition lower_char :: "char \<Rightarrow> char" where
  "lower_char c =
     (let n = (of_char c :: nat) in
      if (65 \<le> n \<and> n \<le> 90) \<or> (192 \<le> n \<and> n \<le> 222 \<and> n \<noteq> 215) then char_of (n + 32) else c)"

definition lower_str :: "string \<Rightarrow> string" where
  "lower_str s = map lower_char s"

definition is_space :: "char \<Rightarrow> bool" where
  "is_space c =
     (let n = (of_char c :: nat) in
      (9 \<le> n \<and> n \<le> 13) \<or> (28 \<le> n \<and> n \<le> 32) \<or> n = 133 \<or> n = 160)"

definition is_digit :: "char \<Rightarrow> bool" where
  "is_digit c = (let n = (of_char c :: nat) in 48 \<le> n \<and> n \<le> 57)"

definition lstrip_str :: "string \<Rightarrow> string" where
  "lstrip_str s = dropWhile is_space s"

definition rstrip_str :: "string \<Rightarrow> string" where
  "rstrip_str s = rev (dropWhile is_space (rev s))"

definition strip_str :: "string \<Rightarrow> string" where
  "strip_str s = rstrip_str (lstrip_str s)"

definition startswith :: "string \<Rightarrow> string \<Rightarrow> bool" where
  "startswith s p = (take (length p) s = p)"

definition endswith :: "string \<Rightarrow> string \<Rightarrow> bool" where
  "endswith s p = (length p \<le> length s \<and> drop (length s - length p) s = p)"

text \<open>\<open>needle in s\<close> for strings.\<close>

fun contains_str :: "string \<Rightarrow> string \<Rightarrow> bool" where
  "contains_str [] p = (p = [])"
| "contains_str (c # s) p = (startswith (c # s) p \<or> contains_str s p)"

text \<open>\<open>s.split(c)\<close> for a one-character separator: always at least one part.\<close>

fun split_on :: "char \<Rightarrow> string \<Rightarrow> string list" where
  "split_on c [] = [[]]"
| "split_on c (x # s) =
     (if x = c then [] # split_on c s
      else (case split_on c s of [] \<Rightarrow> [[x]] | p # ps \<Rightarrow> (x # p) # ps))"

fun join_str :: "string \<Rightarrow> string list \<Rightarrow> string" where
  "join_str sep [] = []"
| "join_str sep [s] = s"
| "join_str sep (s # ss) = s @ sep @ join_str sep ss"

lemma strip_ends:
  "strip_str s = [] \<or> (\<not> is_space (hd (strip_str s)) \<and> \<not> is_space (last (strip_str s)))"
proof -
  have lead: "t = [] \<or> \<not> is_space (hd t) \<Longrightarrow> rstrip_str t = [] \<or> \<not> is_space (hd (rstrip_str t))" for t
    by (induction t rule: rev_induct) (auto simp: rstrip_str_def hd_append split: if_splits)
  have trail: "rstrip_str t = [] \<or> \<not> is_space (last (rstrip_str t))" for t
    using hd_dropWhile [of is_space "rev t"] by (auto simp: rstrip_str_def last_rev)
  have "lstrip_str s = [] \<or> \<not> is_space (hd (lstrip_str s))"
    by (metis hd_dropWhile lstrip_str_def)
  then show ?thesis using lead trail by (auto simp: strip_str_def)
qed

lemma lstrip_id: "s = [] \<or> \<not> is_space (hd s) \<Longrightarrow> lstrip_str s = s"
  by (cases s) (auto simp: lstrip_str_def)

lemma rstrip_id: "s = [] \<or> \<not> is_space (last s) \<Longrightarrow> rstrip_str s = s"
  by (cases s rule: rev_cases) (auto simp: rstrip_str_def)

lemma strip_id: "s = [] \<or> (\<not> is_space (hd s) \<and> \<not> is_space (last s)) \<Longrightarrow> strip_str s = s"
  by (auto simp: strip_str_def lstrip_id rstrip_id)

lemma strip_strip [simp]: "strip_str (strip_str s) = strip_str s"
  using strip_ends [of s] by (rule strip_id)

lemma startswith_iff: "startswith s p \<longleftrightarrow> (\<exists>t. s = p @ t)"
  by (auto simp: startswith_def) (metis append_take_drop_id)

lemma endswith_iff: "endswith s p \<longleftrightarrow> (\<exists>t. s = t @ p)"
  by (auto simp: endswith_def) (metis append_take_drop_id)

lemma split_on_nonempty [simp]: "split_on c s \<noteq> []"
  by (induction c s rule: split_on.induct) (auto split: list.splits)

lemma join_split_on: "join_str [c] (split_on c s) = s"
proof (induction c s rule: split_on.induct)
  case (1 c)
  then show ?case by simp
next
  case (2 c x s)
  obtain p ps where ps: "split_on c s = p # ps" using split_on_nonempty by (cases "split_on c s") auto
  with 2 show ?case by (cases ps) (auto split: if_splits)
qed

section \<open>Numbers\<close>

datatype pyfloat = Fin real | PosInf | NegInf | NotANumber

datatype pynum = IntN int | FloatN pyfloat

fun fl_isfinite :: "pyfloat \<Rightarrow> bool" where
  "fl_isfinite (Fin x) = True"
| "fl_isfinite _ = False"

fun fl_le :: "pyfloat \<Rightarrow> pyfloat \<Rightarrow> bool" where
  "fl_le NotANumber _ = False"
| "fl_le _ NotANumber = False"
| "fl_le NegInf _ = True"
| "fl_le _ PosInf = True"
| "fl_le (Fin x) (Fin y) = (x \<le> y)"
| "fl_le _ _ = False"

fun fl_of_num :: "pynum \<Rightarrow> pyfloat" where
  "fl_of_num (IntN i) = Fin (of_int i)"
| "fl_of_num (FloatN f) = f"

text \<open>The number a finite value denotes; read only where the value has been checked to be finite.\<close>

fun real_of_fl :: "pyfloat \<Rightarrow> real" where
  "real_of_fl (Fin x) = x"
| "real_of_fl _ = 0"

lemma fl_isfinite_iff: "fl_isfinite f \<longleftrightarrow> (\<exists>x. f = Fin x)"
  by (cases f) auto

lemma fl_le_Fin [simp]: "fl_le (Fin x) f \<longleftrightarrow> f = PosInf \<or> (\<exists>y. f = Fin y \<and> x \<le> y)"
  by (cases f) auto

lemma fl_le_Fin_right [simp]: "fl_le f (Fin y) \<longleftrightarrow> f = NegInf \<or> (\<exists>x. f = Fin x \<and> x \<le> y)"
  by (cases f) auto

text \<open>\<open>str(n)\<close> for integers and the fixed-point format \<open>f"{x:.df}"\<close> (ties to even).\<close>

fun str_of_nat :: "nat \<Rightarrow> string" where
  "str_of_nat n =
     (if n < 10 then [char_of (48 + n)] else str_of_nat (n div 10) @ [char_of (48 + n mod 10)])"

declare str_of_nat.simps [simp del]

definition str_of_int :: "int \<Rightarrow> string" where
  "str_of_int i = (if i < 0 then ''-'' @ str_of_nat (nat (- i)) else str_of_nat (nat i))"

definition round_half_even :: "real \<Rightarrow> int" where
  "round_half_even x =
     (let f = \<lfloor>x\<rfloor>; r = x - of_int f in
      if r < 1/2 then f else if 1/2 < r then f + 1 else if even f then f else f + 1)"

definition pad_zeros :: "nat \<Rightarrow> string \<Rightarrow> string" where
  "pad_zeros n s = replicate (n - length s) (CHR ''0'') @ s"

definition fmt_fixed :: "nat \<Rightarrow> real \<Rightarrow> string" where
  "fmt_fixed d x =
     (let m = nat (round_half_even (\<bar>x\<bar> * 10 ^ d)); sg = (if x < 0 then ''-'' else []) in
      if d = 0 then sg @ str_of_nat m
      else sg @ str_of_nat (m div 10 ^ d) @ ''.'' @ pad_zeros d (str_of_nat (m mod 10 ^ d)))"

lemma round_half_even_bounds: "\<bar>of_int (round_half_even x) - x\<bar> \<le> 1/2"
  by (simp add: round_half_even_def Let_def, linarith?)

section \<open>Dynamically typed values\<close>

datatype pyval =
    VNone
  | VBool bool
  | VNum pynum
  | VStr string
  | VList "pyval list"
  | VDict "(string \<times> pyval) list"

fun opt_str :: "string option \<Rightarrow> pyval" where
  "opt_str None = VNone"
| "opt_str (Some s) = VStr s"

fun opt_num :: "pynum option \<Rightarrow> pyval" where
  "opt_num None = VNone"
| "opt_num (Some n) = VNum n"

text \<open>\<open>isinstance(v, str)\<close> or \<open>None\<close>, and a number that is not a bool or \<open>None\<close>.\<close>

fun as_opt_str :: "pyval \<Rightarrow> string option option" where
  "as_opt_str VNone = Some None"
| "as_opt_str (VStr s) = Some (Some s)"
| "as_opt_str _ = None"

fun as_opt_num :: "pyval \<Rightarrow> pynum option option" where
  "as_opt_num VNone = Some None"
| "as_opt_num (VNum n) = Some (Some n)"
| "as_opt_num _ = None"

lemma as_opt_str_opt [simp]: "as_opt_str (opt_str s) = Some s"
  by (cases s) auto

lemma as_opt_num_opt [simp]: "as_opt_num (opt_num n) = Some n"
  by (cases n) auto

text \<open>\<open>bool(v)\<close>, and \<open>a or b\<close>.\<close>

fun py_truthy :: "pyval \<Rightarrow> bool" where
  "py_truthy VNone = False"
| "py_truthy (VBool b) = b"
| "py_truthy (VNum (IntN i)) = (i \<noteq> 0)"
| "py_truthy (VNum (FloatN f)) = (f \<noteq> Fin 0)"
| "py_truthy (VStr s) = (s \<noteq> [])"
| "py_truthy (VList vs) = (vs \<noteq> [])"
| "py_truthy (VDict d) = (d \<noteq> [])"

definition py_or :: "pyval \<Rightarrow> pyval \<Rightarrow> pyval" where
  "py_or a b = (if py_truthy a then a else b)"

text \<open>\<open>str(v)\<close>: the printing of floats and containers is \<open>repr\<close>.\<close>

fun py_str :: "(pyval \<Rightarrow> string) \<Rightarrow> pyval \<Rightarrow> string" where
  "py_str repr (VStr s) = s"
| "py_str repr VNone = ''None''"
| "py_str repr (VBool b) = (if b then ''True'' else ''False'')"
| "py_str repr (VNum (IntN i)) = str_of_int i"
| "py_str repr v = repr v"

end
