(* ===== verification/Interfaces.thy ===== *)
theory Interfaces
  imports Prelude
begin

text \<open>
  Contracts that several components of the program share, each stated once as a locale with the
  consequences its clients need. The component theories interpret them on their own definitions.
\<close>

section \<open>Ranking a list by a key\<close>

locale ranking =
  fixes rank :: "'a list \<Rightarrow> 'a list"
    and key :: "'a \<Rightarrow> 'k::linorder"
  assumes rank_mset: "mset (rank xs) = mset xs"
    and rank_sorted: "sorted (map key (rank xs))"
begin

lemma rank_set: "set (rank xs) = set xs"
  using rank_mset by (metis set_mset_mset)

lemma rank_length: "length (rank xs) = length xs"
  using rank_mset by (metis size_mset)

lemma rank_distinct: "distinct (map f (rank xs)) \<longleftrightarrow> distinct (map f xs)"
  using rank_mset by (metis mset_map mset_eq_imp_distinct_iff)

lemma rank_first: "rank xs = y # ys \<Longrightarrow> x \<in> set xs \<Longrightarrow> key y \<le> key x"
  using rank_sorted [of xs] rank_set [of xs] by auto

lemma rank_cut: "x \<in> set (take n (rank xs)) \<Longrightarrow> y \<in> set (drop n (rank xs)) \<Longrightarrow> key x \<le> key y"
proof -
  assume "x \<in> set (take n (rank xs))" "y \<in> set (drop n (rank xs))"
  moreover have "sorted (map key (take n (rank xs)) @ map key (drop n (rank xs)))"
    using rank_sorted [of xs] by (simp flip: map_append)
  ultimately show ?thesis by (auto simp: sorted_append)
qed

lemma rank_strict:
  assumes "distinct (map key xs)"
  shows "sorted_wrt (\<lambda>x y. key x < key y) (rank xs)"
proof -
  have "distinct (map key (rank xs))" using assms by (simp only: rank_distinct)
  then have "sorted_wrt (<) (map key (rank xs))" using rank_sorted by (simp add: strict_sorted_iff)
  then show ?thesis by (simp add: sorted_wrt_map)
qed

lemma rank_order_free:
  assumes "mset xs = mset ys" and "distinct (map key xs)"
  shows "rank xs = rank ys"
proof (rule map_inj_on)
  have ms: "mset (rank xs) = mset (rank ys)" using assms(1) by (simp add: rank_mset)
  then have "mset (map key (rank xs)) = mset (map key (rank ys))" by simp
  then show "map key (rank xs) = map key (rank ys)"
    using rank_sorted by (metis properties_for_sort)
  have "set (rank xs) = set (rank ys)" using ms by (metis set_mset_mset)
  then show "inj_on key (set (rank xs) \<union> set (rank ys))" using assms(2) by (simp add: rank_set distinct_map)
qed

end

text \<open>\<open>sorted(xs, key=f)\<close> is the stable instance.\<close>

interpretation by_key: ranking "sort_key f" f for f
  by unfold_locales simp_all

section \<open>Grouping a list by a key\<close>

locale grouping =
  fixes grp :: "'x list \<Rightarrow> ('k \<times> 'x list) list"
    and key :: "'x \<Rightarrow> 'k"
  assumes grp_keys: "distinct (map fst (grp xs))"
    and grp_set: "set (grp xs) = (\<lambda>k. (k, filter (\<lambda>x. key x = k) xs)) ` key ` set xs"
begin

lemma grp_iff: "(k, ys) \<in> set (grp xs) \<longleftrightarrow> k \<in> key ` set xs \<and> ys = filter (\<lambda>x. key x = k) xs"
  by (auto simp: grp_set)

lemma grp_nonempty: "(k, ys) \<in> set (grp xs) \<Longrightarrow> ys \<noteq> []"
  by (auto simp: grp_iff filter_empty_conv)

lemma grp_member: "(k, ys) \<in> set (grp xs) \<Longrightarrow> x \<in> set ys \<longleftrightarrow> x \<in> set xs \<and> key x = k"
  by (auto simp: grp_iff)

lemma grp_cover: "x \<in> set xs \<Longrightarrow> (key x, filter (\<lambda>y. key y = key x) xs) \<in> set (grp xs)"
  by (simp add: grp_iff)

lemma grp_mset: "mset (concat (map snd (grp xs))) = mset xs"
proof -
  have sel: "distinct ks \<Longrightarrow>
      mset (concat (map (\<lambda>k. filter (\<lambda>x. key x = k) xs) ks)) = mset (filter (\<lambda>x. key x \<in> set ks) xs)" for ks
  proof (induction ks)
    case Nil
    then show ?case by simp
  next
    case (Cons k ks)
    have "filter_mset (\<lambda>x. key x = k) (mset xs) + filter_mset (\<lambda>x. key x \<in> set ks) (mset xs)
        = filter_mset (\<lambda>x. key x = k \<or> key x \<in> set ks) (mset xs)"
      using Cons.prems by (intro multiset_eqI) auto
    with Cons show ?case by simp
  qed
  have groups: "map snd (grp xs) = map (\<lambda>k. filter (\<lambda>x. key x = k) xs) (map fst (grp xs))"
    by (auto simp: grp_iff)
  have keys: "set (map fst (grp xs)) = key ` set xs"
    by (simp add: grp_set image_image)
  show ?thesis
    unfolding groups sel [OF grp_keys [of xs]] keys by (simp add: filter_id_conv [THEN iffD2])
qed

lemma grp_count: "sum_list (map (\<lambda>g. length (snd g)) (grp xs)) = length xs"
proof -
  have "sum_list (map (\<lambda>g. length (snd g)) (grp xs)) = length (concat (map snd (grp xs)))"
    by (simp add: length_concat comp_def)
  also have "\<dots> = length xs" using grp_mset [of xs] by (metis size_mset)
  finally show ?thesis .
qed

end

text \<open>\<open>d.setdefault(key(x), []).append(x)\<close> is the instance in insertion order.\<close>

interpretation groups: grouping "group_by f" f for f
  by unfold_locales (simp_all add: set_group_by dict_wf_group_by [unfolded dict_wf_def])

section \<open>Gating evidence\<close>

text \<open>
  A gate takes the list of all observations, refuses one that names a coordinate twice, and
  otherwise lets through the admissible observations in their order.
\<close>

locale evidence_gate =
  fixes gate :: "'o list \<Rightarrow> 'o list res"
    and ok :: "'o \<Rightarrow> bool"
    and ident :: "'o \<Rightarrow> string"
  assumes gate_distinct: "distinct (map ident os) \<Longrightarrow> gate os = Inr (filter ok os)"
    and gate_duplicate: "\<not> distinct (map ident os) \<Longrightarrow> \<exists>e. gate os = Inl e"
begin

lemma gate_Inr_iff: "gate os = Inr us \<longleftrightarrow> distinct (map ident os) \<and> us = filter ok os"
  using gate_distinct [of os] gate_duplicate [of os]
  by (cases "distinct (map ident os)") auto

lemma gate_inert:
  assumes "\<not> ok ob" and "distinct (map ident (os @ ob # os'))"
  shows "gate (os @ ob # os') = gate (os @ os')"
proof -
  from assms(2) have "distinct (map ident (os @ os'))" by auto
  with assms show ?thesis by (simp add: gate_distinct)
qed

lemma gate_idem: "gate os = Inr us \<Longrightarrow> gate us = Inr us"
  by (auto simp: gate_Inr_iff distinct_map_filter)

lemma gate_distinct_ids: "gate os = Inr us \<Longrightarrow> distinct (map ident us)"
  by (auto simp: gate_Inr_iff distinct_map_filter)

end

section \<open>Machines driven by events\<close>

text \<open>
  A run is admissible when every event is enabled in the state it meets. An invariant that every
  enabled event keeps holds at every point of an admissible run.
\<close>

fun admissible :: "('s \<Rightarrow> 'e \<Rightarrow> bool) \<Rightarrow> ('s \<Rightarrow> 'e \<Rightarrow> 's) \<Rightarrow> 's \<Rightarrow> 'e list \<Rightarrow> bool" where
  "admissible en step s [] = True"
| "admissible en step s (e # es) = (en s e \<and> admissible en step (step s e) es)"

locale event_machine =
  fixes init :: 's
    and step :: "'s \<Rightarrow> 'e \<Rightarrow> 's"
    and en :: "'s \<Rightarrow> 'e \<Rightarrow> bool"
    and inv :: "'s \<Rightarrow> bool"
  assumes inv_init: "inv init"
    and inv_step: "inv s \<Longrightarrow> en s e \<Longrightarrow> inv (step s e)"
begin

lemma inv_from: "inv s \<Longrightarrow> admissible en step s es \<Longrightarrow> inv (foldl step s es)"
  by (induction es arbitrary: s) (auto intro: inv_step)

lemma inv_run: "admissible en step init es \<Longrightarrow> inv (foldl step init es)"
  by (rule inv_from) (rule inv_init)

lemma admissible_append:
  "admissible en step s (es @ es') \<longleftrightarrow> admissible en step s es \<and> admissible en step (foldl step s es) es'"
  by (induction es arbitrary: s) auto

lemma inv_prefix: "admissible en step init (es @ es') \<Longrightarrow> inv (foldl step init es)"
  by (rule inv_run) (simp add: admissible_append)

end

end
