(* ===== verification/Candidates.thy ===== *)
theory Candidates
  imports PyValues Interfaces
begin

text \<open>
  Root-cause candidates (\<open>src/core/rca/candidates.py\<close>) and the feature rows they are built from
  (the dataclasses of \<open>src/core/rca/features.py\<close>): evidence per modality, the score of an injected
  scorer, and the deterministic ranking by descending score and then service name.
\<close>

section \<open>Feature rows\<close>

record service_features =
  sf_service :: string
  sf_log_err :: int
  sf_log_grp :: int
  sf_log_stack :: int
  sf_tr_rate :: real
  sf_tr_dur :: real
  sf_met_anom :: real
  sf_has_logs :: int
  sf_has_traces :: int
  sf_has_metrics :: int

record feature_table =
  ft_services :: "service_features list"
  ft_has_logs :: bool
  ft_has_traces :: bool
  ft_has_metrics :: bool

definition FEATURE_NAMES :: "string list" where
  "FEATURE_NAMES =
     [''log_err'', ''log_grp'', ''log_stack'', ''tr_rate'', ''tr_dur'', ''met_anom'',
      ''has_logs'', ''has_traces'', ''has_metrics'']"

text \<open>\<open>getattr(self, f)\<close> for a feature name.\<close>

definition feature_attr :: "service_features \<Rightarrow> string \<Rightarrow> pynum option" where
  "feature_attr sf f =
     (if f = ''log_err'' then Some (IntN (sf_log_err sf))
      else if f = ''log_grp'' then Some (IntN (sf_log_grp sf))
      else if f = ''log_stack'' then Some (IntN (sf_log_stack sf))
      else if f = ''tr_rate'' then Some (FloatN (Fin (sf_tr_rate sf)))
      else if f = ''tr_dur'' then Some (FloatN (Fin (sf_tr_dur sf)))
      else if f = ''met_anom'' then Some (FloatN (Fin (sf_met_anom sf)))
      else if f = ''has_logs'' then Some (IntN (sf_has_logs sf))
      else if f = ''has_traces'' then Some (IntN (sf_has_traces sf))
      else if f = ''has_metrics'' then Some (IntN (sf_has_metrics sf))
      else None)"

definition sf_as_dict :: "service_features \<Rightarrow> (string, pyval) dict" where
  "sf_as_dict sf =
     (''service'', VStr (sf_service sf)) #
     List.map_filter (\<lambda>f. map_option (\<lambda>n. (f, VNum n)) (feature_attr sf f)) FEATURE_NAMES"

definition sf_vector :: "service_features \<Rightarrow> string list \<Rightarrow> real list res" where
  "sf_vector sf names =
     rmap (\<lambda>f. case feature_attr sf f of
                 None \<Rightarrow> Inl (AttributeError f)
               | Some n \<Rightarrow> Inr (real_of_fl (fl_of_num n))) names"

section \<open>Candidates\<close>

record modality_evidence =
  me_modality :: string
  me_detail :: string
  me_signals :: "(string, real) dict"

record candidate =
  ca_service :: string
  ca_score :: real
  ca_features :: service_features
  ca_evidence :: "modality_evidence list"

definition ca_modalities :: "candidate \<Rightarrow> string list" where
  "ca_modalities c = map me_modality (ca_evidence c)"

definition candidate_to_dict :: "candidate \<Rightarrow> (string, pyval) dict" where
  "candidate_to_dict c =
     [(''service'', VStr (ca_service c)),
      (''score'', VNum (FloatN (Fin (ca_score c)))),
      (''modalities'', VList (map VStr (ca_modalities c))),
      (''evidence'', VList (map (\<lambda>e. VDict
         [(''modality'', VStr (me_modality e)), (''detail'', VStr (me_detail e)),
          (''signals'', VDict (map (\<lambda>(k, x). (k, VNum (FloatN (Fin x)))) (me_signals e)))]) (ca_evidence c))),
      (''features'', VDict (sf_as_dict (ca_features c)))]"

definition default_scorer :: "service_features \<Rightarrow> real" where
  "default_scorer sf = of_int (sf_log_grp sf)"

definition logs_evidence :: "service_features \<Rightarrow> modality_evidence" where
  "logs_evidence sf =
     \<lparr>me_modality = ''logs'',
      me_detail = str_of_int (sf_log_err sf) @ '' error lines (top fingerprint group ''
        @ str_of_int (sf_log_grp sf) @ '', '' @ str_of_int (sf_log_stack sf) @ '' stack-trace lines)'',
      me_signals = [(''log_err'', of_int (sf_log_err sf)), (''log_grp'', of_int (sf_log_grp sf)),
                    (''log_stack'', of_int (sf_log_stack sf))]\<rparr>"

definition traces_evidence :: "service_features \<Rightarrow> modality_evidence" where
  "traces_evidence sf =
     \<lparr>me_modality = ''traces'',
      me_detail = ''span-rate '' @ fmt_fixed 1 (sf_tr_rate sf) @ ''x baseline, p95 latency ''
        @ fmt_fixed 1 (sf_tr_dur sf) @ ''x'',
      me_signals = [(''tr_rate'', sf_tr_rate sf), (''tr_dur'', sf_tr_dur sf)]\<rparr>"

definition metrics_evidence :: "service_features \<Rightarrow> modality_evidence" where
  "metrics_evidence sf =
     \<lparr>me_modality = ''metrics'',
      me_detail = ''metric change '' @ fmt_fixed 1 (sf_met_anom sf) @ ''x baseline'',
      me_signals = [(''met_anom'', sf_met_anom sf)]\<rparr>"

definition evidence_for :: "service_features \<Rightarrow> modality_evidence list" where
  "evidence_for sf =
     (if sf_log_err sf > 0 then [logs_evidence sf] else []) @
     (if sf_tr_rate sf > 0 \<or> sf_tr_dur sf > 0 then [traces_evidence sf] else []) @
     (if sf_met_anom sf > 0 then [metrics_evidence sf] else [])"

definition rank_candidates :: "candidate list \<Rightarrow> candidate list" where
  "rank_candidates cs = sort_key (\<lambda>c. (- ca_score c, ca_service c)) cs"

definition mk_candidate :: "(service_features \<Rightarrow> real) \<Rightarrow> service_features \<Rightarrow> candidate" where
  "mk_candidate scorer sf =
     \<lparr>ca_service = sf_service sf, ca_score = scorer sf, ca_features = sf, ca_evidence = evidence_for sf\<rparr>"

definition build_candidates ::
  "feature_table \<Rightarrow> (service_features \<Rightarrow> real) \<Rightarrow> string set \<Rightarrow> candidate list" where
  "build_candidates table scorer exclude =
     rank_candidates
       (map (mk_candidate scorer)
         (filter (\<lambda>sf. sf_service sf \<notin> exclude) (ft_services table)))"

interpretation cand: ranking rank_candidates "\<lambda>c. (- ca_score c, ca_service c)"
  by unfold_locales (simp_all add: rank_candidates_def)

section \<open>Properties\<close>

lemma sf_vector_FEATURE_NAMES:
  "sf_vector sf FEATURE_NAMES =
     Inr [of_int (sf_log_err sf), of_int (sf_log_grp sf), of_int (sf_log_stack sf), sf_tr_rate sf,
          sf_tr_dur sf, sf_met_anom sf, of_int (sf_has_logs sf), of_int (sf_has_traces sf),
          of_int (sf_has_metrics sf)]"
  by (simp add: sf_vector_def FEATURE_NAMES_def feature_attr_def)

lemma candidate_keys_distinct:
  assumes "distinct (map sf_service rows)"
  shows "distinct (map (\<lambda>c. (- ca_score c, ca_service c))
           (map (mk_candidate scorer) (filter (\<lambda>sf. sf_service sf \<notin> exclude) rows)))"
proof -
  have "distinct (map sf_service (filter (\<lambda>sf. sf_service sf \<notin> exclude) rows))"
    using assms by (rule distinct_map_filter)
  then show ?thesis
    by (auto simp: distinct_map mk_candidate_def inj_on_def)
qed

lemma build_candidates_order_free:
  assumes "distinct (map sf_service (ft_services table))" and "mset rows = mset (ft_services table)"
  shows "build_candidates (table\<lparr>ft_services := rows\<rparr>) scorer exclude = build_candidates table scorer exclude"
proof -
  have "distinct (map sf_service rows)"
    using assms by (metis mset_eq_imp_distinct_iff mset_map)
  from candidate_keys_distinct [OF this] assms(2) show ?thesis
    unfolding build_candidates_def by (intro cand.rank_order_free) (simp_all add: mset_filter)
qed

text \<open>
  the candidate list holds exactly the table's services outside the exclusion list, each with its
  own score and evidence, strictly ordered by descending score and then service name, and does not
  depend on the order of the rows.
\<close>

theorem build_candidates_ranking:
  assumes "distinct (map sf_service (ft_services table))"
  shows "set (build_candidates table scorer exclude)
      = mk_candidate scorer ` {sf \<in> set (ft_services table). sf_service sf \<notin> exclude}
    \<and> sorted_wrt (\<lambda>a b. ca_score b < ca_score a \<or> ca_score a = ca_score b \<and> ca_service a < ca_service b)
        (build_candidates table scorer exclude)
    \<and> (\<forall>rows. mset rows = mset (ft_services table) \<longrightarrow>
         build_candidates (table\<lparr>ft_services := rows\<rparr>) scorer exclude = build_candidates table scorer exclude)"
proof (intro conjI allI impI)
  show "set (build_candidates table scorer exclude)
      = mk_candidate scorer ` {sf \<in> set (ft_services table). sf_service sf \<notin> exclude}"
    by (auto simp: build_candidates_def cand.rank_set)
  show "sorted_wrt (\<lambda>a b. ca_score b < ca_score a \<or> ca_score a = ca_score b \<and> ca_service a < ca_service b)
        (build_candidates table scorer exclude)"
    unfolding build_candidates_def
    by (rule sorted_wrt_mono_rel [OF _ cand.rank_strict [OF candidate_keys_distinct [OF assms]]])
      (auto simp: less_prod_def)
qed (rule build_candidates_order_free [OF assms])

text \<open>Three services, two of them with the same score, as a feature table.\<close>

definition example_row :: "string \<Rightarrow> int \<Rightarrow> service_features" where
  "example_row s g =
     \<lparr>sf_service = s, sf_log_err = g, sf_log_grp = g, sf_log_stack = 0, sf_tr_rate = 0, sf_tr_dur = 0,
      sf_met_anom = 0, sf_has_logs = 1, sf_has_traces = 0, sf_has_metrics = 0\<rparr>"

definition example_table :: feature_table where
  "example_table =
     \<lparr>ft_services = [example_row ''web'' 3, example_row ''api'' 3, example_row ''proxy'' 9],
      ft_has_logs = True, ft_has_traces = False, ft_has_metrics = False\<rparr>"

theorem build_candidates_ranking_witness:
  "sorted_wrt (\<lambda>a b. ca_score b < ca_score a \<or> ca_score a = ca_score b \<and> ca_service a < ca_service b)
     (build_candidates example_table default_scorer {''proxy''})
   \<and> map ca_service (build_candidates example_table default_scorer {''proxy''}) = [''api'', ''web'']"
proof -
  have "distinct (map sf_service (ft_services example_table))"
    by (simp add: example_table_def example_row_def)
  from build_candidates_ranking [OF this, of default_scorer "{''proxy''}"]
  show ?thesis
    by (simp add: build_candidates_def rank_candidates_def example_table_def example_row_def
        default_scorer_def mk_candidate_def)
qed

end
