(* ===== verification/Observables.thy ===== *)
theory Observables
  imports PyValues Interfaces
begin

text \<open>
  Availability-aware observables (\<open>src/core/rca/observable.py\<close>): the validated record, its
  dictionary form, and the primitives through which incident evidence is read. The three states
  uncollectable, collectable but unknown, and observed never collapse: \<open>wf_observable\<close> is exactly
  what the constructor guarantees.
\<close>

section \<open>Data\<close>

datatype availability = UNKNOWN | OBSERVED

abbreviation st_present :: string where "st_present \<equiv> ''present''"
abbreviation st_absent :: string where "st_absent \<equiv> ''absent''"
abbreviation st_high :: string where "st_high \<equiv> ''high''"
abbreviation st_low :: string where "st_low \<equiv> ''low''"
abbreviation st_normal :: string where "st_normal \<equiv> ''normal''"

record observable =
  ob_id :: string
  ob_collectable :: bool
  ob_availability :: availability
  ob_state :: "string option"
  ob_value :: "pynum option"
  ob_baseline_state :: "string option"
  ob_baseline_value :: "pynum option"
  ob_confidence :: pynum

text \<open>The arguments of the constructor before validation.\<close>

record raw_observable =
  raw_id :: pyval
  raw_collectable :: pyval
  raw_availability :: pyval
  raw_state :: pyval
  raw_value :: pyval
  raw_baseline_state :: pyval
  raw_baseline_value :: pyval
  raw_confidence :: pyval

section \<open>Construction\<close>

definition need :: "'a option \<Rightarrow> string \<Rightarrow> 'a res" where
  "need m msg = (case m of None \<Rightarrow> Inl (ValueError msg) | Some x \<Rightarrow> Inr x)"

fun nonempty_str :: "pyval \<Rightarrow> string option" where
  "nonempty_str (VStr s) = (if s = [] then None else Some s)"
| "nonempty_str _ = None"

fun as_bool :: "pyval \<Rightarrow> bool option" where
  "as_bool (VBool b) = Some b"
| "as_bool _ = None"

definition as_availability :: "pyval \<Rightarrow> availability option" where
  "as_availability v =
     (if v = VStr ''unknown'' then Some UNKNOWN
      else if v = VStr ''observed'' then Some OBSERVED else None)"

definition confidence_ok :: "pynum \<Rightarrow> bool" where
  "confidence_ok n = (case fl_of_num n of Fin x \<Rightarrow> 0 \<le> x \<and> x \<le> 1 | _ \<Rightarrow> False)"

fun as_confidence :: "pyval \<Rightarrow> pynum option" where
  "as_confidence (VNum n) = (if confidence_ok n then Some n else None)"
| "as_confidence _ = None"

definition Observable_init :: "raw_observable \<Rightarrow> observable res" where
  "Observable_init r =
     rbind (need (nonempty_str (raw_id r)) ''id'') (\<lambda>i.
     rbind (need (as_bool (raw_collectable r)) ''collectable'') (\<lambda>c.
     rbind (need (as_availability (raw_availability r)) ''availability'') (\<lambda>a.
     rbind (need (as_opt_str (raw_state r)) ''state'') (\<lambda>s.
     rbind (need (as_opt_str (raw_baseline_state r)) ''baseline_state'') (\<lambda>bs.
     rbind (need (as_opt_num (raw_value r)) ''value'') (\<lambda>v.
     rbind (need (as_opt_num (raw_baseline_value r)) ''baseline_value'') (\<lambda>bv.
     rbind (rguard (\<not> (a = OBSERVED \<and> s = None)) (ValueError ''OBSERVED requires a concrete state'')) (\<lambda>_.
     rbind (rguard (\<not> (a = UNKNOWN \<and> s \<noteq> None)) (ValueError ''UNKNOWN must not carry a state'')) (\<lambda>_.
     rbind (rguard (\<not> (\<not> c \<and> a = OBSERVED)) (ValueError ''collectable=False cannot be OBSERVED'')) (\<lambda>_.
     rbind (need (as_confidence (raw_confidence r)) ''measurement_confidence'') (\<lambda>m.
     Inr \<lparr>ob_id = i, ob_collectable = c, ob_availability = a, ob_state = s, ob_value = v,
          ob_baseline_state = bs, ob_baseline_value = bv, ob_confidence = m\<rparr>)))))))))))"

definition is_usable :: "observable \<Rightarrow> bool" where
  "is_usable ob = (ob_collectable ob \<and> ob_availability ob = OBSERVED)"

fun availability_value :: "availability \<Rightarrow> string" where
  "availability_value UNKNOWN = ''unknown''"
| "availability_value OBSERVED = ''observed''"

definition observable_to_dict :: "observable \<Rightarrow> (string, pyval) dict" where
  "observable_to_dict ob =
     [(''id'', VStr (ob_id ob)),
      (''collectable'', VBool (ob_collectable ob)),
      (''availability'', VStr (availability_value (ob_availability ob))),
      (''state'', opt_str (ob_state ob)),
      (''value'', opt_num (ob_value ob)),
      (''baseline_state'', opt_str (ob_baseline_state ob)),
      (''baseline_value'', opt_num (ob_baseline_value ob)),
      (''measurement_confidence'', VNum (ob_confidence ob))]"

definition observable_from_dict :: "(string, pyval) dict \<Rightarrow> observable res" where
  "observable_from_dict d =
     (case dget d ''id'' of
        None \<Rightarrow> Inl (KeyError ''id'')
      | Some i \<Rightarrow>
          Observable_init
            \<lparr>raw_id = i,
             raw_collectable = dget_or d ''collectable'' (VBool True),
             raw_availability = dget_or d ''availability'' (VStr ''unknown''),
             raw_state = dget_or d ''state'' VNone,
             raw_value = dget_or d ''value'' VNone,
             raw_baseline_state = dget_or d ''baseline_state'' VNone,
             raw_baseline_value = dget_or d ''baseline_value'' VNone,
             raw_confidence = dget_or d ''measurement_confidence'' (VNum (FloatN (Fin 1)))\<rparr>)"

definition unknown :: "string \<Rightarrow> pynum \<Rightarrow> observable res" where
  "unknown i conf =
     Observable_init
       \<lparr>raw_id = VStr i, raw_collectable = VBool True, raw_availability = VStr ''unknown'',
        raw_state = VNone, raw_value = VNone, raw_baseline_state = VNone,
        raw_baseline_value = VNone, raw_confidence = VNum conf\<rparr>"

definition observed :: "string \<Rightarrow> string \<Rightarrow> pynum option \<Rightarrow> string option \<Rightarrow> pynum option \<Rightarrow> pynum \<Rightarrow> observable res" where
  "observed i s v bs bv conf =
     Observable_init
       \<lparr>raw_id = VStr i, raw_collectable = VBool True, raw_availability = VStr ''observed'',
        raw_state = VStr s, raw_value = opt_num v, raw_baseline_state = opt_str bs,
        raw_baseline_value = opt_num bv, raw_confidence = VNum conf\<rparr>"

definition uncollectable :: "string \<Rightarrow> observable res" where
  "uncollectable i =
     Observable_init
       \<lparr>raw_id = VStr i, raw_collectable = VBool False, raw_availability = VStr ''unknown'',
        raw_state = VNone, raw_value = VNone, raw_baseline_state = VNone,
        raw_baseline_value = VNone, raw_confidence = VNum (FloatN (Fin 1))\<rparr>"

section \<open>Reading evidence\<close>

fun by_id_from :: "(string, observable) dict \<Rightarrow> observable list \<Rightarrow> (string, observable) dict res" where
  "by_id_from d [] = Inr d"
| "by_id_from d (ob # obs) =
     (if dget d (ob_id ob) \<noteq> None then Inl (ValueError ''duplicate observable id'')
      else by_id_from (dset (ob_id ob) ob d) obs)"

definition by_id :: "observable list \<Rightarrow> (string, observable) dict res" where
  "by_id obs = by_id_from [] obs"

definition usable_observables :: "observable list \<Rightarrow> observable list res" where
  "usable_observables obs = rbind (by_id obs) (\<lambda>d. Inr (filter is_usable (dvals d)))"

definition usable_ids :: "observable list \<Rightarrow> string list res" where
  "usable_ids obs = rbind (usable_observables obs) (\<lambda>us. Inr (sort (map ob_id us)))"

text \<open>\<open>tuple((f, prediction[f]) for f in ids if f in prediction)\<close>\<close>

definition project :: "(string, string) dict \<Rightarrow> string list \<Rightarrow> (string \<times> string) list" where
  "project prediction ids = List.map_filter (\<lambda>f. map_option (Pair f) (dget prediction f)) ids"

definition hypothesis_signature ::
  "(string, string) dict \<Rightarrow> observable list \<Rightarrow> (string \<times> string) list res" where
  "hypothesis_signature prediction obs = rbind (usable_ids obs) (\<lambda>ids. Inr (project prediction ids))"

definition evidence_score :: "(string, string) dict \<Rightarrow> observable list \<Rightarrow> real res" where
  "evidence_score expectations obs =
     rbind (usable_observables obs) (\<lambda>us.
       Inr (foldl (\<lambda>total ob.
              case dget expectations (ob_id ob) of
                None \<Rightarrow> total
              | Some e \<Rightarrow> if ob_state ob = Some e
                          then total + real_of_fl (fl_of_num (ob_confidence ob)) else total) 0 us))"

definition integration_gaps :: "observable list \<Rightarrow> string list res" where
  "integration_gaps obs =
     rbind (by_id obs) (\<lambda>d. Inr (sort (map ob_id (filter (\<lambda>ob. \<not> ob_collectable ob) (dvals d)))))"

text \<open>\<open>ObservableSet\<close> owns a validated tuple; its methods delegate to the functions above.\<close>

record observable_set =
  os_observables :: "observable list"

definition ObservableSet_init :: "observable list \<Rightarrow> observable_set res" where
  "ObservableSet_init obs = rbind (by_id obs) (\<lambda>_. Inr \<lparr>os_observables = obs\<rparr>)"

definition os_usable :: "observable_set \<Rightarrow> observable list res" where
  "os_usable s = usable_observables (os_observables s)"

definition os_usable_ids :: "observable_set \<Rightarrow> string list res" where
  "os_usable_ids s = usable_ids (os_observables s)"

definition os_signature :: "observable_set \<Rightarrow> (string, string) dict \<Rightarrow> (string \<times> string) list res" where
  "os_signature s prediction = hypothesis_signature prediction (os_observables s)"

definition os_score :: "observable_set \<Rightarrow> (string, string) dict \<Rightarrow> real res" where
  "os_score s expectations = evidence_score expectations (os_observables s)"

definition os_integration_gaps :: "observable_set \<Rightarrow> string list res" where
  "os_integration_gaps s = integration_gaps (os_observables s)"

section \<open>Well-formedness\<close>

definition wf_observable :: "observable \<Rightarrow> bool" where
  "wf_observable ob \<longleftrightarrow>
     ob_id ob \<noteq> [] \<and>
     (ob_availability ob = OBSERVED \<longleftrightarrow> ob_state ob \<noteq> None) \<and>
     (ob_availability ob = OBSERVED \<longrightarrow> ob_collectable ob) \<and>
     confidence_ok (ob_confidence ob)"

text \<open>The unvalidated arguments that name the fields of a given observable.\<close>

definition raw_of :: "observable \<Rightarrow> raw_observable" where
  "raw_of ob =
     \<lparr>raw_id = VStr (ob_id ob), raw_collectable = VBool (ob_collectable ob),
      raw_availability = VStr (availability_value (ob_availability ob)),
      raw_state = opt_str (ob_state ob), raw_value = opt_num (ob_value ob),
      raw_baseline_state = opt_str (ob_baseline_state ob),
      raw_baseline_value = opt_num (ob_baseline_value ob),
      raw_confidence = VNum (ob_confidence ob)\<rparr>"

lemma need_simps [simp]:
  "need m msg = Inr x \<longleftrightarrow> m = Some x"
  "need (Some y) msg = Inr y"
  "need None msg = Inl (ValueError msg)"
  by (auto simp: need_def split: option.splits)

lemma availability_neq [simp]:
  "a \<noteq> OBSERVED \<longleftrightarrow> a = UNKNOWN" "a \<noteq> UNKNOWN \<longleftrightarrow> a = OBSERVED"
  by (cases a; simp)+

lemma as_availability_value [simp]: "as_availability (VStr (availability_value a)) = Some a"
  by (cases a) (simp_all add: as_availability_def)

lemma as_confidence_Some: "as_confidence v = Some n \<longleftrightarrow> v = VNum n \<and> confidence_ok n"
  by (cases v) auto

lemma nonempty_str_Some: "nonempty_str v = Some s \<longleftrightarrow> v = VStr s \<and> s \<noteq> []"
  by (cases v) auto

lemma Observable_init_wf:
  assumes "Observable_init r = Inr ob"
  shows "wf_observable ob"
proof -
  from assms obtain i c a s v bs bv m where
      "i \<noteq> []" and "\<not> (a = OBSERVED \<and> s = None)" and "\<not> (a = UNKNOWN \<and> s \<noteq> None)"
      and "\<not> (\<not> c \<and> a = OBSERVED)" and "confidence_ok m"
      and ob: "ob = \<lparr>ob_id = i, ob_collectable = c, ob_availability = a, ob_state = s, ob_value = v,
          ob_baseline_state = bs, ob_baseline_value = bv, ob_confidence = m\<rparr>"
    unfolding Observable_init_def rbind_Inr_iff need_simps nonempty_str_Some as_confidence_Some
      rguard_simps by blast
  then show ?thesis by (cases a) (simp_all add: wf_observable_def)
qed

lemma Observable_init_raw_of: "wf_observable ob \<Longrightarrow> Observable_init (raw_of ob) = Inr ob"
  by (cases "ob_availability ob"; cases ob)
    (auto simp: Observable_init_def raw_of_def wf_observable_def as_availability_def)

lemma from_to_dict: "observable_from_dict (observable_to_dict ob) = Observable_init (raw_of ob)"
  by (simp add: observable_from_dict_def observable_to_dict_def raw_of_def dget_or_def)

lemma by_id_from_eq:
  "by_id_from d obs =
     (if distinct (map ob_id obs) \<and> ob_id ` set obs \<inter> fst ` set d = {}
      then Inr (d @ map (\<lambda>ob. (ob_id ob, ob)) obs) else Inl (ValueError ''duplicate observable id''))"
proof (induction obs arbitrary: d)
  case Nil
  then show ?case by simp
next
  case (Cons ob obs)
  show ?case
  proof (cases "dget d (ob_id ob) = None")
    case True
    then have "ob_id ob \<notin> fst ` set d" by (simp add: dict_simps)
    with True show ?thesis by (auto simp: Cons.IH dset_fresh)
  next
    case False
    then have "ob_id ob \<in> fst ` set d" by (simp add: dict_simps)
    with False show ?thesis by auto
  qed
qed

lemma by_id_eq:
  "by_id obs =
     (if distinct (map ob_id obs) then Inr (map (\<lambda>ob. (ob_id ob, ob)) obs)
      else Inl (ValueError ''duplicate observable id''))"
  by (simp add: by_id_def by_id_from_eq)

lemma usable_observables_eq:
  "usable_observables obs =
     (if distinct (map ob_id obs) then Inr (filter is_usable obs)
      else Inl (ValueError ''duplicate observable id''))"
  by (simp add: usable_observables_def by_id_eq comp_def)

interpretation phase_a: evidence_gate usable_observables is_usable ob_id
  by unfold_locales (simp_all add: usable_observables_eq)

lemma map_of_project:
  "distinct ids \<Longrightarrow> dget (project p ids) f = (if f \<in> set ids then dget p f else None)"
  by (induction ids) (auto simp: project_def List.map_filter_simps split: option.splits)

lemma project_eq_iff:
  assumes "distinct ids"
  shows "project p ids = project q ids \<longleftrightarrow> (\<forall>f \<in> set ids. dget p f = dget q f)"
proof
  assume "project p ids = project q ids"
  then show "\<forall>f \<in> set ids. dget p f = dget q f"
    using map_of_project [OF assms, of p] map_of_project [OF assms, of q] by metis
next
  assume eq: "\<forall>f \<in> set ids. dget p f = dget q f"
  then show "project p ids = project q ids"
    unfolding project_def by (induction ids) (auto simp: List.map_filter_simps split: option.splits)
qed

section \<open>Properties\<close>

lemma evidence_score_eq:
  assumes "distinct (map ob_id obs)"
  shows "evidence_score e obs = Inr (sum_list (map
    (\<lambda>ob. if dget e (ob_id ob) \<noteq> None \<and> ob_state ob = dget e (ob_id ob)
          then real_of_fl (fl_of_num (ob_confidence ob)) else 0) (filter is_usable obs)))"
proof -
  let ?w = "\<lambda>ob. if dget e (ob_id ob) \<noteq> None \<and> ob_state ob = dget e (ob_id ob)
          then real_of_fl (fl_of_num (ob_confidence ob)) else 0"
  have total: "foldl (\<lambda>total ob. case dget e (ob_id ob) of None \<Rightarrow> total
          | Some x \<Rightarrow> if ob_state ob = Some x then total + real_of_fl (fl_of_num (ob_confidence ob)) else total) t us
      = t + sum_list (map ?w us)" for t us
    by (induction us arbitrary: t) (auto split: option.splits)
  from assms show ?thesis
    using total [of 0 "filter is_usable obs"] unfolding evidence_score_def usable_observables_eq by simp
qed

lemma confidence_bounds:
  "confidence_ok n \<Longrightarrow> 0 \<le> real_of_fl (fl_of_num n) \<and> real_of_fl (fl_of_num n) \<le> 1"
  by (auto simp: confidence_ok_def split: pyfloat.splits)

text \<open>An observable as the collectors emit it, used in the witnesses.\<close>

definition example_observed :: "string \<Rightarrow> string \<Rightarrow> observable" where
  "example_observed i s =
     \<lparr>ob_id = i, ob_collectable = True, ob_availability = OBSERVED, ob_state = Some s,
      ob_value = Some (FloatN (Fin (3/2))), ob_baseline_state = Some st_normal,
      ob_baseline_value = None, ob_confidence = FloatN (Fin (1/2))\<rparr>"

definition example_unknown :: "string \<Rightarrow> observable" where
  "example_unknown i =
     \<lparr>ob_id = i, ob_collectable = True, ob_availability = UNKNOWN, ob_state = None,
      ob_value = None, ob_baseline_state = None, ob_baseline_value = None,
      ob_confidence = FloatN (Fin 1)\<rparr>"

text \<open>
  whatever arguments reach the constructor of \<open>Observable\<close>, an object it returns keeps the
  three availability states apart (an observed one has a state and is collectable, an unknown one
  has no state), has a finite confidence in [0, 1], and survives \<open>to_dict\<close> followed by \<open>from_dict\<close>.
\<close>

theorem observable_sound_roundtrip:
  assumes "Observable_init r = Inr ob"
  shows "wf_observable ob \<and> observable_from_dict (observable_to_dict ob) = Inr ob"
  using Observable_init_wf [OF assms] by (simp add: from_to_dict Observable_init_raw_of)

theorem observable_sound_roundtrip_witness:
  "observable_from_dict (observable_to_dict (example_observed ''sig:api'' st_present))
     = Inr (example_observed ''sig:api'' st_present)
   \<and> wf_observable (example_observed ''sig:api'' st_present)"
proof -
  have "Observable_init (raw_of (example_observed ''sig:api'' st_present))
      = Inr (example_observed ''sig:api'' st_present)"
    by (simp add: Observable_init_def raw_of_def example_observed_def as_availability_def confidence_ok_def)
  then show ?thesis using observable_sound_roundtrip by blast
qed

text \<open>
  an observable that was not measured, or that the deployment cannot collect, is inert: inserting
  it anywhere among the observations changes neither the usable ids, nor any hypothesis signature,
  nor any evidence score.
\<close>

theorem unusable_observable_inert:
  assumes "\<not> is_usable ob" and "distinct (map ob_id (obs @ ob # obs'))"
  shows "usable_ids (obs @ ob # obs') = usable_ids (obs @ obs')
    \<and> hypothesis_signature p (obs @ ob # obs') = hypothesis_signature p (obs @ obs')
    \<and> evidence_score e (obs @ ob # obs') = evidence_score e (obs @ obs')"
  using phase_a.gate_inert [OF assms]
  by (simp add: usable_ids_def hypothesis_signature_def evidence_score_def)

theorem unusable_observable_inert_witness:
  "hypothesis_signature [(''b'', st_present)] ([example_observed ''a'' st_high] @ example_unknown ''b'' # [])
     = hypothesis_signature [(''b'', st_present)] ([example_observed ''a'' st_high] @ [])
   \<and> hypothesis_signature [(''b'', st_present)] [example_observed ''a'' st_high] = Inr []"
proof -
  have "\<not> is_usable (example_unknown ''b'')"
    and "distinct (map ob_id ([example_observed ''a'' st_high] @ example_unknown ''b'' # []))"
    by (simp_all add: is_usable_def example_unknown_def example_observed_def)
  from unusable_observable_inert [OF this, of "[(''b'', st_present)]" "[]"]
  show ?thesis
    by (simp add: hypothesis_signature_def usable_ids_def usable_observables_eq is_usable_def
        example_observed_def project_def List.map_filter_simps)
qed

text \<open>
  over validated observables with one entry per coordinate the evidence score exists and is
  between zero and the number of usable observables; a coordinate listed twice is an error.
\<close>

theorem evidence_score_bounded:
  assumes "\<forall>ob \<in> set obs. wf_observable ob"
  shows "case evidence_score e obs of
      Inl err \<Rightarrow> \<not> distinct (map ob_id obs) \<and> err = ValueError ''duplicate observable id''
    | Inr x \<Rightarrow> distinct (map ob_id obs) \<and> 0 \<le> x \<and> x \<le> real (length (filter is_usable obs))"
proof (cases "distinct (map ob_id obs)")
  case False
  then show ?thesis by (simp add: evidence_score_def usable_observables_eq)
next
  case True
  let ?w = "\<lambda>ob. if dget e (ob_id ob) \<noteq> None \<and> ob_state ob = dget e (ob_id ob)
          then real_of_fl (fl_of_num (ob_confidence ob)) else 0"
  have w: "\<forall>ob \<in> set (filter is_usable obs). 0 \<le> ?w ob \<and> ?w ob \<le> 1"
    using assms confidence_bounds by (auto simp: wf_observable_def)
  have "sum_list (map ?w us) \<le> real (length us) \<and> 0 \<le> sum_list (map ?w us)"
    if "\<forall>ob \<in> set us. 0 \<le> ?w ob \<and> ?w ob \<le> 1" for us
    using that by (induction us) auto
  from this [OF w] show ?thesis by (simp add: evidence_score_eq [OF True] True)
qed

theorem evidence_score_bounded_witness:
  "case evidence_score [(''a'', st_high)] [example_observed ''a'' st_high] of
      Inl err \<Rightarrow> \<not> distinct (map ob_id [example_observed ''a'' st_high]) \<and> err = ValueError ''duplicate observable id''
    | Inr x \<Rightarrow> distinct (map ob_id [example_observed ''a'' st_high]) \<and> 0 \<le> x
        \<and> x \<le> real (length (filter is_usable [example_observed ''a'' st_high]))"
  by (rule evidence_score_bounded) (simp add: example_observed_def wf_observable_def confidence_ok_def)

end
