(* ===== verification/Expectations.thy ===== *)
theory Expectations
  imports Observables
begin

text \<open>
  The two-layer evidence model (\<open>src/core/rca/expectations.py\<close>): soft expectations with a strength,
  and hard contradictions. Only a measured state can contradict; a strength only weighs support.
\<close>

section \<open>Data and construction\<close>

datatype strength = USUALLY | OFTEN | MAYBE | NOT_REQUIRED

fun strength_weight :: "strength \<Rightarrow> real" where
  "strength_weight USUALLY = 1"
| "strength_weight OFTEN = 6/10"
| "strength_weight MAYBE = 3/10"
| "strength_weight NOT_REQUIRED = 0"

fun strength_value :: "strength \<Rightarrow> string" where
  "strength_value USUALLY = ''usually''"
| "strength_value OFTEN = ''often''"
| "strength_value MAYBE = ''maybe''"
| "strength_value NOT_REQUIRED = ''not_required''"

definition as_strength :: "pyval \<Rightarrow> strength option" where
  "as_strength v =
     (if v = VStr ''usually'' then Some USUALLY
      else if v = VStr ''often'' then Some OFTEN
      else if v = VStr ''maybe'' then Some MAYBE
      else if v = VStr ''not_required'' then Some NOT_REQUIRED else None)"

record expected_obs =
  eo_id :: string
  eo_state :: string
  eo_strength :: strength

definition ExpectedObservation_init :: "pyval \<Rightarrow> pyval \<Rightarrow> pyval \<Rightarrow> expected_obs res" where
  "ExpectedObservation_init i s w =
     rbind (need (nonempty_str i) ''observable_id'') (\<lambda>i'.
     rbind (need (nonempty_str s) ''expected_state'') (\<lambda>s'.
     rbind (need (as_strength w) ''strength'') (\<lambda>w'.
     Inr \<lparr>eo_id = i', eo_state = s', eo_strength = w'\<rparr>)))"

definition eo_weight :: "expected_obs \<Rightarrow> real" where
  "eo_weight e = strength_weight (eo_strength e)"

record contradiction =
  co_id :: string
  co_states :: "string set"

fun hashable :: "pyval \<Rightarrow> bool" where
  "hashable (VList _) = False"
| "hashable (VDict _) = False"
| "hashable _ = True"

text \<open>The states argument is any iterable; \<open>frozenset\<close> refuses unhashable elements first.\<close>

definition Contradiction_init :: "pyval \<Rightarrow> pyval list \<Rightarrow> contradiction res" where
  "Contradiction_init i ss =
     rbind (need (nonempty_str i) ''observable_id'') (\<lambda>i'.
     rbind (rguard (list_all hashable ss) (TypeError ''unhashable'')) (\<lambda>_.
     rbind (rguard (ss \<noteq> [] \<and> list_all (\<lambda>v. nonempty_str v \<noteq> None) ss) (ValueError ''states'')) (\<lambda>_.
     Inr \<lparr>co_id = i', co_states = set (List.map_filter nonempty_str ss)\<rparr>)))"

record observation_model =
  om_expected :: "expected_obs list"
  om_contradictions :: "contradiction list"

definition ObservationModel_init :: "expected_obs list \<Rightarrow> contradiction list \<Rightarrow> observation_model res" where
  "ObservationModel_init es cs =
     rbind (rguard (distinct (map eo_id es)) (ValueError ''duplicate expectation'')) (\<lambda>_.
     rbind (rguard (distinct (map co_id cs)) (ValueError ''duplicate contradiction'')) (\<lambda>_.
     let contra_states = dict_of (map (\<lambda>c. (co_id c, co_states c)) cs) in
     rbind (rguard (list_all (\<lambda>e. case dget contra_states (eo_id e) of
                                    None \<Rightarrow> True | Some ss \<Rightarrow> eo_state e \<notin> ss) es)
             (ValueError ''the same fact cannot support and eliminate'')) (\<lambda>_.
     Inr \<lparr>om_expected = es, om_contradictions = cs\<rparr>)))"

section \<open>Predictions, elimination, support\<close>

definition om_predictions :: "observation_model \<Rightarrow> (string, string) dict" where
  "om_predictions m = dict_of (map (\<lambda>e. (eo_id e, eo_state e)) (om_expected m))"

definition states_of :: "observable list \<Rightarrow> (string, string) dict" where
  "states_of us = dict_of (List.map_filter (\<lambda>ob. map_option (Pair (ob_id ob)) (ob_state ob)) us)"

definition observed_states :: "observable list \<Rightarrow> (string, string) dict res" where
  "observed_states obs = rbind (usable_observables obs) (\<lambda>us. Inr (states_of us))"

definition contradicted_by :: "(string, string) dict \<Rightarrow> contradiction \<Rightarrow> bool" where
  "contradicted_by seen c = (case dget seen (co_id c) of None \<Rightarrow> False | Some s \<Rightarrow> s \<in> co_states c)"

definition om_hard_incompatibility :: "observation_model \<Rightarrow> observable list \<Rightarrow> bool res" where
  "om_hard_incompatibility m obs =
     rbind (observed_states obs) (\<lambda>seen. Inr (list_ex (contradicted_by seen) (om_contradictions m)))"

definition om_soft_support :: "observation_model \<Rightarrow> observable list \<Rightarrow> real res" where
  "om_soft_support m obs =
     rbind (observed_states obs) (\<lambda>seen.
       Inr (foldl (\<lambda>total e.
              case dget seen (eo_id e) of
                None \<Rightarrow> total
              | Some s \<Rightarrow> total + (if s = eo_state e then eo_weight e else - eo_weight e)) 0 (om_expected m)))"

section \<open>Templates\<close>

definition process_dead_model :: "string \<Rightarrow> observation_model res" where
  "process_dead_model service =
     rbind (ExpectedObservation_init (VStr (service @ ''.error_log'')) (VStr ''present'') (VStr ''usually'')) (\<lambda>e1.
     rbind (ExpectedObservation_init (VStr (service @ ''.restart'')) (VStr ''present'') (VStr ''often'')) (\<lambda>e2.
     rbind (ExpectedObservation_init (VStr (service @ ''.oom'')) (VStr ''present'') (VStr ''maybe'')) (\<lambda>e3.
     rbind (Contradiction_init (VStr (service @ ''.serving_throughout_window'')) [VStr ''true'']) (\<lambda>c.
     ObservationModel_init [e1, e2, e3] [c]))))"

definition edge_network_failure_model :: "string \<Rightarrow> string \<Rightarrow> observation_model res" where
  "edge_network_failure_model caller callee =
     (let edge = caller @ ''->'' @ callee in
     rbind (ExpectedObservation_init (VStr (edge @ ''.conn_error'')) (VStr ''present'') (VStr ''usually'')) (\<lambda>e1.
     rbind (ExpectedObservation_init (VStr (edge @ ''.timeout'')) (VStr ''present'') (VStr ''often'')) (\<lambda>e2.
     rbind (ExpectedObservation_init (VStr (callee @ ''.error_log'')) (VStr ''absent'') (VStr ''maybe'')) (\<lambda>e3.
     rbind (Contradiction_init (VStr (edge @ ''.connected_throughout_window'')) [VStr ''true'']) (\<lambda>c.
     ObservationModel_init [e1, e2, e3] [c])))))"

section \<open>Facts\<close>

definition wf_model :: "observation_model \<Rightarrow> bool" where
  "wf_model m \<longleftrightarrow>
     distinct (map eo_id (om_expected m)) \<and> distinct (map co_id (om_contradictions m)) \<and>
     (\<forall>e \<in> set (om_expected m). \<forall>c \<in> set (om_contradictions m).
        co_id c = eo_id e \<longrightarrow> eo_state e \<notin> co_states c)"

lemma ObservationModel_init_iff:
  "ObservationModel_init es cs = Inr m \<longleftrightarrow>
     m = \<lparr>om_expected = es, om_contradictions = cs\<rparr> \<and> wf_model m"
proof -
  have coh: "list_all (\<lambda>e. case dget (dict_of (map (\<lambda>c. (co_id c, co_states c)) cs)) (eo_id e) of
                     None \<Rightarrow> True | Some ss \<Rightarrow> eo_state e \<notin> ss) es
      \<longleftrightarrow> (\<forall>e \<in> set es. \<forall>c \<in> set cs. co_id c = eo_id e \<longrightarrow> eo_state e \<notin> co_states c)"
    if d: "distinct (map co_id cs)"
  proof -
    let ?kv = "map (\<lambda>c. (co_id c, co_states c)) cs"
    have wf: "dict_wf ?kv" using d by (simp add: dict_wf_def comp_def)
    then have "dict_of ?kv = ?kv" by (simp add: dict_of_distinct dict_wf_def)
    moreover have "dget ?kv k = Some ss \<longleftrightarrow> (\<exists>c \<in> set cs. co_id c = k \<and> co_states c = ss)" for k ss
      using dget_wf_iff [OF wf] by auto
    ultimately show ?thesis
      by (auto simp: list_all_iff split: option.splits) (metis option.distinct(1) option.exhaust)+
  qed
  show ?thesis
    unfolding ObservationModel_init_def Let_def
    by (auto simp: res_simps wf_model_def coh)
qed

lemma om_predictions_wf:
  "wf_model m \<Longrightarrow> om_predictions m = map (\<lambda>e. (eo_id e, eo_state e)) (om_expected m)"
  by (simp add: om_predictions_def wf_model_def dict_of_distinct comp_def)

lemma states_of_Some:
  "distinct (map ob_id us) \<Longrightarrow>
   dget (states_of us) k = Some s \<longleftrightarrow> (\<exists>ob \<in> set us. ob_id ob = k \<and> ob_state ob = Some s)"
  by (simp add: states_of_def dget_pairs)

lemma observed_states_eq:
  "distinct (map ob_id obs) \<Longrightarrow> observed_states obs = Inr (states_of (filter is_usable obs))"
  by (simp add: observed_states_def usable_observables_eq)

lemma contradicted_by_iff:
  assumes "distinct (map ob_id us)"
  shows "contradicted_by (states_of us) c \<longleftrightarrow>
     (\<exists>ob \<in> set us. ob_id ob = co_id c \<and> (\<exists>s \<in> co_states c. ob_state ob = Some s))"
proof -
  have "contradicted_by (states_of us) c \<longleftrightarrow> (\<exists>s \<in> co_states c. dget (states_of us) (co_id c) = Some s)"
    by (auto simp: contradicted_by_def split: option.splits)
  then show ?thesis by (auto simp: states_of_Some [OF assms])
qed

lemma contradiction_unique:
  assumes "wf_model m" and "c \<in> set (om_contradictions m)" and "c' \<in> set (om_contradictions m)"
    and "co_id c = co_id c'"
  shows "c = c'"
  using assms by (auto simp: wf_model_def distinct_map inj_on_def)

lemma om_hard_incompatibility_eq:
  assumes "distinct (map ob_id obs)"
  shows "om_hard_incompatibility m obs =
    Inr (\<exists>c \<in> set (om_contradictions m). \<exists>ob \<in> set obs.
       is_usable ob \<and> ob_id ob = co_id c \<and> (\<exists>s \<in> co_states c. ob_state ob = Some s))"
proof -
  have "distinct (map ob_id (filter is_usable obs))" using assms by (rule distinct_map_filter)
  then show ?thesis
    by (auto simp: om_hard_incompatibility_def observed_states_eq [OF assms] list_ex_iff contradicted_by_iff)
qed

lemma Contradiction_init_single [simp]:
  "i \<noteq> [] \<Longrightarrow> s \<noteq> [] \<Longrightarrow> Contradiction_init (VStr i) [VStr s] = Inr \<lparr>co_id = i, co_states = {s}\<rparr>"
  by (simp add: Contradiction_init_def List.map_filter_simps)

lemma ExpectedObservation_init_str [simp]:
  "i \<noteq> [] \<Longrightarrow> s \<noteq> [] \<Longrightarrow>
   ExpectedObservation_init (VStr i) (VStr s) (VStr (strength_value w)) = Inr \<lparr>eo_id = i, eo_state = s, eo_strength = w\<rparr>"
  by (cases w) (simp_all add: ExpectedObservation_init_def as_strength_def)

lemma process_dead_model_eq:
  "process_dead_model service =
     Inr \<lparr>om_expected =
            [\<lparr>eo_id = service @ ''.error_log'', eo_state = ''present'', eo_strength = USUALLY\<rparr>,
             \<lparr>eo_id = service @ ''.restart'', eo_state = ''present'', eo_strength = OFTEN\<rparr>,
             \<lparr>eo_id = service @ ''.oom'', eo_state = ''present'', eo_strength = MAYBE\<rparr>],
          om_contradictions = [\<lparr>co_id = service @ ''.serving_throughout_window'', co_states = {''true''}\<rparr>]\<rparr>"
  using ExpectedObservation_init_str [of _ _ USUALLY] ExpectedObservation_init_str [of _ _ OFTEN]
    ExpectedObservation_init_str [of _ _ MAYBE]
  by (simp add: process_dead_model_def ObservationModel_init_iff wf_model_def)

section \<open>Properties\<close>

text \<open>
  an observation model built by the constructor never lets one measured fact both support and
  eliminate its hypothesis: when an expectation is met by a usable observation, no contradiction on
  the same coordinate fires.
\<close>

theorem no_fact_supports_and_eliminates:
  assumes "ObservationModel_init es cs = Inr m"
    and "distinct (map ob_id obs)"
    and "e \<in> set (om_expected m)" and "c \<in> set (om_contradictions m)" and "co_id c = eo_id e"
    and "observed_states obs = Inr seen" and "dget seen (eo_id e) = Some (eo_state e)"
  shows "\<not> contradicted_by seen c"
  using assms by (auto simp: ObservationModel_init_iff wf_model_def contradicted_by_def)

theorem no_fact_supports_and_eliminates_witness:
  "\<not> contradicted_by [(''a'', ''true'')] \<lparr>co_id = ''a'', co_states = {''dead''}\<rparr>"
proof -
  let ?e = "\<lparr>eo_id = ''a'', eo_state = ''true'', eo_strength = MAYBE\<rparr>"
  let ?c = "\<lparr>co_id = ''a'', co_states = {''dead''}\<rparr>"
  let ?m = "\<lparr>om_expected = [?e], om_contradictions = [?c]\<rparr>"
  have "ObservationModel_init [?e] [?c] = Inr ?m"
    by (simp add: ObservationModel_init_iff wf_model_def)
  moreover have "observed_states [example_observed ''a'' ''true''] = Inr [(''a'', ''true'')]"
    by (simp add: observed_states_eq states_of_def dict_of_def example_observed_def is_usable_def
        List.map_filter_simps)
  ultimately show ?thesis
    using no_fact_supports_and_eliminates
      [of "[?e]" "[?c]" ?m "[example_observed ''a'' ''true'']" ?e ?c "[(''a'', ''true'')]"]
    by simp
qed

text \<open>
  C1: a hypothesis is hard-eliminated exactly when some usable observation is in a state its model
  declares contradictory; in particular observations that are unknown or uncollectable, and symptoms
  that were simply not collected, never eliminate it.
\<close>

theorem hard_elimination_iff_measured_contradiction:
  assumes "distinct (map ob_id obs)"
  shows "om_hard_incompatibility m obs = Inr True \<longleftrightarrow>
    (\<exists>c \<in> set (om_contradictions m). \<exists>ob \<in> set obs.
       is_usable ob \<and> ob_id ob = co_id c \<and> (\<exists>s \<in> co_states c. ob_state ob = Some s))"
  using om_hard_incompatibility_eq [OF assms, of m] by simp

theorem hard_elimination_iff_measured_contradiction_witness:
  "om_hard_incompatibility
     \<lparr>om_expected = [], om_contradictions = [\<lparr>co_id = ''a'', co_states = {''true''}\<rparr>]\<rparr>
     [example_observed ''a'' ''true'', example_unknown ''b''] = Inr True"
  using hard_elimination_iff_measured_contradiction
    [of "[example_observed ''a'' ''true'', example_unknown ''b'']"
        "\<lparr>om_expected = [], om_contradictions = [\<lparr>co_id = ''a'', co_states = {''true''}\<rparr>]\<rparr>"]
  by (simp add: example_observed_def example_unknown_def is_usable_def)

end
