(* ===== verification/Hypotheses.thy ===== *)
theory Hypotheses
  imports Expectations Candidates
begin

text \<open>
  Causal hypotheses (\<open>src/core/rca/hypothesis.py\<close>): a validated object whose categorical
  predictions have one owner, whose identity ignores the ranking provenance, and the wrapping of
  ranked service candidates as process hypotheses.
\<close>

section \<open>Data and construction\<close>

datatype kind = PROCESS | EDGE | RESOURCE | INFRA_EVENT | CHANGE | EXTERNAL

fun kind_value :: "kind \<Rightarrow> string" where
  "kind_value PROCESS = ''process''"
| "kind_value EDGE = ''edge''"
| "kind_value RESOURCE = ''resource''"
| "kind_value INFRA_EVENT = ''infra_event''"
| "kind_value CHANGE = ''change''"
| "kind_value EXTERNAL = ''external''"

definition as_kind :: "pyval \<Rightarrow> kind option" where
  "as_kind v = find (\<lambda>k. v = VStr (kind_value k)) [PROCESS, EDGE, RESOURCE, INFRA_EVENT, CHANGE, EXTERNAL]"

record hypothesis =
  hy_id :: string
  hy_kind :: kind
  hy_localization :: string
  hy_predictions :: "(string, string) dict"
  hy_model :: "observation_model option"
  hy_source :: "candidate option"

text \<open>Equality of two dictionaries, whatever their insertion order.\<close>

definition dict_eq :: "('k, 'v) dict \<Rightarrow> ('k, 'v) dict \<Rightarrow> bool" where
  "dict_eq d e \<longleftrightarrow>
     list_all (\<lambda>(k, v). dget e k = Some v) d \<and> list_all (\<lambda>(k, v). dget d k = Some v) e"

fun prediction_entry :: "pyval \<times> pyval \<Rightarrow> (string \<times> string) res" where
  "prediction_entry (VStr k, VStr v) = Inr (k, v)"
| "prediction_entry _ = Inl (ValueError ''predictions'')"

definition Hypothesis_init ::
  "pyval \<Rightarrow> pyval \<Rightarrow> pyval \<Rightarrow> (pyval \<times> pyval) list \<Rightarrow> observation_model option \<Rightarrow> candidate option
   \<Rightarrow> hypothesis res" where
  "Hypothesis_init i k l preds model source =
     rbind (need (nonempty_str i) ''id'') (\<lambda>i'.
     rbind (need (as_kind k) ''kind'') (\<lambda>k'.
     rbind (need (nonempty_str l) ''localization'') (\<lambda>l'.
     rbind (rmap prediction_entry preds) (\<lambda>supplied.
     case model of
       None \<Rightarrow>
         Inr \<lparr>hy_id = i', hy_kind = k', hy_localization = l', hy_predictions = supplied,
              hy_model = None, hy_source = source\<rparr>
     | Some m \<Rightarrow>
         let derived = om_predictions m in
         if supplied \<noteq> [] \<and> \<not> dict_eq supplied derived
         then Inl (ValueError ''predictions must equal observation_model.predictions() or be omitted'')
         else Inr \<lparr>hy_id = i', hy_kind = k', hy_localization = l', hy_predictions = derived,
                   hy_model = Some m, hy_source = source\<rparr>))))"

section \<open>Behaviour\<close>

definition hyp_eq :: "hypothesis \<Rightarrow> hypothesis \<Rightarrow> bool" where
  "hyp_eq a b \<longleftrightarrow>
     hy_id a = hy_id b \<and> hy_kind a = hy_kind b \<and> hy_localization a = hy_localization b \<and>
     dict_eq (hy_predictions a) (hy_predictions b) \<and> hy_model a = hy_model b"

definition hy_hard_incompatibility :: "hypothesis \<Rightarrow> observable list \<Rightarrow> bool res" where
  "hy_hard_incompatibility h obs =
     (case hy_model h of None \<Rightarrow> Inr False | Some m \<Rightarrow> om_hard_incompatibility m obs)"

definition hy_soft_support :: "hypothesis \<Rightarrow> observable list \<Rightarrow> real res" where
  "hy_soft_support h obs =
     (case hy_model h of None \<Rightarrow> Inr 0 | Some m \<Rightarrow> om_soft_support m obs)"

definition hy_render :: "hypothesis \<Rightarrow> string" where
  "hy_render h = hy_localization h"

definition hy_to_dict :: "hypothesis \<Rightarrow> (string, pyval) dict" where
  "hy_to_dict h =
     [(''id'', VStr (hy_id h)), (''kind'', VStr (kind_value (hy_kind h))),
      (''localization'', VStr (hy_localization h)),
      (''predictions'', VDict (map (\<lambda>(k, v). (k, VStr v)) (hy_predictions h)))] @
     (case hy_source h of None \<Rightarrow> [] | Some c \<Rightarrow> [(''source'', VDict (candidate_to_dict c))])"

definition process_hypothesis_from_candidate :: "candidate \<Rightarrow> hypothesis res" where
  "process_hypothesis_from_candidate c =
     Hypothesis_init (VStr (''process:'' @ ca_service c)) (VStr ''process'') (VStr (ca_service c)) [] None (Some c)"

definition hypotheses_from_candidates :: "candidate list \<Rightarrow> hypothesis list res" where
  "hypotheses_from_candidates cs = rmap process_hypothesis_from_candidate cs"

definition from_observation_model ::
  "string \<Rightarrow> kind \<Rightarrow> string \<Rightarrow> observation_model \<Rightarrow> candidate option \<Rightarrow> hypothesis res" where
  "from_observation_model i k l m source =
     Hypothesis_init (VStr i) (VStr (kind_value k)) (VStr l)
       (map (\<lambda>(f, v). (VStr f, VStr v)) (om_predictions m)) (Some m) source"

section \<open>Facts\<close>

lemma as_kind_value [simp]: "as_kind (VStr (kind_value k)) = Some k"
  by (cases k) (simp_all add: as_kind_def)

lemma as_kind_process [simp]: "as_kind (VStr ''process'') = Some PROCESS"
  by (simp add: as_kind_def)

lemma dict_eq_refl: "dict_wf d \<Longrightarrow> dict_eq d d"
  by (auto simp: dict_eq_def list_all_iff dget_wf_iff)

lemma rmap_prediction_entry [simp]:
  "rmap prediction_entry (map (\<lambda>(f, v). (VStr f, VStr v)) ps) = Inr ps"
  by (induction ps) auto

lemma dict_wf_om_predictions [simp]: "dict_wf (om_predictions m)"
  by (simp add: om_predictions_def)

lemma from_observation_model_eq:
  "i \<noteq> [] \<Longrightarrow> l \<noteq> [] \<Longrightarrow>
   from_observation_model i k l m source =
     Inr \<lparr>hy_id = i, hy_kind = k, hy_localization = l, hy_predictions = om_predictions m,
          hy_model = Some m, hy_source = source\<rparr>"
  by (simp add: from_observation_model_def Hypothesis_init_def dict_eq_refl)

lemma process_hypothesis_from_candidate_eq:
  "process_hypothesis_from_candidate c =
     (if ca_service c = [] then Inl (ValueError ''localization'')
      else Inr \<lparr>hy_id = ''process:'' @ ca_service c, hy_kind = PROCESS, hy_localization = ca_service c,
                hy_predictions = [], hy_model = None, hy_source = Some c\<rparr>)"
  by (simp add: process_hypothesis_from_candidate_def Hypothesis_init_def)

lemma Hypothesis_init_model_owns_predictions:
  "Hypothesis_init i k l preds (Some m) source = Inr h \<Longrightarrow>
   hy_predictions h = om_predictions m \<and> hy_model h = Some m"
  by (auto simp: Hypothesis_init_def res_simps Let_def split: if_splits)

lemma hy_hard_incompatibility_eq:
  assumes "distinct (map ob_id obs)"
  shows "hy_hard_incompatibility h obs =
    Inr (\<exists>m. hy_model h = Some m \<and> (\<exists>c \<in> set (om_contradictions m). \<exists>ob \<in> set obs.
       is_usable ob \<and> ob_id ob = co_id c \<and> (\<exists>s \<in> co_states c. ob_state ob = Some s)))"
  by (auto simp: hy_hard_incompatibility_def om_hard_incompatibility_eq [OF assms] split: option.splits)

section \<open>Properties\<close>

text \<open>
  wrapping ranked candidates as hypotheses is output-neutral: unless a candidate has an empty
  service name (then the construction raises), the hypotheses come in the candidates' order, are
  localized at the candidates' services, and keep each candidate as provenance.
\<close>

theorem hypotheses_from_candidates_neutral:
  "case hypotheses_from_candidates cs of
     Inl e \<Rightarrow> (\<exists>c \<in> set cs. ca_service c = []) \<and> e = ValueError ''localization''
   | Inr hs \<Rightarrow> map hy_localization hs = map ca_service cs \<and> map hy_source hs = map Some cs
       \<and> list_all (\<lambda>h. hy_kind h = PROCESS \<and> hy_model h = None) hs"
  unfolding hypotheses_from_candidates_def
  by (induction cs)
    (auto simp: process_hypothesis_from_candidate_eq rbind_def split: sum.splits if_splits)

end
