(* ===== verification/Partitioning.thy ===== *)
theory Partitioning
  imports Hypotheses
begin

text \<open>
  Structural partitioning (\<open>src/core/rca/partition.py\<close>): the confidence gate that defines the usable
  observations, hard elimination, the equivalence classes of hypotheses by their predictions over the
  usable coordinates, the missing distinguishers, and the discretization of magnitudes.
\<close>

section \<open>The confidence gate\<close>

definition finite_in_range :: "string \<Rightarrow> pyval \<Rightarrow> pyfloat \<Rightarrow> pyfloat \<Rightarrow> unit res" where
  "finite_in_range name v lo hi =
     (case v of
        VNum n \<Rightarrow>
          if \<not> fl_isfinite (fl_of_num n) then Inl (ValueError (name @ '' must be finite''))
          else if \<not> (fl_le lo (fl_of_num n) \<and> fl_le (fl_of_num n) hi)
          then Inl (ValueError (name @ '' out of range''))
          else Inr ()
      | _ \<Rightarrow> Inl (ValueError (name @ '' must be a real number'')))"

record usability_policy =
  up_default_tau :: pynum
  up_tau :: "(string, pynum) dict"

fun tau_entry :: "pyval \<times> pyval \<Rightarrow> (string \<times> pynum) res" where
  "tau_entry (k, v) =
     rbind (need (nonempty_str k) ''threshold id must be a non-empty string'') (\<lambda>k'.
     rbind (finite_in_range ''tau'' v (Fin 0) (Fin 1)) (\<lambda>_.
     case v of VNum n \<Rightarrow> Inr (k', n) | _ \<Rightarrow> Inl (ValueError ''tau'')))"

definition UsabilityPolicy_init :: "pyval \<Rightarrow> (pyval \<times> pyval) list \<Rightarrow> usability_policy res" where
  "UsabilityPolicy_init d tau =
     rbind (finite_in_range ''default_tau'' d (Fin 0) (Fin 1)) (\<lambda>_.
     rbind (rmap tau_entry tau) (\<lambda>tau'.
     case d of VNum n \<Rightarrow> Inr \<lparr>up_default_tau = n, up_tau = tau'\<rparr> | _ \<Rightarrow> Inl (ValueError ''default_tau'')))"

definition up_threshold :: "usability_policy \<Rightarrow> string \<Rightarrow> pynum" where
  "up_threshold pol i = dget_or (up_tau pol) i (up_default_tau pol)"

definition DEFAULT_POLICY :: usability_policy where
  "DEFAULT_POLICY = \<lparr>up_default_tau = FloatN (Fin 0), up_tau = []\<rparr>"

definition meets_threshold :: "usability_policy \<Rightarrow> observable \<Rightarrow> bool" where
  "meets_threshold pol ob = fl_le (fl_of_num (up_threshold pol (ob_id ob))) (fl_of_num (ob_confidence ob))"

definition usable_observations :: "observable list \<Rightarrow> usability_policy \<Rightarrow> observable list res" where
  "usable_observations obs pol =
     rbind (usable_observables obs) (\<lambda>us. Inr (filter (meets_threshold pol) us))"

definition usable_ids_under :: "observable list \<Rightarrow> usability_policy \<Rightarrow> string list res" where
  "usable_ids_under obs pol = rbind (usable_observations obs pol) (\<lambda>us. Inr (sort (map ob_id us)))"

section \<open>Classes and partitions\<close>

record equivalence_class =
  ec_signature :: "(string \<times> string) list"
  ec_members :: "hypothesis list"
  ec_d_missing :: "string set"

definition EquivalenceClass_init ::
  "(string \<times> string) list \<Rightarrow> hypothesis list \<Rightarrow> string set \<Rightarrow> equivalence_class res" where
  "EquivalenceClass_init sig members dm =
     (if members = [] then Inl (ValueError ''EquivalenceClass must contain at least one member'')
      else Inr \<lparr>ec_signature = sig, ec_members = members, ec_d_missing = dm\<rparr>)"

definition ec_is_singleton :: "equivalence_class \<Rightarrow> bool" where
  "ec_is_singleton c = (length (ec_members c) = 1)"

record partition =
  pa_classes :: "equivalence_class list"
  pa_usable :: "observable list"
  pa_eliminated :: "hypothesis list"

definition Partition_init ::
  "equivalence_class list \<Rightarrow> observable list \<Rightarrow> hypothesis list \<Rightarrow> partition res" where
  "Partition_init cs us es =
     (if cs = [] \<and> es = [] then Inl (ValueError ''Partition describes no hypotheses'')
      else Inr \<lparr>pa_classes = cs, pa_usable = us, pa_eliminated = es\<rparr>)"

definition pa_f_usable :: "partition \<Rightarrow> string list" where
  "pa_f_usable p = sort (map ob_id (pa_usable p))"

definition pa_usable_states :: "partition \<Rightarrow> (string, string) dict" where
  "pa_usable_states p = states_of (pa_usable p)"

definition no_surviving_hypothesis :: "partition \<Rightarrow> bool" where
  "no_surviving_hypothesis p = (pa_classes p = [])"

definition signature :: "(string, string) dict \<Rightarrow> string list \<Rightarrow> (string \<times> string) list" where
  "signature prediction f_usable = project prediction f_usable"

fun distinct_from :: "(string, hypothesis) dict \<Rightarrow> hypothesis list \<Rightarrow> (string, hypothesis) dict res" where
  "distinct_from d [] = Inr d"
| "distinct_from d (h # hs) =
     (case dget d (hy_id h) of
        None \<Rightarrow> distinct_from (dset (hy_id h) h d) hs
      | Some prev \<Rightarrow>
          if \<not> hyp_eq prev h then Inl (ValueError ''conflicting hypotheses share an id'')
          else if hy_source prev \<noteq> hy_source h then Inl (ValueError ''different ranking provenance'')
          else distinct_from d hs)"

definition distinct_hypotheses :: "hypothesis list \<Rightarrow> hypothesis list res" where
  "distinct_hypotheses hs = rbind (distinct_from [] hs) (\<lambda>d. Inr (dvals d))"

fun combinations2 :: "'a list \<Rightarrow> ('a \<times> 'a) list" where
  "combinations2 [] = []"
| "combinations2 (x # xs) = map (Pair x) xs @ combinations2 xs"

definition d_missing :: "hypothesis list \<Rightarrow> string set \<Rightarrow> string set" where
  "d_missing members f_usable =
     set (concat (map (\<lambda>(a, b).
        let pa = hy_predictions a; pb = hy_predictions b in
        filter (\<lambda>f. f \<notin> f_usable \<and> dget pa f \<noteq> dget pb f) (dkeys pa @ dkeys pb)) (combinations2 members)))"

definition sort_members :: "hypothesis list \<Rightarrow> hypothesis list" where
  "sort_members hs = sort_key hy_id hs"

definition group_by_signature ::
  "string list \<Rightarrow> hypothesis list \<Rightarrow> ((string \<times> string) list \<times> hypothesis list) list" where
  "group_by_signature f_usable survivors =
     sort_key fst (group_by (\<lambda>h. signature (hy_predictions h) f_usable) survivors)"

definition partition_hypotheses ::
  "hypothesis list \<Rightarrow> observable list \<Rightarrow> usability_policy \<Rightarrow> partition res" where
  "partition_hypotheses hs obs pol =
     rbind (usable_observations obs pol) (\<lambda>usable.
     let f_usable = sort (map ob_id usable) in
     rbind (distinct_hypotheses hs) (\<lambda>ds.
     if ds = [] then Inl (ValueError ''partition requires at least one hypothesis'') else
     rbind (rmap (\<lambda>h. rbind (hy_hard_incompatibility h usable) (\<lambda>b. Inr (h, b))) ds) (\<lambda>marked.
     let survivors = map fst (filter (\<lambda>m. \<not> snd m) marked);
         eliminated = map fst (filter snd marked) in
     rbind (rmap (\<lambda>(sig, ms). let members = sort_members ms in
                    EquivalenceClass_init sig members (d_missing members (set f_usable)))
              (group_by_signature f_usable survivors)) (\<lambda>classes.
     Partition_init classes (sort_key ob_id usable) (sort_members eliminated)))))"

section \<open>Discretization\<close>

definition discretize_ratio :: "pyval \<Rightarrow> pyval \<Rightarrow> pyval \<Rightarrow> string res" where
  "discretize_ratio ratio high low =
     rbind (finite_in_range ''ratio'' ratio (Fin 0) PosInf) (\<lambda>_.
     rbind (finite_in_range ''high'' high (Fin 0) PosInf) (\<lambda>_.
     rbind (finite_in_range ''low'' low (Fin 0) PosInf) (\<lambda>_.
     case (ratio, high, low) of
       (VNum r, VNum h, VNum l) \<Rightarrow>
         if \<not> fl_le (fl_of_num l) (fl_of_num h) then Inl (ValueError ''low must not exceed high'')
         else if fl_le (fl_of_num h) (fl_of_num r) then Inr st_high
         else if fl_le (fl_of_num r) (fl_of_num l) then Inr st_low
         else Inr st_normal
     | _ \<Rightarrow> Inl (ValueError ''ratio''))))"

definition discretize_rate :: "pyval \<Rightarrow> pyval \<Rightarrow> string res" where
  "discretize_rate rate cutoff =
     rbind (finite_in_range ''rate'' rate (Fin 0) (Fin 1)) (\<lambda>_.
     rbind (finite_in_range ''cutoff'' cutoff (Fin 0) (Fin 1)) (\<lambda>_.
     case (rate, cutoff) of
       (VNum r, VNum c) \<Rightarrow> Inr (if fl_le (fl_of_num c) (fl_of_num r) then st_present else st_absent)
     | _ \<Rightarrow> Inl (ValueError ''rate'')))"

section \<open>Interfaces\<close>

lemma usable_observations_eq:
  "usable_observations obs pol =
     (if distinct (map ob_id obs) then Inr (filter (\<lambda>ob. is_usable ob \<and> meets_threshold pol ob) obs)
      else Inl (ValueError ''duplicate observable id''))"
  by (simp add: usable_observations_def usable_observables_eq conj_commute)

interpretation phase_d: evidence_gate "\<lambda>obs. usable_observations obs pol"
    "\<lambda>ob. is_usable ob \<and> meets_threshold pol ob" ob_id for pol
  by unfold_locales (simp_all add: usable_observations_eq)

interpretation members: ranking sort_members hy_id
  by unfold_locales (simp_all add: sort_members_def)

interpretation sig_classes: grouping "group_by_signature F" "\<lambda>h. signature (hy_predictions h) F" for F
proof unfold_locales
  fix hs
  let ?f = "\<lambda>h. signature (hy_predictions h) F"
  have "mset (map fst (group_by_signature F hs)) = mset (map fst (group_by ?f hs))"
    by (simp add: group_by_signature_def)
  then show "distinct (map fst (group_by_signature F hs))"
    using dict_wf_group_by [of ?f hs] unfolding dict_wf_def by (metis mset_eq_imp_distinct_iff)
  show "set (group_by_signature F hs) = (\<lambda>k. (k, filter (\<lambda>h. ?f h = k) hs)) ` ?f ` set hs"
    by (simp add: group_by_signature_def set_group_by)
qed

lemma group_by_signature_sorted: "sorted_wrt (<) (map fst (group_by_signature F hs))"
  using sig_classes.grp_keys [of F hs]
  by (simp add: strict_sorted_iff group_by_signature_def)

section \<open>Canonical hypothesis sets\<close>

lemma distinct_from_fresh:
  "distinct (map hy_id hs) \<Longrightarrow> hy_id ` set hs \<inter> fst ` set d = {} \<Longrightarrow>
   distinct_from d hs = Inr (d @ map (\<lambda>h. (hy_id h, h)) hs)"
proof (induction hs arbitrary: d)
  case Nil
  then show ?case by simp
next
  case (Cons h hs)
  then have "hy_id h \<notin> fst ` set d" by auto
  then have "dget d (hy_id h) = None" and "dset (hy_id h) h d = d @ [(hy_id h, h)]"
    by (simp_all add: dict_simps dset_fresh)
  moreover have "distinct_from (d @ [(hy_id h, h)]) hs = Inr ((d @ [(hy_id h, h)]) @ map (\<lambda>h. (hy_id h, h)) hs)"
    using Cons.prems by (intro Cons.IH) auto
  ultimately show ?case by simp
qed

lemma distinct_hypotheses_distinct: "distinct (map hy_id hs) \<Longrightarrow> distinct_hypotheses hs = Inr hs"
  by (simp add: distinct_hypotheses_def distinct_from_fresh comp_def)

definition id_keyed :: "(string, hypothesis) dict \<Rightarrow> bool" where
  "id_keyed d \<longleftrightarrow> dict_wf d \<and> (\<forall>(k, h) \<in> set d. k = hy_id h)"

lemma id_keyed_dset: "id_keyed d \<Longrightarrow> hy_id h \<notin> fst ` set d \<Longrightarrow> id_keyed (dset (hy_id h) h d)"
  by (auto simp: id_keyed_def dset_fresh dict_wf_def)

lemma distinct_from_sound:
  "distinct_from d hs = Inr e \<Longrightarrow> id_keyed d \<Longrightarrow>
   id_keyed e \<and> set (dvals e) \<subseteq> set (dvals d) \<union> set hs \<and> fst ` set e = fst ` set d \<union> hy_id ` set hs"
proof (induction hs arbitrary: d)
  case Nil
  then show ?case by simp
next
  case (Cons h hs)
  show ?case
  proof (cases "dget d (hy_id h)")
    case None
    then have fresh: "hy_id h \<notin> fst ` set d" by (simp add: dict_simps)
    from Cons.IH [of "dset (hy_id h) h d"] None Cons.prems id_keyed_dset [OF Cons.prems(2) fresh]
    show ?thesis by (auto simp: dset_fresh [OF fresh])
  next
    case (Some prev)
    then have "hy_id h \<in> fst ` set d" by (force dest: map_of_SomeD)
    with Some Cons.prems Cons.IH [of d] show ?thesis by (auto split: if_splits)
  qed
qed

lemma distinct_hypotheses_sound:
  assumes "distinct_hypotheses hs = Inr ds"
  shows "distinct (map hy_id ds) \<and> set ds \<subseteq> set hs \<and> hy_id ` set ds = hy_id ` set hs"
proof -
  from assms obtain e where e: "distinct_from [] hs = Inr e" and ds: "ds = dvals e"
    by (auto simp: distinct_hypotheses_def res_simps)
  from distinct_from_sound [OF e] have k: "id_keyed e" "set (dvals e) \<subseteq> set hs" "fst ` set e = hy_id ` set hs"
    by (auto simp: id_keyed_def)
  have ids: "map hy_id ds = map fst e" using k(1) ds by (auto simp: id_keyed_def)
  have "hy_id ` set ds = hy_id ` set hs" using k(3) ids by (metis set_map)
  moreover have "distinct (map hy_id ds)" unfolding ids using k(1) by (simp add: id_keyed_def dict_wf_def)
  ultimately show ?thesis using k(2) ds by simp
qed

lemma distinct_hypotheses_Nil: "distinct_hypotheses hs = Inr [] \<longleftrightarrow> hs = []"
  using distinct_hypotheses_sound [of hs "[]"] by (auto simp: distinct_hypotheses_def)

section \<open>The partition in closed form\<close>

text \<open>What \<open>partition_hypotheses\<close> computes once its inputs have been accepted.\<close>

definition hard_by :: "observable list \<Rightarrow> hypothesis \<Rightarrow> bool" where
  "hard_by us h =
     (case hy_model h of None \<Rightarrow> False | Some m \<Rightarrow> list_ex (contradicted_by (states_of us)) (om_contradictions m))"

definition mk_class :: "string list \<Rightarrow> (string \<times> string) list \<times> hypothesis list \<Rightarrow> equivalence_class" where
  "mk_class F g =
     \<lparr>ec_signature = fst g, ec_members = sort_members (snd g),
      ec_d_missing = d_missing (sort_members (snd g)) (set F)\<rparr>"

definition mk_partition :: "observable list \<Rightarrow> hypothesis list \<Rightarrow> partition" where
  "mk_partition us ds =
     \<lparr>pa_classes = map (mk_class (sort (map ob_id us)))
        (group_by_signature (sort (map ob_id us)) (filter (\<lambda>h. \<not> hard_by us h) ds)),
      pa_usable = sort_key ob_id us,
      pa_eliminated = sort_members (filter (hard_by us) ds)\<rparr>"

lemma hard_by_eq:
  assumes "distinct (map ob_id us)" and "\<forall>ob \<in> set us. is_usable ob"
  shows "hy_hard_incompatibility h us = Inr (hard_by us h)"
proof -
  have "filter is_usable us = us" using assms(2) by (simp add: filter_id_conv)
  then show ?thesis
    by (simp add: hy_hard_incompatibility_def hard_by_def om_hard_incompatibility_def
        observed_states_eq [OF assms(1)] split: option.splits)
qed

lemma rmap_marked:
  "(\<And>h. f h = Inr (g h)) \<Longrightarrow> rmap (\<lambda>h. rbind (f h) (\<lambda>b. Inr (h, b))) ds = Inr (map (\<lambda>h. (h, g h)) ds)"
  by (rule rmap_Inr_map) simp

lemma rmap_classes:
  "rmap (\<lambda>(sig, ms). let members = sort_members ms in
           EquivalenceClass_init sig members (d_missing members (set F))) (group_by_signature F hs)
   = Inr (map (mk_class F) (group_by_signature F hs))"
proof (rule rmap_Inr_map)
  fix g assume g: "g \<in> set (group_by_signature F hs)"
  then have "snd g \<noteq> []" using sig_classes.grp_nonempty [of "fst g" "snd g"] by simp
  then have "sort_members (snd g) \<noteq> []" using members.rank_length [of "snd g"] by force
  then show "(case g of (sig, ms) \<Rightarrow> let members = sort_members ms in
      EquivalenceClass_init sig members (d_missing members (set F))) = Inr (mk_class F g)"
    by (simp add: EquivalenceClass_init_def mk_class_def case_prod_beta Let_def)
qed

lemma mk_partition_nonempty:
  assumes "ds \<noteq> []"
  shows "pa_classes (mk_partition us ds) \<noteq> [] \<or> pa_eliminated (mk_partition us ds) \<noteq> []"
proof -
  from assms obtain h where h: "h \<in> set ds" by (cases ds) auto
  show ?thesis
  proof (cases "hard_by us h")
    case True
    with h have "h \<in> set (pa_eliminated (mk_partition us ds))"
      by (simp add: mk_partition_def members.rank_set)
    then show ?thesis by auto
  next
    case False
    with h have "h \<in> set (filter (\<lambda>h. \<not> hard_by us h) ds)" by simp
    from sig_classes.grp_cover [OF this, of "sort (map ob_id us)"]
    show ?thesis by (auto simp: mk_partition_def)
  qed
qed

lemma partition_hypotheses_eq:
  "partition_hypotheses hs obs pol =
     (if \<not> distinct (map ob_id obs) then Inl (ValueError ''duplicate observable id'')
      else rbind (distinct_hypotheses hs) (\<lambda>ds.
        if ds = [] then Inl (ValueError ''partition requires at least one hypothesis'')
        else Inr (mk_partition (filter (\<lambda>ob. is_usable ob \<and> meets_threshold pol ob) obs) ds)))"
proof (cases "distinct (map ob_id obs)")
  case False
  then show ?thesis by (simp add: partition_hypotheses_def usable_observations_eq)
next
  case True
  let ?us = "filter (\<lambda>ob. is_usable ob \<and> meets_threshold pol ob) obs"
  have "distinct (map ob_id ?us)" and "\<forall>ob \<in> set ?us. is_usable ob"
    using True by (auto simp: distinct_map_filter)
  note hard = rmap_marked [of "\<lambda>h. hy_hard_incompatibility h ?us", OF hard_by_eq [OF this]]
  have built: "rbind (rmap (\<lambda>(sig, ms). let members = sort_members ms in
                    EquivalenceClass_init sig members (d_missing members (set (sort (map ob_id ?us)))))
              (group_by_signature (sort (map ob_id ?us)) (filter (\<lambda>h. \<not> hard_by ?us h) ds))) (\<lambda>classes.
     Partition_init classes (sort_key ob_id ?us) (sort_members (filter (hard_by ?us) ds)))
      = Inr (mk_partition ?us ds)" if "ds \<noteq> []" for ds
    using mk_partition_nonempty [OF that, of ?us] unfolding rmap_classes
    by (auto simp: Partition_init_def mk_partition_def)
  show ?thesis
  proof (cases "distinct_hypotheses hs")
    case (Inl e)
    with True show ?thesis by (simp add: partition_hypotheses_def usable_observations_eq)
  next
    case (Inr ds)
    with True built [of ds] show ?thesis
      by (auto simp: partition_hypotheses_def usable_observations_eq hard Let_def filter_map comp_def)
  qed
qed

lemma partition_hypotheses_Inr:
  assumes "partition_hypotheses hs obs pol = Inr p"
  obtains ds where "distinct (map ob_id obs)" and "distinct_hypotheses hs = Inr ds" and "ds \<noteq> []"
    and "p = mk_partition (filter (\<lambda>ob. is_usable ob \<and> meets_threshold pol ob) obs) ds"
  using assms by (auto simp: partition_hypotheses_eq res_simps split: if_splits)

section \<open>Classes are the quotient by usable predictions\<close>

lemma sorted_ids_distinct: "distinct (map ob_id us) \<Longrightarrow> distinct (sort (map ob_id us))"
  by simp

lemma signature_eq_iff:
  assumes "distinct (map ob_id us)"
  shows "signature p (sort (map ob_id us)) = signature q (sort (map ob_id us))
    \<longleftrightarrow> (\<forall>ob \<in> set us. dget p (ob_id ob) = dget q (ob_id ob))"
  using project_eq_iff [OF sorted_ids_distinct [OF assms], of p q] by (simp add: signature_def)

definition all_members :: "partition \<Rightarrow> hypothesis list" where
  "all_members p = concat (map ec_members (pa_classes p))"

lemma mset_concat_cong:
  "(\<And>x. x \<in> set xs \<Longrightarrow> mset (f x) = mset (g x)) \<Longrightarrow> mset (concat (map f xs)) = mset (concat (map g xs))"
  by (induction xs) auto

lemma mset_all_members: "mset (all_members (mk_partition us ds)) = mset (filter (\<lambda>h. \<not> hard_by us h) ds)"
proof -
  let ?F = "sort (map ob_id us)" and ?S = "filter (\<lambda>h. \<not> hard_by us h) ds"
  have "mset (all_members (mk_partition us ds)) = mset (concat (map (\<lambda>g. sort_members (snd g)) (group_by_signature ?F ?S)))"
    by (simp add: all_members_def mk_partition_def comp_def mk_class_def)
  also have "\<dots> = mset (concat (map snd (group_by_signature ?F ?S)))"
    by (rule mset_concat_cong) (simp add: members.rank_mset)
  finally show ?thesis by (simp add: sig_classes.grp_mset)
qed

lemma mset_all_hypotheses: "mset (all_members (mk_partition us ds) @ pa_eliminated (mk_partition us ds)) = mset ds"
  using mset_all_members [of us ds]
  by (simp add: mk_partition_def members.rank_mset add.commute)

lemma class_of_mk_partition:
  assumes "c \<in> set (pa_classes (mk_partition us ds))"
  shows "set (ec_members c) =
      {h \<in> set ds. \<not> hard_by us h \<and> signature (hy_predictions h) (sort (map ob_id us)) = ec_signature c}"
    and "ec_d_missing c = d_missing (ec_members c) (ob_id ` set us)"
    and "ec_members c \<noteq> []"
proof -
  let ?F = "sort (map ob_id us)" and ?S = "filter (\<lambda>h. \<not> hard_by us h) ds"
  from assms obtain g where g: "g \<in> set (group_by_signature ?F ?S)" and c: "c = mk_class ?F g"
    by (auto simp: mk_partition_def)
  then have "(fst g, snd g) \<in> set (group_by_signature ?F ?S)" by simp
  note m = sig_classes.grp_member [OF this] and n = sig_classes.grp_nonempty [OF this]
  show sm: "set (ec_members c) = {h \<in> set ds. \<not> hard_by us h \<and> signature (hy_predictions h) ?F = ec_signature c}"
    using m by (auto simp: c mk_class_def members.rank_set)
  show "ec_d_missing c = d_missing (ec_members c) (ob_id ` set us)"
    by (simp add: c mk_class_def)
  show "ec_members c \<noteq> []"
    using n members.rank_length [of "snd g"] by (auto simp: c mk_class_def)
qed

lemma classes_sorted: "sorted_wrt (\<lambda>c d. ec_signature c < ec_signature d) (pa_classes (mk_partition us ds))"
  using group_by_signature_sorted [of "sort (map ob_id us)" "filter (\<lambda>h. \<not> hard_by us h) ds"]
  by (simp add: mk_partition_def sorted_wrt_map mk_class_def)

lemma classes_inj:
  assumes "c \<in> set (pa_classes (mk_partition us ds))" and "d \<in> set (pa_classes (mk_partition us ds))"
    and "ec_signature c = ec_signature d"
  shows "c = d"
proof -
  let ?F = "sort (map ob_id us)"
  let ?G = "group_by_signature ?F (filter (\<lambda>h. \<not> hard_by us h) ds)"
  from assms obtain g h where g: "g \<in> set ?G" "c = mk_class ?F g" and h: "h \<in> set ?G" "d = mk_class ?F h"
    by (auto simp: mk_partition_def)
  moreover have "inj_on fst (set ?G)" using sig_classes.grp_keys by (simp add: distinct_map)
  ultimately have "g = h" using assms(3) by (auto simp: mk_class_def dest: inj_onD)
  with g h show ?thesis by simp
qed

lemma same_class_iff:
  assumes "distinct (map ob_id us)"
    and c: "c \<in> set (pa_classes (mk_partition us ds))" "a \<in> set (ec_members c)"
    and d: "d \<in> set (pa_classes (mk_partition us ds))" "b \<in> set (ec_members d)"
  shows "c = d \<longleftrightarrow> (\<forall>ob \<in> set us. dget (hy_predictions a) (ob_id ob) = dget (hy_predictions b) (ob_id ob))"
  using class_of_mk_partition(1) [OF c(1)] class_of_mk_partition(1) [OF d(1)] c d classes_inj [OF c(1) d(1)]
  by (auto simp: signature_eq_iff [OF assms(1), symmetric])

lemma pa_usable_mk [simp]: "set (pa_usable (mk_partition us ds)) = set us"
  by (simp add: mk_partition_def)

lemma distinct_usable_filter:
  "distinct (map ob_id obs) \<Longrightarrow>
   distinct (map ob_id (filter (\<lambda>ob. is_usable ob \<and> meets_threshold pol ob) obs))"
  by (rule distinct_map_filter)

lemma hard_by_iff:
  assumes "distinct (map ob_id us)"
  shows "hard_by us h \<longleftrightarrow> (\<exists>m. hy_model h = Some m \<and> (\<exists>k \<in> set (om_contradictions m). \<exists>ob \<in> set us.
     ob_id ob = co_id k \<and> (\<exists>s \<in> co_states k. ob_state ob = Some s)))"
  by (auto simp: hard_by_def list_ex_iff contradicted_by_iff [OF assms] split: option.splits)

section \<open>Missing distinguishers\<close>

lemma set_combinations2_sub: "(a, b) \<in> set (combinations2 xs) \<Longrightarrow> a \<in> set xs \<and> b \<in> set xs"
  by (induction xs) auto

lemma combinations2_cover:
  "a \<in> set xs \<Longrightarrow> b \<in> set xs \<Longrightarrow> a \<noteq> b \<Longrightarrow> (a, b) \<in> set (combinations2 xs) \<or> (b, a) \<in> set (combinations2 xs)"
  by (induction xs) auto

lemma d_missing_iff:
  "f \<in> d_missing ms U \<longleftrightarrow>
     f \<notin> U \<and> (\<exists>a \<in> set ms. \<exists>b \<in> set ms. dget (hy_predictions a) f \<noteq> dget (hy_predictions b) f)"
proof -
  have keys: "f \<in> fst ` set (hy_predictions a) \<and> f \<notin> U
      \<and> dget (hy_predictions a) f \<noteq> dget (hy_predictions b) f \<or> f \<in> fst ` set (hy_predictions b) \<and> f \<notin> U
      \<and> dget (hy_predictions a) f \<noteq> dget (hy_predictions b) f
    \<longleftrightarrow> f \<notin> U \<and> dget (hy_predictions a) f \<noteq> dget (hy_predictions b) f" for a b
    using dget_None_iff [of "hy_predictions a" f] dget_None_iff [of "hy_predictions b" f] by metis
  have "f \<in> d_missing ms U \<longleftrightarrow> f \<notin> U \<and>
      (\<exists>(a, b) \<in> set (combinations2 ms). dget (hy_predictions a) f \<noteq> dget (hy_predictions b) f)"
    by (simp add: d_missing_def Let_def case_prod_beta keys)
  also have "\<dots> \<longleftrightarrow> f \<notin> U \<and> (\<exists>a \<in> set ms. \<exists>b \<in> set ms. dget (hy_predictions a) f \<noteq> dget (hy_predictions b) f)"
  proof (rule conj_cong [OF refl])
    show "(\<exists>(a, b) \<in> set (combinations2 ms). dget (hy_predictions a) f \<noteq> dget (hy_predictions b) f)
      \<longleftrightarrow> (\<exists>a \<in> set ms. \<exists>b \<in> set ms. dget (hy_predictions a) f \<noteq> dget (hy_predictions b) f)" (is "?L \<longleftrightarrow> ?R")
    proof
      show ?R if ?L using that set_combinations2_sub by fast
    next
      assume ?R
      then obtain a b where ab: "a \<in> set ms" "b \<in> set ms" "dget (hy_predictions a) f \<noteq> dget (hy_predictions b) f"
        by blast
      then have "a \<noteq> b" by auto
      from combinations2_cover [OF ab(1,2) this] ab(3) show ?L by (metis (mono_tags, lifting) case_prodI)
    qed
  qed
  finally show ?thesis .
qed

lemma d_missing_cong: "set ms = set ns \<Longrightarrow> d_missing ms U = d_missing ns U"
  by (auto simp: d_missing_iff)

section \<open>What the partition does not depend on\<close>

definition partition_map :: "(hypothesis \<Rightarrow> hypothesis) \<Rightarrow> partition \<Rightarrow> partition" where
  "partition_map g p =
     p\<lparr>pa_classes := map (\<lambda>c. c\<lparr>ec_members := map g (ec_members c)\<rparr>) (pa_classes p),
       pa_eliminated := map g (pa_eliminated p)\<rparr>"

lemma combinations2_map: "combinations2 (map g xs) = map (map_prod g g) (combinations2 xs)"
  by (induction xs) simp_all

lemma mk_partition_map:
  assumes "\<And>h. hy_id (g h) = hy_id h" and "\<And>h. hy_predictions (g h) = hy_predictions h"
    and "\<And>h. hard_by us (g h) = hard_by us h"
  shows "mk_partition us (map g ds) = partition_map g (mk_partition us ds)"
proof -
  let ?F = "sort (map ob_id us)" and ?S = "filter (\<lambda>h. \<not> hard_by us h) ds"
  have sm: "sort_members (map g xs) = map g (sort_members xs)" for xs
    unfolding sort_members_def by (rule sort_key_map_inv) (rule assms(1))
  have dm: "d_missing (map g xs) U = d_missing xs U" for xs U
    by (simp add: d_missing_iff set_eq_iff assms(2))
  have gs: "group_by_signature F (map g xs) = map (apsnd (map g)) (group_by_signature F xs)" for F xs
    unfolding group_by_signature_def
    by (subst group_by_map) (simp_all add: assms(2) sort_key_map_inv)
  have fs: "filter P (map g ds) = map g (filter P ds)" if "\<And>h. P (g h) = P h" for P
    using that by (simp add: filter_map comp_def)
  have "mk_class F (apsnd (map g) x) = (mk_class F x)\<lparr>ec_members := map g (ec_members (mk_class F x))\<rparr>" for F x
    by (simp add: mk_class_def sm dm)
  then show ?thesis
    using fs [of "\<lambda>h. \<not> hard_by us h"] fs [of "hard_by us"] assms(3)
    by (simp add: mk_partition_def partition_map_def gs sm)
qed

lemma mk_partition_cong:
  assumes "mset us = mset us'" and "mset ds = mset ds'"
    and "distinct (map ob_id us)" and "distinct (map hy_id ds)"
  shows "mk_partition us ds = mk_partition us' ds'"
proof -
  let ?F = "sort (map ob_id us)"
  have F: "sort (map ob_id us') = ?F"
    using assms(1) by (intro properties_for_sort) simp_all
  have us: "sort_key ob_id us = sort_key ob_id us'"
    using assms(1,3) by (intro by_key.rank_order_free) simp_all
  have d': "distinct (map ob_id us')" using assms(1,3) by (metis mset_eq_imp_distinct_iff mset_map)
  have hard: "hard_by us' = hard_by us"
    unfolding fun_eq_iff hard_by_iff [OF assms(3)] hard_by_iff [OF d'] using assms(1) by (metis set_mset_mset)
  have filt: "mset (filter P ds) = mset (filter P ds')" "distinct (map hy_id (filter P ds))" for P
    using assms(2,4) by (simp_all add: distinct_map_filter)
  then have elim: "sort_members (filter P ds) = sort_members (filter P ds')" for P
    by (rule members.rank_order_free)
  let ?key = "\<lambda>h. signature (hy_predictions h) ?F"
  have classes: "map (mk_class ?F) (group_by_signature ?F S) = map (mk_class ?F) (group_by_signature ?F S')"
    if S: "mset S = mset S'" "distinct (map hy_id S)" for S S'
  proof -
    let ?c = "\<lambda>X k. mk_class ?F (k, filter (\<lambda>h. ?key h = k) X)"
    have form: "map (mk_class ?F) (group_by_signature ?F X) = map (?c X) (map fst (group_by_signature ?F X))" for X
      by (auto simp: sig_classes.grp_iff intro!: arg_cong [where f = "mk_class ?F"])
    have "set (map fst (group_by_signature ?F S)) = set (map fst (group_by_signature ?F S'))"
      using S(1) by (simp add: sig_classes.grp_set image_image) (metis set_mset_mset)
    then have keys: "map fst (group_by_signature ?F S) = map fst (group_by_signature ?F S')"
      using group_by_signature_sorted by (metis strict_sorted_equal)
    have "sort_members (filter P S) = sort_members (filter P S')" for P
      using S by (intro members.rank_order_free) (simp_all add: distinct_map_filter)
    then show ?thesis unfolding form keys by (simp add: mk_class_def)
  qed
  have "map (mk_class ?F) (group_by_signature ?F (filter (\<lambda>h. \<not> hard_by us h) ds))
      = map (mk_class ?F) (group_by_signature ?F (filter (\<lambda>h. \<not> hard_by us h) ds'))"
    by (rule classes) (rule filt)+
  then show ?thesis using elim us by (simp add: mk_partition_def F hard)
qed

section \<open>Properties\<close>


text \<open>
  the missing distinguishers of a class are exactly the coordinates outside the usable ones on
  which two of its members predict differently, so a class with none has members that predict alike
  everywhere.
\<close>

theorem class_d_missing_exact:
  assumes "partition_hypotheses hs obs pol = Inr p" and "c \<in> set (pa_classes p)"
  shows "ec_d_missing c = {f. f \<notin> ob_id ` set (pa_usable p) \<and>
           (\<exists>a \<in> set (ec_members c). \<exists>b \<in> set (ec_members c). dget (hy_predictions a) f \<noteq> dget (hy_predictions b) f)}
    \<and> (ec_d_missing c = {} \<longrightarrow>
         (\<forall>a \<in> set (ec_members c). \<forall>b \<in> set (ec_members c). dget (hy_predictions a) = dget (hy_predictions b)))"
proof -
  from assms(1) obtain ds where obs: "distinct (map ob_id obs)" 
    and p: "p = mk_partition (filter (\<lambda>ob. is_usable ob \<and> meets_threshold pol ob) obs) ds"
    by (rule partition_hypotheses_Inr)
  note c = assms(2) [unfolded p]
  have exact: "ec_d_missing c = {f. f \<notin> ob_id ` set (pa_usable p) \<and>
      (\<exists>a \<in> set (ec_members c). \<exists>b \<in> set (ec_members c). dget (hy_predictions a) f \<noteq> dget (hy_predictions b) f)}"
    unfolding class_of_mk_partition(2) [OF c] p pa_usable_mk by (rule set_eqI) (simp only: d_missing_iff mem_Collect_eq)
  have agree: "dget (hy_predictions a) f = dget (hy_predictions b) f"
    if "a \<in> set (ec_members c)" "b \<in> set (ec_members c)" "f \<in> ob_id ` set (pa_usable p)" for a b f
    using same_class_iff [OF distinct_usable_filter [OF obs] c that(1) c that(2)] that(3) by (auto simp: p)
  show ?thesis
  proof (intro conjI impI ballI ext)
    fix a b f
    assume "ec_d_missing c = {}" and ab: "a \<in> set (ec_members c)" "b \<in> set (ec_members c)"
    then show "dget (hy_predictions a) f = dget (hy_predictions b) f"
      using exact agree [OF ab] by (cases "f \<in> ob_id ` set (pa_usable p)") auto
  qed (rule exact)
qed

text \<open>
  ranking provenance is irrelevant to the partition: replacing the candidate (hence the score)
  recorded on each hypothesis by any other changes no class, no elimination and no distinguisher, and
  changes whether the partition is accepted in no case.
\<close>

theorem partition_ignores_scores:
  assumes "distinct (map hy_id hs)"
  shows "partition_hypotheses (map (\<lambda>h. h\<lparr>hy_source := src h\<rparr>) hs) obs pol
    = map_sum id (partition_map (\<lambda>h. h\<lparr>hy_source := src h\<rparr>)) (partition_hypotheses hs obs pol)"
proof -
  let ?g = "\<lambda>h. h\<lparr>hy_source := src h\<rparr>"
  have "mk_partition us (map ?g hs) = partition_map ?g (mk_partition us hs)" for us
    by (rule mk_partition_map) (simp_all add: hard_by_def)
  moreover have "distinct_hypotheses hs = Inr hs" and "distinct_hypotheses (map ?g hs) = Inr (map ?g hs)"
    using assms by (auto intro!: distinct_hypotheses_distinct simp: comp_def)
  ultimately show ?thesis by (simp add: partition_hypotheses_eq)
qed

text \<open>
  C3: the partition does not depend on the order in which hypotheses or observations are supplied.
\<close>

theorem partition_order_free:
  assumes "mset hs = mset hs'" and "mset obs = mset obs'" and "distinct (map hy_id hs)"
  shows "partition_hypotheses hs obs pol = partition_hypotheses hs' obs' pol"
proof -
  let ?ok = "\<lambda>ob. is_usable ob \<and> meets_threshold pol ob"
  have hs': "distinct (map hy_id hs')" and obs': "distinct (map ob_id obs) = distinct (map ob_id obs')"
    using assms by (metis mset_eq_imp_distinct_iff mset_map)+
  have "mk_partition (filter ?ok obs) hs = mk_partition (filter ?ok obs') hs'" if "distinct (map ob_id obs)"
    using assms that by (intro mk_partition_cong) (simp_all add: distinct_map_filter)
  moreover have "hs = [] \<longleftrightarrow> hs' = []" using assms(1) by auto
  ultimately show ?thesis
    using assms(3) hs' obs' by (simp add: partition_hypotheses_eq distinct_hypotheses_distinct)
qed

text \<open>
  an observation that is unknown, uncollectable or below its confidence threshold has no effect
  on the partition whatsoever.
\<close>

theorem partition_unusable_inert:
  assumes "\<not> (is_usable ob \<and> meets_threshold pol ob)" and "distinct (map ob_id (os @ ob # os'))"
  shows "partition_hypotheses hs (os @ ob # os') pol = partition_hypotheses hs (os @ os') pol"
  unfolding partition_hypotheses_def phase_d.gate_inert [OF assms] ..

section \<open>Witnesses\<close>

text \<open>Two observations of which only the first is usable, and three hypotheses: one is contradicted,
the other two differ only on the unusable coordinate.\<close>

definition example_hypothesis :: "string \<Rightarrow> string \<Rightarrow> contradiction list \<Rightarrow> hypothesis" where
  "example_hypothesis i s cs =
     \<lparr>hy_id = i, hy_kind = PROCESS, hy_localization = i, hy_predictions = [(''a'', ''true''), (''b'', s)],
      hy_model = Some \<lparr>om_expected = [], om_contradictions = cs\<rparr>, hy_source = None\<rparr>"

definition example_hypotheses :: "hypothesis list" where
  "example_hypotheses =
     [example_hypothesis ''x'' ''low'' [], example_hypothesis ''u'' ''high'' [],
      example_hypothesis ''z'' ''low'' [\<lparr>co_id = ''a'', co_states = {''true''}\<rparr>]]"

definition example_observations :: "observable list" where
  "example_observations = [example_observed ''a'' ''true'', example_unknown ''b'']"

definition example_partition :: partition where
  "example_partition =
     \<lparr>pa_classes =
        [\<lparr>ec_signature = [(''a'', ''true'')],
          ec_members = [example_hypothesis ''u'' ''high'' [], example_hypothesis ''x'' ''low'' []],
          ec_d_missing = {''b''}\<rparr>],
      pa_usable = [example_observed ''a'' ''true''],
      pa_eliminated = [example_hypothesis ''z'' ''low'' [\<lparr>co_id = ''a'', co_states = {''true''}\<rparr>]]\<rparr>"

lemma example_partition_eq:
  "partition_hypotheses example_hypotheses example_observations DEFAULT_POLICY = Inr example_partition"
  by (simp add: partition_hypotheses_eq example_hypotheses_def example_observations_def
      example_partition_def example_hypothesis_def example_observed_def example_unknown_def
      distinct_hypotheses_def is_usable_def meets_threshold_def up_threshold_def DEFAULT_POLICY_def
      dget_or_def mk_partition_def mk_class_def hard_by_def states_of_def dict_of_def contradicted_by_def
      group_by_signature_def group_by_def dict_append_def signature_def project_def sort_members_def
      d_missing_def List.map_filter_simps Let_def exI [of _ "1/2"])


theorem class_d_missing_exact_witness:
  "{''b''} = {f. f \<notin> {''a''} \<and>
      (\<exists>x \<in> {[(''a'', ''true''), (''b'', ''high'')], [(''a'', ''true''), (''b'', ''low'')]}.
       \<exists>y \<in> {[(''a'', ''true''), (''b'', ''high'')], [(''a'', ''true''), (''b'', ''low'')]}. dget x f \<noteq> dget y f)}"
  using class_d_missing_exact [OF example_partition_eq, of "hd (pa_classes example_partition)"]
  by (simp add: example_partition_def example_hypothesis_def example_observed_def)

theorem partition_ignores_scores_witness:
  "partition_hypotheses (map (\<lambda>h. h\<lparr>hy_source := Some (mk_candidate default_scorer (example_row ''web'' 3))\<rparr>) example_hypotheses)
     example_observations DEFAULT_POLICY
   = Inr (partition_map (\<lambda>h. h\<lparr>hy_source := Some (mk_candidate default_scorer (example_row ''web'' 3))\<rparr>) example_partition)"
  using partition_ignores_scores [of example_hypotheses
      "\<lambda>_. Some (mk_candidate default_scorer (example_row ''web'' 3))" example_observations DEFAULT_POLICY]
  unfolding example_partition_eq by (simp add: example_hypotheses_def example_hypothesis_def)

theorem partition_order_free_witness:
  "partition_hypotheses (rev example_hypotheses) (rev example_observations) DEFAULT_POLICY = Inr example_partition"
  using partition_order_free [of example_hypotheses "rev example_hypotheses" example_observations
      "rev example_observations" DEFAULT_POLICY]
  unfolding example_partition_eq by (simp add: example_hypotheses_def example_hypothesis_def)

theorem partition_unusable_inert_witness:
  "partition_hypotheses example_hypotheses [example_observed ''a'' ''true''] DEFAULT_POLICY = Inr example_partition"
  using partition_unusable_inert [of "example_unknown ''b''" DEFAULT_POLICY "[example_observed ''a'' ''true'']" "[]"
      example_hypotheses] example_partition_eq
  by (simp add: example_unknown_def example_observed_def is_usable_def example_observations_def)

end
