(* ===== verification/Outcomes.thy ===== *)
theory Outcomes
  imports Partitioning
begin

text \<open>
  Structural outcomes (\<open>src/core/rca/outcome.py\<close>): the label of a partition as a total function of its
  classes, and the evidence packet \<open>StructuralResult\<close>, whose constructor refuses a packet that
  contradicts its own classes.
\<close>

section \<open>Outcomes and views\<close>

datatype outcome = NO_COMPATIBLE_HYPOTHESIS | IDENTIFIED | NON_IDENTIFIABLE | IRREDUCIBLE | UNCERTAIN

text \<open>\<open>(cls,) = partition.classes\<close> unpacks a list that holds one class at that point.\<close>

definition classify :: "partition \<Rightarrow> outcome" where
  "classify p =
     (if no_surviving_hypothesis p then NO_COMPATIBLE_HYPOTHESIS
      else if length (pa_classes p) > 1 then UNCERTAIN
      else let c = hd (pa_classes p) in
        if ec_is_singleton c then IDENTIFIED
        else if ec_d_missing c \<noteq> {} then NON_IDENTIFIABLE else IRREDUCIBLE)"

datatype relation = SUPPORTS | MISMATCH | HARD_ELIMINATES

record evidence_item =
  ei_observable_id :: string
  ei_observed_state :: string
  ei_expected_state :: "string option"
  ei_relation :: relation

record member_view =
  mv_id :: string
  mv_kind :: string
  mv_localization :: string

record elimination_check =
  ek_hypothesis_id :: string
  ek_observable_id :: string
  ek_eliminating_states :: "string list"

record class_view =
  cv_members :: "member_view list"
  cv_signature :: "(string \<times> string) list"
  cv_d_missing :: "string set"
  cv_evidence :: "evidence_item list"
  cv_elimination_checks :: "elimination_check list"

definition ClassView_init ::
  "member_view list \<Rightarrow> (string \<times> string) list \<Rightarrow> string set \<Rightarrow> evidence_item list \<Rightarrow> elimination_check list
   \<Rightarrow> class_view res" where
  "ClassView_init ms sig dm ev chk =
     (if ms = [] then Inl (ValueError ''ClassView must describe at least one hypothesis'')
      else Inr \<lparr>cv_members = ms, cv_signature = sig, cv_d_missing = dm, cv_evidence = ev,
                cv_elimination_checks = chk\<rparr>)"

definition cv_hypothesis_ids :: "class_view \<Rightarrow> string list" where
  "cv_hypothesis_ids v = map mv_id (cv_members v)"

definition cv_localizations :: "class_view \<Rightarrow> string list" where
  "cv_localizations v = dedup (map mv_localization (cv_members v))"

definition cv_is_singleton :: "class_view \<Rightarrow> bool" where
  "cv_is_singleton v = (length (cv_members v) = 1)"

definition cv_is_irreducible :: "class_view \<Rightarrow> bool" where
  "cv_is_irreducible v = (length (cv_members v) > 1 \<and> cv_d_missing v = {})"

record eliminated_view =
  ev_member :: member_view
  ev_evidence :: "evidence_item list"

record structural_result =
  sr_outcome :: outcome
  sr_localization :: "string list"
  sr_classes :: "class_view list"
  sr_d_missing :: "string set"
  sr_checks :: "elimination_check list"
  sr_eliminated :: "eliminated_view list"
  sr_integration_gaps :: "string list"

section \<open>The packet\<close>

definition expected_outcome :: "class_view list \<Rightarrow> outcome" where
  "expected_outcome vs =
     (if vs = [] then NO_COMPATIBLE_HYPOTHESIS
      else if length vs > 1 then UNCERTAIN
      else let v = hd vs in
        if cv_is_singleton v then IDENTIFIED
        else if cv_d_missing v \<noteq> {} then NON_IDENTIFIABLE else IRREDUCIBLE)"

definition summary_localization :: "class_view list \<Rightarrow> string list" where
  "summary_localization vs = dedup (concat (map (\<lambda>v. map mv_localization (cv_members v)) vs))"

definition union_d_missing :: "class_view list \<Rightarrow> string set" where
  "union_d_missing vs = \<Union> (cv_d_missing ` set vs)"

definition check_key :: "elimination_check \<Rightarrow> string \<times> string" where
  "check_key e = (ek_hypothesis_id e, ek_observable_id e)"

definition union_checks :: "class_view list \<Rightarrow> elimination_check list" where
  "union_checks vs = sort_key check_key (dedup (concat (map cv_elimination_checks vs)))"

definition StructuralResult_init :: "structural_result \<Rightarrow> structural_result res" where
  "StructuralResult_init r =
     (if sr_outcome r \<noteq> expected_outcome (sr_classes r)
      then Inl (ValueError ''outcome does not match the class structure'')
      else if sr_localization r \<noteq> summary_localization (sr_classes r)
      then Inl (ValueError ''localization must be the distinct member localizations of the classes'')
      else if sr_d_missing r \<noteq> union_d_missing (sr_classes r)
      then Inl (ValueError ''d_missing must be the union of the classes' d_missing'')
      else if sr_checks r \<noteq> union_checks (sr_classes r)
      then Inl (ValueError ''potential_elimination_checks must be the union of the classes' checks'')
      else if sr_outcome r = NO_COMPATIBLE_HYPOTHESIS \<and>
        (sr_eliminated r = [] \<or> list_ex (\<lambda>e. ev_evidence e = []) (sr_eliminated r))
      then Inl (ValueError ''NO_COMPATIBLE_HYPOTHESIS requires eliminated hypotheses'')
      else Inr r)"

definition member_view_of :: "hypothesis \<Rightarrow> member_view" where
  "member_view_of h =
     \<lparr>mv_id = hy_id h, mv_kind = kind_value (hy_kind h), mv_localization = hy_localization h\<rparr>"

definition elimination_checks :: "equivalence_class \<Rightarrow> string set \<Rightarrow> elimination_check list" where
  "elimination_checks c f_usable =
     sort_key check_key (concat (map (\<lambda>h.
       case hy_model h of
         None \<Rightarrow> []
       | Some m \<Rightarrow>
           map (\<lambda>k. \<lparr>ek_hypothesis_id = hy_id h, ek_observable_id = co_id k,
                     ek_eliminating_states = sorted_list_of_set (co_states k)\<rparr>)
             (filter (\<lambda>k. co_id k \<notin> f_usable) (om_contradictions m))) (ec_members c)))"

definition class_evidence :: "equivalence_class \<Rightarrow> (string, string) dict \<Rightarrow> evidence_item list" where
  "class_evidence c obs =
     List.map_filter (\<lambda>(f, predicted).
       map_option (\<lambda>s. \<lparr>ei_observable_id = f, ei_observed_state = s, ei_expected_state = Some predicted,
                       ei_relation = (if s = predicted then SUPPORTS else MISMATCH)\<rparr>) (dget obs f))
       (ec_signature c)"

definition eliminated_view_of :: "hypothesis \<Rightarrow> (string, string) dict \<Rightarrow> eliminated_view" where
  "eliminated_view_of h obs =
     \<lparr>ev_member = member_view_of h,
      ev_evidence = sort_key ei_observable_id
        (case hy_model h of
           None \<Rightarrow> []
         | Some m \<Rightarrow>
             List.map_filter (\<lambda>k.
               case dget obs (co_id k) of
                 None \<Rightarrow> None
               | Some st \<Rightarrow>
                   if st \<in> co_states k
                   then Some \<lparr>ei_observable_id = co_id k, ei_observed_state = st, ei_expected_state = None,
                              ei_relation = HARD_ELIMINATES\<rparr>
                   else None) (om_contradictions m))\<rparr>"

definition class_view_of :: "string set \<Rightarrow> (string, string) dict \<Rightarrow> equivalence_class \<Rightarrow> class_view res" where
  "class_view_of f_usable obs c =
     ClassView_init (map member_view_of (ec_members c)) (ec_signature c) (ec_d_missing c)
       (class_evidence c obs) (elimination_checks c f_usable)"

definition resolve :: "partition \<Rightarrow> observable list \<Rightarrow> structural_result res" where
  "resolve p observations =
     (let outc = classify p; f_usable = set (pa_f_usable p); obs = pa_usable_states p in
      rbind (rmap (class_view_of f_usable obs) (pa_classes p)) (\<lambda>views.
      rbind (integration_gaps observations) (\<lambda>gaps.
      StructuralResult_init
        \<lparr>sr_outcome = outc, sr_localization = summary_localization views, sr_classes = views,
         sr_d_missing = union_d_missing views, sr_checks = union_checks views,
         sr_eliminated = map (\<lambda>h. eliminated_view_of h obs) (pa_eliminated p),
         sr_integration_gaps = gaps\<rparr>)))"

section \<open>The packet of an accepted partition\<close>

definition mk_view :: "partition \<Rightarrow> equivalence_class \<Rightarrow> class_view" where
  "mk_view p c =
     \<lparr>cv_members = map member_view_of (ec_members c), cv_signature = ec_signature c,
      cv_d_missing = ec_d_missing c, cv_evidence = class_evidence c (pa_usable_states p),
      cv_elimination_checks = elimination_checks c (set (pa_f_usable p))\<rparr>"

definition mk_result :: "partition \<Rightarrow> string list \<Rightarrow> structural_result" where
  "mk_result p gaps =
     (let views = map (mk_view p) (pa_classes p) in
      \<lparr>sr_outcome = classify p, sr_localization = summary_localization views, sr_classes = views,
       sr_d_missing = union_d_missing views, sr_checks = union_checks views,
       sr_eliminated = map (\<lambda>h. eliminated_view_of h (pa_usable_states p)) (pa_eliminated p),
       sr_integration_gaps = gaps\<rparr>)"

lemma expected_outcome_views: "expected_outcome (map (mk_view p) (pa_classes p)) = classify p"
  by (simp add: expected_outcome_def classify_def no_surviving_hypothesis_def mk_view_def
      cv_is_singleton_def ec_is_singleton_def hd_map Let_def)

lemma class_view_of_eq:
  "ec_members c \<noteq> [] \<Longrightarrow> class_view_of (set (pa_f_usable p)) (pa_usable_states p) c = Inr (mk_view p c)"
  by (simp add: class_view_of_def ClassView_init_def mk_view_def)

lemma eliminated_view_evidence:
  "ev_evidence (eliminated_view_of h obs) \<noteq> [] \<longleftrightarrow>
   (case hy_model h of None \<Rightarrow> False | Some m \<Rightarrow> list_ex (contradicted_by obs) (om_contradictions m))"
proof -
  have ne: "sort_key k xs \<noteq> [] \<longleftrightarrow> xs \<noteq> []" for k :: "'a \<Rightarrow> string" and xs
    by (metis length_0_conv length_sort)
  have mf: "List.map_filter g xs \<noteq> [] \<longleftrightarrow> list_ex (\<lambda>x. g x \<noteq> None) xs" for g :: "'c \<Rightarrow> 'd option" and xs
    by (induction xs) (auto simp: List.map_filter_simps split: option.splits)
  show ?thesis
    by (cases "hy_model h")
      (auto simp: eliminated_view_of_def ne mf list_ex_iff contradicted_by_def split: option.splits)
qed

lemma integration_gaps_eq:
  "distinct (map ob_id obs) \<Longrightarrow>
   integration_gaps obs = Inr (sort (map ob_id (filter (\<lambda>ob. \<not> ob_collectable ob) obs)))"
  by (simp add: integration_gaps_def by_id_eq comp_def)

lemma mk_result_accepted:
  assumes "classify p = NO_COMPATIBLE_HYPOTHESIS \<Longrightarrow> pa_eliminated p \<noteq> []"
    and "\<And>h. h \<in> set (pa_eliminated p) \<Longrightarrow> ev_evidence (eliminated_view_of h (pa_usable_states p)) \<noteq> []"
  shows "StructuralResult_init (mk_result p gaps) = Inr (mk_result p gaps)"
  using assms by (auto simp: StructuralResult_init_def mk_result_def Let_def expected_outcome_views list_ex_iff)

lemma eliminated_evidence:
  assumes "partition_hypotheses hs obs pol = Inr p" and "h \<in> set (pa_eliminated p)"
  shows "ev_evidence (eliminated_view_of h (pa_usable_states p)) \<noteq> []"
proof -
  let ?us = "filter (\<lambda>ob. is_usable ob \<and> meets_threshold pol ob) obs"
  from assms(1) obtain ds where obs: "distinct (map ob_id obs)" and p: "p = mk_partition ?us ds"
    by (rule partition_hypotheses_Inr)
  have "hard_by ?us h" using assms(2) by (simp add: p mk_partition_def members.rank_set)
  moreover have "hard_by (pa_usable p) h = hard_by ?us h"
    using distinct_usable_filter [OF obs, of pol]
    by (simp add: hard_by_iff by_key.rank_distinct p mk_partition_def)
  ultimately show ?thesis
    by (simp add: eliminated_view_evidence pa_usable_states_def hard_by_def)
qed

lemma all_members_Nil: "all_members (mk_partition us ds) = [] \<longleftrightarrow> pa_classes (mk_partition us ds) = []"
  using class_of_mk_partition(3) [of _ us ds]
  by (cases "pa_classes (mk_partition us ds)") (auto simp: all_members_def)

lemma resolve_eq:
  assumes "partition_hypotheses hs obs pol = Inr p" and "distinct (map ob_id obs')"
  shows "resolve p obs' = Inr (mk_result p (sort (map ob_id (filter (\<lambda>ob. \<not> ob_collectable ob) obs'))))"
proof -
  let ?us = "filter (\<lambda>ob. is_usable ob \<and> meets_threshold pol ob) obs"
  from assms(1) obtain ds where "ds \<noteq> []" and p: "p = mk_partition ?us ds"
    by (rule partition_hypotheses_Inr)
  have "rmap (class_view_of (set (pa_f_usable p)) (pa_usable_states p)) (pa_classes p)
      = Inr (map (mk_view p) (pa_classes p))"
    by (rule rmap_Inr_map) (simp add: class_view_of_eq class_of_mk_partition(3) p)
  moreover have "StructuralResult_init (mk_result p gaps) = Inr (mk_result p gaps)" for gaps
  proof (rule mk_result_accepted)
    show "pa_eliminated p \<noteq> []" if "classify p = NO_COMPATIBLE_HYPOTHESIS"
      using that mk_partition_nonempty [OF \<open>ds \<noteq> []\<close>, of ?us] unfolding p
      by (auto simp: classify_def no_surviving_hypothesis_def Let_def split: if_splits)
  qed (rule eliminated_evidence [OF assms(1)])
  ultimately show ?thesis
    by (simp add: resolve_def integration_gaps_eq [OF assms(2)] Let_def mk_result_def)
qed

section \<open>Properties\<close>

definition agree_on :: "observable list \<Rightarrow> hypothesis set \<Rightarrow> bool" where
  "agree_on us S \<longleftrightarrow> (\<forall>a \<in> S. \<forall>b \<in> S. \<forall>ob \<in> set us. dget (hy_predictions a) (ob_id ob) = dget (hy_predictions b) (ob_id ob))"

lemma one_class_facts:
  assumes "distinct (map ob_id us)" and "distinct (map hy_id ds)" and "pa_classes (mk_partition us ds) = [c]"
  shows "agree_on us (set (ec_members c))" and "length (ec_members c) = card (set (ec_members c))"
    and "ec_d_missing c \<noteq> {} \<longleftrightarrow>
      (\<exists>a \<in> set (ec_members c). \<exists>b \<in> set (ec_members c). dget (hy_predictions a) \<noteq> dget (hy_predictions b))"
proof -
  have c: "c \<in> set (pa_classes (mk_partition us ds))" using assms(3) by simp
  show ag: "agree_on us (set (ec_members c))"
    unfolding agree_on_def
  proof (intro ballI)
    fix a b ob assume "a \<in> set (ec_members c)" "b \<in> set (ec_members c)" "ob \<in> set us"
    then show "dget (hy_predictions a) (ob_id ob) = dget (hy_predictions b) (ob_id ob)"
      using same_class_iff [OF assms(1) c _ c] by blast
  qed
  have "mset (ec_members c) = mset (filter (\<lambda>h. \<not> hard_by us h) ds)"
    using mset_all_members [of us ds] assms(3) by (simp add: all_members_def)
  then have "distinct (map hy_id (ec_members c))"
    using assms(2) by (metis distinct_map_filter mset_eq_imp_distinct_iff mset_map)
  then show "length (ec_members c) = card (set (ec_members c))"
    by (simp add: distinct_card distinct_map)
  have "f \<in> ec_d_missing c \<longleftrightarrow>
      (\<exists>a \<in> set (ec_members c). \<exists>b \<in> set (ec_members c). dget (hy_predictions a) f \<noteq> dget (hy_predictions b) f)" for f
  proof -
    have "dget (hy_predictions a) f = dget (hy_predictions b) f"
      if "f \<in> ob_id ` set us" "a \<in> set (ec_members c)" "b \<in> set (ec_members c)" for a b
      using ag that by (auto simp: agree_on_def)
    then show ?thesis unfolding class_of_mk_partition(2) [OF c] d_missing_iff by metis
  qed
  then show "ec_d_missing c \<noteq> {} \<longleftrightarrow>
      (\<exists>a \<in> set (ec_members c). \<exists>b \<in> set (ec_members c). dget (hy_predictions a) \<noteq> dget (hy_predictions b))"
    unfolding ex_in_conv [symmetric] fun_eq_iff by blast
qed

lemma several_classes_disagree:
  assumes "distinct (map ob_id us)" and cs: "pa_classes (mk_partition us ds) = c # d # cs"
  shows "\<not> agree_on us (set (all_members (mk_partition us ds)))"
proof -
  have c: "c \<in> set (pa_classes (mk_partition us ds))" and d: "d \<in> set (pa_classes (mk_partition us ds))"
    using cs by auto
  obtain a b where a: "a \<in> set (ec_members c)" and b: "b \<in> set (ec_members d)"
    using class_of_mk_partition(3) [OF c] class_of_mk_partition(3) [OF d] by (meson last_in_set)
  have "c \<noteq> d" using classes_sorted [of us ds] cs by auto
  then have "\<not> (\<forall>ob \<in> set us. dget (hy_predictions a) (ob_id ob) = dget (hy_predictions b) (ob_id ob))"
    using same_class_iff [OF assms(1) c a d b] by simp
  moreover have "a \<in> set (all_members (mk_partition us ds))" "b \<in> set (all_members (mk_partition us ds))"
    using a b cs by (auto simp: all_members_def)
  ultimately show ?thesis unfolding agree_on_def by blast
qed

lemma classify_eq:
  assumes "partition_hypotheses hs obs pol = Inr p"
  shows "classify p =
    (let S = set (all_members p) in
     if S = {} then NO_COMPATIBLE_HYPOTHESIS
     else if \<not> agree_on (pa_usable p) S then UNCERTAIN
     else if card S = 1 then IDENTIFIED
     else if \<exists>a \<in> S. \<exists>b \<in> S. dget (hy_predictions a) \<noteq> dget (hy_predictions b) then NON_IDENTIFIABLE
     else IRREDUCIBLE)"
proof -
  let ?us = "filter (\<lambda>ob. is_usable ob \<and> meets_threshold pol ob) obs"
  from assms obtain ds where "distinct (map ob_id obs)" and "distinct_hypotheses hs = Inr ds"
    and p: "p = mk_partition ?us ds"
    by (rule partition_hypotheses_Inr)
  note dus = distinct_usable_filter [OF this(1), of pol]
  have ds: "distinct (map hy_id ds)" using distinct_hypotheses_sound \<open>distinct_hypotheses hs = Inr ds\<close> by blast
  have ag: "agree_on (pa_usable p) S = agree_on ?us S" for S by (simp add: agree_on_def p)
  show ?thesis
  proof (cases "pa_classes p" rule: remdups_adj.cases)
    case 1
    then show ?thesis by (simp add: classify_def no_surviving_hypothesis_def all_members_def)
  next
    case (2 c)
    note f = one_class_facts [OF dus ds, folded p, OF 2]
    have "ec_members c \<noteq> []" using class_of_mk_partition(3) [of c ?us ds] 2 by (simp add: p)
    then show ?thesis using 2 f
      by (simp add: classify_def no_surviving_hypothesis_def all_members_def ag ec_is_singleton_def Let_def)
  next
    case (3 c d cs)
    then have "\<not> agree_on ?us (set (all_members p))" using several_classes_disagree [OF dus] by (simp add: p)
    moreover from this have "set (all_members p) \<noteq> {}" by (auto simp: agree_on_def)
    ultimately show ?thesis using 3
      by (simp add: classify_def no_surviving_hypothesis_def ag Let_def del: set_empty)
  qed
qed

text \<open>
  C4: the outcome label says what the hypotheses say: no compatible hypothesis when every one is
  contradicted; uncertain exactly when two survivors disagree on a usable coordinate; identified when
  a single hypothesis survives; non-identifiable when the survivors differ only on coordinates that
  are not usable; irreducible when the survivors predict alike everywhere.
\<close>

theorem classify_meaning:
  assumes "partition_hypotheses hs obs pol = Inr p"
  shows "classify p =
    (let S = set (all_members p) in
     if S = {} then NO_COMPATIBLE_HYPOTHESIS
     else if \<not> agree_on (pa_usable p) S then UNCERTAIN
     else if card S = 1 then IDENTIFIED
     else if \<exists>a \<in> S. \<exists>b \<in> S. dget (hy_predictions a) \<noteq> dget (hy_predictions b) then NON_IDENTIFIABLE
     else IRREDUCIBLE)"
  by (rule classify_eq [OF assms])

theorem classify_meaning_witness: "classify example_partition = NON_IDENTIFIABLE"
  using classify_meaning [OF example_partition_eq]
  by (simp add: all_members_def agree_on_def example_partition_def example_hypothesis_def Let_def
      example_observed_def fun_eq_iff)

text \<open>
  C5: assembling the packet of an accepted partition never fails the packet's own consistency checks;
  it carries the partition's outcome, its localization lists the survivors' locations without repetition
  and is empty exactly when no hypothesis survives, and then every hypothesis is listed with the
  observation that eliminated it.
\<close>

theorem resolve_total:
  assumes "partition_hypotheses hs obs pol = Inr p" and "distinct (map ob_id obs')"
  shows "\<exists>r. resolve p obs' = Inr r
    \<and> sr_outcome r = classify p
    \<and> distinct (sr_localization r) \<and> set (sr_localization r) = hy_localization ` set (all_members p)
    \<and> (sr_outcome r = NO_COMPATIBLE_HYPOTHESIS \<longleftrightarrow> sr_localization r = [])
    \<and> map ev_member (sr_eliminated r) = map member_view_of (pa_eliminated p)
    \<and> (\<forall>e \<in> set (sr_eliminated r). ev_evidence e \<noteq> [])"
proof -
  let ?r = "mk_result p (sort (map ob_id (filter (\<lambda>ob. \<not> ob_collectable ob) obs')))"
  from resolve_eq [OF assms] have r: "resolve p obs' = Inr ?r" .
  have loc: "sr_localization ?r = dedup (map hy_localization (all_members p))"
    by (simp add: mk_result_def summary_localization_def mk_view_def member_view_of_def Let_def
        all_members_def map_concat comp_def)
  have mem: "all_members p = [] \<longleftrightarrow> pa_classes p = []"
    using assms(1) by (auto elim!: partition_hypotheses_Inr simp: all_members_Nil)
  have nc: "classify p = NO_COMPATIBLE_HYPOTHESIS \<longleftrightarrow> pa_classes p = []"
    by (simp add: classify_def no_surviving_hypothesis_def Let_def)
  have acc: "\<forall>e \<in> set (sr_eliminated ?r). ev_evidence e \<noteq> []"
    using eliminated_evidence [OF assms(1)] by (simp add: mk_result_def Let_def)
  have em: "map ev_member (sr_eliminated ?r) = map member_view_of (pa_eliminated p)"
    by (simp add: mk_result_def Let_def eliminated_view_of_def)
  have "sr_outcome ?r = classify p" by (simp add: mk_result_def Let_def)
  then show ?thesis
    using r loc acc em by (intro exI [of _ ?r]) (simp add: nc dedup_Nil flip: mem)
qed

theorem resolve_total_witness:
  "\<exists>r. resolve example_partition example_observations = Inr r
    \<and> sr_outcome r = NON_IDENTIFIABLE \<and> set (sr_localization r) = {''u'', ''x''} \<and> length (sr_eliminated r) = 1"
proof -
  have out: "classify example_partition = NON_IDENTIFIABLE"
    by (simp add: classify_def no_surviving_hypothesis_def example_partition_def ec_is_singleton_def)
  have ids: "distinct (map ob_id example_observations)"
    by (simp add: example_observations_def example_observed_def example_unknown_def)
  obtain r where r: "resolve example_partition example_observations = Inr r"
      "sr_outcome r = classify example_partition"
      "set (sr_localization r) = hy_localization ` set (all_members example_partition)"
      "map ev_member (sr_eliminated r) = map member_view_of (pa_eliminated example_partition)"
    using resolve_total [OF example_partition_eq ids] by blast
  have "length (sr_eliminated r) = length (pa_eliminated example_partition)"
    using r(4) by (metis length_map)
  with r out show ?thesis by (simp add: all_members_def example_partition_def example_hypothesis_def)
qed

lemma class_evidence_item:
  "i \<in> set (class_evidence c seen) \<Longrightarrow>
   dget seen (ei_observable_id i) = Some (ei_observed_state i)
   \<and> ei_relation i = (if ei_expected_state i = Some (ei_observed_state i) then SUPPORTS else MISMATCH)"
  by (auto simp: class_evidence_def set_map_filter split: option.splits)

lemma eliminated_evidence_item:
  "i \<in> set (ev_evidence (eliminated_view_of h seen)) \<Longrightarrow>
   dget seen (ei_observable_id i) = Some (ei_observed_state i) \<and> ei_relation i = HARD_ELIMINATES"
  by (auto simp: eliminated_view_of_def set_map_filter split: option.splits if_splits)

lemma elimination_check_fresh: "k \<in> set (elimination_checks c U) \<Longrightarrow> ek_observable_id k \<notin> U"
  by (auto simp: elimination_checks_def split: option.splits)

text \<open>
  the packet invents no evidence: every item cited for a class or for an eliminated hypothesis names
  a usable observation and its actual state, support is claimed only when that state is the predicted one,
  a hard elimination is only cited for an eliminated hypothesis, and every suggested elimination check is
  on a coordinate that is not usable.
\<close>

theorem packet_evidence_truthful:
  assumes "partition_hypotheses hs obs pol = Inr p" and "resolve p obs' = Inr r"
  shows "(\<forall>v \<in> set (sr_classes r). \<forall>i \<in> set (cv_evidence v).
      (\<exists>ob \<in> set (pa_usable p). ob_id ob = ei_observable_id i \<and> ob_state ob = Some (ei_observed_state i))
      \<and> ei_relation i = (if ei_expected_state i = Some (ei_observed_state i) then SUPPORTS else MISMATCH))
    \<and> (\<forall>e \<in> set (sr_eliminated r). \<forall>i \<in> set (ev_evidence e).
      (\<exists>ob \<in> set (pa_usable p). ob_id ob = ei_observable_id i \<and> ob_state ob = Some (ei_observed_state i))
      \<and> ei_relation i = HARD_ELIMINATES)
    \<and> (\<forall>k \<in> set (sr_checks r). ek_observable_id k \<notin> ob_id ` set (pa_usable p))"
proof -
  from assms(1) obtain ds where obs: "distinct (map ob_id obs)"
    and p: "p = mk_partition (filter (\<lambda>ob. is_usable ob \<and> meets_threshold pol ob) obs) ds"
    by (rule partition_hypotheses_Inr)
  have dis: "distinct (map ob_id (pa_usable p))"
    using distinct_usable_filter [OF obs, of pol] by (simp add: p mk_partition_def by_key.rank_distinct)
  note seen = states_of_Some [OF dis, folded pa_usable_states_def]
  have dobs: "distinct (map ob_id obs')"
    using assms(2) by (auto simp: resolve_def Let_def res_simps integration_gaps_def by_id_eq split: if_splits)
  have r: "r = mk_result p (sort (map ob_id (filter (\<lambda>ob. \<not> ob_collectable ob) obs')))"
    using resolve_eq [OF assms(1) dobs] assms(2) by simp
  show ?thesis
    using class_evidence_item eliminated_evidence_item elimination_check_fresh
    by (auto simp: r mk_result_def mk_view_def Let_def union_checks_def pa_f_usable_def seen [symmetric] split: if_splits)
qed

theorem packet_evidence_truthful_witness:
  "\<exists>r. resolve example_partition example_observations = Inr r
    \<and> list_all (\<lambda>e. list_all (\<lambda>i. ei_relation i = HARD_ELIMINATES) (ev_evidence e)) (sr_eliminated r)"
proof -
  have ids: "distinct (map ob_id example_observations)"
    by (simp add: example_observations_def example_observed_def example_unknown_def)
  from resolve_eq [OF example_partition_eq this] obtain r
    where r: "resolve example_partition example_observations = Inr r" by simp
  from packet_evidence_truthful [OF example_partition_eq this] r show ?thesis
    unfolding list_all_iff by blast
qed

end
