(* ===== verification/ClassScoring.thy ===== *)
theory ClassScoring
  imports Outcomes
begin

text \<open>
  Class scoring (\<open>src/core/rca/scoring.py\<close>): the discrete evidence algebra over soft expectations,
  the score of a class as the best score of its members, and the presentation order of the surviving
  classes, where the ranker's score is a secondary key. A missing ranker signal sorts last, as
  \<open>-float("-inf")\<close> does.
\<close>

section \<open>Operations\<close>

datatype support = STRONG_SUPPORT | SUPPORT | WEAK_SUPPORT | NEUTRAL | WEAK_CONTRADICTION | SOFT_CONTRADICTION

fun support_value :: "support \<Rightarrow> int" where
  "support_value STRONG_SUPPORT = 3"
| "support_value SUPPORT = 2"
| "support_value WEAK_SUPPORT = 1"
| "support_value NEUTRAL = 0"
| "support_value WEAK_CONTRADICTION = -1"
| "support_value SOFT_CONTRADICTION = -2"

fun match_support :: "strength \<Rightarrow> support" where
  "match_support USUALLY = STRONG_SUPPORT"
| "match_support OFTEN = SUPPORT"
| "match_support MAYBE = WEAK_SUPPORT"
| "match_support NOT_REQUIRED = NEUTRAL"

fun mismatch_support :: "strength \<Rightarrow> support" where
  "mismatch_support USUALLY = SOFT_CONTRADICTION"
| "mismatch_support OFTEN = WEAK_CONTRADICTION"
| "mismatch_support MAYBE = WEAK_CONTRADICTION"
| "mismatch_support NOT_REQUIRED = NEUTRAL"

definition usable_states :: "observable list \<Rightarrow> (string, string) dict res" where
  "usable_states obs = rbind (usable_observables obs) (\<lambda>us. Inr (states_of us))"

definition expectation_score :: "(string, string) dict \<Rightarrow> expected_obs \<Rightarrow> int" where
  "expectation_score seen e =
     (case dget seen (eo_id e) of
        None \<Rightarrow> 0
      | Some state \<Rightarrow>
          support_value (if state = eo_state e then match_support (eo_strength e)
                         else mismatch_support (eo_strength e)))"

definition score_from_states :: "hypothesis \<Rightarrow> (string, string) dict \<Rightarrow> int" where
  "score_from_states h seen =
     (case hy_model h of
        None \<Rightarrow> 0
      | Some m \<Rightarrow> foldl (\<lambda>total e. total + expectation_score seen e) 0 (om_expected m))"

definition score_hypothesis :: "hypothesis \<Rightarrow> observable list \<Rightarrow> int res" where
  "score_hypothesis h obs = rbind (usable_states obs) (\<lambda>seen. Inr (score_from_states h seen))"

definition score_class :: "hypothesis list \<Rightarrow> observable list \<Rightarrow> int res" where
  "score_class members obs =
     rbind (usable_states obs) (\<lambda>seen.
     let scores = map (\<lambda>h. score_from_states h seen) members in
     if scores = [] then Inl (ValueError ''score_class requires at least one member'')
     else Inr (max_or 0 scores))"

definition ranker_signal :: "hypothesis list \<Rightarrow> real option" where
  "ranker_signal members =
     (let scores = List.map_filter (\<lambda>h. map_option ca_score (hy_source h)) members in
      if scores = [] then None else Some (max_or 0 scores))"

record scored_class =
  sc_hypothesis_ids :: "string list"
  sc_localizations :: "string list"
  sc_signature :: "(string \<times> string) list"
  sc_score :: int
  sc_ranker_signal :: "real option"
  sc_member_scores :: "(string \<times> int) list"

definition scored_class_of :: "(string, string) dict \<Rightarrow> bool \<Rightarrow> equivalence_class \<Rightarrow> scored_class res" where
  "scored_class_of seen use_ranker c =
     (let member_scores = map (\<lambda>h. (hy_id h, score_from_states h seen)) (ec_members c) in
      if member_scores = [] then Inl (ValueError ''max() arg is an empty sequence'')
      else Inr \<lparr>sc_hypothesis_ids = map hy_id (ec_members c),
                sc_localizations = dedup (map hy_localization (ec_members c)),
                sc_signature = ec_signature c,
                sc_score = max_or 0 (map snd member_scores),
                sc_ranker_signal = (if use_ranker then ranker_signal (ec_members c) else None),
                sc_member_scores = member_scores\<rparr>)"

definition signal_key :: "real option \<Rightarrow> nat \<times> real" where
  "signal_key s = (case s of Some r \<Rightarrow> (0, - r) | None \<Rightarrow> (1, 0))"

definition class_key :: "scored_class \<Rightarrow> int \<times> (nat \<times> real) \<times> (string \<times> string) list" where
  "class_key s = (- sc_score s, signal_key (sc_ranker_signal s), sc_signature s)"

definition rank_classes :: "partition \<Rightarrow> bool \<Rightarrow> scored_class list res" where
  "rank_classes p use_ranker =
     rbind (rmap (scored_class_of (pa_usable_states p) use_ranker) (pa_classes p)) (\<lambda>scored.
     Inr (sort_key class_key scored))"

section \<open>Facts\<close>

lemma score_from_states_sum:
  "score_from_states h seen =
     (case hy_model h of None \<Rightarrow> 0 | Some m \<Rightarrow> sum_list (map (expectation_score seen) (om_expected m)))"
proof -
  have "foldl (\<lambda>t e. t + f e) a xs = a + sum_list (map f xs)" for f :: "expected_obs \<Rightarrow> int" and a xs
    by (induction xs arbitrary: a) simp_all
  then show ?thesis by (simp add: score_from_states_def split: option.splits)
qed

lemma expectation_score_bounds: "-2 \<le> expectation_score seen e" "expectation_score seen e \<le> 3"
  by (cases "eo_strength e"; auto simp: expectation_score_def split: option.splits)+

lemma score_no_states: "score_from_states h (states_of []) = 0"
proof -
  have "sum_list (map (expectation_score []) es) = 0" for es
    by (induction es) (simp_all add: expectation_score_def)
  then show ?thesis
    by (simp add: score_from_states_sum states_of_def dict_of_def List.map_filter_simps split: option.splits)
qed

lemma sum_list_bounds:
  fixes f :: "'a \<Rightarrow> int"
  assumes "\<And>x. lo \<le> f x" and "\<And>x. f x \<le> hi"
  shows "lo * int (length xs) \<le> sum_list (map f xs)" and "sum_list (map f xs) \<le> hi * int (length xs)"
  using assms by (induction xs) (simp_all add: algebra_simps add_mono)

definition mk_scored :: "partition \<Rightarrow> bool \<Rightarrow> equivalence_class \<Rightarrow> scored_class" where
  "mk_scored p u c =
     \<lparr>sc_hypothesis_ids = map hy_id (ec_members c),
      sc_localizations = dedup (map hy_localization (ec_members c)),
      sc_signature = ec_signature c,
      sc_score = max_or 0 (map (\<lambda>h. score_from_states h (pa_usable_states p)) (ec_members c)),
      sc_ranker_signal = (if u then ranker_signal (ec_members c) else None),
      sc_member_scores = map (\<lambda>h. (hy_id h, score_from_states h (pa_usable_states p))) (ec_members c)\<rparr>"

lemma rank_classes_eq:
  assumes "\<forall>c \<in> set (pa_classes p). ec_members c \<noteq> []"
  shows "rank_classes p u = Inr (sort_key class_key (map (mk_scored p u) (pa_classes p)))"
proof -
  have "rmap (scored_class_of (pa_usable_states p) u) (pa_classes p) = Inr (map (mk_scored p u) (pa_classes p))"
    using assms by (intro rmap_Inr_map) (simp add: scored_class_of_def mk_scored_def comp_def)
  then show ?thesis by (simp add: rank_classes_def)
qed

lemma accepted_classes_nonempty:
  "partition_hypotheses hs obs pol = Inr p \<Longrightarrow> \<forall>c \<in> set (pa_classes p). ec_members c \<noteq> []"
  by (auto elim!: partition_hypotheses_Inr dest: class_of_mk_partition(3))

lemma sorted_scores: "sorted (map (\<lambda>s. - sc_score s) (sort_key class_key xs))"
proof -
  have "sorted (map class_key (sort_key class_key xs))" by simp
  then show ?thesis
    unfolding sorted_map by (rule sorted_wrt_mono_rel [rotated]) (auto simp: class_key_def less_eq_prod_def)
qed

lemma sorted_scores_unique:
  assumes "mset (map sc_score xs) = mset (map sc_score ys)"
  shows "map sc_score (sort_key class_key xs) = map sc_score (sort_key class_key ys)"
proof -
  have "map (\<lambda>s. - sc_score s) (sort_key class_key zs) = sort (map uminus (map sc_score zs))" for zs
    using sorted_scores [of zs] by (intro properties_for_sort [symmetric]) (simp_all add: comp_def)
  moreover have "sort (map uminus (map sc_score xs)) = sort (map uminus (map sc_score ys))"
  proof (rule properties_for_sort)
    have "mset (map uminus (map sc_score ys)) = image_mset uminus (mset (map sc_score ys))" by (rule mset_map)
    also have "\<dots> = mset (map uminus (map sc_score xs))" unfolding assms [symmetric] by (rule mset_map [symmetric])
    finally show "mset (sort (map uminus (map sc_score ys))) = mset (map uminus (map sc_score xs))" by simp
  qed simp
  ultimately have "map (\<lambda>s. - sc_score s) (sort_key class_key xs) = map (\<lambda>s. - sc_score s) (sort_key class_key ys)"
    by simp
  then have "map uminus (map (\<lambda>s. - sc_score s) (sort_key class_key xs))
      = map uminus (map (\<lambda>s. - sc_score s) (sort_key class_key ys))" by simp
  then show ?thesis by (simp add: comp_def)
qed

section \<open>Properties\<close>

text \<open>
  ranking an accepted partition never raises, returns exactly the partition's classes (their
  hypotheses untouched) with each class's best member score, in descending score order; and consulting
  the ranker changes no class and no score, and not even the sequence of scores: it can only permute
  classes of equal score.
\<close>

theorem rank_classes_sound:
  assumes "partition_hypotheses hs obs pol = Inr p"
  shows "\<exists>r n. rank_classes p True = Inr r \<and> rank_classes p False = Inr n
    \<and> mset (map (\<lambda>s. (sc_signature s, sc_hypothesis_ids s, sc_score s)) r)
      = mset (map (\<lambda>c. (ec_signature c, map hy_id (ec_members c),
            Max ((\<lambda>h. score_from_states h (pa_usable_states p)) ` set (ec_members c)))) (pa_classes p))
    \<and> sorted_wrt (\<ge>) (map sc_score r)
    \<and> mset (map (\<lambda>s. (sc_signature s, sc_hypothesis_ids s, sc_score s)) n)
      = mset (map (\<lambda>s. (sc_signature s, sc_hypothesis_ids s, sc_score s)) r)
    \<and> map sc_score n = map sc_score r"
proof -
  note ne = accepted_classes_nonempty [OF assms]
  let ?R = "\<lambda>u. sort_key class_key (map (mk_scored p u) (pa_classes p))"
  have view: "mset (map (\<lambda>s. (sc_signature s, sc_hypothesis_ids s, sc_score s)) (?R u))
      = mset (map (\<lambda>c. (ec_signature c, map hy_id (ec_members c),
            Max ((\<lambda>h. score_from_states h (pa_usable_states p)) ` set (ec_members c)))) (pa_classes p))" for u
  proof -
    have "map (\<lambda>s. (sc_signature s, sc_hypothesis_ids s, sc_score s)) (map (mk_scored p u) (pa_classes p))
        = map (\<lambda>c. (ec_signature c, map hy_id (ec_members c),
            Max ((\<lambda>h. score_from_states h (pa_usable_states p)) ` set (ec_members c)))) (pa_classes p)"
      using ne by (simp add: mk_scored_def max_or_Max)
    from arg_cong [OF this, of mset] show ?thesis by (simp only: mset_map mset_sort)
  qed
  have "sorted_wrt (\<ge>) (map sc_score (?R True))"
    using sorted_scores [of "map (mk_scored p True) (pa_classes p)"] by (simp add: sorted_wrt_map)
  moreover have "map sc_score (?R False) = map sc_score (?R True)"
    by (rule sorted_scores_unique) (simp add: mk_scored_def comp_def)
  ultimately show ?thesis using rank_classes_eq [OF ne] view by (intro exI conjI) (assumption | rule | simp)+
qed

text \<open>
  the evidence score of a hypothesis lies between \<open>-2\<close> and \<open>3\<close> times the number of its
  expectations, an observation that is not usable contributes nothing, and with no usable observation
  the score is zero.
\<close>

theorem score_hypothesis_bounds_neutral:
  assumes "distinct (map ob_id (os @ ob # os'))" and "hy_model h = Some m"
  shows "\<exists>s. score_hypothesis h (os @ ob # os') = Inr s
    \<and> -2 * int (length (om_expected m)) \<le> s \<and> s \<le> 3 * int (length (om_expected m))
    \<and> (\<not> is_usable ob \<longrightarrow> score_hypothesis h (os @ os') = Inr s)
    \<and> ((\<forall>x \<in> set (os @ ob # os'). \<not> is_usable x) \<longrightarrow> s = 0)"
proof -
  let ?obs = "os @ ob # os'"
  let ?s = "score_from_states h (states_of (filter is_usable ?obs))"
  have "score_hypothesis h ?obs = Inr ?s"
    using assms(1) by (simp add: score_hypothesis_def usable_states_def usable_observables_eq)
  moreover have "score_hypothesis h (os @ os') = Inr ?s" if "\<not> is_usable ob"
    using that assms(1) by (auto simp: score_hypothesis_def usable_states_def usable_observables_eq)
  moreover have "?s = 0" if "\<forall>x \<in> set ?obs. \<not> is_usable x"
  proof -
    have "filter is_usable ?obs = []" using that by (simp add: filter_empty_conv)
    then show ?thesis by (simp only: score_no_states)
  qed
  moreover have "-2 * int (length (om_expected m)) \<le> ?s" and "?s \<le> 3 * int (length (om_expected m))"
    using sum_list_bounds [of "-2" "expectation_score (states_of (filter is_usable ?obs))" 3 "om_expected m",
      OF expectation_score_bounds]
    by (simp_all add: score_from_states_sum assms(2))
  ultimately show ?thesis by blast
qed

theorem rank_classes_sound_witness:
  "\<exists>r. rank_classes example_partition True = Inr r \<and> map sc_score r = [0]
     \<and> map sc_hypothesis_ids r = [[''u'', ''x'']]"
proof -
  obtain r where r: "rank_classes example_partition True = Inr r"
    and m: "mset (map (\<lambda>s. (sc_signature s, sc_hypothesis_ids s, sc_score s)) r)
      = mset (map (\<lambda>c. (ec_signature c, map hy_id (ec_members c),
            Max ((\<lambda>h. score_from_states h (pa_usable_states example_partition)) ` set (ec_members c))))
          (pa_classes example_partition))"
    using rank_classes_sound [OF example_partition_eq] by blast
  have "mset (map (\<lambda>s. (sc_signature s, sc_hypothesis_ids s, sc_score s)) r) = {#([(''a'', ''true'')], [''u'', ''x''], 0)#}"
    unfolding m by (simp add: example_partition_def example_hypothesis_def score_from_states_def)
  then have "map (\<lambda>s. (sc_signature s, sc_hypothesis_ids s, sc_score s)) r = [([(''a'', ''true'')], [''u'', ''x''], 0)]"
    by (simp only: mset_single_iff)
  then obtain s where "r = [s]" and "sc_score s = 0" and "sc_hypothesis_ids s = [''u'', ''x'']"
    by (auto simp: map_eq_Cons_conv)
  with r show ?thesis by simp
qed

theorem score_hypothesis_bounds_neutral_witness:
  "score_hypothesis
     ((example_hypothesis ''x'' ''low'' [])\<lparr>hy_model :=
        Some \<lparr>om_expected = [\<lparr>eo_id = ''a'', eo_state = ''low'', eo_strength = USUALLY\<rparr>], om_contradictions = []\<rparr>\<rparr>)
     [example_observed ''a'' ''true''] = Inr (-2)"
proof -
  let ?m = "\<lparr>om_expected = [\<lparr>eo_id = ''a'', eo_state = ''low'', eo_strength = USUALLY\<rparr>], om_contradictions = []\<rparr>"
  let ?h = "(example_hypothesis ''x'' ''low'' [])\<lparr>hy_model := Some ?m\<rparr>"
  have "score_hypothesis ?h [example_observed ''a'' ''true'', example_unknown ''b''] = Inr (-2)"
    by (simp add: score_hypothesis_def usable_states_def usable_observables_eq score_from_states_def
        example_observed_def example_unknown_def is_usable_def states_of_def dict_of_def List.map_filter_simps
        expectation_score_def)
  then show ?thesis
    using score_hypothesis_bounds_neutral [of "[example_observed ''a'' ''true'']" "example_unknown ''b''" "[]" ?h ?m]
    by (simp add: example_observed_def example_unknown_def is_usable_def)
qed

end
