(* ===== verification/SpanSignals.thy ===== *)
theory SpanSignals
  imports ClassScoring
begin

text \<open>
  Signals read off spans (\<open>src/core/rca/structural_model.py\<close>, first half): the explicit status of a span,
  the three-valued state of a service or of a call edge, the incident call graph, and the call targets
  learnt from parent links. Timestamps are integers (microseconds); a span's duration and status are
  dynamically typed, as the code tests them. Where the source repeats the body of the per-span loop for
  services and for edges, the model has one step, parameterised by the coordinate a span counts for.
\<close>

section \<open>Spans and their status\<close>

record span =
  sp_trace_id :: "string option"
  sp_span_id :: "string option"
  sp_parent_span_id :: "string option"
  sp_service :: "string option"
  sp_operation :: "string option"
  sp_start_time :: "int option"
  sp_duration_ms :: pyval
  sp_status_code :: pyval

definition truthy_str :: "string option \<Rightarrow> bool" where
  "truthy_str s = (case s of None \<Rightarrow> False | Some x \<Rightarrow> x \<noteq> [])"

datatype span_status = StError | StOk

definition ERROR_STATUS :: "string list" where
  "ERROR_STATUS = [''2'', ''error'', ''status_code_error'']"

definition OK_STATUS :: "string list" where
  "OK_STATUS = [''1'', ''ok'', ''status_code_ok'']"

text \<open>The text \<open>str(status)\<close> of a status; the text of a value that is neither a string nor an integer
is never one of the known status words.\<close>

fun status_text :: "pyval \<Rightarrow> string option" where
  "status_text (VStr s) = Some s"
| "status_text (VNum (IntN i)) = Some (str_of_int i)"
| "status_text _ = None"

definition status_class :: "pyval \<Rightarrow> span_status option" where
  "status_class status =
     (case status_text status of
        None \<Rightarrow> None
      | Some t \<Rightarrow>
          let s = lower_str (strip_str t) in
          if s \<in> set ERROR_STATUS then Some StError
          else if s \<in> set OK_STATUS then Some StOk else None)"

text \<open>A duration counts when it is an int or a float (a bool is an int), finite and non-negative.\<close>

fun valid_duration :: "pyval \<Rightarrow> real option" where
  "valid_duration (VNum n) =
     (case fl_of_num n of Fin x \<Rightarrow> if 0 \<le> x then Some x else None | _ \<Rightarrow> None)"
| "valid_duration (VBool b) = Some (of_bool b)"
| "valid_duration _ = None"

definition median :: "real list \<Rightarrow> real" where
  "median xs =
     (let s = sort xs; n = length xs in
      if n = 0 then 0
      else if odd n then s ! (n div 2)
      else (s ! (n div 2 - 1) + s ! (n div 2)) / 2)"

section \<open>The per-span loop\<close>

record 'k span_acc =
  ac_calls :: "('k, nat) dict"
  ac_ok :: "('k, nat) dict"
  ac_err :: "('k, nat) dict"
  ac_inc_dur :: "('k, real list) dict"
  ac_base_dur :: "('k, real list) dict"

definition counter_add :: "'k \<Rightarrow> ('k, nat) dict \<Rightarrow> ('k, nat) dict" where
  "counter_add k d = dset k (dget_or d k 0 + 1) d"

definition counter_get :: "('k, nat) dict \<Rightarrow> 'k \<Rightarrow> nat" where
  "counter_get d k = dget_or d k 0"

definition span_acc_empty :: "'k span_acc" where
  "span_acc_empty = \<lparr>ac_calls = [], ac_ok = [], ac_err = [], ac_inc_dur = [], ac_base_dur = []\<rparr>"

definition add_duration :: "'k \<Rightarrow> real option \<Rightarrow> ('k, real list) dict \<Rightarrow> ('k, real list) dict" where
  "add_duration k v d = (case v of None \<Rightarrow> d | Some x \<Rightarrow> dict_append k x d)"

definition span_step :: "(span \<Rightarrow> 'k option) \<Rightarrow> int \<Rightarrow> 'k span_acc \<Rightarrow> span \<Rightarrow> 'k span_acc" where
  "span_step key_of ws a sp =
     (case (key_of sp, sp_start_time sp) of
        (Some k, Some ts) \<Rightarrow>
          let dur = valid_duration (sp_duration_ms sp) in
          if ws \<le> ts then
            let a = a\<lparr>ac_calls := counter_add k (ac_calls a)\<rparr>;
                a = (case status_class (sp_status_code sp) of
                       Some StError \<Rightarrow> a\<lparr>ac_err := counter_add k (ac_err a)\<rparr>
                     | Some StOk \<Rightarrow> a\<lparr>ac_ok := counter_add k (ac_ok a)\<rparr>
                     | None \<Rightarrow> a)
            in a\<lparr>ac_inc_dur := add_duration k dur (ac_inc_dur a)\<rparr>
          else a\<lparr>ac_base_dur := add_duration k dur (ac_base_dur a)\<rparr>
      | _ \<Rightarrow> a)"

definition span_loop :: "(span \<Rightarrow> 'k option) \<Rightarrow> int \<Rightarrow> span list \<Rightarrow> 'k span_acc" where
  "span_loop key_of ws spans = foldl (span_step key_of ws) span_acc_empty spans"

text \<open>The default gates: an error rate of 0.05 is present, a ratio of 2 is high, 0.5 is low.\<close>

definition default_rate :: "real \<Rightarrow> string res" where
  "default_rate r = discretize_rate (VNum (FloatN (Fin r))) (VNum (FloatN (Fin (5/100))))"

definition default_ratio :: "real \<Rightarrow> string res" where
  "default_ratio r = discretize_ratio (VNum (FloatN (Fin r))) (VNum (FloatN (Fin 2))) (VNum (FloatN (Fin (1/2))))"

definition flag_if :: "bool \<Rightarrow> string res \<Rightarrow> string \<Rightarrow> bool res" where
  "flag_if measured m s = (if measured then rbind m (\<lambda>x. Inr (x = s)) else Inr False)"

definition three_valued :: "bool \<Rightarrow> bool \<Rightarrow> string option" where
  "three_valued hit all_measured = (if hit then Some st_present else if all_measured then Some st_absent else None)"

record branches =
  br_error_rate :: real
  br_latency_ratio :: real
  br_error_measured :: bool
  br_latency_measured :: bool
  br_state :: "string option"

definition branches_of :: "'k span_acc \<Rightarrow> 'k \<Rightarrow> branches res" where
  "branches_of a k =
     (let explicit = counter_get (ac_ok a) k + counter_get (ac_err a) k;
          error_measured = (explicit > 0);
          err_rate = (if explicit \<noteq> 0 then of_nat (counter_get (ac_err a) k) / of_nat explicit else 0);
          inc = dget_or (ac_inc_dur a) k []; base = dget_or (ac_base_dur a) k [];
          base_med = median base;
          latency_measured = (inc \<noteq> [] \<and> base \<noteq> [] \<and> base_med > 0);
          ratio = (if latency_measured then median inc / base_med else 1) in
      rbind (flag_if error_measured (default_rate err_rate) st_present) (\<lambda>error_present.
      rbind (flag_if latency_measured (default_ratio ratio) st_high) (\<lambda>latency_high.
      Inr \<lparr>br_error_rate = err_rate, br_latency_ratio = ratio, br_error_measured = error_measured,
           br_latency_measured = latency_measured,
           br_state = three_valued (error_present \<or> latency_high) (error_measured \<and> latency_measured)\<rparr>)))"

section \<open>Services\<close>

record service_signal =
  ss_service :: string
  ss_branches :: branches

definition ss_state :: "service_signal \<Rightarrow> string option" where
  "ss_state s = br_state (ss_branches s)"

definition ss_measured :: "service_signal \<Rightarrow> bool" where
  "ss_measured s = (ss_state s \<noteq> None)"

definition ss_anomalous :: "service_signal \<Rightarrow> bool" where
  "ss_anomalous s = (ss_state s = Some st_present)"

definition service_key :: "span \<Rightarrow> string option" where
  "service_key sp = (if truthy_str (sp_service sp) then sp_service sp else None)"

definition summarize_spans :: "span list \<Rightarrow> int \<Rightarrow> (string, service_signal) dict res" where
  "summarize_spans spans ws =
     (let a = span_loop service_key ws spans in
      rmap (\<lambda>svc. rbind (branches_of a svc) (\<lambda>b. Inr (svc, \<lparr>ss_service = svc, ss_branches = b\<rparr>)))
        (sort (dedup (dkeys (ac_ok a) @ dkeys (ac_err a) @ dkeys (ac_inc_dur a) @ dkeys (ac_base_dur a)))))"

section \<open>The call graph\<close>

type_synonym span_id = "string \<times> string"

fun span_ref :: "string option \<Rightarrow> string option \<Rightarrow> span_id option" where
  "span_ref (Some t) (Some i) = (if t \<noteq> [] \<and> i \<noteq> [] then Some (t, i) else None)"
| "span_ref _ _ = None"

text \<open>The parent index \<open>{(trace_id, span_id): span}\<close> over identified, attributed spans; the last wins.\<close>

definition span_index :: "span list \<Rightarrow> (span_id, span) dict" where
  "span_index spans =
     dict_of (List.map_filter (\<lambda>sp.
       if truthy_str (sp_service sp) then map_option (\<lambda>r. (r, sp)) (span_ref (sp_trace_id sp) (sp_span_id sp))
       else None) spans)"

definition parent_of :: "span list \<Rightarrow> span \<Rightarrow> span option" where
  "parent_of spans sp =
     (if truthy_str (sp_service sp)
      then Option.bind (span_ref (sp_trace_id sp) (sp_parent_span_id sp)) (dget (span_index spans))
      else None)"

definition incident_child :: "int option \<Rightarrow> span \<Rightarrow> bool" where
  "incident_child since sp =
     (case since of
        None \<Rightarrow> True
      | Some s \<Rightarrow> (case sp_start_time sp of None \<Rightarrow> False | Some ts \<Rightarrow> s \<le> ts))"

definition call_edge_of :: "span list \<Rightarrow> span \<Rightarrow> (string \<times> string) option" where
  "call_edge_of spans sp =
     (case (parent_of spans sp, sp_service sp) of
        (Some parent, Some callee) \<Rightarrow>
          (case sp_service parent of
             Some caller \<Rightarrow> if caller \<noteq> [] \<and> caller \<noteq> callee then Some (caller, callee) else None
           | None \<Rightarrow> None)
      | _ \<Rightarrow> None)"

definition call_edges :: "span list \<Rightarrow> int option \<Rightarrow> (string \<times> string) list" where
  "call_edges spans since = dedup (List.map_filter (call_edge_of spans) (filter (incident_child since) spans))"

section \<open>Learnt call targets and edge signals\<close>

definition target_step ::
  "span list \<Rightarrow> (string \<times> string, (string, nat) dict) dict \<Rightarrow> span \<Rightarrow> (string \<times> string, (string, nat) dict) dict" where
  "target_step spans d sp =
     (case (parent_of spans sp, sp_service sp) of
        (Some parent, Some callee) \<Rightarrow>
          if sp_service parent = Some callee then d
          else (case (sp_service parent, sp_operation parent) of
                  (Some caller, Some op) \<Rightarrow>
                    if op = [] then d
                    else dset (caller, op) (counter_add callee (dget_or d (caller, op) [])) d
                | _ \<Rightarrow> d)
      | _ \<Rightarrow> d)"

text \<open>\<open>Counter.most_common(1)[0]\<close>: the first entry of largest count.\<close>

definition most_common :: "(string, nat) dict \<Rightarrow> (string \<times> nat) option" where
  "most_common d = max_by snd d"

definition dominant :: "real \<Rightarrow> (string, nat) dict \<Rightarrow> string option" where
  "dominant dominance cnt =
     (case most_common cnt of
        None \<Rightarrow> None
      | Some (callee, n) \<Rightarrow>
          if dominance \<le> of_nat n / of_nat (sum_list (dvals cnt)) then Some callee else None)"

definition learn_call_targets :: "span list \<Rightarrow> real \<Rightarrow> (string \<times> string, string) dict" where
  "learn_call_targets spans dominance =
     (let counts = foldl (target_step spans) [] spans in
      List.map_filter (\<lambda>(key, cnt). map_option (Pair key) (dominant dominance cnt)) counts)"

definition edge_key :: "(string \<times> string, string) dict \<Rightarrow> span \<Rightarrow> (string \<times> string) option" where
  "edge_key targets sp =
     (case (sp_service sp, sp_operation sp) of
        (Some s, Some op) \<Rightarrow> if s = [] then None else map_option (Pair s) (dget targets (s, op))
      | _ \<Rightarrow> None)"

record edge_signal =
  es_caller :: string
  es_callee :: string
  es_branches :: branches

definition edge_observable_id :: "string \<Rightarrow> string \<Rightarrow> string" where
  "edge_observable_id caller callee = ''edge:'' @ caller @ ''->'' @ callee"

definition es_id :: "edge_signal \<Rightarrow> string" where
  "es_id e = edge_observable_id (es_caller e) (es_callee e)"

definition es_state :: "edge_signal \<Rightarrow> string option" where
  "es_state e = br_state (es_branches e)"

definition summarize_edges :: "span list \<Rightarrow> int \<Rightarrow> real \<Rightarrow> (string \<times> string, edge_signal) dict res" where
  "summarize_edges spans ws dominance =
     (let targets = learn_call_targets spans dominance;
          a = span_loop (edge_key targets) ws spans in
      rmap (\<lambda>key. rbind (branches_of a key) (\<lambda>b.
          Inr (key, \<lparr>es_caller = fst key, es_callee = snd key, es_branches = b\<rparr>)))
        (sort (dkeys (ac_calls a))))"

section \<open>What the loop accumulates\<close>

definition incident_of :: "(span \<Rightarrow> 'k option) \<Rightarrow> int \<Rightarrow> 'k \<Rightarrow> span \<Rightarrow> bool" where
  "incident_of key_of ws k sp \<longleftrightarrow> key_of sp = Some k \<and> (case sp_start_time sp of None \<Rightarrow> False | Some ts \<Rightarrow> ws \<le> ts)"

definition baseline_of :: "(span \<Rightarrow> 'k option) \<Rightarrow> int \<Rightarrow> 'k \<Rightarrow> span \<Rightarrow> bool" where
  "baseline_of key_of ws k sp \<longleftrightarrow> key_of sp = Some k \<and> (case sp_start_time sp of None \<Rightarrow> False | Some ts \<Rightarrow> ts < ws)"

definition status_count :: "(span \<Rightarrow> 'k option) \<Rightarrow> int \<Rightarrow> span list \<Rightarrow> span_status \<Rightarrow> 'k \<Rightarrow> nat" where
  "status_count key_of ws spans c k =
     length (filter (\<lambda>sp. incident_of key_of ws k sp \<and> status_class (sp_status_code sp) = Some c) spans)"

definition durations :: "(span \<Rightarrow> bool) \<Rightarrow> span list \<Rightarrow> real list" where
  "durations P spans = List.map_filter (\<lambda>sp. if P sp then valid_duration (sp_duration_ms sp) else None) spans"

lemma map_filter_append: "List.map_filter f (xs @ ys) = List.map_filter f xs @ List.map_filter f ys"
  by (simp add: List.map_filter_def)

lemma durations_Nil [simp]: "durations P [] = []"
  by (simp add: durations_def List.map_filter_simps)

lemma durations_snoc:
  "durations P (xs @ [sp]) =
     durations P xs @ (if P sp then (case valid_duration (sp_duration_ms sp) of None \<Rightarrow> [] | Some x \<Rightarrow> [x]) else [])"
  by (simp add: durations_def map_filter_append List.map_filter_simps split: option.splits)

lemma counter_get_add [simp]: "counter_get (counter_add k d) k' = counter_get d k' + of_bool (k' = k)"
  by (simp add: counter_get_def counter_add_def dget_or_def)

lemma counter_get_Nil [simp]: "counter_get [] k = 0"
  by (simp add: counter_get_def dget_or_def)

lemma keys_counter_add [simp]: "fst ` set (counter_add k d) = insert k (fst ` set d)"
  by (simp add: counter_add_def)

lemma get_add_duration:
  "dget_or (add_duration k v d) k' [] = dget_or d k' [] @ (if k' = k then (case v of None \<Rightarrow> [] | Some x \<Rightarrow> [x]) else [])"
  by (simp add: add_duration_def dict_append_def dget_or_def split: option.splits)

lemma keys_add_duration [simp]:
  "fst ` set (add_duration k v d) = fst ` set d \<union> (if v = None then {} else {k})"
  by (simp add: add_duration_def dict_append_def split: option.splits)

lemma span_loop_Nil [simp]: "span_loop key_of ws [] = span_acc_empty"
  by (simp add: span_loop_def)

lemma span_loop_snoc: "span_loop key_of ws (xs @ [sp]) = span_step key_of ws (span_loop key_of ws xs) sp"
  by (simp add: span_loop_def)

lemma span_step_counts:
  "counter_get (ac_err (span_step key_of ws a sp)) k =
     counter_get (ac_err a) k + of_bool (incident_of key_of ws k sp \<and> status_class (sp_status_code sp) = Some StError)"
  "counter_get (ac_ok (span_step key_of ws a sp)) k =
     counter_get (ac_ok a) k + of_bool (incident_of key_of ws k sp \<and> status_class (sp_status_code sp) = Some StOk)"
  by (auto simp: span_step_def incident_of_def Let_def split: option.splits span_status.splits)

lemma span_step_durations:
  "dget_or (ac_inc_dur (span_step key_of ws a sp)) k [] = dget_or (ac_inc_dur a) k [] @
     (if incident_of key_of ws k sp then (case valid_duration (sp_duration_ms sp) of None \<Rightarrow> [] | Some x \<Rightarrow> [x]) else [])"
  "dget_or (ac_base_dur (span_step key_of ws a sp)) k [] = dget_or (ac_base_dur a) k [] @
     (if baseline_of key_of ws k sp then (case valid_duration (sp_duration_ms sp) of None \<Rightarrow> [] | Some x \<Rightarrow> [x]) else [])"
  by (auto simp: span_step_def incident_of_def baseline_of_def Let_def get_add_duration
      split: option.splits span_status.splits)

lemma span_loop_counts:
  "counter_get (ac_err (span_loop key_of ws spans)) k = status_count key_of ws spans StError k"
  "counter_get (ac_ok (span_loop key_of ws spans)) k = status_count key_of ws spans StOk k"
  by (induction spans rule: rev_induct)
    (simp_all add: span_loop_snoc span_step_counts span_acc_empty_def status_count_def)

lemma span_loop_durations:
  "dget_or (ac_inc_dur (span_loop key_of ws spans)) k [] = durations (incident_of key_of ws k) spans"
  "dget_or (ac_base_dur (span_loop key_of ws spans)) k [] = durations (baseline_of key_of ws k) spans"
  by (induction spans rule: rev_induct)
    (simp_all add: span_loop_snoc span_step_durations span_acc_empty_def durations_snoc dget_or_def [of "[]"])

lemma span_loop_call_keys:
  "fst ` set (ac_calls (span_loop key_of ws spans)) = {k. \<exists>sp \<in> set spans. incident_of key_of ws k sp}"
  by (induction spans rule: rev_induct)
    (auto simp: span_loop_snoc span_step_def span_acc_empty_def incident_of_def Let_def
      split: option.splits span_status.splits)

definition informative :: "(span \<Rightarrow> 'k option) \<Rightarrow> int \<Rightarrow> 'k \<Rightarrow> span \<Rightarrow> bool" where
  "informative key_of ws k sp \<longleftrightarrow>
     incident_of key_of ws k sp \<and> status_class (sp_status_code sp) \<noteq> None \<or>
     (incident_of key_of ws k sp \<or> baseline_of key_of ws k sp) \<and> valid_duration (sp_duration_ms sp) \<noteq> None"

definition acc_keys :: "'k span_acc \<Rightarrow> 'k set" where
  "acc_keys a = fst ` set (ac_ok a) \<union> fst ` set (ac_err a) \<union> fst ` set (ac_inc_dur a) \<union> fst ` set (ac_base_dur a)"

lemma acc_keys_step:
  "acc_keys (span_step key_of ws a sp) = acc_keys a \<union> {k. informative key_of ws k sp}"
  by (auto simp: acc_keys_def span_step_def informative_def incident_of_def baseline_of_def Let_def
      split: option.splits span_status.splits if_splits)

lemma acc_keys_loop: "acc_keys (span_loop key_of ws spans) = {k. \<exists>sp \<in> set spans. informative key_of ws k sp}"
proof (induction spans rule: rev_induct)
  case Nil
  then show ?case by (simp add: acc_keys_def span_acc_empty_def)
next
  case (snoc sp spans)
  then show ?case by (auto simp: span_loop_snoc acc_keys_step)
qed

section \<open>The three-valued state\<close>

lemma valid_duration_nonneg: "valid_duration v = Some x \<Longrightarrow> 0 \<le> x"
  by (induction v rule: valid_duration.induct) (auto split: pyfloat.splits if_splits)

lemma durations_nonneg: "x \<in> set (durations P spans) \<Longrightarrow> 0 \<le> x"
  by (auto simp: durations_def set_map_filter intro: valid_duration_nonneg split: if_splits)

lemma median_ge:
  assumes "xs \<noteq> []" and "\<And>x. x \<in> set xs \<Longrightarrow> lo \<le> x"
  shows "lo \<le> median xs"
proof -
  have ge: "lo \<le> sort xs ! i" if "i < length xs" for i
    using assms(2) [of "sort xs ! i"] that by (metis length_sort nth_mem set_sort)
  have "length xs div 2 < length xs" using assms(1) by simp
  then have "lo \<le> sort xs ! (length xs div 2)" and "lo \<le> sort xs ! (length xs div 2 - 1)"
    using ge by auto
  then show ?thesis using assms(1) by (simp add: median_def Let_def)
qed

lemma default_rate_eq:
  "0 \<le> r \<Longrightarrow> r \<le> 1 \<Longrightarrow> default_rate r = Inr (if 5/100 \<le> r then st_present else st_absent)"
  by (simp add: default_rate_def discretize_rate_def finite_in_range_def del: fl_le_Fin fl_le_Fin_right)

lemma default_ratio_eq:
  "0 \<le> r \<Longrightarrow> default_ratio r = Inr (if 2 \<le> r then st_high else if r \<le> 1/2 then st_low else st_normal)"
  by (simp add: default_ratio_def discretize_ratio_def finite_in_range_def del: fl_le_Fin fl_le_Fin_right)

text \<open>The specification of a branch pair, from counts of explicit statuses and from durations.\<close>

definition error_hit :: "nat \<Rightarrow> nat \<Rightarrow> bool" where
  "error_hit errs oks \<longleftrightarrow> errs + oks > 0 \<and> 5 * (errs + oks) \<le> 100 * errs"

definition latency_known :: "real list \<Rightarrow> real list \<Rightarrow> bool" where
  "latency_known inc base \<longleftrightarrow> inc \<noteq> [] \<and> base \<noteq> [] \<and> 0 < median base"

definition latency_hit :: "real list \<Rightarrow> real list \<Rightarrow> bool" where
  "latency_hit inc base \<longleftrightarrow> latency_known inc base \<and> 2 * median base \<le> median inc"

definition state_spec :: "nat \<Rightarrow> nat \<Rightarrow> real list \<Rightarrow> real list \<Rightarrow> string option" where
  "state_spec errs oks inc base =
     three_valued (error_hit errs oks \<or> latency_hit inc base) (errs + oks > 0 \<and> latency_known inc base)"

lemma flag_error:
  assumes "n = oks + errs"
  shows "flag_if (0 < n) (default_rate (if n \<noteq> 0 then real errs / real n else 0)) st_present = Inr (error_hit errs oks)"
proof (cases "0 < n")
  case True
  have rate: "real errs / real n \<le> 1" "0 \<le> real errs / real n" using assms True by (simp_all add: divide_le_eq)
  have gate: "5/100 \<le> real errs / real n \<longleftrightarrow> 5 * (errs + oks) \<le> 100 * errs"
    using True assms by (simp add: le_divide_eq) linarith
  have "flag_if (0 < n) (default_rate (if n \<noteq> 0 then real errs / real n else 0)) st_present
      = Inr (5/100 \<le> real errs / real n)"
    using True by (simp add: flag_if_def default_rate_eq [OF rate(2,1)])
  then show ?thesis unfolding gate using True assms by (auto simp: error_hit_def)
next
  case False
  then show ?thesis using assms by (simp add: flag_if_def error_hit_def)
qed

lemma flag_latency:
  assumes "\<And>x. x \<in> set inc \<Longrightarrow> 0 \<le> x"
  shows "flag_if (latency_known inc base) (default_ratio (if latency_known inc base then median inc / median base else 1)) st_high
    = Inr (latency_hit inc base)"
proof (cases "latency_known inc base")
  case True
  then have "0 \<le> median inc / median base" using median_ge [of inc 0] assms by (simp add: latency_known_def)
  moreover have "2 \<le> median inc / median base \<longleftrightarrow> 2 * median base \<le> median inc"
    using True by (simp add: latency_known_def le_divide_eq)
  ultimately show ?thesis using True by (simp add: flag_if_def default_ratio_eq latency_hit_def)
next
  case False
  then show ?thesis by (simp add: flag_if_def latency_hit_def)
qed

lemma branches_of_loop:
  "\<exists>b. branches_of (span_loop key_of ws spans) k = Inr b
     \<and> br_state b = state_spec (status_count key_of ws spans StError k) (status_count key_of ws spans StOk k)
         (durations (incident_of key_of ws k) spans) (durations (baseline_of key_of ws k) spans)"
proof -
  let ?inc = "durations (incident_of key_of ws k) spans" and ?base = "durations (baseline_of key_of ws k) spans"
  have known: "(?inc \<noteq> [] \<and> ?base \<noteq> [] \<and> 0 < median ?base) = latency_known ?inc ?base"
    by (simp add: latency_known_def)
  have lat: "flag_if (latency_known ?inc ?base)
      (default_ratio (if latency_known ?inc ?base then median ?inc / median ?base else 1)) st_high
    = Inr (latency_hit ?inc ?base)"
    by (rule flag_latency) (rule durations_nonneg)
  show ?thesis
    unfolding branches_of_def Let_def span_loop_counts span_loop_durations known lat flag_error [OF refl]
    by (simp add: state_spec_def add.commute)
qed

section \<open>Properties\<close>

text \<open>
  C6: summarizing spans never raises; the summary has one entry, in strictly increasing order, for each
  service with an incident span of explicit status or a span of valid duration; and an entry's state is
  PRESENT exactly when at least 5 percent of the explicit incident statuses are errors or the incident
  median duration is at least twice a positive baseline median, ABSENT only when both branches are
  measured and normal, and unknown otherwise. Spans of unset status never enter the error rate.
\<close>

theorem summarize_spans_spec:
  "\<exists>sigs. summarize_spans spans ws = Inr sigs
    \<and> sorted_wrt (<) (map fst sigs)
    \<and> fst ` set sigs = {s. \<exists>sp \<in> set spans. informative service_key ws s sp}
    \<and> (\<forall>(svc, s) \<in> set sigs. ss_service s = svc \<and>
         ss_state s = state_spec (status_count service_key ws spans StError svc) (status_count service_key ws spans StOk svc)
           (durations (incident_of service_key ws svc) spans) (durations (baseline_of service_key ws svc) spans))"
proof -
  let ?a = "span_loop service_key ws spans"
  let ?ks = "sort (dedup (dkeys (ac_ok ?a) @ dkeys (ac_err ?a) @ dkeys (ac_inc_dur ?a) @ dkeys (ac_base_dur ?a)))"
  obtain sigs where s: "summarize_spans spans ws = Inr sigs" "map fst sigs = ?ks"
    and st: "\<forall>(k, v) \<in> set sigs. \<exists>b. v = \<lparr>ss_service = k, ss_branches = b\<rparr> \<and>
      br_state b = state_spec (status_count service_key ws spans StError k) (status_count service_key ws spans StOk k)
           (durations (incident_of service_key ws k) spans) (durations (baseline_of service_key ws k) spans)"
    using rmap_pairs_Inr [where f = "branches_of ?a" and g = "\<lambda>k b. \<lparr>ss_service = k, ss_branches = b\<rparr>" and ks = ?ks,
      OF branches_of_loop]
    by (auto simp: summarize_spans_def Let_def)
  have "fst ` set sigs = acc_keys ?a"
    using arg_cong [OF s(2), of set] by (simp add: acc_keys_def Un_ac)
  moreover have "sorted_wrt (<) (map fst sigs)" unfolding s(2) by (simp add: strict_sorted_iff)
  ultimately show ?thesis using s(1) st by (auto simp: acc_keys_loop ss_state_def)
qed

section \<open>The incident call graph\<close>

definition attributed_refs :: "span list \<Rightarrow> span_id list" where
  "attributed_refs spans =
     List.map_filter (\<lambda>sp. if truthy_str (sp_service sp) then span_ref (sp_trace_id sp) (sp_span_id sp) else None) spans"

lemma span_index_pairs:
  "map fst (List.map_filter (\<lambda>sp.
       if truthy_str (sp_service sp) then map_option (\<lambda>r. (r, sp)) (span_ref (sp_trace_id sp) (sp_span_id sp))
       else None) spans) = attributed_refs spans"
  by (induction spans) (auto simp: attributed_refs_def List.map_filter_simps split: option.splits)

lemma span_index_iff:
  assumes "distinct (attributed_refs spans)"
  shows "dget (span_index spans) r = Some p \<longleftrightarrow>
    p \<in> set spans \<and> truthy_str (sp_service p) \<and> span_ref (sp_trace_id p) (sp_span_id p) = Some r"
proof -
  let ?L = "List.map_filter (\<lambda>sp.
       if truthy_str (sp_service sp) then map_option (\<lambda>r. (r, sp)) (span_ref (sp_trace_id sp) (sp_span_id sp))
       else None) spans"
  have "distinct (map fst ?L)" using assms by (simp only: span_index_pairs)
  then have "dget (span_index spans) r = Some p \<longleftrightarrow> (r, p) \<in> set ?L"
    by (simp add: span_index_def dict_of_distinct dget_wf_iff dict_wf_def)
  also have "\<dots> \<longleftrightarrow> p \<in> set spans \<and> truthy_str (sp_service p) \<and> span_ref (sp_trace_id p) (sp_span_id p) = Some r"
  proof -
    have eq: "(if truthy_str (sp_service x) then map_option (\<lambda>r. (r, x)) (span_ref (sp_trace_id x) (sp_span_id x)) else None)
        = Some (r, p) \<longleftrightarrow> x = p \<and> truthy_str (sp_service p) \<and> span_ref (sp_trace_id p) (sp_span_id p) = Some r" for x
      by (cases r) auto
    show ?thesis unfolding set_map_filter mem_Collect_eq eq by blast
  qed
  finally show ?thesis .
qed

lemma span_ref_Some [simp]: "span_ref t i = Some r \<longleftrightarrow> t = Some (fst r) \<and> i = Some (snd r) \<and> fst r \<noteq> [] \<and> snd r \<noteq> []"
  by (cases r) (induction t i rule: span_ref.induct, auto)

lemma parent_of_iff:
  assumes "distinct (attributed_refs spans)"
  shows "parent_of spans c = Some p \<longleftrightarrow>
    truthy_str (sp_service c) \<and> p \<in> set spans \<and> truthy_str (sp_service p) \<and>
    (\<exists>r. span_ref (sp_trace_id c) (sp_parent_span_id c) = Some r \<and> span_ref (sp_trace_id p) (sp_span_id p) = Some r)"
  by (auto simp: parent_of_def bind_eq_Some_conv span_index_iff [OF assms])

lemma call_edge_of_iff:
  "call_edge_of spans sp = Some (a, b) \<longleftrightarrow>
     (\<exists>p. parent_of spans sp = Some p \<and> sp_service p = Some a \<and> sp_service sp = Some b \<and> a \<noteq> [] \<and> a \<noteq> b)"
  by (auto simp: call_edge_of_def split: option.splits if_splits)

lemma call_edge_of_linked:
  assumes "distinct (attributed_refs spans)"
  shows "call_edge_of spans c = Some (a, b) \<longleftrightarrow>
    a \<noteq> b \<and> a \<noteq> [] \<and> b \<noteq> [] \<and> sp_service c = Some b \<and> (\<exists>p \<in> set spans. \<exists>t i. t \<noteq> [] \<and> i \<noteq> [] \<and> sp_service p = Some a
          \<and> sp_trace_id p = Some t \<and> sp_trace_id c = Some t \<and> sp_span_id p = Some i \<and> sp_parent_span_id c = Some i)"
proof -
  have tr: "truthy_str (Some x) \<longleftrightarrow> x \<noteq> []" for x by (simp add: truthy_str_def)
  show ?thesis unfolding call_edge_of_iff parent_of_iff [OF assms] span_ref_Some
    by (auto simp: tr)
qed

lemma set_call_edges:
  "(a, b) \<in> set (call_edges spans (Some ws)) \<longleftrightarrow>
    (\<exists>c \<in> set spans. (\<exists>ts. sp_start_time c = Some ts \<and> ws \<le> ts) \<and> call_edge_of spans c = Some (a, b))"
  by (auto simp: call_edges_def set_map_filter incident_child_def split: option.splits)

text \<open>
  when the attributed spans have distinct identities, the incident call graph consists exactly of
  the pairs of different services linked by a parent reference within one trace whose child starts at or
  after the window start; the parent may have started earlier.
\<close>

theorem call_edges_exact:
  assumes "distinct (attributed_refs spans)"
  shows "set (call_edges spans (Some ws)) =
    {(a, b). a \<noteq> b \<and> a \<noteq> [] \<and> b \<noteq> [] \<and>
       (\<exists>p \<in> set spans. \<exists>c \<in> set spans. \<exists>t i ts. t \<noteq> [] \<and> i \<noteq> [] \<and> sp_service p = Some a \<and> sp_service c = Some b
          \<and> sp_trace_id p = Some t \<and> sp_trace_id c = Some t \<and> sp_span_id p = Some i \<and> sp_parent_span_id c = Some i
          \<and> sp_start_time c = Some ts \<and> ws \<le> ts)}"
  unfolding set_eq_iff split_paired_All set_call_edges call_edge_of_linked [OF assms] mem_Collect_eq prod.case
  by blast

definition example_span :: "string \<Rightarrow> string \<Rightarrow> string option \<Rightarrow> string \<Rightarrow> int \<Rightarrow> real \<Rightarrow> string \<Rightarrow> span" where
  "example_span t i p s ts d st =
     \<lparr>sp_trace_id = Some t, sp_span_id = Some i, sp_parent_span_id = p, sp_service = Some s,
      sp_operation = Some ''call'', sp_start_time = Some ts, sp_duration_ms = VNum (FloatN (Fin d)),
      sp_status_code = VStr st\<rparr>"

text \<open>A baseline call and an incident call that fails, in two traces that reuse a span id.\<close>

definition example_spans :: "span list" where
  "example_spans =
     [example_span ''t'' ''r'' None ''web'' 1 10 ''OK'', example_span ''t'' ''c'' (Some ''r'') ''db'' 1 4 ''OK'',
      example_span ''v'' ''r'' None ''web'' 9 50 ''ERROR'', example_span ''v'' ''d'' (Some ''r'') ''api'' 9 5 ''UNSET'']"

theorem call_edges_exact_witness: "(''web'', ''api'') \<in> set (call_edges example_spans (Some 5))"
proof -
  have "distinct (attributed_refs example_spans)"
    by (simp add: attributed_refs_def example_spans_def example_span_def truthy_str_def List.map_filter_simps)
  from call_edges_exact [OF this] show ?thesis
    by (simp add: example_spans_def example_span_def)
qed

section \<open>Learnt targets\<close>

definition calls_via :: "span list \<Rightarrow> string \<times> string \<Rightarrow> string \<Rightarrow> span \<Rightarrow> bool" where
  "calls_via spans key callee c \<longleftrightarrow>
     (\<exists>p. parent_of spans c = Some p \<and> sp_service p = Some (fst key) \<and> sp_operation p = Some (snd key) \<and> snd key \<noteq> []
        \<and> sp_service c = Some callee \<and> callee \<noteq> fst key)"

definition call_count :: "span list \<Rightarrow> string \<times> string \<Rightarrow> string \<Rightarrow> nat" where
  "call_count spans key callee = length (filter (calls_via spans key callee) spans)"

definition call_total :: "span list \<Rightarrow> string \<times> string \<Rightarrow> nat" where
  "call_total spans key = length (filter (\<lambda>c. \<exists>s. calls_via spans key s c) spans)"

definition counter_wf :: "(string, nat) dict \<Rightarrow> bool" where
  "counter_wf d \<longleftrightarrow> dict_wf d \<and> (\<forall>(k, n) \<in> set d. 0 < n)"

lemma counter_wf_add: "counter_wf d \<Longrightarrow> counter_wf (counter_add k d)"
proof -
  assume wf: "counter_wf d"
  have "0 < v" if "(k', v) \<in> set (counter_add k d)" for k' v
  proof -
    have "dget (counter_add k d) k' = Some v"
      using that wf by (subst dget_wf_iff) (auto simp: counter_wf_def counter_add_def)
    then show ?thesis using wf by (auto simp: counter_add_def counter_wf_def split: if_splits dest!: dget_mem)
  qed
  with wf show ?thesis by (auto simp: counter_wf_def counter_add_def)
qed

lemma sum_counter_add: "sum_list (dvals (counter_add k d)) = sum_list (dvals d) + 1"
  by (induction d) (auto simp: counter_add_def dget_or_def split: option.splits)

lemma target_step_hit:
  "calls_via spans key s sp \<Longrightarrow> target_step spans d sp = dset key (counter_add s (dget_or d key [])) d"
  by (cases key) (auto simp: target_step_def calls_via_def)

lemma target_step_miss: "\<forall>key s. \<not> calls_via spans key s sp \<Longrightarrow> target_step spans d sp = d"
  by (auto simp: target_step_def calls_via_def split: option.splits)

definition counts_wf :: "(string \<times> string, (string, nat) dict) dict \<Rightarrow> bool" where
  "counts_wf d \<longleftrightarrow> dict_wf d \<and> (\<forall>key. counter_wf (dget_or d key []))"

lemma target_loop:
  fixes spans xs
  defines "d \<equiv> foldl (target_step spans) [] xs"
  shows "counts_wf d"
    and "counter_get (dget_or d key []) s = length (filter (calls_via spans key s) xs)"
    and "sum_list (dvals (dget_or d key [])) = length (filter (\<lambda>c. \<exists>s. calls_via spans key s c) xs)"
  unfolding d_def
proof (induction xs rule: rev_induct)
  case Nil
  {
    case 1
    then show ?case by (simp add: counts_wf_def counter_wf_def dget_or_def)
  next
    case 2
    then show ?case by (simp add: counter_get_def dget_or_def)
  next
    case 3
    then show ?case by (simp add: dget_or_def)
  }
next
  case (snoc c xs)
  let ?d = "foldl (target_step spans) [] xs"
  have uniq: "calls_via spans k s c \<Longrightarrow> calls_via spans k' s' c \<Longrightarrow> k' = k \<and> s' = s" for k k' s s'
    by (auto simp: calls_via_def prod_eq_iff)
  have upd: "dget_or (target_step spans ?d c) key [] =
      (if calls_via spans key s c then counter_add s (dget_or ?d key []) else dget_or ?d key [])"
    if "calls_via spans key s c \<or> (\<forall>s. \<not> calls_via spans key s c)" for key s
  proof (cases "\<exists>k s. calls_via spans k s c")
    case True
    then obtain k s' where k: "calls_via spans k s' c" by blast
    show ?thesis
    proof (cases "key = k")
      case True
      with that k have "calls_via spans key s c" by blast
      with uniq [OF k this] show ?thesis by (simp add: target_step_hit [OF k] dget_or_def [of "dset _ _ _"] True)
    next
      case False
      with uniq [OF k] have "\<not> calls_via spans key s c" by blast
      with False show ?thesis by (simp add: target_step_hit [OF k] dget_or_def)
    qed
  next
    case False
    then have "\<not> calls_via spans key s c" by blast
    with False show ?thesis using target_step_miss [of spans c ?d] by metis
  qed
  have some: "\<exists>s. calls_via spans key s c \<or> (\<forall>s. \<not> calls_via spans key s c)" for key by blast
  {
    case 1
    have "dict_wf (target_step spans ?d c)"
      using snoc(1) target_step_hit [of spans _ _ c ?d] target_step_miss [of spans c ?d]
      by (cases "\<exists>k s. calls_via spans k s c") (auto simp: counts_wf_def)
    moreover have "counter_wf (dget_or (target_step spans ?d c) key [])" for key
    proof -
      have "counter_wf (dget_or ?d key [])" using snoc(1) unfolding counts_wf_def by blast
      moreover obtain s where "calls_via spans key s c \<or> (\<forall>s. \<not> calls_via spans key s c)" using some by blast
      ultimately show ?thesis using upd [of key s] by (simp add: counter_wf_add)
    qed
    ultimately show ?case by (simp add: counts_wf_def)
  next
    case 2
    show ?case
    proof (cases "\<exists>s'. calls_via spans key s' c")
      case True
      then obtain s' where s': "calls_via spans key s' c" by blast
      then have "calls_via spans key s c \<longleftrightarrow> s = s'" using uniq by blast
      then show ?thesis using upd [of key s'] s' snoc(2) by simp
    next
      case False
      then show ?thesis using upd [of key s] snoc(2) by simp
    qed
  next
    case 3
    show ?case
    proof (cases "\<exists>s'. calls_via spans key s' c")
      case True
      then obtain s' where s': "calls_via spans key s' c" by blast
      then have "sum_list (dvals (dget_or (target_step spans ?d c) key [])) = sum_list (dvals (dget_or ?d key [])) + 1"
        using upd [of key s'] by (simp add: sum_counter_add)
      then show ?thesis using True snoc(3) by simp
    next
      case False
      then show ?thesis using upd [of key] snoc(3) by simp
    qed
  }
qed

lemma two_entries_le: "(a, x) \<in> set d \<Longrightarrow> (b, y) \<in> set d \<Longrightarrow> a \<noteq> b \<Longrightarrow> x + y \<le> sum_list (dvals (d :: (string, nat) dict))"
proof (induction d)
  case Nil
  then show ?case by simp
next
  case (Cons e d)
  have one: "(k, z) \<in> set d \<Longrightarrow> z \<le> sum_list (dvals d)" for k z
    by (induction d) auto
  from Cons consider "e = (a, x)" | "e = (b, y)" | "(a, x) \<in> set d" "(b, y) \<in> set d" by auto
  then show ?case using Cons one by cases fastforce+
qed

lemma dominant_iff:
  assumes "counter_wf d" and "1/2 < q"
  shows "dominant q d = Some s \<longleftrightarrow> 0 < counter_get d s \<and> q * of_nat (sum_list (dvals d)) \<le> of_nat (counter_get d s)"
proof -
  have entry: "(k, n) \<in> set d \<longleftrightarrow> n = counter_get d k \<and> 0 < n" for k n
    using assms(1) dget_wf_iff [of d k n]
    by (auto simp: counter_wf_def counter_get_def dget_or_def split: option.splits dest: dget_mem)
  show ?thesis
  proof (cases "most_common d")
    case None
    then have "d = []" by (simp add: most_common_def)
    then show ?thesis by (simp add: dominant_def most_common_def max_by_def)
  next
    case (Some cn)
    obtain c n where cn: "cn = (c, n)" by (cases cn)
    have mem: "(c, n) \<in> set d" using Some max_by_in by (auto simp: cn most_common_def)
    have top: "m \<le> n" if "(k, m) \<in> set d" for k m
      using max_by_ge [of snd d cn "(k, m)"] Some that by (simp add: cn most_common_def)
    have "n \<in> set (dvals d)" using mem by force
    then have "n \<le> sum_list (dvals d)" by (intro member_le_sum_list) simp_all
    then have pos: "0 < sum_list (dvals d)" using mem entry [of c n] by simp
    have frac: "q \<le> real m / real (sum_list (dvals d)) \<longleftrightarrow> q * real (sum_list (dvals d)) \<le> real m" for m
      using pos by (simp add: pos_le_divide_eq)
    have self: "dominant q d = (if q * real (sum_list (dvals d)) \<le> real n then Some c else None)"
      using Some by (simp add: dominant_def cn frac)
    have "s = c" if s: "0 < counter_get d s" "q * real (sum_list (dvals d)) \<le> real (counter_get d s)"
    proof (rule ccontr)
      assume "s \<noteq> c"
      have "(s, counter_get d s) \<in> set d" using entry s by blast
      from two_entries_le [OF this mem \<open>s \<noteq> c\<close>] top [OF this]
      have "2 * real (counter_get d s) \<le> real (sum_list (dvals d))" by linarith
      moreover have "real (sum_list (dvals d)) < 2 * (q * real (sum_list (dvals d)))" using pos assms(2) by simp
      ultimately show False using s(2) by linarith
    qed
    then show ?thesis using self mem entry by auto
  qed
qed

lemma dget_map_filter_pairs:
  "distinct (map fst d) \<Longrightarrow> dget (List.map_filter (\<lambda>(k, v). map_option (Pair k) (f v)) d) key = Option.bind (dget d key) f"
proof (induction d)
  case Nil
  then show ?case by (simp add: List.map_filter_simps)
next
  case (Cons e d)
  obtain k v where e: "e = (k, v)" by (cases e)
  have "dget d k = None" using Cons.prems by (simp add: e map_of_eq_None_iff)
  with Cons show ?case by (auto simp: e List.map_filter_simps split: option.splits)
qed

text \<open>
  for a dominance above one half (the code uses 0.9), a calling operation is mapped to a callee
  exactly when it has cross-service child spans and at least that share of them is in the callee; so the
  learnt target is unique and does not depend on the order in which ties would be broken.
\<close>

theorem learn_call_targets_dominant:
  assumes "1/2 < q"
  shows "dget (learn_call_targets spans q) key = Some callee \<longleftrightarrow>
    0 < call_count spans key callee \<and> q * of_nat (call_total spans key) \<le> of_nat (call_count spans key callee)"
proof -
  let ?d = "foldl (target_step spans) [] spans"
  note wf = target_loop(1) [of spans spans] and cnt = target_loop(2) [of spans spans key callee, folded call_count_def]
    and tot = target_loop(3) [of spans spans key, folded call_total_def]
  have "dget (learn_call_targets spans q) key = Option.bind (dget ?d key) (dominant q)"
    using wf by (simp add: learn_call_targets_def dget_map_filter_pairs counts_wf_def dict_wf_def)
  also have "\<dots> = dominant q (dget_or ?d key [])"
    by (cases "dget ?d key") (simp_all add: dget_or_def dominant_def most_common_def max_by_def)
  finally show ?thesis
    using dominant_iff [of "dget_or ?d key []" q callee, unfolded cnt tot] wf assms unfolding counts_wf_def by metis
qed

theorem learn_call_targets_dominant_witness:
  "dget (learn_call_targets (take 2 example_spans) (9/10)) (''web'', ''call'') = Some ''db''"
proof -
  have ref: "dget (span_index (take 2 example_spans)) (''t'', ''r'') = Some (hd example_spans)"
    by (simp add: span_index_def example_spans_def example_span_def truthy_str_def List.map_filter_simps dict_of_def)
  have "filter (calls_via (take 2 example_spans) (''web'', ''call'') ''db'') (take 2 example_spans) = [example_spans ! 1]"
    and "filter (\<lambda>c. \<exists>s. calls_via (take 2 example_spans) (''web'', ''call'') s c) (take 2 example_spans) = [example_spans ! 1]"
    using ref by (auto simp: calls_via_def parent_of_def example_spans_def example_span_def truthy_str_def)
  then show ?thesis
    using learn_call_targets_dominant [of "9/10" "take 2 example_spans" "(''web'', ''call'')" "''db''"]
    by (simp add: call_count_def call_total_def)
qed

theorem summarize_spans_spec_witness:
  "\<exists>sigs. summarize_spans example_spans 5 = Inr sigs \<and> fst ` set sigs = {''web'', ''db'', ''api''}"
proof -
  have tr: "truthy_str (Some x) \<longleftrightarrow> x \<noteq> []" for x by (simp add: truthy_str_def)
  have "{s. \<exists>sp \<in> set example_spans. informative service_key 5 s sp} = {''web'', ''db'', ''api''}"
    by (auto simp: example_spans_def example_span_def informative_def incident_of_def baseline_of_def service_key_def tr)
  then show ?thesis using summarize_spans_spec [of example_spans 5] by auto
qed

end
