(* ===== verification/ServiceGraphs.thy ===== *)
theory ServiceGraphs
  imports SpanSignals
begin

text \<open>
  The service dependency graph built from spans and its linkage test (\<open>src/core/rca/linkage.py\<close>). A set of
  edges or services is a list without repetition; the order in which Python iterates a set is not observable
  in any result below. The breadth-first search is the loop of the source with its queue and seen set.
\<close>

section \<open>Graphs\<close>

record service_graph =
  sg_edges :: "(string \<times> string) list"
  sg_services :: "string list"

definition sg_empty :: "service_graph \<Rightarrow> bool" where
  "sg_empty g = (sg_services g = [])"

definition adj :: "(string \<times> string) list \<Rightarrow> string \<Rightarrow> string list" where
  "adj edges node = dedup (map snd (filter (\<lambda>e. fst e = node) edges))"

text \<open>The loop \<open>while q\<close> of \<open>reachable\<close>: pop a node, stop at the target, enqueue the unseen successors.\<close>

function bfs :: "(string \<times> string) list \<Rightarrow> string \<Rightarrow> string list \<Rightarrow> string list \<Rightarrow> bool" where
  "bfs edges dst seen [] = False"
| "bfs edges dst seen (node # q) =
     (let ns = adj edges node in
      if dst \<in> set ns then True
      else let new = filter (\<lambda>n. n \<notin> set seen) ns in bfs edges dst (seen @ new) (q @ new))"
  by pat_completeness auto

lemma set_adj: "set (adj edges node) = {n. (node, n) \<in> set edges}"
  by (force simp: adj_def)

lemma distinct_adj: "distinct (adj edges node)"
  by (simp add: adj_def)

lemma new_measure:
  assumes "set ns \<subseteq> snd ` set edges" and "distinct ns" and "set ns \<inter> set seen = {}"
  shows "card (snd ` set edges - set (seen @ ns)) + length ns = card (snd ` set edges - set seen)"
proof -
  have "snd ` set edges - set seen = (snd ` set edges - set (seen @ ns)) \<union> set ns"
    using assms(1,3) by auto
  moreover have "card ((snd ` set edges - set (seen @ ns)) \<union> set ns) = card (snd ` set edges - set (seen @ ns)) + card (set ns)"
    by (rule card_Un_disjoint) auto
  ultimately show ?thesis using assms(2) by (simp add: distinct_card)
qed

lemma new_nodes:
  fixes edges seen node
  defines "new \<equiv> filter (\<lambda>n. n \<notin> set seen) (adj edges node)"
  shows "card (snd ` set edges - set (seen @ new)) + length new = card (snd ` set edges - set seen)"
  unfolding new_def using distinct_adj set_adj by (intro new_measure) force+

termination bfs
proof (relation "measure (\<lambda>(edges, dst, seen, q). length q + 2 * card (snd ` set edges - set seen))", goal_cases)
  case (2 edges dst seen node q ns new)
  with new_nodes [of edges seen node] show ?case by simp
qed simp

definition reachable :: "service_graph \<Rightarrow> string \<Rightarrow> string \<Rightarrow> bool" where
  "reachable g src dst = (if src = dst then True else bfs (sg_edges g) dst [src] [src])"

definition linked :: "service_graph \<Rightarrow> string \<Rightarrow> string \<Rightarrow> bool" where
  "linked g a b =
     (if a = b then True
      else if a \<notin> set (sg_services g) \<or> b \<notin> set (sg_services g) then False
      else reachable g a b \<or> reachable g b a)"

section \<open>Building the graph\<close>

type_synonym span_row = "string option \<times> string option \<times> string option"

text \<open>\<open>span_id\<close>, \<open>parent_span_id\<close>, \<open>service\<close>: both dictionaries are keyed by the span id alone.\<close>

definition span_rows :: "span list \<Rightarrow> span_row list" where
  "span_rows spans = map (\<lambda>sp. (sp_span_id sp, sp_parent_span_id sp, sp_service sp)) spans"

fun graph_step ::
  "(string, string) dict \<times> (string, string option) dict \<Rightarrow> span_row \<Rightarrow> (string, string) dict \<times> (string, string option) dict"
where
  "graph_step (svc_of, parents) (Some i, p, Some s) =
     (if s = [] then (svc_of, parents) else (dset i s svc_of, dset i p parents))"
| "graph_step d _ = d"

definition parent_edge :: "(string, string) dict \<Rightarrow> string \<times> string option \<Rightarrow> (string \<times> string) option" where
  "parent_edge svc_of e =
     (case snd e of
        None \<Rightarrow> None
      | Some pid \<Rightarrow>
          (case (dget svc_of pid, dget svc_of (fst e)) of
             (Some ps, Some cs) \<Rightarrow> if ps \<noteq> [] \<and> cs \<noteq> [] \<and> ps \<noteq> cs then Some (ps, cs) else None
           | _ \<Rightarrow> None))"

definition service_graph_from_spans :: "span_row list \<Rightarrow> service_graph" where
  "service_graph_from_spans rows =
     (let (svc_of, parents) = foldl graph_step ([], []) rows in
      \<lparr>sg_edges = dedup (List.map_filter (parent_edge svc_of) parents),
       sg_services = dedup (dvals svc_of)\<rparr>)"

definition build_service_graph :: "(string \<times> span) list \<Rightarrow> string \<Rightarrow> int \<Rightarrow> int \<Rightarrow> service_graph" where
  "build_service_graph span_table scope window_start window_end =
     service_graph_from_spans (span_rows (map snd (filter (\<lambda>(sc, sp).
       sc = scope \<and> (case sp_start_time sp of None \<Rightarrow> False | Some t \<Rightarrow> window_start \<le> t \<and> t \<le> window_end)) span_table)))"

section \<open>The search is reachability\<close>

definition bfs_inv :: "(string \<times> string) list \<Rightarrow> string \<Rightarrow> string list \<Rightarrow> string list \<Rightarrow> bool" where
  "bfs_inv edges dst seen q \<longleftrightarrow>
     set q \<subseteq> set seen \<and> dst \<notin> set seen \<and>
     (\<forall>x \<in> set seen - set q. \<forall>y. (x, y) \<in> set edges \<longrightarrow> y \<in> set seen)"

lemma closed_unreachable:
  assumes "\<forall>x \<in> S. \<forall>y. (x, y) \<in> E \<longrightarrow> y \<in> S" and "dst \<notin> S" and "x \<in> S"
  shows "(x, dst) \<notin> E\<^sup>+"
proof
  assume "(x, dst) \<in> E\<^sup>+"
  then show False using assms(3) by (induction rule: converse_trancl_induct) (use assms in auto)
qed

lemma bfs_iff:
  "bfs_inv edges dst seen q \<Longrightarrow> bfs edges dst seen q \<longleftrightarrow> (\<exists>x \<in> set seen. (x, dst) \<in> (set edges)\<^sup>+)"
proof (induction edges dst seen q rule: bfs.induct)
  case (1 edges dst seen)
  then have "\<forall>x \<in> set seen. (x, dst) \<notin> (set edges)\<^sup>+"
    using closed_unreachable [of "set seen" "set edges" dst] by (simp add: bfs_inv_def)
  then show ?case by simp
next
  case (2 edges dst seen node q)
  let ?new = "filter (\<lambda>n. n \<notin> set seen) (adj edges node)"
  have node: "node \<in> set seen" using 2 by (simp add: bfs_inv_def)
  show ?case
  proof (cases "dst \<in> set (adj edges node)")
    case True
    then have "(node, dst) \<in> (set edges)\<^sup>+" by (simp add: set_adj r_into_trancl')
    with True node show ?thesis by auto
  next
    case False
    have "bfs_inv edges dst (seen @ ?new) (q @ ?new)"
      using 2(2) False by (auto simp: bfs_inv_def set_adj)
    then have "bfs edges dst (seen @ ?new) (q @ ?new) \<longleftrightarrow> (\<exists>x \<in> set (seen @ ?new). (x, dst) \<in> (set edges)\<^sup>+)"
      using 2(1) [OF refl False refl] by blast
    also have "\<dots> \<longleftrightarrow> (\<exists>x \<in> set seen. (x, dst) \<in> (set edges)\<^sup>+)"
    proof -
      have "(node, dst) \<in> (set edges)\<^sup>+" if "x \<in> set ?new" "(x, dst) \<in> (set edges)\<^sup>+" for x
        using that by (auto simp: set_adj intro: trancl_into_trancl2)
      then show ?thesis using node by auto
    qed
    finally show ?thesis using False by (simp add: Let_def)
  qed
qed

lemma reachable_iff: "reachable g src dst \<longleftrightarrow> (src, dst) \<in> (set (sg_edges g))\<^sup>*"
proof (cases "src = dst")
  case True
  then show ?thesis by (simp add: reachable_def)
next
  case False
  then have "bfs_inv (sg_edges g) dst [src] [src]" by (simp add: bfs_inv_def)
  from bfs_iff [OF this] False show ?thesis by (simp add: reachable_def rtrancl_eq_or_trancl)
qed

section \<open>Properties\<close>

text \<open>
  C9: the queue loop terminates on every graph and decides exactly the reflexive transitive closure of the
  call relation; two different services are linked exactly when both occur in the traces and one of them
  depends on the other, directly or transitively, and linkage is symmetric.
\<close>

theorem linked_is_dependency:
  "(reachable g a b \<longleftrightarrow> (a, b) \<in> (set (sg_edges g))\<^sup>*)
   \<and> (linked g a b \<longleftrightarrow> a = b \<or> a \<in> set (sg_services g) \<and> b \<in> set (sg_services g) \<and>
        ((a, b) \<in> (set (sg_edges g))\<^sup>* \<or> (b, a) \<in> (set (sg_edges g))\<^sup>*))
   \<and> linked g a b = linked g b a"
  by (auto simp: reachable_iff linked_def)

section \<open>What the builder reads off the spans\<close>

definition attributed_rows :: "span_row list \<Rightarrow> (string \<times> string option \<times> string) list" where
  "attributed_rows rows =
     List.map_filter (\<lambda>(i, p, s). case (i, s) of (Some i', Some s') \<Rightarrow> if s' = [] then None else Some (i', p, s') | _ \<Rightarrow> None) rows"

lemma graph_loop:
  "foldl graph_step (sv, ps) rows =
     (fold (\<lambda>(i, s). dset i s) (map (\<lambda>(i, p, s). (i, s)) (attributed_rows rows)) sv,
      fold (\<lambda>(i, p). dset i p) (map (\<lambda>(i, p, s). (i, p)) (attributed_rows rows)) ps)"
proof (induction rows arbitrary: sv ps)
  case Nil
  then show ?case by (simp add: attributed_rows_def List.map_filter_simps)
next
  case (Cons row rows)
  obtain i p s where row: "row = (i, p, s)" by (cases row)
  show ?case
    by (cases i; cases s) (auto simp: Cons.IH row attributed_rows_def List.map_filter_simps)
qed

lemma graph_dicts:
  assumes "distinct (map fst (attributed_rows rows))"
  shows "foldl graph_step ([], []) rows =
    (map (\<lambda>(i, p, s). (i, s)) (attributed_rows rows), map (\<lambda>(i, p, s). (i, p)) (attributed_rows rows))"
proof -
  have "distinct (map fst (map (\<lambda>(i, p, s). (i, s)) (attributed_rows rows)))"
    and "distinct (map fst (map (\<lambda>(i, p, s). (i, p)) (attributed_rows rows)))"
    using assms by (simp_all add: case_prod_unfold comp_def)
  note dicts = this [THEN dict_of_distinct, unfolded dict_of_def]
  show ?thesis unfolding graph_loop dicts ..
qed

text \<open>
  when no two attributed spans share a span id, the graph has exactly the services of those spans and
  exactly the edges from the service of a span's parent to its own service, when they differ.
\<close>

theorem service_graph_exact:
  assumes "distinct (map fst (attributed_rows rows))"
  shows "set (sg_services (service_graph_from_spans rows)) = (snd \<circ> snd) ` set (attributed_rows rows)
    \<and> set (sg_edges (service_graph_from_spans rows)) =
      {(a, b). a \<noteq> b \<and> (\<exists>i j q. (i, q, a) \<in> set (attributed_rows rows) \<and> (j, Some i, b) \<in> set (attributed_rows rows))}"
proof -
  let ?A = "attributed_rows rows"
  let ?svc = "map (\<lambda>(i, p, s). (i, s)) ?A" and ?par = "map (\<lambda>(i, p, s). (i, p)) ?A"
  have "dict_wf ?svc" using assms by (simp add: dict_wf_def case_prod_unfold comp_def)
  then have svc: "dget ?svc i = Some s \<longleftrightarrow> (\<exists>p. (i, p, s) \<in> set ?A)" for i s
    by (force simp: dget_wf_iff)
  have named: "s \<noteq> []" if "(i, p, s) \<in> set ?A" for i p s
    using that by (auto simp: attributed_rows_def set_map_filter split: option.splits if_splits)
  have edge: "parent_edge ?svc e = Some (a, b) \<longleftrightarrow>
      a \<noteq> b \<and> a \<noteq> [] \<and> b \<noteq> [] \<and> (\<exists>pid. snd e = Some pid \<and> dget ?svc pid = Some a \<and> dget ?svc (fst e) = Some b)" for e a b
    by (auto simp: parent_edge_def split: option.splits)
  have uniq: "p = p' \<and> s = s'" if "(i, p, s) \<in> set ?A" "(i, p', s') \<in> set ?A" for i p p' s s'
    using eq_key_imp_eq_value [OF assms that] by simp
  have "(a, b) \<in> set (sg_edges (service_graph_from_spans rows)) \<longleftrightarrow>
      a \<noteq> b \<and> (\<exists>i j q. (i, q, a) \<in> set ?A \<and> (j, Some i, b) \<in> set ?A)" (is "?L \<longleftrightarrow> ?R") for a b
  proof -
    have "?L \<longleftrightarrow> (\<exists>e \<in> set ?par. parent_edge ?svc e = Some (a, b))"
      by (simp add: service_graph_from_spans_def graph_dicts [OF assms] set_map_filter del: set_map)
    also have "\<dots> \<longleftrightarrow> (\<exists>(j, p, s) \<in> set ?A. parent_edge ?svc (j, p) = Some (a, b))"
      by (simp add: case_prod_unfold)
    also have "\<dots> \<longleftrightarrow> ?R"
    proof
      assume "\<exists>(j, p, s) \<in> set ?A. parent_edge ?svc (j, p) = Some (a, b)"
      then obtain j p s pid where "(j, p, s) \<in> set ?A" "p = Some pid" "a \<noteq> b" "dget ?svc pid = Some a" "dget ?svc j = Some b"
        unfolding edge by auto
      moreover from this obtain q r where "(pid, q, a) \<in> set ?A" "(j, r, b) \<in> set ?A" unfolding svc by blast
      ultimately show ?R using uniq [of j p s r b] by auto
    next
      assume ?R
      then obtain i j q where ij: "a \<noteq> b" "(i, q, a) \<in> set ?A" "(j, Some i, b) \<in> set ?A" by blast
      then have "dget ?svc i = Some a" "dget ?svc j = Some b" "a \<noteq> []" "b \<noteq> []" unfolding svc using named by blast+
      with ij have "parent_edge ?svc (j, Some i) = Some (a, b)" unfolding edge by simp
      with ij(3) show "\<exists>(j, p, s) \<in> set ?A. parent_edge ?svc (j, p) = Some (a, b)" by blast
    qed
    finally show ?thesis .
  qed
  moreover have "set (sg_services (service_graph_from_spans rows)) = (snd \<circ> snd) ` set ?A"
    by (force simp: service_graph_from_spans_def graph_dicts [OF assms])
  ultimately show ?thesis by auto
qed

text \<open>
  span ids are only unique within a trace. When two traces reuse one, the graph keyed by the span id
  alone drops a real call and invents another one, where the incident call graph, keyed by trace and span
  id, has the real call only.
\<close>

theorem reused_span_id_miswires:
  "let spans = [example_span ''t'' ''r'' None ''web'' 1 10 ''OK'', example_span ''t'' ''c'' (Some ''r'') ''db'' 1 4 ''OK'',
                example_span ''v'' ''r'' None ''api'' 1 5 ''OK''] in
   sg_edges (service_graph_from_spans (span_rows spans)) = [(''api'', ''db'')]
   \<and> call_edges spans None = [(''web'', ''db'')]"
  by (simp add: Let_def span_rows_def example_span_def service_graph_from_spans_def parent_edge_def
      List.map_filter_simps call_edges_def incident_child_def call_edge_of_def parent_of_def span_index_def
      dict_of_def truthy_str_def)

theorem service_graph_exact_witness:
  "set (sg_edges (service_graph_from_spans [(Some ''r'', None, Some ''web''), (Some ''c'', Some ''r'', Some ''db'')]))
   = {(''web'', ''db'')}"
proof -
  let ?rows = "[(Some ''r'', None, Some ''web''), (Some ''c'', Some ''r'', Some ''db'')]"
  have A: "attributed_rows ?rows = [(''r'', None, ''web''), (''c'', Some ''r'', ''db'')]"
    by (simp add: attributed_rows_def List.map_filter_simps)
  show ?thesis using service_graph_exact [of ?rows] unfolding A by auto
qed

end
