(* ===== verification/MetricSignals.thy ===== *)
theory MetricSignals
  imports SpanSignals
begin

text \<open>
  Metric series identity (\<open>src/core/rca/metric_series.py\<close>) and the signals read off metric samples
  (\<open>src/core/rca/structural_model.py\<close>, \<open>summarize_metrics\<close> and \<open>summarize_utilization\<close>). Recorded
  attributes are dictionaries of strings, as the OTLP converter stores them, or absent. The canonical
  form of a dictionary, its entries sorted by key, stands for its serialization with sorted keys: two
  dictionaries have one serialization exactly when they have one canonical form. Values that are not
  finite are kept as such up to the validity tests; a mean is only read where those tests passed.
\<close>

section \<open>Series identity\<close>

type_synonym attributes = "(string, string) dict option"
type_synonym series = "(string \<times> string) list option"

definition INSTANCE_ATTRS :: "string list" where
  "INSTANCE_ATTRS = [''service.instance.id'', ''k8s.pod.uid'', ''container.id'']"

definition INSTANCE_ATTR_PAIRS :: "(string \<times> string) list" where
  "INSTANCE_ATTR_PAIRS = [(''host.name'', ''process.pid'')]"

definition INSTANCE_KEYS :: "string list" where
  "INSTANCE_KEYS = INSTANCE_ATTRS @ concat (map (\<lambda>(a, b). [a, b]) INSTANCE_ATTR_PAIRS)"

definition series_key :: "attributes \<Rightarrow> series" where
  "series_key = map_option (sort_key fst)"

definition get_truthy :: "(string, string) dict \<Rightarrow> string \<Rightarrow> string option" where
  "get_truthy d k = (case dget d k of None \<Rightarrow> None | Some v \<Rightarrow> if v = [] then None else Some v)"

fun first_some :: "('a \<Rightarrow> 'b option) \<Rightarrow> 'a list \<Rightarrow> 'b option" where
  "first_some f [] = None"
| "first_some f (x # xs) = (case f x of None \<Rightarrow> first_some f xs | Some y \<Rightarrow> Some y)"

definition instance_identity :: "attributes \<Rightarrow> string option" where
  "instance_identity attrs =
     (case attrs of
        None \<Rightarrow> None
      | Some d \<Rightarrow>
          (case first_some (\<lambda>k. map_option (\<lambda>v. k @ ''='' @ v) (get_truthy d k)) INSTANCE_ATTRS of
             Some s \<Rightarrow> Some s
           | None \<Rightarrow>
               first_some (\<lambda>(a, b).
                 case (get_truthy d a, get_truthy d b) of
                   (Some x, Some y) \<Rightarrow> Some (a @ ''='' @ x @ '','' @ b @ ''='' @ y)
                 | _ \<Rightarrow> None) INSTANCE_ATTR_PAIRS))"

definition datapoint_signature :: "attributes \<Rightarrow> series" where
  "datapoint_signature = map_option (\<lambda>d. sort_key fst (filter (\<lambda>(k, v). k \<notin> set INSTANCE_KEYS) d))"

definition instance_attributes :: "(string, string) dict \<Rightarrow> (string, string) dict" where
  "instance_attributes resource =
     fold (\<lambda>(a, b) out.
         case (get_truthy resource a, get_truthy resource b) of
           (Some x, Some y) \<Rightarrow> dset b y (dset a x out)
         | _ \<Rightarrow> out) INSTANCE_ATTR_PAIRS
       (List.map_filter (\<lambda>k. map_option (Pair k) (get_truthy resource k)) INSTANCE_ATTRS)"

section \<open>Error rate and latency samples\<close>

record metric_sample =
  ms_service :: "string option"
  ms_metric :: string
  ms_value :: "pyfloat option"
  ms_ts :: "int option"
  ms_metric_type :: "string option"
  ms_attributes :: attributes

type_synonym series_table = "(string, (string \<times> series, pyfloat list) dict) dict"

definition table_append :: "string \<Rightarrow> string \<times> series \<Rightarrow> pyfloat \<Rightarrow> series_table \<Rightarrow> series_table" where
  "table_append svc key v t = dset svc (dict_append key v (dget_or t svc [])) t"

definition metric_step :: "int \<Rightarrow> series_table \<times> series_table \<Rightarrow> metric_sample \<Rightarrow> series_table \<times> series_table" where
  "metric_step ws t s =
     (case (ms_service s, ms_value s, ms_ts s) of
        (Some svc, Some v, Some ts) \<Rightarrow>
          let key = (ms_metric s, series_key (ms_attributes s)) in
          if ws \<le> ts then (table_append svc key v (fst t), snd t)
          else (fst t, table_append svc key v (snd t))
      | _ \<Rightarrow> t)"

definition mean :: "pyfloat list \<Rightarrow> real" where
  "mean xs = (if xs = [] then 0 else sum_list (map real_of_fl xs) / of_nat (length xs))"

definition all_valid_rates :: "pyfloat list \<Rightarrow> bool" where
  "all_valid_rates xs = list_all (\<lambda>x. fl_isfinite x \<and> fl_le (Fin 0) x \<and> fl_le x (Fin 1)) xs"

definition all_nonneg :: "pyfloat list \<Rightarrow> bool" where
  "all_nonneg xs = list_all (\<lambda>x. fl_isfinite x \<and> fl_le (Fin 0) x) xs"

text \<open>
  \<open>sorted(k for k in keys if k[0] == metric)\<close>: the keys agree in the metric, so Python compares the series
  identities, and comparing \<open>None\<close> with a string raises. The order of the result is not observable: the
  list only feeds \<open>all\<close>, \<open>max\<close> and membership.
\<close>

definition sorted_series :: "string \<Rightarrow> (string \<times> series) list \<Rightarrow> (string \<times> series) list res" where
  "sorted_series metric keys =
     (let ks = filter (\<lambda>k. fst k = metric) keys in
      if list_ex (\<lambda>k. snd k = None) ks \<and> list_ex (\<lambda>k. snd k \<noteq> None) ks
      then Inl (TypeError ''<'') else Inr ks)"

definition error_series :: "(string \<times> series, pyfloat list) dict \<Rightarrow> string \<times> series \<Rightarrow> bool \<times> real" where
  "error_series inc key =
     (let xs = dget_or inc key [] in (xs \<noteq> [] \<and> all_valid_rates xs, mean xs))"

definition latency_series ::
  "(string \<times> series, pyfloat list) dict \<Rightarrow> (string \<times> series, pyfloat list) dict \<Rightarrow> string \<times> series \<Rightarrow> bool \<times> real" where
  "latency_series inc base key =
     (let ix = dget_or inc key []; bx = dget_or base key [];
          ok = (ix \<noteq> [] \<and> all_nonneg ix \<and> bx \<noteq> [] \<and> all_nonneg bx \<and> mean bx > 0) in
      (ok, if ok then mean ix / mean bx else 1))"

definition metric_signal :: "series_table \<times> series_table \<Rightarrow> string \<Rightarrow> service_signal res" where
  "metric_signal t svc =
     (let inc = dget_or (fst t) svc []; base = dget_or (snd t) svc [];
          keys = dedup (dkeys inc @ dkeys base) in
      rbind (sorted_series ''error_rate'' keys) (\<lambda>ek.
      let err_series = map (error_series inc) ek in
      rbind (sorted_series ''latency_ms'' keys) (\<lambda>lk.
      let lat_series = map (latency_series inc base) lk in
      rbind (rfilter (\<lambda>(m, r). flag_if m (default_rate r) st_present) err_series) (\<lambda>err_hit.
      rbind (rfilter (\<lambda>(m, r). flag_if m (default_ratio r) st_high) lat_series) (\<lambda>lat_hit.
      let error_measured = (err_series \<noteq> [] \<and> list_all fst err_series);
          latency_measured = (lat_series \<noteq> [] \<and> list_all fst lat_series) in
      Inr \<lparr>ss_service = svc,
           ss_branches =
             \<lparr>br_error_rate = (if err_hit \<noteq> [] then max_or 0 (map snd err_hit)
                               else max_or 0 (map snd (filter fst err_series))),
              br_latency_ratio = (if lat_hit \<noteq> [] then max_or 0 (map snd lat_hit)
                                  else max_or 1 (map snd (filter fst lat_series))),
              br_error_measured = error_measured, br_latency_measured = latency_measured,
              br_state = three_valued (err_hit \<noteq> [] \<or> lat_hit \<noteq> []) (error_measured \<and> latency_measured)\<rparr>\<rparr>)))))"

definition summarize_metrics :: "metric_sample list \<Rightarrow> int \<Rightarrow> (string, service_signal) dict res" where
  "summarize_metrics samples ws =
     (let t = foldl (metric_step ws) ([], []) samples in
      rmap (\<lambda>svc. rbind (metric_signal t svc) (\<lambda>s. Inr (svc, s)))
        (sort (dedup (dkeys (fst t) @ dkeys (snd t)))))"

section \<open>Utilization samples\<close>

definition util_observable_id :: "string \<Rightarrow> string \<Rightarrow> string" where
  "util_observable_id service resource = ''util:'' @ service @ '':'' @ resource"

record util_signal =
  us_service :: string
  us_resource :: string
  us_ratio :: real
  us_measured :: bool
  us_state :: "string option"

definition us_id :: "util_signal \<Rightarrow> string" where
  "us_id u = util_observable_id (us_service u) (us_resource u)"

definition util_metric_class :: "string \<Rightarrow> (string \<times> string) option" where
  "util_metric_class metric =
     (if metric = [] \<or> startswith metric ''otel.sdk.'' \<or> startswith metric ''otelcol'' then None
      else let parts = split_on (CHR ''.'') metric in
        if length parts \<ge> 2 \<and> endswith (last parts) ''utilization''
        then Some (parts ! (length parts - 2), ''gauge'')
        else if endswith metric ''.cpu.time'' then Some (''cpu'', ''counter'')
        else None)"

type_synonym points = "(int \<times> pyfloat) list"

text \<open>Seconds between two timestamps in microseconds.\<close>

definition counter_rate :: "points \<Rightarrow> real option" where
  "counter_rate ps =
     (if length ps < 2 then None
      else let dt = of_int (fst (last ps) - fst (hd ps)) / 1000000 in
        if dt > 0 then Some ((real_of_fl (snd (last ps)) - real_of_fl (snd (hd ps))) / dt) else None)"

definition instrument :: "string option \<Rightarrow> string" where
  "instrument metric_type = (if truthy_str metric_type then the metric_type else ''gauge'')"

type_synonym measurement = "string option \<times> real \<times> bool"

definition series_ratio :: "points \<Rightarrow> string \<Rightarrow> int \<Rightarrow> real option" where
  "series_ratio ps required ws =
     (let values = sort_key fst ps;
          base = filter (\<lambda>p. fst p < ws) values; inc = filter (\<lambda>p. ws \<le> fst p) values;
          ok = (distinct (map fst values) \<and> all_nonneg (map snd values) \<and> base \<noteq> [] \<and> inc \<noteq> []) in
      if ok \<and> required = ''gauge'' then
        (let bmean = mean (map snd base) in if bmean > 0 then Some (mean (map snd inc) / bmean) else None)
      else if ok then
        (let no_reset = list_all (\<lambda>(a, b). real_of_fl (snd a) \<le> real_of_fl (snd b)) (zip values (tl values)) in
         case (counter_rate base, counter_rate inc) of
           (Some rb, Some ri) \<Rightarrow> if no_reset \<and> rb > 0 then Some (ri / rb) else None
         | _ \<Rightarrow> None)
      else None)"

definition measure_series :: "points \<Rightarrow> string \<Rightarrow> int \<Rightarrow> measurement res" where
  "measure_series ps required ws =
     (case series_ratio ps required ws of
        None \<Rightarrow> Inr (None, 1, False)
      | Some ratio \<Rightarrow>
          rbind (default_ratio ratio) (\<lambda>b. Inr (Some (if b = st_high then st_present else st_absent), ratio, True)))"

definition util_groups :: "metric_sample list \<Rightarrow> (string \<times> string, metric_sample list) dict" where
  "util_groups samples =
     group_by (\<lambda>s. (the (ms_service s), ms_metric s))
       (filter (\<lambda>s. ms_service s \<noteq> None \<and> ms_value s \<noteq> None \<and> ms_ts s \<noteq> None \<and> util_metric_class (ms_metric s) \<noteq> None)
         samples)"

definition identified :: "string \<Rightarrow> metric_sample list \<Rightarrow> bool" where
  "identified required rows =
     (list_all (\<lambda>r. ms_attributes r \<noteq> None) rows \<and>
      list_all (\<lambda>r. instance_identity (ms_attributes r) \<noteq> None) rows \<and>
      card (set (map (\<lambda>r. datapoint_signature (ms_attributes r)) rows)) = 1 \<and>
      list_all (\<lambda>r. instrument (ms_metric_type r) = required) rows)"

definition instance_points :: "metric_sample list \<Rightarrow> (string, points) dict" where
  "instance_points rows =
     sort_key fst (map (\<lambda>(i, rs). (i, map (\<lambda>r. (the (ms_ts r), the (ms_value r))) rs))
       (group_by (\<lambda>r. the (instance_identity (ms_attributes r))) rows))"

definition decide_instances :: "measurement list \<Rightarrow> measurement" where
  "decide_instances results =
     (let hit = filter (\<lambda>x. fst x = Some st_present) results in
      case max_by (\<lambda>x. fst (snd x)) hit of
        Some x \<Rightarrow> x
      | None \<Rightarrow>
          if list_all (\<lambda>x. snd (snd x)) results
          then (Some st_absent, max_or 0 (map (\<lambda>x. fst (snd x)) results), True)
          else (None, 1, False))"

definition metric_measurement :: "string \<Rightarrow> metric_sample list \<Rightarrow> int \<Rightarrow> measurement res" where
  "metric_measurement required rows ws =
     (if \<not> identified required rows then Inr (None, 1, False)
      else rbind (rmap (\<lambda>(_, pts). measure_series pts required ws) (instance_points rows)) (\<lambda>results.
        Inr (decide_instances results)))"

definition util_per_class :: "metric_sample list \<Rightarrow> int \<Rightarrow> ((string \<times> string) \<times> measurement) list res" where
  "util_per_class samples ws =
     rmap (\<lambda>((svc, metric), rows).
       case util_metric_class metric of
         Some (resource, required) \<Rightarrow>
           rbind (metric_measurement required rows ws) (\<lambda>m. Inr ((svc, resource), m))
       | None \<Rightarrow> Inl (TypeError ''cannot unpack''))
       (util_groups samples)"

definition witness_of :: "('a \<Rightarrow> string option) \<Rightarrow> 'a list \<Rightarrow> 'a option" where
  "witness_of state xs =
     (case find (\<lambda>x. state x = Some st_present) xs of
        Some x \<Rightarrow> Some x
      | None \<Rightarrow>
          (case find (\<lambda>x. state x = Some st_absent) xs of
             Some x \<Rightarrow> Some x
           | None \<Rightarrow> (case xs of [] \<Rightarrow> None | x # _ \<Rightarrow> Some x)))"

definition summarize_utilization ::
  "metric_sample list \<Rightarrow> int \<Rightarrow> (string \<times> string, util_signal) dict res" where
  "summarize_utilization samples ws =
     rbind (util_per_class samples ws) (\<lambda>pairs.
     rmap (\<lambda>((svc, resource), ms).
       case witness_of fst (map snd ms) of
         Some (st, ratio, measured) \<Rightarrow>
           Inr ((svc, resource), \<lparr>us_service = svc, us_resource = resource, us_ratio = ratio,
                                  us_measured = measured, us_state = st\<rparr>)
       | None \<Rightarrow> Inl IndexError)
       (sort_key fst (group_by fst pairs)))"

section \<open>What the sample loop accumulates\<close>

definition counted :: "(int \<Rightarrow> bool) \<Rightarrow> string \<Rightarrow> string \<times> series \<Rightarrow> metric_sample \<Rightarrow> bool" where
  "counted W svc key s \<longleftrightarrow>
     ms_service s = Some svc \<and> (ms_metric s, series_key (ms_attributes s)) = key \<and> ms_value s \<noteq> None \<and>
     (case ms_ts s of None \<Rightarrow> False | Some ts \<Rightarrow> W ts)"

definition values_of :: "(int \<Rightarrow> bool) \<Rightarrow> metric_sample list \<Rightarrow> string \<Rightarrow> string \<times> series \<Rightarrow> pyfloat list" where
  "values_of W samples svc key = map (\<lambda>s. the (ms_value s)) (filter (counted W svc key) samples)"

definition keys_of :: "(int \<Rightarrow> bool) \<Rightarrow> metric_sample list \<Rightarrow> string \<Rightarrow> (string \<times> series) set" where
  "keys_of W samples svc = {key. \<exists>s \<in> set samples. counted W svc key s}"

lemma get_table_append:
  "dget_or (dget_or (table_append svc key v t) svc' []) key' [] =
     dget_or (dget_or t svc' []) key' [] @ (if svc' = svc \<and> key' = key then [v] else [])"
  by (simp add: table_append_def dict_append_def dget_or_def)

lemma keys_table_append:
  "fst ` set (dget_or (table_append svc key v t) svc' []) =
     fst ` set (dget_or t svc' []) \<union> (if svc' = svc then {key} else {})"
  by (simp add: table_append_def dict_append_def dget_or_dset)

lemma services_table_append [simp]: "fst ` set (table_append svc key v t) = insert svc (fst ` set t)"
  by (simp add: table_append_def)

lemma metric_step_values:
  "dget_or (dget_or (fst (metric_step ws t s)) svc []) key [] =
     dget_or (dget_or (fst t) svc []) key [] @ (if counted (\<lambda>ts. ws \<le> ts) svc key s then [the (ms_value s)] else [])"
  "dget_or (dget_or (snd (metric_step ws t s)) svc []) key [] =
     dget_or (dget_or (snd t) svc []) key [] @ (if counted (\<lambda>ts. ts < ws) svc key s then [the (ms_value s)] else [])"
  by (auto simp: metric_step_def counted_def get_table_append Let_def split: option.splits)

lemma metric_step_keys:
  "fst ` set (dget_or (fst (metric_step ws t s)) svc []) =
     fst ` set (dget_or (fst t) svc []) \<union> {key. counted (\<lambda>ts. ws \<le> ts) svc key s}"
  "fst ` set (dget_or (snd (metric_step ws t s)) svc []) =
     fst ` set (dget_or (snd t) svc []) \<union> {key. counted (\<lambda>ts. ts < ws) svc key s}"
  by (auto simp: metric_step_def counted_def keys_table_append Let_def split: option.splits if_splits)

lemma metric_step_services:
  "fst ` set (fst (metric_step ws t s)) \<union> fst ` set (snd (metric_step ws t s)) =
     fst ` set (fst t) \<union> fst ` set (snd t) \<union> {svc. \<exists>key. counted (\<lambda>ts. True) svc key s}"
  by (auto simp: metric_step_def counted_def Let_def split: option.splits)

lemma metric_loop:
  fixes ws samples
  defines "t \<equiv> foldl (metric_step ws) ([], []) samples"
  shows "dget_or (dget_or (fst t) svc []) key [] = values_of (\<lambda>ts. ws \<le> ts) samples svc key"
    and "dget_or (dget_or (snd t) svc []) key [] = values_of (\<lambda>ts. ts < ws) samples svc key"
    and "fst ` set (dget_or (fst t) svc []) = keys_of (\<lambda>ts. ws \<le> ts) samples svc"
    and "fst ` set (dget_or (snd t) svc []) = keys_of (\<lambda>ts. ts < ws) samples svc"
    and "fst ` set (fst t) \<union> fst ` set (snd t) = {svc. keys_of (\<lambda>ts. True) samples svc \<noteq> {}}"
  unfolding t_def
  by (induction samples rule: rev_induct)
    (auto simp: metric_step_values metric_step_keys metric_step_services values_of_def keys_of_def dget_or_def [of "[]"])

section \<open>Branches from series\<close>

lemma mean_bounds:
  assumes "xs \<noteq> []" and "\<And>x. x \<in> set xs \<Longrightarrow> lo \<le> real_of_fl x \<and> real_of_fl x \<le> hi"
  shows "lo \<le> mean xs" and "mean xs \<le> hi"
proof -
  have "lo * of_nat (length xs) \<le> sum_list (map real_of_fl xs)"
    and "sum_list (map real_of_fl xs) \<le> hi * of_nat (length xs)"
    using assms(2) by (induction xs) (auto simp: algebra_simps intro: add_mono)
  then show "lo \<le> mean xs" and "mean xs \<le> hi"
    using assms(1) by (simp_all add: mean_def le_divide_eq divide_le_eq)
qed

lemma mean_rate: "xs \<noteq> [] \<Longrightarrow> all_valid_rates xs \<Longrightarrow> 0 \<le> mean xs \<and> mean xs \<le> 1"
proof -
  assume "xs \<noteq> []" "all_valid_rates xs"
  moreover have "0 \<le> real_of_fl x \<and> real_of_fl x \<le> 1" if "x \<in> set xs" for x
    using that \<open>all_valid_rates xs\<close> by (cases x) (auto simp: all_valid_rates_def list_all_iff)
  ultimately show ?thesis using mean_bounds [of xs 0 1] by blast
qed

lemma mean_nonneg: "all_nonneg xs \<Longrightarrow> 0 \<le> mean xs"
proof -
  assume "all_nonneg xs"
  then have "0 \<le> sum_list (map real_of_fl xs)"
    by (intro sum_list_nonneg) (auto simp: all_nonneg_def list_all_iff)
  then show ?thesis by (simp add: mean_def)
qed

definition rate_known :: "pyfloat list \<Rightarrow> bool" where
  "rate_known xs \<longleftrightarrow> xs \<noteq> [] \<and> all_valid_rates xs"

definition rate_hit :: "pyfloat list \<Rightarrow> bool" where
  "rate_hit xs \<longleftrightarrow> rate_known xs \<and> 5/100 \<le> mean xs"

definition ratio_known :: "pyfloat list \<Rightarrow> pyfloat list \<Rightarrow> bool" where
  "ratio_known ix bx \<longleftrightarrow> ix \<noteq> [] \<and> all_nonneg ix \<and> bx \<noteq> [] \<and> all_nonneg bx \<and> 0 < mean bx"

definition ratio_hit :: "pyfloat list \<Rightarrow> pyfloat list \<Rightarrow> bool" where
  "ratio_hit ix bx \<longleftrightarrow> ratio_known ix bx \<and> 2 * mean bx \<le> mean ix"

lemma flag_rate: "flag_if (rate_known xs) (default_rate (mean xs)) st_present = Inr (rate_hit xs)"
proof (cases "rate_known xs")
  case True
  then have "default_rate (mean xs) = Inr (if 5/100 \<le> mean xs then st_present else st_absent)"
    using mean_rate [of xs] by (intro default_rate_eq) (simp_all add: rate_known_def)
  with True show ?thesis by (auto simp: flag_if_def rate_hit_def)
qed (simp add: flag_if_def rate_hit_def)

lemma flag_ratio:
  "flag_if (ratio_known ix bx) (default_ratio (if ratio_known ix bx then mean ix / mean bx else 1)) st_high
   = Inr (ratio_hit ix bx)"
proof (cases "ratio_known ix bx")
  case True
  then have "0 \<le> mean ix / mean bx" using mean_nonneg [of ix] by (simp add: ratio_known_def)
  moreover have "2 \<le> mean ix / mean bx \<longleftrightarrow> 2 * mean bx \<le> mean ix"
    using True by (simp add: ratio_known_def le_divide_eq)
  ultimately show ?thesis using True by (simp add: flag_if_def default_ratio_eq ratio_hit_def)
qed (simp add: flag_if_def ratio_hit_def)

definition mixed :: "(string \<times> series) set \<Rightarrow> string \<Rightarrow> bool" where
  "mixed K metric \<longleftrightarrow> (metric, None) \<in> K \<and> (\<exists>d. (metric, Some d) \<in> K)"

lemma sorted_series_eq:
  "sorted_series metric keys =
     (if mixed (set keys) metric then Inl (TypeError ''<'') else Inr (filter (\<lambda>k. fst k = metric) keys))"
proof -
  have "(list_ex (\<lambda>k. snd k = None) (filter (\<lambda>k. fst k = metric) keys) \<and>
      list_ex (\<lambda>k. snd k \<noteq> None) (filter (\<lambda>k. fst k = metric) keys)) = mixed (set keys) metric"
    by (force simp: mixed_def list_ex_iff)
  then show ?thesis unfolding sorted_series_def Let_def by presburger
qed

text \<open>The state of a service, from the values of each of its series.\<close>

definition metric_state_spec ::
  "(string \<times> series) set \<Rightarrow> (string \<times> series \<Rightarrow> pyfloat list) \<Rightarrow> (string \<times> series \<Rightarrow> pyfloat list) \<Rightarrow> string option" where
  "metric_state_spec K inc base =
     (let E = {k \<in> K. fst k = ''error_rate''}; L = {k \<in> K. fst k = ''latency_ms''} in
      three_valued ((\<exists>k \<in> E. rate_hit (inc k)) \<or> (\<exists>k \<in> L. ratio_hit (inc k) (base k)))
        ((E \<noteq> {} \<and> (\<forall>k \<in> E. rate_known (inc k))) \<and> (L \<noteq> {} \<and> (\<forall>k \<in> L. ratio_known (inc k) (base k)))))"

lemma counted_windows:
  "counted (\<lambda>ts. True) svc key s \<longleftrightarrow> counted (\<lambda>ts. ws \<le> ts) svc key s \<or> counted (\<lambda>ts. ts < ws) svc key s"
  by (auto simp: counted_def split: option.splits)

lemma metric_signal_eq:
  fixes samples ws svc
  defines "K \<equiv> keys_of (\<lambda>ts. True) samples svc"
  defines "inc \<equiv> values_of (\<lambda>ts. ws \<le> ts) samples svc" and "base \<equiv> values_of (\<lambda>ts. ts < ws) samples svc"
  shows "if mixed K ''error_rate'' \<or> mixed K ''latency_ms''
    then metric_signal (foldl (metric_step ws) ([], []) samples) svc = Inl (TypeError ''<'')
    else \<exists>s. metric_signal (foldl (metric_step ws) ([], []) samples) svc = Inr s \<and> ss_service s = svc
      \<and> ss_state s = metric_state_spec K inc base"
proof -
  let ?t = "foldl (metric_step ws) ([], []) samples"
  let ?keys = "dedup (dkeys (dget_or (fst ?t) svc []) @ dkeys (dget_or (snd ?t) svc []))"
  let ?E = "filter (\<lambda>k. fst k = ''error_rate'') ?keys" and ?L = "filter (\<lambda>k. fst k = ''latency_ms'') ?keys"
  have K: "set ?keys = K"
    unfolding set_dedup set_append set_map metric_loop(3,4) K_def keys_of_def counted_windows [where ws = ws] by blast
  have E: "map (error_series (dget_or (fst ?t) svc [])) ks = map (\<lambda>k. (rate_known (inc k), mean (inc k))) ks" for ks
    by (simp add: error_series_def metric_loop(1) inc_def rate_known_def Let_def)
  have L: "map (latency_series (dget_or (fst ?t) svc []) (dget_or (snd ?t) svc [])) ks =
      map (\<lambda>k. (ratio_known (inc k) (base k), if ratio_known (inc k) (base k) then mean (inc k) / mean (base k) else 1)) ks" for ks
    by (simp add: latency_series_def metric_loop(1,2) inc_def base_def ratio_known_def Let_def)
  have fE: "\<exists>hs. rfilter (\<lambda>(m, r). flag_if m (default_rate r) st_present) (map (\<lambda>k. (rate_known (inc k), mean (inc k))) ks)
      = Inr hs \<and> (hs \<noteq> [] \<longleftrightarrow> (\<exists>k \<in> set ks. rate_hit (inc k)))" for ks
    by (induction ks) (auto simp: flag_rate)
  have fL: "\<exists>hs. rfilter (\<lambda>(m, r). flag_if m (default_ratio r) st_high)
        (map (\<lambda>k. (ratio_known (inc k) (base k), if ratio_known (inc k) (base k) then mean (inc k) / mean (base k) else 1)) ks)
      = Inr hs \<and> (hs \<noteq> [] \<longleftrightarrow> (\<exists>k \<in> set ks. ratio_hit (inc k) (base k)))" for ks
    by (induction ks) (auto simp: flag_ratio)
  show ?thesis
  proof (cases "mixed K ''error_rate'' \<or> mixed K ''latency_ms''")
    case True
    then show ?thesis by (auto simp: metric_signal_def Let_def sorted_series_eq K simp del: set_dedup)
  next
    case False
    obtain he hl where h: "rfilter (\<lambda>(m, r). flag_if m (default_rate r) st_present) (map (\<lambda>k. (rate_known (inc k), mean (inc k))) ?E) = Inr he"
        "he \<noteq> [] \<longleftrightarrow> (\<exists>k \<in> set ?E. rate_hit (inc k))"
        "rfilter (\<lambda>(m, r). flag_if m (default_ratio r) st_high)
          (map (\<lambda>k. (ratio_known (inc k) (base k), if ratio_known (inc k) (base k) then mean (inc k) / mean (base k) else 1)) ?L) = Inr hl"
        "hl \<noteq> [] \<longleftrightarrow> (\<exists>k \<in> set ?L. ratio_hit (inc k) (base k))"
      using fE [of ?E] fL [of ?L] by blast
    have sets: "set ?E = {k \<in> K. fst k = ''error_rate''}" "set ?L = {k \<in> K. fst k = ''latency_ms''}"
      unfolding set_filter K by blast+
    have ne: "?E \<noteq> [] \<longleftrightarrow> set ?E \<noteq> {}" "?L \<noteq> [] \<longleftrightarrow> set ?L \<noteq> {}" by (simp_all only: set_empty)
    have "\<exists>s. metric_signal ?t svc = Inr s \<and> ss_service s = svc \<and> ss_state s =
        three_valued (he \<noteq> [] \<or> hl \<noteq> [])
          ((?E \<noteq> [] \<and> (\<forall>k \<in> set ?E. rate_known (inc k))) \<and> (?L \<noteq> [] \<and> (\<forall>k \<in> set ?L. ratio_known (inc k) (base k))))"
      using False unfolding metric_signal_def Let_def sorted_series_eq K
      by (simp add: E L h(1,3) list_all_iff ss_state_def del: set_dedup set_filter)
    then show ?thesis using False unfolding h(2,4) ne sets metric_state_spec_def Let_def by presburger
  qed
qed

section \<open>Properties\<close>

text \<open>
  C7: summarizing metric samples raises exactly when some service mixes samples with and without recorded
  identity of one of the two metrics. Otherwise it has one entry per service with a dated, valued sample, in
  strictly increasing order; the state is PRESENT exactly when a fully valid series proves an error rate of
  at least 0.05 or a latency ratio of at least 2, ABSENT only when both metrics have series and every one of
  them is measured and normal, and unknown otherwise.
\<close>

theorem summarize_metrics_spec:
  "if \<exists>svc. mixed (keys_of (\<lambda>ts. True) samples svc) ''error_rate'' \<or> mixed (keys_of (\<lambda>ts. True) samples svc) ''latency_ms''
   then summarize_metrics samples ws = Inl (TypeError ''<'')
   else \<exists>sigs. summarize_metrics samples ws = Inr sigs
     \<and> sorted_wrt (<) (map fst sigs)
     \<and> fst ` set sigs = {svc. keys_of (\<lambda>ts. True) samples svc \<noteq> {}}
     \<and> (\<forall>(svc, s) \<in> set sigs. ss_service s = svc \<and>
          ss_state s = metric_state_spec (keys_of (\<lambda>ts. True) samples svc)
            (values_of (\<lambda>ts. ws \<le> ts) samples svc) (values_of (\<lambda>ts. ts < ws) samples svc))"
proof -
  let ?t = "foldl (metric_step ws) ([], []) samples"
  let ?ks = "sort (dedup (dkeys (fst ?t) @ dkeys (snd ?t)))"
  let ?mixed = "\<lambda>svc. mixed (keys_of (\<lambda>ts. True) samples svc) ''error_rate'' \<or> mixed (keys_of (\<lambda>ts. True) samples svc) ''latency_ms''"
  let ?ok = "\<lambda>svc s. ss_service s = svc \<and> ss_state s = metric_state_spec (keys_of (\<lambda>ts. True) samples svc)
            (values_of (\<lambda>ts. ws \<le> ts) samples svc) (values_of (\<lambda>ts. ts < ws) samples svc)"
  have ks: "set ?ks = {svc. keys_of (\<lambda>ts. True) samples svc \<noteq> {}}"
    using metric_loop(5) [of ws samples] by simp
  have each: "if ?mixed svc then metric_signal ?t svc = Inl (TypeError ''<'')
      else \<exists>s. metric_signal ?t svc = Inr s \<and> ?ok svc s" for svc
    by (rule metric_signal_eq)
  show ?thesis
  proof (cases "\<exists>svc. ?mixed svc")
    case True
    then obtain svc where svc: "?mixed svc" by blast
    then have "keys_of (\<lambda>ts. True) samples svc \<noteq> {}" by (auto simp: mixed_def)
    then have mem: "svc \<in> set ?ks" unfolding ks by blast
    have bad: "metric_signal ?t svc = Inl (TypeError ''<'')" using each [of svc] svc by presburger
    have "rmap (\<lambda>svc. rbind (metric_signal ?t svc) (\<lambda>s. Inr (svc, s))) ?ks = Inl (TypeError ''<'')"
    proof (rule rmap_Inl)
      show "\<exists>x \<in> set ?ks. rbind (metric_signal ?t x) (\<lambda>s. Inr (x, s)) = Inl (TypeError ''<'')"
        using bad by (intro bexI [OF _ mem]) simp
      show "rbind (metric_signal ?t x) (\<lambda>s. Inr (x, s)) = Inl (TypeError ''<'')
          \<or> (\<exists>y. rbind (metric_signal ?t x) (\<lambda>s. Inr (x, s)) = Inr y)" for x
        using each [of x] by (cases "?mixed x") (auto simp only: if_True if_False rbind_simps sum.inject)
    qed
    with True show ?thesis by (simp add: summarize_metrics_def Let_def)
  next
    case False
    then have "\<exists>s. metric_signal ?t svc = Inr s \<and> ?ok svc s" for svc using each [of svc] by simp
    from rmap_pairs_Inr [where f = "metric_signal ?t" and P = ?ok and g = "\<lambda>k s. s" and ks = ?ks, OF this]
    obtain sigs where s: "summarize_metrics samples ws = Inr sigs" "map fst sigs = ?ks"
      "\<forall>(k, v) \<in> set sigs. ?ok k v"
      by (auto simp: summarize_metrics_def Let_def)
    have "fst ` set sigs = {svc. keys_of (\<lambda>ts. True) samples svc \<noteq> {}}"
      using arg_cong [OF s(2), of set] unfolding ks by simp
    moreover have "sorted_wrt (<) (map fst sigs)" unfolding s(2) by (simp add: strict_sorted_iff)
    ultimately show ?thesis using False s(1,3) by auto
  qed
qed

text \<open>One sample without recorded identity and one with: the summary raises.\<close>

definition example_sample :: "real \<Rightarrow> int \<Rightarrow> attributes \<Rightarrow> metric_sample" where
  "example_sample v ts attrs =
     \<lparr>ms_service = Some ''web'', ms_metric = ''error_rate'', ms_value = Some (Fin v), ms_ts = Some ts,
      ms_metric_type = None, ms_attributes = attrs\<rparr>"

theorem summarize_metrics_spec_witness:
  "summarize_metrics [example_sample (1/2) 9 None, example_sample (1/2) 9 (Some [])] 5 = Inl (TypeError ''<'')"
proof -
  let ?s = "[example_sample (1/2) 9 None, example_sample (1/2) 9 (Some [])]"
  have "mixed (keys_of (\<lambda>ts. True) ?s ''web'') ''error_rate''"
    by (auto simp: mixed_def keys_of_def counted_def example_sample_def series_key_def)
  then have "\<exists>svc. mixed (keys_of (\<lambda>ts. True) ?s svc) ''error_rate'' \<or> mixed (keys_of (\<lambda>ts. True) ?s svc) ''latency_ms''"
    by blast
  then show ?thesis using summarize_metrics_spec [of ?s 5] by presburger
qed

section \<open>Utilization\<close>

lemma no_reset_sorted:
  "list_all (\<lambda>(a, b). f a \<le> f b) (zip xs (tl xs)) \<Longrightarrow> sorted (map (f :: 'a \<Rightarrow> real) xs)"
proof (induction xs rule: induct_list012)
  case (3 x y zs)
  then have "sorted (map f (y # zs))" and "f x \<le> f y" by simp_all
  then show ?case by (auto intro: order_trans)
qed simp_all

lemma counter_rate_nonneg:
  assumes "sorted (map (\<lambda>p. real_of_fl (snd p)) ps)" and "counter_rate ps = Some r"
  shows "0 \<le> r"
proof -
  have "real_of_fl (snd (hd ps)) \<le> real_of_fl (snd (last ps))" if "ps \<noteq> []"
    using assms(1) that by (cases ps) auto
  moreover have "ps \<noteq> []" using assms(2) by (auto simp: counter_rate_def)
  ultimately show ?thesis using assms(2) by (auto simp: counter_rate_def Let_def split: if_splits)
qed

lemma series_ratio_nonneg:
  assumes "series_ratio ps req ws = Some r"
  shows "0 \<le> r"
proof -
  let ?v = "sort_key fst ps"
  let ?base = "filter (\<lambda>p. fst p < ws) ?v" and ?inc = "filter (\<lambda>p. ws \<le> fst p) ?v"
  have nn: "all_nonneg (map snd ?v) \<Longrightarrow> all_nonneg (map snd (filter P ?v))" for P
    by (auto simp: all_nonneg_def list_all_iff)
  have sorted_inc: "sorted (map (\<lambda>p. real_of_fl (snd p)) ?inc)"
    if "list_all (\<lambda>(a, b). real_of_fl (snd a) \<le> real_of_fl (snd b)) (zip ?v (tl ?v))"
    using no_reset_sorted [OF that] by (simp add: sorted_map sorted_wrt_filter)
  show ?thesis
    using assms mean_nonneg [OF nn, of "\<lambda>p. ws \<le> fst p"] counter_rate_nonneg [OF sorted_inc]
    by (auto simp: series_ratio_def Let_def split: if_splits option.splits)
qed

definition measurement_of :: "real option \<Rightarrow> measurement" where
  "measurement_of r =
     (case r of None \<Rightarrow> (None, 1, False) | Some x \<Rightarrow> (Some (if 2 \<le> x then st_present else st_absent), x, True))"

lemma measure_series_eq: "measure_series ps req ws = Inr (measurement_of (series_ratio ps req ws))"
proof (cases "series_ratio ps req ws")
  case None
  then show ?thesis by (simp add: measure_series_def measurement_of_def)
next
  case (Some r)
  then have "default_ratio r = Inr (if 2 \<le> r then st_high else if r \<le> 1/2 then st_low else st_normal)"
    by (intro default_ratio_eq series_ratio_nonneg)
  with Some show ?thesis by (simp add: measure_series_def measurement_of_def)
qed

text \<open>The state of one metric: identified rows only, decided instance by instance.\<close>

definition metric_state :: "string \<Rightarrow> metric_sample list \<Rightarrow> int \<Rightarrow> string option" where
  "metric_state required rows ws =
     (let rs = map (\<lambda>(_, pts). series_ratio pts required ws) (instance_points rows) in
      three_valued (identified required rows \<and> (\<exists>r. Some r \<in> set rs \<and> 2 \<le> r))
        (identified required rows \<and> None \<notin> set rs))"

lemma measurements_hit:
  "filter (\<lambda>x. fst x = Some st_present) (map measurement_of rs) \<noteq> [] \<longleftrightarrow> (\<exists>r. Some r \<in> set rs \<and> 2 \<le> r)"
  by (induction rs) (auto simp: measurement_of_def split: option.splits if_splits)

lemma measurements_all: "list_all (\<lambda>x. snd (snd x)) (map measurement_of rs) \<longleftrightarrow> None \<notin> set rs"
  by (induction rs) (auto simp: measurement_of_def split: option.splits)

lemma decide_instances_state:
  "fst (decide_instances (map measurement_of rs)) = three_valued (\<exists>r. Some r \<in> set rs \<and> 2 \<le> r) (None \<notin> set rs)"
proof (cases "max_by (\<lambda>x. fst (snd x)) (filter (\<lambda>x. fst x = Some st_present) (map measurement_of rs))")
  case None
  then have "\<not> (\<exists>r. Some r \<in> set rs \<and> 2 \<le> r)" using measurements_hit [of rs] by simp
  with None show ?thesis unfolding decide_instances_def Let_def measurements_all by (simp add: three_valued_def)
next
  case (Some m)
  then have "fst m = Some st_present" and "\<exists>r. Some r \<in> set rs \<and> 2 \<le> r"
    using measurements_hit [of rs] max_by_in [OF Some] by (auto dest: max_by_in)
  with Some show ?thesis unfolding decide_instances_def Let_def by (simp add: three_valued_def)
qed

lemma metric_measurement_eq:
  "\<exists>m. metric_measurement required rows ws = Inr m \<and> fst m = metric_state required rows ws"
proof (cases "identified required rows")
  case False
  then show ?thesis by (simp add: metric_measurement_def metric_state_def three_valued_def)
next
  case True
  let ?rs = "map (\<lambda>(_, pts). series_ratio pts required ws) (instance_points rows)"
  have results: "rmap (\<lambda>(_, pts). measure_series pts required ws) (instance_points rows) = Inr (map measurement_of ?rs)"
    using rmap_Inr_map [of "instance_points rows" "\<lambda>(_, pts). measure_series pts required ws"
        "\<lambda>x. measurement_of (case x of (_, pts) \<Rightarrow> series_ratio pts required ws)"]
    by (auto simp: measure_series_eq comp_def)
  from True show ?thesis
    by (simp add: metric_measurement_def results metric_state_def Let_def decide_instances_state
        del: set_map map_map)
qed

lemma witness_of_state:
  assumes "xs \<noteq> []" and "\<forall>x \<in> set xs. state x \<in> {None, Some st_present, Some st_absent}"
  shows "\<exists>w. witness_of state xs = Some w \<and> w \<in> set xs \<and>
    state w = three_valued (\<exists>x \<in> set xs. state x = Some st_present) (\<exists>x \<in> set xs. state x = Some st_absent)"
proof (cases "find (\<lambda>x. state x = Some st_present) xs")
  case (Some x)
  then have "x \<in> set xs" "state x = Some st_present" by (auto simp: find_Some_iff)
  with Some show ?thesis by (intro exI [of _ x]) (auto simp: witness_of_def three_valued_def)
next
  case None
  then have np: "\<not> (\<exists>x \<in> set xs. state x = Some st_present)" by (simp add: find_None_iff)
  show ?thesis
  proof (cases "find (\<lambda>x. state x = Some st_absent) xs")
    case (Some x)
    then have "x \<in> set xs" "state x = Some st_absent" by (auto simp: find_Some_iff)
    with Some None np show ?thesis by (intro exI [of _ x]) (auto simp: witness_of_def three_valued_def)
  next
    case None2: None
    then have "\<not> (\<exists>x \<in> set xs. state x = Some st_absent)" by (simp add: find_None_iff)
    then show ?thesis using None None2 np assms by (cases xs) (auto simp: witness_of_def three_valued_def)
  qed
qed

lemma util_groups_class:
  assumes "((svc, metric), rows) \<in> set (util_groups samples)"
  shows "util_metric_class metric \<noteq> None"
  using assms by (auto simp: util_groups_def set_group_by)

definition class_states :: "metric_sample list \<Rightarrow> int \<Rightarrow> string \<times> string \<Rightarrow> string option list" where
  "class_states samples ws key =
     List.map_filter (\<lambda>((svc, metric), rows).
       case util_metric_class metric of
         Some (resource, required) \<Rightarrow> if (svc, resource) = key then Some (metric_state required rows ws) else None
       | None \<Rightarrow> None) (util_groups samples)"

lemma util_per_class_eq:
  "\<exists>pairs. util_per_class samples ws = Inr pairs
     \<and> (\<forall>key. map fst (map snd (filter (\<lambda>x. fst x = key) pairs)) = class_states samples ws key)"
proof -
  have step: "\<exists>pairs. rmap (\<lambda>((svc, metric), rows).
       case util_metric_class metric of
         Some (resource, required) \<Rightarrow>
           rbind (metric_measurement required rows ws) (\<lambda>m. Inr ((svc, resource), m))
       | None \<Rightarrow> Inl (TypeError ''cannot unpack'')) gs = Inr pairs
     \<and> (\<forall>key. map fst (map snd (filter (\<lambda>x. fst x = key) pairs)) =
         List.map_filter (\<lambda>((svc, metric), rows).
           case util_metric_class metric of
             Some (resource, required) \<Rightarrow> if (svc, resource) = key then Some (metric_state required rows ws) else None
           | None \<Rightarrow> None) gs)"
    if "\<forall>((svc, metric), rows) \<in> set gs. util_metric_class metric \<noteq> None" for gs
    using that
  proof (induction gs)
    case Nil
    then show ?case by (simp add: List.map_filter_simps)
  next
    case (Cons g gs)
    obtain svc metric rows where g: "g = ((svc, metric), rows)" by (metis surj_pair)
    with Cons.prems obtain res req where cls: "util_metric_class metric = Some (res, req)" by auto
    obtain m where m: "metric_measurement req rows ws = Inr m" "fst m = metric_state req rows ws"
      using metric_measurement_eq by blast
    from Cons obtain pairs where ih: "rmap (\<lambda>((svc, metric), rows).
       case util_metric_class metric of
         Some (resource, required) \<Rightarrow>
           rbind (metric_measurement required rows ws) (\<lambda>m. Inr ((svc, resource), m))
       | None \<Rightarrow> Inl (TypeError ''cannot unpack'')) gs = Inr pairs"
     "\<forall>key. map fst (map snd (filter (\<lambda>x. fst x = key) pairs)) =
         List.map_filter (\<lambda>((svc, metric), rows).
           case util_metric_class metric of
             Some (resource, required) \<Rightarrow> if (svc, resource) = key then Some (metric_state required rows ws) else None
           | None \<Rightarrow> None) gs"
      by auto
    show ?case
      using ih(2) by (intro exI [of _ "((svc, res), m) # pairs"])
        (auto simp: g cls m ih(1) List.map_filter_simps)
  qed
  have "\<forall>((svc, metric), rows) \<in> set (util_groups samples). util_metric_class metric \<noteq> None"
    using util_groups_class by blast
  from step [OF this] show ?thesis unfolding util_per_class_def class_states_def .
qed

text \<open>
  summarizing utilization never raises and has one entry per resource class of which a service reported
  a dated, valued sample. A coordinate is PRESENT exactly when some metric of its class
  is fully identified and one of its instances at least doubled; ABSENT exactly when no metric of the class
  is PRESENT and some fully identified metric has every instance measured below; and unknown otherwise. A
  metric with a sample that lacks an instance or mixes modes never counts as measured.
\<close>

theorem summarize_utilization_spec:
  "\<exists>sigs. summarize_utilization samples ws = Inr sigs
    \<and> sorted_wrt (<) (map fst sigs)
    \<and> fst ` set sigs = {key. class_states samples ws key \<noteq> []}
    \<and> (\<forall>(key, u) \<in> set sigs. (us_service u, us_resource u) = key
        \<and> us_state u = three_valued (Some st_present \<in> set (class_states samples ws key))
            (Some st_absent \<in> set (class_states samples ws key)))"
proof -
  obtain pairs where pairs: "util_per_class samples ws = Inr pairs"
    and states: "\<And>key. map fst (map snd (filter (\<lambda>x. fst x = key) pairs)) = class_states samples ws key"
    using util_per_class_eq by blast
  let ?gs = "sort_key fst (group_by fst pairs)"
  have ok: "s \<in> {None, Some st_present, Some st_absent}" if "s \<in> set (class_states samples ws key)" for s key
    using that by (auto simp: class_states_def set_map_filter metric_state_def three_valued_def Let_def
        split: option.splits if_splits)
  let ?F = "\<lambda>((svc, resource), ms).
       case witness_of fst (map snd ms) of
         Some (st, ratio, measured) \<Rightarrow>
           Inr ((svc, resource), \<lparr>us_service = svc, us_resource = resource, us_ratio = ratio,
                                  us_measured = measured, us_state = st\<rparr>)
       | None \<Rightarrow> Inl IndexError"
  let ?P = "\<lambda>key u. (us_service u, us_resource u) = key
        \<and> us_state u = three_valued (Some st_present \<in> set (class_states samples ws key))
            (Some st_absent \<in> set (class_states samples ws key))"
  have each: "\<exists>u. ?F g = Inr (fst g, u) \<and> ?P (fst g) u" if "g \<in> set (group_by fst pairs)" for g
  proof -
    obtain key ms where g: "g = (key, ms)" by (cases g)
    then have "ms = filter (\<lambda>x. fst x = key) pairs" "ms \<noteq> []"
      using that groups.grp_iff [of key ms fst pairs] groups.grp_nonempty [of key ms fst pairs] by blast+
    then have st: "map fst (map snd ms) = class_states samples ws key" using states by simp
    from ok [of _ key] have "\<forall>x \<in> set (map snd ms). fst x \<in> {None, Some st_present, Some st_absent}"
      unfolding st [symmetric] by auto
    then obtain w where w: "witness_of fst (map snd ms) = Some w"
      "fst w = three_valued (\<exists>x \<in> set (map snd ms). fst x = Some st_present) (\<exists>x \<in> set (map snd ms). fst x = Some st_absent)"
      using witness_of_state [of "map snd ms" fst] \<open>ms \<noteq> []\<close> by auto
    have mem: "(\<exists>x \<in> set (map snd ms). fst x = s) \<longleftrightarrow> s \<in> set (class_states samples ws key)" for s
      unfolding st [symmetric] by auto
    obtain svc res where key: "key = (svc, res)" by (cases key)
    show ?thesis using w(1) w(2) [unfolded mem] by (cases w) (auto simp: g key)
  qed
  have "\<exists>sigs. rmap ?F gs = Inr sigs \<and> map fst sigs = map fst gs \<and> (\<forall>(key, u) \<in> set sigs. ?P key u)"
    if "set gs \<subseteq> set (group_by fst pairs)" for gs
    using that
  proof (induction gs)
    case (Cons g gs)
    then obtain sigs where "rmap ?F gs = Inr sigs" "map fst sigs = map fst gs" "\<forall>(key, u) \<in> set sigs. ?P key u"
      by auto
    moreover obtain u where "?F g = Inr (fst g, u)" "?P (fst g) u" using each [of g] Cons.prems by auto
    ultimately show ?case by (intro exI [of _ "(fst g, u) # sigs"]) auto
  qed simp
  from this [of ?gs] obtain sigs where s: "summarize_utilization samples ws = Inr sigs" "map fst sigs = map fst ?gs"
    "\<forall>(key, u) \<in> set sigs. ?P key u"
    by (auto simp: summarize_utilization_def pairs)
  have "key \<in> fst ` set pairs \<longleftrightarrow> class_states samples ws key \<noteq> []" for key
    unfolding states [symmetric] by (auto simp: filter_empty_conv)
  moreover have "fst ` set sigs = fst ` set pairs"
    using arg_cong [OF s(2), of set] by (simp add: groups.grp_set image_image)
  moreover have "sorted_wrt (<) (map fst sigs)"
    unfolding s(2) by (simp add: strict_sorted_iff by_key.rank_distinct groups.grp_keys)
  ultimately show ?thesis using s(1,3) by auto
qed

text \<open>A utilization sample whose reporting instance is not named: the coordinate stays unknown.\<close>

definition example_util :: "int \<Rightarrow> attributes \<Rightarrow> metric_sample" where
  "example_util ts attrs = (example_sample 1 ts attrs)\<lparr>ms_metric := ''jvm.cpu.recent_utilization''\<rparr>"

theorem summarize_utilization_spec_witness:
  "\<exists>u. summarize_utilization [example_util 1 (Some []), example_util 9 (Some [])] 5 = Inr [((''web'', ''cpu''), u)]
     \<and> us_state u = None"
proof -
  let ?s = "[example_util 1 (Some []), example_util 9 (Some [])]"
  have cls: "util_metric_class ''jvm.cpu.recent_utilization'' = Some (''cpu'', ''gauge'')"
    by (simp add: util_metric_class_def startswith_def endswith_def)
  have groups: "util_groups ?s = [((''web'', ''jvm.cpu.recent_utilization''), ?s)]"
    by (simp add: util_groups_def group_by_def dict_append_def dget_or_def example_util_def example_sample_def cls)
  have "\<not> identified ''gauge'' ?s"
    by (simp add: identified_def example_util_def example_sample_def instance_identity_def get_truthy_def
        INSTANCE_ATTRS_def INSTANCE_ATTR_PAIRS_def)
  then have states: "class_states ?s 5 key = (if key = (''web'', ''cpu'') then [None] else [])" for key
    by (simp add: class_states_def groups cls metric_state_def three_valued_def List.map_filter_simps)
  obtain sigs where s: "summarize_utilization ?s 5 = Inr sigs" "sorted_wrt (<) (map fst sigs)"
      "fst ` set sigs = {(''web'', ''cpu'')}" "\<forall>(key, u) \<in> set sigs. us_state u = None"
    using summarize_utilization_spec [of ?s 5] unfolding states by (auto simp: three_valued_def split: if_splits)
  have "distinct (map fst sigs)" using s(2) by (simp add: strict_sorted_iff)
  then have "length sigs = card (fst ` set sigs)" by (metis distinct_card length_map list.set_map)
  then have "length sigs = 1" using s(3) by simp
  then obtain x where x: "sigs = [x]" by (auto simp: length_Suc_conv)
  with s show ?thesis by (cases x) auto
qed

end
