(* ===== verification/StructuralModel.thy ===== *)
theory StructuralModel
  imports MetricSignals
begin

text \<open>
  The structural model (\<open>src/core/rca/structural_model.py\<close>, second half) and the live structural view
  (\<open>src/core/rca/structural.py\<close>): merging the modalities, building observables and hypotheses, and the run
  from telemetry rows to the evidence packet and the ranked classes. The two queries read tables given as
  lists of rows with their scope. Sets of services are lists without repetition; the code sorts them before
  it uses their order.
\<close>

section \<open>Merging modalities\<close>

definition combine_signals :: "(string, service_signal) dict list \<Rightarrow> (string, service_signal) dict" where
  "combine_signals sources =
     (let services = sort (dedup (concat (map dkeys sources))) in
      List.map_filter (\<lambda>svc. map_option (Pair svc)
          (witness_of ss_state (List.map_filter (\<lambda>src. dget src svc) sources))) services)"

record structural_inputs =
  si_signals :: "(string, service_signal) dict"
  si_edges :: "(string \<times> string) list"
  si_edge_signals :: "(string \<times> string, edge_signal) dict"
  si_util_signals :: "(string \<times> string, util_signal) dict"

definition structural_signals :: "span list \<Rightarrow> metric_sample list \<Rightarrow> int \<Rightarrow> structural_inputs res" where
  "structural_signals spans metrics ws =
     rbind (summarize_spans spans ws) (\<lambda>from_spans.
     rbind (summarize_metrics metrics ws) (\<lambda>from_metrics.
     rbind (summarize_edges spans ws (9/10)) (\<lambda>edge_signals.
     rbind (summarize_utilization metrics ws) (\<lambda>util_signals.
     Inr \<lparr>si_signals = combine_signals [from_spans, from_metrics], si_edges = call_edges spans (Some ws),
          si_edge_signals = edge_signals, si_util_signals = util_signals\<rparr>))))"

section \<open>Observables and hypotheses\<close>

definition proven :: "(string \<times> string option) list \<Rightarrow> observable list res" where
  "proven xs =
     rmap (\<lambda>(i, s). observed i s None None None (FloatN (Fin 1)))
       (List.map_filter (\<lambda>(i, s). map_option (Pair i) s) xs)"

definition build_observables ::
  "(string, service_signal) dict \<Rightarrow> (string \<times> string, edge_signal) dict \<Rightarrow> (string \<times> string, util_signal) dict
   \<Rightarrow> observable list res" where
  "build_observables signals edge_signals util_signals =
     rbind (proven (map (\<lambda>(svc, s). (''sig:'' @ svc, ss_state s)) (sort_key fst signals))) (\<lambda>a.
     rbind (proven (map (\<lambda>(_, e). (es_id e, es_state e)) (sort_key fst edge_signals))) (\<lambda>b.
     rbind (proven (map (\<lambda>(_, u). (us_id u, us_state u)) (sort_key fst util_signals))) (\<lambda>c.
     Inr (a @ b @ c))))"

definition callees :: "string \<Rightarrow> (string \<times> string) list \<Rightarrow> string list" where
  "callees service edges = map snd (filter (\<lambda>e. fst e = service) edges)"

definition service_universe :: "(string, service_signal) dict \<Rightarrow> string list \<Rightarrow> string list" where
  "service_universe signals span_services = dedup (dkeys signals @ span_services)"

definition anomalous_services :: "(string, service_signal) dict \<Rightarrow> string list" where
  "anomalous_services signals = map fst (filter (\<lambda>(s, sig). ss_anomalous sig) signals)"

definition candidate_services ::
  "(string, service_signal) dict \<Rightarrow> (string \<times> string) list \<Rightarrow> (string \<times> string, edge_signal) dict
   \<Rightarrow> (string \<times> string, util_signal) dict \<Rightarrow> string list" where
  "candidate_services signals edges edge_signals util_signals =
     (let anomalous = anomalous_services signals;
          unexplained = concat (map (\<lambda>s. let cs = callees s edges in
            if \<not> list_ex (\<lambda>c. c \<in> set anomalous) cs then cs else []) anomalous);
          by_edge = map es_callee (filter (\<lambda>e. es_state e = Some st_present) (dvals edge_signals));
          by_util = map us_service (filter (\<lambda>u. us_state u = Some st_present) (dvals util_signals)) in
      sort (dedup (anomalous @ unexplained @ by_edge @ by_util)))"

definition expected_extra ::
  "(string \<times> string, edge_signal) dict \<Rightarrow> (string \<times> string, util_signal) dict \<Rightarrow> string \<Rightarrow> string list" where
  "expected_extra edge_signals util_signals svc =
     map es_id (filter (\<lambda>e. es_callee e = svc) (dvals edge_signals)) @
     map us_id (filter (\<lambda>u. us_service u = svc) (dvals util_signals))"

definition hypothesis_for :: "string list \<Rightarrow> string \<Rightarrow> hypothesis res" where
  "hypothesis_for extra svc =
     rbind (rmap (\<lambda>oid. ExpectedObservation_init (VStr oid) (VStr st_present) (VStr ''maybe''))
              ((''sig:'' @ svc) # sort extra)) (\<lambda>es.
     rbind (ObservationModel_init es []) (\<lambda>m.
     from_observation_model (''process:'' @ svc) PROCESS svc m None))"

definition build_hypotheses ::
  "(string, service_signal) dict \<Rightarrow> (string \<times> string) list \<Rightarrow> (string \<times> string, edge_signal) dict
   \<Rightarrow> (string \<times> string, util_signal) dict \<Rightarrow> hypothesis list res" where
  "build_hypotheses signals edges edge_signals util_signals =
     rmap (\<lambda>svc. hypothesis_for (expected_extra edge_signals util_signals svc) svc)
       (candidate_services signals edges edge_signals util_signals)"

section \<open>The structural view\<close>

definition in_window :: "int \<Rightarrow> int \<Rightarrow> int option \<Rightarrow> bool" where
  "in_window lo hi ts = (case ts of None \<Rightarrow> False | Some t \<Rightarrow> lo \<le> t \<and> t \<le> hi)"

definition load_structural_rows ::
  "(string \<times> metric_sample) list \<Rightarrow> (string \<times> span) list \<Rightarrow> string \<Rightarrow> int \<Rightarrow> int \<Rightarrow> metric_sample list \<times> span list" where
  "load_structural_rows metric_table span_table scope window_end baseline_start =
     (map snd (filter (\<lambda>(sc, m). sc = scope \<and> in_window baseline_start window_end (ms_ts m)) metric_table),
      map snd (filter (\<lambda>(sc, s). sc = scope \<and> in_window baseline_start window_end (sp_start_time s)) span_table))"

definition resolve_structural :: "structural_inputs \<Rightarrow> (structural_result \<times> partition) option res" where
  "resolve_structural inp =
     rbind (build_hypotheses (si_signals inp) (si_edges inp) (si_edge_signals inp) (si_util_signals inp)) (\<lambda>hs.
     if hs = [] then Inr None
     else rbind (build_observables (si_signals inp) (si_edge_signals inp) (si_util_signals inp)) (\<lambda>obs.
          rbind (partition_hypotheses hs obs DEFAULT_POLICY) (\<lambda>part.
          rbind (resolve part obs) (\<lambda>r. Inr (Some (r, part))))))"

definition build_structural_view ::
  "(string \<times> metric_sample) list \<Rightarrow> (string \<times> span) list \<Rightarrow> string \<Rightarrow> int \<Rightarrow> int \<Rightarrow> int
   \<Rightarrow> (structural_result \<times> scored_class list) option res" where
  "build_structural_view metric_table span_table scope window_start window_end baseline_start =
     (let rows = load_structural_rows metric_table span_table scope window_end baseline_start in
      rbind (structural_signals (snd rows) (fst rows) window_start) (\<lambda>inp.
      rbind (resolve_structural inp) (\<lambda>resolved.
      case resolved of
        None \<Rightarrow> Inr None
      | Some (r, part) \<Rightarrow> rbind (rank_classes part True) (\<lambda>cs. Inr (Some (r, cs))))))"

section \<open>Facts\<close>

definition std_observed :: "string \<Rightarrow> string \<Rightarrow> observable" where
  "std_observed i s =
     \<lparr>ob_id = i, ob_collectable = True, ob_availability = OBSERVED, ob_state = Some s, ob_value = None,
      ob_baseline_state = None, ob_baseline_value = None, ob_confidence = FloatN (Fin 1)\<rparr>"

lemma observed_default:
  "i \<noteq> [] \<Longrightarrow> observed i s None None None (FloatN (Fin 1)) = Inr (std_observed i s)"
  by (simp add: observed_def Observable_init_def as_availability_def confidence_ok_def std_observed_def)

lemma proven_eq:
  "\<forall>(i, s) \<in> set xs. i \<noteq> [] \<Longrightarrow>
   proven xs = Inr (map (\<lambda>(i, s). std_observed i s) (List.map_filter (\<lambda>(i, s). map_option (Pair i) s) xs))"
  unfolding proven_def by (rule rmap_Inr_map) (auto simp: set_map_filter observed_default)

lemma proven_ids: "distinct (map fst xs) \<Longrightarrow> distinct (map fst (List.map_filter (\<lambda>(i, s). map_option (Pair i) s) xs))"
  using distinct_pairs [of fst xs snd] by (simp add: case_prod_unfold)

lemma proven_id_in: "(i, s) \<in> set (List.map_filter (\<lambda>(i, s). map_option (Pair i) s) xs) \<Longrightarrow> i \<in> fst ` set xs"
  by (force simp: set_map_filter)

text \<open>The telemetry the model accepts: attributed to named services, one coordinate per identifier.\<close>

definition wf_inputs :: "structural_inputs \<Rightarrow> bool" where
  "wf_inputs inp \<longleftrightarrow>
     dict_wf (si_signals inp) \<and> [] \<notin> set (dkeys (si_signals inp)) \<and> [] \<notin> set (map snd (si_edges inp)) \<and>
     [] \<notin> set (map es_callee (dvals (si_edge_signals inp))) \<and> [] \<notin> set (map us_service (dvals (si_util_signals inp))) \<and>
     distinct (map es_id (dvals (si_edge_signals inp)) @ map us_id (dvals (si_util_signals inp)))"

definition mk_model :: "string list \<Rightarrow> string \<Rightarrow> observation_model" where
  "mk_model extra svc =
     \<lparr>om_expected = map (\<lambda>oid. \<lparr>eo_id = oid, eo_state = st_present, eo_strength = MAYBE\<rparr>) ((''sig:'' @ svc) # sort extra),
      om_contradictions = []\<rparr>"

definition mk_hypothesis :: "string list \<Rightarrow> string \<Rightarrow> hypothesis" where
  "mk_hypothesis extra svc =
     \<lparr>hy_id = ''process:'' @ svc, hy_kind = PROCESS, hy_localization = svc,
      hy_predictions = om_predictions (mk_model extra svc), hy_model = Some (mk_model extra svc), hy_source = None\<rparr>"

lemma hypothesis_for_eq:
  assumes "svc \<noteq> []" and "distinct ((''sig:'' @ svc) # extra)" and "[] \<notin> set extra"
  shows "hypothesis_for extra svc = Inr (mk_hypothesis extra svc)"
proof -
  have "rmap (\<lambda>oid. ExpectedObservation_init (VStr oid) (VStr st_present) (VStr ''maybe'')) ((''sig:'' @ svc) # sort extra)
      = Inr (map (\<lambda>oid. \<lparr>eo_id = oid, eo_state = st_present, eo_strength = MAYBE\<rparr>) ((''sig:'' @ svc) # sort extra))"
  proof (rule rmap_Inr_map)
    fix x assume "x \<in> set ((''sig:'' @ svc) # sort extra)"
    then have "x \<noteq> []" using assms(3) by auto
    then show "ExpectedObservation_init (VStr x) (VStr st_present) (VStr ''maybe'')
        = Inr \<lparr>eo_id = x, eo_state = st_present, eo_strength = MAYBE\<rparr>"
      using ExpectedObservation_init_str [of x st_present MAYBE] by simp
  qed
  moreover have "ObservationModel_init (om_expected (mk_model extra svc)) [] = Inr (mk_model extra svc)"
    using assms(2) by (simp add: ObservationModel_init_iff wf_model_def mk_model_def comp_def)
  ultimately show ?thesis
    using from_observation_model_eq [of "''process:'' @ svc" svc PROCESS "mk_model extra svc" None] assms(1)
    by (simp add: hypothesis_for_def mk_hypothesis_def mk_model_def)
qed

lemma id_shapes:
  "es_id e \<noteq> ''sig:'' @ svc" "us_id u \<noteq> ''sig:'' @ svc" "es_id e \<noteq> []" "us_id u \<noteq> []"
  by (simp_all add: es_id_def edge_observable_id_def us_id_def util_observable_id_def)

lemma expected_extra_wf:
  assumes "distinct (map es_id (dvals E) @ map us_id (dvals U))"
  shows "distinct ((''sig:'' @ svc) # expected_extra E U svc)" and "[] \<notin> set (expected_extra E U svc)"
proof -
  have shape: "(\<exists>e. x = es_id e) \<or> (\<exists>u. x = us_id u)" if "x \<in> set (expected_extra E U svc)" for x
    using that by (auto simp: expected_extra_def)
  have "''sig:'' @ svc \<notin> set (expected_extra E U svc)"
    using shape [of "''sig:'' @ svc"] id_shapes(1,2) by metis
  moreover have "distinct (expected_extra E U svc)"
    using assms by (auto simp: expected_extra_def distinct_map_filter)
  ultimately show "distinct ((''sig:'' @ svc) # expected_extra E U svc)" by simp
  show "[] \<notin> set (expected_extra E U svc)"
    using shape [of "[]"] id_shapes(3,4) by metis
qed

abbreviation inputs_candidates :: "structural_inputs \<Rightarrow> string list" where
  "inputs_candidates inp \<equiv>
     candidate_services (si_signals inp) (si_edges inp) (si_edge_signals inp) (si_util_signals inp)"

abbreviation inputs_hypotheses :: "structural_inputs \<Rightarrow> hypothesis list" where
  "inputs_hypotheses inp \<equiv>
     map (\<lambda>svc. mk_hypothesis (expected_extra (si_edge_signals inp) (si_util_signals inp) svc) svc) (inputs_candidates inp)"

lemma candidates_set:
  "set (candidate_services signals edges E U) =
     {s. \<exists>sig. (s, sig) \<in> set signals \<and> ss_anomalous sig}
     \<union> {c. \<exists>s sig. (s, sig) \<in> set signals \<and> ss_anomalous sig \<and> (s, c) \<in> set edges \<and>
           (\<forall>c'. (s, c') \<in> set edges \<longrightarrow> \<not> (\<exists>sig'. (c', sig') \<in> set signals \<and> ss_anomalous sig'))}
     \<union> {es_callee e | e. e \<in> set (dvals E) \<and> es_state e = Some st_present}
     \<union> {us_service u | u. u \<in> set (dvals U) \<and> us_state u = Some st_present}"
proof -
  let ?A = "anomalous_services signals"
  have A: "s \<in> set ?A \<longleftrightarrow> (\<exists>sig. (s, sig) \<in> set signals \<and> ss_anomalous sig)" for s
    by (force simp: anomalous_services_def)
  have C: "c \<in> set (callees s edges) \<longleftrightarrow> (s, c) \<in> set edges" for s c
    by (force simp: callees_def)
  have un: "set (concat (map (\<lambda>s.
            if \<not> list_ex (\<lambda>c. c \<in> set ?A) (callees s edges) then callees s edges else []) ?A))
      = {c. \<exists>s \<in> set ?A. (s, c) \<in> set edges \<and> (\<forall>c'. (s, c') \<in> set edges \<longrightarrow> c' \<notin> set ?A)}"
    by (auto simp: list_ex_iff C split: if_splits)
  have eq: "set (candidate_services signals edges E U) =
     set ?A \<union> ({c. \<exists>s \<in> set ?A. (s, c) \<in> set edges \<and> (\<forall>c'. (s, c') \<in> set edges \<longrightarrow> c' \<notin> set ?A)} \<union>
       (es_callee ` {e \<in> set (dvals E). es_state e = Some st_present} \<union>
        us_service ` {u \<in> set (dvals U). us_state u = Some st_present}))"
    unfolding candidate_services_def Let_def set_sort set_dedup set_append un by simp
  have sA: "set ?A = {s. \<exists>sig. (s, sig) \<in> set signals \<and> ss_anomalous sig}" using A by blast
  show ?thesis unfolding eq sA by blast
qed

lemma candidates_named:
  assumes "wf_inputs inp"
  shows "[] \<notin> set (inputs_candidates inp)"
proof
  assume "[] \<in> set (inputs_candidates inp)"
  then show False unfolding candidates_set Un_iff mem_Collect_eq
  proof (elim disjE exE conjE, goal_cases)
    case 1
    then have "[] \<in> set (dkeys (si_signals inp))" by force
    with assms show ?thesis unfolding wf_inputs_def by blast
  next
    case 2
    then have "[] \<in> set (map snd (si_edges inp))" by force
    with assms show ?thesis unfolding wf_inputs_def by blast
  next
    case (3 e)
    then have "[] \<in> set (map es_callee (dvals (si_edge_signals inp)))" unfolding set_map [of es_callee] by (metis imageI)
    with assms show ?thesis unfolding wf_inputs_def by blast
  next
    case (4 u)
    then have "[] \<in> set (map us_service (dvals (si_util_signals inp)))" unfolding set_map [of us_service] by (metis imageI)
    with assms show ?thesis unfolding wf_inputs_def by blast
  qed
qed

lemma candidates_distinct: "distinct (candidate_services signals edges E U)" "sorted (candidate_services signals edges E U)"
  by (simp_all add: candidate_services_def Let_def)

lemma build_hypotheses_eq:
  assumes "wf_inputs inp"
  shows "build_hypotheses (si_signals inp) (si_edges inp) (si_edge_signals inp) (si_util_signals inp)
    = Inr (inputs_hypotheses inp)"
  unfolding build_hypotheses_def
proof (rule rmap_Inr_map)
  fix svc assume "svc \<in> set (inputs_candidates inp)"
  then have "svc \<noteq> []" using candidates_named [OF assms] by metis
  then show "hypothesis_for (expected_extra (si_edge_signals inp) (si_util_signals inp) svc) svc
      = Inr (mk_hypothesis (expected_extra (si_edge_signals inp) (si_util_signals inp) svc) svc)"
    using expected_extra_wf [of "si_edge_signals inp" "si_util_signals inp" svc] assms
    by (intro hypothesis_for_eq) (auto simp: wf_inputs_def)
qed

lemma build_observables_eq:
  assumes "wf_inputs inp"
  shows "\<exists>obs. build_observables (si_signals inp) (si_edge_signals inp) (si_util_signals inp) = Inr obs
    \<and> distinct (map ob_id obs)"
proof -
  let ?S = "map (\<lambda>(svc, s). (''sig:'' @ svc, ss_state s)) (sort_key fst (si_signals inp))"
  let ?E = "map (\<lambda>(k, e). (es_id e, es_state e)) (sort_key fst (si_edge_signals inp))"
  let ?U = "map (\<lambda>(k, u). (us_id u, us_state u)) (sort_key fst (si_util_signals inp))"
  let ?L = "\<lambda>xs. List.map_filter (\<lambda>(i, s). map_option (Pair i) s) xs"
  let ?all = "?S @ ?E @ ?U"
  have ne: "\<forall>(i, s) \<in> set ?S. i \<noteq> []" "\<forall>(i, s) \<in> set ?E. i \<noteq> []" "\<forall>(i, s) \<in> set ?U. i \<noteq> []"
    using id_shapes by auto
  have "build_observables (si_signals inp) (si_edge_signals inp) (si_util_signals inp)
      = Inr (map (\<lambda>(i, s). std_observed i s) (?L ?all))"
    unfolding build_observables_def proven_eq [OF ne(1)] proven_eq [OF ne(2)] proven_eq [OF ne(3)]
    by (simp add: map_filter_append)
  moreover have "distinct (map fst ?all)"
  proof -
    have "distinct (map fst ?S)"
    proof -
      have "map fst ?S = map (append ''sig:'') (map fst (sort_key fst (si_signals inp)))"
        by (simp add: case_prod_unfold comp_def)
      moreover have "distinct (map fst (sort_key fst (si_signals inp)))"
        using assms unfolding wf_inputs_def dict_wf_def by_key.rank_distinct by blast
      ultimately show ?thesis by (simp only: distinct_map) (simp add: inj_on_def)
    qed
    moreover have "distinct (map fst ?E @ map fst ?U)"
    proof (rule mset_eq_imp_distinct_iff [THEN iffD2])
      show "mset (map fst ?E @ map fst ?U)
          = mset (map es_id (dvals (si_edge_signals inp)) @ map us_id (dvals (si_util_signals inp)))"
        by (simp add: case_prod_unfold comp_def)
      show "distinct (map es_id (dvals (si_edge_signals inp)) @ map us_id (dvals (si_util_signals inp)))"
        using assms unfolding wf_inputs_def by blast
    qed
    moreover have "set (map fst ?S) \<inter> set (map fst ?E @ map fst ?U) = {}"
    proof -
      have sub: "A \<subseteq> R \<Longrightarrow> B \<subseteq> S \<Longrightarrow> C \<subseteq> T \<Longrightarrow> R \<inter> (S \<union> T) = {} \<Longrightarrow> A \<inter> (B \<union> C) = {}"
        for A B C R S T :: "string set" by blast
      have "fst ` set ?S \<subseteq> range (\<lambda>s. ''sig:'' @ s)" "fst ` set ?E \<subseteq> range es_id" "fst ` set ?U \<subseteq> range us_id"
        by auto
      moreover have "range (\<lambda>s. ''sig:'' @ s) \<inter> (range es_id \<union> range us_id) = {}"
        by (auto simp: es_id_def edge_observable_id_def us_id_def util_observable_id_def)
      ultimately show ?thesis unfolding set_append set_map [of fst] by (rule sub)
    qed
    ultimately show ?thesis unfolding map_append by (subst distinct_append) blast
  qed
  then have "distinct (map fst (?L ?all))" by (rule proven_ids)
  then have "distinct (map ob_id (map (\<lambda>(i, s). std_observed i s) (?L ?all)))"
    by (simp add: case_prod_unfold comp_def std_observed_def)
  ultimately show ?thesis by blast
qed

section \<open>Properties\<close>

text \<open>
  the candidates are exactly the anomalous services, the callees of an anomalous service none of whose
  callees is anomalous, the callees of the anomalous call edges and the services with a saturated resource.
\<close>

theorem candidate_services_exact:
  "set (candidate_services signals edges E U) =
     {s. \<exists>sig. (s, sig) \<in> set signals \<and> ss_anomalous sig}
     \<union> {c. \<exists>s sig. (s, sig) \<in> set signals \<and> ss_anomalous sig \<and> (s, c) \<in> set edges \<and>
           \<not> (\<exists>c' sig'. (s, c') \<in> set edges \<and> (c', sig') \<in> set signals \<and> ss_anomalous sig')}
     \<union> {es_callee e | e. e \<in> set (dvals E) \<and> es_state e = Some st_present}
     \<union> {us_service u | u. u \<in> set (dvals U) \<and> us_state u = Some st_present}"
  unfolding candidates_set by blast

lemma inputs_partition:
  assumes "distinct (map ob_id obs)" and "inputs_candidates inp \<noteq> []"
  obtains p where "partition_hypotheses (inputs_hypotheses inp) obs DEFAULT_POLICY = Inr p"
    and "pa_eliminated p = []" and "mset (all_members p) = mset (inputs_hypotheses inp)"
proof -
  let ?us = "filter (\<lambda>ob. is_usable ob \<and> meets_threshold DEFAULT_POLICY ob) obs"
  let ?hs = "inputs_hypotheses inp"
  have "distinct (map hy_id ?hs)"
    using candidates_distinct(1) by (simp add: comp_def mk_hypothesis_def distinct_map inj_on_def)
  then have "partition_hypotheses ?hs obs DEFAULT_POLICY = Inr (mk_partition ?us ?hs)"
    using assms by (simp add: partition_hypotheses_eq distinct_hypotheses_distinct)
  moreover have soft: "\<not> hard_by ?us h" if "h \<in> set ?hs" for h
    using that by (auto simp: hard_by_def mk_hypothesis_def mk_model_def)
  then have "filter (hard_by ?us) ?hs = []" and "filter (\<lambda>h. \<not> hard_by ?us h) ?hs = ?hs"
    by (simp_all add: filter_empty_conv filter_id_conv)
  then have "pa_eliminated (mk_partition ?us ?hs) = []" and "mset (all_members (mk_partition ?us ?hs)) = mset ?hs"
    using mset_all_members [of ?us ?hs] by (simp_all add: mk_partition_def sort_members_def)
  ultimately show ?thesis by (rule that)
qed

text \<open>
  C8: on inputs attributed to named services with one coordinate per identifier, the structural run never
  raises. It abstains exactly when there is no candidate; otherwise it eliminates no candidate, its
  localization is exactly the set of candidates, and it claims an identified cause exactly when there is a
  single candidate.
\<close>

theorem resolve_structural_total:
  assumes "wf_inputs inp"
  shows "if inputs_candidates inp = [] then resolve_structural inp = Inr None
    else \<exists>r p. resolve_structural inp = Inr (Some (r, p)) \<and> sr_eliminated r = []
      \<and> set (sr_localization r) = set (inputs_candidates inp)
      \<and> sr_outcome r \<noteq> NO_COMPATIBLE_HYPOTHESIS
      \<and> (sr_outcome r = IDENTIFIED \<longleftrightarrow> length (inputs_candidates inp) = 1)"
proof (cases "inputs_candidates inp = []")
  case True
  then show ?thesis by (simp add: resolve_structural_def build_hypotheses_eq [OF assms])
next
  case False
  obtain obs where obs: "build_observables (si_signals inp) (si_edge_signals inp) (si_util_signals inp) = Inr obs"
    "distinct (map ob_id obs)" using build_observables_eq [OF assms] by blast
  obtain p where p: "partition_hypotheses (inputs_hypotheses inp) obs DEFAULT_POLICY = Inr p"
    and elim: "pa_eliminated p = []" and mem: "mset (all_members p) = mset (inputs_hypotheses inp)"
    using inputs_partition [OF obs(2) False] by blast
  let ?r = "mk_result p (sort (map ob_id (filter (\<lambda>ob. \<not> ob_collectable ob) obs)))"
  have r: "resolve p obs = Inr ?r" by (rule resolve_eq [OF p obs(2)])
  have run: "resolve_structural inp = Inr (Some (?r, p))"
    using False by (simp add: resolve_structural_def build_hypotheses_eq [OF assms] obs(1) p r)
  have set_mem: "set (all_members p) = set (inputs_hypotheses inp)" using mem by (metis set_mset_mset)
  have loc: "set (sr_localization ?r) = set (inputs_candidates inp)"
  proof -
    have "set (sr_localization ?r) = hy_localization ` set (all_members p)"
      by (auto simp: mk_result_def summary_localization_def mk_view_def member_view_of_def Let_def all_members_def)
    then show ?thesis unfolding set_mem by (simp add: image_image mk_hypothesis_def)
  qed
  have one: "sr_outcome ?r = IDENTIFIED \<longleftrightarrow> length (inputs_candidates inp) = 1"
    and some: "sr_outcome ?r \<noteq> NO_COMPATIBLE_HYPOTHESIS"
  proof -
    let ?S = "set (all_members p)"
    have "distinct (map hy_id (inputs_hypotheses inp))"
      using candidates_distinct(1) by (simp add: comp_def mk_hypothesis_def distinct_map inj_on_def)
    then have "distinct (all_members p)" using mem by (metis distinct_map mset_eq_imp_distinct_iff)
    then have card: "card ?S = length (inputs_candidates inp)"
      using mem by (metis distinct_card length_map size_mset)
    then have ne: "?S \<noteq> {}" using False by (metis card.empty length_0_conv)
    have "agree_on (pa_usable p) ?S" if "card ?S = 1"
      using that by (auto simp: agree_on_def card_1_singleton_iff)
    moreover have "sr_outcome ?r = classify p" by (simp add: mk_result_def Let_def)
    ultimately show "sr_outcome ?r = IDENTIFIED \<longleftrightarrow> length (inputs_candidates inp) = 1"
      and "sr_outcome ?r \<noteq> NO_COMPATIBLE_HYPOTHESIS"
      using ne card unfolding classify_eq [OF p] Let_def by auto
  qed
  have "sr_eliminated ?r = []" by (simp add: mk_result_def Let_def elim)
  with run loc one some False show ?thesis by auto
qed

text \<open>
  merging modalities covers every service of every source once, in order; a service is PRESENT as soon
  as one modality proves it, ABSENT when some modality measured it normal and none proved it anomalous, and
  unknown otherwise; and the merged record is one of the sources' records, verbatim.
\<close>

theorem combine_signals_priority:
  assumes "\<forall>src \<in> set sources. \<forall>s \<in> set (dvals src). ss_state s \<in> {None, Some st_present, Some st_absent}"
  shows "sorted_wrt (<) (map fst (combine_signals sources))
    \<and> fst ` set (combine_signals sources) = (\<Union>src \<in> set sources. fst ` set src)
    \<and> (\<forall>(svc, s) \<in> set (combine_signals sources). (\<exists>src \<in> set sources. dget src svc = Some s)
        \<and> ss_state s = three_valued (\<exists>src \<in> set sources. \<exists>x. dget src svc = Some x \<and> ss_state x = Some st_present)
            (\<exists>src \<in> set sources. \<exists>x. dget src svc = Some x \<and> ss_state x = Some st_absent))"
proof -
  let ?W = "\<lambda>svc. witness_of ss_state (List.map_filter (\<lambda>src. dget src svc) sources)"
  let ?svcs = "sort (dedup (concat (map dkeys sources)))"
  have W: "\<exists>w. ?W svc = Some w \<and> (\<exists>src \<in> set sources. dget src svc = Some w)
      \<and> ss_state w = three_valued (\<exists>src \<in> set sources. \<exists>x. dget src svc = Some x \<and> ss_state x = Some st_present)
            (\<exists>src \<in> set sources. \<exists>x. dget src svc = Some x \<and> ss_state x = Some st_absent)"
    if svc: "svc \<in> set ?svcs" for svc
  proof -
    let ?xs = "List.map_filter (\<lambda>src. dget src svc) sources"
    from svc obtain src where "src \<in> set sources" "svc \<in> fst ` set src" by auto
    then obtain x where "dget src svc = Some x" using dget_None_iff [of src svc] by (cases "dget src svc") auto
    with \<open>src \<in> set sources\<close> have "x \<in> set ?xs" by (auto simp: set_map_filter)
    then have "?xs \<noteq> []" by auto
    moreover have "\<forall>x \<in> set ?xs. ss_state x \<in> {None, Some st_present, Some st_absent}"
      using assms by (force simp: set_map_filter dest: map_of_SomeD)
    ultimately obtain w where "?W svc = Some w" "w \<in> set ?xs"
      "ss_state w = three_valued (\<exists>x \<in> set ?xs. ss_state x = Some st_present) (\<exists>x \<in> set ?xs. ss_state x = Some st_absent)"
      using witness_of_state [of ?xs ss_state] by blast
    then show ?thesis by (intro exI [of _ w]) (auto simp: set_map_filter three_valued_def)
  qed
  then have some: "?W svc \<noteq> None" if "svc \<in> set ?svcs" for svc using that by fastforce
  have keys: "map fst (List.map_filter (\<lambda>svc. map_option (Pair svc) (g svc)) xs) = xs" if "\<forall>x \<in> set xs. g x \<noteq> None"
    for g :: "string \<Rightarrow> service_signal option" and xs
    using that by (induction xs) (auto simp: List.map_filter_simps)
  have k: "map fst (combine_signals sources) = ?svcs"
    using keys [of ?svcs ?W] some unfolding combine_signals_def Let_def by blast
  have dom: "fst ` set (combine_signals sources) = (\<Union>src \<in> set sources. fst ` set src)"
    using arg_cong [OF k, of set] by simp
  have sorted: "sorted_wrt (<) (map fst (combine_signals sources))" unfolding k by (simp add: strict_sorted_iff)
  show ?thesis
  proof (intro conjI ballI)
    fix z assume "z \<in> set (combine_signals sources)"
    then obtain x where x: "x \<in> set ?svcs" "map_option (Pair x) (?W x) = Some z"
      unfolding combine_signals_def Let_def set_map_filter by blast
    from x(2) have "fst z = x \<and> ?W x = Some (snd z)" by auto
    with x(1) have "fst z \<in> set ?svcs \<and> ?W (fst z) = Some (snd z)" by blast
    with W [of "fst z"]
    show "case z of (svc, s) \<Rightarrow> (\<exists>src \<in> set sources. dget src svc = Some s)
        \<and> ss_state s = three_valued (\<exists>src \<in> set sources. \<exists>x. dget src svc = Some x \<and> ss_state x = Some st_present)
            (\<exists>src \<in> set sources. \<exists>x. dget src svc = Some x \<and> ss_state x = Some st_absent)"
      unfolding case_prod_unfold by (metis (no_types, lifting) option.inject)
  qed (rule sorted, rule dom)
qed

text \<open>One anomalous service with a silent callee.\<close>

definition example_signal :: "string \<Rightarrow> string option \<Rightarrow> service_signal" where
  "example_signal svc st =
     \<lparr>ss_service = svc, ss_branches = \<lparr>br_error_rate = 1/2, br_latency_ratio = 1, br_error_measured = True,
        br_latency_measured = True, br_state = st\<rparr>\<rparr>"

definition example_inputs :: "string \<Rightarrow> structural_inputs" where
  "example_inputs svc =
     \<lparr>si_signals = [(svc, example_signal svc (Some st_present))], si_edges = [(svc, ''db'')],
      si_edge_signals = [], si_util_signals = []\<rparr>"

theorem resolve_structural_total_witness:
  "\<exists>r p. resolve_structural (example_inputs ''api'') = Inr (Some (r, p))
     \<and> set (sr_localization r) = {''api'', ''db''} \<and> sr_outcome r \<noteq> IDENTIFIED"
proof -
  have wf: "wf_inputs (example_inputs ''api'')" by (simp add: wf_inputs_def example_inputs_def dict_wf_def)
  have cs: "inputs_candidates (example_inputs ''api'') = [''api'', ''db'']"
    by (simp add: candidate_services_def example_inputs_def example_signal_def anomalous_services_def ss_anomalous_def
        ss_state_def callees_def)
  show ?thesis using resolve_structural_total [OF wf] unfolding cs by auto
qed

theorem combine_signals_priority_witness:
  "fst ` set (combine_signals [[(''api'', example_signal ''api'' None)], [(''api'', example_signal ''api'' (Some st_present))]])
     = {''api''}
   \<and> list_all (\<lambda>z. ss_state (snd z) = Some st_present)
        (combine_signals [[(''api'', example_signal ''api'' None)], [(''api'', example_signal ''api'' (Some st_present))]])"
proof -
  let ?src = "[[(''api'', example_signal ''api'' None)], [(''api'', example_signal ''api'' (Some st_present))]]"
  have "\<forall>src \<in> set ?src. \<forall>s \<in> set (dvals src). ss_state s \<in> {None, Some st_present, Some st_absent}"
    by (simp add: example_signal_def ss_state_def)
  note prio = combine_signals_priority [OF this]
  then have dom: "fst ` set (combine_signals ?src) = {''api''}" by simp
  have hit: "\<exists>src \<in> set ?src. \<exists>x. dget src ''api'' = Some x \<and> ss_state x = Some st_present"
    by (simp add: example_signal_def ss_state_def)
  have "ss_state (snd z) = Some st_present" if "z \<in> set (combine_signals ?src)" for z
  proof -
    have "fst z = ''api''" using dom that by blast
    with that have mem: "(''api'', snd z) \<in> set (combine_signals ?src)" by (metis prod.collapse)
    show ?thesis
      using prio [THEN conjunct2, THEN conjunct2, THEN bspec, OF mem, unfolded prod.case] hit
      unfolding three_valued_def by argo
  qed
  with dom show ?thesis unfolding list_all_iff by blast
qed

text \<open>
  a service whose name is the empty string and whose signal is anomalous makes the whole structural run
  raise, whatever the rest of the telemetry, because a hypothesis must have a non-empty localization; the
  metric summary keeps such services, which the span summary drops.
\<close>

theorem empty_service_aborts:
  assumes "([], sig) \<in> set (si_signals inp)" and "ss_anomalous sig"
  shows "\<exists>msg. resolve_structural inp = Inl (ValueError msg)"
proof -
  let ?cs = "inputs_candidates inp"
  let ?F = "\<lambda>svc. hypothesis_for (expected_extra (si_edge_signals inp) (si_util_signals inp) svc) svc"
  have "[] \<in> set ?cs" using assms unfolding candidates_set by blast
  then obtain rest where cs: "?cs = [] # rest"
    using candidates_distinct(2) [of "si_signals inp" "si_edges inp" "si_edge_signals inp" "si_util_signals inp"]
    by (cases ?cs) auto
  have "\<exists>msg. hypothesis_for extra [] = Inl (ValueError msg)" for extra
  proof (cases "rmap (\<lambda>oid. ExpectedObservation_init (VStr oid) (VStr st_present) (VStr ''maybe'')) ((''sig:'' @ []) # sort extra)")
    case (Inl e)
    from rmap_Inl_D [OF Inl] have "\<exists>msg. e = ValueError msg"
      by (auto simp: res_simps ExpectedObservation_init_def need_def split: if_splits option.splits)
    with Inl show ?thesis by (auto simp: hypothesis_for_def)
  next
    case (Inr es)
    have "\<exists>msg. e = ValueError msg" if "ObservationModel_init es [] = Inl e" for e
      using that by (auto simp: ObservationModel_init_def res_simps Let_def)
    with Inr show ?thesis
      by (cases "ObservationModel_init es []")
        (auto simp: hypothesis_for_def from_observation_model_def Hypothesis_init_def)
  qed
  then obtain msg where
    "hypothesis_for (expected_extra (si_edge_signals inp) (si_util_signals inp) []) [] = Inl (ValueError msg)" by blast
  then show ?thesis by (auto simp: resolve_structural_def build_hypotheses_def cs)
qed

theorem empty_service_aborts_witness: "\<exists>msg. resolve_structural (example_inputs []) = Inl (ValueError msg)"
  using empty_service_aborts [of "example_signal [] (Some st_present)" "example_inputs []"]
  by (simp add: example_inputs_def example_signal_def ss_anomalous_def ss_state_def)

end
