(* ===== verification/Propagation.thy ===== *)
theory Propagation
  imports ServiceGraphs StructuralModel
begin

text \<open>
  The trace-graph propagation reranker (\<open>src/core/rca/propagation.py\<close>): bounded hop distances, the
  attribution of failed calls to the dependency they were calling, the two score adjustments and the
  reordering of candidates. Scores are real numbers. The order in which Python iterates a set is not
  observable: it only feeds sums and dictionaries read by key.
\<close>

section \<open>Hop distances\<close>

definition uadj :: "(string \<times> string) list \<Rightarrow> string \<Rightarrow> string list" where
  "uadj edges node = dedup (adj edges node @ adj (map (\<lambda>(a, b). (b, a)) edges) node)"

function hops_loop ::
  "(string \<times> string) list \<Rightarrow> nat \<Rightarrow> string list \<Rightarrow> (string, nat) dict \<Rightarrow> (string \<times> nat) list \<Rightarrow> (string, nat) dict" where
  "hops_loop edges max_hops seen found [] = found"
| "hops_loop edges max_hops seen found ((node, d) # q) =
     (if max_hops \<le> d then hops_loop edges max_hops seen found q
      else let new = filter (\<lambda>n. n \<notin> set seen) (uadj edges node);
               hits = map (\<lambda>n. (n, d + 1)) new in
        hops_loop edges max_hops (seen @ new) (found @ hits) (q @ hits))"
  by pat_completeness auto

lemma set_uadj: "set (uadj edges node) = {n. (node, n) \<in> set edges \<or> (n, node) \<in> set edges}"
  by (auto simp: uadj_def set_adj)

lemma new_hops_measure:
  fixes edges seen node
  defines "ends \<equiv> snd ` set (edges @ map (\<lambda>(a, b). (b, a)) edges)"
    and "new \<equiv> filter (\<lambda>n. n \<notin> set seen) (uadj edges node)"
  shows "card (ends - set (seen @ new)) + length new = card (ends - set seen)"
  unfolding ends_def new_def
proof (rule new_measure)
  show "set (filter (\<lambda>n. n \<notin> set seen) (uadj edges node)) \<subseteq> snd ` set (edges @ map (\<lambda>(a, b). (b, a)) edges)"
  proof
    fix n assume "n \<in> set (filter (\<lambda>n. n \<notin> set seen) (uadj edges node))"
    then consider "(node, n) \<in> set edges" | "(n, node) \<in> set edges" by (auto simp: set_uadj)
    then show "n \<in> snd ` set (edges @ map (\<lambda>(a, b). (b, a)) edges)"
    proof cases
      case 2
      then have "(node, n) \<in> set (map (\<lambda>(a, b). (b, a)) edges)" by force
      then show ?thesis by (metis Un_iff image_eqI set_append snd_conv)
    qed force
  qed
qed (auto simp: uadj_def)

termination hops_loop
proof (relation "measure (\<lambda>(edges, m, seen, found, q).
    length q + 2 * card (snd ` set (edges @ map (\<lambda>(a, b). (b, a)) edges) - set seen))", goal_cases)
  case (3 edges m seen found node d q new hits)
  with new_hops_measure [of edges seen node] show ?case by simp
qed simp_all

definition undirected_hops :: "service_graph \<Rightarrow> string \<Rightarrow> nat \<Rightarrow> (string, nat) dict" where
  "undirected_hops g src max_hops =
     (if src \<notin> set (sg_services g) then []
      else hops_loop (sg_edges g) max_hops [src] [] [(src, 0)])"

definition calls :: "service_graph \<Rightarrow> string \<Rightarrow> string \<Rightarrow> bool" where
  "calls g a b = ((a, b) \<in> set (sg_edges g))"

section \<open>Failed calls\<close>

type_synonym error_row = "string option \<times> string option \<times> string option \<times> pyval"

definition is_error_status :: "pyval \<Rightarrow> bool" where
  "is_error_status sc = (case status_text sc of None \<Rightarrow> False | Some t \<Rightarrow> lower_str (strip_str t) \<in> set ERROR_STATUS)"

definition score_add :: "string \<Rightarrow> real \<Rightarrow> (string, real) dict \<Rightarrow> (string, real) dict" where
  "score_add k v d = dset k (dget_or d k 0 + v) d"

fun edge_step ::
  "(string, string list) dict \<times> (string \<times> string) list \<Rightarrow> error_row \<Rightarrow> (string, string list) dict \<times> (string \<times> string) list"
where
  "edge_step (children, errors) (Some i, p, Some s, status) =
     (if s = [] then (children, errors)
      else (case p of None \<Rightarrow> children | Some pid \<Rightarrow> dict_append pid s children,
            if is_error_status status then errors @ [(i, s)] else errors))"
| "edge_step a _ = a"

definition attribute_error :: "(string, string list) dict \<Rightarrow> (string, real) dict \<Rightarrow> string \<times> string \<Rightarrow> (string, real) dict" where
  "attribute_error children score e =
     (let callees = dedup (filter (\<lambda>c. c \<noteq> snd e) (dget_or children (fst e) [])) in
      if callees \<noteq> [] then fold (\<lambda>c d. score_add c (1 / of_nat (length callees)) d) callees score
      else score_add (snd e) 1 score)"

definition failed_edge_dependencies :: "error_row list \<Rightarrow> (string, real) dict" where
  "failed_edge_dependencies rows =
     (let (children, errors) = foldl edge_step ([], []) rows in
      foldl (attribute_error children) [] errors)"

section \<open>Score adjustment\<close>

record rerank_params =
  rp_dependency_gamma :: real
  rp_blend :: real
  rp_proximity_decay :: real
  rp_min_onset_gap :: real
  rp_direction_weight :: real
  rp_max_hops :: nat

definition DEFAULT_RERANK :: rerank_params where
  "DEFAULT_RERANK =
     \<lparr>rp_dependency_gamma = 1, rp_blend = 1/4, rp_proximity_decay = 1/2, rp_min_onset_gap = 1,
      rp_direction_weight = 0, rp_max_hops = 2\<rparr>"

definition or_one :: "real \<Rightarrow> real" where
  "or_one x = (if x = 0 then 1 else x)"

definition by_score :: "(string \<times> real) list \<Rightarrow> (string \<times> real) list" where
  "by_score xs = sort_key (\<lambda>t. (- snd t, fst t)) xs"

definition neighbour_term ::
  "rerank_params \<Rightarrow> service_graph \<Rightarrow> (string, real) dict \<Rightarrow> (string, real) dict \<Rightarrow> real \<Rightarrow> string \<Rightarrow> string \<times> nat \<Rightarrow> real" where
  "neighbour_term rp g onset anomaly max_mag s nd =
     (let n = fst nd; w = rp_proximity_decay rp ^ (snd nd - 1) * (dget_or anomaly n 0 / max_mag);
          fallback = (if rp_direction_weight rp \<noteq> 0 then
              if calls g n s then rp_direction_weight rp * w
              else if calls g s n then - (rp_direction_weight rp * w) else 0
            else 0) in
      case (dget onset s, dget onset n) of
        (Some os, Some on) \<Rightarrow>
          if \<bar>on - os\<bar> > rp_min_onset_gap rp then if os < on then w else - w
          else fallback
      | _ \<Rightarrow> fallback)"

definition adjustment ::
  "rerank_params \<Rightarrow> service_graph \<Rightarrow> (string, real) dict \<Rightarrow> (string, real) dict \<Rightarrow> string list \<Rightarrow> real \<Rightarrow> string \<Rightarrow> real" where
  "adjustment rp g onset anomaly anomalous max_mag s =
     foldl (\<lambda>a nd. if fst nd \<in> set anomalous then a + neighbour_term rp g onset anomaly max_mag s nd else a) 0
       (undirected_hops g s (rp_max_hops rp))"

definition propagation_scores ::
  "rerank_params \<Rightarrow> (string, real) dict \<Rightarrow> (string \<times> real) list \<Rightarrow> service_graph \<Rightarrow> (string, real) dict
   \<Rightarrow> (string, real) dict \<Rightarrow> (string \<times> real) list" where
  "propagation_scores rp dep scored g onset anomaly =
     (if sg_empty g \<or> length scored < 2 then by_score scored
      else
        let dep_max = or_one (max_or 0 (dvals dep));
            anomalous = dedup (map fst (filter (\<lambda>t. dget_or anomaly (fst t) 0 > 0) scored));
            onset_active = (length anomalous \<ge> 2) in
        if \<not> onset_active \<and> dep = [] then by_score scored
        else
          let max_mag = or_one (max_or 0 (map (\<lambda>s. dget_or anomaly s 0) anomalous)) in
          by_score (map (\<lambda>(s, base).
            let score = (if onset_active \<and> s \<in> set anomalous
                  then base * (1 + rp_blend rp * tanh (adjustment rp g onset anomaly anomalous max_mag s))
                  else base) in
            (s, if dep \<noteq> [] then score + rp_dependency_gamma rp * (dget_or dep s 0 / dep_max) else score)) scored))"

definition combine_log_trace_evidence ::
  "(string, real) dict \<Rightarrow> (string, real) dict \<Rightarrow> (string, real \<times> real) dict \<Rightarrow> (string, real) dict \<times> (string, real) dict" where
  "combine_log_trace_evidence log_onset log_err trace_sym =
     (let services = dedup (dkeys log_err @ dkeys trace_sym);
          from_log = (\<lambda>s. dget_or log_err s 0 > 0) in
      (List.map_filter (\<lambda>s. map_option (Pair s)
         (if from_log s then dget log_onset s else map_option fst (dget trace_sym s))) services,
       List.map_filter (\<lambda>s. map_option (Pair s)
         (if from_log s then Some (dget_or log_err s 0) else map_option snd (dget trace_sym s))) services))"

definition rerank_candidates ::
  "rerank_params \<Rightarrow> (string, real) dict \<Rightarrow> candidate list \<Rightarrow> service_graph \<Rightarrow> (string, real) dict
   \<Rightarrow> (string, real) dict option \<Rightarrow> candidate list res" where
  "rerank_candidates rp dep candidates g onset anomaly =
     (let anomaly' = (case anomaly of
            Some a \<Rightarrow> a
          | None \<Rightarrow> dict_of (map (\<lambda>c. (ca_service c, of_int (sf_log_err (ca_features c)))) candidates));
          by_service = dict_of (map (\<lambda>c. (ca_service c, c)) candidates);
          scored = map (\<lambda>c. (ca_service c, ca_score c)) candidates in
      rmap (\<lambda>(s, _). case dget by_service s of Some c \<Rightarrow> Inr c | None \<Rightarrow> Inl (KeyError s))
        (propagation_scores rp dep scored g onset anomaly'))"

section \<open>Facts\<close>

interpretation rerank: ranking by_score "\<lambda>t. (- snd t, fst t)"
  by unfold_locales (simp_all add: by_score_def)

text \<open>Walks of a given length in the undirected graph.\<close>

definition und :: "(string \<times> string) list \<Rightarrow> (string \<times> string) set" where
  "und edges = set edges \<union> (set edges)\<inverse>"

lemma und_uadj: "n \<in> set (uadj edges node) \<longleftrightarrow> (node, n) \<in> und edges"
  by (auto simp: set_uadj und_def)

lemma hops_loop_sound:
  assumes "\<forall>(x, k) \<in> set found. 1 \<le> k \<and> k \<le> m \<and> (src, x) \<in> und edges ^^ k"
    and "\<forall>(x, k) \<in> set q. (src, x) \<in> und edges ^^ k"
  shows "\<forall>(x, k) \<in> set (hops_loop edges m seen found q). 1 \<le> k \<and> k \<le> m \<and> (src, x) \<in> und edges ^^ k"
  using assms
proof (induction edges m seen found q rule: hops_loop.induct)
  case (1 edges m seen found)
  then show ?case by simp
next
  case (2 edges m seen found node d q)
  show ?case
  proof (cases "m \<le> d")
    case True
    with 2(1) [OF True] 2(3,4) show ?thesis by simp
  next
    case False
    let ?new = "filter (\<lambda>n. n \<notin> set seen) (uadj edges node)"
    let ?hits = "map (\<lambda>n. (n, d + 1)) ?new"
    have "(src, node) \<in> und edges ^^ d" using 2(4) by simp
    then have hit: "(src, n) \<in> und edges ^^ (d + 1)" if "n \<in> set ?new" for n
      using that by (auto simp: und_uadj)
    then have "\<forall>(x, k) \<in> set ?hits. 1 \<le> k \<and> k \<le> m \<and> (src, x) \<in> und edges ^^ k"
      using False by auto
    with 2(3,4) hit have "\<forall>(x, k) \<in> set (found @ ?hits). 1 \<le> k \<and> k \<le> m \<and> (src, x) \<in> und edges ^^ k"
      and "\<forall>(x, k) \<in> set (q @ ?hits). (src, x) \<in> und edges ^^ k" by auto
    from 2(2) [OF False refl refl this] False show ?thesis by (simp add: Let_def)
  qed
qed

section \<open>Properties\<close>

text \<open>
  the hop distances used by the reranker stay within the bound, are at least one, and each is the
  length of a walk between the two services in the undirected call graph.
\<close>

theorem undirected_hops_sound:
  "(x, k) \<in> set (undirected_hops g src m) \<Longrightarrow>
   1 \<le> k \<and> k \<le> m \<and> (src, x) \<in> (set (sg_edges g) \<union> (set (sg_edges g))\<inverse>) ^^ k"
  using hops_loop_sound [of "[]" m src "sg_edges g" "[(src, 0)]" "[src]"]
  by (auto simp: undirected_hops_def und_def split: if_splits)

lemma sum_score_add: "sum_list (dvals (score_add k v d)) = sum_list (dvals d) + v"
  by (induction d) (auto simp: score_add_def dget_or_def split: option.splits)

lemma sum_fold_score_add:
  "sum_list (dvals (fold (\<lambda>c d. score_add c v d) cs d)) = sum_list (dvals d) + of_nat (length cs) * v"
  by (induction cs arbitrary: d) (simp_all add: sum_score_add algebra_simps)

lemma sum_attribute_error: "sum_list (dvals (attribute_error children score e)) = sum_list (dvals score) + 1"
proof -
  let ?cs = "dedup (filter (\<lambda>c. c \<noteq> snd e) (dget_or children (fst e) []))"
  have "?cs \<noteq> [] \<Longrightarrow> of_nat (length ?cs) * (1 / of_nat (length ?cs)) = (1::real)" by simp
  then show ?thesis unfolding attribute_error_def Let_def sum_fold_score_add if_distrib sum_score_add
    by (simp add: sum_fold_score_add sum_score_add)
qed

definition error_rows :: "error_row list \<Rightarrow> error_row list" where
  "error_rows rows = filter (\<lambda>(i, p, s, st). i \<noteq> None \<and> truthy_str s \<and> is_error_status st) rows"

lemma errors_collected: "length (snd (foldl edge_step a rows)) = length (snd a) + length (error_rows rows)"
proof (induction rows arbitrary: a)
  case Nil
  then show ?case by (simp add: error_rows_def)
next
  case (Cons r rows)
  obtain c e where a: "a = (c, e)" by (cases a)
  obtain i p s st where r: "r = (i, p, s, st)" by (cases r)
  show ?case
    by (cases i; cases s) (auto simp: Cons.IH a r error_rows_def truthy_str_def)
qed

text \<open>
  attribution conserves weight: whatever the fan-out, the scores of all implicated services add up to
  the number of error spans, so an ambiguous error span is split and never counted more than once.
\<close>

theorem failed_edge_weight_conserved:
  "sum_list (dvals (failed_edge_dependencies rows)) = of_nat (length (error_rows rows))"
proof -
  have "sum_list (dvals (foldl (attribute_error ch) sc es)) = sum_list (dvals sc) + of_nat (length es)" for ch sc es
    by (induction es arbitrary: sc) (simp_all add: sum_attribute_error)
  moreover have "length (snd (foldl edge_step ([], []) rows)) = length (error_rows rows)"
    using errors_collected [of "([], [])" rows] by simp
  ultimately show ?thesis by (simp add: failed_edge_dependencies_def case_prod_unfold Let_def)
qed

lemma tanh_band: "0 \<le> b \<Longrightarrow> \<bar>x * (1 + b * tanh (y::real)) - x\<bar> \<le> b * \<bar>x\<bar>"
proof -
  assume b: "0 \<le> b"
  have "\<bar>tanh y\<bar> \<le> 1" using tanh_real_bounds [of y] by (simp add: abs_le_iff)
  then have "\<bar>x * b * tanh y\<bar> \<le> \<bar>x * b\<bar> * 1" unfolding abs_mult by (intro mult_left_mono) simp_all
  then show ?thesis using b by (simp add: algebra_simps abs_mult)
qed

text \<open>
  without a dependency boost the reranker only reorders: it keeps every service, sorts by descending
  adjusted score and then name, and moves no score by more than the blend's share of it; so a service whose
  lead exceeds both bands keeps its lead.
\<close>

theorem propagation_band:
  assumes "0 \<le> rp_blend rp"
  shows "mset (map fst (propagation_scores rp [] scored g onset anomaly)) = mset (map fst scored)
    \<and> sorted (map (\<lambda>t. (- snd t, fst t)) (propagation_scores rp [] scored g onset anomaly))
    \<and> (\<forall>(s, new) \<in> set (propagation_scores rp [] scored g onset anomaly).
         \<exists>base. (s, base) \<in> set scored \<and> \<bar>new - base\<bar> \<le> rp_blend rp * \<bar>base\<bar>)"
proof -
  let ?an = "dedup (map fst (filter (\<lambda>t. dget_or anomaly (fst t) 0 > 0) scored))"
  let ?mm = "or_one (max_or 0 (map (\<lambda>s. dget_or anomaly s 0) ?an))"
  let ?f = "\<lambda>s base. if length ?an \<ge> 2 \<and> s \<in> set ?an
      then base * (1 + rp_blend rp * tanh (adjustment rp g onset anomaly ?an ?mm s)) else base"
  have "propagation_scores rp [] scored g onset anomaly = by_score scored
      \<or> propagation_scores rp [] scored g onset anomaly = by_score (map (\<lambda>(s, base). (s, ?f s base)) scored)"
    by (simp add: propagation_scores_def Let_def)
  moreover have "scored = map (\<lambda>(s, base). (s, base)) scored" by simp
  ultimately have "\<exists>f. propagation_scores rp [] scored g onset anomaly = by_score (map (\<lambda>(s, base). (s, f s base)) scored)
      \<and> (\<forall>s base. \<bar>f s base - base\<bar> \<le> rp_blend rp * \<bar>base\<bar>)"
  proof (elim disjE)
    assume "propagation_scores rp [] scored g onset anomaly = by_score scored"
    then show ?thesis using assms by (intro exI [of _ "\<lambda>s base. base"]) simp
  next
    assume "propagation_scores rp [] scored g onset anomaly = by_score (map (\<lambda>(s, base). (s, ?f s base)) scored)"
    then show ?thesis using tanh_band [OF assms] assms by (intro exI [of _ ?f]) simp
  qed
  then obtain f where f: "propagation_scores rp [] scored g onset anomaly = by_score (map (\<lambda>(s, base). (s, f s base)) scored)"
    and band: "\<And>s base. \<bar>f s base - base\<bar> \<le> rp_blend rp * \<bar>base\<bar>" by blast
  have "mset (map fst (by_score (map (\<lambda>(s, base). (s, f s base)) scored))) = mset (map fst scored)"
    using rerank.rank_mset [of "map (\<lambda>(s, base). (s, f s base)) scored"] 
    by (simp add: by_score_def case_prod_unfold multiset.map_comp comp_def)
  then show ?thesis unfolding f using band by (auto simp: rerank.rank_sorted rerank.rank_set)
qed

lemma distinct_lookup: "distinct (map f xs) \<Longrightarrow> x \<in> set xs \<Longrightarrow> dget (dict_of (map (\<lambda>c. (f c, c)) xs)) (f x) = Some x"
  by (subst dict_of_distinct) (simp_all add: comp_def dget_wf_iff dict_wf_def)

lemma propagation_services: "mset (map fst (propagation_scores rp dep scored g onset anomaly)) = mset (map fst scored)"
proof -
  have keep: "mset (map fst (by_score xs)) = mset (map fst xs)" for xs
    using rerank.rank_mset [of xs] by (simp add: by_score_def)
  show ?thesis by (simp add: propagation_scores_def Let_def keep del: mset_map) (simp add: case_prod_unfold comp_def)
qed

text \<open>
  reranking candidates of distinct services never raises and returns the same candidates, scores and
  evidence untouched, in another order.
\<close>

theorem rerank_candidates_permutes:
  assumes "distinct (map ca_service cs)"
  shows "\<exists>rs. rerank_candidates rp dep cs g onset anomaly = Inr rs \<and> mset rs = mset cs"
proof -
  define an where "an = (case anomaly of Some a \<Rightarrow> a
    | None \<Rightarrow> dict_of (map (\<lambda>c. (ca_service c, real_of_int (sf_log_err (ca_features c)))) cs))"
  define ord where "ord = propagation_scores rp dep (map (\<lambda>c. (ca_service c, ca_score c)) cs) g onset an"
  let ?by = "dict_of (map (\<lambda>c. (ca_service c, c)) cs)"
  let ?pick = "\<lambda>t. the (dget ?by (fst t))"
  have ms: "mset (map fst ord) = mset (map ca_service cs)"
    unfolding ord_def propagation_services by (simp add: comp_def)
  have look: "dget ?by (ca_service c) = Some c" if "c \<in> set cs" for c
    using distinct_lookup [OF assms that] .
  have "rmap (\<lambda>(s, x). case dget ?by s of Some c \<Rightarrow> Inr c | None \<Rightarrow> Inl (KeyError s)) ord = Inr (map ?pick ord)"
  proof (rule rmap_Inr_map)
    fix t assume "t \<in> set ord"
    then have "fst t \<in> set (map ca_service cs)" using ms by (metis image_eqI set_map set_mset_mset)
    then obtain c where "c \<in> set cs" "fst t = ca_service c" by auto
    with look [of c] show "(case t of (s, x) \<Rightarrow> case dget ?by s of Some c \<Rightarrow> Inr c | None \<Rightarrow> Inl (KeyError s)) = Inr (?pick t)"
      by (simp add: case_prod_unfold)
  qed
  moreover have "mset (map ?pick ord) = mset cs"
  proof -
    have "mset (map ?pick ord) = image_mset (\<lambda>s. the (dget ?by s)) (mset (map fst ord))" by (simp add: multiset.map_comp comp_def)
    also have "\<dots> = mset (map (\<lambda>c. the (dget ?by (ca_service c))) cs)" unfolding ms by (simp add: multiset.map_comp comp_def)
    also have "map (\<lambda>c. the (dget ?by (ca_service c))) cs = cs" using look by (simp add: map_idI)
    finally show ?thesis .
  qed
  ultimately show ?thesis by (simp add: rerank_candidates_def Let_def an_def ord_def)
qed

section \<open>Witnesses\<close>

definition example_graph :: service_graph where
  "example_graph = \<lparr>sg_edges = [(''web'', ''db'')], sg_services = [''web'', ''db'']\<rparr>"

theorem undirected_hops_sound_witness:
  "1 \<le> (1::nat) \<and> (''db'', ''web'') \<in> (set (sg_edges example_graph) \<union> (set (sg_edges example_graph))\<inverse>) ^^ 1"
proof -
  have "(''web'', 1) \<in> set (undirected_hops example_graph ''db'' 2)"
    by (simp add: undirected_hops_def example_graph_def uadj_def adj_def)
  from undirected_hops_sound [OF this] show ?thesis by simp
qed

theorem propagation_band_witness:
  "mset (map fst (propagation_scores DEFAULT_RERANK [] [(''web'', 1), (''db'', 2)] example_graph [] [])) = {#''db'', ''web''#}
   \<and> sorted (map (\<lambda>t. (- snd t, fst t)) (propagation_scores DEFAULT_RERANK [] [(''web'', 1), (''db'', 2)] example_graph [] []))"
proof -
  have "0 \<le> rp_blend DEFAULT_RERANK" by (simp add: DEFAULT_RERANK_def)
  from propagation_band [OF this, of "[(''web'', 1), (''db'', 2)]" example_graph "[]" "[]"]
  show ?thesis by simp
qed

theorem rerank_candidates_permutes_witness:
  "\<exists>rs. rerank_candidates DEFAULT_RERANK [] (build_candidates example_table default_scorer {}) example_graph [] None = Inr rs
     \<and> mset (map ca_service rs) = {#''api'', ''web'', ''proxy''#}"
proof -
  have svc: "map ca_service (build_candidates example_table default_scorer {}) = [''proxy'', ''api'', ''web'']"
    by (simp add: build_candidates_def rank_candidates_def example_table_def example_row_def
        default_scorer_def mk_candidate_def)
  then have "distinct (map ca_service (build_candidates example_table default_scorer {}))" by simp
  from rerank_candidates_permutes [OF this]
  obtain rs where rs: "rerank_candidates DEFAULT_RERANK [] (build_candidates example_table default_scorer {}) example_graph [] None = Inr rs"
    and ms: "mset rs = mset (build_candidates example_table default_scorer {})" by blast
  have "mset (map ca_service rs) = mset (map ca_service (build_candidates example_table default_scorer {}))"
    using ms by simp
  also have "\<dots> = {#''api'', ''web'', ''proxy''#}" unfolding svc by simp
  finally show ?thesis using rs by blast
qed

end
