(* ===== verification/Regexes.thy ===== *)
theory Regexes
  imports PyValues
begin

text \<open>
  The part of Python's \<open>re\<close> the sources use, as an executable backtracking matcher. A position of a
  subject string is the character before it (none at the start) and the rest of the string; \<open>ends r p\<close>
  lists the positions where a match of \<open>r\<close> from \<open>p\<close> can end, in the order the engine tries them, so its
  head is the match Python reports. Repetitions are greedy, and an iteration that consumes nothing ends
  the repetition.
\<close>

section \<open>Patterns\<close>

type_synonym position = "char option \<times> string"

datatype regex =
    Eps
  | Chars "char \<Rightarrow> bool"
  | Seq regex regex
  | Alt regex regex
  | Star regex
  | Boundary
  | End
  | Look regex

definition is_word :: "char \<Rightarrow> bool" where
  "is_word c =
     (let n = (of_char c :: nat) in
      (48 \<le> n \<and> n \<le> 57) \<or> (65 \<le> n \<and> n \<le> 90) \<or> n = 95 \<or> (97 \<le> n \<and> n \<le> 122)
      \<or> n = 170 \<or> n = 178 \<or> n = 179 \<or> n = 181 \<or> n = 185 \<or> n = 186 \<or> (188 \<le> n \<and> n \<le> 190)
      \<or> (192 \<le> n \<and> n \<le> 214) \<or> (216 \<le> n \<and> n \<le> 246) \<or> 248 \<le> n)"

fun at_boundary :: "position \<Rightarrow> bool" where
  "at_boundary (prev, rest) =
     ((case prev of None \<Rightarrow> False | Some c \<Rightarrow> is_word c) \<noteq> (case rest of [] \<Rightarrow> False | c # _ \<Rightarrow> is_word c))"

text \<open>\<open>$\<close>: at the end, or before a newline that ends the subject.\<close>

definition at_end :: "position \<Rightarrow> bool" where
  "at_end p \<longleftrightarrow> snd p = [] \<or> snd p = [CHR 0x0A]"

fun chars_end :: "(char \<Rightarrow> bool) \<Rightarrow> position \<Rightarrow> position list" where
  "chars_end p (prev, c # rest) = (if p c then [(Some c, rest)] else [])"
| "chars_end p (prev, []) = []"

function (sequential) ends :: "regex \<Rightarrow> position \<Rightarrow> position list" where
  "ends Eps p = [p]"
| "ends (Chars q) p = chars_end q p"
| "ends (Seq r1 r2) p = concat (map (ends r2) (ends r1 p))"
| "ends (Alt r1 r2) p = ends r1 p @ ends r2 p"
| "ends (Star r) p =
     concat (map (\<lambda>p'. if length (snd p') < length (snd p) then ends (Star r) p' else []) (ends r p)) @ [p]"
| "ends Boundary p = (if at_boundary p then [p] else [])"
| "ends End p = (if at_end p then [p] else [])"
| "ends (Look r) p = (if ends r p = [] then [] else [p])"
  by pat_completeness auto
termination
  by (relation "measures [\<lambda>(r, p). size r, \<lambda>(r, p). length (snd p)]") auto

declare ends.simps(5) [simp del]

lemma ends_Star: "set (ends (Star r) p) =
    insert p (\<Union>p' \<in> {p' \<in> set (ends r p). length (snd p') < length (snd p)}. set (ends (Star r) p'))"
  by (subst ends.simps(5)) auto

definition Plus :: "regex \<Rightarrow> regex" where "Plus r = Seq r (Star r)"
definition Opt :: "regex \<Rightarrow> regex" where "Opt r = Alt r Eps"

fun Lit :: "string \<Rightarrow> regex" where
  "Lit [] = Eps"
| "Lit (c # s) = Seq (Chars (\<lambda>x. x = c)) (Lit s)"

text \<open>A literal under \<open>re.IGNORECASE\<close>.\<close>

fun LitI :: "string \<Rightarrow> regex" where
  "LitI [] = Eps"
| "LitI (c # s) = Seq (Chars (\<lambda>x. lower_char x = lower_char c)) (LitI s)"

fun Seqs :: "regex list \<Rightarrow> regex" where
  "Seqs [] = Eps"
| "Seqs (r # rs) = Seq r (Seqs rs)"

fun Alts :: "regex list \<Rightarrow> regex" where
  "Alts [] = Chars (\<lambda>_. False)"
| "Alts [r] = r"
| "Alts (r # rs) = Alt r (Alts rs)"

text \<open>\<open>r{n}\<close>, \<open>r{n,}\<close> and \<open>r{0,n}\<close>, greedy.\<close>

definition Times :: "nat \<Rightarrow> regex \<Rightarrow> regex" where "Times n r = Seqs (replicate n r)"
definition AtLeast :: "nat \<Rightarrow> regex \<Rightarrow> regex" where "AtLeast n r = Seq (Times n r) (Star r)"

fun UpTo :: "nat \<Rightarrow> regex \<Rightarrow> regex" where
  "UpTo 0 r = Eps"
| "UpTo (Suc n) r = Opt (Seq r (UpTo n r))"

definition Between :: "nat \<Rightarrow> nat \<Rightarrow> regex \<Rightarrow> regex" where "Between m n r = Seq (Times m r) (UpTo (n - m) r)"

definition digits1 :: regex where "digits1 = Plus (Chars is_digit)"

section \<open>Searching\<close>

text \<open>\<open>pattern.search(s)\<close>: the leftmost match, as its end position.\<close>

fun search_from :: "regex \<Rightarrow> char option \<Rightarrow> string \<Rightarrow> position option" where
  "search_from r prev [] = (case ends r (prev, []) of [] \<Rightarrow> None | p # _ \<Rightarrow> Some p)"
| "search_from r prev (c # s) =
     (case ends r (prev, c # s) of [] \<Rightarrow> search_from r (Some c) s | p # _ \<Rightarrow> Some p)"

definition re_search :: "regex \<Rightarrow> string \<Rightarrow> bool" where
  "re_search r s = (search_from r None s \<noteq> None)"

text \<open>
  \<open>pattern.sub(replacement, s)\<close> for a pattern that matches no empty text: the leftmost matches that do not
  overlap are replaced.
\<close>

function sub_from :: "regex \<Rightarrow> string \<Rightarrow> char option \<Rightarrow> string \<Rightarrow> string" where
  "sub_from r repl prev s =
     (case s of
        [] \<Rightarrow> []
      | c # s' \<Rightarrow>
          (case filter (\<lambda>p. length (snd p) < length s) (ends r (prev, s)) of
             [] \<Rightarrow> c # sub_from r repl (Some c) s'
           | p # _ \<Rightarrow> if length (snd p) < length s then repl @ sub_from r repl (fst p) (snd p) else []))"
  by pat_completeness auto
termination
  by (relation "measure (\<lambda>(r, repl, b, s). length s)") auto

declare sub_from.simps [simp del]

definition re_sub :: "regex \<Rightarrow> string \<Rightarrow> string \<Rightarrow> string" where
  "re_sub r repl s = sub_from r repl None s"

section \<open>What the matcher computes\<close>

text \<open>The declarative meaning: \<open>matches r p p'\<close> when \<open>r\<close> matches the text between the two positions.\<close>

inductive matches :: "regex \<Rightarrow> position \<Rightarrow> position \<Rightarrow> bool" where
  eps: "matches Eps p p"
| chars: "q c \<Longrightarrow> matches (Chars q) (b, c # s) (Some c, s)"
| seq: "matches r1 p p' \<Longrightarrow> matches r2 p' p'' \<Longrightarrow> matches (Seq r1 r2) p p''"
| alt1: "matches r1 p p' \<Longrightarrow> matches (Alt r1 r2) p p'"
| alt2: "matches r2 p p' \<Longrightarrow> matches (Alt r1 r2) p p'"
| star_stop: "matches (Star r) p p"
| star_step: "matches r p p' \<Longrightarrow> matches (Star r) p' p'' \<Longrightarrow> matches (Star r) p p''"
| boundary: "at_boundary p \<Longrightarrow> matches Boundary p p"
| end_: "at_end p \<Longrightarrow> matches End p p"
| look: "matches r p p' \<Longrightarrow> matches (Look r) p p"

inductive_cases matches_cases:
  "matches Eps p p'" "matches (Chars q) p p'" "matches (Seq r1 r2) p p'" "matches (Alt r1 r2) p p'" "matches Boundary p p'" "matches End p p'" "matches (Look r) p p'"

inductive_simps matches_Seq: "matches (Seq r1 r2) p p'"
inductive_simps matches_Alt: "matches (Alt r1 r2) p p'"

text \<open>A match moves right: either nowhere or to a strictly shorter rest.\<close>

lemma matches_progress: "matches r p p' \<Longrightarrow> p' = p \<or> length (snd p') < length (snd p)"
  by (induction rule: matches.induct) auto

lemma ends_sound: "p' \<in> set (ends r p) \<Longrightarrow> matches r p p'"
proof (induction r p arbitrary: p' rule: ends.induct)
  case (2 q p)
  then show ?case by (cases p; cases "snd p") (auto intro: matches.chars split: if_splits)
next
  case (3 r1 r2 p)
  then obtain q where "q \<in> set (ends r1 p)" "p' \<in> set (ends r2 q)" by auto
  then show ?case using "3.IH" by (blast intro: matches.seq)
next
  case (5 r p)
  from "5.prems" consider "p' = p" | q where "q \<in> set (ends r p)" "length (snd q) < length (snd p)" "p' \<in> set (ends (Star r) q)"
    unfolding ends_Star [of r p] by auto
  then show ?case
  proof cases
    case 2
    then show ?thesis using "5.IH"(1) [of q] "5.IH"(2) [of q p'] by (auto intro: matches.star_step)
  qed (auto intro: matches.star_stop)
next
  case (8 r p)
  then obtain q where "q \<in> set (ends r p)" "p' = p" by (cases "ends r p") (auto split: if_splits)
  then show ?case using "8.IH" by (blast intro: matches.look)
qed (auto intro: matches.intros split: if_splits)

lemma ends_star_step:
  assumes "p' \<in> set (ends r p)" and "p'' \<in> set (ends (Star r) p')"
  shows "p'' \<in> set (ends (Star r) p)"
proof (cases "p' = p")
  case True
  with assms(2) show ?thesis by simp
next
  case False
  then have "length (snd p') < length (snd p)" using matches_progress [OF ends_sound [OF assms(1)]] by simp
  with assms show ?thesis by (subst ends_Star) blast
qed

lemma ends_complete: "matches r p p' \<Longrightarrow> p' \<in> set (ends r p)"
proof (induction rule: matches.induct)
  case (star_stop r p)
  show ?case by (subst ends_Star) simp
next
  case (star_step r p p' p'')
  from ends_star_step [OF star_step.IH] show ?case .
qed auto

lemma ends_iff: "p' \<in> set (ends r p) \<longleftrightarrow> matches r p p'"
  using ends_sound ends_complete by blast

text \<open>The position after a prefix of the subject.\<close>

fun after :: "char option \<Rightarrow> string \<Rightarrow> char option" where
  "after b [] = b"
| "after b (c # s) = after (Some c) s"

lemma search_from_None:
  "search_from r b s = None \<longleftrightarrow> (\<forall>pre post p. s = pre @ post \<longrightarrow> \<not> matches r (after b pre, post) p)"
proof (induction s arbitrary: b)
  case Nil
  then show ?case by (auto split: list.splits simp flip: ends_iff)
next
  case (Cons c s)
  have split: "(\<forall>pre post p. c # s = pre @ post \<longrightarrow> \<not> matches r (after b pre, post) p) \<longleftrightarrow>
      (\<forall>p. \<not> matches r (b, c # s) p) \<and> (\<forall>pre post p. s = pre @ post \<longrightarrow> \<not> matches r (after (Some c) pre, post) p)"
    by (auto simp: Cons_eq_append_conv) (metis after.simps)
  show ?case
    unfolding split
    by (auto simp: Cons.IH split: list.splits simp flip: ends_iff)
qed

lemma re_search_iff: "re_search r s \<longleftrightarrow> (\<exists>pre post p. s = pre @ post \<and> matches r (after None pre, post) p)"
  by (auto simp: re_search_def search_from_None)

end
