(* ===== verification/Features.thy ===== *)
theory Features
  imports Candidates Propagation MetricSignals Regexes
begin

text \<open>
  \<open>core/rca/features.py\<close>: the per-service feature table the ranker consumes, silent-service evidence
  and trace symptoms. Timestamps are integers (microseconds); durations and metric values are finite
  reals, as their database columns hold them. A query of the database is a filter of its rows.
\<close>

section \<open>Rows\<close>

record log_row =
  lr_scope :: string
  lr_service :: "string option"
  lr_level :: "string option"
  lr_timestamp :: "int option"
  lr_raw_message :: "string option"
  lr_normalized_message :: "string option"
  lr_fingerprint :: "string option"

record trace_row =
  tr_scope :: string
  tr_service :: "string option"
  tr_start_time :: "int option"
  tr_duration_ms :: "real option"

record metric_row =
  mr_scope :: string
  mr_service :: "string option"
  mr_metric :: string
  mr_value :: "real option"
  mr_ts :: "int option"
  mr_attributes :: attributes

definition ERROR_LEVELS :: "string set" where
  "ERROR_LEVELS = {''error'', ''fatal'', ''critical''}"

definition name_chars :: "char \<Rightarrow> bool" where
  "name_chars c = (is_word c \<or> c = CHR ''.'' \<or> c = CHR ''$'')"

definition STACK_RE :: regex where
  "STACK_RE =
     (let ws = Chars is_space; nl = Chars (\<lambda>c. c = char_of (10::nat)); dq = Chars (\<lambda>c. c = char_of (34::nat)) in
      Alts
       [Seqs [nl, Star ws, LitI ''at'', Plus ws, Chars (\<lambda>c. \<not> is_space c)],
        Seqs [Boundary, LitI ''at'', ws, Plus (Chars name_chars), Lit ''('',
              Star (Chars (\<lambda>c. name_chars c \<or> c = CHR '' '')), Lit '':'', Plus (Chars is_digit), Lit '')''],
        LitI ''Traceback (most recent call last)'',
        Seqs [nl, Star ws, LitI ''File '', dq, Plus (Chars (\<lambda>c. c \<noteq> char_of (34::nat))), dq, LitI '', line '', Plus (Chars is_digit)],
        Seqs [Boundary, LitI ''panic:'', ws],
        Seqs [Boundary, LitI ''goroutine'', Plus ws, Plus (Chars is_digit), Plus ws, Lit ''[''],
        LitI ''Exception in thread'',
        Seqs [LitI ''nested exception is '', Plus (Chars name_chars)]])"

definition EPS :: real where "EPS = 1 / 10 ^ 9"

text \<open>\<open>not s\<close> for an optional string.\<close>

fun named :: "string option \<Rightarrow> string option" where
  "named (Some (c # s)) = Some (c # s)"
| "named _ = None"

section \<open>Statistics\<close>

text \<open>\<open>statistics.quantiles(xs, n=20)[18]\<close>, the exclusive method.\<close>

definition quantile_19_of_20 :: "real list \<Rightarrow> real" where
  "quantile_19_of_20 xs =
     (let s = sort xs; ld = int (length xs); m = ld + 1;
          j0 = 19 * m div 20;
          j = (if j0 < 1 then 1 else if ld - 1 < j0 then ld - 1 else j0);
          delta = 19 * m - j * 20 in
      (s ! nat (j - 1) * of_int (20 - delta) + s ! nat j * of_int delta) / 20)"

definition p95 :: "real list \<Rightarrow> real" where
  "p95 xs =
     (if xs = [] then 0
      else if 20 \<le> length xs then quantile_19_of_20 xs
      else max_or 0 xs)"

definition seconds :: "int \<Rightarrow> int \<Rightarrow> real" where
  "seconds t0 t1 = max (of_int (t1 - t0) / 1000000) 1"

definition round4 :: "real \<Rightarrow> real" where
  "round4 x = of_int (round_half_even (x * 10000)) / 10000"

section \<open>Silent services\<close>

record collapse_params =
  cp_min_baseline_spans :: nat
  cp_min_expected_incident :: real
  cp_collapse_fraction :: real

definition default_collapse :: collapse_params where
  "default_collapse = \<lparr>cp_min_baseline_spans = 5, cp_min_expected_incident = 5, cp_collapse_fraction = 2 / 10\<rparr>"

definition collapsed_services ::
    "collapse_params \<Rightarrow> (string, nat) dict \<Rightarrow> (string, nat) dict \<Rightarrow> real \<Rightarrow> real \<Rightarrow> (string, real) dict" where
  "collapsed_services cp baseline_counts incident_counts baseline_seconds incident_seconds =
     (let pre = max baseline_seconds 1; post = max incident_seconds 1 in
      foldl (\<lambda>out (s, base).
         if base < cp_min_baseline_spans cp then out
         else
           let base_rate = of_nat base / pre in
           if base_rate * post < cp_min_expected_incident cp then out
           else
             let inc_rate = of_nat (counter_get incident_counts s) / post in
             if inc_rate \<le> cp_collapse_fraction cp * base_rate
             then dset s (round4 (1 - inc_rate / base_rate)) out
             else out) [] baseline_counts)"

definition in_baseline :: "int \<Rightarrow> int \<Rightarrow> int \<Rightarrow> bool" where
  "in_baseline b0 i0 t = (b0 \<le> t \<and> t < i0)"

definition in_incident :: "int \<Rightarrow> int \<Rightarrow> int \<Rightarrow> bool" where
  "in_incident i0 i1 t = (i0 \<le> t \<and> t \<le> i1)"

definition absence_step :: "int \<Rightarrow> int \<Rightarrow> int \<Rightarrow> (string, nat) dict \<times> (string, nat) dict \<Rightarrow> trace_row \<Rightarrow> (string, nat) dict \<times> (string, nat) dict" where
  "absence_step b0 i0 i1 a sp =
     (case (named (tr_service sp), tr_start_time sp) of
        (Some s, Some ts) \<Rightarrow>
          if in_baseline b0 i0 ts then (counter_add s (fst a), snd a)
          else if in_incident i0 i1 ts then (fst a, counter_add s (snd a))
          else a
      | _ \<Rightarrow> a)"

definition detect_absence :: "collapse_params \<Rightarrow> trace_row list \<Rightarrow> int \<Rightarrow> int \<Rightarrow> int \<Rightarrow> (string, real) dict" where
  "detect_absence cp spans b0 i0 i1 =
     (let pre = seconds b0 i0; post = seconds i0 i1;
          (bc, ic) = foldl (absence_step b0 i0 i1) ([], []) spans in
      collapsed_services cp bc ic pre post)"

section \<open>Log features\<close>

record log_acc =
  la_err :: "(string, nat) dict"
  la_stack :: "(string, nat) dict"
  la_grp :: "(string \<times> string option, nat) dict"

definition log_message :: "log_row \<Rightarrow> string" where
  "log_message e =
     (case named (lr_raw_message e) of
        Some m \<Rightarrow> m
      | None \<Rightarrow> (case named (lr_normalized_message e) of Some m \<Rightarrow> m | None \<Rightarrow> []))"

definition is_error_level :: "log_row \<Rightarrow> bool" where
  "is_error_level e = (lower_str (case lr_level e of None \<Rightarrow> [] | Some l \<Rightarrow> l) \<in> ERROR_LEVELS)"

definition has_stack :: "log_row \<Rightarrow> bool" where
  "has_stack e = (let msg = log_message e in msg \<noteq> [] \<and> re_search STACK_RE msg)"

definition log_step :: "int \<Rightarrow> int \<Rightarrow> log_acc \<Rightarrow> log_row \<Rightarrow> log_acc" where
  "log_step i0 i1 a e =
     (case (named (lr_service e), lr_timestamp e) of
        (Some s, Some ts) \<Rightarrow>
          if \<not> in_incident i0 i1 ts then a
          else
            let a = (if is_error_level e
                     then a\<lparr>la_err := counter_add s (la_err a), la_grp := counter_add (s, lr_fingerprint e) (la_grp a)\<rparr>
                     else a) in
            if has_stack e then a\<lparr>la_stack := counter_add s (la_stack a)\<rparr> else a
      | _ \<Rightarrow> a)"

definition log_features ::
    "log_row list \<Rightarrow> int \<Rightarrow> int \<Rightarrow> (string, nat) dict \<times> (string, nat) dict \<times> (string, nat) dict" where
  "log_features entries i0 i1 =
     (let a = foldl (log_step i0 i1) \<lparr>la_err = [], la_stack = [], la_grp = []\<rparr> entries;
          grp_by_svc = foldl (\<lambda>d ((s, fp), c). dset s (max (counter_get d s) c) d) [] (la_grp a) in
      (la_err a, grp_by_svc, la_stack a))"

section \<open>Trace features\<close>

record trace_acc =
  ta_bc :: "(string, nat) dict"
  ta_ic :: "(string, nat) dict"
  ta_bd :: "(string, real list) dict"
  ta_idur :: "(string, real list) dict"

definition trace_step :: "int \<Rightarrow> int \<Rightarrow> int \<Rightarrow> trace_acc \<Rightarrow> trace_row \<Rightarrow> trace_acc" where
  "trace_step b0 i0 i1 a sp =
     (case (named (tr_service sp), tr_start_time sp, tr_duration_ms sp) of
        (Some s, Some ts, Some d) \<Rightarrow>
          if in_baseline b0 i0 ts
          then a\<lparr>ta_bc := counter_add s (ta_bc a), ta_bd := dict_append s d (ta_bd a)\<rparr>
          else if in_incident i0 i1 ts
          then a\<lparr>ta_ic := counter_add s (ta_ic a), ta_idur := dict_append s d (ta_idur a)\<rparr>
          else a
      | _ \<Rightarrow> a)"

text \<open>A baseline percentile of exactly -1 makes the divisor of the duration ratio zero.\<close>

definition trace_features :: "trace_row list \<Rightarrow> int \<Rightarrow> int \<Rightarrow> int \<Rightarrow> ((string, real) dict \<times> (string, real) dict) res" where
  "trace_features spans b0 i0 i1 =
     (let pre = seconds b0 i0; post = seconds i0 i1;
          a = foldl (trace_step b0 i0 i1) \<lparr>ta_bc = [], ta_ic = [], ta_bd = [], ta_idur = []\<rparr> spans;
          rate = map (\<lambda>(s, n). (s, (of_nat n / post + EPS) / (of_nat (counter_get (ta_bc a) s) / pre + EPS))) (ta_ic a);
          dur = map (\<lambda>(s, n). (s, (p95 (dget_or (ta_idur a) s []) + 1) / (p95 (dget_or (ta_bd a) s []) + 1))) (ta_ic a) in
      if list_ex (\<lambda>(s, n). p95 (dget_or (ta_bd a) s []) + 1 = 0) (ta_ic a) then Inl ZeroDivisionError
      else Inr (rate, dur))"

section \<open>Trace symptoms\<close>

definition symptom_step ::
    "real \<Rightarrow> real \<Rightarrow> (string, real) dict \<times> (string, nat) dict \<Rightarrow> string option \<times> real option \<times> pyval \<Rightarrow> (string, real) dict \<times> (string, nat) dict" where
  "symptom_step i0 i1 a row =
     (case row of
        (service, Some ts, status) \<Rightarrow>
          (case named service of
             Some s \<Rightarrow>
               if \<not> is_error_status status \<or> \<not> (i0 \<le> ts \<and> ts \<le> i1) then a
               else
                 ((case dget (fst a) s of
                     None \<Rightarrow> dset s ts (fst a)
                   | Some t \<Rightarrow> if ts < t then dset s ts (fst a) else fst a),
                  counter_add s (snd a))
           | None \<Rightarrow> a)
      | _ \<Rightarrow> a)"

definition trace_symptoms :: "(string option \<times> real option \<times> pyval) list \<Rightarrow> real \<Rightarrow> real \<Rightarrow> (string, real \<times> real) dict" where
  "trace_symptoms rows i0 i1 =
     (let (onset, mag) = foldl (symptom_step i0 i1) ([], []) rows in
      map (\<lambda>(s, n). (s, (the (dget onset s), of_nat n))) mag)"

section \<open>Metric features\<close>

type_synonym series_id = "string \<times> string \<times> series"

definition metric_row_step ::
    "int \<Rightarrow> int \<Rightarrow> int \<Rightarrow> (series_id, real list) dict \<times> (series_id, real list) dict \<Rightarrow> metric_row \<Rightarrow>
     (series_id, real list) dict \<times> (series_id, real list) dict" where
  "metric_row_step b0 i0 i1 a m =
     (case (named (mr_service m), mr_ts m, mr_value m) of
        (Some s, Some ts, Some v) \<Rightarrow>
          let key = (s, mr_metric m, series_key (mr_attributes m)) in
          if in_baseline b0 i0 ts then (dict_append key v (fst a), snd a)
          else if in_incident i0 i1 ts then (fst a, dict_append key v (snd a))
          else a
      | _ \<Rightarrow> a)"

definition rmean :: "real list \<Rightarrow> real" where
  "rmean xs = sum_list xs / of_nat (length xs)"

definition change_ratio :: "real list \<Rightarrow> real list \<Rightarrow> real" where
  "change_ratio b i = \<bar>rmean i - rmean b\<bar> / (\<bar>rmean b\<bar> + EPS)"

definition metric_features :: "metric_row list \<Rightarrow> int \<Rightarrow> int \<Rightarrow> int \<Rightarrow> (string, real) dict" where
  "metric_features samples b0 i0 i1 =
     (let (base, inc) = foldl (metric_row_step b0 i0 i1) ([], []) samples in
      foldl (\<lambda>anom (key, b).
         case dget inc key of
           None \<Rightarrow> anom
         | Some i \<Rightarrow>
             if b = [] \<or> i = [] then anom
             else dset (fst key) (max (dget_or anom (fst key) 0) (change_ratio b i)) anom) [] base)"

section \<open>Assembly\<close>

definition assemble_features ::
    "(string, nat) dict \<Rightarrow> (string, nat) dict \<Rightarrow> (string, nat) dict \<Rightarrow> (string, real) dict \<Rightarrow> (string, real) dict \<Rightarrow>
     (string, real) dict \<Rightarrow> feature_table" where
  "assemble_features err grp stack rate dur anom =
     (let has_logs = err \<noteq> []; has_traces = rate \<noteq> []; has_metrics = anom \<noteq> [];
          services = sort (dedup (dkeys err @ dkeys rate @ dkeys anom)) in
      \<lparr>ft_services = map (\<lambda>s.
         \<lparr>sf_service = s, sf_log_err = int (counter_get err s), sf_log_grp = int (counter_get grp s),
          sf_log_stack = int (counter_get stack s), sf_tr_rate = dget_or rate s 0, sf_tr_dur = dget_or dur s 0,
          sf_met_anom = dget_or anom s 0, sf_has_logs = of_bool has_logs, sf_has_traces = of_bool has_traces,
          sf_has_metrics = of_bool has_metrics\<rparr>) services,
       ft_has_logs = has_logs, ft_has_traces = has_traces, ft_has_metrics = has_metrics\<rparr>)"

record telemetry_db =
  db_logs :: "log_row list"
  db_spans :: "trace_row list"
  db_metrics :: "metric_row list"

definition between :: "int \<Rightarrow> int \<Rightarrow> int option \<Rightarrow> bool" where
  "between t0 t1 t = (case t of None \<Rightarrow> False | Some x \<Rightarrow> t0 \<le> x \<and> x \<le> t1)"

definition compute_features :: "telemetry_db \<Rightarrow> string \<Rightarrow> int \<Rightarrow> int \<Rightarrow> int \<Rightarrow> feature_table res" where
  "compute_features db scope_name i0 i1 b0 =
     (let log_rows = filter (\<lambda>e. lr_scope e = scope_name \<and> between i0 i1 (lr_timestamp e)) (db_logs db);
          span_rows = filter (\<lambda>sp. tr_scope sp = scope_name \<and> between b0 i1 (tr_start_time sp)) (db_spans db);
          metric_rows = filter (\<lambda>m. mr_scope m = scope_name \<and> between b0 i1 (mr_ts m)) (db_metrics db);
          (err, grp, stack) = log_features log_rows i0 i1 in
      rbind (trace_features span_rows b0 i0 i1) (\<lambda>(rate, dur).
        let anom = metric_features metric_rows b0 i0 i1 in
        Inr (assemble_features err grp stack rate dur anom)))"

section \<open>Counting and collecting loops\<close>

definition count_step :: "('x \<Rightarrow> 'k option) \<Rightarrow> ('k, nat) dict \<Rightarrow> 'x \<Rightarrow> ('k, nat) dict" where
  "count_step f d x = (case f x of None \<Rightarrow> d | Some k \<Rightarrow> counter_add k d)"

definition collect_step :: "('x \<Rightarrow> ('k \<times> 'v) option) \<Rightarrow> ('k, 'v list) dict \<Rightarrow> 'x \<Rightarrow> ('k, 'v list) dict" where
  "collect_step f d x = (case f x of None \<Rightarrow> d | Some (k, v) \<Rightarrow> dict_append k v d)"

lemma count_get: "counter_get (foldl (count_step f) d xs) k = counter_get d k + length (filter (\<lambda>x. f x = Some k) xs)"
  by (induction xs arbitrary: d) (auto simp: count_step_def split: option.splits)

lemma count_keys: "fst ` set (foldl (count_step f) d xs) = fst ` set d \<union> {k. \<exists>x \<in> set xs. f x = Some k}"
  by (induction xs arbitrary: d) (auto simp: count_step_def split: option.splits)

lemma count_wf: "dict_wf d \<Longrightarrow> dict_wf (foldl (count_step f) d xs)"
  by (induction xs arbitrary: d) (auto simp: count_step_def counter_add_def split: option.splits)

lemma collect_get:
  "dget_or (foldl (collect_step f) d xs) k [] = dget_or d k [] @ map snd (filter (\<lambda>p. fst p = k) (List.map_filter f xs))"
  by (induction xs arbitrary: d)
    (auto simp: collect_step_def List.map_filter_simps dict_append_def dget_or_dset split: option.splits)

lemma collect_keys: "fst ` set (foldl (collect_step f) d xs) = fst ` set d \<union> {k. \<exists>x \<in> set xs. \<exists>v. f x = Some (k, v)}"
  by (induction xs arbitrary: d) (auto simp: collect_step_def dict_append_def split: option.splits)

lemma collect_wf: "dict_wf d \<Longrightarrow> dict_wf (foldl (collect_step f) d xs)"
  by (induction xs arbitrary: d) (auto simp: collect_step_def dict_append_def split: option.splits)

lemma keys_some: "d \<noteq> [] \<longleftrightarrow> (\<exists>k. k \<in> fst ` set d)"
  by (cases d) auto

text \<open>The coordinates a row counts for.\<close>

definition log_coord :: "int \<Rightarrow> int \<Rightarrow> (log_row \<Rightarrow> bool) \<Rightarrow> log_row \<Rightarrow> string option" where
  "log_coord i0 i1 q e = (if between i0 i1 (lr_timestamp e) \<and> q e then named (lr_service e) else None)"

definition group_coord :: "int \<Rightarrow> int \<Rightarrow> log_row \<Rightarrow> (string \<times> string option) option" where
  "group_coord i0 i1 e = map_option (\<lambda>s. (s, lr_fingerprint e)) (log_coord i0 i1 is_error_level e)"

definition span_coord :: "(int \<Rightarrow> bool) \<Rightarrow> trace_row \<Rightarrow> (string \<times> real) option" where
  "span_coord w sp =
     (case (named (tr_service sp), tr_start_time sp, tr_duration_ms sp) of
        (Some s, Some ts, Some d) \<Rightarrow> if w ts then Some (s, d) else None
      | _ \<Rightarrow> None)"

definition series_coord :: "(int \<Rightarrow> bool) \<Rightarrow> metric_row \<Rightarrow> (series_id \<times> real) option" where
  "series_coord w m =
     (case (named (mr_service m), mr_ts m, mr_value m) of
        (Some s, Some ts, Some v) \<Rightarrow> if w ts then Some ((s, mr_metric m, series_key (mr_attributes m)), v) else None
      | _ \<Rightarrow> None)"

lemma log_loop:
  "foldl (log_step i0 i1) a xs =
     \<lparr>la_err = foldl (count_step (log_coord i0 i1 is_error_level)) (la_err a) xs,
      la_stack = foldl (count_step (log_coord i0 i1 has_stack)) (la_stack a) xs,
      la_grp = foldl (count_step (group_coord i0 i1)) (la_grp a) xs\<rparr>"
proof (induction xs arbitrary: a)
  case (Cons e xs)
  have "log_step i0 i1 a e = \<lparr>la_err = count_step (log_coord i0 i1 is_error_level) (la_err a) e,
      la_stack = count_step (log_coord i0 i1 has_stack) (la_stack a) e, la_grp = count_step (group_coord i0 i1) (la_grp a) e\<rparr>"
    by (auto simp: log_step_def count_step_def log_coord_def group_coord_def in_incident_def between_def Let_def split: option.splits)
  with Cons show ?case by simp
qed simp

lemma windows_apart: "\<not> (in_baseline b0 i0 t \<and> in_incident i0 i1 t)"
  by (simp add: in_baseline_def in_incident_def)

lemma trace_loop:
  "foldl (trace_step b0 i0 i1) a xs =
     \<lparr>ta_bc = foldl (count_step (\<lambda>sp. map_option fst (span_coord (in_baseline b0 i0) sp))) (ta_bc a) xs,
      ta_ic = foldl (count_step (\<lambda>sp. map_option fst (span_coord (in_incident i0 i1) sp))) (ta_ic a) xs,
      ta_bd = foldl (collect_step (span_coord (in_baseline b0 i0))) (ta_bd a) xs,
      ta_idur = foldl (collect_step (span_coord (in_incident i0 i1))) (ta_idur a) xs\<rparr>"
proof (induction xs arbitrary: a)
  case (Cons sp xs)
  have "trace_step b0 i0 i1 a sp =
     \<lparr>ta_bc = count_step (\<lambda>sp. map_option fst (span_coord (in_baseline b0 i0) sp)) (ta_bc a) sp,
      ta_ic = count_step (\<lambda>sp. map_option fst (span_coord (in_incident i0 i1) sp)) (ta_ic a) sp,
      ta_bd = collect_step (span_coord (in_baseline b0 i0)) (ta_bd a) sp,
      ta_idur = collect_step (span_coord (in_incident i0 i1)) (ta_idur a) sp\<rparr>"
    using windows_apart [of b0 i0 _ i1]
    by (auto simp: trace_step_def count_step_def collect_step_def span_coord_def split: option.splits)
  with Cons show ?case by simp
qed simp

lemma sample_loop:
  "foldl (metric_row_step b0 i0 i1) a xs =
     (foldl (collect_step (series_coord (in_baseline b0 i0))) (fst a) xs,
      foldl (collect_step (series_coord (in_incident i0 i1))) (snd a) xs)"
proof (induction xs arbitrary: a)
  case (Cons m xs)
  have "metric_row_step b0 i0 i1 a m =
     (collect_step (series_coord (in_baseline b0 i0)) (fst a) m, collect_step (series_coord (in_incident i0 i1)) (snd a) m)"
    using windows_apart [of b0 i0 _ i1]
    by (auto simp: metric_row_step_def collect_step_def series_coord_def Let_def split: option.splits)
  with Cons show ?case by simp
qed simp

text \<open>Loops that keep the largest value per key.\<close>

definition raise_step :: "('x \<Rightarrow> ('k \<times> 'v::{linorder,zero}) option) \<Rightarrow> ('k, 'v) dict \<Rightarrow> 'x \<Rightarrow> ('k, 'v) dict" where
  "raise_step f d x = (case f x of None \<Rightarrow> d | Some (k, v) \<Rightarrow> dset k (max (dget_or d k 0) v) d)"

lemma raise_keys: "fst ` set (foldl (raise_step f) d xs) = fst ` set d \<union> {k. \<exists>x \<in> set xs. \<exists>v. f x = Some (k, v)}"
  by (induction xs arbitrary: d) (auto simp: raise_step_def split: option.splits)

lemma raise_ge:
  "dget_or d k 0 \<le> dget_or (foldl (raise_step f) d xs) k 0
   \<and> (\<forall>x \<in> set xs. \<forall>v. f x = Some (k, v) \<longrightarrow> v \<le> dget_or (foldl (raise_step f) d xs) k 0)"
proof (induction xs arbitrary: d)
  case (Cons x xs)
  have "dget_or d k 0 \<le> dget_or (raise_step f d x) k 0" "f x = Some (k, v) \<Longrightarrow> v \<le> dget_or (raise_step f d x) k 0" for v
    by (auto simp: raise_step_def dget_or_dset split: option.splits)
  with Cons.IH [of "raise_step f d x"] show ?case by (auto intro: order_trans)
qed simp

lemma raise_attained:
  "dget_or (foldl (raise_step f) d xs) k 0 = dget_or d k 0
   \<or> (\<exists>x \<in> set xs. f x = Some (k, dget_or (foldl (raise_step f) d xs) k 0))"
proof (induction xs arbitrary: d)
  case (Cons x xs)
  have "dget_or (raise_step f d x) k 0 = dget_or d k 0 \<or> f x = Some (k, dget_or (raise_step f d x) k 0)"
    by (auto simp: raise_step_def dget_or_dset max_def split: option.splits)
  with Cons.IH [of "raise_step f d x"] show ?case by auto
qed simp

section \<open>The rows behind a feature\<close>

definition log_rows_of :: "telemetry_db \<Rightarrow> string \<Rightarrow> int \<Rightarrow> int \<Rightarrow> (log_row \<Rightarrow> bool) \<Rightarrow> string \<Rightarrow> log_row list" where
  "log_rows_of db sc i0 i1 q s = filter (\<lambda>e. lr_scope e = sc \<and> log_coord i0 i1 q e = Some s) (db_logs db)"

definition durations_of :: "telemetry_db \<Rightarrow> string \<Rightarrow> (int \<Rightarrow> bool) \<Rightarrow> string \<Rightarrow> real list" where
  "durations_of db sc w s =
     map snd (filter (\<lambda>p. fst p = s) (List.map_filter (span_coord w) (filter (\<lambda>sp. tr_scope sp = sc) (db_spans db))))"

definition samples_of :: "telemetry_db \<Rightarrow> string \<Rightarrow> (int \<Rightarrow> bool) \<Rightarrow> series_id \<Rightarrow> real list" where
  "samples_of db sc w key =
     map snd (filter (\<lambda>p. fst p = key) (List.map_filter (series_coord w) (filter (\<lambda>m. mr_scope m = sc) (db_metrics db))))"

lemma filter_coord:
  "(\<And>x. f x = Some k \<Longrightarrow> P x \<longleftrightarrow> Q x) \<Longrightarrow> filter (\<lambda>x. f x = Some k) (filter P xs) = filter (\<lambda>x. Q x \<and> f x = Some k) xs"
  by (induction xs) auto

lemma map_filter_coord:
  "(\<And>x y. f x = Some y \<Longrightarrow> P x \<longleftrightarrow> Q x) \<Longrightarrow> List.map_filter f (filter P xs) = List.map_filter f (filter Q xs)"
proof (induction xs)
  case (Cons x xs)
  then show ?case by (cases "f x") (auto simp: List.map_filter_simps)
qed (simp add: List.map_filter_simps)

lemma length_count: "length (filter (\<lambda>x. map_option fst (f x) = Some s) xs) = length (filter (\<lambda>p. fst p = s) (List.map_filter f xs))"
  by (induction xs) (auto simp: List.map_filter_simps split: option.splits)

lemma log_scope_filter:
  "filter (\<lambda>e. log_coord i0 i1 q e = Some s) (filter (\<lambda>e. lr_scope e = sc \<and> between i0 i1 (lr_timestamp e)) (db_logs db))
   = log_rows_of db sc i0 i1 q s"
  unfolding log_rows_of_def by (rule filter_coord) (auto simp: log_coord_def split: if_splits)

lemma span_scope_filter:
  assumes "\<And>t. w t \<Longrightarrow> b0 \<le> t \<and> t \<le> i1"
  shows "map snd (filter (\<lambda>p. fst p = s) (List.map_filter (span_coord w)
      (filter (\<lambda>sp. tr_scope sp = sc \<and> between b0 i1 (tr_start_time sp)) (db_spans db)))) = durations_of db sc w s"
  unfolding durations_of_def
  by (subst map_filter_coord [where Q = "\<lambda>sp. tr_scope sp = sc"])
    (use assms in \<open>auto simp: span_coord_def between_def split: option.splits if_splits\<close>)

lemma sample_scope_filter:
  assumes "\<And>t. w t \<Longrightarrow> b0 \<le> t \<and> t \<le> i1"
  shows "map snd (filter (\<lambda>p. fst p = key) (List.map_filter (series_coord w)
      (filter (\<lambda>m. mr_scope m = sc \<and> between b0 i1 (mr_ts m)) (db_metrics db)))) = samples_of db sc w key"
  unfolding samples_of_def
  by (subst map_filter_coord [where Q = "\<lambda>m. mr_scope m = sc"])
    (use assms in \<open>auto simp: series_coord_def between_def split: option.splits if_splits\<close>)

lemma collect_member:
  "(\<exists>x \<in> set xs. \<exists>v. f x = Some (k, v)) \<longleftrightarrow> map snd (filter (\<lambda>p. fst p = k) (List.map_filter f xs)) \<noteq> []"
  by (induction xs) (auto simp: List.map_filter_simps split: option.splits)

section \<open>Each modality\<close>

lemma log_features_get:
  assumes "log_features (filter (\<lambda>e. lr_scope e = sc \<and> between i0 i1 (lr_timestamp e)) (db_logs db)) i0 i1 = (err, grp, stack)"
  shows "counter_get err s = length (log_rows_of db sc i0 i1 is_error_level s)"
    and "counter_get stack s = length (log_rows_of db sc i0 i1 has_stack s)"
    and "s \<in> fst ` set err \<longleftrightarrow> log_rows_of db sc i0 i1 is_error_level s \<noteq> []"
proof -
  let ?rows = "filter (\<lambda>e. lr_scope e = sc \<and> between i0 i1 (lr_timestamp e)) (db_logs db)"
  have err: "err = foldl (count_step (log_coord i0 i1 is_error_level)) [] ?rows"
    and stack: "stack = foldl (count_step (log_coord i0 i1 has_stack)) [] ?rows"
    using assms by (auto simp: log_features_def log_loop Let_def)
  show "counter_get err s = length (log_rows_of db sc i0 i1 is_error_level s)"
    "counter_get stack s = length (log_rows_of db sc i0 i1 has_stack s)"
    unfolding err stack count_get log_scope_filter by simp_all
  have "s \<in> fst ` set err \<longleftrightarrow> filter (\<lambda>e. log_coord i0 i1 is_error_level e = Some s) ?rows \<noteq> []"
    unfolding err count_keys by (auto simp: filter_empty_conv)
  then show "s \<in> fst ` set err \<longleftrightarrow> log_rows_of db sc i0 i1 is_error_level s \<noteq> []"
    unfolding log_scope_filter .
qed

lemma group_count:
  "filter (\<lambda>e. group_coord i0 i1 e = Some (s, fp)) (filter (\<lambda>e. lr_scope e = sc \<and> between i0 i1 (lr_timestamp e)) (db_logs db))
   = filter (\<lambda>e. lr_fingerprint e = fp) (log_rows_of db sc i0 i1 is_error_level s)"
proof -
  have "group_coord i0 i1 e = Some (s, fp) \<longleftrightarrow> log_coord i0 i1 is_error_level e = Some s \<and> lr_fingerprint e = fp" for e
    by (auto simp: group_coord_def)
  then show ?thesis unfolding log_scope_filter [symmetric] filter_filter by (auto intro: filter_cong)
qed

lemma log_features_group:
  assumes "log_features (filter (\<lambda>e. lr_scope e = sc \<and> between i0 i1 (lr_timestamp e)) (db_logs db)) i0 i1 = (err, grp, stack)"
    and n: "n = (\<lambda>fp. length (filter (\<lambda>e. lr_fingerprint e = fp) (log_rows_of db sc i0 i1 is_error_level s)))"
  shows "(\<forall>fp. n fp \<le> counter_get grp s) \<and> (\<exists>fp. n fp = counter_get grp s)"
proof -
  let ?rows = "filter (\<lambda>e. lr_scope e = sc \<and> between i0 i1 (lr_timestamp e)) (db_logs db)"
  define g where "g = foldl (count_step (group_coord i0 i1)) [] ?rows"
  define f where "f = (\<lambda>((s :: string, fp :: string option), c :: nat). Some (s, c))"
  have grp: "grp = foldl (raise_step f) [] g"
    using assms(1) by (auto simp: log_features_def log_loop Let_def g_def f_def raise_step_def counter_get_def case_prod_beta intro!: foldl_cong)
  have count: "counter_get g (s, fp) = n fp" for fp
    unfolding g_def count_get group_count n by simp
  have wf: "dict_wf g" unfolding g_def by (rule count_wf) simp
  have entry: "((s, fp), c) \<in> set g \<Longrightarrow> c = n fp" for fp c
    using wf count [of fp] by (simp add: counter_get_def dget_or_def flip: dget_wf_iff)
  have le: "n fp \<le> counter_get grp s" for fp
  proof (cases "n fp = 0")
    case False
    then have "dget g (s, fp) = Some (n fp)"
      using count [of fp] by (auto simp: counter_get_def dget_or_def split: option.splits)
    then have "((s, fp), n fp) \<in> set g" by (rule dget_mem)
    then show ?thesis
      using raise_ge [of "[]" s f g] unfolding grp counter_get_def by (force simp: f_def)
  qed simp
  moreover have "\<exists>fp. n fp = counter_get grp s"
  proof -
    from raise_attained [of f "[]" g s] consider "counter_get grp s = 0" | fp where "((s, fp), counter_get grp s) \<in> set g"
      unfolding grp counter_get_def by (auto simp: f_def dget_or_def)
    then show ?thesis
    proof cases
      case 1
      then show ?thesis using le [of None] by auto
    next
      case 2
      then show ?thesis using entry by metis
    qed
  qed
  ultimately show ?thesis by blast
qed

lemma dget_map_dict: "dget (map (\<lambda>(k, v). (k, h k v)) d) k = map_option (h k) (dget d k)"
  by (induction d) auto

lemma counter_entry: "counter_get d s \<noteq> 0 \<Longrightarrow> dget d s = Some (counter_get d s)"
  by (auto simp: counter_get_def dget_or_def split: option.splits)

lemma count_entry_pos: "s \<in> fst ` set (foldl (count_step f) [] xs) \<longleftrightarrow> counter_get (foldl (count_step f) [] xs) s \<noteq> 0"
  unfolding count_keys count_get by (auto simp: filter_empty_conv)

definition window_spans :: "telemetry_db \<Rightarrow> string \<Rightarrow> int \<Rightarrow> int \<Rightarrow> trace_row list" where
  "window_spans db sc b0 i1 = filter (\<lambda>sp. tr_scope sp = sc \<and> between b0 i1 (tr_start_time sp)) (db_spans db)"

definition span_counts :: "(int \<Rightarrow> bool) \<Rightarrow> trace_row list \<Rightarrow> (string, nat) dict" where
  "span_counts w rows = foldl (count_step (\<lambda>sp. map_option fst (span_coord w sp))) [] rows"

definition span_durations :: "(int \<Rightarrow> bool) \<Rightarrow> trace_row list \<Rightarrow> (string, real list) dict" where
  "span_durations w rows = foldl (collect_step (span_coord w)) [] rows"

lemma span_tables:
  assumes "\<And>t. w t \<Longrightarrow> b0 \<le> t \<and> t \<le> i1" and ds: "ds = durations_of db sc w s"
  shows "counter_get (span_counts w (window_spans db sc b0 i1)) s = length ds"
    and "dget_or (span_durations w (window_spans db sc b0 i1)) s [] = ds"
    and "dget (span_counts w (window_spans db sc b0 i1)) s = (if ds = [] then None else Some (length ds))"
proof -
  let ?rows = "window_spans db sc b0 i1"
  have eq: "map snd (filter (\<lambda>p. fst p = s) (List.map_filter (span_coord w) ?rows)) = ds"
    unfolding ds window_spans_def using assms(1) by (simp add: span_scope_filter)
  show n: "counter_get (span_counts w ?rows) s = length ds"
    unfolding span_counts_def count_get length_count eq [symmetric] by simp
  show "dget_or (span_durations w ?rows) s [] = ds"
    unfolding span_durations_def collect_get eq by (simp add: dget_or_def)
  have key: "s \<in> fst ` set (span_counts w ?rows) \<longleftrightarrow> ds \<noteq> []"
    unfolding span_counts_def count_entry_pos using n by (simp add: span_counts_def)
  show "dget (span_counts w ?rows) s = (if ds = [] then None else Some (length ds))"
    using key n counter_entry [of "span_counts w ?rows" s] by (auto simp: dget_None_iff)
qed

lemma window_bounds:
  assumes "b0 \<le> i0" and "i0 \<le> i1"
  shows "in_incident i0 i1 t \<Longrightarrow> b0 \<le> t \<and> t \<le> i1" and "in_baseline b0 i0 t \<Longrightarrow> b0 \<le> t \<and> t \<le> i1"
  using assms by (auto simp: in_incident_def in_baseline_def)

lemma trace_features_get:
  assumes "trace_features (window_spans db sc b0 i1) b0 i0 i1 = Inr (rate, dur)"
    and w: "b0 \<le> i0" "i0 \<le> i1"
    and inc: "inc = durations_of db sc (in_incident i0 i1) s" and base: "base = durations_of db sc (in_baseline b0 i0) s"
  shows "dget_or rate s 0 = (if inc = [] then 0
      else (of_nat (length inc) / seconds i0 i1 + EPS) / (of_nat (length base) / seconds b0 i0 + EPS))"
    and "dget_or dur s 0 = (if inc = [] then 0 else (p95 inc + 1) / (p95 base + 1))"
    and "s \<in> fst ` set rate \<longleftrightarrow> inc \<noteq> []"
proof -
  let ?rows = "window_spans db sc b0 i1"
  let ?ic = "span_counts (in_incident i0 i1) ?rows"
  have rate: "rate = map (\<lambda>(s, n). (s, (of_nat n / seconds i0 i1 + EPS) / (of_nat (counter_get (span_counts (in_baseline b0 i0) ?rows) s) / seconds b0 i0 + EPS))) ?ic"
    and dur: "dur = map (\<lambda>(s, n). (s, (p95 (dget_or (span_durations (in_incident i0 i1) ?rows) s []) + 1)
      / (p95 (dget_or (span_durations (in_baseline b0 i0) ?rows) s []) + 1))) ?ic"
    using assms(1) by (auto simp: trace_features_def trace_loop Let_def span_counts_def span_durations_def split: if_splits)
  note I = span_tables [of "in_incident i0 i1" b0 i1, OF window_bounds(1) [OF w] inc]
    and B = span_tables [of "in_baseline b0 i0" b0 i1, OF window_bounds(2) [OF w] base]
  show "dget_or rate s 0 = (if inc = [] then 0
      else (of_nat (length inc) / seconds i0 i1 + EPS) / (of_nat (length base) / seconds b0 i0 + EPS))"
    unfolding rate dget_or_def dget_map_dict by (simp add: I(3) B(1))
  show "dget_or dur s 0 = (if inc = [] then 0 else (p95 inc + 1) / (p95 base + 1))"
    unfolding dur dget_or_def dget_map_dict using I(2) B(2) by (simp add: I(3) dget_or_def)
  have "s \<in> fst ` set ?ic \<longleftrightarrow> inc \<noteq> []" using I(3) dget_None_iff [of ?ic s] by (simp split: if_splits)
  then show "s \<in> fst ` set rate \<longleftrightarrow> inc \<noteq> []"
    unfolding rate by (auto simp: image_image case_prod_beta)
qed

lemma trace_features_error:
  assumes w: "b0 \<le> i0" "i0 \<le> i1"
  shows "trace_features (window_spans db sc b0 i1) b0 i0 i1 = Inl e \<longleftrightarrow>
    e = ZeroDivisionError \<and> (\<exists>s. durations_of db sc (in_incident i0 i1) s \<noteq> [] \<and> p95 (durations_of db sc (in_baseline b0 i0) s) = -1)"
proof -
  let ?rows = "window_spans db sc b0 i1"
  let ?ic = "span_counts (in_incident i0 i1) ?rows"
  let ?bad = "\<lambda>s. p95 (dget_or (span_durations (in_baseline b0 i0) ?rows) s []) + 1 = 0"
  have "trace_features ?rows b0 i0 i1 = Inl e \<longleftrightarrow> e = ZeroDivisionError \<and> list_ex (\<lambda>(s, n). ?bad s) ?ic"
    by (auto simp: trace_features_def trace_loop Let_def span_counts_def span_durations_def)
  also have "list_ex (\<lambda>(s, n). ?bad s) ?ic \<longleftrightarrow> (\<exists>s \<in> fst ` set ?ic. ?bad s)"
    by (auto simp: list_ex_iff case_prod_beta)
  also have "\<dots> \<longleftrightarrow> (\<exists>s. durations_of db sc (in_incident i0 i1) s \<noteq> [] \<and> p95 (durations_of db sc (in_baseline b0 i0) s) = -1)"
  proof -
    have "s \<in> fst ` set ?ic \<longleftrightarrow> durations_of db sc (in_incident i0 i1) s \<noteq> []" for s
      using span_tables(3) [of "in_incident i0 i1" b0 i1, OF window_bounds(1) [OF w] refl, of db sc s] dget_None_iff [of ?ic s] by (simp split: if_splits)
    moreover have "dget_or (span_durations (in_baseline b0 i0) ?rows) s [] = durations_of db sc (in_baseline b0 i0) s" for s
      using window_bounds(2) [OF w] by (intro span_tables(2)) auto
    ultimately show ?thesis unfolding Bex_def by (simp add: add_eq_0_iff)
  qed
  finally show ?thesis .
qed

lemma collect_entry:
  assumes "vs = map snd (filter (\<lambda>p. fst p = k) (List.map_filter f xs))"
  shows "dget (foldl (collect_step f) [] xs) k = (if vs = [] then None else Some vs)"
proof -
  have "dget_or (foldl (collect_step f) [] xs) k [] = vs" unfolding collect_get assms by (simp add: dget_or_def)
  moreover have "dget (foldl (collect_step f) [] xs) k = None \<longleftrightarrow> vs = []"
    unfolding dget_None_iff collect_keys assms using collect_member [of xs f k] by auto
  ultimately show ?thesis by (auto simp: dget_or_def split: option.splits)
qed

definition measured :: "telemetry_db \<Rightarrow> string \<Rightarrow> int \<Rightarrow> int \<Rightarrow> int \<Rightarrow> series_id \<Rightarrow> bool" where
  "measured db sc b0 i0 i1 key \<longleftrightarrow>
     samples_of db sc (in_baseline b0 i0) key \<noteq> [] \<and> samples_of db sc (in_incident i0 i1) key \<noteq> []"

definition series_change :: "telemetry_db \<Rightarrow> string \<Rightarrow> int \<Rightarrow> int \<Rightarrow> int \<Rightarrow> series_id \<Rightarrow> real" where
  "series_change db sc b0 i0 i1 key =
     change_ratio (samples_of db sc (in_baseline b0 i0) key) (samples_of db sc (in_incident i0 i1) key)"

lemma metric_features_get:
  assumes anom: "anom = metric_features (filter (\<lambda>m. mr_scope m = sc \<and> between b0 i1 (mr_ts m)) (db_metrics db)) b0 i0 i1"
    and "b0 \<le> i0" "i0 \<le> i1"
  shows "s \<in> fst ` set anom \<longleftrightarrow> (\<exists>key. fst key = s \<and> measured db sc b0 i0 i1 key)"
    and "measured db sc b0 i0 i1 key \<Longrightarrow> series_change db sc b0 i0 i1 key \<le> dget_or anom (fst key) 0"
    and "dget_or anom s 0 = 0 \<or> (\<exists>key. fst key = s \<and> measured db sc b0 i0 i1 key \<and> series_change db sc b0 i0 i1 key = dget_or anom s 0)"
proof -
  let ?rows = "filter (\<lambda>m. mr_scope m = sc \<and> between b0 i1 (mr_ts m)) (db_metrics db)"
  define base where "base = foldl (collect_step (series_coord (in_baseline b0 i0))) [] ?rows"
  define inc where "inc = foldl (collect_step (series_coord (in_incident i0 i1))) [] ?rows"
  define f where "f = (\<lambda>(key :: series_id, b). case dget inc key of None \<Rightarrow> None
     | Some i \<Rightarrow> if b = [] \<or> i = [] then None else Some (fst key, change_ratio b i))"
  have w: "in_incident i0 i1 t \<Longrightarrow> b0 \<le> t \<and> t \<le> i1" "in_baseline b0 i0 t \<Longrightarrow> b0 \<le> t \<and> t \<le> i1" for t
    using assms(2,3) by (auto simp: in_incident_def in_baseline_def)
  have fold: "anom = foldl (raise_step f) [] base"
    unfolding anom metric_features_def sample_loop
    by (auto simp: base_def inc_def f_def raise_step_def Let_def split: option.splits intro!: foldl_cong)
  have inc_get: "dget inc k = (if samples_of db sc (in_incident i0 i1) k = [] then None else Some (samples_of db sc (in_incident i0 i1) k))" for k
    unfolding inc_def using w(1) by (intro collect_entry) (simp add: sample_scope_filter)
  have base_get: "dget base k = (if samples_of db sc (in_baseline b0 i0) k = [] then None else Some (samples_of db sc (in_baseline b0 i0) k))" for k
    unfolding base_def using w(2) by (intro collect_entry) (simp add: sample_scope_filter)
  have wf: "dict_wf base" unfolding base_def by (rule collect_wf) simp
  have f_iff: "(\<exists>x \<in> set base. f x = Some (s, v)) \<longleftrightarrow> (\<exists>key. fst key = s \<and> measured db sc b0 i0 i1 key \<and> series_change db sc b0 i0 i1 key = v)" for s v
  proof -
    have "(\<exists>x \<in> set base. f x = Some (s, v)) \<longleftrightarrow> (\<exists>key b. dget base key = Some b \<and> f (key, b) = Some (s, v))"
      using wf by (auto simp: dget_wf_iff)
    also have "\<dots> \<longleftrightarrow> (\<exists>key. fst key = s \<and> measured db sc b0 i0 i1 key \<and> series_change db sc b0 i0 i1 key = v)"
      unfolding base_get f_def by (auto simp: inc_get measured_def series_change_def split: if_splits)
    finally show ?thesis .
  qed
  show "s \<in> fst ` set anom \<longleftrightarrow> (\<exists>key. fst key = s \<and> measured db sc b0 i0 i1 key)"
    unfolding fold raise_keys using f_iff [of s] by (simp; blast)
  show "measured db sc b0 i0 i1 key \<Longrightarrow> series_change db sc b0 i0 i1 key \<le> dget_or anom (fst key) 0"
    using f_iff [of "fst key" "series_change db sc b0 i0 i1 key"] raise_ge [of "[]" "fst key" f base] unfolding fold by blast
  show "dget_or anom s 0 = 0 \<or> (\<exists>key. fst key = s \<and> measured db sc b0 i0 i1 key \<and> series_change db sc b0 i0 i1 key = dget_or anom s 0)"
    using raise_attained [of f "[]" base s] f_iff [of s] unfolding fold by (simp add: dget_or_def [of "[]"])
qed

definition row_exact :: "telemetry_db \<Rightarrow> string \<Rightarrow> int \<Rightarrow> int \<Rightarrow> int \<Rightarrow> service_features \<Rightarrow> bool" where
  "row_exact db sc b0 i0 i1 row \<longleftrightarrow>
     (let s = sf_service row; errs = log_rows_of db sc i0 i1 is_error_level s;
          inc = durations_of db sc (in_incident i0 i1) s; base = durations_of db sc (in_baseline b0 i0) s in
      sf_log_err row = int (length errs)
      \<and> sf_log_stack row = int (length (log_rows_of db sc i0 i1 has_stack s))
      \<and> (\<forall>fp. int (length (filter (\<lambda>e. lr_fingerprint e = fp) errs)) \<le> sf_log_grp row)
      \<and> (\<exists>fp. int (length (filter (\<lambda>e. lr_fingerprint e = fp) errs)) = sf_log_grp row)
      \<and> sf_tr_rate row = (if inc = [] then 0 else (of_nat (length inc) / seconds i0 i1 + EPS) / (of_nat (length base) / seconds b0 i0 + EPS))
      \<and> sf_tr_dur row = (if inc = [] then 0 else (p95 inc + 1) / (p95 base + 1))
      \<and> (\<forall>key. fst key = s \<and> measured db sc b0 i0 i1 key \<longrightarrow> series_change db sc b0 i0 i1 key \<le> sf_met_anom row)
      \<and> (sf_met_anom row = 0 \<or> (\<exists>key. fst key = s \<and> measured db sc b0 i0 i1 key \<and> series_change db sc b0 i0 i1 key = sf_met_anom row))
      \<and> sf_has_logs row = of_bool (\<exists>s. log_rows_of db sc i0 i1 is_error_level s \<noteq> [])
      \<and> sf_has_traces row = of_bool (\<exists>s. durations_of db sc (in_incident i0 i1) s \<noteq> [])
      \<and> sf_has_metrics row = of_bool (\<exists>key. measured db sc b0 i0 i1 key))"

lemma feature_rows_exact:
  assumes "b0 \<le> i0" and "i0 \<le> i1" and ft: "compute_features db sc i0 i1 b0 = Inr ft"
  shows "sorted_wrt (<) (map sf_service (ft_services ft))
    \<and> set (map sf_service (ft_services ft)) =
        {s. log_rows_of db sc i0 i1 is_error_level s \<noteq> [] \<or> durations_of db sc (in_incident i0 i1) s \<noteq> []
          \<or> (\<exists>key. fst key = s \<and> measured db sc b0 i0 i1 key)}
    \<and> list_all (row_exact db sc b0 i0 i1) (ft_services ft)"
proof -
  obtain err grp stack where logs: "log_features (filter (\<lambda>e. lr_scope e = sc \<and> between i0 i1 (lr_timestamp e)) (db_logs db)) i0 i1 = (err, grp, stack)"
    by (metis prod_cases3)
  define anom where "anom = metric_features (filter (\<lambda>m. mr_scope m = sc \<and> between b0 i1 (mr_ts m)) (db_metrics db)) b0 i0 i1"
  obtain rate dur where traces: "trace_features (window_spans db sc b0 i1) b0 i0 i1 = Inr (rate, dur)"
    and eq: "ft = assemble_features err grp stack rate dur anom"
    using ft unfolding compute_features_def Let_def logs anom_def window_spans_def by (auto simp: rbind_def split: sum.splits)
  note L = log_features_get [OF logs] and T = trace_features_get [OF traces assms(1,2) refl refl] and M = metric_features_get [OF anom_def assms(1,2)]
  have flags: "(err \<noteq> []) = (\<exists>s. log_rows_of db sc i0 i1 is_error_level s \<noteq> [])" "(rate \<noteq> []) = (\<exists>s. durations_of db sc (in_incident i0 i1) s \<noteq> [])"
    "(anom \<noteq> []) = (\<exists>key. measured db sc b0 i0 i1 key)"
    unfolding keys_some [of err] keys_some [of rate] keys_some [of anom] L(3) T(3) M(1) by auto
  define row where "row s = \<lparr>sf_service = s, sf_log_err = int (counter_get err s), sf_log_grp = int (counter_get grp s),
      sf_log_stack = int (counter_get stack s), sf_tr_rate = dget_or rate s 0, sf_tr_dur = dget_or dur s 0,
      sf_met_anom = dget_or anom s 0, sf_has_logs = of_bool (err \<noteq> []), sf_has_traces = of_bool (rate \<noteq> []),
      sf_has_metrics = of_bool (anom \<noteq> [])\<rparr>" for s
  have rows: "ft_services ft = map row (sort (dedup (dkeys err @ dkeys rate @ dkeys anom)))"
    by (simp add: eq assemble_features_def row_def [abs_def] Let_def)
  then have services: "map sf_service (ft_services ft) = sort (dedup (dkeys err @ dkeys rate @ dkeys anom))"
    by (simp add: row_def comp_def)
  have exact: "row_exact db sc b0 i0 i1 (row s)" for s
    unfolding row_exact_def Let_def
  proof (intro conjI)
    show "sf_log_err (row s) = int (length (log_rows_of db sc i0 i1 is_error_level (sf_service (row s))))"
      "sf_log_stack (row s) = int (length (log_rows_of db sc i0 i1 has_stack (sf_service (row s))))"
      by (simp_all add: row_def L(1,2))
    show "\<forall>fp. int (length (filter (\<lambda>e. lr_fingerprint e = fp) (log_rows_of db sc i0 i1 is_error_level (sf_service (row s))))) \<le> sf_log_grp (row s)"
      "\<exists>fp. int (length (filter (\<lambda>e. lr_fingerprint e = fp) (log_rows_of db sc i0 i1 is_error_level (sf_service (row s))))) = sf_log_grp (row s)"
      using log_features_group [OF logs refl, of s] by (simp_all add: row_def)
    show "\<forall>key. fst key = sf_service (row s) \<and> measured db sc b0 i0 i1 key \<longrightarrow> series_change db sc b0 i0 i1 key \<le> sf_met_anom (row s)"
      using M(2) by (auto simp: row_def)
    show "sf_met_anom (row s) = 0 \<or> (\<exists>key. fst key = sf_service (row s) \<and> measured db sc b0 i0 i1 key
        \<and> series_change db sc b0 i0 i1 key = sf_met_anom (row s))"
      using M(3) [of s] by (simp add: row_def)
  qed (simp_all add: row_def T(1,2) flags)
  have "sorted_wrt (<) (map sf_service (ft_services ft))" unfolding services by (simp add: strict_sorted_iff)
  moreover have "set (map sf_service (ft_services ft)) = {s. log_rows_of db sc i0 i1 is_error_level s \<noteq> []
      \<or> durations_of db sc (in_incident i0 i1) s \<noteq> [] \<or> (\<exists>key. fst key = s \<and> measured db sc b0 i0 i1 key)}"
  proof -
    have "set (map sf_service (ft_services ft)) = {s. s \<in> fst ` set err \<or> s \<in> fst ` set rate \<or> s \<in> fst ` set anom}"
      unfolding services by auto
    then show ?thesis unfolding L(3) T(3) M(1) .
  qed
  ultimately show ?thesis unfolding rows list_all_iff using exact by auto
qed

lemma compute_features_error:
  assumes w: "b0 \<le> i0" "i0 \<le> i1"
  shows "compute_features db sc i0 i1 b0 = Inl e \<longleftrightarrow> e = ZeroDivisionError
    \<and> (\<exists>s. durations_of db sc (in_incident i0 i1) s \<noteq> [] \<and> p95 (durations_of db sc (in_baseline b0 i0) s) = -1)"
  unfolding trace_features_error [OF w, of db sc, symmetric] compute_features_def
  by (auto simp: rbind_def Let_def window_spans_def split: sum.splits prod.splits)

text \<open>
  C10: the feature table is exactly what its documentation says of the persisted telemetry of one scope.
  For windows in order, it has one row, in strictly increasing order, for each service with an error log
  in the incident window, a timed incident span, or a metric series measured on both sides of the
  incident start. A row counts the service's error and stack-trace lines, holds the size of its largest
  error group, the ratios of span rate and of 95th-percentile duration, and the largest relative change
  of any of its series; the presence flags of all rows say which modality produced a candidate. The only
  exception is a division by zero, when the baseline percentile of a service with incident spans is
  exactly -1 ms; spans of non-negative duration never cause it.
\<close>

theorem compute_features_exact:
  assumes "b0 \<le> i0" and "i0 \<le> i1"
  shows "(\<forall>e. compute_features db sc i0 i1 b0 = Inl e \<longleftrightarrow> e = ZeroDivisionError
      \<and> (\<exists>s. durations_of db sc (in_incident i0 i1) s \<noteq> [] \<and> p95 (durations_of db sc (in_baseline b0 i0) s) = -1))
    \<and> (\<forall>ft. compute_features db sc i0 i1 b0 = Inr ft \<longrightarrow>
      sorted_wrt (<) (map sf_service (ft_services ft))
      \<and> set (map sf_service (ft_services ft)) =
          {s. log_rows_of db sc i0 i1 is_error_level s \<noteq> [] \<or> durations_of db sc (in_incident i0 i1) s \<noteq> []
            \<or> (\<exists>key. fst key = s \<and> measured db sc b0 i0 i1 key)}
      \<and> list_all (row_exact db sc b0 i0 i1) (ft_services ft))"
  using compute_features_error [OF assms] feature_rows_exact [OF assms] by blast

definition demo_db :: telemetry_db where
  "demo_db =
     \<lparr>db_logs = [\<lparr>lr_scope = ''default'', lr_service = Some ''db'', lr_level = Some ''ERROR'', lr_timestamp = Some 12,
                  lr_raw_message = Some ''panic: boom'', lr_normalized_message = None, lr_fingerprint = Some ''f''\<rparr>,
                 \<lparr>lr_scope = ''other'', lr_service = Some ''web'', lr_level = Some ''ERROR'', lr_timestamp = Some 12,
                  lr_raw_message = None, lr_normalized_message = None, lr_fingerprint = None\<rparr>],
      db_spans = [], db_metrics = []\<rparr>"

theorem compute_features_exact_witness:
  "\<exists>ft. compute_features demo_db ''default'' 10 20 0 = Inr ft \<and> map sf_service (ft_services ft) = [''db'']
   \<and> map sf_log_stack (ft_services ft) = [1] \<and> list_all (row_exact demo_db ''default'' 0 10 20) (ft_services ft)"
proof -
  have "case compute_features demo_db ''default'' 10 20 0 of Inl e \<Rightarrow> False
     | Inr ft \<Rightarrow> map sf_service (ft_services ft) = [''db''] \<and> map sf_log_stack (ft_services ft) = [1]"
    by code_simp
  then show ?thesis using compute_features_exact [of 0 10 20 demo_db "''default''"] by (auto split: sum.splits)
qed

text \<open>
  Nothing rejects a span that ends before it starts. One such baseline span of -1 ms, the least step of
  clock skew that a millisecond source reports, makes the whole feature computation raise.
\<close>

lemma negative_duration_aborts:
  "compute_features \<lparr>db_logs = [], db_spans =
     [\<lparr>tr_scope = ''default'', tr_service = Some ''db'', tr_start_time = Some 5, tr_duration_ms = Some (- 1)\<rparr>,
      \<lparr>tr_scope = ''default'', tr_service = Some ''db'', tr_start_time = Some 15, tr_duration_ms = Some 3\<rparr>],
     db_metrics = []\<rparr> ''default'' 10 20 0 = Inl ZeroDivisionError"
  by code_simp

section \<open>Silent services have a baseline\<close>

lemma collapse_fold:
  assumes "dict_wf bc"
  shows "dget (foldl (\<lambda>out (s, base). if P s base then dset s (h s base) out else out) [] bc) s =
    (case dget bc s of None \<Rightarrow> None | Some base \<Rightarrow> if P s base then Some (h s base) else None)"
proof -
  have "dict_wf bc \<Longrightarrow> (\<forall>k \<in> fst ` set bc. k \<notin> fst ` set d) \<Longrightarrow>
      dget (foldl (\<lambda>out (s, base). if P s base then dset s (h s base) out else out) d bc) s =
      (case dget bc s of None \<Rightarrow> dget d s | Some base \<Rightarrow> if P s base then Some (h s base) else None)" for d
  proof (induction bc arbitrary: d)
    case (Cons x bc)
    obtain k v where x: "x = (k, v)" by (cases x)
    let ?d = "if P k v then dset k (h k v) d else d"
    have "dget (foldl (\<lambda>out (s, base). if P s base then dset s (h s base) out else out) ?d bc) s =
        (case dget bc s of None \<Rightarrow> dget ?d s | Some base \<Rightarrow> if P s base then Some (h s base) else None)"
      using Cons.prems x by (intro Cons.IH) (auto simp: dict_wf_def)
    moreover have "dget bc k = None" "dget d k = None" using Cons.prems x by (auto simp: dict_wf_def dget_None_iff)
    ultimately show ?case by (auto simp: x split: option.splits)
  qed simp
  from this [of "[]"] assms show ?thesis by (simp split: option.splits)
qed

text \<open>
  A service is reported silent exactly when it had enough baseline traffic to expect traffic in the
  incident and its span rate fell to the collapse fraction or below. A service never seen in the
  baseline is never reported.
\<close>

lemma collapsed_services_iff:
  assumes "dict_wf bc"
  shows "dget (collapsed_services cp bc ic pre post) s = Some x \<longleftrightarrow>
    (\<exists>base. dget bc s = Some base \<and> cp_min_baseline_spans cp \<le> base
      \<and> cp_min_expected_incident cp \<le> of_nat base / max pre 1 * max post 1
      \<and> of_nat (counter_get ic s) / max post 1 \<le> cp_collapse_fraction cp * (of_nat base / max pre 1)
      \<and> x = round4 (1 - of_nat (counter_get ic s) / max post 1 / (of_nat base / max pre 1)))"
proof -
  let ?P = "\<lambda>s base. \<not> base < cp_min_baseline_spans cp \<and> \<not> of_nat base / max pre 1 * max post 1 < cp_min_expected_incident cp
    \<and> of_nat (counter_get ic s) / max post 1 \<le> cp_collapse_fraction cp * (of_nat base / max pre 1)"
  let ?h = "\<lambda>s base. round4 (1 - of_nat (counter_get ic s) / max post 1 / (of_nat base / max pre 1))"
  have "collapsed_services cp bc ic pre post = foldl (\<lambda>out (s, base). if ?P s base then dset s (?h s base) out else out) [] bc"
    unfolding collapsed_services_def Let_def by (intro foldl_cong) (auto simp: case_prod_beta)
  then show ?thesis using collapse_fold [OF assms, of ?P ?h s] by (auto simp: not_less split: option.splits)
qed

lemma round_half_even_mono_int: "of_int n \<le> x \<Longrightarrow> n \<le> round_half_even x" "x \<le> of_int n \<Longrightarrow> round_half_even x \<le> n"
proof -
  assume "of_int n \<le> x"
  then have "n \<le> \<lfloor>x\<rfloor>" by (simp add: le_floor_iff)
  then show "n \<le> round_half_even x" by (auto simp: round_half_even_def Let_def)
next
  assume "x \<le> of_int n"
  then show "round_half_even x \<le> n" by (auto simp: round_half_even_def Let_def) linarith+
qed

lemma round4_unit: "0 \<le> r \<Longrightarrow> r \<le> 1 \<Longrightarrow> 0 \<le> round4 (1 - r) \<and> round4 (1 - r) \<le> 1"
  using round_half_even_mono_int(1) [of 0 "(1 - r) * 10000"] round_half_even_mono_int(2) [of "(1 - r) * 10000" 10000]
  by (simp add: round4_def)

lemma collapse_strength_bounds:
  assumes "dict_wf bc" and "0 < cp_min_baseline_spans cp"
    and "dget (collapsed_services cp bc ic pre post) s = Some x" and "cp_collapse_fraction cp \<le> 1"
  shows "0 \<le> x \<and> x \<le> 1"
proof -
  from assms(3) obtain base where base: "cp_min_baseline_spans cp \<le> base"
    "of_nat (counter_get ic s) / max post 1 \<le> cp_collapse_fraction cp * (of_nat base / max pre 1)"
    "x = round4 (1 - of_nat (counter_get ic s) / max post 1 / (of_nat base / max pre 1))"
    unfolding collapsed_services_iff [OF assms(1)] by blast
  let ?r = "of_nat (counter_get ic s) / max post 1 / (of_nat base / max pre 1) :: real"
  have pos: "0 < (of_nat base / max pre 1 :: real)" using base(1) assms(2) by simp
  have "cp_collapse_fraction cp * (of_nat base / max pre 1) \<le> 1 * (of_nat base / max pre 1)"
    using assms(4) pos by (intro mult_right_mono) auto
  with base(2) have "of_nat (counter_get ic s) / max post 1 \<le> (of_nat base / max pre 1 :: real)" by linarith
  then have "?r \<le> 1" by (rule divide_le_eq_1_pos [OF pos, THEN iffD2])
  moreover have "0 \<le> ?r" using pos by simp
  ultimately show ?thesis unfolding base(3) by (intro round4_unit)
qed

end
