(* ===== verification/Triggers.thy ===== *)
theory Triggers
  imports Regexes
begin

text \<open>
  The trigger half of \<open>core/normalization/patterns.py\<close>: the patterns that mark a log message as a
  trigger event, and the coarse type of a trigger. All patterns are searched with \<open>re.IGNORECASE\<close>.
\<close>

section \<open>Patterns\<close>

definition ws1 :: regex where "ws1 = Plus (Chars is_space)"

definition one_of :: "string list \<Rightarrow> regex" where
  "one_of ws = Alts (map LitI ws)"

definition deploy_word :: regex where
  "deploy_word = Seq (LitI ''deploy'') (Opt (LitI ''ment''))"

definition config_re :: regex where
  "config_re = Seqs [LitI ''config'', Opt (LitI ''uration''), ws1, one_of [''reloaded'', ''changed'', ''updated'']]"

definition migration_re :: regex where
  "migration_re = Seqs [LitI ''migration'', ws1, one_of [''started'', ''completed'', ''running'']]"

definition webhook_re :: regex where
  "webhook_re = Seqs [LitI ''webhook'', ws1, one_of [''secret'', ''key'', ''config''], ws1, one_of [''changed'', ''invalid'', ''expired'']]"

definition release_re :: regex where
  "release_re = Seqs [LitI ''release'', ws1, Plus (Chars (\<lambda>c. \<not> is_space c)), ws1, one_of [''deployed'', ''started'', ''live'']]"

definition pod_re :: regex where
  "pod_re = Seqs [LitI ''pod'', ws1, one_of [''restart'', ''restarted'', ''terminated'', ''evicted'']]"

definition queue_re :: regex where
  "queue_re = Seqs [LitI ''queue'', ws1, one_of [''full'', ''saturated'', ''overflow'']]"

definition breaker_re :: regex where
  "breaker_re = Seqs [LitI ''circuit'', Opt (Chars (\<lambda>c. is_space c \<or> c = CHR ''_'')), LitI ''breaker'', ws1,
     one_of [''open'', ''tripped'', ''activated'']]"

definition token_re :: regex where
  "token_re = Seqs [LitI ''token'', ws1, one_of [''expired'', ''expiration'', ''invalid'']]"

definition deploy_re :: regex where
  "deploy_re = Seqs [deploy_word, ws1, one_of [''started'', ''completed'', ''finished'', ''done'']]"

definition rollout_re :: regex where
  "rollout_re = Seqs [LitI ''rollout'', ws1, one_of [''started'', ''completed'', ''done'']]"

definition started_re :: "string \<Rightarrow> regex" where
  "started_re w = Seqs [LitI w, ws1, one_of [''started'', ''restarted'', ''restart'']]"

definition deploy_family :: regex where
  "deploy_family = Alts [deploy_word, LitI ''rollout'', release_re]"

definition restart_family :: regex where
  "restart_family =
     Alts [Seqs [one_of [''application'', ''service''], ws1, one_of [''started'', ''restarted'', ''restart'']],
           LitI ''restart'']"

definition CAUSAL_TRIGGER_PATTERNS :: "regex list" where
  "CAUSAL_TRIGGER_PATTERNS =
     [deploy_re,
      config_re,
      migration_re,
      webhook_re,
      release_re,
      rollout_re]"

definition REACTIVE_TRIGGER_PATTERNS :: "regex list" where
  "REACTIVE_TRIGGER_PATTERNS =
     [started_re ''application'',
      started_re ''service'',
      pod_re,
      queue_re,
      breaker_re,
      token_re]"

definition TRIGGER_PATTERNS :: "regex list" where
  "TRIGGER_PATTERNS = CAUSAL_TRIGGER_PATTERNS @ REACTIVE_TRIGGER_PATTERNS"

definition is_trigger_message :: "string \<Rightarrow> bool" where
  "is_trigger_message message = list_ex (\<lambda>pattern. re_search pattern message) TRIGGER_PATTERNS"

definition TRIGGER_TYPE_PATTERNS :: "(regex \<times> string) list" where
  "TRIGGER_TYPE_PATTERNS =
     [(deploy_family, ''deploy''),
      (pod_re, ''pod''),
      (config_re, ''config''),
      (migration_re, ''migration''),
      (queue_re, ''queue''),
      (breaker_re, ''circuit_breaker''),
      (webhook_re, ''webhook''),
      (token_re, ''token''),
      (restart_family, ''restart'')]"

definition infer_trigger_type :: "string \<Rightarrow> string option" where
  "infer_trigger_type message =
     (if message = [] then None
      else map_option snd (find (\<lambda>(pattern, t). re_search pattern message) TRIGGER_TYPE_PATTERNS))"

section \<open>A trigger has a type\<close>

text \<open>A search succeeds with a pattern whenever it succeeds with one that always ends inside it.\<close>

lemma search_weaken:
  assumes "re_search r s" and "\<And>p p'. matches r p p' \<Longrightarrow> \<exists>p''. matches r' p p''"
  shows "re_search r' s"
  using assms unfolding re_search_iff by blast

lemma matches_Alts: "matches (Alts rs) p p' \<longleftrightarrow> (\<exists>r \<in> set rs. matches r p p')"
proof (induction rs rule: Alts.induct)
  case 1
  show ?case by (auto elim: matches_cases)
next
  case (3 r r' rs)
  then show ?case by (simp add: matches_Alt)
qed simp

lemma matches_Seqs_first: "matches (Seqs (r # rs)) p p' \<Longrightarrow> \<exists>p''. matches r p p''"
  unfolding Seqs.simps matches_Seq by blast

lemma matches_Seqs_head_mono:
  "matches (Seqs (r # rs)) p p' \<Longrightarrow> (\<And>q q'. matches r q q' \<Longrightarrow> matches r' q q') \<Longrightarrow> matches (Seqs (r' # rs)) p p'"
  unfolding Seqs.simps matches_Seq by blast

text \<open>
  Every pattern of the trigger list is covered by one of the typed families, so a message that counts
  as a trigger never goes without a type.
\<close>

lemma trigger_pattern_covered:
  assumes "r \<in> set TRIGGER_PATTERNS" and "re_search r s"
  shows "\<exists>(r', t) \<in> set TRIGGER_TYPE_PATTERNS. re_search r' s"
proof -
  have first: "re_search deploy_family s" if "re_search (Seqs (x # xs)) s" "x \<in> {deploy_word, LitI ''rollout''}" for x xs
  proof (rule search_weaken [OF that(1)])
    fix p p' assume "matches (Seqs (x # xs)) p p'"
    from matches_Seqs_first [OF this] that(2) show "\<exists>p''. matches deploy_family p p''"
      unfolding deploy_family_def matches_Alts by auto
  qed
  have release: "re_search deploy_family s" if "re_search release_re s"
    by (rule search_weaken [OF that]) (unfold deploy_family_def matches_Alts, auto simp del: LitI.simps)
  have restart: "re_search restart_family s" if "re_search (started_re w) s" "w \<in> {''application'', ''service''}" for w
  proof (rule search_weaken [OF that(1)])
    fix p p' assume "matches (started_re w) p p'"
    then have "matches (Seqs [one_of [''application'', ''service''], ws1, one_of [''started'', ''restarted'', ''restart'']]) p p'"
      unfolding started_re_def
      by (rule matches_Seqs_head_mono) (use that(2) in \<open>auto simp: one_of_def matches_Alt simp del: LitI.simps\<close>)
    then show "\<exists>p''. matches restart_family p p''"
      unfolding restart_family_def matches_Alts by (intro exI [of _ p'] bexI) auto
  qed
  have "re_search deploy_family s" if "re_search deploy_re s" using that first unfolding deploy_re_def by blast
  moreover have "re_search deploy_family s" if "re_search rollout_re s" using that first unfolding rollout_re_def by blast
  ultimately show ?thesis
    using assms release restart
    unfolding TRIGGER_PATTERNS_def CAUSAL_TRIGGER_PATTERNS_def REACTIVE_TRIGGER_PATTERNS_def TRIGGER_TYPE_PATTERNS_def
    by auto
qed

lemma empty_not_trigger: "\<not> is_trigger_message []"
  by code_simp

lemma trigger_message_typed:
  assumes "is_trigger_message message"
  shows "\<exists>t. infer_trigger_type message = Some t"
proof -
  have "message \<noteq> []" using assms empty_not_trigger by auto
  moreover obtain r t where "(r, t) \<in> set TRIGGER_TYPE_PATTERNS" "re_search r message"
    using assms trigger_pattern_covered unfolding is_trigger_message_def list_ex_iff by blast
  then have "find (\<lambda>(pattern, t). re_search pattern message) TRIGGER_TYPE_PATTERNS \<noteq> None"
    by (auto simp: find_None_iff)
  ultimately show ?thesis unfolding infer_trigger_type_def by auto
qed

end
