(* ===== verification/TimeWindows.thy ===== *)
theory TimeWindows
  imports PyValues
begin

text \<open>
  \<open>utils/time.py\<close>: duration strings and the analysis windows derived from them. A \<open>timedelta\<close> is its
  number of microseconds; a \<open>datetime\<close> is the microseconds of its wall clock since 0001-01-01 and its
  UTC offset, absent when naive. Both types of the standard library refuse values outside their range
  with \<open>OverflowError\<close>, which the model keeps. Parsing and printing of ISO timestamps is left out
  apart from the \<open>Z\<close> rewrite. The message of a \<open>ValueError\<close> is kept without the quoted input.
\<close>

section \<open>Time values of the standard library\<close>

type_synonym timedelta = int

record datetime =
  wall :: int
  utcoff :: "int option"

definition us_per_day :: int where "us_per_day = 86400000000"
definition timedelta_limit :: int where "timedelta_limit = 1000000000 * us_per_day"
definition wall_limit :: int where "wall_limit = 3652059 * us_per_day"

definition mk_timedelta :: "real \<Rightarrow> timedelta res" where
  "mk_timedelta us =
     (let n = round_half_even us in if \<bar>n\<bar> < timedelta_limit then Inr n else Inl OverflowError)"

definition datetime_ok :: "datetime \<Rightarrow> bool" where
  "datetime_ok d \<longleftrightarrow> 0 \<le> wall d \<and> wall d < wall_limit"

definition datetime_minus :: "datetime \<Rightarrow> timedelta \<Rightarrow> datetime res" where
  "datetime_minus d delta =
     (let w = wall d - delta in
      if 0 \<le> w \<and> w < wall_limit then Inr (d\<lparr>wall := w\<rparr>) else Inl OverflowError)"

definition as_utc :: "datetime \<Rightarrow> datetime" where
  "as_utc d = (if utcoff d = None then d\<lparr>utcoff := Some 0\<rparr> else d)"

text \<open>The point in time, which comparisons and the database go by; a naive value counts as UTC.\<close>

definition instant :: "datetime \<Rightarrow> int" where
  "instant d = wall d - (case utcoff d of None \<Rightarrow> 0 | Some off \<Rightarrow> off)"

definition is_aware :: "datetime \<Rightarrow> bool" where
  "is_aware d \<longleftrightarrow> utcoff d \<noteq> None"

section \<open>Durations\<close>

definition rewrite_iso_z :: "string \<Rightarrow> string" where
  "rewrite_iso_z value = (if endswith value ''Z'' then butlast value @ ''+00:00'' else value)"

fun digits_value :: "string \<Rightarrow> nat" where
  "digits_value [] = 0"
| "digits_value (c # cs) = (of_char c - 48) * 10 ^ length cs + digits_value cs"

definition unit_us :: "string \<Rightarrow> real option" where
  "unit_us unit =
     (if unit \<in> {''s'', ''sec''} then Some 1000000
      else if unit \<in> {''m'', ''min''} then Some 60000000
      else if unit \<in> {''h'', ''hr''} then Some 3600000000
      else if unit \<in> {''d'', ''day'', ''days''} then Some 86400000000
      else if unit \<in> {''w'', ''week'', ''weeks''} then Some 604800000000
      else None)"

text \<open>The groups of \<open>^(\d+(?:\.\d+)?)\s*(s|sec|...|weeks)$\<close>: the number and the text after the blanks.\<close>

definition match_duration :: "string \<Rightarrow> (real \<times> string) option" where
  "match_duration s =
     (let ip = takeWhile is_digit s; rest = dropWhile is_digit s in
      if ip = [] then None
      else
        let fp = (if startswith rest ''.'' then takeWhile is_digit (drop 1 rest) else []) in
        let rest' = (if fp = [] then rest else drop (Suc (length fp)) rest) in
        Some (real (digits_value ip) + real (digits_value fp) / 10 ^ length fp,
              lower_str (dropWhile is_space rest')))"

definition parse_duration :: "string \<Rightarrow> timedelta res" where
  "parse_duration duration_str =
     (case match_duration (strip_str duration_str) of
        None \<Rightarrow> Inl (ValueError ''Cannot parse duration'')
      | Some (value, unit) \<Rightarrow>
          (case unit_us unit of
             None \<Rightarrow> Inl (ValueError ''Cannot parse duration'')
           | Some u \<Rightarrow> mk_timedelta (value * u)))"

section \<open>Windows\<close>

definition resolve_window ::
    "datetime \<Rightarrow> string option \<Rightarrow> datetime option \<Rightarrow> datetime option \<Rightarrow> (datetime \<times> datetime) res" where
  "resolve_window now since from_time to_time =
     (case since of
        Some (c # cs) \<Rightarrow>
          rbind (parse_duration (c # cs)) (\<lambda>delta. rbind (datetime_minus now delta) (\<lambda>start. Inr (start, now)))
      | _ \<Rightarrow>
          (case (from_time, to_time) of
             (Some f, Some t) \<Rightarrow> Inr (as_utc f, as_utc t)
           | (Some f, None) \<Rightarrow> Inr (as_utc f, now)
           | _ \<Rightarrow> Inl (ValueError ''Must provide either --since or --from/--to'')))"

definition resolve_baseline_window ::
    "datetime \<Rightarrow> datetime \<Rightarrow> string \<Rightarrow> (datetime \<times> datetime) res" where
  "resolve_baseline_window window_start window_end baseline_window_str =
     rbind (parse_duration baseline_window_str) (\<lambda>baseline_duration.
     rbind (datetime_minus window_start baseline_duration) (\<lambda>baseline_start.
     Inr (baseline_start, window_start)))"

section \<open>Durations are never negative and windows never run backwards\<close>

lemma match_duration_nonneg: "match_duration s = Some (v, u) \<Longrightarrow> 0 \<le> v"
  by (auto simp: match_duration_def Let_def split: if_splits)

lemma unit_us_pos: "unit_us u = Some x \<Longrightarrow> 0 < x"
  by (auto simp: unit_us_def split: if_splits)

lemma round_half_even_nonneg: "0 \<le> x \<Longrightarrow> 0 \<le> round_half_even x"
  by (simp add: round_half_even_def Let_def)

lemma parse_duration_bounds:
  assumes "parse_duration s = Inr d"
  shows "0 \<le> d \<and> d < timedelta_limit"
proof -
  from assms obtain v u x where "match_duration (strip_str s) = Some (v, u)" "unit_us u = Some x"
    and d: "mk_timedelta (v * x) = Inr d"
    by (auto simp: parse_duration_def split: option.splits)
  then have "0 \<le> v * x" using match_duration_nonneg unit_us_pos by (meson less_imp_le mult_nonneg_nonneg)
  with d show ?thesis
    using round_half_even_nonneg by (auto simp: mk_timedelta_def Let_def split: if_splits)
qed

lemma parse_duration_errors:
  "parse_duration s = Inl e \<Longrightarrow> e = ValueError ''Cannot parse duration'' \<or> e = OverflowError"
  by (auto simp: parse_duration_def mk_timedelta_def Let_def split: option.splits if_splits)

lemma datetime_minus_Inr:
  "datetime_minus d delta = Inr d' \<longleftrightarrow> datetime_ok d' \<and> d' = d\<lparr>wall := wall d - delta\<rparr>"
  by (auto simp: datetime_minus_def datetime_ok_def Let_def)

lemma is_aware_as_utc [simp]: "is_aware (as_utc d)"
  by (simp add: is_aware_def as_utc_def)

lemma as_utc_aware: "is_aware d \<Longrightarrow> as_utc d = d"
  by (simp add: is_aware_def as_utc_def)

lemma wall_as_utc [simp]: "wall (as_utc d) = wall d"
  by (simp add: as_utc_def)

lemma resolve_window_aware:
  "is_aware now \<Longrightarrow> resolve_window now since f t = Inr (a, b) \<Longrightarrow> is_aware a \<and> is_aware b"
  by (auto simp: resolve_window_def res_simps datetime_minus_Inr split: option.splits list.splits)
    (simp_all add: is_aware_def)

lemma resolve_window_since:
  assumes "s \<noteq> []" and "resolve_window now (Some s) f t = Inr (a, b)"
  shows "b = now \<and> (\<exists>d. parse_duration s = Inr d \<and> wall a = wall now - d \<and> utcoff a = utcoff now)"
  using assms by (auto simp: resolve_window_def res_simps datetime_minus_Inr split: list.splits)

lemma resolve_baseline_window_adjacent:
  assumes "resolve_baseline_window start stop s = Inr (a, b)"
  shows "b = start \<and> (\<exists>d. parse_duration s = Inr d \<and> wall a = wall start - d \<and> wall a \<le> wall b)"
  using assms parse_duration_bounds by (auto simp: resolve_baseline_window_def res_simps datetime_minus_Inr)

text \<open>A duration of ten digits of days is well formed and still does not fit.\<close>

lemma overlong_duration: "parse_duration ''9999999999d'' = Inl OverflowError"
  by (simp add: parse_duration_def match_duration_def strip_str_def lstrip_str_def rstrip_str_def is_space_def
      is_digit_def lower_str_def lower_char_def startswith_def unit_us_def mk_timedelta_def timedelta_limit_def
      us_per_day_def round_half_even_def Let_def)

end
