(* ===== verification/Clustering.thy ===== *)
theory Clustering
  imports Features Triggers TimeWindows
begin

text \<open>
  Fingerprint clustering of log lines (\<open>core/clustering/scoring.py\<close>, \<open>baseline.py\<close> and the grouping half
  of \<open>clusterer.py\<close>): severity and importance, baseline counts, the row scan \<open>_group_rows\<close>, the
  aggregation \<open>_aggregate_groups\<close> the service runs in the database, and the cluster built from a group.
  A log table is the list of its rows. The answers of the four aggregation queries are arguments of the
  model, because their row order is the database's choice; \<open>answers\<close> states what SQL promises of them.
  Counts and identifiers are natural numbers; timestamps are microseconds.
\<close>

section \<open>Severity and importance\<close>

record severity_settings =
  weight_fatal :: real
  weight_error :: real
  weight_warn :: real
  weight_info :: real
  weight_debug :: real

definition severity_weights :: "severity_settings \<Rightarrow> (string, real) dict" where
  "severity_weights st =
     [(''fatal'', weight_fatal st), (''critical'', weight_fatal st), (''error'', weight_error st),
      (''err'', weight_error st), (''warn'', weight_warn st), (''warning'', weight_warn st),
      (''info'', weight_info st), (''debug'', weight_debug st), (''trace'', weight_debug st)]"

definition get_severity_weight :: "severity_settings \<Rightarrow> (string, nat) dict \<Rightarrow> real" where
  "get_severity_weight st levels_distribution =
     (if levels_distribution = [] then 1
      else
        let total = sum_list (dvals levels_distribution) in
        if total = 0 then 1
        else
          foldl (\<lambda>weighted (level, n).
             weighted + dget_or (severity_weights st) (lower_str level) 1 * (of_nat n / of_nat total)) 0 levels_distribution)"

definition compute_importance_score ::
    "severity_settings \<Rightarrow> nat \<Rightarrow> (string, nat) dict \<Rightarrow> real \<Rightarrow> nat \<Rightarrow> bool \<Rightarrow> real" where
  "compute_importance_score st n levels_distribution ratio services_count is_trigger_correlated =
     (let severity = get_severity_weight st levels_distribution;
          log_count = ln (of_nat n + 1);
          change_weight = ln (ratio + 1);
          spread_weight = ln (of_nat services_count + 1) * (1 / 2);
          trigger_weight = (if is_trigger_correlated then 2 else 0) in
      severity + log_count + change_weight + spread_weight + trigger_weight)"

section \<open>The log table\<close>

record log_entry = log_row +
  le_id :: nat
  le_environment :: "string option"
  le_ingestion_job_id :: "nat option"

record ingestion_job =
  ij_id :: nat
  ij_started_at :: "int option"
  ij_scope :: string

text \<open>A comparison with \<open>NULL\<close> is not true, so such a row is not selected.\<close>

definition sql_filter :: "'v option \<Rightarrow> 'v option \<Rightarrow> bool" where
  "sql_filter wanted col = (case wanted of None \<Rightarrow> True | Some x \<Rightarrow> col = Some x)"

record window_query =
  wq_start :: int
  wq_end :: int
  wq_scope :: string
  wq_service :: "string option"
  wq_environment :: "string option"
  wq_job :: "nat option"

definition base_window_query :: "window_query \<Rightarrow> log_entry \<Rightarrow> bool" where
  "base_window_query q e \<longleftrightarrow>
     between (wq_start q) (wq_end q) (lr_timestamp e) \<and> lr_fingerprint e \<noteq> None \<and> lr_scope e = wq_scope q
     \<and> sql_filter (named (wq_service q)) (lr_service e)
     \<and> sql_filter (named (wq_environment q)) (le_environment e)
     \<and> sql_filter (wq_job q) (le_ingestion_job_id e)"

section \<open>Baseline counts\<close>

definition known_and :: "('v \<Rightarrow> bool) \<Rightarrow> 'v option \<Rightarrow> bool" where
  "known_and p col = (case col of None \<Rightarrow> False | Some x \<Rightarrow> p x)"

text \<open>Which rows the exclusion of a job leaves, by the job table.\<close>

definition exclusion :: "ingestion_job list \<Rightarrow> string \<Rightarrow> nat option \<Rightarrow> log_entry \<Rightarrow> bool" where
  "exclusion jobs sc exclude e =
     (case exclude of
        None \<Rightarrow> True
      | Some j \<Rightarrow>
          (case find (\<lambda>job. ij_id job = j) jobs of
             Some job \<Rightarrow>
               (case ij_started_at job of
                  Some t \<Rightarrow>
                    let later_jobs = map ij_id (filter (\<lambda>job'. (case ij_started_at job' of None \<Rightarrow> False | Some t' \<Rightarrow> t \<le> t') \<and> ij_scope job' = sc) jobs) in
                    later_jobs = [] \<or> known_and (\<lambda>i. i \<notin> set later_jobs) (le_ingestion_job_id e)
                | None \<Rightarrow> known_and (\<lambda>i. i \<noteq> j) (le_ingestion_job_id e))
           | None \<Rightarrow> known_and (\<lambda>i. i \<noteq> j) (le_ingestion_job_id e)))"

text \<open>\<open>GROUP BY fingerprint\<close> with \<open>count(id)\<close>; the caller only looks fingerprints up.\<close>

definition get_baseline_counts ::
    "log_entry list \<Rightarrow> ingestion_job list \<Rightarrow> window_query \<Rightarrow> nat option \<Rightarrow> (string, nat) dict" where
  "get_baseline_counts logs jobs q exclude =
     map (\<lambda>(fp, es). (fp, length es))
       (group_by (\<lambda>e. the (lr_fingerprint e))
         (filter (\<lambda>e. base_window_query q e \<and> exclusion jobs (wq_scope q) exclude e) logs))"

definition compute_change_ratio :: "nat \<Rightarrow> nat \<Rightarrow> real" where
  "compute_change_ratio current_count baseline_count = (of_nat current_count + 1) / (of_nat baseline_count + 1)"

section \<open>Grouping by a scan of the rows\<close>

definition CLUSTER_ERROR_LEVELS :: "string set" where
  "CLUSTER_ERROR_LEVELS = {''error'', ''fatal'', ''critical''}"

definition MAX_CLUSTER_MEMBERS :: nat where "MAX_CLUSTER_MEMBERS = 100"

record cluster_row =
  cr_fingerprint :: string
  cr_message :: "string option"
  cr_service :: "string option"
  cr_level :: "string option"
  cr_timestamp :: "int option"
  cr_id :: nat

definition cluster_row_of :: "log_entry \<Rightarrow> cluster_row" where
  "cluster_row_of e =
     \<lparr>cr_fingerprint = the (lr_fingerprint e), cr_message = lr_normalized_message e, cr_service = lr_service e,
      cr_level = lr_level e, cr_timestamp = lr_timestamp e, cr_id = le_id e\<rparr>"

definition cluster_select :: "window_query \<Rightarrow> log_entry list \<Rightarrow> cluster_row list" where
  "cluster_select q logs = map cluster_row_of (filter (base_window_query q) logs)"

record cluster_group =
  gr_messages :: "string list"
  gr_services :: "(string, nat) dict"
  gr_levels :: "(string, nat) dict"
  gr_error_services :: "(string, nat) dict"
  gr_timestamps :: "int list"
  gr_ids :: "nat list"
  gr_count :: "nat option"

definition new_group :: cluster_group where
  "new_group = \<lparr>gr_messages = [], gr_services = [], gr_levels = [], gr_error_services = [], gr_timestamps = [],
     gr_ids = [], gr_count = None\<rparr>"

definition error_level :: "string option \<Rightarrow> bool" where
  "error_level level = (case named level of None \<Rightarrow> False | Some l \<Rightarrow> lower_str l \<in> CLUSTER_ERROR_LEVELS)"

definition add_row :: "cluster_row \<Rightarrow> cluster_group \<Rightarrow> cluster_group" where
  "add_row r g =
     (let g = (case named (cr_message r) of None \<Rightarrow> g | Some m \<Rightarrow> g\<lparr>gr_messages := gr_messages g @ [m]\<rparr>);
          g = (case named (cr_service r) of
                 None \<Rightarrow> g
               | Some s \<Rightarrow>
                   let g = g\<lparr>gr_services := counter_add s (gr_services g)\<rparr> in
                   if error_level (cr_level r) then g\<lparr>gr_error_services := counter_add s (gr_error_services g)\<rparr> else g);
          g = (case named (cr_level r) of None \<Rightarrow> g | Some l \<Rightarrow> g\<lparr>gr_levels := counter_add l (gr_levels g)\<rparr>);
          g = (case cr_timestamp r of None \<Rightarrow> g | Some t \<Rightarrow> g\<lparr>gr_timestamps := gr_timestamps g @ [t]\<rparr>) in
      g\<lparr>gr_ids := gr_ids g @ [cr_id r]\<rparr>)"

definition group_rows :: "cluster_row list \<Rightarrow> (string, cluster_group) dict" where
  "group_rows rows =
     foldl (\<lambda>groups r. dset (cr_fingerprint r) (add_row r (dget_or groups (cr_fingerprint r) new_group)) groups) [] rows"

section \<open>Grouping by aggregation queries\<close>

type_synonym answer_a = "(string \<times> nat \<times> int option \<times> int option \<times> nat list option) list"
type_synonym answer_b = "(string \<times> string \<times> nat \<times> nat) list"
type_synonym answer_c = "(string \<times> string \<times> nat) list"

definition fresh_group :: cluster_group where
  "fresh_group = new_group\<lparr>gr_count := Some 0\<rparr>"

definition on_group :: "string \<Rightarrow> (cluster_group \<Rightarrow> cluster_group) \<Rightarrow> (string, cluster_group) dict \<Rightarrow> (string, cluster_group) dict" where
  "on_group fp f groups = dset fp (f (dget_or groups fp fresh_group)) groups"

definition step_a :: "(string, cluster_group) dict \<Rightarrow> string \<times> nat \<times> int option \<times> int option \<times> nat list option \<Rightarrow> (string, cluster_group) dict" where
  "step_a groups row =
     (case row of (fp, cnt, first_seen, last_seen, ids) \<Rightarrow>
        on_group fp (\<lambda>g. g\<lparr>gr_count := Some cnt, gr_ids := (case ids of None \<Rightarrow> [] | Some l \<Rightarrow> l),
                           gr_timestamps := List.map_filter (\<lambda>t. t) [first_seen, last_seen]\<rparr>) groups)"

definition step_b :: "(string, cluster_group) dict \<Rightarrow> string \<times> string \<times> nat \<times> nat \<Rightarrow> (string, cluster_group) dict" where
  "step_b groups row =
     (case row of (fp, svc, cnt, err_cnt) \<Rightarrow>
        on_group fp (\<lambda>g.
          let g = g\<lparr>gr_services := dset svc cnt (gr_services g)\<rparr> in
          if err_cnt \<noteq> 0 then g\<lparr>gr_error_services := dset svc err_cnt (gr_error_services g)\<rparr> else g) groups)"

definition step_c :: "(string, cluster_group) dict \<Rightarrow> string \<times> string \<times> nat \<Rightarrow> (string, cluster_group) dict" where
  "step_c groups row =
     (case row of (fp, level, cnt) \<Rightarrow> on_group fp (\<lambda>g. g\<lparr>gr_levels := dset level cnt (gr_levels g)\<rparr>) groups)"

definition best_messages :: "answer_c \<Rightarrow> (string, nat \<times> string) dict" where
  "best_messages qd =
     foldl (\<lambda>best (fp, message, cnt).
        case dget best fp of
          None \<Rightarrow> dset fp (cnt, message) best
        | Some (n, m) \<Rightarrow> if n < cnt then dset fp (cnt, message) best else best) [] qd"

definition aggregate_groups :: "answer_a \<Rightarrow> answer_b \<Rightarrow> answer_c \<Rightarrow> answer_c \<Rightarrow> (string, cluster_group) dict" where
  "aggregate_groups qa qb qc qd =
     (let groups = foldl step_a [] qa;
          groups = foldl step_b groups qb;
          groups = foldl step_c groups qc in
      foldl (\<lambda>groups (fp, n, message). on_group fp (\<lambda>g. g\<lparr>gr_messages := [message]\<rparr>) groups) groups (best_messages qd))"

section \<open>Clusters\<close>

record cluster_data =
  cd_fingerprint :: string
  cd_representative_message :: string
  cd_count :: nat
  cd_services :: "(string, nat) dict"
  cd_levels :: "(string, nat) dict"
  cd_first_seen :: "int option"
  cd_last_seen :: "int option"
  cd_baseline_count :: nat
  cd_change_ratio :: real
  cd_importance_score :: real
  cd_is_trigger :: bool
  cd_log_entry_ids :: "nat list"
  cd_merged_fingerprints :: "string list"
  cd_error_service_counts :: "(string, nat) dict"

text \<open>\<open>Counter(xs).most_common(1)[0][0]\<close>: of the most frequent elements the one met first.\<close>

definition most_common_elem :: "'a list \<Rightarrow> 'a option" where
  "most_common_elem xs = max_by (\<lambda>x. count_list xs x) (dedup xs)"

definition build_cluster_data ::
    "severity_settings \<Rightarrow> string \<Rightarrow> cluster_group \<Rightarrow> (string, nat) dict \<Rightarrow> cluster_data" where
  "build_cluster_data st fp g baseline_counts =
     (let cnt = (case gr_count g of Some n \<Rightarrow> n | None \<Rightarrow> length (gr_ids g));
          services = gr_services g;
          levels = gr_levels g;
          error_service_counts = gr_error_services g;
          timestamps = sort (gr_timestamps g);
          baseline_count = counter_get baseline_counts fp;
          ratio = compute_change_ratio cnt baseline_count;
          rep_msg = (case most_common_elem (gr_messages g) of None \<Rightarrow> [] | Some m \<Rightarrow> m);
          is_trigger = is_trigger_message rep_msg;
          importance = compute_importance_score st cnt levels ratio (length services) is_trigger in
      \<lparr>cd_fingerprint = fp, cd_representative_message = rep_msg, cd_count = cnt, cd_services = services,
       cd_levels = levels,
       cd_first_seen = (case timestamps of [] \<Rightarrow> None | t # _ \<Rightarrow> Some t),
       cd_last_seen = (case timestamps of [] \<Rightarrow> None | _ \<Rightarrow> Some (last timestamps)),
       cd_baseline_count = baseline_count, cd_change_ratio = ratio, cd_importance_score = importance,
       cd_is_trigger = is_trigger, cd_log_entry_ids = gr_ids g, cd_merged_fingerprints = [],
       cd_error_service_counts = error_service_counts\<rparr>)"

section \<open>What the database promises of its answers\<close>

text \<open>
  Each query answers with exactly one row per group, in any order. \<open>min\<close> and \<open>max\<close> skip \<open>NULL\<close>, and the
  member sample is any selection of at most \<open>MAX_CLUSTER_MEMBERS\<close> ids of the group.
\<close>

definition of_fp :: "string \<Rightarrow> cluster_row list \<Rightarrow> cluster_row list" where
  "of_fp fp rows = filter (\<lambda>r. cr_fingerprint r = fp) rows"

definition seen_times :: "cluster_row list \<Rightarrow> int list" where
  "seen_times rows = List.map_filter cr_timestamp rows"

definition min_seen :: "cluster_row list \<Rightarrow> int option" where
  "min_seen rows = (case sort (seen_times rows) of [] \<Rightarrow> None | t # _ \<Rightarrow> Some t)"

definition max_seen :: "cluster_row list \<Rightarrow> int option" where
  "max_seen rows = (case sort (seen_times rows) of [] \<Rightarrow> None | _ \<Rightarrow> Some (last (sort (seen_times rows))))"

definition tally :: "(cluster_row \<Rightarrow> string option) \<Rightarrow> string \<Rightarrow> string \<Rightarrow> cluster_row list \<Rightarrow> nat" where
  "tally f fp k rows = length (filter (\<lambda>r. f r = Some k) (of_fp fp rows))"

definition svc_key :: "cluster_row \<Rightarrow> string option" where
  "svc_key r = named (cr_service r)"

definition error_key :: "cluster_row \<Rightarrow> string option" where
  "error_key r = (if error_level (cr_level r) then named (cr_service r) else None)"

definition level_key :: "cluster_row \<Rightarrow> string option" where
  "level_key r = named (cr_level r)"

definition message_key :: "cluster_row \<Rightarrow> string option" where
  "message_key r = named (cr_message r)"

definition grouped_by :: "(cluster_row \<Rightarrow> string option) \<Rightarrow> cluster_row list \<Rightarrow> (string \<times> string) list \<Rightarrow> bool" where
  "grouped_by f rows keys \<longleftrightarrow> distinct keys
     \<and> list_all (\<lambda>(fp, k). list_ex (\<lambda>r. cr_fingerprint r = fp \<and> f r = Some k) rows) keys
     \<and> list_all (\<lambda>r. case f r of None \<Rightarrow> True | Some k \<Rightarrow> (cr_fingerprint r, k) \<in> set keys) rows"

definition answers_a :: "cluster_row list \<Rightarrow> answer_a \<Rightarrow> bool" where
  "answers_a rows qa \<longleftrightarrow> distinct (map fst qa) \<and> set (map fst qa) = set (map cr_fingerprint rows)
     \<and> list_all (\<lambda>(fp, cnt, first_seen, last_seen, ids).
         cnt = length (of_fp fp rows) \<and> first_seen = min_seen (of_fp fp rows) \<and> last_seen = max_seen (of_fp fp rows)
         \<and> (case ids of None \<Rightarrow> False
            | Some l \<Rightarrow> length l = min MAX_CLUSTER_MEMBERS cnt \<and> mset l \<subseteq># mset (map cr_id (of_fp fp rows)))) qa"

definition answers_b :: "cluster_row list \<Rightarrow> answer_b \<Rightarrow> bool" where
  "answers_b rows qb \<longleftrightarrow> grouped_by svc_key rows (map (\<lambda>(fp, svc, _, _). (fp, svc)) qb)
     \<and> list_all (\<lambda>(fp, svc, cnt, err). cnt = tally svc_key fp svc rows \<and> err = tally error_key fp svc rows) qb"

definition answers_c :: "(cluster_row \<Rightarrow> string option) \<Rightarrow> cluster_row list \<Rightarrow> answer_c \<Rightarrow> bool" where
  "answers_c f rows qc \<longleftrightarrow> grouped_by f rows (map (\<lambda>(fp, k, _). (fp, k)) qc)
     \<and> list_all (\<lambda>(fp, k, cnt). cnt = tally f fp k rows) qc"

definition answers :: "cluster_row list \<Rightarrow> answer_a \<Rightarrow> answer_b \<Rightarrow> answer_c \<Rightarrow> answer_c \<Rightarrow> bool" where
  "answers rows qa qb qc qd \<longleftrightarrow>
     answers_a rows qa \<and> answers_b rows qb \<and> answers_c level_key rows qc \<and> answers_c message_key rows qd"

section \<open>The scan, group by group\<close>

lemma dget_fold_update:
  "dget (foldl (\<lambda>d x. dset (k x) (f x (dget_or d (k x) z)) d) d xs) y =
     (if filter (\<lambda>x. k x = y) xs = [] then dget d y
      else Some (foldl (\<lambda>v x. f x v) (dget_or d y z) (filter (\<lambda>x. k x = y) xs)))"
proof (induction xs arbitrary: d)
  case (Cons x xs)
  show ?case by (simp add: Cons.IH) (simp add: dget_or_def)
qed simp

lemma dget_fold_update_Some:
  "dget d y = Some v \<Longrightarrow> dget (foldl (\<lambda>d x. dset (k x) (f x (dget_or d (k x) z)) d) d xs) y =
     Some (foldl (\<lambda>v x. f x v) v (filter (\<lambda>x. k x = y) xs))"
  unfolding dget_fold_update by (simp add: dget_or_def)

lemma scan_rows:
  "foldl (\<lambda>g r. add_row r g) g rs =
     \<lparr>gr_messages = gr_messages g @ List.map_filter message_key rs,
      gr_services = foldl (count_step svc_key) (gr_services g) rs,
      gr_levels = foldl (count_step level_key) (gr_levels g) rs,
      gr_error_services = foldl (count_step error_key) (gr_error_services g) rs,
      gr_timestamps = gr_timestamps g @ seen_times rs,
      gr_ids = gr_ids g @ map cr_id rs,
      gr_count = gr_count g\<rparr>"
proof (induction rs arbitrary: g)
  case (Cons r rs)
  have "add_row r g =
     \<lparr>gr_messages = gr_messages g @ List.map_filter message_key [r],
      gr_services = count_step svc_key (gr_services g) r,
      gr_levels = count_step level_key (gr_levels g) r,
      gr_error_services = count_step error_key (gr_error_services g) r,
      gr_timestamps = gr_timestamps g @ seen_times [r],
      gr_ids = gr_ids g @ [cr_id r],
      gr_count = gr_count g\<rparr>"
    by (auto simp: add_row_def Let_def count_step_def message_key_def svc_key_def level_key_def error_key_def
        seen_times_def List.map_filter_simps split: option.splits)
  then show ?case
    by (simp add: Cons.IH seen_times_def List.map_filter_simps split: option.splits)
qed (simp add: seen_times_def List.map_filter_simps)

lemma group_rows_get:
  "dget (group_rows rows) fp =
     (if of_fp fp rows = [] then None else Some (foldl (\<lambda>g r. add_row r g) new_group (of_fp fp rows)))"
  unfolding group_rows_def of_fp_def dget_fold_update by (simp add: dget_or_def)

lemma count_set:
  "set (foldl (count_step f) [] rs) = {(k, n). n = length (filter (\<lambda>r. f r = Some k) rs) \<and> n \<noteq> 0}"
proof -
  let ?d = "foldl (count_step f) [] rs"
  have wf: "dict_wf ?d" by (rule count_wf) simp
  have n: "counter_get ?d k = length (filter (\<lambda>r. f r = Some k) rs)" for k
    by (simp add: count_get)
  have "(k, m) \<in> set ?d \<longleftrightarrow> m = length (filter (\<lambda>r. f r = Some k) rs) \<and> m \<noteq> 0" for k m
  proof -
    have "(k, m) \<in> set ?d \<longleftrightarrow> dget ?d k = Some m" using wf by (simp add: dget_wf_iff)
    also have "\<dots> \<longleftrightarrow> m = counter_get ?d k \<and> m \<noteq> 0"
      using counter_entry [of ?d k] count_entry_pos [of k f rs] dget_None_iff [of ?d k]
      by (cases "dget ?d k") (auto simp: counter_get_def dget_or_def)
    finally show ?thesis unfolding n .
  qed
  then show ?thesis by auto
qed

lemma mset_count:
  assumes "distinct (map fst d)" and "set d = {(k, n). n = length (filter (\<lambda>r. f r = Some k) rs) \<and> n \<noteq> 0}"
  shows "mset d = mset (foldl (count_step f) [] rs)"
proof -
  have "dict_wf (foldl (count_step f) [] rs)" by (rule count_wf) simp
  then have "distinct (foldl (count_step f) [] rs)" by (simp add: dict_wf_def distinct_map)
  moreover have "distinct d" using assms(1) by (simp add: distinct_map)
  ultimately show ?thesis using assms(2) by (simp add: set_eq_iff_mset_eq_distinct [symmetric] count_set)
qed

section \<open>The aggregation, group by group\<close>

lemma foldl_dset_distinct:
  "distinct (map k xs) \<Longrightarrow> foldl (\<lambda>d x. dset (k x) (v x) d) [] xs = map (\<lambda>x. (k x, v x)) xs"
  using dict_of_distinct [of "map (\<lambda>x. (k x, v x)) xs"]
  by (simp add: dict_of_def foldl_conv_fold fold_map comp_def)

lemma fold_services:
  "foldl (\<lambda>g (fp, svc, cnt, err).
      let g = g\<lparr>gr_services := dset svc cnt (gr_services g)\<rparr> in
      if err \<noteq> 0 then g\<lparr>gr_error_services := dset svc err (gr_error_services g)\<rparr> else g) g xs =
   g\<lparr>gr_services := foldl (\<lambda>d (fp, svc, cnt, err). dset svc cnt d) (gr_services g) xs,
     gr_error_services := foldl (\<lambda>d (fp, svc, cnt, err). dset svc err d) (gr_error_services g)
       (filter (\<lambda>(fp, svc, cnt, err). err \<noteq> 0) xs)\<rparr>"
  by (induction xs arbitrary: g) (simp_all add: case_prod_beta Let_def)

lemma fold_levels:
  "foldl (\<lambda>g (fp, level, cnt). g\<lparr>gr_levels := dset level cnt (gr_levels g)\<rparr>) g xs =
   g\<lparr>gr_levels := foldl (\<lambda>d (fp, level, cnt). dset level cnt d) (gr_levels g) xs\<rparr>"
  by (induction xs arbitrary: g) (simp_all add: case_prod_beta)

lemma step_forms:
  "foldl step_a d qa = foldl (\<lambda>d x. dset (fst x) ((\<lambda>(fp, cnt, t0, t1, ids) g. g\<lparr>gr_count := Some cnt,
     gr_ids := (case ids of None \<Rightarrow> [] | Some l \<Rightarrow> l), gr_timestamps := List.map_filter (\<lambda>t. t) [t0, t1]\<rparr>) x (dget_or d (fst x) fresh_group)) d) d qa"
  "foldl step_b d qb = foldl (\<lambda>d x. dset (fst x) ((\<lambda>(fp, svc, cnt, err) g.
      let g = g\<lparr>gr_services := dset svc cnt (gr_services g)\<rparr> in
      if err \<noteq> 0 then g\<lparr>gr_error_services := dset svc err (gr_error_services g)\<rparr> else g) x (dget_or d (fst x) fresh_group)) d) d qb"
  "foldl step_c d qc = foldl (\<lambda>d x. dset (fst x) ((\<lambda>(fp, level, cnt) g. g\<lparr>gr_levels := dset level cnt (gr_levels g)\<rparr>) x
     (dget_or d (fst x) fresh_group)) d) d qc"
  by (auto simp: step_a_def step_b_def step_c_def on_group_def intro!: foldl_cong)

lemma best_messages_get:
  "(dget (best_messages qd) fp = None \<longleftrightarrow> fp \<notin> fst ` set qd)
   \<and> (\<forall>n m. dget (best_messages qd) fp = Some (n, m) \<longrightarrow> (fp, m, n) \<in> set qd \<and> (\<forall>m' n'. (fp, m', n') \<in> set qd \<longrightarrow> n' \<le> n))"
proof (induction qd rule: rev_induct)
  case (snoc x qd)
  obtain fp' m n where x: "x = (fp', m, n)" by (cases x) auto
  have step: "best_messages (qd @ [x]) = (case dget (best_messages qd) fp' of
      None \<Rightarrow> dset fp' (n, m) (best_messages qd)
    | Some (n0, m0) \<Rightarrow> if n0 < n then dset fp' (n, m) (best_messages qd) else best_messages qd)"
    unfolding best_messages_def x by simp
  show ?case
  proof (cases "fp' = fp")
    case True
    show ?thesis
    proof (cases "dget (best_messages qd) fp")
      case None
      then have "fp \<notin> fst ` set qd" using snoc by simp
      then have "(fp, m', n') \<notin> set qd" for m' n' by force
      with None True show ?thesis unfolding step by (simp add: x)
    next
      case (Some p)
      obtain n0 m0 where p: "p = (n0, m0)" by (cases p)
      have "fp \<in> fst ` set qd" "(fp, m0, n0) \<in> set qd" "\<And>m' n'. (fp, m', n') \<in> set qd \<Longrightarrow> n' \<le> n0"
        using snoc Some p by auto
      moreover from this(3) have "n0 < n \<Longrightarrow> (fp, m', n') \<in> set qd \<Longrightarrow> n' \<le> n" for m' n'
        by (meson le_less_trans less_imp_le)
      ultimately show ?thesis using Some True unfolding step by (auto simp: x p)
    qed
  next
    case False
    with snoc show ?thesis unfolding step by (auto simp: x split: option.splits)
  qed
qed (simp add: best_messages_def)

lemma best_messages_wf: "dict_wf (best_messages qd)"
proof (induction qd rule: rev_induct)
  case (snoc x qd)
  obtain fp m n where x: "x = (fp, m, n)" by (cases x) auto
  show ?case using snoc by (auto simp: best_messages_def x split: option.splits)
qed (simp add: best_messages_def)

lemma fold_messages:
  assumes "dict_wf best"
  shows "dget (foldl (\<lambda>groups (fp, n, message). on_group fp (\<lambda>g. g\<lparr>gr_messages := [message]\<rparr>) groups) d best) fp =
    (case dget best fp of None \<Rightarrow> dget d fp
     | Some (n, message) \<Rightarrow> Some ((dget_or d fp fresh_group)\<lparr>gr_messages := [message]\<rparr>))"
  using assms
proof (induction best arbitrary: d)
  case (Cons x best)
  obtain fp' n m where x: "x = (fp', n, m)" by (cases x) auto
  have wf: "dict_wf best" and new: "dget best fp' = None"
    using Cons.prems by (auto simp: dict_wf_def x dget_None_iff)
  from new show ?case unfolding foldl_Cons Cons.IH [OF wf]
    by (auto simp: x on_group_def dget_or_def split: option.splits)
qed simp

lemma grouped_distinct:
  assumes "grouped_by f rows (map (\<lambda>x. (fst x, k x)) q)"
  shows "distinct (map k (filter (\<lambda>x. fst x = fp) q))"
proof -
  have "distinct (map (\<lambda>x. (fst x, k x)) (filter (\<lambda>x. fst x = fp) q))"
    using assms by (simp add: grouped_by_def distinct_map_filter)
  then show ?thesis by (auto simp: distinct_map inj_on_def)
qed

lemma grouped_entries:
  assumes "grouped_by f rows (map (\<lambda>x. (fst x, k x)) q)" and "\<And>x. x \<in> set q \<Longrightarrow> v x = tally f (fst x) (k x) rows"
  shows "set (map (\<lambda>x. (k x, v x)) (filter (\<lambda>x. fst x = fp) q)) =
    {(key, n). n = length (filter (\<lambda>r. f r = Some key) (of_fp fp rows)) \<and> n \<noteq> 0}"
proof (intro set_eqI iffI)
  fix e assume "e \<in> set (map (\<lambda>x. (k x, v x)) (filter (\<lambda>x. fst x = fp) q))"
  then obtain x where x: "x \<in> set q" "fst x = fp" "e = (k x, v x)" by auto
  from x(1,2) assms(1) have "\<exists>r \<in> set rows. cr_fingerprint r = fp \<and> f r = Some (k x)"
    by (fastforce simp: grouped_by_def list_all_iff list_ex_iff)
  then have "tally f fp (k x) rows \<noteq> 0" by (auto simp: tally_def of_fp_def filter_empty_conv)
  with x assms(2) show "e \<in> {(key, n). n = length (filter (\<lambda>r. f r = Some key) (of_fp fp rows)) \<and> n \<noteq> 0}"
    by (simp add: tally_def)
next
  fix e assume "e \<in> {(key, n). n = length (filter (\<lambda>r. f r = Some key) (of_fp fp rows)) \<and> n \<noteq> 0}"
  then obtain key r where e: "e = (key, tally f fp key rows)" "r \<in> set rows" "cr_fingerprint r = fp" "f r = Some key"
    by (auto simp: tally_def of_fp_def filter_empty_conv)
  with assms(1) obtain x where x: "x \<in> set q" "fst x = fp" "k x = key"
    by (fastforce simp: grouped_by_def list_all_iff split: option.splits)
  then have "e = (k x, v x)" using e(1) assms(2) by simp
  with x show "e \<in> set (map (\<lambda>x. (k x, v x)) (filter (\<lambda>x. fst x = fp) q))" by auto
qed

text \<open>The aggregated group of a fingerprint, against the rows it stands for.\<close>

definition group_of :: "cluster_row list \<Rightarrow> cluster_group \<Rightarrow> bool" where
  "group_of rs g \<longleftrightarrow>
     gr_count g = Some (length rs)
     \<and> gr_timestamps g = List.map_filter (\<lambda>t. t) [min_seen rs, max_seen rs]
     \<and> length (gr_ids g) = min MAX_CLUSTER_MEMBERS (length rs) \<and> mset (gr_ids g) \<subseteq># mset (map cr_id rs)
     \<and> mset (gr_services g) = mset (foldl (count_step svc_key) [] rs)
     \<and> mset (gr_error_services g) = mset (foldl (count_step error_key) [] rs)
     \<and> mset (gr_levels g) = mset (foldl (count_step level_key) [] rs)
     \<and> (case gr_messages g of
          [] \<Rightarrow> List.map_filter message_key rs = []
        | m # ms \<Rightarrow> ms = [] \<and> m \<in> set (List.map_filter message_key rs)
            \<and> (\<forall>m'. count_list (List.map_filter message_key rs) m' \<le> count_list (List.map_filter message_key rs) m))"

lemma count_map_filter: "count_list (List.map_filter f rs) k = length (filter (\<lambda>r. f r = Some k) rs)"
  by (induction rs) (auto simp: List.map_filter_simps split: option.splits)

lemma filter_distinct_key:
  assumes "distinct (map fst q)" and "(k, v) \<in> set q"
  shows "filter (\<lambda>x. fst x = k) q = [(k, v)]"
  using assms
proof (induction q)
  case (Cons y q)
  then show ?case by (cases y) (auto simp: filter_empty_conv image_iff)
qed simp

lemma answers_forms:
  "answers_b rows qb \<longleftrightarrow> grouped_by svc_key rows (map (\<lambda>x. (fst x, fst (snd x))) qb)
     \<and> (\<forall>x \<in> set qb. fst (snd (snd x)) = tally svc_key (fst x) (fst (snd x)) rows
          \<and> snd (snd (snd x)) = tally error_key (fst x) (fst (snd x)) rows)"
  "answers_c f rows qc \<longleftrightarrow> grouped_by f rows (map (\<lambda>x. (fst x, fst (snd x))) qc)
     \<and> (\<forall>x \<in> set qc. snd (snd x) = tally f (fst x) (fst (snd x)) rows)"
  by (auto simp: answers_b_def answers_c_def list_all_iff case_prod_beta')

lemma level_counts:
  assumes "answers_c f rows qc"
  shows "mset (foldl (\<lambda>d (fp, level, cnt). dset level cnt d) [] (filter (\<lambda>x. fst x = fp) qc)) =
    mset (foldl (count_step f) [] (of_fp fp rows))"
proof -
  let ?q = "filter (\<lambda>x. fst x = fp) qc"
  have gr: "grouped_by f rows (map (\<lambda>x. (fst x, fst (snd x))) qc)"
    and val: "\<And>x. x \<in> set qc \<Longrightarrow> snd (snd x) = tally f (fst x) (fst (snd x)) rows"
    using assms by (auto simp: answers_forms)
  have form: "foldl (\<lambda>d (fp, level, cnt). dset level cnt d) [] ?q = map (\<lambda>x. (fst (snd x), snd (snd x))) ?q"
    using foldl_dset_distinct [OF grouped_distinct [OF gr, of fp], of "\<lambda>x. snd (snd x)"] by (simp add: case_prod_beta')
  have "distinct (map fst (map (\<lambda>x. (fst (snd x), snd (snd x))) ?q))"
    using grouped_distinct [OF gr, of fp] by (simp add: comp_def)
  then show ?thesis unfolding form by (rule mset_count) (rule grouped_entries [OF gr val])
qed

lemma service_counts:
  assumes "answers_b rows qb"
  shows "mset (foldl (\<lambda>d (fp, svc, cnt, err). dset svc cnt d) [] (filter (\<lambda>x. fst x = fp) qb)) =
      mset (foldl (count_step svc_key) [] (of_fp fp rows))"
    and "mset (foldl (\<lambda>d (fp, svc, cnt, err). dset svc err d) []
        (filter (\<lambda>(fp, svc, cnt, err). err \<noteq> 0) (filter (\<lambda>x. fst x = fp) qb))) =
      mset (foldl (count_step error_key) [] (of_fp fp rows))"
proof -
  let ?q = "filter (\<lambda>x. fst x = fp) qb"
  let ?e = "filter (\<lambda>(fp, svc, cnt, err). err \<noteq> 0) ?q"
  have gr: "grouped_by svc_key rows (map (\<lambda>x. (fst x, fst (snd x))) qb)"
    and val: "\<And>x. x \<in> set qb \<Longrightarrow> fst (snd (snd x)) = tally svc_key (fst x) (fst (snd x)) rows"
    and err: "\<And>x. x \<in> set qb \<Longrightarrow> snd (snd (snd x)) = tally error_key (fst x) (fst (snd x)) rows"
    using assms by (auto simp: answers_forms)
  note dist = grouped_distinct [OF gr, of fp]
  have services: "foldl (\<lambda>d (fp, svc, cnt, err). dset svc cnt d) [] ?q = map (\<lambda>x. (fst (snd x), fst (snd (snd x)))) ?q"
    using foldl_dset_distinct [OF dist, of "\<lambda>x. fst (snd (snd x))"] by (simp add: case_prod_beta')
  have "distinct (map fst (map (\<lambda>x. (fst (snd x), fst (snd (snd x)))) ?q))"
    using dist by (simp add: comp_def)
  then show "mset (foldl (\<lambda>d (fp, svc, cnt, err). dset svc cnt d) [] ?q) = mset (foldl (count_step svc_key) [] (of_fp fp rows))"
    unfolding services by (rule mset_count) (rule grouped_entries [OF gr val])
  have "distinct (map (\<lambda>x. fst (snd x)) ?e)" using dist by (rule distinct_map_filter)
  then have form: "foldl (\<lambda>d (fp, svc, cnt, err). dset svc err d) [] ?e = map (\<lambda>x. (fst (snd x), snd (snd (snd x)))) ?e"
    and de: "distinct (map fst (map (\<lambda>x. (fst (snd x), snd (snd (snd x)))) ?e))"
    using foldl_dset_distinct [of "\<lambda>x. fst (snd x)" ?e "\<lambda>x. snd (snd (snd x))"] by (simp_all add: case_prod_beta' comp_def)
  have svc: "error_key r = Some s \<Longrightarrow> svc_key r = Some s" for r s
    by (auto simp: error_key_def svc_key_def split: if_splits)
  have "set (map (\<lambda>x. (fst (snd x), snd (snd (snd x)))) ?e) =
      {(s, n). n = length (filter (\<lambda>r. error_key r = Some s) (of_fp fp rows)) \<and> n \<noteq> 0}" (is "?L = ?R")
  proof (intro set_eqI iffI)
    fix z assume "z \<in> ?L"
    then obtain x where x: "x \<in> set qb" "fst x = fp" "snd (snd (snd x)) \<noteq> 0" "z = (fst (snd x), snd (snd (snd x)))" by auto
    with err [OF x(1)] show "z \<in> ?R" by (simp add: tally_def)
  next
    fix z assume "z \<in> ?R"
    then obtain s r where z: "z = (s, tally error_key fp s rows)" "tally error_key fp s rows \<noteq> 0"
        "r \<in> set rows" "cr_fingerprint r = fp" "error_key r = Some s"
      by (auto simp: tally_def of_fp_def filter_empty_conv)
    with gr svc obtain x where x: "x \<in> set qb" "fst x = fp" "fst (snd x) = s"
      by (fastforce simp: grouped_by_def list_all_iff split: option.splits)
    then have "snd (snd (snd x)) = tally error_key fp s rows" using err by simp
    with x z show "z \<in> ?L" by (auto intro!: rev_image_eqI [of x])
  qed
  then show "mset (foldl (\<lambda>d (fp, svc, cnt, err). dset svc err d) [] ?e) = mset (foldl (count_step error_key) [] (of_fp fp rows))"
    unfolding form using de by (intro mset_count)
qed

lemma aggregate_get:
  assumes "answers rows qa qb qc qd" and rs: "of_fp fp rows \<noteq> []"
  shows "\<exists>g. dget (aggregate_groups qa qb qc qd) fp = Some g \<and> group_of (of_fp fp rows) g"
proof -
  let ?rs = "of_fp fp rows"
  let ?f = "\<lambda>x. fst x = fp"
  from assms(1) have A: "answers_a rows qa" and B: "answers_b rows qb" and C: "answers_c level_key rows qc"
    and D: "answers_c message_key rows qd" by (auto simp: answers_def)
  have "fp \<in> set (map fst qa)" using A rs by (auto simp: answers_a_def of_fp_def filter_empty_conv)
  then obtain cnt t0 t1 ids where row: "(fp, cnt, t0, t1, ids) \<in> set qa" by auto
  with A obtain l where a: "cnt = length ?rs" "t0 = min_seen ?rs" "t1 = max_seen ?rs" "ids = Some l"
    "length l = min MAX_CLUSTER_MEMBERS (length ?rs)" "mset l \<subseteq># mset (map cr_id ?rs)"
    by (fastforce simp: answers_a_def list_all_iff split: option.splits)
  have fa: "filter ?f qa = [(fp, cnt, t0, t1, ids)]"
    using A row by (intro filter_distinct_key) (auto simp: answers_a_def)
  define g1 where "g1 = fresh_group\<lparr>gr_count := Some cnt, gr_ids := l, gr_timestamps := List.map_filter (\<lambda>t. t) [t0, t1]\<rparr>"
  define g3 where "g3 = g1\<lparr>gr_services := foldl (\<lambda>d (fp, svc, cnt, err). dset svc cnt d) [] (filter ?f qb),
    gr_error_services := foldl (\<lambda>d (fp, svc, cnt, err). dset svc err d) [] (filter (\<lambda>(fp, svc, cnt, err). err \<noteq> 0) (filter ?f qb)),
    gr_levels := foldl (\<lambda>d (fp, level, cnt). dset level cnt d) [] (filter ?f qc)\<rparr>"
  have d1: "dget (foldl step_a [] qa) fp = Some g1"
    unfolding step_forms dget_fold_update fa by (simp add: g1_def a(4) dget_or_def)
  have new: "gr_services g1 = []" "gr_error_services g1 = []" "gr_levels g1 = []" "gr_messages g1 = []"
    by (simp_all add: g1_def fresh_group_def new_group_def)
  have d2: "dget (foldl step_b (foldl step_a [] qa) qb) fp = Some (g1\<lparr>gr_services := gr_services g3, gr_error_services := gr_error_services g3\<rparr>)"
    unfolding step_forms(2) dget_fold_update_Some [OF d1] using fold_services [of g1 "filter ?f qb"] new
    by (simp add: g3_def case_prod_beta')
  have d3: "dget (foldl step_c (foldl step_b (foldl step_a [] qa) qb) qc) fp = Some g3"
    unfolding step_forms(3) dget_fold_update_Some [OF d2]
    using fold_levels [of "g1\<lparr>gr_services := gr_services g3, gr_error_services := gr_error_services g3\<rparr>" "filter ?f qc"] new
    by (simp add: g3_def case_prod_beta')
  let ?ms = "List.map_filter message_key ?rs"
  have entries: "set (map (\<lambda>x. (fst (snd x), snd (snd x))) (filter ?f qd)) =
      {(m, n). n = count_list ?ms m \<and> n \<noteq> 0}"
    using grouped_entries [of message_key rows "\<lambda>x. fst (snd x)" qd "\<lambda>x. snd (snd x)" fp] D
    by (simp add: answers_forms count_map_filter)
  have mem: "(fp, m, n) \<in> set qd \<longleftrightarrow> n = count_list ?ms m \<and> n \<noteq> 0" for m n
    using entries [THEN eqset_imp_iff, of "(m, n)"] by force
  show ?thesis
  proof (cases "dget (best_messages qd) fp")
    case None
    then have "fp \<notin> fst ` set qd" using best_messages_get [of qd fp] by simp
    then have "(fp, m, n) \<notin> set qd" for m n by force
    then have "count_list ?ms m = 0" for m using mem by blast
    then have "?ms = []" by (metis count_list_0_iff list.set_intros(1) neq_Nil_conv)
    then have "group_of ?rs g3"
      using a service_counts [OF B] level_counts [OF C] new by (simp add: group_of_def g3_def g1_def)
    moreover have "dget (aggregate_groups qa qb qc qd) fp = Some g3"
      unfolding aggregate_groups_def Let_def fold_messages [OF best_messages_wf] by (simp add: None d3)
    ultimately show ?thesis by blast
  next
    case (Some p)
    obtain n m where p: "p = (n, m)" by (cases p)
    with Some best_messages_get [of qd fp]
    have in_qd: "(fp, m, n) \<in> set qd" and top: "\<And>m' n'. (fp, m', n') \<in> set qd \<Longrightarrow> n' \<le> n" by auto
    have n: "n = count_list ?ms m" "n \<noteq> 0" using in_qd mem by auto
    have "count_list ?ms m' \<le> count_list ?ms m" for m'
      using top [of m' "count_list ?ms m'"] mem [of m' "count_list ?ms m'"] n by fastforce
    moreover have "m \<in> set ?ms" using n by (metis count_notin)
    ultimately have "group_of ?rs (g3\<lparr>gr_messages := [m]\<rparr>)"
      using a service_counts [OF B] level_counts [OF C] by (simp add: group_of_def g3_def g1_def)
    moreover have "dget (aggregate_groups qa qb qc qd) fp = Some (g3\<lparr>gr_messages := [m]\<rparr>)"
      unfolding aggregate_groups_def Let_def fold_messages [OF best_messages_wf] by (simp add: Some p d3 dget_or_def)
    ultimately show ?thesis by blast
  qed
qed

section \<open>The aggregation computes the clusters of the scan\<close>

lemma keys_fold_update:
  "fst ` set (foldl (\<lambda>d x. dset (k x) (f x (dget_or d (k x) z)) d) d xs) = fst ` set d \<union> k ` set xs"
  by (induction xs arbitrary: d) auto

lemma grouped_keys:
  "grouped_by f rows (map (\<lambda>x. (fst x, k x)) q) \<Longrightarrow> fst ` set q \<subseteq> cr_fingerprint ` set rows"
  by (fastforce simp: grouped_by_def list_all_iff list_ex_iff)

lemma best_messages_keys: "fst ` set (best_messages qd) = fst ` set qd"
  using best_messages_get [of qd] by (auto simp: dget_None_iff)

lemma group_rows_keys: "fst ` set (group_rows rows) = cr_fingerprint ` set rows"
  unfolding group_rows_def keys_fold_update by simp

lemma aggregate_keys:
  assumes "answers rows qa qb qc qd"
  shows "fst ` set (aggregate_groups qa qb qc qd) = cr_fingerprint ` set rows"
proof -
  have last: "fst ` set (foldl (\<lambda>groups (fp, n, message). on_group fp (\<lambda>g. g\<lparr>gr_messages := [message]\<rparr>) groups) d best) =
      fst ` set d \<union> fst ` set best" for d and best :: "(string, nat \<times> string) dict"
    by (induction best arbitrary: d) (simp_all add: on_group_def case_prod_beta)
  have sub: "fst ` set q \<subseteq> cr_fingerprint ` set rows" if "answers_c f rows q" for f q
    using grouped_keys [of f rows "\<lambda>x. fst (snd x)" q] that by (simp add: answers_forms)
  have "fst ` set qb \<subseteq> cr_fingerprint ` set rows"
    using grouped_keys [of svc_key rows "\<lambda>x. fst (snd x)" qb] assms by (simp add: answers_def answers_forms)
  moreover have "fst ` set qc \<subseteq> cr_fingerprint ` set rows" "fst ` set qd \<subseteq> cr_fingerprint ` set rows"
    "fst ` set qa = cr_fingerprint ` set rows"
    using assms sub [of level_key qc] sub [of message_key qd] by (simp_all add: answers_def answers_a_def)
  ultimately show ?thesis
    unfolding aggregate_groups_def Let_def last best_messages_keys step_forms keys_fold_update by auto
qed

lemma foldl_sum: "foldl (\<lambda>w (l, n). w + g l n) a xs = a + sum_list (map (\<lambda>(l, n). g l n) xs)" for a :: real
  by (induction xs arbitrary: a) (simp_all add: case_prod_beta add.assoc)

lemma severity_mset:
  assumes "mset d = mset d'"
  shows "get_severity_weight st d = get_severity_weight st d'"
proof -
  have total: "sum_list (dvals d) = sum_list (dvals d')"
    using assms by (metis mset_map sum_mset_sum_list)
  let ?w = "\<lambda>t (level, n). dget_or (severity_weights st) (lower_str level) 1 * (real n / real t)"
  have "get_severity_weight st x = (if x = [] then 1 else if sum_list (dvals x) = 0 then 1
      else sum_list (map (?w (sum_list (dvals x))) x))" for x
    unfolding get_severity_weight_def Let_def foldl_sum by (simp only: add_0_left)
  moreover have "sum_list (map (?w t) d) = sum_list (map (?w t) d')" for t
    using arg_cong [OF assms, of "\<lambda>m. sum_mset (image_mset (?w t) m)"] by (simp flip: sum_mset_sum_list)
  moreover have "d = [] \<longleftrightarrow> d' = []" using assms by (metis mset_zero_iff)
  ultimately show ?thesis using total by simp
qed

lemma most_common_elem_mode:
  assumes "most_common_elem xs = Some m"
  shows "m \<in> set xs" and "count_list xs m' \<le> count_list xs m"
proof -
  show "m \<in> set xs" using max_by_in [OF assms [unfolded most_common_elem_def]] by simp
  show "count_list xs m' \<le> count_list xs m"
    using max_by_ge [OF assms [unfolded most_common_elem_def], of m'] by (cases "m' \<in> set xs") auto
qed

lemma most_common_elem_simps [simp]:
  "most_common_elem xs = None \<longleftrightarrow> xs = []" "most_common_elem [m] = Some m" "most_common_elem [] = None"
  by (simp_all add: most_common_elem_def) (simp add: max_by_def)

lemma seen_sorted:
  "(case sort (List.map_filter (\<lambda>t. t) [min_seen rs, max_seen rs]) of [] \<Rightarrow> None | t # _ \<Rightarrow> Some t) = min_seen rs"
  "(case sort (List.map_filter (\<lambda>t. t) [min_seen rs, max_seen rs]) of [] \<Rightarrow> None
    | _ \<Rightarrow> Some (last (sort (List.map_filter (\<lambda>t. t) [min_seen rs, max_seen rs])))) = max_seen rs"
proof -
  have "\<exists>t. min_seen rs = Some t \<and> max_seen rs = Some t' \<and> t \<le> t'" if "max_seen rs = Some t'" for t'
  proof -
    from that obtain t ts where ts: "sort (seen_times rs) = t # ts" "t' = last (t # ts)"
      by (auto simp: max_seen_def split: list.splits)
    have "sorted (t # ts)" using ts(1) by (metis sorted_sort)
    then show ?thesis using that ts by (auto simp: min_seen_def)
  qed
  moreover have "min_seen rs = None \<longleftrightarrow> max_seen rs = None" by (auto simp: min_seen_def max_seen_def split: list.splits)
  ultimately show
    "(case sort (List.map_filter (\<lambda>t. t) [min_seen rs, max_seen rs]) of [] \<Rightarrow> None | t # _ \<Rightarrow> Some t) = min_seen rs"
    "(case sort (List.map_filter (\<lambda>t. t) [min_seen rs, max_seen rs]) of [] \<Rightarrow> None
      | _ \<Rightarrow> Some (last (sort (List.map_filter (\<lambda>t. t) [min_seen rs, max_seen rs])))) = max_seen rs"
    by (cases "max_seen rs"; fastforce simp: List.map_filter_simps)+
qed

text \<open>What the two paths agree on, for the rows of one fingerprint.\<close>

definition modal :: "string \<Rightarrow> string list \<Rightarrow> bool" where
  "modal m ms \<longleftrightarrow> (if ms = [] then m = [] else m \<in> set ms \<and> (\<forall>m'. count_list ms m' \<le> count_list ms m))"

definition clusters_agree :: "cluster_row list \<Rightarrow> cluster_data \<Rightarrow> cluster_data \<Rightarrow> bool" where
  "clusters_agree rs c c' \<longleftrightarrow>
     (let ms = List.map_filter message_key rs in
      cd_fingerprint c = cd_fingerprint c' \<and> cd_count c = cd_count c'
      \<and> mset (cd_services c) = mset (cd_services c') \<and> mset (cd_levels c) = mset (cd_levels c')
      \<and> mset (cd_error_service_counts c) = mset (cd_error_service_counts c')
      \<and> cd_first_seen c = cd_first_seen c' \<and> cd_last_seen c = cd_last_seen c'
      \<and> cd_baseline_count c = cd_baseline_count c' \<and> cd_change_ratio c = cd_change_ratio c'
      \<and> length (cd_log_entry_ids c) = min MAX_CLUSTER_MEMBERS (length (cd_log_entry_ids c'))
      \<and> mset (cd_log_entry_ids c) \<subseteq># mset (cd_log_entry_ids c')
      \<and> modal (cd_representative_message c) ms \<and> modal (cd_representative_message c') ms
      \<and> ((\<forall>m m'. modal m ms \<and> modal m' ms \<longrightarrow> m = m') \<longrightarrow>
           cd_representative_message c = cd_representative_message c' \<and> cd_is_trigger c = cd_is_trigger c'
           \<and> cd_importance_score c = cd_importance_score c'))"

lemma scan_messages_modal:
  "modal (case most_common_elem ms of None \<Rightarrow> [] | Some m \<Rightarrow> m) ms"
  using most_common_elem_mode [of ms] by (cases "most_common_elem ms") (auto simp: modal_def)

lemma aggregate_messages_modal:
  "group_of rs g \<Longrightarrow> modal (case most_common_elem (gr_messages g) of None \<Rightarrow> [] | Some m \<Rightarrow> m) (List.map_filter message_key rs)"
  by (cases "gr_messages g") (auto simp: group_of_def modal_def)

lemma clusters_agree_groups:
  assumes g: "group_of rs g" and g': "g' = foldl (\<lambda>g r. add_row r g) new_group rs"
  shows "clusters_agree rs (build_cluster_data st fp g bc) (build_cluster_data st fp g' bc)"
proof -
  note scan = scan_rows [of new_group rs, folded g']
  note G = g [unfolded group_of_def]
  have count: "(case gr_count g of Some n \<Rightarrow> n | None \<Rightarrow> length (gr_ids g)) = length rs"
    "(case gr_count g' of Some n \<Rightarrow> n | None \<Rightarrow> length (gr_ids g')) = length rs"
    using G by (simp_all add: scan new_group_def)
  have ms: "mset (gr_services g) = mset (gr_services g')" "mset (gr_levels g) = mset (gr_levels g')"
    "mset (gr_error_services g) = mset (gr_error_services g')"
    using G by (simp_all add: scan new_group_def)
  then have len: "length (gr_services g) = length (gr_services g')" by (metis size_mset)
  have times: "gr_timestamps g = List.map_filter (\<lambda>t. t) [min_seen rs, max_seen rs]" "gr_timestamps g' = seen_times rs"
    using G by (simp_all add: scan new_group_def)
  have "min_seen rs = (case sort (seen_times rs) of [] \<Rightarrow> None | t # _ \<Rightarrow> Some t)"
    "max_seen rs = (case sort (seen_times rs) of [] \<Rightarrow> None | _ \<Rightarrow> Some (last (sort (seen_times rs))))"
    by (simp_all add: min_seen_def max_seen_def)
  note seen = seen_sorted [of rs, folded times(1)] this [folded times(2)]
  have ids: "gr_ids g' = map cr_id rs" and msgs: "gr_messages g' = List.map_filter message_key rs"
    by (simp_all add: scan new_group_def)
  define m where "m = (case most_common_elem (gr_messages g) of None \<Rightarrow> [] | Some m \<Rightarrow> m)"
  define m' where "m' = (case most_common_elem (gr_messages g') of None \<Rightarrow> [] | Some m \<Rightarrow> m)"
  have modes: "modal m (List.map_filter message_key rs)" "modal m' (List.map_filter message_key rs)"
    using aggregate_messages_modal [OF g] scan_messages_modal [of "gr_messages g'"] by (simp_all add: m_def m'_def msgs)
  show ?thesis
    unfolding clusters_agree_def build_cluster_data_def Let_def count cluster_data.simps len severity_mset [OF ms(2)]
      compute_importance_score_def
    unfolding m_def [symmetric] m'_def [symmetric]
  proof (intro conjI impI)
    assume unique: "\<forall>m m'. modal m (List.map_filter message_key rs) \<and> modal m' (List.map_filter message_key rs) \<longrightarrow> m = m'"
    with modes have "m = m'" by blast
    then show "m = m'" "is_trigger_message m = is_trigger_message m'" by simp_all
    from \<open>m = m'\<close> show "get_severity_weight st (gr_levels g') + ln (real (length rs) + 1) + ln (compute_change_ratio (length rs) (counter_get bc fp) + 1)
        + ln (real (length (gr_services g')) + 1) * (1 / 2) + (if is_trigger_message m then 2 else 0) =
      get_severity_weight st (gr_levels g') + ln (real (length rs) + 1) + ln (compute_change_ratio (length rs) (counter_get bc fp) + 1)
        + ln (real (length (gr_services g')) + 1) * (1 / 2) + (if is_trigger_message m' then 2 else 0)" by simp
  qed (use ms seen G ids modes in \<open>simp_all\<close>)
qed

text \<open>
  C11: the server-side aggregation is equivalent to the row scan it replaced. Whatever order the database
  answers in and whichever members it samples, both find the same fingerprints, and the clusters built
  from the two groups of a fingerprint have the same count, the same counts per service, level and
  erroring service, the same first and last time, baseline and change ratio; the members of the
  aggregated cluster are a sample of at most 100 of the scanned ones. Both representative messages are
  most frequent ones, and when only one message is most frequent, the messages, the trigger flags and
  the importance scores are equal too.
\<close>

theorem aggregate_equals_scan:
  assumes "answers rows qa qb qc qd"
  shows "set (dkeys (aggregate_groups qa qb qc qd)) = set (dkeys (group_rows rows))
    \<and> (\<forall>fp \<in> set (dkeys (group_rows rows)). \<exists>g g'. dget (aggregate_groups qa qb qc qd) fp = Some g
        \<and> dget (group_rows rows) fp = Some g'
        \<and> (\<forall>st bc. clusters_agree (of_fp fp rows) (build_cluster_data st fp g bc) (build_cluster_data st fp g' bc)))"
proof (intro conjI ballI)
  show "set (dkeys (aggregate_groups qa qb qc qd)) = set (dkeys (group_rows rows))"
    using aggregate_keys [OF assms] group_rows_keys [of rows] by simp
  fix fp assume "fp \<in> set (dkeys (group_rows rows))"
  then have rs: "of_fp fp rows \<noteq> []" by (auto simp: group_rows_keys of_fp_def filter_empty_conv)
  obtain g where g: "dget (aggregate_groups qa qb qc qd) fp = Some g" "group_of (of_fp fp rows) g"
    using aggregate_get [OF assms rs] by blast
  have "dget (group_rows rows) fp = Some (foldl (\<lambda>g r. add_row r g) new_group (of_fp fp rows))"
    using rs by (simp add: group_rows_get)
  with g clusters_agree_groups [OF g(2) refl]
  show "\<exists>g g'. dget (aggregate_groups qa qb qc qd) fp = Some g \<and> dget (group_rows rows) fp = Some g'
      \<and> (\<forall>st bc. clusters_agree (of_fp fp rows) (build_cluster_data st fp g bc) (build_cluster_data st fp g' bc))"
    by blast
qed

definition demo_rows :: "cluster_row list" where
  "demo_rows =
     [\<lparr>cr_fingerprint = ''f'', cr_message = Some ''boom'', cr_service = Some ''db'', cr_level = Some ''ERROR'', cr_timestamp = Some 5, cr_id = 1\<rparr>,
      \<lparr>cr_fingerprint = ''g'', cr_message = None, cr_service = Some [], cr_level = None, cr_timestamp = Some 6, cr_id = 2\<rparr>,
      \<lparr>cr_fingerprint = ''f'', cr_message = Some ''boom'', cr_service = Some ''db'', cr_level = Some ''info'', cr_timestamp = Some 3, cr_id = 3\<rparr>]"

theorem aggregate_equals_scan_witness:
  "let qa = [(''g'', 1, Some 6, Some 6, Some [2]), (''f'', 2, Some 3, Some 5, Some [3, 1])];
       qb = [(''f'', ''db'', 2, 1)]; qc = [(''f'', ''info'', 1), (''f'', ''ERROR'', 1)]; qd = [(''f'', ''boom'', 2)] in
   answers demo_rows qa qb qc qd
   \<and> set (dkeys (aggregate_groups qa qb qc qd)) = set (dkeys (group_rows demo_rows))"
proof -
  have ok: "answers demo_rows [(''g'', 1, Some 6, Some 6, Some [2]), (''f'', 2, Some 3, Some 5, Some [3, 1])]
      [(''f'', ''db'', 2, 1)] [(''f'', ''info'', 1), (''f'', ''ERROR'', 1)] [(''f'', ''boom'', 2)]"
    by code_simp
  then show ?thesis using aggregate_equals_scan [OF ok] by (simp add: Let_def)
qed

end
