(* ===== verification/SemanticMerge.thy ===== *)
theory SemanticMerge
  imports Clustering
begin

text \<open>
  \<open>core/clustering/semantic_merge.py\<close>: clusters whose messages have similar embeddings are merged. The
  links are collected in a union-find array with path halving, as the source does. \<open>find\<close> is a loop over
  the mutable array; it is a partial function here, \<open>None\<close> being a loop that does not end, and the theory
  proves that it always ends. Embedding values are finite reals. The embedding backend is a parameter.
\<close>

section \<open>Union-find\<close>

partial_function (option) uf_find :: "nat list \<Rightarrow> nat \<Rightarrow> (nat \<times> nat list) option" where
  "uf_find parent x =
     (if parent ! x \<noteq> x then
        (let parent' = parent[x := parent ! (parent ! x)] in uf_find parent' (parent' ! x))
      else Some (x, parent))"

declare uf_find.simps [code]

definition uf_union :: "nat list \<Rightarrow> nat \<Rightarrow> nat \<Rightarrow> (bool \<times> nat list) option" where
  "uf_union parent a b =
     Option.bind (uf_find parent a) (\<lambda>(ra, parent).
     Option.bind (uf_find parent b) (\<lambda>(rb, parent).
       if ra = rb then Some (False, parent) else Some (True, parent[rb := ra])))"

section \<open>Similarity\<close>

definition is_merge_eligible :: "cluster_data \<Rightarrow> real list \<Rightarrow> int \<Rightarrow> bool" where
  "is_merge_eligible c embedding min_count =
     (if int (cd_count c) < min_count then False
      else if strip_str (cd_representative_message c) = [] then False
      else if embedding = [] then False
      else list_ex (\<lambda>v. v \<noteq> 0) embedding)"

definition norm_or_one :: "real list \<Rightarrow> real" where
  "norm_or_one v = (let n = sqrt (sum_list (map (\<lambda>x. x * x) v)) in if n = 0 then 1 else n)"

definition cosine :: "real list \<Rightarrow> real list \<Rightarrow> real" where
  "cosine u v = sum_list (map2 (\<lambda>x y. (x / norm_or_one u) * (y / norm_or_one v)) u v)"

definition cosine_matrix :: "real list list \<Rightarrow> (nat \<Rightarrow> nat \<Rightarrow> real) res" where
  "cosine_matrix embeddings =
     (case embeddings of
        [] \<Rightarrow> Inr (\<lambda>i j. 0)
      | e # _ \<Rightarrow>
          let dim = length e in
          if dim = 0 \<or> list_ex (\<lambda>row. length row \<noteq> dim) embeddings
          then Inl (ValueError ''embedding vectors must be non-empty and of equal dimension'')
          else Inr (\<lambda>i j. cosine (embeddings ! i) (embeddings ! j)))"

section \<open>Merging a component\<close>

fun min_from :: "('a \<Rightarrow> 'k::linorder) \<Rightarrow> 'a \<Rightarrow> 'a list \<Rightarrow> 'a" where
  "min_from f m [] = m"
| "min_from f m (x # xs) = min_from f (if f x < f m then x else m) xs"

definition sum_counts :: "(string, nat) dict list \<Rightarrow> (string, nat) dict" where
  "sum_counts dicts =
     foldl (\<lambda>totals d. foldl (\<lambda>totals (key, v). dset key (counter_get totals key + v) totals) totals d) [] dicts"

definition min_option :: "int option list \<Rightarrow> int option" where
  "min_option ts = (case List.map_filter (\<lambda>t. t) ts of [] \<Rightarrow> None | t # ts \<Rightarrow> Some (foldl min t ts))"

definition max_option :: "int option list \<Rightarrow> int option" where
  "max_option ts = (case List.map_filter (\<lambda>t. t) ts of [] \<Rightarrow> None | t # ts \<Rightarrow> Some (foldl max t ts))"

text \<open>
  \<open>min(members, key=...)\<close> with its position: the code leaves the canonical member out of the later loop
  by identity.
\<close>

definition canonical_key :: "cluster_data \<Rightarrow> real \<times> int \<times> string" where
  "canonical_key c = (- cd_importance_score c, - int (cd_count c), cd_fingerprint c)"

definition canonical_at :: "cluster_data list \<Rightarrow> cluster_data \<times> nat" where
  "canonical_at members =
     (case zip members [0..<length members] of x # xs \<Rightarrow> min_from (\<lambda>(c, i). canonical_key c) x xs)"

definition merge_component :: "severity_settings \<Rightarrow> cluster_data list \<Rightarrow> cluster_data" where
  "merge_component st members =
     (let (canonical, pos) = canonical_at members;
          cnt = sum_list (map cd_count members);
          baseline_count = sum_list (map cd_baseline_count members);
          ratio = compute_change_ratio cnt baseline_count;
          services = sum_counts (map cd_services members);
          levels = sum_counts (map cd_levels members);
          error_service_counts = sum_counts (map cd_error_service_counts members);
          log_entry_ids = cd_log_entry_ids canonical @
            concat (map (\<lambda>(c, i). if i = pos then [] else cd_log_entry_ids c) (zip members [0..<length members]));
          merged_fingerprints = sort (map cd_fingerprint (filter (\<lambda>m. cd_fingerprint m \<noteq> cd_fingerprint canonical) members));
          is_trigger = (list_ex cd_is_trigger members \<or> is_trigger_message (cd_representative_message canonical));
          importance = compute_importance_score st cnt levels ratio (length services) is_trigger in
      \<lparr>cd_fingerprint = cd_fingerprint canonical, cd_representative_message = cd_representative_message canonical,
       cd_count = cnt, cd_services = services, cd_levels = levels,
       cd_first_seen = min_option (map cd_first_seen members), cd_last_seen = max_option (map cd_last_seen members),
       cd_baseline_count = baseline_count, cd_change_ratio = ratio, cd_importance_score = importance,
       cd_is_trigger = is_trigger, cd_log_entry_ids = log_entry_ids,
       cd_merged_fingerprints = merged_fingerprints, cd_error_service_counts = error_service_counts\<rparr>)"

section \<open>The merge pass\<close>

definition similar_pairs :: "(nat \<Rightarrow> bool) \<Rightarrow> (nat \<Rightarrow> nat \<Rightarrow> real) \<Rightarrow> real \<Rightarrow> nat \<Rightarrow> (nat \<times> nat) list" where
  "similar_pairs eligible sim threshold n =
     concat (map (\<lambda>i. if eligible i
       then map (Pair i) (filter (\<lambda>j. eligible j \<and> threshold \<le> sim i j) [Suc i..<n]) else []) [0..<n])"

fun link_all :: "(nat \<times> nat) list \<Rightarrow> nat list \<Rightarrow> bool \<Rightarrow> (nat list \<times> bool) option" where
  "link_all [] parent merged_any = Some (parent, merged_any)"
| "link_all ((i, j) # ps) parent merged_any =
     Option.bind (uf_union parent i j) (\<lambda>(linked, parent). link_all ps parent (merged_any \<or> linked))"

fun collect_components :: "nat list \<Rightarrow> nat list \<Rightarrow> (nat, nat list) dict \<Rightarrow> (nat, nat list) dict option" where
  "collect_components [] parent comps = Some comps"
| "collect_components (i # is) parent comps =
     Option.bind (uf_find parent i) (\<lambda>(root, parent). collect_components is parent (dict_append root i comps))"

definition merge_semantic_clusters ::
    "severity_settings \<Rightarrow> cluster_data list \<Rightarrow> real list list \<Rightarrow> real \<Rightarrow> int \<Rightarrow> cluster_data list res option" where
  "merge_semantic_clusters st clusters embeddings threshold min_count =
     (if length clusters < 2 then Some (Inr clusters)
      else if length embeddings \<noteq> length clusters then Some (Inl (ValueError ''embeddings length does not match cluster count''))
      else
        let n = length clusters; eligible = (\<lambda>i. is_merge_eligible (clusters ! i) (embeddings ! i) min_count) in
        case cosine_matrix embeddings of
          Inl e \<Rightarrow> Some (Inl e)
        | Inr sim \<Rightarrow>
            Option.bind (link_all (similar_pairs eligible sim threshold n) [0..<n] False) (\<lambda>(parent, merged_any).
              if \<not> merged_any then Some (Inr clusters)
              else
                Option.bind (collect_components [0..<n] parent []) (\<lambda>comps.
                  let ordered_roots = sort_key (\<lambda>root. Min (set (dget_or comps root []))) (dkeys comps) in
                  Some (Inr (map (\<lambda>root.
                    let members = map (\<lambda>i. clusters ! i) (dget_or comps root []) in
                    if length members = 1 then hd members else merge_component st members) ordered_roots)))))"

text \<open>The backend: choosing it, asking whether it is available and embedding may each raise.\<close>

record embeddings_provider =
  pv_is_available :: "bool res"
  pv_embed_texts :: "string list \<Rightarrow> real list list res"

definition maybe_semantic_merge ::
    "severity_settings \<Rightarrow> embeddings_provider res \<Rightarrow> real \<Rightarrow> int \<Rightarrow> cluster_data list \<Rightarrow> (cluster_data list \<times> bool) option" where
  "maybe_semantic_merge st provider threshold size_floor clusters =
     (if length clusters < 2 then Some (clusters, False)
      else
        case rbind provider (\<lambda>p. rbind (pv_is_available p) (\<lambda>available.
               if \<not> available then Inr None
               else rbind (pv_embed_texts p (map cd_representative_message clusters)) (\<lambda>embeddings. Inr (Some embeddings)))) of
          Inl e \<Rightarrow> Some (clusters, False)
        | Inr None \<Rightarrow> Some (clusters, False)
        | Inr (Some embeddings) \<Rightarrow>
            if length embeddings \<noteq> length clusters then Some (clusters, False)
            else
              map_option (\<lambda>r. case r of Inl e \<Rightarrow> (clusters, False) | Inr merged \<Rightarrow> (merged, True))
                (merge_semantic_clusters st clusters embeddings threshold size_floor))"

section \<open>Union-find is correct and its loops end\<close>

text \<open>\<open>leads p x n y\<close>: from \<open>x\<close> the parent links reach the root \<open>y\<close> in \<open>n\<close> steps.\<close>

inductive leads :: "nat list \<Rightarrow> nat \<Rightarrow> nat \<Rightarrow> nat \<Rightarrow> bool" for p where
  root: "p ! x = x \<Longrightarrow> leads p x 0 x"
| step: "p ! x \<noteq> x \<Longrightarrow> leads p (p ! x) n y \<Longrightarrow> leads p x (Suc n) y"

inductive_cases leads_stepE: "leads p x n y"

lemma leads_fun: "leads p x n y \<Longrightarrow> leads p x m z \<Longrightarrow> n = m \<and> y = z"
proof (induction arbitrary: m rule: leads.induct)
  case (root x)
  then show ?case by (auto elim: leads_stepE)
next
  case (step x n y)
  from step.prems show ?case by (rule leads_stepE) (use step in auto)
qed

lemma leads_root: "leads p x n y \<Longrightarrow> p ! y = y"
  by (induction rule: leads.induct)

lemma leads_next: "leads p x n y \<Longrightarrow> p ! x \<noteq> x \<Longrightarrow> \<exists>m. n = Suc m \<and> leads p (p ! x) m y"
  by (auto elim: leads_stepE)

definition uf_ok :: "nat list \<Rightarrow> bool" where
  "uf_ok p \<longleftrightarrow> (\<forall>i < length p. p ! i < length p \<and> (\<exists>n y. leads p i n y))"

definition rep :: "nat list \<Rightarrow> nat \<Rightarrow> nat" where
  "rep p i = (THE y. \<exists>n. leads p i n y)"

lemma rep_leads: "leads p i n y \<Longrightarrow> rep p i = y"
  unfolding rep_def by (rule the_equality) (use leads_fun in blast)+

lemma uf_ok_leads: "uf_ok p \<Longrightarrow> i < length p \<Longrightarrow> \<exists>n. leads p i n (rep p i)"
  using rep_leads by (metis uf_ok_def)

lemma leads_less: "leads p i n y \<Longrightarrow> uf_ok p \<Longrightarrow> i < length p \<Longrightarrow> y < length p"
  by (induction rule: leads.induct) (auto simp: uf_ok_def)

lemma rep_less: "uf_ok p \<Longrightarrow> i < length p \<Longrightarrow> rep p i < length p"
  using uf_ok_leads leads_less by blast

lemma rep_root: "uf_ok p \<Longrightarrow> i < length p \<Longrightarrow> p ! rep p i = rep p i"
  using uf_ok_leads leads_root by blast

text \<open>Halving a path: every node still reaches its root, in no more steps.\<close>

lemma no_two_cycle:
  assumes "leads p x k y" and "p ! x \<noteq> x"
  shows "p ! (p ! x) \<noteq> x"
proof
  assume again: "p ! (p ! x) = x"
  obtain a where a: "k = Suc a" "leads p (p ! x) a y" using leads_next [OF assms] by auto
  obtain b where b: "a = Suc b" "leads p x b y" using leads_next [OF a(2)] again assms(2) by auto
  from leads_fun [OF assms(1) b(2)] a(1) b(1) show False by simp
qed

lemma halve_leads:
  assumes "leads q x k y" and x: "q ! x \<noteq> x" "x < length q" and "leads q i n z"
  shows "\<exists>m \<le> n. leads (q[x := q ! (q ! x)]) i m z"
proof (cases "q ! (q ! x) = q ! x")
  case True
  then have "q[x := q ! (q ! x)] = q" by simp
  with assms(4) show ?thesis by auto
next
  case False
  let ?q = "q[x := q ! (q ! x)]"
  from assms(4) show ?thesis
  proof (induction i n z rule: leads.induct)
    case (root i)
    then have "?q ! i = i" using x(1) by (cases "i = x") auto
    then show ?case by (blast intro: leads.root)
  next
    case (step i n z)
    then obtain m where m: "m \<le> n" "leads ?q (q ! i) m z" by auto
    show ?case
    proof (cases "i = x")
      case True
      have "?q ! (q ! x) = q ! (q ! x)" using x(1) by simp
      then obtain m' where "m = Suc m'" "leads ?q (q ! (q ! x)) m' z"
        using leads_next [OF m(2)] True False by auto
      moreover have "?q ! x \<noteq> x" using no_two_cycle [OF assms(1) x(1)] x(2) by simp
      ultimately show ?thesis using True x(2) m(1) by (intro exI [of _ m]) (auto intro: leads.step)
    next
      case False
      then show ?thesis using m step.hyps by (intro exI [of _ "Suc m"]) (auto intro: leads.step)
    qed
  qed
qed

lemma uf_okI:
  assumes "\<And>i. i < length p \<Longrightarrow> p ! i < length p" and "\<And>i. i < length p \<Longrightarrow> \<exists>n. leads p i n (f i)"
  shows "uf_ok p \<and> (\<forall>i < length p. rep p i = f i)"
  unfolding uf_ok_def using assms rep_leads by blast

definition same_reps :: "nat list \<Rightarrow> nat list \<Rightarrow> bool" where
  "same_reps p p' \<longleftrightarrow> length p' = length p \<and> uf_ok p' \<and> (\<forall>i < length p. rep p' i = rep p i)"

lemma same_reps_trans: "same_reps p p' \<Longrightarrow> same_reps p' p'' \<Longrightarrow> same_reps p p''"
  by (simp add: same_reps_def)

lemma halve_same_reps:
  assumes "uf_ok p" and x: "p ! x \<noteq> x" "x < length p"
  shows "same_reps p (p[x := p ! (p ! x)])"
proof -
  let ?p = "p[x := p ! (p ! x)]"
  obtain k y where "leads p x k y" using assms unfolding uf_ok_def by blast
  then have leads: "leads p i n z \<Longrightarrow> \<exists>m. leads ?p i m z" for i n z
    using halve_leads [OF _ x] by blast
  have "?p ! i < length ?p" if "i < length p" for i
    using assms that by (cases "i = x") (auto simp: uf_ok_def)
  moreover have "\<exists>m. leads ?p i m (rep p i)" if "i < length p" for i
    using uf_ok_leads [OF assms(1) that] leads by blast
  ultimately show ?thesis using uf_okI [of ?p "rep p"] by (simp add: same_reps_def)
qed

lemma uf_find_ends:
  assumes "uf_ok p" and "x < length p" and "leads p x n y"
  shows "\<exists>p'. uf_find p x = Some (y, p') \<and> same_reps p p'"
  using assms
proof (induction n arbitrary: p x rule: less_induct)
  case (less n)
  show ?case
  proof (cases "p ! x = x")
    case True
    with less.prems(3) have "y = x" by (auto elim: leads_stepE)
    then show ?thesis using True less.prems(1) by (subst uf_find.simps) (simp add: same_reps_def)
  next
    case False
    let ?p = "p[x := p ! (p ! x)]"
    have px: "p ! x < length p" "p ! (p ! x) < length p" using less.prems by (auto simp: uf_ok_def)
    obtain a where a: "n = Suc a" "leads p (p ! x) a y" using leads_next [OF less.prems(3) False] by blast
    have "\<exists>b < n. leads p (p ! (p ! x)) b y"
    proof (cases "p ! (p ! x) = p ! x")
      case True
      with a show ?thesis by auto
    next
      case False
      from leads_next [OF a(2) this] obtain c where "a = Suc c" "leads p (p ! (p ! x)) c y" by blast
      with a(1) show ?thesis by (intro exI [of _ c]) simp
    qed
    then obtain b where b: "b < n" "leads p (p ! (p ! x)) b y" by blast
    obtain m where m: "m \<le> b" "leads ?p (p ! (p ! x)) m y"
      using halve_leads [OF less.prems(3) False less.prems(2) b(2)] by blast
    have same: "same_reps p ?p" by (rule halve_same_reps [OF less.prems(1) False less.prems(2)])
    have "\<exists>p'. uf_find ?p (p ! (p ! x)) = Some (y, p') \<and> same_reps ?p p'"
      using m b(1) px(2) same by (intro less.IH [of m]) (auto simp: same_reps_def)
    then show ?thesis using same_reps_trans [OF same] False less.prems(2) by (subst uf_find.simps) (auto simp: Let_def)
  qed
qed

lemma uf_find_ok: "uf_ok p \<Longrightarrow> x < length p \<Longrightarrow> \<exists>p'. uf_find p x = Some (rep p x, p') \<and> same_reps p p'"
  using uf_ok_leads uf_find_ends by blast

lemma link_leads:
  assumes "p ! ra = ra" "p ! rb = rb" "ra \<noteq> rb" "rb < length p" and "leads p i n z"
  shows "\<exists>m. leads (p[rb := ra]) i m (if z = rb then ra else z)"
  using assms(5)
proof (induction rule: leads.induct)
  case (root x)
  have "leads (p[rb := ra]) ra 0 ra" using assms by (intro leads.root) simp
  then have "leads (p[rb := ra]) rb (Suc 0) ra" using assms by (intro leads.step) simp_all
  moreover have "x \<noteq> rb \<Longrightarrow> leads (p[rb := ra]) x 0 x" using root by (intro leads.root) simp
  ultimately show ?case by auto
next
  case (step x n y)
  then have "p[rb := ra] ! x = p ! x" using assms by (cases "x = rb") auto
  with step.IH step.hyps(1) show ?case by (metis leads.step)
qed

lemma uf_union_ok:
  assumes "uf_ok p" and ab: "a < length p" "b < length p"
  shows "\<exists>p'. uf_union p a b = Some (rep p a \<noteq> rep p b, p') \<and> uf_ok p' \<and> length p' = length p
    \<and> (\<forall>i < length p. rep p' i = (if rep p i = rep p b then rep p a else rep p i))"
proof -
  let ?ra = "rep p a" and ?rb = "rep p b"
  obtain p1 where p1: "uf_find p a = Some (?ra, p1)" "same_reps p p1" using uf_find_ok [OF assms(1) ab(1)] by blast
  then obtain p2 where p2: "uf_find p1 b = Some (rep p1 b, p2)" "same_reps p1 p2"
    using uf_find_ok [of p1 b] ab by (auto simp: same_reps_def)
  have same: "same_reps p p2" using same_reps_trans [OF p1(2) p2(2)] .
  have rb: "rep p1 b = ?rb" using p1(2) ab by (simp add: same_reps_def)
  show ?thesis
  proof (cases "?ra = ?rb")
    case True
    then show ?thesis using p1 p2 rb same by (auto simp: uf_union_def same_reps_def)
  next
    case False
    let ?q = "p2[?rb := ?ra]"
    have reps: "rep p2 a = ?ra" "rep p2 b = ?rb" using same ab by (simp_all add: same_reps_def)
    have roots: "p2 ! ?ra = ?ra" "p2 ! ?rb = ?rb" "?rb < length p2" "?ra < length p2"
      using same ab rep_root [of p2 a] rep_root [of p2 b] rep_less [of p2 a] rep_less [of p2 b] reps
      by (auto simp: same_reps_def)
    have leads: "\<exists>m. leads ?q i m (if rep p i = ?rb then ?ra else rep p i)" if "i < length p" for i
      using uf_ok_leads [of p2 i] link_leads [OF roots(1,2) False roots(3)] same that
      by (fastforce simp: same_reps_def)
    have "?q ! i < length ?q" if "i < length ?q" for i
      using that same roots by (auto simp: same_reps_def nth_list_update uf_ok_def)
    with leads same have "uf_ok ?q \<and> (\<forall>i < length ?q. rep ?q i = (if rep p i = ?rb then ?ra else rep p i))"
      by (intro uf_okI) (simp_all add: same_reps_def)
    then show ?thesis using False p1 p2 rb same by (auto simp: uf_union_def same_reps_def)
  qed
qed

section \<open>Components of the similarity graph\<close>

definition conn :: "(nat \<times> nat) set \<Rightarrow> (nat \<times> nat) set" where
  "conn E = (E \<union> E\<inverse>)\<^sup>*"

lemma conn_sym: "(x, y) \<in> conn E \<Longrightarrow> (y, x) \<in> conn E"
  unfolding conn_def by (rule symD [OF sym_rtrancl]) (auto simp: sym_def)

lemma conn_insert:
  "(x, y) \<in> conn (insert (a, b) E) \<longleftrightarrow>
     (x, y) \<in> conn E \<or> (x, a) \<in> conn E \<and> (b, y) \<in> conn E \<or> (x, b) \<in> conn E \<and> (a, y) \<in> conn E"
proof -
  have "insert (a, b) E \<union> (insert (a, b) E)\<inverse> = insert (a, b) (insert (b, a) (E \<union> E\<inverse>))" by auto
  then show ?thesis unfolding conn_def by (auto simp: rtrancl_insert intro: rtrancl_trans)
qed

definition reps_conn :: "nat list \<Rightarrow> nat \<Rightarrow> (nat \<times> nat) set \<Rightarrow> bool" where
  "reps_conn p n E \<longleftrightarrow> uf_ok p \<and> length p = n \<and> (\<forall>i < n. \<forall>j < n. rep p i = rep p j \<longleftrightarrow> (i, j) \<in> conn E)"

lemma uf_init: "uf_ok [0..<n] \<and> (\<forall>i < length [0..<n]. rep [0..<n] i = i)"
  by (rule uf_okI) (auto intro!: exI [of _ 0] leads.intros(1))

lemma init_conn: "reps_conn [0..<n] n {}"
  using uf_init [of n] by (auto simp: reps_conn_def conn_def)

lemma union_conn:
  assumes "reps_conn p n E" and "a < n" "b < n"
  shows "\<exists>p'. uf_union p a b = Some (rep p a \<noteq> rep p b, p') \<and> reps_conn p' n (insert (a, b) E)"
proof -
  from assms have p: "uf_ok p" "a < length p" "b < length p" "length p = n"
    and eq: "\<And>i j. i < n \<Longrightarrow> j < n \<Longrightarrow> rep p i = rep p j \<longleftrightarrow> (i, j) \<in> conn E" by (auto simp: reps_conn_def)
  obtain p' where p': "uf_union p a b = Some (rep p a \<noteq> rep p b, p')" "uf_ok p'" "length p' = n"
      "\<And>i. i < n \<Longrightarrow> rep p' i = (if rep p i = rep p b then rep p a else rep p i)"
    using uf_union_ok [OF p(1-3)] p(4) by auto
  have "rep p' i = rep p' j \<longleftrightarrow> (i, j) \<in> conn (insert (a, b) E)" if "i < n" "j < n" for i j
  proof -
    have "rep p' i = rep p' j \<longleftrightarrow> rep p i = rep p j \<or> rep p i = rep p a \<and> rep p b = rep p j \<or> rep p i = rep p b \<and> rep p a = rep p j"
      using that p'(4) by auto
    then show ?thesis unfolding conn_insert using that assms(2,3) eq by simp
  qed
  with p' show ?thesis by (auto simp: reps_conn_def)
qed

lemma link_all_conn:
  assumes "reps_conn p n E" and "set ps \<subseteq> {0..<n} \<times> {0..<n}"
  shows "\<exists>p' m'. link_all ps p m = Some (p', m') \<and> reps_conn p' n (E \<union> set ps) \<and> (m \<longrightarrow> m') \<and> (ps = [] \<longrightarrow> m' = m)"
  using assms
proof (induction ps arbitrary: p m E)
  case (Cons e ps)
  obtain i j where e: "e = (i, j)" by (cases e)
  obtain p1 where p1: "uf_union p i j = Some (rep p i \<noteq> rep p j, p1)" "reps_conn p1 n (insert (i, j) E)"
    using union_conn [OF Cons.prems(1), of i j] Cons.prems(2) e by auto
  obtain p' m' where "link_all ps p1 (m \<or> rep p i \<noteq> rep p j) = Some (p', m')" "reps_conn p' n (insert (i, j) E \<union> set ps)"
      "(m \<or> rep p i \<noteq> rep p j) \<longrightarrow> m'"
    using Cons.IH [OF p1(2), of "m \<or> rep p i \<noteq> rep p j"] Cons.prems(2) by auto
  moreover have "insert (i, j) E \<union> set ps = E \<union> set (e # ps)" by (simp add: e)
  ultimately show ?case using p1(1) by (simp add: e)
qed simp

lemma similar_pairs_iff:
  "(i, j) \<in> set (similar_pairs el sim t n) \<longleftrightarrow> i < j \<and> j < n \<and> el i \<and> el j \<and> t \<le> sim i j"
proof
  assume "(i, j) \<in> set (similar_pairs el sim t n)"
  then show "i < j \<and> j < n \<and> el i \<and> el j \<and> t \<le> sim i j" by (auto simp: similar_pairs_def split: if_splits)
next
  assume "i < j \<and> j < n \<and> el i \<and> el j \<and> t \<le> sim i j"
  then have "i \<in> set [0..<n]" "(i, j) \<in> set (if el i then map (Pair i) (filter (\<lambda>j. el j \<and> t \<le> sim i j) [Suc i..<n]) else [])" by auto
  then show "(i, j) \<in> set (similar_pairs el sim t n)" unfolding similar_pairs_def set_concat set_map by blast
qed

lemma link_similar:
  assumes ps: "ps = similar_pairs el sim t n"
  shows "\<exists>p m. link_all ps [0..<n] False = Some (p, m) \<and> reps_conn p n (set ps) \<and> (\<not> m \<longrightarrow> ps = [])"
proof -
  have sub: "set ps \<subseteq> {0..<n} \<times> {0..<n}" using similar_pairs_iff by (fastforce simp: ps)
  obtain p m where pm: "link_all ps [0..<n] False = Some (p, m)" "reps_conn p n ({} \<union> set ps)"
    using link_all_conn [OF init_conn sub] by blast
  have "m" if ne: "ps \<noteq> []"
  proof -
    obtain i j rest where ij: "ps = (i, j) # rest" using ne by (cases ps) auto
    then have "i < j" "j < n" using similar_pairs_iff [of i j el sim t n] by (simp_all add: ps [symmetric])
    then have "rep [0..<n] i \<noteq> rep [0..<n] j" using uf_init [of n] by simp
    moreover obtain p1 where "uf_union [0..<n] i j = Some (rep [0..<n] i \<noteq> rep [0..<n] j, p1)" "reps_conn p1 n (insert (i, j) {})"
      using union_conn [OF init_conn, of i n j] \<open>i < j\<close> \<open>j < n\<close> by auto
    ultimately show ?thesis
      using link_all_conn [of p1 n "{(i, j)}" rest True] pm(1) sub ij by auto
  qed
  with pm show ?thesis by auto
qed

lemma collect_components_eq:
  assumes "uf_ok p" and "set is \<subseteq> {0..<length p}"
  shows "collect_components is p d = Some (fold (\<lambda>i d. dict_append (rep p i) i d) is d)"
  using assms
proof (induction "is" arbitrary: p d)
  case (Cons i "is")
  obtain p' where p': "uf_find p i = Some (rep p i, p')" "same_reps p p'"
    using uf_find_ok [OF Cons.prems(1), of i] Cons.prems(2) by auto
  have "collect_components is p' (dict_append (rep p i) i d) = Some (fold (\<lambda>j d. dict_append (rep p' j) j d) is (dict_append (rep p i) i d))"
    using Cons.IH Cons.prems(2) p'(2) by (simp add: same_reps_def)
  moreover have "fold (\<lambda>j d. dict_append (rep p' j) j d) is e = fold (\<lambda>j d. dict_append (rep p j) j d) is e" for e
    using Cons.prems(2) p'(2) by (intro fold_cong) (auto simp: same_reps_def)
  ultimately show ?case using p'(1) by simp
qed simp

text \<open>
  \<open>components_of E n cs\<close>: the lists \<open>cs\<close> are the connected components of the graph \<open>E\<close> on the first \<open>n\<close>
  positions, each in increasing order, ordered by their first members.
\<close>

definition components_of :: "(nat \<times> nat) set \<Rightarrow> nat \<Rightarrow> nat list list \<Rightarrow> bool" where
  "components_of E n cs \<longleftrightarrow>
     mset (concat cs) = mset [0..<n] \<and> list_all (\<lambda>c. c \<noteq> [] \<and> sorted c) cs \<and> sorted_wrt (<) (map hd cs)
     \<and> (\<forall>c \<in> set cs. \<forall>i \<in> set c. \<forall>j < n. j \<in> set c \<longleftrightarrow> (i, j) \<in> conn E)"

definition merged_of :: "severity_settings \<Rightarrow> cluster_data list \<Rightarrow> nat list \<Rightarrow> cluster_data" where
  "merged_of st clusters c = (if length c = 1 then clusters ! hd c else merge_component st (map (\<lambda>i. clusters ! i) c))"

lemma singleton_components: "components_of {} n (map (\<lambda>i. [i]) [0..<n])"
proof -
  have "concat (map (\<lambda>i. [i]) xs) = xs" "map hd (map (\<lambda>i. [i]) xs) = xs" for xs :: "nat list" by (induction xs) auto
  moreover have "sorted_wrt (<) [0..<n]" by simp
  ultimately show ?thesis by (auto simp: components_of_def conn_def list_all_iff)
qed

lemma mset_concat_image: "mset (concat (map f xs)) = (\<Sum>x \<in># mset xs. mset (f x))"
  by (induction xs) simp_all

lemma grouped_components:
  assumes p: "reps_conn p n E" and d: "d = group_by (rep p) [0..<n]"
    and roots: "roots = sort_key (\<lambda>r. Min (set (dget_or d r []))) (dkeys d)"
  shows "components_of E n (map (\<lambda>r. dget_or d r []) roots)"
proof -
  let ?m = "\<lambda>r. filter (\<lambda>i. rep p i = r) [0..<n]"
  have keys: "set roots = rep p ` {0..<n}" "distinct roots"
    using groups.grp_keys [of "rep p" "[0..<n]"] groups.grp_set [of "rep p" "[0..<n]"]
    by (auto simp: roots d image_image)
  have val: "dget_or d r [] = ?m r" if "r \<in> set roots" for r
    using that keys by (auto simp: dget_or_def d dget_group_by)
  then have comps: "map (\<lambda>r. dget_or d r []) roots = map ?m roots" by simp
  have ne: "?m r \<noteq> []" if "r \<in> set roots" for r using that keys by (force simp: filter_empty_conv)
  have srt: "sorted (?m r)" for r by (simp add: sorted_wrt_filter)
  have mn: "Min (set (?m r)) = hd (?m r)" if "r \<in> set roots" for r
    using ne [OF that] srt [of r] by (cases "?m r") (auto intro!: Min_eqI)
  have "mset (concat (map ?m roots)) = mset (concat (map snd d))"
  proof -
    have "mset roots = mset (dkeys d)" by (simp add: roots)
    moreover have "map snd d = map ?m (dkeys d)" by (auto simp: d groups.grp_iff)
    ultimately show ?thesis by (simp only: mset_concat_image)
  qed
  then have ms: "mset (concat (map ?m roots)) = mset [0..<n]" by (simp only: d groups.grp_mset)
  have "sorted (map (\<lambda>r. Min (set (dget_or d r []))) roots)" unfolding roots by simp
  then have "sorted (map hd (map ?m roots))" using mn val by (simp cong: map_cong)
  moreover have "distinct (map hd (map ?m roots))"
  proof -
    have "rep p (hd (?m r)) = r" if "r \<in> set roots" for r using hd_in_set [OF ne [OF that]] by simp
    then show ?thesis using keys(2) by (auto simp: distinct_map inj_on_def) metis
  qed
  ultimately have strict: "sorted_wrt (<) (map hd (map ?m roots))" by (simp add: strict_sorted_iff)
  have "\<forall>c \<in> set (map ?m roots). \<forall>i \<in> set c. \<forall>j < n. j \<in> set c \<longleftrightarrow> (i, j) \<in> conn E"
    using p by (auto simp: reps_conn_def intro: conn_sym)
  with ms strict srt ne show ?thesis unfolding comps components_of_def list_all_iff by auto
qed

lemma merge_components:
  assumes n: "2 \<le> length clusters" "length embeddings = length clusters" and sim: "cosine_matrix embeddings = Inr sim"
    and E: "E = set (similar_pairs (\<lambda>i. is_merge_eligible (clusters ! i) (embeddings ! i) min_count) sim t (length clusters))"
  shows "\<exists>cs. components_of E (length clusters) cs
    \<and> merge_semantic_clusters st clusters embeddings t min_count = Some (Inr (map (merged_of st clusters) cs))"
proof -
  let ?n = "length clusters"
  let ?ps = "similar_pairs (\<lambda>i. is_merge_eligible (clusters ! i) (embeddings ! i) min_count) sim t ?n"
  obtain p m where pm: "link_all ?ps [0..<?n] False = Some (p, m)" "reps_conn p ?n E" "\<not> m \<longrightarrow> ?ps = []"
    using link_similar [OF refl] unfolding E by blast
  show ?thesis
  proof (cases m)
    case False
    have "components_of E ?n (map (\<lambda>i. [i]) [0..<?n])" using False pm(3) singleton_components by (simp add: E)
    moreover have "map (merged_of st clusters) (map (\<lambda>i. [i]) [0..<?n]) = clusters"
      by (simp add: merged_of_def comp_def map_nth)
    moreover have "merge_semantic_clusters st clusters embeddings t min_count = Some (Inr clusters)"
      using n sim pm(1) False by (simp add: merge_semantic_clusters_def Let_def)
    ultimately show ?thesis by metis
  next
    case True
    define d where "d = group_by (rep p) [0..<?n]"
    define roots where "roots = sort_key (\<lambda>r. Min (set (dget_or d r []))) (dkeys d)"
    have coll: "collect_components [0..<?n] p [] = Some d"
      using pm(2) by (simp add: collect_components_eq reps_conn_def d_def group_by_def)
    have "components_of E ?n (map (\<lambda>r. dget_or d r []) roots)"
      by (rule grouped_components [OF pm(2) d_def roots_def])
    moreover have "(if length c = 1 then hd (map ((!) clusters) c) else merge_component st (map ((!) clusters) c)) = merged_of st clusters c" for c
      by (cases c) (auto simp: merged_of_def)
    then have "merge_semantic_clusters st clusters embeddings t min_count = Some (Inr (map (merged_of st clusters) (map (\<lambda>r. dget_or d r []) roots)))"
      using n sim pm(1) True coll by (simp add: merge_semantic_clusters_def Let_def roots_def comp_def)
    ultimately show ?thesis by blast
  qed
qed

section \<open>Merging conserves the counts\<close>

lemma counter_get_foldl_add:
  "counter_get (foldl (\<lambda>t (key, v). dset key (counter_get t key + v) t) t d) k =
     counter_get t k + sum_list (map snd (filter (\<lambda>e. fst e = k) d))"
  by (induction d arbitrary: t) (auto simp: counter_get_def dget_or_dset)

lemma sum_entries: "dict_wf d \<Longrightarrow> sum_list (map snd (filter (\<lambda>e. fst e = k) d)) = counter_get d k"
proof (induction d)
  case (Cons e d)
  have "k \<notin> fst ` set d \<Longrightarrow> filter (\<lambda>e. fst e = k) d = []" by (auto simp: filter_empty_conv)
  with Cons show ?case by (cases e) (auto simp: dict_wf_def counter_get_def dget_or_def)
qed (simp add: counter_get_def dget_or_def)

lemma sum_counts_get:
  assumes "list_all dict_wf ds"
  shows "counter_get (sum_counts ds) k = sum_list (map (\<lambda>d. counter_get d k) ds)"
proof -
  have "counter_get (foldl (\<lambda>totals d. foldl (\<lambda>t (key, v). dset key (counter_get t key + v) t) totals d) t ds) k =
      counter_get t k + sum_list (map (\<lambda>d. counter_get d k) ds)" for t
    using assms by (induction ds arbitrary: t) (simp_all add: counter_get_foldl_add sum_entries)
  then show ?thesis by (simp add: sum_counts_def)
qed

definition cluster_wf :: "cluster_data \<Rightarrow> bool" where
  "cluster_wf c \<longleftrightarrow> dict_wf (cd_services c) \<and> dict_wf (cd_levels c) \<and> dict_wf (cd_error_service_counts c)"

lemma merge_component_sums:
  assumes "list_all cluster_wf ms"
  shows "cd_count (merge_component st ms) = sum_list (map cd_count ms)"
    and "cd_baseline_count (merge_component st ms) = sum_list (map cd_baseline_count ms)"
    and "counter_get (cd_services (merge_component st ms)) s = sum_list (map (\<lambda>c. counter_get (cd_services c) s) ms)"
    and "counter_get (cd_levels (merge_component st ms)) s = sum_list (map (\<lambda>c. counter_get (cd_levels c) s) ms)"
    and "counter_get (cd_error_service_counts (merge_component st ms)) s = sum_list (map (\<lambda>c. counter_get (cd_error_service_counts c) s) ms)"
  using assms
  by (simp_all add: merge_component_def Let_def case_prod_beta sum_counts_get list_all_iff cluster_wf_def comp_def)

definition conserved :: "(cluster_data \<Rightarrow> nat) \<Rightarrow> cluster_data list \<Rightarrow> cluster_data list \<Rightarrow> bool" where
  "conserved f cs cs' \<longleftrightarrow> sum_list (map f cs') = sum_list (map f cs)"

lemma sum_list_map_concat: "sum_list (map g (concat xss)) = sum_list (map (\<lambda>xs. sum_list (map g xs)) xss)" for g :: "'x \<Rightarrow> nat"
  by (induction xss) simp_all

lemma components_conserve:
  assumes cs: "components_of E (length clusters) cs" and "list_all cluster_wf clusters"
    and f: "\<And>ms. list_all cluster_wf ms \<Longrightarrow> f (merge_component st ms) = sum_list (map f ms)"
  shows "conserved f clusters (map (merged_of st clusters) cs)"
proof -
  have ms: "mset (concat cs) = mset [0..<length clusters]" using cs by (simp add: components_of_def)
  have "f (merged_of st clusters c) = sum_list (map (\<lambda>i. f (clusters ! i)) c)" if c: "c \<in> set cs" for c
  proof -
    have "set c \<subseteq> set (concat cs)" using c by auto
    then have "set c \<subseteq> {0..<length clusters}" using mset_eq_setD [OF ms] by simp
    then have "list_all cluster_wf (map (\<lambda>i. clusters ! i) c)" using assms(2) by (auto simp: list_all_iff)
    moreover have "length c = 1 \<Longrightarrow> c = [hd c]" by (cases c) auto
    then have "length c = 1 \<Longrightarrow> sum_list (map (\<lambda>i. f (clusters ! i)) c) = f (clusters ! hd c)"
      by (metis list.simps(8,9) sum_list.Cons sum_list.Nil add_0_right)
    ultimately show ?thesis by (auto simp: merged_of_def f comp_def)
  qed
  then have "map (\<lambda>c. f (merged_of st clusters c)) cs = map (\<lambda>c. sum_list (map (\<lambda>i. f (clusters ! i)) c)) cs" by simp
  then have "sum_list (map f (map (merged_of st clusters) cs)) = sum_list (map (\<lambda>i. f (clusters ! i)) (concat cs))"
    by (simp only: map_map comp_def sum_list_map_concat)
  also have "\<dots> = sum_list (map (\<lambda>i. f (clusters ! i)) [0..<length clusters])"
    using arg_cong [OF ms, of "\<lambda>m. sum_mset (image_mset (\<lambda>i. f (clusters ! i)) m)"] by (simp flip: sum_mset_sum_list)
  also have "\<dots> = sum_list (map f clusters)" by (simp add: map_nth comp_def flip: map_map [of f "(!) clusters", unfolded comp_def])
  finally show ?thesis by (simp add: conserved_def)
qed

text \<open>What a merge can return: the clusters, or one cluster per component of some graph on them.\<close>

definition merge_result :: "severity_settings \<Rightarrow> cluster_data list \<Rightarrow> cluster_data list \<Rightarrow> bool" where
  "merge_result st clusters merged \<longleftrightarrow> merged = clusters
     \<or> (\<exists>E cs. components_of E (length clusters) cs \<and> merged = map (merged_of st clusters) cs)"

lemma merge_result_conserves:
  assumes "merge_result st clusters merged" and "list_all cluster_wf clusters"
    and "\<And>ms. list_all cluster_wf ms \<Longrightarrow> f (merge_component st ms) = sum_list (map f ms)"
  shows "conserved f clusters merged"
  using assms components_conserve [of _ clusters _ f st] by (auto simp: merge_result_def conserved_def)

lemma merge_result_length:
  assumes "merge_result st clusters merged"
  shows "length merged \<le> length clusters"
proof -
  have "length cs \<le> length clusters" if cs: "components_of E (length clusters) cs" for E cs
  proof -
    have "length (concat cs) = length clusters" using cs by (metis components_of_def length_upt minus_nat.diff_0 size_mset)
    moreover have "list_all (\<lambda>c. c \<noteq> []) ds \<Longrightarrow> length ds \<le> length (concat ds)" for ds :: "nat list list"
    proof (induction ds)
      case (Cons a ds)
      then have "1 \<le> length a" by (cases a) auto
      with Cons show ?case by simp
    qed simp
    ultimately show ?thesis using cs by (fastforce simp: components_of_def list_all_iff)
  qed
  then show ?thesis using assms by (auto simp: merge_result_def)
qed

lemma maybe_merge_ends:
  "\<exists>merged used. maybe_semantic_merge st provider threshold size_floor clusters = Some (merged, used)
    \<and> (\<not> used \<longrightarrow> merged = clusters) \<and> merge_result st clusters merged"
proof -
  let ?asked = "rbind provider (\<lambda>p. rbind (pv_is_available p) (\<lambda>available.
             if \<not> available then Inr None
             else rbind (pv_embed_texts p (map cd_representative_message clusters)) (\<lambda>embeddings. Inr (Some embeddings))))"
  show ?thesis
  proof (cases "2 \<le> length clusters \<and> (\<exists>embeddings. ?asked = Inr (Some embeddings) \<and> length embeddings = length clusters)")
    case True
    then obtain embeddings where asked: "?asked = Inr (Some embeddings)" "length embeddings = length clusters" by blast
    show ?thesis
    proof (cases "cosine_matrix embeddings")
      case (Inl e)
      then have "maybe_semantic_merge st provider threshold size_floor clusters = Some (clusters, False)"
        using True asked by (simp add: maybe_semantic_merge_def merge_semantic_clusters_def Let_def)
      then show ?thesis by (auto simp: merge_result_def)
    next
      case (Inr sim)
      obtain E cs where "components_of E (length clusters) cs"
          "merge_semantic_clusters st clusters embeddings threshold size_floor = Some (Inr (map (merged_of st clusters) cs))"
        using merge_components [OF conjunct1 [OF True] asked(2) Inr refl, of size_floor threshold st] by blast
      then show ?thesis using True asked by (auto simp: maybe_semantic_merge_def merge_result_def)
    qed
  next
    case False
    then have "maybe_semantic_merge st provider threshold size_floor clusters = Some (clusters, False)"
      by (auto simp: maybe_semantic_merge_def split: sum.splits option.splits)
    then show ?thesis by (auto simp: merge_result_def)
  qed
qed

text \<open>
  C12: merging by similarity is exact. With embeddings of one dimension for at least two clusters, the pass
  always ends, and its result has one cluster per connected component of the graph that links two eligible
  clusters of cosine similarity at or above the threshold, in the order of the first members. A component
  of one cluster is kept as it is; any other is one merged cluster.
\<close>

theorem semantic_merge_exact:
  assumes "2 \<le> length clusters" and "length embeddings = length clusters" and "cosine_matrix embeddings = Inr sim"
  shows "\<exists>cs. components_of {(i, j). i < j \<and> j < length clusters
        \<and> is_merge_eligible (clusters ! i) (embeddings ! i) min_count
        \<and> is_merge_eligible (clusters ! j) (embeddings ! j) min_count \<and> threshold \<le> sim i j} (length clusters) cs
    \<and> merge_semantic_clusters st clusters embeddings threshold min_count =
        Some (Inr (map (\<lambda>c. if length c = 1 then clusters ! hd c else merge_component st (map ((!) clusters) c)) cs))"
proof -
  let ?el = "\<lambda>i. is_merge_eligible (clusters ! i) (embeddings ! i) min_count"
  have "{(i, j). i < j \<and> j < length clusters \<and> ?el i \<and> ?el j \<and> threshold \<le> sim i j} =
      set (similar_pairs ?el sim threshold (length clusters))"
    using similar_pairs_iff by auto
  from merge_components [OF assms this, of st] show ?thesis unfolding merged_of_def [abs_def] .
qed

text \<open>
  C13: the merge pass never loses or invents a log line and never gets in the way. Whatever the embedding
  backend does (unavailable, raising, a wrong number of vectors, ragged vectors), the pass ends, and when
  it reports that no embeddings were used the clusters are returned unchanged. In every case the total
  count, the total baseline count and the count of every service, level and erroring service over all
  clusters are conserved.
\<close>

theorem semantic_merge_conserves:
  assumes wf: "list_all cluster_wf clusters"
  shows "\<exists>merged used. maybe_semantic_merge st provider threshold size_floor clusters = Some (merged, used)
    \<and> (\<not> used \<longrightarrow> merged = clusters)
    \<and> conserved cd_count clusters merged \<and> conserved cd_baseline_count clusters merged
    \<and> (\<forall>s. conserved (\<lambda>c. counter_get (cd_services c) s) clusters merged
         \<and> conserved (\<lambda>c. counter_get (cd_levels c) s) clusters merged
         \<and> conserved (\<lambda>c. counter_get (cd_error_service_counts c) s) clusters merged)"
proof -
  obtain merged used where m: "maybe_semantic_merge st provider threshold size_floor clusters = Some (merged, used)"
      "\<not> used \<longrightarrow> merged = clusters" "merge_result st clusters merged"
    using maybe_merge_ends by blast
  note keep = merge_result_conserves [OF m(3) wf]
  have "conserved cd_count clusters merged" "conserved cd_baseline_count clusters merged"
    by (intro keep merge_component_sums; assumption)+
  moreover have "conserved (\<lambda>c. counter_get (cd_services c) s) clusters merged"
    "conserved (\<lambda>c. counter_get (cd_levels c) s) clusters merged"
    "conserved (\<lambda>c. counter_get (cd_error_service_counts c) s) clusters merged" for s
    by (intro keep merge_component_sums; assumption)+
  ultimately show ?thesis using m(1,2) by blast
qed

definition demo_cluster :: "string \<Rightarrow> nat \<Rightarrow> cluster_data" where
  "demo_cluster fp n =
     \<lparr>cd_fingerprint = fp, cd_representative_message = ''connection refused'', cd_count = n, cd_services = [(''db'', n)],
      cd_levels = [(''error'', n)], cd_first_seen = Some 1, cd_last_seen = Some 2, cd_baseline_count = 0,
      cd_change_ratio = 1, cd_importance_score = 1, cd_is_trigger = False, cd_log_entry_ids = [], cd_merged_fingerprints = [],
      cd_error_service_counts = [(''db'', n)]\<rparr>"

definition demo_clusters :: "cluster_data list" where
  "demo_clusters = [demo_cluster ''a'' 3, demo_cluster ''b'' 1, demo_cluster ''c'' 2]"

definition demo_embeddings :: "real list list" where
  "demo_embeddings = [[1, 0], [0, 1], [1, 0]]"

lemma demo_cosine: "cosine_matrix demo_embeddings = Inr (\<lambda>i j. cosine (demo_embeddings ! i) (demo_embeddings ! j))"
  by (simp add: cosine_matrix_def demo_embeddings_def)

theorem semantic_merge_exact_witness:
  "\<exists>cs. components_of {(i, j). i < j \<and> j < length demo_clusters
        \<and> is_merge_eligible (demo_clusters ! i) (demo_embeddings ! i) 1
        \<and> is_merge_eligible (demo_clusters ! j) (demo_embeddings ! j) 1
        \<and> 9 / 10 \<le> cosine (demo_embeddings ! i) (demo_embeddings ! j)} (length demo_clusters) cs
    \<and> merge_semantic_clusters \<lparr>weight_fatal = 5, weight_error = 4, weight_warn = 3, weight_info = 1, weight_debug = 1\<rparr>
        demo_clusters demo_embeddings (9 / 10) 1 =
        Some (Inr (map (\<lambda>c. if length c = 1 then demo_clusters ! hd c else
          merge_component \<lparr>weight_fatal = 5, weight_error = 4, weight_warn = 3, weight_info = 1, weight_debug = 1\<rparr>
            (map ((!) demo_clusters) c)) cs))"
proof -
  have "2 \<le> length demo_clusters" "length demo_embeddings = length demo_clusters"
    by (simp_all add: demo_clusters_def demo_embeddings_def)
  then show ?thesis by (rule semantic_merge_exact [OF _ _ demo_cosine])
qed

theorem semantic_merge_conserves_witness:
  "\<exists>merged used. maybe_semantic_merge \<lparr>weight_fatal = 5, weight_error = 4, weight_warn = 3, weight_info = 1, weight_debug = 1\<rparr>
      (Inr \<lparr>pv_is_available = Inr True, pv_embed_texts = (\<lambda>_. Inr demo_embeddings)\<rparr>) (9 / 10) 1 demo_clusters = Some (merged, used)
    \<and> sum_list (map cd_count merged) = 6"
proof -
  have "list_all cluster_wf demo_clusters" "sum_list (map cd_count demo_clusters) = 6" by code_simp+
  then show ?thesis
    using semantic_merge_conserves [of demo_clusters "\<lparr>weight_fatal = 5, weight_error = 4, weight_warn = 3, weight_info = 1, weight_debug = 1\<rparr>"
      "Inr \<lparr>pv_is_available = Inr True, pv_embed_texts = (\<lambda>_. Inr demo_embeddings)\<rparr>" "9 / 10" 1]
    by (auto simp: conserved_def)
qed

end
