(* ===== verification/ClusterRuns.thy ===== *)
theory ClusterRuns
  imports SemanticMerge
begin

text \<open>
  The pipeline half of \<open>core/clustering/clusterer.py\<close>: ranking with the display cap, the stored rows of a
  run, and the run from the log table to the ranked clusters. \<open>uuid4\<close> is a parameter: the draws a call
  makes are numbered, and distinct draws are assumed to give distinct ids. The database's answers to the
  aggregation queries are a parameter as in \<open>Clustering\<close>. Object identity is position in the merged list.
  The upsert of cluster embeddings after a run swallows its exceptions and is left out, as are the
  metrics and tracing around the call.
\<close>

section \<open>Ranking and the display cap\<close>

text \<open>\<open>xs[:k]\<close>, which counts from the end for a negative \<open>k\<close>.\<close>

definition slice_to :: "int \<Rightarrow> 'a list \<Rightarrow> 'a list" where
  "slice_to k xs = take (nat (if k < 0 then int (length xs) + k else k)) xs"

definition top_error_group :: "cluster_data \<Rightarrow> nat" where
  "top_error_group c = max_or 0 (dvals (cd_error_service_counts c))"

definition rank_and_cap :: "cluster_data list \<Rightarrow> int \<Rightarrow> cluster_data list" where
  "rank_and_cap clusters max_clusters =
     (let merged = sort_key (\<lambda>c. - cd_importance_score c) clusters;
          top = slice_to max_clusters merged in
      if length top < length merged then
        (case max_by (\<lambda>(c, i). (top_error_group c, cd_count c)) (zip merged [0..<length merged]) of
           None \<Rightarrow> top
         | Some (candidate, pos) \<Rightarrow>
             if 0 < top_error_group candidate \<and> \<not> pos < length top then top @ [candidate] else top)
      else top)"

definition rank_and_merge_clusters ::
    "severity_settings \<Rightarrow> embeddings_provider res \<Rightarrow> real \<Rightarrow> int \<Rightarrow> cluster_data list \<Rightarrow> int \<Rightarrow> (cluster_data list \<times> string) option" where
  "rank_and_merge_clusters st provider threshold size_floor clusters max_clusters =
     Option.bind (maybe_semantic_merge st provider threshold size_floor clusters) (\<lambda>(merged, used_semantic).
       Some (rank_and_cap merged max_clusters, if used_semantic then ''fingerprint+semantic'' else ''fingerprint''))"

section \<open>Stored rows\<close>

record cluster_run =
  run_id :: nat
  run_window_start :: datetime
  run_window_end :: datetime
  run_service_filter :: "string option"
  run_environment_filter :: "string option"
  run_algorithm :: string
  run_status :: string
  run_scope :: string

record stored_cluster =
  sc_id :: nat
  sc_cluster_run_id :: nat
  sc_cluster_key :: string
  sc_representative_message :: "string option"
  sc_fingerprint :: string
  sc_count :: nat
  sc_services_json :: "string list"
  sc_levels_json :: "(string, nat) dict"
  sc_first_seen :: "int option"
  sc_last_seen :: "int option"
  sc_baseline_count :: nat
  sc_change_ratio :: real
  sc_importance_score :: real

record stored_member =
  sm_id :: nat
  sm_cluster_id :: nat
  sm_log_entry_id :: nat

record cluster_db =
  db_entries :: "log_entry list"
  db_jobs :: "ingestion_job list"
  db_runs :: "cluster_run list"
  db_clusters :: "stored_cluster list"
  db_members :: "stored_member list"

definition DEFAULT_SCOPE :: string where "DEFAULT_SCOPE = ''default''"

definition create_cluster_run ::
    "cluster_db \<Rightarrow> nat \<Rightarrow> datetime \<Rightarrow> datetime \<Rightarrow> string option \<Rightarrow> string option \<Rightarrow> bool \<Rightarrow> string \<Rightarrow> string \<Rightarrow> cluster_db \<times> cluster_run" where
  "create_cluster_run db new_id window_start window_end service environment save algorithm sc =
     (let run = \<lparr>run_id = new_id, run_window_start = window_start, run_window_end = window_end, run_service_filter = service,
                 run_environment_filter = environment, run_algorithm = algorithm, run_status = ''completed'',
                 run_scope = (if sc = [] then DEFAULT_SCOPE else sc)\<rparr> in
      (if save then db\<lparr>db_runs := db_runs db @ [run]\<rparr> else db, run))"

definition cluster_store_row :: "nat \<Rightarrow> nat \<Rightarrow> cluster_data \<Rightarrow> stored_cluster" where
  "cluster_store_row new_id run cd =
     \<lparr>sc_id = new_id, sc_cluster_run_id = run, sc_cluster_key = cd_fingerprint cd,
      sc_representative_message = (if cd_representative_message cd = [] then None else Some (take 2048 (cd_representative_message cd))),
      sc_fingerprint = cd_fingerprint cd, sc_count = cd_count cd, sc_services_json = dkeys (cd_services cd),
      sc_levels_json = cd_levels cd, sc_first_seen = cd_first_seen cd, sc_last_seen = cd_last_seen cd,
      sc_baseline_count = cd_baseline_count cd, sc_change_ratio = cd_change_ratio cd,
      sc_importance_score = cd_importance_score cd\<rparr>"

fun cluster_and_member_rows :: "(nat \<Rightarrow> nat) \<Rightarrow> nat \<Rightarrow> nat \<Rightarrow> cluster_data list \<Rightarrow> stored_cluster list \<times> stored_member list" where
  "cluster_and_member_rows uuid k run [] = ([], [])"
| "cluster_and_member_rows uuid k run (cd # cds) =
     (let cluster_id = uuid k;
          sampled = take MAX_CLUSTER_MEMBERS (cd_log_entry_ids cd);
          members = map (\<lambda>(log_id, i). \<lparr>sm_id = uuid i, sm_cluster_id = cluster_id, sm_log_entry_id = log_id\<rparr>)
                      (zip sampled [Suc k..<Suc k + length sampled]);
          (cluster_rows, member_rows) = cluster_and_member_rows uuid (Suc k + length sampled) run cds in
      (cluster_store_row cluster_id run cd # cluster_rows, members @ member_rows))"

definition persist_clusters :: "(nat \<Rightarrow> nat) \<Rightarrow> nat \<Rightarrow> cluster_db \<Rightarrow> cluster_run \<Rightarrow> cluster_data list \<Rightarrow> cluster_db" where
  "persist_clusters uuid k db run clusters =
     (let (cluster_rows, member_rows) = cluster_and_member_rows uuid k (run_id run) clusters in
      db\<lparr>db_clusters := db_clusters db @ cluster_rows, db_members := db_members db @ member_rows\<rparr>)"

section \<open>A clustering run\<close>

record run_request =
  rq_window_start :: datetime
  rq_window_end :: datetime
  rq_service :: "string option"
  rq_environment :: "string option"
  rq_baseline_window :: string
  rq_max_clusters :: int
  rq_save :: bool
  rq_job :: "nat option"
  rq_scope :: string

definition window_of :: "run_request \<Rightarrow> window_query" where
  "window_of rq = \<lparr>wq_start = instant (rq_window_start rq), wq_end = instant (rq_window_end rq), wq_scope = rq_scope rq,
     wq_service = rq_service rq, wq_environment = rq_environment rq, wq_job = rq_job rq\<rparr>"

definition baseline_of :: "run_request \<Rightarrow> datetime \<Rightarrow> datetime \<Rightarrow> window_query" where
  "baseline_of rq b0 b1 = (window_of rq)\<lparr>wq_start := instant b0, wq_end := instant b1\<rparr>"

text \<open>
  The merge backend and its settings, the severity weights, the ids drawn and the database's answers are
  the environment of a run.
\<close>

record run_env =
  re_severity :: severity_settings
  re_provider :: "embeddings_provider res"
  re_threshold :: real
  re_min_count :: int
  re_uuid :: "nat \<Rightarrow> nat"
  re_answers :: "cluster_row list \<Rightarrow> answer_a \<times> answer_b \<times> answer_c \<times> answer_c"

definition run_groups :: "run_env \<Rightarrow> cluster_db \<Rightarrow> run_request \<Rightarrow> (string, cluster_group) dict" where
  "run_groups env db rq =
     (case re_answers env (cluster_select (window_of rq) (db_entries db)) of
        (qa, qb, qc, qd) \<Rightarrow> aggregate_groups qa qb qc qd)"

definition run_clustering ::
    "run_env \<Rightarrow> cluster_db \<Rightarrow> run_request \<Rightarrow> ((cluster_db \<times> cluster_run \<times> cluster_data list) res) option" where
  "run_clustering env db rq =
     (let groups = run_groups env db rq in
      if groups = [] then
        (let (db', run) = create_cluster_run db (re_uuid env 0) (rq_window_start rq) (rq_window_end rq) (rq_service rq)
                            (rq_environment rq) (rq_save rq) ''fingerprint'' (rq_scope rq) in
         Some (Inr (db', run, [])))
      else
        case resolve_baseline_window (rq_window_start rq) (rq_window_end rq) (rq_baseline_window rq) of
          Inl e \<Rightarrow> Some (Inl e)
        | Inr (b0, b1) \<Rightarrow>
            let baseline_counts = get_baseline_counts (db_entries db) (db_jobs db) (baseline_of rq b0 b1) None;
                clusters = map (\<lambda>(fp, g). build_cluster_data (re_severity env) fp g baseline_counts) groups in
            Option.bind (rank_and_merge_clusters (re_severity env) (re_provider env) (re_threshold env) (re_min_count env)
                           clusters (rq_max_clusters rq)) (\<lambda>(top, algorithm).
              let (db', run) = create_cluster_run db (re_uuid env 0) (rq_window_start rq) (rq_window_end rq) (rq_service rq)
                                 (rq_environment rq) (rq_save rq) algorithm (rq_scope rq) in
              Some (Inr (if rq_save rq then persist_clusters (re_uuid env) 1 db' run top else db', run, top))))"

section \<open>The cap keeps the strongest error candidate\<close>

lemma slice_to_take: "\<exists>k. slice_to m xs = take k xs"
  by (auto simp: slice_to_def)

lemma rank_and_cap_cases:
  assumes "merged = sort_key (\<lambda>c. - cd_importance_score c) clusters"
  shows "rank_and_cap clusters m = slice_to m merged
    \<or> (\<exists>c \<in> set (drop (length (slice_to m merged)) merged). rank_and_cap clusters m = slice_to m merged @ [c])"
proof -
  obtain k where k: "slice_to m merged = take k merged" using slice_to_take by blast
  have "c \<in> set (drop (length (take k merged)) merged)"
    if "max_by f (zip merged [0..<length merged]) = Some (c, i)" "\<not> i < length (take k merged)" for c i and f :: "_ \<Rightarrow> nat \<times> nat"
  proof -
    have "(c, i) \<in> set (zip merged [0..<length merged])" using max_by_in [OF that(1)] .
    then have "i < length merged" "merged ! i = c" by (auto simp: in_set_zip)
    with that(2) show ?thesis by (auto simp: in_set_conv_nth intro!: exI [of _ "i - length (take k merged)"])
  qed
  then show ?thesis unfolding rank_and_cap_def Let_def assms [symmetric] k by (auto split: option.splits)
qed

lemma rank_and_cap_sub: "mset (rank_and_cap clusters m) \<subseteq># mset clusters"
proof -
  define merged where "merged = sort_key (\<lambda>c. - cd_importance_score c) clusters"
  obtain k where k: "slice_to m merged = take k merged" using slice_to_take by blast
  have "take k merged = take (length (take k merged)) merged" by (cases "k \<le> length merged") auto
  then have "mset (take k merged) + mset (drop (length (take k merged)) merged) = mset merged"
    by (metis append_take_drop_id mset_append)
  then have split: "mset clusters = mset (take k merged) + mset (drop (length (take k merged)) merged)"
    by (simp add: merged_def by_key.rank_mset)
  from rank_and_cap_cases [OF merged_def, of m] show ?thesis unfolding k split by auto
qed

lemma rank_and_cap_top:
  assumes "c \<in> set clusters" and "0 < top_error_group c"
  shows "\<exists>t \<in> set (rank_and_cap clusters m). \<forall>x \<in> set clusters. (top_error_group x, cd_count x) \<le> (top_error_group t, cd_count t)"
proof -
  define merged where "merged = sort_key (\<lambda>c. - cd_importance_score c) clusters"
  let ?top = "slice_to m merged" and ?f = "\<lambda>(c, i :: nat). (top_error_group c, cd_count c)"
  have set: "set merged = set clusters" unfolding merged_def by simp
  have "zip merged [0..<length merged] \<noteq> []" using assms(1) set by auto
  then obtain t i where t: "max_by ?f (zip merged [0..<length merged]) = Some (t, i)"
    using max_by_None [of ?f "zip merged [0..<length merged]"] by (cases "max_by ?f (zip merged [0..<length merged])") auto
  have pos: "i < length merged" "merged ! i = t" using max_by_in [OF t] by (auto simp: in_set_zip)
  have best: "(top_error_group x, cd_count x) \<le> (top_error_group t, cd_count t)" if "x \<in> set clusters" for x
  proof -
    from that obtain j where "j < length merged" "merged ! j = x" using set by (metis in_set_conv_nth)
    then have "(x, j) \<in> set (zip merged [0..<length merged])" by (auto simp: in_set_zip)
    from max_by_ge [OF t this] show ?thesis by simp
  qed
  have "0 < top_error_group t" using best [OF assms(1)] assms(2) by (auto simp: less_eq_prod_def)
  moreover have "t \<in> set ?top" if "i < length ?top"
  proof -
    obtain k where k: "?top = take k merged" using slice_to_take by blast
    then have "?top ! i = t" using that pos by simp
    with that show ?thesis by (metis nth_mem)
  qed
  moreover have "i < length ?top" if "\<not> length ?top < length merged" using that pos by simp
  ultimately have "t \<in> set (rank_and_cap clusters m)"
    using t unfolding rank_and_cap_def Let_def merged_def [symmetric] by auto
  with best show ?thesis by blast
qed

lemma rank_and_cap_shape:
  "\<exists>shown extra. rank_and_cap clusters m = shown @ extra \<and> length extra \<le> 1 \<and> (0 \<le> m \<longrightarrow> length shown \<le> nat m)
    \<and> sorted (map (\<lambda>c. - cd_importance_score c) shown)
    \<and> (\<forall>x \<in> set shown. \<forall>y \<in># mset clusters - mset shown. cd_importance_score y \<le> cd_importance_score x)"
proof -
  define merged where "merged = sort_key (\<lambda>c. - cd_importance_score c) clusters"
  obtain k where k: "slice_to m merged = take k merged" using slice_to_take by blast
  have ms: "mset clusters - mset (take k merged) = mset (drop k merged)"
    by (metis add_diff_cancel_left' append_take_drop_id by_key.rank_mset merged_def mset_append)
  have "\<forall>x \<in> set (take k merged). \<forall>y \<in># mset clusters - mset (take k merged). cd_importance_score y \<le> cd_importance_score x"
    unfolding ms using by_key.rank_cut [of _ k "\<lambda>c. - cd_importance_score c" clusters] by (auto simp: merged_def)
  moreover have "sorted (map (\<lambda>c. - cd_importance_score c) (take k merged))"
    unfolding take_map [symmetric] by (rule sorted_wrt_take) (simp add: merged_def)
  moreover have "0 \<le> m \<longrightarrow> length (slice_to m merged) \<le> nat m" by (simp add: slice_to_def)
  moreover obtain extra where "rank_and_cap clusters m = take k merged @ extra" "length extra \<le> 1"
    using rank_and_cap_cases [OF merged_def, of m] k by fastforce
  ultimately show ?thesis using k by metis
qed

text \<open>
  the display cap never hides the strongest root-cause candidate. Ranking always ends; it shows, in
  descending importance, at most the requested number of the merged clusters, each at least as important
  as every one left out, and at most one more. Whenever some merged cluster has error lines, the list holds a
  cluster whose largest single-service error group, with the count to break ties, is the largest of all.
\<close>

theorem rank_and_merge_keeps_candidate:
  "\<exists>merged used shown extra.
     maybe_semantic_merge st provider threshold size_floor clusters = Some (merged, used)
     \<and> rank_and_merge_clusters st provider threshold size_floor clusters max_clusters =
         Some (shown @ extra, if used then ''fingerprint+semantic'' else ''fingerprint'')
     \<and> length extra \<le> 1 \<and> (0 \<le> max_clusters \<longrightarrow> length shown \<le> nat max_clusters)
     \<and> mset (shown @ extra) \<subseteq># mset merged
     \<and> sorted (map (\<lambda>c. - cd_importance_score c) shown)
     \<and> (\<forall>x \<in> set shown. \<forall>y \<in># mset merged - mset shown. cd_importance_score y \<le> cd_importance_score x)
     \<and> ((\<exists>c \<in> set merged. 0 < top_error_group c) \<longrightarrow>
          (\<exists>t \<in> set (shown @ extra). \<forall>x \<in> set merged. (top_error_group x, cd_count x) \<le> (top_error_group t, cd_count t)))"
proof -
  obtain merged used where m: "maybe_semantic_merge st provider threshold size_floor clusters = Some (merged, used)"
    using maybe_merge_ends by blast
  obtain shown extra where s: "rank_and_cap merged max_clusters = shown @ extra" "length extra \<le> 1"
    "0 \<le> max_clusters \<longrightarrow> length shown \<le> nat max_clusters" "sorted (map (\<lambda>c. - cd_importance_score c) shown)"
    "\<forall>x \<in> set shown. \<forall>y \<in># mset merged - mset shown. cd_importance_score y \<le> cd_importance_score x"
    using rank_and_cap_shape by blast
  have "mset (shown @ extra) \<subseteq># mset merged" using rank_and_cap_sub [of merged max_clusters] s(1) by simp
  moreover have "rank_and_merge_clusters st provider threshold size_floor clusters max_clusters =
      Some (shown @ extra, if used then ''fingerprint+semantic'' else ''fingerprint'')"
    by (simp add: rank_and_merge_clusters_def m s(1))
  moreover have "(\<exists>c \<in> set merged. 0 < top_error_group c) \<longrightarrow>
      (\<exists>t \<in> set (shown @ extra). \<forall>x \<in> set merged. (top_error_group x, cd_count x) \<le> (top_error_group t, cd_count t))"
    using rank_and_cap_top [of _ merged max_clusters] s(1) by auto
  ultimately show ?thesis using m s by blast
qed

theorem rank_and_merge_keeps_candidate_witness:
  "\<exists>merged used top alg.
     maybe_semantic_merge \<lparr>weight_fatal = 5, weight_error = 4, weight_warn = 3, weight_info = 1, weight_debug = 1\<rparr>
       (Inl (ValueError ''no backend'')) 1 1 demo_clusters = Some (merged, used)
     \<and> rank_and_merge_clusters \<lparr>weight_fatal = 5, weight_error = 4, weight_warn = 3, weight_info = 1, weight_debug = 1\<rparr>
         (Inl (ValueError ''no backend'')) 1 1 demo_clusters 0 = Some (top, alg)
     \<and> (\<exists>t \<in> set top. \<forall>x \<in> set demo_clusters. (top_error_group x, cd_count x) \<le> (top_error_group t, cd_count t))"
proof -
  let ?st = "\<lparr>weight_fatal = 5, weight_error = 4, weight_warn = 3, weight_info = 1, weight_debug = 1\<rparr>"
  have "maybe_semantic_merge ?st (Inl (ValueError ''no backend'')) 1 1 demo_clusters = Some (demo_clusters, False)"
    "\<exists>c \<in> set demo_clusters. 0 < top_error_group c"
    by (simp_all add: maybe_semantic_merge_def demo_clusters_def demo_cluster_def top_error_group_def max_or_def)
  then show ?thesis
    using rank_and_merge_keeps_candidate [of ?st "Inl (ValueError ''no backend'')" 1 1 demo_clusters 0] by auto
qed

section \<open>Every line of the window is counted once\<close>

definition env_ok :: "run_env \<Rightarrow> bool" where
  "env_ok env \<longleftrightarrow> (\<forall>rows. case re_answers env rows of (qa, qb, qc, qd) \<Rightarrow> answers rows qa qb qc qd)"

lemma sum_length_filter:
  "finite S \<Longrightarrow> k ` set rows \<subseteq> S \<Longrightarrow> (\<Sum>x \<in> S. length (filter (\<lambda>r. k r = x) rows)) = length rows"
proof (induction rows)
  case (Cons r rows)
  have "(\<Sum>x \<in> S. length (filter (\<lambda>r. k r = x) (r # rows))) = (\<Sum>x \<in> S. (if k r = x then 1 else 0) + length (filter (\<lambda>r. k r = x) rows))"
    by (intro sum.cong) auto
  with Cons show ?case by (simp add: sum.distrib)
qed simp

lemma dict_wf_fold_update: "dict_wf d \<Longrightarrow> dict_wf (foldl (\<lambda>d x. dset (k x) (f x (dget_or d (k x) z)) d) d xs)"
  by (induction xs arbitrary: d) auto

lemma aggregate_wf: "dict_wf (aggregate_groups qa qb qc qd)"
proof -
  have last: "dict_wf d \<Longrightarrow> dict_wf (foldl (\<lambda>groups (fp, n, message). on_group fp (\<lambda>g. g\<lparr>gr_messages := [message]\<rparr>) groups) d best)"
    for d and best :: "(string, nat \<times> string) dict"
    by (induction best arbitrary: d) (auto simp: on_group_def)
  show ?thesis unfolding aggregate_groups_def Let_def step_forms
    by (intro last dict_wf_fold_update dict_wf_Nil)
qed

lemma dict_wf_mset: "mset d = mset d' \<Longrightarrow> dict_wf d' \<Longrightarrow> dict_wf d"
  unfolding dict_wf_def by (metis mset_eq_imp_distinct_iff mset_map)

lemma run_groups_facts:
  assumes "env_ok env" and rows: "rows = cluster_select (window_of rq) (db_entries db)"
  shows "dict_wf (run_groups env db rq)" and "fst ` set (run_groups env db rq) = cr_fingerprint ` set rows"
    and "(fp, g) \<in> set (run_groups env db rq) \<Longrightarrow> group_of (of_fp fp rows) g"
proof -
  obtain qa qb qc qd where q: "re_answers env rows = (qa, qb, qc, qd)" by (metis prod_cases4)
  then have ok: "answers rows qa qb qc qd" using assms(1) unfolding env_ok_def by (metis (no_types, lifting) case_prod_conv)
  have gs: "run_groups env db rq = aggregate_groups qa qb qc qd" by (simp add: run_groups_def rows [symmetric] q)
  show wf: "dict_wf (run_groups env db rq)" unfolding gs by (rule aggregate_wf)
  show keys: "fst ` set (run_groups env db rq) = cr_fingerprint ` set rows" unfolding gs by (rule aggregate_keys [OF ok])
  assume mem: "(fp, g) \<in> set (run_groups env db rq)"
  then have "fp \<in> cr_fingerprint ` set rows" using keys by force
  then have "of_fp fp rows \<noteq> []" by (auto simp: of_fp_def filter_empty_conv)
  moreover have "dget (aggregate_groups qa qb qc qd) fp = Some g" using mem wf by (simp add: gs dget_wf_iff)
  ultimately show "group_of (of_fp fp rows) g" using aggregate_get [OF ok, of fp] by simp
qed

lemma built_cluster_wf:
  assumes "group_of rs g"
  shows "cluster_wf (build_cluster_data st fp g bc)" and "cd_count (build_cluster_data st fp g bc) = length rs"
proof -
  have "dict_wf (foldl (count_step f) [] rs)" for f by (rule count_wf) simp
  then show "cluster_wf (build_cluster_data st fp g bc)"
    using assms dict_wf_mset by (auto simp: cluster_wf_def build_cluster_data_def Let_def group_of_def)
  show "cd_count (build_cluster_data st fp g bc) = length rs"
    using assms by (simp add: build_cluster_data_def Let_def group_of_def)
qed

lemma built_clusters:
  assumes "env_ok env" and rows: "rows = cluster_select (window_of rq) (db_entries db)"
    and clusters: "clusters = map (\<lambda>(fp, g). build_cluster_data st fp g bc) (run_groups env db rq)"
  shows "list_all cluster_wf clusters" and "sum_list (map cd_count clusters) = length rows"
    and "length clusters = card (cr_fingerprint ` set rows)"
proof -
  note G = run_groups_facts [OF assms(1) rows]
  show "list_all cluster_wf clusters" unfolding clusters list_all_iff by (auto intro: built_cluster_wf(1) [OF G(3)])
  have "map cd_count clusters = map (\<lambda>fp. length (of_fp fp rows)) (map fst (run_groups env db rq))"
    using G(3) built_cluster_wf(2) by (auto simp: clusters)
  then have "sum_list (map cd_count clusters) = (\<Sum>fp \<in> cr_fingerprint ` set rows. length (of_fp fp rows))"
    using G(1,2) by (simp only: sum_list_distinct_conv_sum_set dict_wf_def set_map)
  also have "\<dots> = length rows" unfolding of_fp_def by (rule sum_length_filter) auto
  finally show "sum_list (map cd_count clusters) = length rows" .
  show "length clusters = card (cr_fingerprint ` set rows)"
    using G(1,2) by (metis clusters dict_wf_def distinct_card length_map set_map)
qed

lemma sum_list_sub: "mset xs \<subseteq># mset ys \<Longrightarrow> sum_list (map f xs) \<le> sum_list (map f ys)" for f :: "'x \<Rightarrow> nat"
proof -
  assume "mset xs \<subseteq># mset ys"
  then obtain zs where "mset ys = mset xs + zs" by (metis subset_mset.le_iff_add)
  then have "sum_mset (image_mset f (mset ys)) = sum_mset (image_mset f (mset xs)) + sum_mset (image_mset f zs)" by simp
  then show ?thesis by (simp flip: sum_mset_sum_list)
qed

lemma rank_and_cap_all: "int (length clusters) \<le> m \<Longrightarrow> rank_and_cap clusters m = sort_key (\<lambda>c. - cd_importance_score c) clusters"
  by (simp add: rank_and_cap_def slice_to_def)

lemma rank_and_merge_counts:
  assumes "list_all cluster_wf clusters"
  shows "\<exists>top alg. rank_and_merge_clusters st provider threshold size_floor clusters m = Some (top, alg)
    \<and> sum_list (map cd_count top) \<le> sum_list (map cd_count clusters)
    \<and> (int (length clusters) \<le> m \<longrightarrow> sum_list (map cd_count top) = sum_list (map cd_count clusters))"
proof -
  obtain merged used where mu: "maybe_semantic_merge st provider threshold size_floor clusters = Some (merged, used)"
    and res: "merge_result st clusters merged" using maybe_merge_ends by blast
  have total: "sum_list (map cd_count merged) = sum_list (map cd_count clusters)"
    using merge_result_conserves [OF res assms merge_component_sums(1)] by (simp add: conserved_def)
  have "sum_list (map cd_count (rank_and_cap merged m)) \<le> sum_list (map cd_count merged)"
    by (rule sum_list_sub [OF rank_and_cap_sub])
  moreover have "sum_list (map cd_count (sort_key k merged)) = sum_list (map cd_count merged)" for k :: "_ \<Rightarrow> real"
    by (metis by_key.rank_mset mset_map sum_mset_sum_list)
  moreover have "int (length clusters) \<le> m \<longrightarrow> int (length merged) \<le> m" using merge_result_length [OF res] by linarith
  ultimately show ?thesis using total rank_and_cap_all [of merged m] by (auto simp: rank_and_merge_clusters_def mu)
qed


text \<open>A database that answers in the order of its rows keeps what \<open>answers\<close> asks for.\<close>

definition group_keys :: "(cluster_row \<Rightarrow> string option) \<Rightarrow> cluster_row list \<Rightarrow> (string \<times> string) list" where
  "group_keys f rows = dedup (List.map_filter (\<lambda>r. map_option (Pair (cr_fingerprint r)) (f r)) rows)"

definition row_order_answers :: "cluster_row list \<Rightarrow> answer_a \<times> answer_b \<times> answer_c \<times> answer_c" where
  "row_order_answers rows =
     (map (\<lambda>fp. let rs = of_fp fp rows in (fp, length rs, min_seen rs, max_seen rs, Some (take MAX_CLUSTER_MEMBERS (map cr_id rs))))
        (dedup (map cr_fingerprint rows)),
      map (\<lambda>(fp, k). (fp, k, tally svc_key fp k rows, tally error_key fp k rows)) (group_keys svc_key rows),
      map (\<lambda>(fp, k). (fp, k, tally level_key fp k rows)) (group_keys level_key rows),
      map (\<lambda>(fp, k). (fp, k, tally message_key fp k rows)) (group_keys message_key rows))"

lemma set_group_keys: "(fp, k) \<in> set (group_keys f rows) \<longleftrightarrow> (\<exists>r \<in> set rows. cr_fingerprint r = fp \<and> f r = Some k)"
  by (auto simp: group_keys_def set_map_filter)

lemma grouped_group_keys: "grouped_by f rows (group_keys f rows)"
proof -
  have "distinct (group_keys f rows)" by (simp add: group_keys_def)
  then show ?thesis using set_group_keys [of _ _ f rows] by (auto simp: grouped_by_def list_all_iff list_ex_iff split: option.splits)
qed

lemma row_order_answers_ok: "case row_order_answers rows of (qa, qb, qc, qd) \<Rightarrow> answers rows qa qb qc qd"
proof -
  have sample: "mset (take n (map cr_id rs)) \<subseteq># image_mset cr_id (mset rs)" for n rs
    by (metis append_take_drop_id mset_append mset_map mset_subset_eq_add_left)
  have "answers_a rows (fst (row_order_answers rows))"
    using sample by (auto simp: row_order_answers_def answers_a_def list_all_iff Let_def comp_def min.commute)
  moreover have "(\<lambda>(fp, svc, _, _). (fp, svc)) \<circ> (\<lambda>(fp, k). (fp, k, tally svc_key fp k rows, tally error_key fp k rows)) = id"
    "(\<lambda>(fp, k, _). (fp, k)) \<circ> (\<lambda>(fp, k). (fp, k, tally f fp k rows)) = id" for f
    by auto
  then have "answers_b rows (fst (snd (row_order_answers rows)))" "answers_c level_key rows (fst (snd (snd (row_order_answers rows))))"
    "answers_c message_key rows (snd (snd (snd (row_order_answers rows))))"
    using grouped_group_keys by (auto simp: row_order_answers_def answers_b_def answers_c_def list_all_iff)
  ultimately show ?thesis by (auto simp: answers_def split: prod.splits)
qed

definition demo_env :: run_env where
  "demo_env =
     \<lparr>re_severity = \<lparr>weight_fatal = 5, weight_error = 4, weight_warn = 3, weight_info = 1, weight_debug = 1\<rparr>,
      re_provider = Inl (ValueError ''no backend''), re_threshold = 1, re_min_count = 1, re_uuid = (\<lambda>i. i),
      re_answers = row_order_answers\<rparr>"

definition demo_entry :: "nat \<Rightarrow> int \<Rightarrow> log_entry" where
  "demo_entry i t =
     \<lparr>lr_scope = ''default'', lr_service = Some ''db'', lr_level = Some ''error'', lr_timestamp = Some t, lr_raw_message = None,
      lr_normalized_message = Some ''boom'', lr_fingerprint = Some ''f'', le_id = i, le_environment = None, le_ingestion_job_id = None\<rparr>"

definition demo_log_db :: cluster_db where
  "demo_log_db = \<lparr>db_entries = [demo_entry 1 100, demo_entry 2 150, demo_entry 3 900], db_jobs = [], db_runs = [], db_clusters = [], db_members = []\<rparr>"

definition demo_request :: run_request where
  "demo_request = \<lparr>rq_window_start = \<lparr>wall = 100, utcoff = Some 0\<rparr>, rq_window_end = \<lparr>wall = 200, utcoff = Some 0\<rparr>, rq_service = None,
     rq_environment = None, rq_baseline_window = ''0s'', rq_max_clusters = 10, rq_save = False, rq_job = None, rq_scope = ''default''\<rparr>"

lemma demo_selected: "filter (base_window_query (window_of demo_request)) (db_entries demo_log_db) = [demo_entry 1 100, demo_entry 2 150]"
  by (simp add: demo_log_db_def demo_request_def demo_entry_def base_window_query_def window_of_def instant_def between_def sql_filter_def)


section \<open>Stored members belong to their cluster\<close>

lemma stored_clusters: "fst (cluster_and_member_rows uuid k run cds) = [] \<longleftrightarrow> cds = []"
  by (cases cds) (auto simp: Let_def case_prod_beta)

text \<open>
  With distinct draws, every member row points to the stored row of exactly one cluster and to a log line
  of that cluster; a cluster stores at most 100 members, and the stored rows are in the order of the
  clusters.
\<close>

lemma stored_rows_sound:
  assumes "inj uuid"
  shows "map sc_fingerprint (fst (cluster_and_member_rows uuid k run cds)) = map cd_fingerprint cds
    \<and> distinct (map sc_id (fst (cluster_and_member_rows uuid k run cds)))
    \<and> (\<forall>c \<in> set (fst (cluster_and_member_rows uuid k run cds)). \<exists>i \<ge> k. sc_id c = uuid i)
    \<and> (\<forall>m \<in> set (snd (cluster_and_member_rows uuid k run cds)). (\<exists>i \<ge> k. sm_cluster_id m = uuid i)
        \<and> (\<exists>(c, cd) \<in> set (zip (fst (cluster_and_member_rows uuid k run cds)) cds).
              sm_cluster_id m = sc_id c \<and> sm_log_entry_id m \<in> set (take MAX_CLUSTER_MEMBERS (cd_log_entry_ids cd))))"
proof (induction cds arbitrary: k)
  case (Cons cd cds)
  let ?k = "Suc k + length (take MAX_CLUSTER_MEMBERS (cd_log_entry_ids cd))"
  define rest where "rest = cluster_and_member_rows uuid ?k run cds"
  note IH = Cons.IH [of ?k, folded rest_def]
  define ms where "ms = map (\<lambda>(log_id, i). \<lparr>sm_id = uuid i, sm_cluster_id = uuid k, sm_log_entry_id = log_id\<rparr>)
    (zip (take MAX_CLUSTER_MEMBERS (cd_log_entry_ids cd)) [Suc k..<?k])"
  have rows: "cluster_and_member_rows uuid k run (cd # cds) = (cluster_store_row (uuid k) run cd # fst rest, ms @ snd rest)"
    by (simp add: Let_def case_prod_beta ms_def rest_def)
  have later: "\<exists>i \<ge> k. x = uuid i" if "\<exists>i \<ge> ?k. x = uuid i" for x
  proof -
    from that obtain i where "?k \<le> i" "x = uuid i" by blast
    then show ?thesis by (intro exI [of _ i]) simp
  qed
  have new: "sc_id c \<noteq> uuid k" if "c \<in> set (fst rest)" for c
  proof
    assume "sc_id c = uuid k"
    moreover obtain i where "?k \<le> i" "sc_id c = uuid i" using IH \<open>c \<in> set (fst rest)\<close> by blast
    ultimately have "i = k" using injD [OF assms] by metis
    with \<open>?k \<le> i\<close> show False by simp
  qed
  have log: "sm_log_entry_id m \<in> set (take MAX_CLUSTER_MEMBERS (cd_log_entry_ids cd))" "sm_cluster_id m = uuid k" if "m \<in> set ms" for m
    using that by (auto simp: ms_def dest: set_zip_leftD)
  show ?case unfolding rows fst_conv snd_conv
  proof (intro conjI ballI)
    fix m assume m: "m \<in> set (ms @ snd rest)"
    then consider "m \<in> set ms" | "m \<in> set (snd rest)" by auto
    then show "\<exists>i \<ge> k. sm_cluster_id m = uuid i" by cases (use log IH later in blast)+
    from m consider "m \<in> set ms" | "m \<in> set (snd rest)" by auto
    then show "\<exists>(c, cd) \<in> set (zip (cluster_store_row (uuid k) run cd # fst rest) (cd # cds)).
        sm_cluster_id m = sc_id c \<and> sm_log_entry_id m \<in> set (take MAX_CLUSTER_MEMBERS (cd_log_entry_ids cd))"
    proof cases
      case 1
      then show ?thesis using log [OF 1] by (auto simp: cluster_store_row_def)
    next
      case 2
      then show ?thesis using IH by auto
    qed
  qed (use IH new later in \<open>auto simp: cluster_store_row_def\<close>)
qed simp

text \<open>
  The baseline is documented as what precedes the incident window, but both windows are closed: a line
  exactly at the start of the window is counted in the cluster and in its baseline.
\<close>

lemma boundary_line_counted_twice:
  "base_window_query (window_of demo_request) (demo_entry 1 100)
   \<and> get_baseline_counts [demo_entry 1 100] [] (baseline_of demo_request \<lparr>wall = 0, utcoff = Some 0\<rparr> (rq_window_start demo_request)) None
       = [(''f'', 1)]"
  by code_simp

end
