(* ===== verification/RareEvents.thy ===== *)
theory RareEvents
  imports Clustering
begin

text \<open>
  Trigger candidates by rarity (\<open>core/rca/triggers.py\<close>): rare fingerprints that precede the onset of the
  errors, and the first anomalous point of each metric series. Clusters are those of \<open>Clustering\<close>, samples
  the metric rows of \<open>Features\<close>; times are microseconds. Means, deviations and logarithms are exact.
\<close>

section \<open>Rare fingerprints\<close>

text \<open>The sort key of a time that may be missing, missing ones last.\<close>

fun epoch :: "int option \<Rightarrow> nat \<times> int" where
  "epoch None = (1, 0)"
| "epoch (Some t) = (0, t)"

record rare_trigger =
  rt_service :: "string option"
  rt_fingerprint :: string
  rt_message :: string
  rt_first_seen :: "int option"
  rt_trigger_type :: string
  rt_baseline_count :: nat
  rt_change_ratio :: real
  rt_score :: real

definition dominant_service :: "cluster_data \<Rightarrow> string option" where
  "dominant_service c = map_option fst (max_by snd (cd_services c))"

definition is_rare :: "real \<Rightarrow> cluster_data \<Rightarrow> bool" where
  "is_rare rare_change_ratio c \<longleftrightarrow> cd_baseline_count c = 0 \<or> rare_change_ratio \<le> cd_change_ratio c"

definition after_onset :: "int option \<Rightarrow> int \<Rightarrow> cluster_data \<Rightarrow> bool" where
  "after_onset onset grace c =
     (case (onset, cd_first_seen c) of (Some t, Some f) \<Rightarrow> t + grace * 1000000 < f | _ \<Rightarrow> False)"

definition rare_score :: "int option \<Rightarrow> cluster_data \<Rightarrow> real" where
  "rare_score onset c =
     (let rarity = 1 / (of_nat (cd_baseline_count c) + 1);
          earliness = (case (onset, cd_first_seen c) of
            (Some t, Some f) \<Rightarrow> ln (1 + max (of_int (t - f) / 1000000) 0)
          | _ \<Rightarrow> 0) in
      rarity * (1 + earliness))"

definition rare_trigger_of :: "int option \<Rightarrow> cluster_data \<Rightarrow> rare_trigger" where
  "rare_trigger_of onset c =
     \<lparr>rt_service = dominant_service c, rt_fingerprint = cd_fingerprint c, rt_message = cd_representative_message c,
      rt_first_seen = cd_first_seen c,
      rt_trigger_type = (case infer_trigger_type (cd_representative_message c) of Some t \<Rightarrow> t | None \<Rightarrow> ''none''),
      rt_baseline_count = cd_baseline_count c, rt_change_ratio = cd_change_ratio c, rt_score = rare_score onset c\<rparr>"

definition rare_key :: "rare_trigger \<Rightarrow> real \<times> nat \<times> int" where
  "rare_key t = (- rt_score t, epoch (rt_first_seen t))"

definition rare_pool :: "cluster_data list \<Rightarrow> int option \<Rightarrow> real \<Rightarrow> int \<Rightarrow> cluster_data list" where
  "rare_pool clusters onset rare_change_ratio grace = filter (\<lambda>c. is_rare rare_change_ratio c \<and> \<not> after_onset onset grace c) clusters"

definition rare_event_candidates :: "cluster_data list \<Rightarrow> int option \<Rightarrow> real \<Rightarrow> int \<Rightarrow> nat \<Rightarrow> rare_trigger list" where
  "rare_event_candidates clusters onset rare_change_ratio grace max_candidates =
     take max_candidates (sort_key rare_key
       (map (rare_trigger_of onset) (rare_pool clusters onset rare_change_ratio grace)))"

section \<open>Metric anomalies\<close>

type_synonym onset_key = "string option \<times> string \<times> series"

record anomaly_onset =
  ao_service :: "string option"
  ao_metric :: string
  ao_onset :: int
  ao_magnitude :: real
  ao_score :: real

definition onset_step ::
    "int \<Rightarrow> int \<Rightarrow> (onset_key, real list) dict \<times> (onset_key, (int \<times> real) list) dict \<Rightarrow> metric_row
      \<Rightarrow> (onset_key, real list) dict \<times> (onset_key, (int \<times> real) list) dict" where
  "onset_step start stop a m =
     (case (mr_ts m, mr_value m) of
        (Some ts, Some v) \<Rightarrow>
          let key = (mr_service m, mr_metric m, series_key (mr_attributes m)) in
          if ts < start then (dict_append key v (fst a), snd a)
          else if start \<le> ts \<and> ts \<le> stop then (fst a, dict_append key (ts, v) (snd a))
          else a
      | _ \<Rightarrow> a)"

definition pstdev :: "real list \<Rightarrow> real" where
  "pstdev xs = sqrt (rmean (map (\<lambda>x. (x - rmean xs)\<^sup>2) xs))"

text \<open>The deviation of a value from its baseline, and whether it is anomalous.\<close>

definition deviation :: "real \<Rightarrow> real \<Rightarrow> real list \<Rightarrow> real \<Rightarrow> real \<times> bool" where
  "deviation z_threshold rel_threshold base v =
     (let m = rmean base; sigma = pstdev base; dev = \<bar>v - m\<bar> in
      if 0 < sigma then (dev / sigma, z_threshold \<le> dev / sigma)
      else let denom = (if m \<noteq> 0 then \<bar>m\<bar> else 1) in (dev / denom, rel_threshold * denom < dev))"

definition onset_score :: "int \<Rightarrow> int \<Rightarrow> real \<Rightarrow> real" where
  "onset_score stop ts mag = mag * ln (1 + max (of_int (stop - ts) / 1000000) 0)"

definition series_onset :: "real \<Rightarrow> real \<Rightarrow> nat \<Rightarrow> int \<Rightarrow> (onset_key, (int \<times> real) list) dict \<Rightarrow> onset_key \<times> real list \<Rightarrow> anomaly_onset option" where
  "series_onset z rel min_baseline stop incident = (\<lambda>(key, base).
     case dget incident key of
       None \<Rightarrow> None
     | Some pts \<Rightarrow>
         if length base < min_baseline then None
         else
           map_option (\<lambda>(ts, v).
             let mag = fst (deviation z rel base v) in
             \<lparr>ao_service = fst key, ao_metric = fst (snd key), ao_onset = ts, ao_magnitude = mag, ao_score = onset_score stop ts mag\<rparr>)
             (find (\<lambda>(ts, v). snd (deviation z rel base v)) (sort_key fst pts)))"

definition onset_rank :: "anomaly_onset \<Rightarrow> real \<times> int" where
  "onset_rank o' = (- ao_score o', ao_onset o')"

definition keep_best :: "(string option \<times> string, anomaly_onset) dict \<Rightarrow> anomaly_onset \<Rightarrow> (string option \<times> string, anomaly_onset) dict" where
  "keep_best best o' =
     (let k = (ao_service o', ao_metric o') in
      case dget best k of
        None \<Rightarrow> dset k o' best
      | Some cur \<Rightarrow> if onset_rank o' < onset_rank cur then dset k o' best else best)"

definition metric_anomaly_onsets ::
    "metric_row list \<Rightarrow> int \<Rightarrow> int \<Rightarrow> nat \<Rightarrow> real \<Rightarrow> real \<Rightarrow> nat \<Rightarrow> anomaly_onset list" where
  "metric_anomaly_onsets samples start stop min_baseline z rel max_candidates =
     (let (baseline, incident) = foldl (onset_step start stop) ([], []) samples;
          onsets = List.map_filter (series_onset z rel min_baseline stop incident) baseline;
          best = foldl keep_best [] onsets in
      take max_candidates (sort_key onset_rank (dvals best)))"

section \<open>The best candidates\<close>

lemma take_sorted_le:
  assumes "x \<in> set (take n (sort_key f xs))" "y \<in> set xs" "y \<notin> set (take n (sort_key f xs))"
  shows "f x \<le> f y"
proof -
  have "y \<in> set (drop n (sort_key f xs))"
    using assms(2,3) set_take_disj_set_drop_if_distinct append_take_drop_id [of n "sort_key f xs"]
    by (metis Un_iff set_append set_sort)
  moreover have "sorted (map f (take n (sort_key f xs) @ drop n (sort_key f xs)))" by simp
  ultimately show ?thesis using assms(1) by (auto simp: sorted_append simp del: append_take_drop_id)
qed

lemma sorted_take_map: "sorted (map f (take n (sort_key f xs)))"
  by (metis sorted_sort_key sorted_wrt_take take_map)

text \<open>
  The rare-event candidates are exactly the strongest of the clusters that are rare and do not start
  after the onset with its grace: at most the limit, ordered by score and then earliness, each built
  from such a cluster, and none left out ranks before one chosen. A cluster never seen before that
  starts with the onset scores 1, more the earlier, and less the more often it was seen before.
\<close>
theorem rare_event_candidates_best:
  "let out = rare_event_candidates clusters onset ratio grace n in
    length out = min n (length (rare_pool clusters onset ratio grace))
    \<and> sorted (map rare_key out)
    \<and> set out \<subseteq> rare_trigger_of onset ` set (rare_pool clusters onset ratio grace)
    \<and> (\<forall>c \<in> set (rare_pool clusters onset ratio grace). rare_trigger_of onset c \<in> set out
        \<or> (\<forall>t \<in> set out. rare_key t \<le> rare_key (rare_trigger_of onset c)))
    \<and> (\<forall>t \<in> set out. 0 < rt_score t \<and> (rt_baseline_count t = 0 \<longrightarrow> 1 \<le> rt_score t))"
proof -
  let ?out = "rare_event_candidates clusters onset ratio grace n"
  let ?all = "map (rare_trigger_of onset) (rare_pool clusters onset ratio grace)"
  have out: "?out = take n (sort_key rare_key ?all)"
    by (simp add: rare_event_candidates_def)
  have sub: "set ?out \<subseteq> set ?all"
    unfolding out by (metis set_sort set_take_subset)
  have score: "0 < rare_score onset c \<and> (cd_baseline_count c = 0 \<longrightarrow> 1 \<le> rare_score onset c)" for c
  proof -
    have "0 \<le> ln (1 + max x 0)" for x :: real by simp
    then have "0 < 1 + ln (1 + max x 0)" for x :: real by (smt (verit))
    then show ?thesis
      by (auto simp: rare_score_def Let_def divide_pos_pos split: option.split)
  qed
  have "\<forall>t \<in> set ?out. 0 < rt_score t \<and> (rt_baseline_count t = 0 \<longrightarrow> 1 \<le> rt_score t)"
    using sub score by (auto simp: rare_trigger_of_def)
  moreover have "sorted (map rare_key ?out)" unfolding out by (rule sorted_take_map)
  moreover have "\<forall>c \<in> set (rare_pool clusters onset ratio grace). rare_trigger_of onset c \<in> set ?out
      \<or> (\<forall>t \<in> set ?out. rare_key t \<le> rare_key (rare_trigger_of onset c))"
    unfolding out using take_sorted_le [of _ n rare_key ?all] by auto
  moreover have "length ?out = min n (length (rare_pool clusters onset ratio grace))"
    unfolding out by simp
  ultimately show ?thesis using sub by (simp add: Let_def)
qed

section \<open>The first anomaly of a series\<close>

definition onset_base :: "int \<Rightarrow> metric_row \<Rightarrow> (onset_key \<times> real) option" where
  "onset_base start m =
     (case (mr_ts m, mr_value m) of
        (Some ts, Some v) \<Rightarrow> if ts < start then Some ((mr_service m, mr_metric m, series_key (mr_attributes m)), v) else None
      | _ \<Rightarrow> None)"

definition onset_point :: "int \<Rightarrow> int \<Rightarrow> metric_row \<Rightarrow> (onset_key \<times> (int \<times> real)) option" where
  "onset_point start stop m =
     (case (mr_ts m, mr_value m) of
        (Some ts, Some v) \<Rightarrow>
          if start \<le> ts \<and> ts \<le> stop then Some ((mr_service m, mr_metric m, series_key (mr_attributes m)), (ts, v)) else None
      | _ \<Rightarrow> None)"

definition at_key :: "('x \<Rightarrow> ('k \<times> 'v) option) \<Rightarrow> 'x list \<Rightarrow> 'k \<Rightarrow> 'v list" where
  "at_key f xs k = map snd (filter (\<lambda>p. fst p = k) (List.map_filter f xs))"

text \<open>The onset of a series: its earliest anomalous point in the window, given enough points before it.\<close>

definition first_anomaly :: "metric_row list \<Rightarrow> int \<Rightarrow> int \<Rightarrow> nat \<Rightarrow> real \<Rightarrow> real \<Rightarrow> onset_key \<Rightarrow> anomaly_onset \<Rightarrow> bool" where
  "first_anomaly samples start stop min_baseline z rel k o' \<longleftrightarrow>
     (let base = at_key (onset_base start) samples k; pts = at_key (onset_point start stop) samples k in
      base \<noteq> [] \<and> min_baseline \<le> length base \<and> ao_service o' = fst k \<and> ao_metric o' = fst (snd k)
      \<and> (\<exists>v. (ao_onset o', v) \<in> set pts \<and> snd (deviation z rel base v) \<and> ao_magnitude o' = fst (deviation z rel base v)
            \<and> ao_score o' = onset_score stop (ao_onset o') (ao_magnitude o'))
      \<and> (\<forall>(t, v) \<in> set pts. snd (deviation z rel base v) \<longrightarrow> ao_onset o' \<le> t))"

lemma onset_loop:
  "foldl (onset_step start stop) a xs = (foldl (collect_step (onset_base start)) (fst a) xs, foldl (collect_step (onset_point start stop)) (snd a) xs)"
proof (induction xs arbitrary: a)
  case (Cons m xs)
  have "onset_step start stop a m = (collect_step (onset_base start) (fst a) m, collect_step (onset_point start stop) (snd a) m)"
    by (auto simp: onset_step_def collect_step_def onset_base_def onset_point_def Let_def split: option.splits)
  with Cons show ?case by simp
qed simp

lemma collected:
  "dget (foldl (collect_step f) [] xs) k = (if at_key f xs k = [] then None else Some (at_key f xs k))"
proof -
  let ?d = "foldl (collect_step f) [] xs"
  have get: "dget_or ?d k [] = at_key f xs k" by (simp add: collect_get at_key_def) (simp add: dget_or_def)
  have keys: "k \<in> fst ` set ?d \<longleftrightarrow> at_key f xs k \<noteq> []"
    by (auto simp: collect_keys at_key_def filter_empty_conv set_map_filter)
  show ?thesis
    using get keys by (auto simp: dget_or_def dget_None_iff split: option.splits)
qed

lemma find_earliest:
  assumes "find P (sort_key fst pts) = Some p"
  shows "p \<in> set pts \<and> P p \<and> (\<forall>q \<in> set pts. P q \<longrightarrow> fst p \<le> fst q)"
proof -
  obtain i where i: "i < length (sort_key fst pts)" "P (sort_key fst pts ! i)" "p = sort_key fst pts ! i"
    "\<forall>j < i. \<not> P (sort_key fst pts ! j)"
    using assms by (auto simp: find_Some_iff)
  have "p \<in> set pts" using nth_mem [OF i(1)] unfolding i(3) set_sort .
  moreover have "fst p \<le> fst q" if q: "q \<in> set pts" "P q" for q
  proof -
    obtain j where j: "j < length (sort_key fst pts)" "q = sort_key fst pts ! j"
      using q(1) by (metis in_set_conv_nth set_sort)
    then have "i \<le> j" using i(4) q(2) by (meson not_le)
    then show ?thesis
      using sorted_nth_mono [of "map fst (sort_key fst pts)" i j] i j by simp
  qed
  ultimately show ?thesis using i by auto
qed

definition series_onsets :: "metric_row list \<Rightarrow> int \<Rightarrow> int \<Rightarrow> nat \<Rightarrow> real \<Rightarrow> real \<Rightarrow> anomaly_onset list" where
  "series_onsets samples start stop min_baseline z rel =
     (let (baseline, incident) = foldl (onset_step start stop) ([], []) samples in
      List.map_filter (series_onset z rel min_baseline stop incident) baseline)"

lemma series_onset_iff:
  assumes base: "base = at_key (onset_base start) samples k" "base \<noteq> []"
    and inc: "inc = foldl (collect_step (onset_point start stop)) [] samples"
  shows "series_onset z rel m stop inc (k, base) = Some o' \<Longrightarrow> first_anomaly samples start stop m z rel k o'"
    and "first_anomaly samples start stop m z rel k o' \<Longrightarrow> \<exists>o''. series_onset z rel m stop inc (k, base) = Some o'' \<and> ao_onset o'' = ao_onset o'"
proof -
  let ?pts = "at_key (onset_point start stop) samples k"
  let ?P = "\<lambda>(ts :: int, v). snd (deviation z rel base v)"
  have dg: "dget inc k = (if ?pts = [] then None else Some ?pts)" by (simp add: inc collected)
  show "first_anomaly samples start stop m z rel k o'" if some: "series_onset z rel m stop inc (k, base) = Some o'"
  proof -
    obtain p where p: "find ?P (sort_key fst ?pts) = Some p" "m \<le> length base"
      and o': "o' = (let mag = fst (deviation z rel base (snd p)) in \<lparr>ao_service = fst k, ao_metric = fst (snd k), ao_onset = fst p,
          ao_magnitude = mag, ao_score = onset_score stop (fst p) mag\<rparr>)"
      using some dg by (auto simp: series_onset_def Let_def split: option.splits if_splits)
    show ?thesis
      using find_earliest [OF p(1)] p(2) o' base by (cases p) (auto simp: first_anomaly_def Let_def)
  qed
  assume fa: "first_anomaly samples start stop m z rel k o'"
  then obtain v where v: "(ao_onset o', v) \<in> set ?pts" "?P (ao_onset o', v)" "m \<le> length base"
    and first: "\<forall>(t, v) \<in> set ?pts. snd (deviation z rel base v) \<longrightarrow> ao_onset o' \<le> t"
    by (auto simp: first_anomaly_def Let_def base(1))
  then have "find ?P (sort_key fst ?pts) \<noteq> None" unfolding find_None_iff set_sort by blast
  then obtain p where p: "find ?P (sort_key fst ?pts) = Some p" by blast
  have "fst p = ao_onset o'"
    using find_earliest [OF p] v first by (cases p) (force intro: antisym)
  then show "\<exists>o''. series_onset z rel m stop inc (k, base) = Some o'' \<and> ao_onset o'' = ao_onset o'"
    using p v dg by (cases p) (auto simp: series_onset_def Let_def)
qed

lemma in_series_onsets:
  assumes "o' \<in> set (series_onsets samples start stop m z rel)"
  shows "\<exists>s. first_anomaly samples start stop m z rel (ao_service o', ao_metric o', s) o'"
proof -
  obtain k base where k: "dget (foldl (collect_step (onset_base start)) [] samples) k = Some base"
    and o': "series_onset z rel m stop (foldl (collect_step (onset_point start stop)) [] samples) (k, base) = Some o'"
    using assms by (auto simp: series_onsets_def onset_loop set_map_filter dget_wf_iff collect_wf)
  have "first_anomaly samples start stop m z rel k o'"
    using k by (intro series_onset_iff(1) [OF _ _ refl o']) (auto simp: collected split: if_splits)
  moreover from this have "fst k = ao_service o'" "fst (snd k) = ao_metric o'" by (auto simp: first_anomaly_def Let_def)
  ultimately show ?thesis by (metis prod.collapse)
qed

section \<open>One onset per service and metric\<close>

definition instrument_of :: "anomaly_onset \<Rightarrow> string option \<times> string" where
  "instrument_of o' = (ao_service o', ao_metric o')"

lemma keep_best_wf: "dict_wf d \<Longrightarrow> dict_wf (foldl keep_best d os)"
  by (induction os arbitrary: d) (auto simp: keep_best_def Let_def split: option.splits)

lemma keep_best_get:
  "dget (foldl keep_best d os) k = Some o' \<Longrightarrow>
   (dget d k = Some o' \<or> o' \<in> set os \<and> instrument_of o' = k)
   \<and> (\<forall>c. dget d k = Some c \<longrightarrow> onset_rank o' \<le> onset_rank c)
   \<and> (\<forall>c \<in> set os. instrument_of c = k \<longrightarrow> onset_rank o' \<le> onset_rank c)"
proof (induction os arbitrary: d)
  case (Cons c os)
  have step: "dget (keep_best d c) k = (if k = instrument_of c
      then Some (case dget d k of None \<Rightarrow> c | Some cur \<Rightarrow> if onset_rank c < onset_rank cur then c else cur) else dget d k)"
    by (auto simp: keep_best_def instrument_of_def Let_def split: option.split)
  have IH: "(dget (keep_best d c) k = Some o' \<or> o' \<in> set os \<and> instrument_of o' = k)
      \<and> (\<forall>x. dget (keep_best d c) k = Some x \<longrightarrow> onset_rank o' \<le> onset_rank x)
      \<and> (\<forall>x \<in> set os. instrument_of x = k \<longrightarrow> onset_rank o' \<le> onset_rank x)"
    using Cons by simp
  show ?case
  proof (cases "k = instrument_of c")
    case False
    then show ?thesis using IH step by auto
  next
    case True
    then show ?thesis
      using IH unfolding step by (auto split: option.splits if_splits intro: order_trans less_imp_le)
  qed
qed simp

lemma keep_best_keys: "fst ` set (foldl keep_best d os) = fst ` set d \<union> instrument_of ` set os"
proof (induction os arbitrary: d)
  case (Cons c os)
  have "fst ` set (keep_best d c) = insert (instrument_of c) (fst ` set d)"
    using dget_None_iff [of d "instrument_of c"] by (auto simp: keep_best_def instrument_of_def Let_def split: option.split)
  with Cons show ?case by simp
qed simp

lemma map_of_vals:
  assumes "dict_wf d" "\<And>k o'. dget d k = Some o' \<Longrightarrow> instrument_of o' = k"
  shows "map instrument_of (dvals d) = map fst d"
  using assms by (auto simp: dget_wf_iff)

text \<open>
  The metric onsets are one per service and metric, at most the limit, strongest first. Each is the
  earliest anomalous point in the incident of one of its series, which had enough baseline points, and
  no series of that service and metric has a stronger onset; a series onset whose service and metric is
  left out ranks no better than any that is kept.
\<close>
theorem metric_anomaly_onsets_best:
  "let out = metric_anomaly_onsets samples start stop m z rel n; series = first_anomaly samples start stop m z rel in
    length out \<le> n \<and> sorted (map onset_rank out) \<and> distinct (map instrument_of out)
    \<and> (\<forall>o1 \<in> set out. (\<exists>s. series (ao_service o1, ao_metric o1, s) o1)
        \<and> (\<forall>o2 \<in> set (series_onsets samples start stop m z rel). instrument_of o2 = instrument_of o1 \<longrightarrow> onset_rank o1 \<le> onset_rank o2))
    \<and> (\<forall>o2 \<in> set (series_onsets samples start stop m z rel). instrument_of o2 \<in> instrument_of ` set out
        \<or> (\<forall>o1 \<in> set out. onset_rank o1 \<le> onset_rank o2))"
proof -
  let ?os = "series_onsets samples start stop m z rel"
  let ?best = "foldl keep_best [] ?os"
  let ?out = "metric_anomaly_onsets samples start stop m z rel n"
  have out: "?out = take n (sort_key onset_rank (dvals ?best))"
    by (simp add: metric_anomaly_onsets_def series_onsets_def Let_def case_prod_beta')
  have wf: "dict_wf ?best" by (simp add: keep_best_wf)
  have get: "o1 \<in> set ?os \<and> instrument_of o1 = k \<and> (\<forall>c \<in> set ?os. instrument_of c = k \<longrightarrow> onset_rank o1 \<le> onset_rank c)"
    if "dget ?best k = Some o1" for k o1
    using keep_best_get [OF that] by simp
  have vals: "set (dvals ?best) = {o1. \<exists>k. dget ?best k = Some o1}"
    using wf by (force simp: dget_wf_iff)
  have "set ?out \<subseteq> set (dvals ?best)" unfolding out by (metis set_sort set_take_subset)
  then have each: "o1 \<in> set ?os \<and> (\<forall>c \<in> set ?os. instrument_of c = instrument_of o1 \<longrightarrow> onset_rank o1 \<le> onset_rank c)" if "o1 \<in> set ?out" for o1
    using that vals get by blast
  have "map instrument_of (dvals ?best) = map fst ?best" by (rule map_of_vals [OF wf]) (use get in blast)
  with wf have "distinct (map instrument_of (dvals ?best))" unfolding dict_wf_def by metis
  then have "distinct (map instrument_of (sort_key onset_rank (dvals ?best)))"
    unfolding distinct_map distinct_sort set_sort .
  then have dist: "distinct (map instrument_of ?out)" unfolding out take_map [symmetric] by (rule distinct_take)
  have rest: "instrument_of o2 \<in> instrument_of ` set ?out \<or> (\<forall>o1 \<in> set ?out. onset_rank o1 \<le> onset_rank o2)" if o2: "o2 \<in> set ?os" for o2
  proof -
    have "instrument_of o2 \<in> fst ` set ?best" using o2 by (simp add: keep_best_keys)
    then obtain b where b: "dget ?best (instrument_of o2) = Some b" using dget_None_iff [of ?best] by fastforce
    then have "b \<in> set (dvals ?best)" using vals by blast
    moreover have "instrument_of b = instrument_of o2" "onset_rank b \<le> onset_rank o2"
      using get [OF b] o2 by auto
    ultimately have "b \<in> set (dvals ?best)" "instrument_of b = instrument_of o2" "onset_rank b \<le> onset_rank o2" .
    show ?thesis
    proof (cases "b \<in> set ?out")
      case True
      then have "instrument_of o2 \<in> instrument_of ` set ?out"
        using \<open>instrument_of b = instrument_of o2\<close> by (auto intro: rev_image_eqI)
      then show ?thesis ..
    next
      case False
      have "onset_rank o1 \<le> onset_rank o2" if "o1 \<in> set ?out" for o1
        using take_sorted_le [OF that [unfolded out] \<open>b \<in> set (dvals ?best)\<close> False [unfolded out]] \<open>onset_rank b \<le> onset_rank o2\<close>
        by (rule order_trans)
      then show ?thesis by blast
    qed
  qed
  have "length ?out \<le> n" "sorted (map onset_rank ?out)" unfolding out by (simp, rule sorted_take_map)
  then show ?thesis
    using dist each in_series_onsets rest by (auto simp: Let_def)
qed

section \<open>Examples\<close>

definition quiet_cluster :: cluster_data where
  "quiet_cluster = \<lparr>cd_fingerprint = ''f'', cd_representative_message = ''flag flipped'', cd_count = 1, cd_services = [(''cart'', 1)],
     cd_levels = [], cd_first_seen = Some 0, cd_last_seen = Some 0, cd_baseline_count = 0, cd_change_ratio = 1, cd_importance_score = 0,
     cd_is_trigger = False, cd_log_entry_ids = [], cd_merged_fingerprints = [], cd_error_service_counts = []\<rparr>"

theorem rare_event_candidates_best_witness:
  "rare_trigger_of (Some 60000000) quiet_cluster \<in> set (rare_event_candidates [quiet_cluster] (Some 60000000) 5 120 5)
   \<and> 1 \<le> rt_score (rare_trigger_of (Some 60000000) quiet_cluster)"
proof -
  have pool: "rare_pool [quiet_cluster] (Some 60000000) 5 120 = [quiet_cluster]"
    by (simp add: rare_pool_def is_rare_def after_onset_def quiet_cluster_def)
  note best = rare_event_candidates_best [of "[quiet_cluster]" "Some 60000000" 5 120 5, unfolded pool Let_def]
  have "rt_baseline_count (rare_trigger_of (Some 60000000) quiet_cluster) = 0" by (simp add: rare_trigger_of_def quiet_cluster_def)
  moreover have "rare_event_candidates [quiet_cluster] (Some 60000000) 5 120 5 = [rare_trigger_of (Some 60000000) quiet_cluster]"
    by (simp add: rare_event_candidates_def pool)
  ultimately show ?thesis using best by simp
qed

definition cpu_sample :: "int \<Rightarrow> real \<Rightarrow> metric_row" where
  "cpu_sample ts v = \<lparr>mr_scope = ''default'', mr_service = Some ''cart'', mr_metric = ''cpu'', mr_value = Some v, mr_ts = Some ts, mr_attributes = None\<rparr>"

theorem metric_anomaly_onsets_best_witness:
  "length (metric_anomaly_onsets [cpu_sample 0 1, cpu_sample 1 1, cpu_sample 2 1, cpu_sample 10 1, cpu_sample 11 9] 5 20 3 3 (1 / 2) 5) \<le> 5
   \<and> list_all (\<lambda>o1. ao_onset o1 = 11)
        (metric_anomaly_onsets [cpu_sample 0 1, cpu_sample 1 1, cpu_sample 2 1, cpu_sample 10 1, cpu_sample 11 9] 5 20 3 3 (1 / 2) 5)"
proof -
  let ?s = "[cpu_sample 0 1, cpu_sample 1 1, cpu_sample 2 1, cpu_sample 10 1, cpu_sample 11 9]"
  have only: "ao_onset o1 = 11" if "first_anomaly ?s 5 20 3 3 (1 / 2) k o1" for k o1
    using that
    by (auto simp: first_anomaly_def Let_def at_key_def onset_base_def onset_point_def cpu_sample_def List.map_filter_simps
        deviation_def pstdev_def rmean_def split: if_splits)
  then show ?thesis
    using metric_anomaly_onsets_best [of ?s 5 20 3 3 "1 / 2" 5] unfolding Let_def list_all_iff by blast
qed

end
