(* ===== verification/Evidence.thy ===== *)
theory Evidence
  imports ClusterRuns RareEvents
begin

text \<open>
  The evidence packet of an explanation (\<open>core/explain/evidence.py\<close>) and its confidence
  (\<open>core/explain/confidence.py\<close>): which cluster is primary, which are secondary, which trigger events are
  named, and how sure the explanation is. A cluster's identity is its position in the list. The regular
  expressions PostgreSQL evaluates are those of \<open>Triggers\<close>; the JSON decoder is a parameter that yields the
  decoded value or nothing. The wording of the evidence items is left out. A trace graph is that of
  \<open>ServiceGraphs\<close>; times are microseconds.
\<close>

section \<open>Settings and packets\<close>

record evidence_settings =
  trigger_lookback_minutes :: int
  trigger_mode :: string
  trigger_rare_change_ratio :: real
  rca_weight_volume :: real
  rca_weight_anomaly :: real
  rca_weight_onset :: real

record trigger_candidate =
  tc_message :: string
  tc_timestamp :: "int option"
  tc_service :: "string option"

record evidence_packet =
  ep_window_start :: int
  ep_window_end :: int
  ep_total_logs :: nat
  ep_primary_cluster :: "cluster_data option"
  ep_secondary_clusters :: "cluster_data list"
  ep_trigger_candidates :: "trigger_candidate list"
  ep_services_affected :: "string list"
  ep_candidate_services :: "string list"
  ep_service_filter :: "string option"
  ep_environment_filter :: "string option"
  ep_trigger_found :: "bool option"
  ep_trigger_explains :: "bool option"

section \<open>Primary and secondary clusters\<close>

type_synonym placed = "nat \<times> cluster_data"

definition placed :: "cluster_data list \<Rightarrow> placed list" where
  "placed clusters = zip [0..<length clusters] clusters"

definition SIGNIFICANT_LEVELS :: "string set" where
  "SIGNIFICANT_LEVELS = {''error'', ''fatal'', ''warn'', ''critical''}"

definition significant :: "cluster_data \<Rightarrow> bool" where
  "significant c \<longleftrightarrow> list_ex (\<lambda>l. l \<in> SIGNIFICANT_LEVELS) (dkeys (cd_levels c))"

definition select_significant_clusters :: "placed list \<Rightarrow> placed list" where
  "select_significant_clusters clusters =
     (let sig = filter (\<lambda>(_, c). significant c) clusters in if sig = [] then clusters else sig)"

definition legacy_candidate_services :: "placed list \<Rightarrow> string list" where
  "legacy_candidate_services sig = sort (dedup (concat (map (\<lambda>(_, c). dkeys (cd_services c)) sig)))"

definition onset_earliness :: "int option \<Rightarrow> int option \<Rightarrow> int option \<Rightarrow> real" where
  "onset_earliness first_seen window_start window_end =
     (case (first_seen, window_start, window_end) of
        (Some f, Some a, Some b) \<Rightarrow>
          (let span = (of_int (b - a) :: real) / 1000000 in
           if span \<le> 0 then 1 / 2
           else let frac = (of_int (b - f) / 1000000) / span in if frac < 0 then 0 else if 1 < frac then 1 else frac)
      | _ \<Rightarrow> 1 / 2)"

definition candidate_score :: "evidence_settings \<Rightarrow> int option \<Rightarrow> int option \<Rightarrow> cluster_data \<Rightarrow> real" where
  "candidate_score st window_start window_end c =
     rca_weight_volume st * ln (of_nat (top_error_group c) + 1)
     + rca_weight_anomaly st * ln (cd_change_ratio c + 1)
     + rca_weight_onset st * onset_earliness (cd_first_seen c) window_start window_end"

definition select_primary_cluster :: "evidence_settings \<Rightarrow> placed list \<Rightarrow> int option \<Rightarrow> int option \<Rightarrow> placed option" where
  "select_primary_cluster st sig window_start window_end =
     (if sig = [] then None
      else
        let error_clusters = filter (\<lambda>(_, c). 0 < top_error_group c) sig in
        if error_clusters \<noteq> []
        then max_by (\<lambda>(_, c). (candidate_score st window_start window_end c, cd_count c, cd_importance_score c)) error_clusters
        else max_by (\<lambda>(_, c). (cd_count c, cd_importance_score c)) sig)"

definition others :: "placed option \<Rightarrow> placed list \<Rightarrow> placed list" where
  "others primary clusters = filter (\<lambda>(i, _). case primary of None \<Rightarrow> True | Some (p, _) \<Rightarrow> i \<noteq> p) clusters"

definition secondary_clusters :: "placed option \<Rightarrow> placed list \<Rightarrow> cluster_data list" where
  "secondary_clusters primary sig = take 4 (sort_key (\<lambda>c. - int (cd_count c)) (map snd (others primary sig)))"

section \<open>Triggers by rarity\<close>

definition primary_service :: "cluster_data option \<Rightarrow> string option" where
  "primary_service primary =
     (case primary of
        None \<Rightarrow> None
      | Some c \<Rightarrow>
          (let pool = (if cd_error_service_counts c \<noteq> [] then cd_error_service_counts c else cd_services c) in
           map_option fst (max_by snd pool)))"

definition metric_onsets :: "metric_row list \<Rightarrow> string \<Rightarrow> int \<Rightarrow> int \<Rightarrow> anomaly_onset list" where
  "metric_onsets samples scope window_start window_end =
     metric_anomaly_onsets
       (filter (\<lambda>m. mr_scope m = scope \<and> between (window_start - (window_end - window_start)) window_end (mr_ts m)) samples)
       window_start window_end 3 3 (1 / 2) 5"

definition linked_to :: "service_graph \<Rightarrow> string option \<Rightarrow> string option \<Rightarrow> bool" where
  "linked_to g root_service svc = (case (named svc, named root_service) of (Some s, Some r) \<Rightarrow> linked g s r | _ \<Rightarrow> False)"

definition rare_event_triggers ::
    "evidence_settings \<Rightarrow> metric_row list \<Rightarrow> (string \<times> span) list \<Rightarrow> placed list \<Rightarrow> placed option \<Rightarrow> int \<Rightarrow> int \<Rightarrow> string
      \<Rightarrow> trigger_candidate list \<times> bool \<times> bool" where
  "rare_event_triggers st samples spans clusters primary window_start window_end scope =
     (case primary of
        None \<Rightarrow> ([], False, False)
      | Some (_, p) \<Rightarrow>
          (case cd_first_seen p of
             None \<Rightarrow> ([], False, False)
           | Some onset \<Rightarrow>
               (let rare = rare_event_candidates (map snd (others primary clusters)) (Some onset) (trigger_rare_change_ratio st) 120 5;
                    logs = map (\<lambda>r. \<lparr>tc_message = rt_message r,
                        tc_timestamp = Some (case rt_first_seen r of Some t \<Rightarrow> t | None \<Rightarrow> onset), tc_service = rt_service r\<rparr>) rare;
                    metrics = map (\<lambda>o'. \<lparr>tc_message = ao_metric o' @ '' anomaly onset'', tc_timestamp = Some (ao_onset o'), tc_service = ao_service o'\<rparr>)
                      (metric_onsets samples scope window_start window_end);
                    scored = logs @ metrics in
                if scored = [] then ([], False, False)
                else
                  let root_service = primary_service (Some p);
                      graph = build_service_graph spans scope window_start window_end;
                      is_linked = (\<lambda>t. linked_to graph root_service (tc_service t)) in
                  (sort_key (\<lambda>t. if is_linked t then 0 else 1 :: nat) scored, True, list_ex is_linked scored))))"

section \<open>Triggers by pattern\<close>

definition TRIGGER_ROW_CAP :: nat where "TRIGGER_ROW_CAP = 5000"

definition matches_any :: "regex list \<Rightarrow> string option \<Rightarrow> bool" where
  "matches_any ps s = (case s of None \<Rightarrow> False | Some m \<Rightarrow> list_ex (\<lambda>p. re_search p m) ps)"

definition trigger_text :: "log_entry \<Rightarrow> string option" where
  "trigger_text e = (case named (lr_normalized_message e) of Some m \<Rightarrow> Some m | None \<Rightarrow> lr_raw_message e)"

text \<open>The WHERE clause: causal patterns up to the onset, reactive ones to the end of the window.\<close>

definition trigger_row :: "string \<Rightarrow> nat option \<Rightarrow> int \<Rightarrow> int \<Rightarrow> int \<Rightarrow> log_entry \<Rightarrow> bool" where
  "trigger_row scope job search_start causal_upper window_end e \<longleftrightarrow>
     lr_scope e = scope \<and> sql_filter job (le_ingestion_job_id e) \<and>
     (case lr_timestamp e of
        None \<Rightarrow> False
      | Some t \<Rightarrow>
          search_start \<le> t
          \<and> (t \<le> causal_upper \<and> matches_any CAUSAL_TRIGGER_PATTERNS (trigger_text e)
             \<or> t \<le> window_end \<and> matches_any REACTIVE_TRIGGER_PATTERNS (trigger_text e)))"

definition raw_json_message :: "(string \<Rightarrow> pyval option) \<Rightarrow> string \<Rightarrow> pyval" where
  "raw_json_message json raw =
     (case json raw of
        Some (VDict d) \<Rightarrow> (let v = dget_or d ''message'' VNone in if py_truthy v then v else VStr raw)
      | _ \<Rightarrow> VStr raw)"

definition trigger_message :: "(string \<Rightarrow> pyval option) \<Rightarrow> log_entry \<Rightarrow> pyval" where
  "trigger_message json e =
     (case named (lr_normalized_message e) of
        Some m \<Rightarrow> VStr m
      | None \<Rightarrow> (case named (lr_raw_message e) of None \<Rightarrow> VStr [] | Some raw \<Rightarrow> raw_json_message json raw))"

fun searched :: "pyval \<Rightarrow> string res" where
  "searched (VStr m) = Inr m"
| "searched _ = Inl (TypeError ''expected string or bytes-like object'')"

fun first_by :: "('a \<Rightarrow> 'k) \<Rightarrow> 'k list \<Rightarrow> 'a list \<Rightarrow> 'a list" where
  "first_by f seen [] = []"
| "first_by f seen (x # xs) = (if f x \<in> set seen then first_by f seen xs else x # first_by f (f x # seen) xs)"

definition dedup_key :: "trigger_candidate \<Rightarrow> string" where
  "dedup_key t = strip_str (take 100 (tc_message t))"

definition find_trigger_candidates ::
    "evidence_settings \<Rightarrow> (string \<Rightarrow> pyval option) \<Rightarrow> log_entry list \<Rightarrow> int \<Rightarrow> int \<Rightarrow> nat option \<Rightarrow> string \<Rightarrow> int option
      \<Rightarrow> trigger_candidate list res" where
  "find_trigger_candidates st json logs window_start window_end job scope search_end =
     (let search_start = window_start - trigger_lookback_minutes st * 60000000;
          causal_upper = (case search_end of Some t \<Rightarrow> t | None \<Rightarrow> window_end);
          rows = take TRIGGER_ROW_CAP (sort_key (\<lambda>e. (the (lr_timestamp e), le_id e))
                   (filter (trigger_row scope job search_start causal_upper window_end) logs)) in
      rbind (rmap (\<lambda>e. rbind (searched (trigger_message json e)) (\<lambda>m. Inr (e, m))) rows) (\<lambda>msgs.
        let candidates = map (\<lambda>(e, m). \<lparr>tc_message = take 500 m, tc_timestamp = lr_timestamp e, tc_service = lr_service e\<rparr>)
              (filter (\<lambda>(_, m). is_trigger_message m) msgs) in
        Inr (take 3 (first_by dedup_key [] (sort_key (\<lambda>t. case tc_timestamp t of None \<Rightarrow> (0 :: nat, 0) | Some x \<Rightarrow> (1, x)) candidates)))))"

section \<open>Assembly\<close>

definition count_logs_in_window :: "log_entry list \<Rightarrow> int \<Rightarrow> int \<Rightarrow> string option \<Rightarrow> nat option \<Rightarrow> string \<Rightarrow> nat" where
  "count_logs_in_window logs window_start window_end service job scope =
     length (filter (\<lambda>e. between window_start window_end (lr_timestamp e) \<and> lr_scope e = scope
       \<and> sql_filter (named service) (lr_service e) \<and> sql_filter job (le_ingestion_job_id e)) logs)"

record evidence_db =
  ed_logs :: "log_entry list"
  ed_samples :: "metric_row list"
  ed_spans :: "(string \<times> span) list"
  ed_json :: "string \<Rightarrow> pyval option"

definition assemble_evidence ::
    "evidence_settings \<Rightarrow> evidence_db \<Rightarrow> int \<Rightarrow> int \<Rightarrow> cluster_data list \<Rightarrow> string option \<Rightarrow> string option \<Rightarrow> nat option \<Rightarrow> string
      \<Rightarrow> evidence_packet res" where
  "assemble_evidence st db window_start window_end clusters service_filter environment_filter job scope =
     (let total_logs = count_logs_in_window (ed_logs db) window_start window_end service_filter job scope;
          all = placed clusters;
          sig = select_significant_clusters all;
          primary = select_primary_cluster st sig (Some window_start) (Some window_end);
          packet = (\<lambda>triggers found explains.
            \<lparr>ep_window_start = window_start, ep_window_end = window_end, ep_total_logs = total_logs,
             ep_primary_cluster = map_option snd primary, ep_secondary_clusters = secondary_clusters primary sig,
             ep_trigger_candidates = triggers,
             ep_services_affected = sort (dedup (concat (map (\<lambda>c. dkeys (cd_services c)) clusters))),
             ep_candidate_services = legacy_candidate_services sig,
             ep_service_filter = service_filter, ep_environment_filter = environment_filter,
             ep_trigger_found = found, ep_trigger_explains = explains\<rparr>) in
      if trigger_mode st = ''rare_event''
      then (let (triggers, found, explains) = rare_event_triggers st (ed_samples db) (ed_spans db) all primary window_start window_end scope in
            Inr (packet triggers (Some found) (Some explains)))
      else rbind (find_trigger_candidates st (ed_json db) (ed_logs db) window_start window_end job scope
              (Option.bind primary (\<lambda>(_, c). cd_first_seen c))) (\<lambda>triggers. Inr (packet triggers None None)))"

section \<open>Confidence\<close>

record confidence_settings =
  count_high :: nat
  count_low :: nat
  change_ratio_high :: real
  change_ratio_low :: real
  points_count_high :: int
  points_count_low :: int
  points_change_high :: int
  points_change_low :: int
  points_trigger :: int
  points_secondary :: int
  points_multiservice :: int
  threshold_high :: int
  threshold_medium_high :: int
  threshold_medium :: int
  calibrated_high :: real
  calibrated_medium_high :: real
  calibrated_medium :: real
  score_low :: real
  score_medium :: real
  score_medium_high :: real
  score_high :: real

definition label_scores :: "confidence_settings \<Rightarrow> (string, real) dict" where
  "label_scores s = [(''low'', score_low s), (''medium'', score_medium s), (''medium-high'', score_medium_high s), (''high'', score_high s)]"

definition score_from_label :: "confidence_settings \<Rightarrow> string \<Rightarrow> real" where
  "score_from_label s label = dget_or (label_scores s) label 0"

definition label_from_calibrated_probability :: "confidence_settings \<Rightarrow> real \<Rightarrow> string" where
  "label_from_calibrated_probability s p =
     (if calibrated_high s \<le> p then ''high''
      else if calibrated_medium_high s \<le> p then ''medium-high''
      else if calibrated_medium s \<le> p then ''medium''
      else ''low'')"

definition compute_confidence_points :: "confidence_settings \<Rightarrow> evidence_packet \<Rightarrow> int" where
  "compute_confidence_points s packet =
     (case ep_primary_cluster packet of
        None \<Rightarrow> 0
      | Some pc \<Rightarrow>
          (if count_high s \<le> cd_count pc then points_count_high s else if count_low s \<le> cd_count pc then points_count_low s else 0)
          + (if 0 < cd_baseline_count pc
             then (if change_ratio_high s < cd_change_ratio pc then points_change_high s
                   else if change_ratio_low s < cd_change_ratio pc then points_change_low s else 0)
             else 0)
          + (if ep_trigger_found packet = None \<and> ep_trigger_candidates packet \<noteq> [] then points_trigger s else 0)
          + (if ep_secondary_clusters packet \<noteq> [] then points_secondary s else 0)
          + (if 1 < length (ep_services_affected packet) then points_multiservice s else 0))"

definition compute_confidence :: "confidence_settings \<Rightarrow> evidence_packet \<Rightarrow> string" where
  "compute_confidence s packet =
     (if ep_primary_cluster packet = None then ''low''
      else
        let score = compute_confidence_points s packet in
        if ep_trigger_found packet \<noteq> None
        then (if threshold_medium_high s \<le> score then ''medium-high'' else if threshold_medium s \<le> score then ''medium'' else ''low'')
        else
          let has_trigger = (ep_trigger_candidates packet \<noteq> []) in
          if threshold_high s \<le> score \<and> has_trigger then ''high''
          else if threshold_medium_high s \<le> score then ''medium-high''
          else if threshold_medium s \<le> score then ''medium''
          else ''low'')"

definition compute_confidence_score :: "confidence_settings \<Rightarrow> evidence_packet \<Rightarrow> real" where
  "compute_confidence_score s packet =
     (if ep_primary_cluster packet = None then 0 else score_from_label s (compute_confidence s packet))"

section \<open>The primary cluster\<close>

lemma placed_nth: "(i, c) \<in> set (placed cs) \<longleftrightarrow> i < length cs \<and> c = cs ! i"
  by (auto simp: placed_def set_zip intro!: exI [of _ i])

lemma snd_placed [simp]: "map snd (placed cs) = cs" "snd ` set (placed cs) = set cs"
  by (simp add: placed_def, metis length_map list.set_map map_nth map_snd_zip placed_def)

lemma placed_ex: "c \<in> set cs \<Longrightarrow> \<exists>n. (n, c) \<in> set (placed cs)"
  by (metis snd_placed(2) imageE prod.collapse)

lemma select_primary_in: "select_primary_cluster st sig a b = Some p \<Longrightarrow> p \<in> set sig"
  by (auto simp: select_primary_cluster_def Let_def split: if_splits dest!: max_by_in)

lemma significant_pool:
  assumes "c \<in> set cs" "significant c"
  shows "set (select_significant_clusters (placed cs)) = {(i, x). (i, x) \<in> set (placed cs) \<and> significant x}"
proof -
  have "filter (\<lambda>(_, c). significant c) (placed cs) \<noteq> []"
  proof -
    obtain n where "(n, c) \<in> set (placed cs)" using placed_ex [OF assms(1)] by blast
    then show ?thesis using assms(2) by (auto simp: filter_empty_conv)
  qed
  then show ?thesis by (auto simp: select_significant_clusters_def Let_def)
qed

text \<open>With volume alone weighted, the primary cluster has the largest error group, then the most lines.\<close>

definition volume_only :: "evidence_settings \<Rightarrow> bool" where
  "volume_only st \<longleftrightarrow> 0 < rca_weight_volume st \<and> rca_weight_anomaly st = 0 \<and> rca_weight_onset st = 0"

lemma volume_score_le:
  assumes "volume_only st" "candidate_score st a b x \<le> candidate_score st a b y"
  shows "top_error_group x \<le> top_error_group y"
proof -
  have "ln (real (top_error_group x) + 1) \<le> ln (real (top_error_group y) + 1)"
    using assms by (simp add: volume_only_def candidate_score_def)
  then show ?thesis by simp
qed

lemma volume_score_eq:
  "volume_only st \<Longrightarrow> top_error_group x = top_error_group y \<Longrightarrow> candidate_score st a b x = candidate_score st a b y"
  by (simp add: volume_only_def candidate_score_def)

lemma primary_largest:
  assumes vol: "volume_only st" and c: "(i, c) \<in> set sig" "0 < top_error_group c"
  shows "\<exists>j p. select_primary_cluster st sig a b = Some (j, p) \<and> (j, p) \<in> set sig \<and> (top_error_group c, cd_count c) \<le> (top_error_group p, cd_count p)"
proof -
  let ?err = "filter (\<lambda>(_, c). 0 < top_error_group c) sig"
  let ?key = "\<lambda>(_ :: nat, c). (candidate_score st a b c, cd_count c, cd_importance_score c)"
  have ne: "?err \<noteq> []" "sig \<noteq> []" using c by (auto simp: filter_empty_conv)
  have "max_by ?key ?err \<noteq> None" using ne(1) by (simp only: max_by_None not_False_eq_True)
  then obtain j p where p: "max_by ?key ?err = Some (j, p)" by fastforce
  have sel: "select_primary_cluster st sig a b = Some (j, p)" using ne p by (simp add: select_primary_cluster_def)
  have "(i, c) \<in> set ?err" using c by simp
  from max_by_ge [OF p this] have "(candidate_score st a b c, cd_count c, cd_importance_score c)
      \<le> (candidate_score st a b p, cd_count p, cd_importance_score p)" by simp
  then have le: "candidate_score st a b c < candidate_score st a b p
      \<or> candidate_score st a b c = candidate_score st a b p \<and> cd_count c \<le> cd_count p"
    unfolding less_eq_prod_def by fastforce
  have "(top_error_group c, cd_count c) \<le> (top_error_group p, cd_count p)"
  proof (cases "top_error_group c = top_error_group p")
    case True
    then have "cd_count c \<le> cd_count p" using le volume_score_eq [OF vol True, of a b] by simp
    with True show ?thesis by (simp add: less_eq_prod_def)
  next
    case False
    have "top_error_group c \<le> top_error_group p" by (rule volume_score_le [OF vol, of a b]) (use le in auto)
    with False show ?thesis by (simp add: less_eq_prod_def)
  qed
  then show ?thesis using sel select_primary_in [OF sel] by blast
qed

text \<open>
  The display cap does not change which failure an explanation is about. With the default weights, when
  some cluster of the run has error lines (and such clusters carry a significant level), the primary cluster
  chosen from the capped list has a largest error group and a count that no cluster of the whole run
  exceeds, the same as the one that would be chosen without the cap.
\<close>
theorem cap_keeps_primary:
  assumes "volume_only st" "\<exists>c \<in> set merged. 0 < top_error_group c"
    and "\<forall>c \<in> set merged. 0 < top_error_group c \<longrightarrow> significant c"
  shows "\<exists>i p j q.
      select_primary_cluster st (select_significant_clusters (placed (rank_and_cap merged k))) a b = Some (i, p)
      \<and> select_primary_cluster st (select_significant_clusters (placed merged)) a b = Some (j, q)
      \<and> p \<in> set merged \<and> (\<forall>x \<in> set merged. (top_error_group x, cd_count x) \<le> (top_error_group p, cd_count p))
      \<and> (top_error_group p, cd_count p) = (top_error_group q, cd_count q)"
proof -
  obtain t where t: "t \<in> set (rank_and_cap merged k)" "\<forall>x \<in> set merged. (top_error_group x, cd_count x) \<le> (top_error_group t, cd_count t)"
    using assms(2) rank_and_cap_top by blast
  have sub: "set (rank_and_cap merged k) \<subseteq> set merged" using rank_and_cap_sub [of merged k] by (metis set_mset_mono set_mset_mset)
  have pos: "0 < top_error_group t" using assms(2) t(2) by (auto simp: less_eq_prod_def)
  have tm: "t \<in> set merged" "significant t" using t(1) sub assms(3) pos by auto
  have choose: "\<exists>i p. select_primary_cluster st (select_significant_clusters (placed cs)) a b = Some (i, p) \<and> p \<in> set cs
      \<and> (top_error_group t, cd_count t) \<le> (top_error_group p, cd_count p)" if ts: "t \<in> set cs" for cs
  proof -
    obtain n where "(n, t) \<in> set (placed cs)" using placed_ex [OF ts] by blast
    then have "(n, t) \<in> set (select_significant_clusters (placed cs))" using significant_pool [OF ts tm(2)] tm(2) by simp
    from primary_largest [OF assms(1) this pos, of a b] obtain i p where
      p: "select_primary_cluster st (select_significant_clusters (placed cs)) a b = Some (i, p)"
        "(i, p) \<in> set (select_significant_clusters (placed cs))" "(top_error_group t, cd_count t) \<le> (top_error_group p, cd_count p)" by blast
    then have "p \<in> set cs" using significant_pool [OF ts tm(2)] by (auto simp: placed_nth)
    with p show ?thesis by blast
  qed
  obtain i p where p: "select_primary_cluster st (select_significant_clusters (placed (rank_and_cap merged k))) a b = Some (i, p)"
    "p \<in> set (rank_and_cap merged k)" "(top_error_group t, cd_count t) \<le> (top_error_group p, cd_count p)"
    using choose [OF t(1)] by blast
  obtain j q where q: "select_primary_cluster st (select_significant_clusters (placed merged)) a b = Some (j, q)"
    "q \<in> set merged" "(top_error_group t, cd_count t) \<le> (top_error_group q, cd_count q)"
    using choose [OF tm(1)] by blast
  have pm: "p \<in> set merged" using p(2) sub by blast
  have pt: "(top_error_group p, cd_count p) = (top_error_group t, cd_count t)"
    by (rule antisym [OF _ p(3)]) (rule t(2) [rule_format, OF pm])
  have qt: "(top_error_group q, cd_count q) = (top_error_group t, cd_count t)"
    by (rule antisym [OF _ q(3)]) (rule t(2) [rule_format, OF q(2)])
  have "\<forall>x \<in> set merged. (top_error_group x, cd_count x) \<le> (top_error_group p, cd_count p)" using t(2) by (simp only: pt)
  then show ?thesis using p(1) q(1) pm pt qt by auto
qed

section \<open>The order of trigger candidates\<close>

lemma insort_after: "\<forall>u \<in> set us. f u < f x \<Longrightarrow> insort_key f x (us @ vs) = us @ insort_key f x vs"
  by (induction us) auto

lemma sort_by_flag: "sort_key (\<lambda>t. if P t then 0 else 1 :: nat) xs = filter P xs @ filter (\<lambda>t. \<not> P t) xs"
proof (induction xs)
  case (Cons x xs)
  show ?case
  proof (cases "P x")
    case True
    then show ?thesis by (cases "filter P xs") (auto simp: Cons insort_is_Cons)
  next
    case False
    have "insort_key (\<lambda>t. if P t then 0 else 1 :: nat) x (filter P xs @ filter (\<lambda>t. \<not> P t) xs)
        = filter P xs @ insort_key (\<lambda>t. if P t then 0 else 1 :: nat) x (filter (\<lambda>t. \<not> P t) xs)"
      by (rule insort_after) (simp add: False)
    then show ?thesis using False by (cases "filter (\<lambda>t. \<not> P t) xs") (auto simp: Cons dest!: filter_eq_ConsD)
  qed
qed simp

definition ties :: "(string \<times> span) list \<Rightarrow> string \<Rightarrow> int \<Rightarrow> int \<Rightarrow> cluster_data \<Rightarrow> trigger_candidate \<Rightarrow> bool" where
  "ties spans scope a b p t = linked_to (build_service_graph spans scope a b) (primary_service (Some p)) (tc_service t)"

lemma rare_trigger_source: "r \<in> set (rare_event_candidates cs onset ratio gap n) \<Longrightarrow> \<exists>c \<in> set cs. rt_message r = cd_representative_message c"
  by (force simp: rare_event_candidates_def rare_pool_def rare_trigger_of_def Let_def dest!: in_set_takeD)

text \<open>
  Triggers by rarity. Every candidate is shown, those tied to the failing service by the trace graph
  first and each group in its own order; a trigger is \<open>found\<close> exactly when a candidate is shown, it
  \<open>explains\<close> exactly when a shown candidate is tied, and then the first one is. The primary cluster is never
  offered as its own trigger: every candidate from the logs is another cluster, every other one a metric's
  onset.
\<close>
theorem rare_triggers_linked_first:
  assumes "rare_event_triggers st samples spans clusters (Some (i, p)) a b scope = (ts, found, explains)"
  shows "(found \<longleftrightarrow> ts \<noteq> []) \<and> (explains \<longleftrightarrow> (\<exists>t \<in> set ts. ties spans scope a b p t))
      \<and> (explains \<longrightarrow> ties spans scope a b p (hd ts))
      \<and> ts = filter (ties spans scope a b p) ts @ filter (\<lambda>t. \<not> ties spans scope a b p t) ts
      \<and> (\<forall>t \<in> set ts. (\<exists>j c. (j, c) \<in> set clusters \<and> j \<noteq> i \<and> tc_message t = cd_representative_message c)
          \<or> (\<exists>o' \<in> set (metric_onsets samples scope a b). tc_message t = ao_metric o' @ '' anomaly onset'' \<and> tc_service t = ao_service o'))"
proof (cases "cd_first_seen p")
  case None
  then show ?thesis using assms by (auto simp: rare_event_triggers_def)
next
  case (Some onset)
  let ?P = "ties spans scope a b p"
  define logs where "logs = map (\<lambda>r. \<lparr>tc_message = rt_message r,
      tc_timestamp = Some (case rt_first_seen r of Some t \<Rightarrow> t | None \<Rightarrow> onset), tc_service = rt_service r\<rparr>)
    (rare_event_candidates (map snd (others (Some (i, p)) clusters)) (Some onset) (trigger_rare_change_ratio st) 120 5)"
  define metrics where "metrics = map (\<lambda>o'. \<lparr>tc_message = ao_metric o' @ '' anomaly onset'', tc_timestamp = Some (ao_onset o'),
      tc_service = ao_service o'\<rparr>) (metric_onsets samples scope a b)"
  have "rare_event_triggers st samples spans clusters (Some (i, p)) a b scope = (if logs @ metrics = [] then ([], False, False)
      else (sort_key (\<lambda>t. if ?P t then 0 else 1 :: nat) (logs @ metrics), True, list_ex ?P (logs @ metrics)))"
    by (simp only: rare_event_triggers_def option.case prod.case Some Let_def logs_def metrics_def ties_def [abs_def])
  then have run: "(ts, found, explains) = (if logs @ metrics = [] then ([], False, False)
      else (sort_key (\<lambda>t. if ?P t then 0 else 1 :: nat) (logs @ metrics), True, list_ex ?P (logs @ metrics)))"
    by (simp only: assms)
  have ts: "ts = filter ?P (logs @ metrics) @ filter (\<lambda>t. \<not> ?P t) (logs @ metrics)"
    using run by (auto simp: sort_by_flag simp del: filter_append split: if_splits)
  have mem: "set ts = set (logs @ metrics)" using ts by auto
  have split: "filter ?P ts = filter ?P (logs @ metrics)" "filter (\<lambda>t. \<not> ?P t) ts = filter (\<lambda>t. \<not> ?P t) (logs @ metrics)"
    by (simp_all add: ts)
  have "found \<longleftrightarrow> logs @ metrics \<noteq> []" "explains \<longleftrightarrow> (\<exists>t \<in> set (logs @ metrics). ?P t)"
    using run by (auto simp: list_ex_iff split: if_splits)
  then have fe: "found \<longleftrightarrow> ts \<noteq> []" "explains \<longleftrightarrow> (\<exists>t \<in> set ts. ?P t)" using mem by (auto simp del: set_append)
  have order: "ts = filter ?P ts @ filter (\<lambda>t. \<not> ?P t) ts" by (simp only: split) (rule ts)
  have first: "?P (hd ts)" if "explains"
  proof -
    have "filter ?P ts \<noteq> []" using that fe(2) by (auto simp: filter_empty_conv)
    then have "hd ts = hd (filter ?P ts)" using order by (metis hd_append2)
    moreover have "hd (filter ?P ts) \<in> set (filter ?P ts)" using \<open>filter ?P ts \<noteq> []\<close> by (rule hd_in_set)
    ultimately show ?thesis by simp
  qed
  have origin: "(\<exists>j c. (j, c) \<in> set clusters \<and> j \<noteq> i \<and> tc_message t = cd_representative_message c)
      \<or> (\<exists>o' \<in> set (metric_onsets samples scope a b). tc_message t = ao_metric o' @ '' anomaly onset'' \<and> tc_service t = ao_service o')"
    if t: "t \<in> set ts" for t
  proof -
    from t mem consider "t \<in> set logs" | "t \<in> set metrics" by auto
    then show ?thesis
    proof cases
      case 1
      then obtain r where "r \<in> set (rare_event_candidates (map snd (others (Some (i, p)) clusters)) (Some onset) (trigger_rare_change_ratio st) 120 5)"
        "tc_message t = rt_message r" by (auto simp: logs_def)
      with rare_trigger_source obtain c where "c \<in> snd ` set (others (Some (i, p)) clusters)" "tc_message t = cd_representative_message c" by fastforce
      then obtain j where "(j, c) \<in> set clusters" "j \<noteq> i" by (auto simp: others_def)
      with \<open>tc_message t = cd_representative_message c\<close> show ?thesis by blast
    qed (auto simp: metrics_def)
  qed
  show ?thesis using fe order first origin by blast
qed

section \<open>Triggers by pattern, after the fact\<close>

lemma first_by_in: "x \<in> set (first_by f seen xs) \<Longrightarrow> x \<in> set xs \<and> f x \<notin> set seen"
  by (induction f seen xs rule: first_by.induct) (auto split: if_splits)

lemma first_by_distinct: "distinct (map f (first_by f seen xs))"
  by (induction f seen xs rule: first_by.induct) (auto dest: first_by_in)

lemma first_by_sorted: "sorted (map g xs) \<Longrightarrow> sorted (map g (first_by f seen xs))"
  by (induction f seen xs rule: first_by.induct) (auto dest: first_by_in)

lemma first_by_Nil: "first_by f [] xs = [] \<longleftrightarrow> xs = []"
  by (cases xs) auto

lemma rmap_Inr_set: "rmap f xs = Inr ys \<Longrightarrow> y \<in> set ys \<Longrightarrow> \<exists>x \<in> set xs. f x = Inr y"
  using rmap_Inr_D by (fastforce simp: list_all2_conv_all_nth in_set_conv_nth)

text \<open>A log line may be named as a trigger: in scope and window, with a causal pattern before the failure starts or a reactive one at any time.\<close>

definition eligible :: "evidence_settings \<Rightarrow> string \<Rightarrow> nat option \<Rightarrow> int \<Rightarrow> int \<Rightarrow> int option \<Rightarrow> log_entry \<Rightarrow> bool" where
  "eligible st scope job a b onset e =
     trigger_row scope job (a - trigger_lookback_minutes st * 60000000) (case onset of Some t \<Rightarrow> t | None \<Rightarrow> b) b e"

lemma eligible_times:
  "eligible st scope job a b onset e \<Longrightarrow> \<exists>t. lr_timestamp e = Some t"
  by (auto simp: eligible_def trigger_row_def split: option.splits)

definition trigger_rows :: "evidence_settings \<Rightarrow> log_entry list \<Rightarrow> int \<Rightarrow> int \<Rightarrow> nat option \<Rightarrow> string \<Rightarrow> int option \<Rightarrow> log_entry list" where
  "trigger_rows st logs a b job scope onset =
     take TRIGGER_ROW_CAP (sort_key (\<lambda>e. (the (lr_timestamp e), le_id e)) (filter (eligible st scope job a b onset) logs))"

definition candidate_of :: "log_entry \<Rightarrow> string \<Rightarrow> trigger_candidate" where
  "candidate_of e m = \<lparr>tc_message = take 500 m, tc_timestamp = lr_timestamp e, tc_service = lr_service e\<rparr>"

lemma trigger_rows_in: "e \<in> set (trigger_rows st logs a b job scope onset) \<Longrightarrow> e \<in> set logs \<and> eligible st scope job a b onset e"
  by (auto simp: trigger_rows_def dest: in_set_takeD)

lemma find_trigger_candidates_InrE:
  assumes "find_trigger_candidates st json logs a b job scope onset = Inr ts"
  obtains msgs where "ts = take 3 (first_by dedup_key [] (sort_key (\<lambda>t. case tc_timestamp t of None \<Rightarrow> (0 :: nat, 0) | Some x \<Rightarrow> (1, x))
      (map (\<lambda>(e, m). candidate_of e m) (filter (\<lambda>(_, m). is_trigger_message m) msgs))))"
    and "\<And>e m. (e, m) \<in> set msgs \<Longrightarrow> e \<in> set (trigger_rows st logs a b job scope onset) \<and> trigger_message json e = VStr m"
proof -
  obtain msgs where msgs: "rmap (\<lambda>e. rbind (searched (trigger_message json e)) (\<lambda>m. Inr (e, m))) (trigger_rows st logs a b job scope onset) = Inr msgs"
    and ts: "ts = take 3 (first_by dedup_key [] (sort_key (\<lambda>t. case tc_timestamp t of None \<Rightarrow> (0 :: nat, 0) | Some x \<Rightarrow> (1, x))
      (map (\<lambda>(e, m). candidate_of e m) (filter (\<lambda>(_, m). is_trigger_message m) msgs))))"
    using assms by (auto simp: find_trigger_candidates_def trigger_rows_def candidate_of_def eligible_def [abs_def] res_simps)
  have "e \<in> set (trigger_rows st logs a b job scope onset) \<and> trigger_message json e = VStr m" if m: "(e, m) \<in> set msgs" for e m
  proof -
    obtain x where "x \<in> set (trigger_rows st logs a b job scope onset)" "rbind (searched (trigger_message json x)) (\<lambda>m. Inr (x, m)) = Inr (e, m)"
      using rmap_Inr_set [OF msgs m] by blast
    then show ?thesis by (cases "trigger_message json x") (auto simp: res_simps)
  qed
  with ts show ?thesis by (rule that)
qed

lemma named_trigger_line:
  assumes "find_trigger_candidates st json logs a b job scope onset = Inr ts" "t \<in> set ts"
  shows "\<exists>e \<in> set logs. \<exists>m. eligible st scope job a b onset e \<and> trigger_message json e = VStr m \<and> is_trigger_message m \<and> t = candidate_of e m"
proof -
  obtain msgs where ts: "ts = take 3 (first_by dedup_key [] (sort_key (\<lambda>t. case tc_timestamp t of None \<Rightarrow> (0 :: nat, 0) | Some x \<Rightarrow> (1, x))
      (map (\<lambda>(e, m). candidate_of e m) (filter (\<lambda>(_, m). is_trigger_message m) msgs))))"
    and msg: "\<And>e m. (e, m) \<in> set msgs \<Longrightarrow> e \<in> set (trigger_rows st logs a b job scope onset) \<and> trigger_message json e = VStr m"
    using find_trigger_candidates_InrE [OF assms(1)] by blast
  from assms(2) obtain e m where "(e, m) \<in> set msgs" "is_trigger_message m" "t = candidate_of e m"
    by (auto simp: ts dest!: in_set_takeD first_by_in)
  with msg trigger_rows_in show ?thesis by blast
qed

text \<open>
  C15: Triggers by pattern. At most three are named, in the order of their times, no two with the same first
  hundred characters; each is an eligible line of the caller's scope and job whose own message reads as a
  trigger, and one dated after the failure began is named only for a reactive pattern.
\<close>
theorem pattern_triggers_sound:
  assumes "find_trigger_candidates st json logs a b job scope onset = Inr ts"
  shows "length ts \<le> 3 \<and> sorted (map (\<lambda>t. the (tc_timestamp t)) ts) \<and> distinct (map dedup_key ts)
      \<and> (\<forall>t \<in> set ts. \<exists>e \<in> set logs. \<exists>m. eligible st scope job a b onset e \<and> lr_scope e = scope
          \<and> trigger_message json e = VStr m \<and> is_trigger_message m \<and> t = candidate_of e m
          \<and> (\<forall>x. onset = Some x \<and> x < the (tc_timestamp t) \<longrightarrow> matches_any REACTIVE_TRIGGER_PATTERNS (trigger_text e)))"
proof -
  let ?key = "\<lambda>t. case tc_timestamp t of None \<Rightarrow> (0 :: nat, 0) | Some x \<Rightarrow> (1, x)"
  obtain msgs where ts: "ts = take 3 (first_by dedup_key [] (sort_key ?key (map (\<lambda>(e, m). candidate_of e m) (filter (\<lambda>(_, m). is_trigger_message m) msgs))))"
    using find_trigger_candidates_InrE [OF assms] by blast
  note each = named_trigger_line [OF assms]
  have "sorted (map ?key ts)" unfolding ts take_map [symmetric]
    by (intro sorted_wrt_take first_by_sorted sorted_sort_key)
  moreover have "?key t = (1, the (tc_timestamp t))" if "t \<in> set ts" for t
    using each [OF that] eligible_times by (auto simp: candidate_of_def split: option.splits)
  ultimately have "sorted (map (\<lambda>t. (1 :: nat, the (tc_timestamp t))) ts)" by (simp cong: map_cong)
  then have order: "sorted (map (\<lambda>t. the (tc_timestamp t)) ts)" by (auto simp: sorted_map sorted_wrt_map elim!: sorted_wrt_mono_rel [rotated])
  have keys: "distinct (map dedup_key ts)" by (simp add: ts take_map [symmetric] distinct_take first_by_distinct)
  have facts: "lr_scope e = scope \<and> (\<forall>x. onset = Some x \<and> x < the (tc_timestamp (candidate_of e m)) \<longrightarrow> matches_any REACTIVE_TRIGGER_PATTERNS (trigger_text e))"
    if "eligible st scope job a b onset e" for e m
    using that by (auto simp: eligible_def trigger_row_def candidate_of_def split: option.splits)
  have "length ts \<le> 3" by (simp add: ts)
  with order keys each facts show ?thesis by blast
qed

section \<open>Confidence\<close>

lemma confidence_high:
  "compute_confidence s packet = ''high'' \<longleftrightarrow> ep_primary_cluster packet \<noteq> None \<and> ep_trigger_found packet = None
     \<and> ep_trigger_candidates packet \<noteq> [] \<and> threshold_high s \<le> compute_confidence_points s packet"
  by (auto simp: compute_confidence_def Let_def)

text \<open>
  High confidence rests on a logged event. An assembled packet earns the label \<open>high\<close> only with
  pattern-based triggers, a primary cluster and enough points, and then some line of the caller's own scope and
  job, eligible by its time, reads as a trigger; a rare event never does it. Without a primary cluster the
  label is \<open>low\<close> and the score 0.
\<close>
theorem high_needs_logged_trigger:
  assumes "assemble_evidence st db a b clusters service env job scope = Inr packet"
  shows "(compute_confidence s packet = ''high'' \<longrightarrow>
        trigger_mode st \<noteq> ''rare_event'' \<and> threshold_high s \<le> compute_confidence_points s packet
        \<and> (\<exists>p e m. ep_primary_cluster packet = Some p \<and> p \<in> set clusters
            \<and> e \<in> set (ed_logs db) \<and> eligible st scope job a b (cd_first_seen p) e
            \<and> trigger_message (ed_json db) e = VStr m \<and> is_trigger_message m))
      \<and> (clusters = [] \<longrightarrow> compute_confidence s packet = ''low'' \<and> compute_confidence_score s packet = 0)"
proof -
  define sig where "sig = select_significant_clusters (placed clusters)"
  define primary where "primary = select_primary_cluster st sig (Some a) (Some b)"
  have prim: "ep_primary_cluster packet = map_option snd primary"
    using assms by (auto simp: assemble_evidence_def sig_def primary_def Let_def res_simps split: if_splits prod.splits)
  have pool: "set sig \<subseteq> set (placed clusters)" by (auto simp: sig_def select_significant_clusters_def Let_def)
  have "\<exists>p e m. ep_primary_cluster packet = Some p \<and> p \<in> set clusters \<and> e \<in> set (ed_logs db) \<and> eligible st scope job a b (cd_first_seen p) e
      \<and> trigger_message (ed_json db) e = VStr m \<and> is_trigger_message m" "trigger_mode st \<noteq> ''rare_event''"
    if high: "compute_confidence s packet = ''high''"
  proof -
    from high have h: "ep_primary_cluster packet \<noteq> None" "ep_trigger_found packet = None" "ep_trigger_candidates packet \<noteq> []"
      by (auto simp: confidence_high)
    then obtain i p where p: "primary = Some (i, p)" using prim by auto
    from p pool have mem: "p \<in> set clusters" by (auto simp: primary_def placed_nth dest!: select_primary_in)
    show mode: "trigger_mode st \<noteq> ''rare_event''"
      using assms h(2) by (auto simp: assemble_evidence_def Let_def split: prod.splits)
    then obtain ts where ts: "find_trigger_candidates st (ed_json db) (ed_logs db) a b job scope (cd_first_seen p) = Inr ts"
      "ep_trigger_candidates packet = ts"
      using assms p by (auto simp: assemble_evidence_def sig_def primary_def Let_def res_simps)
    obtain t where "t \<in> set ts" using h(3) ts(2) by (cases ts) auto
    from named_trigger_line [OF ts(1) this] mem p prim
    show "\<exists>p e m. ep_primary_cluster packet = Some p \<and> p \<in> set clusters \<and> e \<in> set (ed_logs db) \<and> eligible st scope job a b (cd_first_seen p) e
      \<and> trigger_message (ed_json db) e = VStr m \<and> is_trigger_message m" by auto
  qed
  moreover have "ep_primary_cluster packet = None" if "clusters = []"
    using that prim by (simp add: primary_def sig_def select_significant_clusters_def placed_def select_primary_cluster_def)
  ultimately show ?thesis
    by (auto simp: confidence_high compute_confidence_score_def) (auto simp: compute_confidence_def)
qed

section \<open>Examples\<close>

definition failing_cluster :: cluster_data where
  "failing_cluster = quiet_cluster\<lparr>cd_fingerprint := ''g'', cd_representative_message := ''payment refused'', cd_count := 60,
     cd_levels := [(''error'', 60)], cd_first_seen := Some 60000000, cd_baseline_count := 1, cd_change_ratio := 40,
     cd_error_service_counts := [(''cart'', 60)]\<rparr>"

definition default_evidence :: evidence_settings where
  "default_evidence = \<lparr>trigger_lookback_minutes = 10, trigger_mode = ''regex'', trigger_rare_change_ratio = 5, rca_weight_volume = 1,
     rca_weight_anomaly = 0, rca_weight_onset = 0\<rparr>"

definition default_confidence :: confidence_settings where
  "default_confidence = \<lparr>count_high = 50, count_low = 10, change_ratio_high = 10, change_ratio_low = 3, points_count_high = 2,
     points_count_low = 1, points_change_high = 2, points_change_low = 1, points_trigger = 2, points_secondary = 1,
     points_multiservice = 1, threshold_high = 5, threshold_medium_high = 4, threshold_medium = 2, calibrated_high = 4 / 5,
     calibrated_medium_high = 13 / 20, calibrated_medium = 9 / 20, score_low = 1 / 4, score_medium = 1 / 2,
     score_medium_high = 18 / 25, score_high = 9 / 10\<rparr>"

theorem cap_keeps_primary_witness:
  "\<exists>i p. select_primary_cluster default_evidence (select_significant_clusters (placed (rank_and_cap [quiet_cluster, failing_cluster] 1))) None None
       = Some (i, p) \<and> top_error_group p = 60"
proof -
  have [simp]: "top_error_group quiet_cluster = 0" "top_error_group failing_cluster = 60" "significant failing_cluster"
    by (simp_all add: top_error_group_def max_or_def failing_cluster_def quiet_cluster_def significant_def SIGNIFICANT_LEVELS_def)
  have "volume_only default_evidence" by (simp add: volume_only_def default_evidence_def)
  from cap_keeps_primary [OF this, of "[quiet_cluster, failing_cluster]" 1 None None]
  show ?thesis by (auto simp: less_eq_prod_def)
qed

theorem rare_triggers_linked_first_witness:
  "\<exists>ts. rare_event_triggers default_evidence [] [] (placed [quiet_cluster, failing_cluster]) (Some (1, failing_cluster)) 0 90000000 ''default''
       = (ts, True, True) \<and> ties [] ''default'' 0 90000000 failing_cluster (hd ts)"
proof -
  let ?run = "rare_event_triggers default_evidence [] [] (placed [quiet_cluster, failing_cluster]) (Some (1, failing_cluster)) 0 90000000 ''default''"
  obtain ts found explains where run: "?run = (ts, found, explains)" by (metis prod_cases3)
  have others: "map snd (others (Some (1, failing_cluster)) (placed [quiet_cluster, failing_cluster])) = [quiet_cluster]"
    by (simp add: others_def placed_def)
  have rare: "rare_event_candidates [quiet_cluster] (Some 60000000) (trigger_rare_change_ratio default_evidence) 120 5
      = [rare_trigger_of (Some 60000000) quiet_cluster]"
    by (simp add: rare_event_candidates_def rare_pool_def is_rare_def after_onset_def quiet_cluster_def)
  have metrics: "metric_onsets [] ''default'' 0 90000000 = []"
    by (simp add: metric_onsets_def metric_anomaly_onsets_def)
  have svc: "rt_service (rare_trigger_of (Some 60000000) quiet_cluster) = Some ''cart''" "primary_service (Some failing_cluster) = Some ''cart''"
    by (simp_all add: rare_trigger_of_def dominant_service_def quiet_cluster_def primary_service_def failing_cluster_def max_by_def)
  have seen: "cd_first_seen failing_cluster = Some 60000000" by (simp add: failing_cluster_def)
  have "found \<and> explains"
    using run by (simp only: rare_event_triggers_def option.case prod.case seen others rare metrics Let_def)
      (auto simp: svc linked_to_def linked_def)
  with rare_triggers_linked_first [OF run] run show ?thesis by auto
qed

definition deploy_line :: log_entry where
  "deploy_line = \<lparr>lr_scope = ''default'', lr_service = Some ''cart'', lr_level = Some ''info'', lr_timestamp = Some 30000000,
     lr_raw_message = None, lr_normalized_message = Some ''deploy started'', lr_fingerprint = None, le_id = 1,
     le_environment = None, le_ingestion_job_id = None\<rparr>"

lemma deploy_line_matches: "matches_any CAUSAL_TRIGGER_PATTERNS (Some ''deploy started'')" "is_trigger_message ''deploy started''"
  by code_simp+

lemma deploy_line_candidates:
  "find_trigger_candidates default_evidence json [deploy_line] 0 90000000 None ''default'' (Some 60000000)
     = Inr [candidate_of deploy_line ''deploy started'']"
proof -
  have msg: "trigger_message json deploy_line = VStr ''deploy started''" "trigger_text deploy_line = Some ''deploy started''"
    by (simp_all add: trigger_message_def trigger_text_def deploy_line_def)
  have row: "trigger_row ''default'' None (- 600000000) 60000000 90000000 deploy_line"
    unfolding trigger_row_def msg using deploy_line_matches by (simp add: deploy_line_def sql_filter_def)
  have start: "0 - trigger_lookback_minutes default_evidence * 60000000 = - 600000000" by (simp add: default_evidence_def)
  show ?thesis
    unfolding find_trigger_candidates_def start
    by (simp add: row msg TRIGGER_ROW_CAP_def deploy_line_matches candidate_of_def)
qed

theorem pattern_triggers_sound_witness:
  "find_trigger_candidates default_evidence (\<lambda>_. None) [deploy_line] 0 90000000 None ''default'' (Some 60000000)
     = Inr [candidate_of deploy_line ''deploy started'']
   \<and> eligible default_evidence ''default'' None 0 90000000 (Some 60000000) deploy_line"
  using pattern_triggers_sound [OF deploy_line_candidates [of "\<lambda>_. None"]] deploy_line_candidates [of "\<lambda>_. None"] by auto

theorem high_needs_logged_trigger_witness:
  "\<exists>packet. assemble_evidence default_evidence \<lparr>ed_logs = [deploy_line], ed_samples = [], ed_spans = [], ed_json = \<lambda>_. None\<rparr>
        0 90000000 [failing_cluster] None None None ''default'' = Inr packet
     \<and> compute_confidence default_confidence packet = ''high'' \<and> 5 \<le> compute_confidence_points default_confidence packet"
proof -
  let ?run = "assemble_evidence default_evidence \<lparr>ed_logs = [deploy_line], ed_samples = [], ed_spans = [], ed_json = \<lambda>_. None\<rparr>
        0 90000000 [failing_cluster] None None None ''default''"
  have sig: "select_significant_clusters (placed [failing_cluster]) = [(0, failing_cluster)]"
    by (simp add: select_significant_clusters_def placed_def significant_def SIGNIFICANT_LEVELS_def failing_cluster_def)
  have prim: "select_primary_cluster default_evidence [(0, failing_cluster)] (Some 0) (Some 90000000) = Some (0, failing_cluster)"
    by (simp add: select_primary_cluster_def max_by_def)
  have mode: "trigger_mode default_evidence \<noteq> ''rare_event''" by (simp add: default_evidence_def)
  have seen: "cd_first_seen failing_cluster = Some 60000000" by (simp add: failing_cluster_def)
  obtain packet where run: "?run = Inr packet" and parts: "ep_primary_cluster packet = Some failing_cluster" "ep_trigger_found packet = None"
    "ep_trigger_candidates packet \<noteq> []"
    using mode by (simp add: assemble_evidence_def sig prim seen deploy_line_candidates Let_def)
  have points: "compute_confidence_points default_confidence packet \<ge> 5"
    using parts by (simp add: compute_confidence_points_def default_confidence_def failing_cluster_def)
  then have high: "compute_confidence default_confidence packet = ''high''"
    using parts by (simp add: confidence_high default_confidence_def)
  from high_needs_logged_trigger [OF run, of default_confidence] high have "threshold_high default_confidence \<le> compute_confidence_points default_confidence packet"
    by blast
  with run high show ?thesis by (auto simp: default_confidence_def)
qed

end
