(* ===== verification/Compare.thy ===== *)
theory Compare
  imports Evidence
begin

text \<open>
  The comparison of two windows by their clusters (\<open>core/compare/differ.py\<close>): noisy clusters are collapsed,
  the rest is matched by fingerprint and sorted into five lists, and the triggers of both windows are
  compared without their version suffixes. The order in which Python enumerates the set of fingerprints is
  an argument, \<open>fps\<close>: any list of its elements without repetition.
\<close>

section \<open>Collapsing noise\<close>

definition retry_re :: regex where
  "retry_re = Alts
     [Seqs [Boundary, LitI ''retry'', Opt (LitI ''ing''), Boundary],
      Seqs [Boundary, LitI ''retries'', Boundary],
      Seqs [Boundary, LitI ''attempt'', ws1, digits1]]"

definition any_char :: regex where "any_char = Chars (\<lambda>c. c \<noteq> CHR 0x0A)"

definition is_retry :: "string \<Rightarrow> bool" where
  "is_retry message = re_search retry_re message"

definition is_queue_growth :: "string \<Rightarrow> bool" where
  "is_queue_growth message \<longleftrightarrow>
     re_search (Seqs [LitI ''queue'', UpTo 30 any_char, one_of [''growing'', ''pending'', ''backlog'']]) message
     \<or> re_search (Seqs [one_of [''pending'', ''backlog''], UpTo 30 any_char, LitI ''queue'']) message"

definition add_services :: "(string, nat) dict \<Rightarrow> cluster_data \<Rightarrow> (string, nat) dict" where
  "add_services services c = foldl (\<lambda>d (svc, cnt). dset svc (dget_or d svc 0 + cnt) d) services (cd_services c)"

definition earliest :: "int list \<Rightarrow> int option" where
  "earliest ts = (if ts = [] then None else Some (Min (set ts)))"

definition latest :: "int list \<Rightarrow> int option" where
  "latest ts = (if ts = [] then None else Some (Max (set ts)))"

definition merge_group :: "cluster_data list \<Rightarrow> string \<Rightarrow> string \<Rightarrow> cluster_data" where
  "merge_group members label key =
     (let total = sum_list (map cd_count members) in
      \<lparr>cd_fingerprint = ''__collapsed_'' @ (if key = [] then label else key) @ ''__'', cd_representative_message = label, cd_count = total,
       cd_services = foldl add_services [] members, cd_levels = [],
       cd_first_seen = earliest (List.map_filter cd_first_seen members), cd_last_seen = latest (List.map_filter cd_last_seen members),
       cd_baseline_count = 0, cd_change_ratio = of_nat total, cd_importance_score = of_nat total, cd_is_trigger = False,
       cd_log_entry_ids = [], cd_merged_fingerprints = [], cd_error_service_counts = []\<rparr>)"

definition retry_label :: "cluster_data list \<Rightarrow> string" where
  "retry_label members = ''Retry events ('' @ str_of_nat (length members) @ '' distinct events, ''
     @ str_of_nat (sum_list (map cd_count members)) @ '' total)''"

definition retry_cluster :: "cluster_data \<Rightarrow> bool" where
  "retry_cluster c = is_retry (cd_representative_message c)"

definition queue_cluster :: "cluster_data \<Rightarrow> bool" where
  "queue_cluster c \<longleftrightarrow> \<not> retry_cluster c \<and> is_queue_growth (cd_representative_message c)"

definition collapse_clusters :: "cluster_data list \<Rightarrow> cluster_data list" where
  "collapse_clusters clusters =
     (let normal = filter (\<lambda>c. \<not> retry_cluster c \<and> \<not> queue_cluster c) clusters;
          retry_group = filter retry_cluster clusters;
          queue_group = filter queue_cluster clusters in
      normal
      @ (if retry_group \<noteq> [] then [merge_group retry_group (retry_label retry_group) ''retries''] else [])
      @ (if queue_group \<noteq> [] then [merge_group queue_group ''Queue growth'' ''queue_growth''] else []))"

section \<open>The difference of two windows\<close>

datatype direction = New | Disappeared | Increased | Decreased | Stable

record cluster_diff =
  df_fingerprint :: string
  df_message :: string
  df_services :: "string list"
  df_count_a :: "nat option"
  df_count_b :: "nat option"

definition CHANGE_THRESHOLD :: real where "CHANGE_THRESHOLD = 3 / 2"

definition direction_of :: "nat option \<Rightarrow> nat option \<Rightarrow> direction" where
  "direction_of a b =
     (case a of
        None \<Rightarrow> Disappeared
      | Some m \<Rightarrow>
          (case b of
             None \<Rightarrow> New
           | Some n \<Rightarrow>
               (let ratio = (of_nat m :: real) / of_nat (max n 1) in
                if CHANGE_THRESHOLD \<le> ratio then Increased
                else if ratio \<le> 1 / CHANGE_THRESHOLD then Decreased
                else Stable)))"

definition diff_direction :: "cluster_diff \<Rightarrow> direction" where
  "diff_direction d = direction_of (df_count_a d) (df_count_b d)"

record trigger_diff =
  td_message :: string
  td_service :: string
  td_only_in :: string

record compare_result =
  cr_new_clusters :: "cluster_diff list"
  cr_disappeared_clusters :: "cluster_diff list"
  cr_increased_clusters :: "cluster_diff list"
  cr_decreased_clusters :: "cluster_diff list"
  cr_stable_clusters :: "cluster_diff list"
  cr_new_triggers :: "trigger_diff list"
  cr_dropped_triggers :: "trigger_diff list"

definition has_changes :: "compare_result \<Rightarrow> bool" where
  "has_changes r \<longleftrightarrow> cr_new_clusters r \<noteq> [] \<or> cr_disappeared_clusters r \<noteq> [] \<or> cr_increased_clusters r \<noteq> []
     \<or> cr_decreased_clusters r \<noteq> [] \<or> cr_new_triggers r \<noteq> [] \<or> cr_dropped_triggers r \<noteq> []"

definition by_fingerprint :: "cluster_data list \<Rightarrow> (string, cluster_data) dict" where
  "by_fingerprint clusters = dict_of (map (\<lambda>c. (cd_fingerprint c, c)) clusters)"

definition cluster_diff_of :: "(string, cluster_data) dict \<Rightarrow> (string, cluster_data) dict \<Rightarrow> string \<Rightarrow> cluster_diff" where
  "cluster_diff_of map_a map_b fp =
     (let ca = dget map_a fp; cb = dget map_b fp; c = (case ca of Some x \<Rightarrow> x | None \<Rightarrow> the cb) in
      \<lparr>df_fingerprint = fp, df_message = cd_representative_message c, df_services = dkeys (cd_services c),
       df_count_a = map_option cd_count ca, df_count_b = map_option cd_count cb\<rparr>)"

definition or_zero :: "nat option \<Rightarrow> int" where
  "or_zero n = (case n of None \<Rightarrow> 0 | Some x \<Rightarrow> int x)"

definition version_re :: regex where
  "version_re = Seqs [Boundary, Lit ''v'', digits1, Star (Chars (\<lambda>c. is_digit c \<or> c = CHR ''.'' \<or> c = CHR ''-'' \<or> CHR ''a'' \<le> c \<and> c \<le> CHR ''z'')), End]"

definition trigger_key :: "trigger_candidate \<Rightarrow> string" where
  "trigger_key t = strip_str (re_sub version_re [] (strip_str (lower_str (tc_message t))))"

definition only_in :: "string \<Rightarrow> trigger_candidate list \<Rightarrow> trigger_candidate list \<Rightarrow> trigger_diff list" where
  "only_in side ts other_ts =
     (let keys = trigger_key ` set other_ts in
      map (\<lambda>t. \<lparr>td_message = tc_message t, td_service = (case tc_service t of Some s \<Rightarrow> s | None \<Rightarrow> []), td_only_in = side\<rparr>)
        (filter (\<lambda>t. trigger_key t \<notin> keys) ts))"

definition fingerprints :: "cluster_data list \<Rightarrow> cluster_data list \<Rightarrow> string set" where
  "fingerprints clusters_a clusters_b =
     set (dkeys (by_fingerprint (collapse_clusters clusters_a))) \<union> set (dkeys (by_fingerprint (collapse_clusters clusters_b)))"

definition compare_windows ::
    "string list \<Rightarrow> cluster_data list \<Rightarrow> cluster_data list \<Rightarrow> trigger_candidate list \<Rightarrow> trigger_candidate list \<Rightarrow> compare_result" where
  "compare_windows fps clusters_a clusters_b triggers_a triggers_b =
     (let map_a = by_fingerprint (collapse_clusters clusters_a);
          map_b = by_fingerprint (collapse_clusters clusters_b);
          diffs = map (cluster_diff_of map_a map_b) fps;
          pick = (\<lambda>dir. filter (\<lambda>d. diff_direction d = dir) diffs) in
      \<lparr>cr_new_clusters = sort_key (\<lambda>d. - or_zero (df_count_a d)) (pick New),
       cr_disappeared_clusters = sort_key (\<lambda>d. - or_zero (df_count_b d)) (pick Disappeared),
       cr_increased_clusters = sort_key (\<lambda>d. - (or_zero (df_count_a d) - or_zero (df_count_b d))) (pick Increased),
       cr_decreased_clusters = sort_key (\<lambda>d. - (or_zero (df_count_b d) - or_zero (df_count_a d))) (pick Decreased),
       cr_stable_clusters = pick Stable,
       cr_new_triggers = only_in ''a'' triggers_a triggers_b,
       cr_dropped_triggers = only_in ''b'' triggers_b triggers_a\<rparr>)"

section \<open>Each fingerprint in one list\<close>

definition all_diffs :: "compare_result \<Rightarrow> cluster_diff list" where
  "all_diffs r = cr_new_clusters r @ cr_disappeared_clusters r @ cr_increased_clusters r @ cr_decreased_clusters r @ cr_stable_clusters r"

definition count_in :: "cluster_data list \<Rightarrow> string \<Rightarrow> nat option" where
  "count_in clusters fp = map_option cd_count (dget (by_fingerprint (collapse_clusters clusters)) fp)"

lemma count_in_None: "count_in clusters fp = None \<longleftrightarrow> fp \<notin> set (dkeys (by_fingerprint (collapse_clusters clusters)))"
  by (simp add: count_in_def dict_simps)

lemma diff_counts [simp]:
  "df_fingerprint (cluster_diff_of (by_fingerprint (collapse_clusters A)) (by_fingerprint (collapse_clusters B)) fp) = fp"
  "df_count_a (cluster_diff_of (by_fingerprint (collapse_clusters A)) (by_fingerprint (collapse_clusters B)) fp) = count_in A fp"
  "df_count_b (cluster_diff_of (by_fingerprint (collapse_clusters A)) (by_fingerprint (collapse_clusters B)) fp) = count_in B fp"
  by (simp_all add: cluster_diff_of_def count_in_def Let_def)

lemma direction_split:
  "mset (filter (\<lambda>d. f d = New) ds) + (mset (filter (\<lambda>d. f d = Disappeared) ds) + (mset (filter (\<lambda>d. f d = Increased) ds)
     + (mset (filter (\<lambda>d. f d = Decreased) ds) + mset (filter (\<lambda>d. f d = Stable) ds)))) = mset ds"
proof (induction ds)
  case (Cons d ds)
  then show ?case by (cases "f d") auto
qed simp

lemma all_diffs_mset:
  "mset (all_diffs (compare_windows fps A B ta tb))
     = image_mset (cluster_diff_of (by_fingerprint (collapse_clusters A)) (by_fingerprint (collapse_clusters B))) (mset fps)"
  using direction_split [of diff_direction "map (cluster_diff_of (by_fingerprint (collapse_clusters A)) (by_fingerprint (collapse_clusters B))) fps"]
  by (simp add: all_diffs_def compare_windows_def Let_def)

definition grown :: "nat option \<Rightarrow> nat option \<Rightarrow> bool" where
  "grown a b \<longleftrightarrow> (\<exists>m n. a = Some m \<and> b = Some n \<and> 3 * max n 1 \<le> 2 * m)"

definition shrunk :: "nat option \<Rightarrow> nat option \<Rightarrow> bool" where
  "shrunk a b \<longleftrightarrow> (\<exists>m n. a = Some m \<and> b = Some n \<and> 3 * m \<le> 2 * max n 1)"

lemma ratio_conditions:
  fixes m n :: nat
  shows "CHANGE_THRESHOLD \<le> of_nat m / of_nat (max n 1) \<longleftrightarrow> 3 * max n 1 \<le> 2 * m"
    and "of_nat m / of_nat (max n 1) \<le> 1 / CHANGE_THRESHOLD \<longleftrightarrow> 3 * m \<le> 2 * max n 1"
proof -
  have pos: "0 < (of_nat (max n 1) :: real)" by simp
  have "CHANGE_THRESHOLD \<le> of_nat m / of_nat (max n 1) \<longleftrightarrow> (of_nat (3 * max n 1) :: real) \<le> of_nat (2 * m)"
    using pos by (simp add: CHANGE_THRESHOLD_def field_simps del: of_nat_max)
  then show "CHANGE_THRESHOLD \<le> of_nat m / of_nat (max n 1) \<longleftrightarrow> 3 * max n 1 \<le> 2 * m" by (simp only: of_nat_le_iff)
  have "of_nat m / of_nat (max n 1) \<le> 1 / CHANGE_THRESHOLD \<longleftrightarrow> (of_nat (3 * m) :: real) \<le> of_nat (2 * max n 1)"
    using pos by (simp add: CHANGE_THRESHOLD_def field_simps del: of_nat_max)
  then show "of_nat m / of_nat (max n 1) \<le> 1 / CHANGE_THRESHOLD \<longleftrightarrow> 3 * m \<le> 2 * max n 1" by (simp only: of_nat_le_iff)
qed

lemma direction_meaning:
  "direction_of a b = Disappeared \<longleftrightarrow> a = None"
  "direction_of a b = New \<longleftrightarrow> a \<noteq> None \<and> b = None"
  "direction_of a b = Increased \<longleftrightarrow> grown a b"
  "direction_of a b = Decreased \<longleftrightarrow> shrunk a b"
  "direction_of a b = Stable \<longleftrightarrow> a \<noteq> None \<and> b \<noteq> None \<and> \<not> grown a b \<and> \<not> shrunk a b"
  unfolding direction_of_def Let_def ratio_conditions grown_def shrunk_def by (auto split: option.splits)

lemma listed:
  "fp \<in> df_fingerprint ` set (cr_new_clusters (compare_windows fps A B ta tb)) \<longleftrightarrow> fp \<in> set fps \<and> direction_of (count_in A fp) (count_in B fp) = New"
  "fp \<in> df_fingerprint ` set (cr_disappeared_clusters (compare_windows fps A B ta tb)) \<longleftrightarrow> fp \<in> set fps \<and> direction_of (count_in A fp) (count_in B fp) = Disappeared"
  "fp \<in> df_fingerprint ` set (cr_increased_clusters (compare_windows fps A B ta tb)) \<longleftrightarrow> fp \<in> set fps \<and> direction_of (count_in A fp) (count_in B fp) = Increased"
  "fp \<in> df_fingerprint ` set (cr_decreased_clusters (compare_windows fps A B ta tb)) \<longleftrightarrow> fp \<in> set fps \<and> direction_of (count_in A fp) (count_in B fp) = Decreased"
  "fp \<in> df_fingerprint ` set (cr_stable_clusters (compare_windows fps A B ta tb)) \<longleftrightarrow> fp \<in> set fps \<and> direction_of (count_in A fp) (count_in B fp) = Stable"
  by (force simp: compare_windows_def Let_def diff_direction_def image_iff)+

text \<open>
  C16: The comparison places each fingerprint of the two windows in exactly one of its five lists: new when
  only the first window has it, disappeared when only the second has it, increased when its count is at
  least one and a half times the other (a count of 0 read as 1), decreased when at most two thirds of it,
  stable otherwise. The counts shown are those of the collapsed clusters, the new ones come largest first,
  and nothing but the order of equals depends on how the set of fingerprints is enumerated.
\<close>
theorem compare_windows_exact:
  assumes "distinct fps" "set fps = fingerprints A B"
  shows "let r = compare_windows fps A B ta tb in
      mset (map df_fingerprint (all_diffs r)) = mset_set (fingerprints A B)
      \<and> list_all (\<lambda>d. df_count_a d = count_in A (df_fingerprint d) \<and> df_count_b d = count_in B (df_fingerprint d)) (all_diffs r)
      \<and> df_fingerprint ` set (cr_new_clusters r) = {fp. count_in A fp \<noteq> None \<and> count_in B fp = None}
      \<and> df_fingerprint ` set (cr_disappeared_clusters r) = {fp. count_in A fp = None \<and> count_in B fp \<noteq> None}
      \<and> df_fingerprint ` set (cr_increased_clusters r) = {fp. grown (count_in A fp) (count_in B fp)}
      \<and> df_fingerprint ` set (cr_decreased_clusters r) = {fp. shrunk (count_in A fp) (count_in B fp)}
      \<and> sorted (map (\<lambda>d. - or_zero (df_count_a d)) (cr_new_clusters r))
      \<and> (\<forall>fps'. mset fps' = mset fps \<longrightarrow> mset (all_diffs (compare_windows fps' A B ta tb)) = mset (all_diffs r))"
proof -
  let ?r = "compare_windows fps A B ta tb"
  have "mset (map df_fingerprint (all_diffs ?r)) = mset fps"
    by (simp add: all_diffs_mset image_mset.compositionality comp_def)
  then have keys: "mset (map df_fingerprint (all_diffs ?r)) = mset_set (fingerprints A B)"
    using assms by (metis mset_set_set)
  have "set (all_diffs ?r) = cluster_diff_of (by_fingerprint (collapse_clusters A)) (by_fingerprint (collapse_clusters B)) ` set fps"
    using arg_cong [OF all_diffs_mset, of set_mset] by simp
  then have counts: "list_all (\<lambda>d. df_count_a d = count_in A (df_fingerprint d) \<and> df_count_b d = count_in B (df_fingerprint d)) (all_diffs ?r)"
    by (auto simp: list_all_iff)
  have fps: "fp \<in> set fps \<longleftrightarrow> count_in A fp \<noteq> None \<or> count_in B fp \<noteq> None" for fp
    by (simp add: assms(2) fingerprints_def count_in_None)
  have sorted: "sorted (map (\<lambda>d. - or_zero (df_count_a d)) (cr_new_clusters ?r))" by (simp add: compare_windows_def Let_def)
  have lists: "df_fingerprint ` set (cr_new_clusters ?r) = {fp. count_in A fp \<noteq> None \<and> count_in B fp = None}"
    "df_fingerprint ` set (cr_disappeared_clusters ?r) = {fp. count_in A fp = None \<and> count_in B fp \<noteq> None}"
    "df_fingerprint ` set (cr_increased_clusters ?r) = {fp. grown (count_in A fp) (count_in B fp)}"
    "df_fingerprint ` set (cr_decreased_clusters ?r) = {fp. shrunk (count_in A fp) (count_in B fp)}"
    by (rule set_eqI; simp only: listed fps direction_meaning mem_Collect_eq; auto simp: grown_def shrunk_def)+
  show ?thesis unfolding Let_def using keys counts lists sorted by (simp add: all_diffs_mset)
qed

section \<open>The comparison the other way round\<close>

type_synonym diff_row = "string \<times> nat option \<times> nat option"

definition row_of :: "cluster_diff \<Rightarrow> diff_row" where
  "row_of d = (df_fingerprint d, df_count_a d, df_count_b d)"

definition diff_rows :: "string list \<Rightarrow> cluster_data list \<Rightarrow> cluster_data list \<Rightarrow> diff_row list" where
  "diff_rows fps A B = map (\<lambda>fp. (fp, count_in A fp, count_in B fp)) fps"

definition rows_towards :: "direction \<Rightarrow> diff_row list \<Rightarrow> diff_row list" where
  "rows_towards dir = filter (\<lambda>(_, a, b). direction_of a b = dir)"

lemma insort_key_map: "insort_key k (g x) (map g xs) = map g (insort_key (\<lambda>x. k (g x)) x xs)"
  by (induction xs) auto

lemma sort_key_map: "sort_key k (map g xs) = map g (sort_key (\<lambda>x. k (g x)) xs)"
  by (induction xs) (auto simp: insort_key_map)

lemma picked_rows:
  "map row_of (filter (\<lambda>d. diff_direction d = dir) (map (cluster_diff_of (by_fingerprint (collapse_clusters A)) (by_fingerprint (collapse_clusters B))) fps))
     = rows_towards dir (diff_rows fps A B)"
  by (simp add: rows_towards_def diff_rows_def row_of_def filter_map comp_def diff_direction_def)

lemma sorted_rows:
  "map row_of (sort_key (\<lambda>d. k (df_count_a d) (df_count_b d)) ds) = sort_key (\<lambda>(_, a, b). k a b) (map row_of ds)"
  by (simp add: sort_key_map row_of_def)

lemma list_rows:
  "map row_of (cr_new_clusters (compare_windows fps A B ta tb)) = sort_key (\<lambda>(_, a, b). - or_zero a) (rows_towards New (diff_rows fps A B))"
  "map row_of (cr_disappeared_clusters (compare_windows fps A B ta tb)) = sort_key (\<lambda>(_, a, b). - or_zero b) (rows_towards Disappeared (diff_rows fps A B))"
  "map row_of (cr_increased_clusters (compare_windows fps A B ta tb)) = sort_key (\<lambda>(_, a, b). - (or_zero a - or_zero b)) (rows_towards Increased (diff_rows fps A B))"
  "map row_of (cr_decreased_clusters (compare_windows fps A B ta tb)) = sort_key (\<lambda>(_, a, b). - (or_zero b - or_zero a)) (rows_towards Decreased (diff_rows fps A B))"
  "map row_of (cr_stable_clusters (compare_windows fps A B ta tb)) = rows_towards Stable (diff_rows fps A B)"
  using sorted_rows [of "\<lambda>a b. - or_zero a"] sorted_rows [of "\<lambda>a b. - or_zero b"] sorted_rows [of "\<lambda>a b. - (or_zero a - or_zero b)"]
    sorted_rows [of "\<lambda>a b. - (or_zero b - or_zero a)"]
  by (simp_all only: compare_windows_def Let_def compare_result.select_convs picked_rows)

fun swap_row :: "diff_row \<Rightarrow> diff_row" where
  "swap_row (fp, a, b) = (fp, b, a)"

fun opposite :: "direction \<Rightarrow> direction" where
  "opposite New = Disappeared" | "opposite Disappeared = New" | "opposite Increased = Decreased"
| "opposite Decreased = Increased" | "opposite Stable = Stable"

lemma direction_opposite:
  assumes "a \<noteq> Some 0" "b \<noteq> Some 0" "a \<noteq> None \<or> b \<noteq> None"
  shows "direction_of b a = opposite (direction_of a b)"
proof -
  have sym: "grown b a = shrunk a b" "shrunk b a = grown a b" using assms(1,2) by (auto simp: grown_def shrunk_def)
  show ?thesis
    using assms(3) sym direction_meaning [of a b] direction_meaning [of b a] by (cases "direction_of a b"; cases "direction_of b a") auto
qed

lemma opposite_eq: "opposite x = y \<longleftrightarrow> x = opposite y"
  by (cases x; cases y) auto

lemma rows_swapped:
  assumes "\<forall>fp \<in> set fps. count_in A fp \<noteq> Some 0 \<and> count_in B fp \<noteq> Some 0 \<and> (count_in A fp \<noteq> None \<or> count_in B fp \<noteq> None)"
  shows "rows_towards dir (diff_rows fps B A) = map swap_row (rows_towards (opposite dir) (diff_rows fps A B))"
  using assms by (induction fps) (auto simp: rows_towards_def diff_rows_def direction_opposite opposite_eq)

lemma sum_pos: "\<forall>c \<in> set cs. 0 < cd_count c \<Longrightarrow> cs \<noteq> [] \<Longrightarrow> 0 < sum_list (map cd_count cs)"
  by (cases cs) auto

lemma collapse_positive:
  assumes "\<forall>c \<in> set cs. 0 < cd_count c" "c \<in> set (collapse_clusters cs)"
  shows "0 < cd_count c"
  using assms sum_pos [of "filter retry_cluster cs"] sum_pos [of "filter queue_cluster cs"]
  by (auto simp: collapse_clusters_def merge_group_def Let_def split: if_splits)

lemma count_in_positive: "\<forall>c \<in> set cs. 0 < cd_count c \<Longrightarrow> count_in cs fp \<noteq> Some 0"
  using collapse_positive [of cs] by (auto simp: count_in_def by_fingerprint_def dict_simps dest!: map_of_SomeD)

text \<open>
  Comparing the windows the other way round mirrors the result. When every cluster counts a line, the
  lists of new and of disappeared fingerprints change places, and so do increased and decreased, each with
  its counts swapped and in the same order; the triggers of the two sides change places too.
\<close>
theorem compare_mirror:
  assumes "set fps = fingerprints A B" "\<forall>c \<in> set A \<union> set B. 0 < cd_count c"
  shows "let r = compare_windows fps A B ta tb; r' = compare_windows fps B A tb ta in
      map row_of (cr_new_clusters r') = map (swap_row \<circ> row_of) (cr_disappeared_clusters r)
      \<and> map row_of (cr_disappeared_clusters r') = map (swap_row \<circ> row_of) (cr_new_clusters r)
      \<and> map row_of (cr_increased_clusters r') = map (swap_row \<circ> row_of) (cr_decreased_clusters r)
      \<and> map row_of (cr_decreased_clusters r') = map (swap_row \<circ> row_of) (cr_increased_clusters r)
      \<and> map row_of (cr_stable_clusters r') = map (swap_row \<circ> row_of) (cr_stable_clusters r)
      \<and> map td_message (cr_new_triggers r') = map td_message (cr_dropped_triggers r)
      \<and> map td_message (cr_dropped_triggers r') = map td_message (cr_new_triggers r)
      \<and> has_changes r' = has_changes r"
proof -
  let ?r = "compare_windows fps A B ta tb" and ?r' = "compare_windows fps B A tb ta"
  have ok: "\<forall>fp \<in> set fps. count_in A fp \<noteq> Some 0 \<and> count_in B fp \<noteq> Some 0 \<and> (count_in A fp \<noteq> None \<or> count_in B fp \<noteq> None)"
    using assms count_in_positive [of A] count_in_positive [of B] by (auto simp: fingerprints_def count_in_None simp del: not_None_eq)
  have swapped: "sort_key (\<lambda>(_, a, b). k a b) (map swap_row rs) = map swap_row (sort_key (\<lambda>(_, a, b). k b a) rs)" for k :: "nat option \<Rightarrow> nat option \<Rightarrow> int" and rs
    unfolding sort_key_map by (rule arg_cong [where f = "map swap_row"], rule arg_cong2 [where f = sort_key]) auto
  note rows = rows_swapped [OF ok, simplified]
  have lists: "map row_of (cr_new_clusters ?r') = map (swap_row \<circ> row_of) (cr_disappeared_clusters ?r)"
    "map row_of (cr_disappeared_clusters ?r') = map (swap_row \<circ> row_of) (cr_new_clusters ?r)"
    "map row_of (cr_increased_clusters ?r') = map (swap_row \<circ> row_of) (cr_decreased_clusters ?r)"
    "map row_of (cr_decreased_clusters ?r') = map (swap_row \<circ> row_of) (cr_increased_clusters ?r)"
    "map row_of (cr_stable_clusters ?r') = map (swap_row \<circ> row_of) (cr_stable_clusters ?r)"
    by (simp_all only: list_rows rows opposite.simps swapped map_map [symmetric])
  have triggers: "map td_message (cr_new_triggers ?r') = map td_message (cr_dropped_triggers ?r)"
    "map td_message (cr_dropped_triggers ?r') = map td_message (cr_new_triggers ?r)"
    by (simp_all add: compare_windows_def only_in_def Let_def comp_def)
  have empty: "xs = [] \<longleftrightarrow> ys = []" if "map f xs = map g ys" for f :: "'x \<Rightarrow> 'z" and g :: "'y \<Rightarrow> 'z" and xs ys
    using that by auto
  have "has_changes ?r' = has_changes ?r"
    unfolding has_changes_def using lists [THEN empty] triggers [THEN empty] by blast
  with lists triggers show ?thesis unfolding Let_def by blast
qed

section \<open>Counts\<close>

lemma sum_partition: "sum_list (map cd_count (filter P cs)) + sum_list (map cd_count (filter (\<lambda>c. \<not> P c) cs)) = sum_list (map cd_count cs)"
  by (induction cs) auto

lemma collapse_counts: "sum_list (map cd_count (collapse_clusters cs)) = sum_list (map cd_count cs)"
proof (induction cs)
  case (Cons c cs)
  have expand: "sum_list (map cd_count (collapse_clusters ds)) = sum_list (map cd_count (filter (\<lambda>c. \<not> retry_cluster c \<and> \<not> queue_cluster c) ds))
      + sum_list (map cd_count (filter retry_cluster ds)) + sum_list (map cd_count (filter queue_cluster ds))" for ds
    by (simp add: collapse_clusters_def merge_group_def Let_def)
  show ?case using Cons by (simp add: expand queue_cluster_def)
qed (simp add: collapse_clusters_def)

lemma sum_counts_by_key:
  assumes "distinct (map cd_fingerprint cs)"
  shows "(\<Sum>fp \<in> cd_fingerprint ` set cs. or_zero (map_option cd_count (dget (by_fingerprint cs) fp))) = int (sum_list (map cd_count cs))"
proof -
  have get: "dget (by_fingerprint cs) (cd_fingerprint c) = Some c" if "c \<in> set cs" for c
    using assms that by (simp add: by_fingerprint_def dict_of_distinct comp_def)
  have inj: "inj_on cd_fingerprint (set cs)" "distinct cs" using assms by (auto simp: distinct_map)
  have "(\<Sum>fp \<in> cd_fingerprint ` set cs. or_zero (map_option cd_count (dget (by_fingerprint cs) fp))) = (\<Sum>c \<in> set cs. int (cd_count c))"
    by (simp add: sum.reindex [OF inj(1)] get or_zero_def)
  also have "\<dots> = int (sum_list (map cd_count cs))" using inj(2) by (simp add: sum_list_distinct_conv_sum_set)
  finally show ?thesis .
qed

text \<open>
  The comparison accounts for every line. When the fingerprints of a window are distinct after the
  collapse, the counts the five lists show for it add up to the lines of all its clusters, collapsed or not.
\<close>
theorem compare_accounts:
  assumes "distinct fps" "set fps = fingerprints A B" "distinct (map cd_fingerprint (collapse_clusters A))"
  shows "(\<Sum>d \<leftarrow> all_diffs (compare_windows fps A B ta tb). or_zero (df_count_a d)) = int (sum_list (map cd_count A))"
proof -
  have "(\<Sum>d \<leftarrow> all_diffs (compare_windows fps A B ta tb). or_zero (df_count_a d)) = (\<Sum>fp \<leftarrow> fps. or_zero (count_in A fp))"
    using arg_cong [OF all_diffs_mset, of "\<lambda>M. sum_mset (image_mset (\<lambda>d. or_zero (df_count_a d)) M)" fps A B ta tb]
    by (simp add: image_mset.compositionality comp_def flip: sum_mset_sum_list mset_map)
  also have "\<dots> = (\<Sum>fp \<in> set fps. or_zero (count_in A fp))" using assms(1) by (simp add: sum_list_distinct_conv_sum_set)
  also have "\<dots> = (\<Sum>fp \<in> cd_fingerprint ` set (collapse_clusters A). or_zero (count_in A fp))"
  proof (rule sum.mono_neutral_right)
    have keys: "set (dkeys (by_fingerprint (collapse_clusters A))) = cd_fingerprint ` set (collapse_clusters A)"
      by (simp add: by_fingerprint_def image_image)
    then show "cd_fingerprint ` set (collapse_clusters A) \<subseteq> set fps" unfolding assms(2) fingerprints_def by blast
    have "or_zero (count_in A fp) = 0" if "fp \<notin> cd_fingerprint ` set (collapse_clusters A)" for fp
      using count_in_None [of A fp] that unfolding keys by (simp only: or_zero_def) simp
    then show "\<forall>fp \<in> set fps - cd_fingerprint ` set (collapse_clusters A). or_zero (count_in A fp) = 0" by blast
  qed simp
  also have "\<dots> = int (sum_list (map cd_count A))"
    using sum_counts_by_key [OF assms(3)] by (simp add: count_in_def collapse_counts)
  finally show ?thesis .
qed


section \<open>Version suffixes\<close>

text \<open>A pattern whose characters all satisfy \<open>Q\<close> consumes only such characters.\<close>

fun only_chars :: "(char \<Rightarrow> bool) \<Rightarrow> regex \<Rightarrow> bool" where
  "only_chars Q (Chars q) \<longleftrightarrow> (\<forall>c. q c \<longrightarrow> Q c)"
| "only_chars Q (Seq r r') \<longleftrightarrow> only_chars Q r \<and> only_chars Q r'"
| "only_chars Q (Alt r r') \<longleftrightarrow> only_chars Q r \<and> only_chars Q r'"
| "only_chars Q (Star r) \<longleftrightarrow> only_chars Q r"
| "only_chars Q _ \<longleftrightarrow> True"

lemma matches_consumes: "matches r p p' \<Longrightarrow> only_chars Q r \<Longrightarrow> \<exists>m. snd p = m @ snd p' \<and> list_all Q m"
proof (induction rule: matches.induct)
  case (seq r1 p p' r2 p'')
  then obtain m m' where "snd p = m @ snd p'" "snd p' = m' @ snd p''" "list_all Q m" "list_all Q m'" by auto
  then show ?case by (intro exI [of _ "m @ m'"]) simp
next
  case (star_step r p p' p'')
  then obtain m m' where "snd p = m @ snd p'" "snd p' = m' @ snd p''" "list_all Q m" "list_all Q m'" by auto
  then show ?case by (intro exI [of _ "m @ m'"]) simp
next
  case (chars q c b s)
  then show ?case by (intro exI [of _ "[c]"]) simp
qed auto

definition version_char :: "char \<Rightarrow> bool" where
  "version_char c \<longleftrightarrow> is_digit c \<or> c = CHR ''.'' \<or> c = CHR ''-'' \<or> CHR ''a'' \<le> c \<and> c \<le> CHR ''z''"

definition version :: "string \<Rightarrow> bool" where
  "version v \<longleftrightarrow> (\<exists>d rest. v = CHR ''v'' # d # rest \<and> is_digit d \<and> list_all version_char rest)"

lemma version_char_v [simp]: "version_char (CHR ''v'')"
  by (simp add: version_char_def less_eq_char_def)

lemma version_chars: "version v \<Longrightarrow> list_all version_char v"
  by (auto simp: version_def version_char_def)

lemma version_char_facts:
  assumes "version_char c"
  shows "lower_char c = c" "\<not> is_space c" "c \<noteq> CHR 0x0A"
proof -
  have "let n = (of_char c :: nat) in (48 \<le> n \<and> n \<le> 57) \<or> n = 46 \<or> n = 45 \<or> (97 \<le> n \<and> n \<le> 122)"
    using assms by (auto simp: version_char_def is_digit_def less_eq_char_def Let_def)
  then show "lower_char c = c" "\<not> is_space c" "c \<noteq> CHR 0x0A" by (auto simp: lower_char_def is_space_def Let_def)
qed

lemma version_re_only: "only_chars version_char version_re"
  by (simp add: version_re_def digits1_def Plus_def version_char_def less_eq_char_def)

lemma version_re_end: "matches version_re p p' \<Longrightarrow> at_end p'"
  by (auto simp: version_re_def matches_Seq elim: matches_cases)

lemma no_match_over_space: "\<not> matches version_re (b, t @ CHR '' '' # v) p" if "list_all version_char v"
proof
  assume m: "matches version_re (b, t @ CHR '' '' # v) p"
  from matches_consumes [OF m version_re_only] obtain c where c: "t @ CHR '' '' # v = c @ snd p" "list_all version_char c" by auto
  have "CHR '' '' \<notin> set c" using c(2) version_char_facts(2) [of "CHR '' ''"] by (auto simp: list_all_iff is_space_def)
  then have "CHR '' '' \<in> set (snd p)" using arg_cong [OF c(1), of set] by auto
  moreover have "snd p = [] \<or> snd p = [CHR 0x0A]" using version_re_end [OF m] by (simp add: at_end_def)
  ultimately show False by auto
qed

lemma sub_from_copy:
  "(\<And>b' t'. t' \<noteq> [] \<Longrightarrow> \<exists>u. t = u @ t' \<Longrightarrow> ends r (b', t' @ s) = []) \<Longrightarrow> sub_from r repl b (t @ s) = t @ sub_from r repl (after b t) s"
proof (induction t arbitrary: b)
  case (Cons c t)
  have "ends r (b, (c # t) @ s) = []" by (rule Cons.prems) auto
  then have "sub_from r repl b ((c # t) @ s) = c # sub_from r repl (Some c) (t @ s)" by (subst sub_from.simps) simp
  also have "sub_from r repl (Some c) (t @ s) = t @ sub_from r repl (after (Some c) t) s"
    by (rule Cons.IH, rule Cons.prems) (auto intro: exI [of _ "c # _"])
  finally show ?case by simp
qed simp

lemma after_snoc: "after b (s @ [c]) = Some c"
  by (induction s arbitrary: b) auto

lemma star_all: "list_all q s \<Longrightarrow> matches (Star (Chars q)) (b, s) (after b s, [])"
  by (induction s arbitrary: b) (auto intro: matches.intros)

lemma version_matches:
  assumes "version v" "\<not> (case b of None \<Rightarrow> False | Some c \<Rightarrow> is_word c)"
  shows "\<exists>p. matches version_re (b, v) p"
proof -
  obtain d rest where v: "v = CHR ''v'' # d # rest" "is_digit d" "list_all version_char rest" using assms(1) by (auto simp: version_def)
  let ?C = "\<lambda>c. is_digit c \<or> c = CHR ''.'' \<or> c = CHR ''-'' \<or> CHR ''a'' \<le> c \<and> c \<le> CHR ''z''"
  have C: "?C = version_char" by (rule ext) (simp add: version_char_def)
  have b: "at_boundary (b, v)" using assms(2) by (cases b) (auto simp: v is_word_def Let_def)
  have l: "matches (Lit ''v'') (b, v) (Some (CHR ''v''), d # rest)" using v by (auto intro!: matches.intros)
  have d: "matches digits1 (Some (CHR ''v''), d # rest) (Some d, rest)"
    unfolding digits1_def Plus_def by (rule matches.seq [OF matches.chars [of is_digit d, OF v(2)] matches.star_stop])
  have st: "matches (Star (Chars ?C)) (Some d, rest) (after (Some d) rest, [])" unfolding C by (rule star_all [OF v(3)])
  have e: "at_end (after (Some d) rest, [])" by (simp add: at_end_def)
  show ?thesis unfolding version_re_def Seqs.simps
    by (rule exI) (rule matches.seq [OF matches.boundary [OF b] matches.seq [OF l matches.seq [OF d matches.seq [OF st
      matches.seq [OF matches.end_ [OF e] matches.eps]]]]])
qed

lemma version_removed:
  assumes "version v" "\<not> (case b of None \<Rightarrow> False | Some c \<Rightarrow> is_word c)"
  shows "sub_from version_re [] b v = []"
proof -
  obtain p where "matches version_re (b, v) p" using version_matches [OF assms] by blast
  then have some: "p \<in> set (ends version_re (b, v))" by (rule ends_complete)
  have done_: "snd p' = []" if "p' \<in> set (ends version_re (b, v))" for p'
  proof -
    have m: "matches version_re (b, v) p'" using that by (rule ends_sound)
    obtain c where "v = c @ snd p'" using matches_consumes [OF m version_re_only] by auto
    then have "list_all version_char (snd p')" using version_chars [OF assms(1)] by (metis list_all_append)
    then show ?thesis using version_re_end [OF m] version_char_facts(3) [of "CHR 0x0A"] by (auto simp: at_end_def)
  qed
  have ne: "v \<noteq> []" using assms(1) by (auto simp: version_def)
  have "filter (\<lambda>p. length (snd p) < length v) (ends version_re (b, v)) = ends version_re (b, v)"
    using done_ ne by (auto simp: filter_id_conv)
  then show ?thesis using some done_ ne
    by (subst sub_from.simps) (auto split: list.splits simp: sub_from.simps [of _ _ _ "[]"])
qed

lemma strip_version:
  assumes "version v"
  shows "strip_str (s @ CHR '' '' # v) = (if lstrip_str s = [] then v else lstrip_str s @ CHR '' '' # v)"
proof -
  have last: "rstrip_str (t @ v) = t @ v" for t
  proof -
    obtain u c where v: "v = u @ [c]" "version_char c"
      using assms version_chars [OF assms] by (cases v rule: rev_cases) (auto simp: version_def)
    then show ?thesis using version_char_facts(2) [OF v(2)] by (simp add: rstrip_str_def)
  qed
  have first: "dropWhile is_space v = v" using assms version_char_facts(2) [of "CHR ''v''"] by (auto simp: version_def)
  show ?thesis
  proof (cases "lstrip_str s = []")
    case True
    then have "\<forall>c \<in> set s. is_space c" by (simp add: lstrip_str_def)
    then have "lstrip_str (s @ CHR '' '' # v) = v" using first by (simp add: lstrip_str_def is_space_def)
    then show ?thesis using True last [of "[]"] by (simp add: strip_str_def)
  next
    case False
    then have "lstrip_str (s @ CHR '' '' # v) = lstrip_str s @ CHR '' '' # v"
      by (auto simp: lstrip_str_def dropWhile_append)
    then show ?thesis using False last [of "lstrip_str s @ [CHR '' '']"] by (simp add: strip_str_def)
  qed
qed

lemma strip_snoc_space: "is_space c \<Longrightarrow> strip_str (s @ [c]) = strip_str s"
  by (cases "\<forall>x \<in> set s. is_space x") (auto simp: strip_str_def lstrip_str_def rstrip_str_def dropWhile_append1 dropWhile_append2 dest: set_dropWhileD)

lemma trigger_key_of_version:
  assumes "version v" "tc_message t = base @ CHR '' '' # v"
  shows "trigger_key t = strip_str (lstrip_str (lower_str base))"
proof -
  have low: "lower_str v = v"
    using version_chars [OF assms(1)] version_char_facts(1) by (auto simp: lower_str_def list_all_iff intro: map_idI)
  have msg: "strip_str (lower_str (tc_message t)) = (if lstrip_str (lower_str base) = [] then v else lstrip_str (lower_str base) @ CHR '' '' # v)"
    using strip_version [OF assms(1), of "lower_str base"] low by (simp add: assms(2) lower_str_def lower_char_def)
  show ?thesis
  proof (cases "lstrip_str (lower_str base) = []")
    case True
    have "re_sub version_re [] v = []" by (simp add: re_sub_def version_removed [OF assms(1)])
    with True show ?thesis by (simp add: trigger_key_def msg)
  next
    case False
    let ?s = "lstrip_str (lower_str base) @ [CHR '' '']"
    have none: "ends version_re (b', t' @ v) = []" if "t' \<noteq> []" "\<exists>u. ?s = u @ t'" for b' t'
    proof -
      from that obtain u where "t' = u @ [CHR '' '']" by (cases t' rule: rev_cases) auto
      then show ?thesis using no_match_over_space [OF version_chars [OF assms(1)], of b' u] ends_sound
        by (metis append.assoc append_Cons append_Nil list.set_intros(1) neq_Nil_conv)
    qed
    have "re_sub version_re [] (?s @ v) = ?s @ sub_from version_re [] (after None ?s) v"
      unfolding re_sub_def by (rule sub_from_copy) (rule none)
    also have "after None ?s = Some (CHR '' '')" by (rule after_snoc)
    also have "sub_from version_re [] (Some (CHR '' '')) v = []" by (rule version_removed [OF assms(1)]) (simp add: is_word_def)
    finally have "trigger_key t = strip_str (lstrip_str (lower_str base) @ [CHR '' ''])" using False by (simp add: trigger_key_def msg)
    then show ?thesis by (simp add: strip_snoc_space is_space_def)
  qed
qed

text \<open>
  A deploy is recognised across versions. Two trigger messages that differ only in a version word at the
  end have the same key, so neither is reported as present on one side only.
\<close>
theorem versions_compare_equal:
  assumes "version v" "version w" "tc_message t = base @ CHR '' '' # v" "tc_message u = base @ CHR '' '' # w"
  shows "trigger_key t = trigger_key u \<and> only_in side [t] [u] = [] \<and> only_in side' [u] [t] = []"
  using trigger_key_of_version [OF assms(1,3)] trigger_key_of_version [OF assms(2,4)] by (simp add: only_in_def)


section \<open>Examples\<close>

lemma quiet_cluster_plain: "collapse_clusters [quiet_cluster] = [quiet_cluster]"
proof -
  have "\<not> is_retry ''flag flipped''" "\<not> is_queue_growth ''flag flipped''" by code_simp+
  then show ?thesis by (simp add: collapse_clusters_def retry_cluster_def queue_cluster_def quiet_cluster_def)
qed

lemma quiet_facts: "cd_fingerprint quiet_cluster = ''f''" "cd_count quiet_cluster = 1"
  by (simp_all add: quiet_cluster_def)

lemma collapse_Nil: "collapse_clusters [] = []"
  by (simp add: collapse_clusters_def)

lemma quiet_fingerprints: "fingerprints [quiet_cluster] [] = {''f''}" "fingerprints [quiet_cluster] [quiet_cluster] = {''f''}"
  by (simp_all add: fingerprints_def quiet_cluster_plain by_fingerprint_def collapse_Nil quiet_facts)

lemma quiet_count: "count_in [quiet_cluster] fp = (if fp = ''f'' then Some 1 else None)" "count_in [] fp = None"
  by (simp_all add: count_in_def quiet_cluster_plain by_fingerprint_def dict_simps collapse_Nil quiet_facts)

theorem compare_windows_exact_witness:
  "df_fingerprint ` set (cr_new_clusters (compare_windows [''f''] [quiet_cluster] [] [] [])) = {''f''}
   \<and> map df_fingerprint (cr_disappeared_clusters (compare_windows [''f''] [quiet_cluster] [] [] [])) = []"
  using compare_windows_exact [of "[''f'']" "[quiet_cluster]" "[]" "[]" "[]"] by (simp add: quiet_fingerprints quiet_count Let_def)

theorem compare_mirror_witness:
  "map row_of (cr_disappeared_clusters (compare_windows [''f''] [] [quiet_cluster] [] [])) = [(''f'', None, Some 1)]"
proof -
  have "map row_of (cr_disappeared_clusters (compare_windows [''f''] [] [quiet_cluster] [] []))
      = map (swap_row \<circ> row_of) (cr_new_clusters (compare_windows [''f''] [quiet_cluster] [] [] []))"
    using compare_mirror [of "[''f'']" "[quiet_cluster]" "[]" "[]" "[]"] by (simp add: quiet_fingerprints Let_def quiet_facts)
  also have "\<dots> = map swap_row (map row_of (cr_new_clusters (compare_windows [''f''] [quiet_cluster] [] [] [])))" by simp
  also have "\<dots> = [(''f'', None, Some 1)]" unfolding list_rows by (simp add: diff_rows_def rows_towards_def quiet_count direction_of_def)
  finally show ?thesis .
qed

theorem compare_accounts_witness:
  "(\<Sum>d \<leftarrow> all_diffs (compare_windows [''f''] [quiet_cluster] [] [] []). or_zero (df_count_a d)) = 1"
  using compare_accounts [of "[''f'']" "[quiet_cluster]" "[]" "[]" "[]"] by (simp add: quiet_fingerprints quiet_cluster_plain quiet_facts)

theorem versions_compare_equal_witness:
  "trigger_key \<lparr>tc_message = ''Deploy api v2.4.1'', tc_timestamp = None, tc_service = None\<rparr>
     = trigger_key \<lparr>tc_message = ''Deploy api v2.3.9'', tc_timestamp = None, tc_service = None\<rparr>"
proof -
  have "version ''v2.4.1''" "version ''v2.3.9''" by (auto simp: version_def version_char_def is_digit_def)
  then show ?thesis
    using versions_compare_equal [of "''v2.4.1''" "''v2.3.9''" "\<lparr>tc_message = ''Deploy api v2.4.1'', tc_timestamp = None, tc_service = None\<rparr>" "''Deploy api''"
        "\<lparr>tc_message = ''Deploy api v2.3.9'', tc_timestamp = None, tc_service = None\<rparr>"] by simp
qed

end
