(* ===== verification/Normalization.thy ===== *)
theory Normalization
  imports Regexes
begin

text \<open>
  The normal form of a log message and its fingerprint (\<open>core/normalization\<close>): fifteen rewriting rules in
  their order, then white space. A rule is a pattern in two parts, of which the first is the group its
  replacement starts with (empty when it has none). The hash is a parameter.
\<close>

section \<open>Rules\<close>

definition in_range :: "char \<Rightarrow> char \<Rightarrow> char \<Rightarrow> bool" where
  "in_range a b c \<longleftrightarrow> (of_char a :: nat) \<le> of_char c \<and> (of_char c :: nat) \<le> of_char b"

definition letter :: "char \<Rightarrow> bool" where
  "letter c \<longleftrightarrow> in_range CHR ''a'' CHR ''z'' c \<or> in_range CHR ''A'' CHR ''Z'' c"

definition hex_letter :: "char \<Rightarrow> bool" where
  "hex_letter c \<longleftrightarrow> in_range CHR ''a'' CHR ''f'' c \<or> in_range CHR ''A'' CHR ''F'' c"

definition hex :: "char \<Rightarrow> bool" where
  "hex c \<longleftrightarrow> is_digit c \<or> hex_letter c"

definition alnum :: "char \<Rightarrow> bool" where
  "alnum c \<longleftrightarrow> letter c \<or> is_digit c"

text \<open>A class: letters, digits and the listed characters.\<close>

definition also_in :: "string \<Rightarrow> char \<Rightarrow> bool" where
  "also_in extra c \<longleftrightarrow> alnum c \<or> c \<in> set extra"

type_synonym rule = "regex \<times> regex \<times> string"

definition plain :: "regex list \<Rightarrow> string \<Rightarrow> rule" where
  "plain rs replacement = (Eps, Seqs rs, replacement)"

definition NORMALIZATION_RULES :: "rule list" where
  "NORMALIZATION_RULES =
     [plain [Boundary, Times 8 (Chars hex), Lit ''-'', Times 4 (Chars hex), Lit ''-'', Times 4 (Chars hex), Lit ''-'',
        Times 4 (Chars hex), Lit ''-'', Times 12 (Chars hex), Boundary] ''<uuid>'',
      plain [Lit ''eyJ'', AtLeast 20 (Chars (also_in ''_-'')), Lit ''.'', AtLeast 20 (Chars (also_in ''_-'')), Lit ''.'',
        AtLeast 10 (Chars (also_in ''_-''))] ''<jwt>'',
      plain [Boundary, Look (Seq (Star (Chars hex)) (Chars hex_letter)), AtLeast 8 (Chars hex), Boundary] ''<hex>'',
      plain [Boundary, AtLeast 32 (Chars (also_in ''_-'')), Boundary] ''<token>'',
      plain [Boundary, Times 3 (Seq (Between 1 3 (Chars is_digit)) (Lit ''.'')), Between 1 3 (Chars is_digit),
        Opt (Seq (Lit '':'') digits1), Boundary] ''<ip>'',
      plain [Boundary, Between 3 7 (Seq (Between 1 4 (Chars hex)) (Lit '':'')), Between 1 4 (Chars hex), Boundary] ''<ipv6>'',
      plain [Boundary, Plus (Chars (also_in ''._%+-'')), Lit ''@'', Plus (Chars (also_in ''.-'')), Lit ''.'',
        AtLeast 2 (Chars letter), Boundary] ''<email>'',
      (Seqs [Lit ''http'', Opt (Lit ''s''), Lit ''://'', Plus (Chars (\<lambda>c. \<not> is_space c \<and> c \<noteq> CHR ''?''))],
       Seq (Lit ''?'') (Star (Chars (\<lambda>c. \<not> is_space c))), ''?<params>''),
      (Seq Boundary (Alts (map Lit [''request_id'', ''req_id'', ''trace_id'', ''span_id'', ''correlation_id''])),
       Seq (Lit ''='') (Plus (Chars (\<lambda>c. \<not> is_space c))), ''=<*>''),
      (Seq Boundary (Alts (map LitI [''user'', ''account'', ''order'', ''transaction'', ''session'', ''job'', ''task'', ''worker'',
         ''tenant'', ''customer'', ''invoice''])),
       Seqs [Plus (Chars is_space), Opt (Seq (LitI ''id'') (Plus (Chars is_space))), Opt (Lit ''#''), digits1, Boundary], '' <id>''),
      plain [Boundary, digits1, Opt (Seq (Lit ''.'') digits1), Star (Chars is_space),
        Alts [Lit ''ms'', Lit ''s'', Lit ''sec'', Seq (Lit ''second'') (Opt (Lit ''s'')), Seq (Lit ''minute'') (Opt (Lit ''s'')),
          Lit ''min'', Seq (Lit ''hour'') (Opt (Lit ''s'')), Lit ''hr''], Boundary] ''<duration>'',
      plain [Lit '':'', Between 4 5 (Chars is_digit), Boundary] '':<port>'',
      plain [Boundary, AtLeast 5 (Chars is_digit), Boundary] ''<num>'',
      plain [Lit ''/'', AtLeast 3 (Seq (Plus (Chars (also_in ''_-.''))) (Lit ''/'')), Star (Chars (also_in ''_-.''))] ''<path>'',
      plain [Times 4 (Chars is_digit), Lit ''-'', Times 2 (Chars is_digit), Lit ''-'', Times 2 (Chars is_digit),
        Chars (\<lambda>c. c = CHR ''T'' \<or> c = CHR '' ''), Times 2 (Chars is_digit), Lit '':'', Times 2 (Chars is_digit), Lit '':'',
        Times 2 (Chars is_digit), Opt (Seq (Lit ''.'') digits1),
        Opt (Alts [Lit ''Z'', Seqs [Chars (\<lambda>c. c = CHR ''+'' \<or> c = CHR ''-''), Times 2 (Chars is_digit), Opt (Lit '':''), Times 2 (Chars is_digit)]])]
        ''<timestamp>'']"

section \<open>Rewriting\<close>

text \<open>Where the group and the whole match can end, in the order the engine tries them.\<close>

definition rule_ends :: "rule \<Rightarrow> position \<Rightarrow> (position \<times> position) list" where
  "rule_ends = (\<lambda>(grp, rest, replacement) p. concat (map (\<lambda>q. map (\<lambda>e. (q, e)) (ends rest q)) (ends grp p)))"

text \<open>\<open>pattern.sub(replacement, s)\<close>; no rule matches the empty text.\<close>

function rule_from :: "rule \<Rightarrow> char option \<Rightarrow> string \<Rightarrow> string" where
  "rule_from rule prev s =
     (case s of
        [] \<Rightarrow> []
      | c # s' \<Rightarrow>
          (case filter (\<lambda>(q, e). length (snd e) < length s) (rule_ends rule (prev, s)) of
             [] \<Rightarrow> c # rule_from rule (Some c) s'
           | (q, e) # _ \<Rightarrow>
               if length (snd e) < length s
               then take (length s - length (snd q)) s @ snd (snd rule) @ rule_from rule (fst e) (snd e)
               else []))"
  by pat_completeness auto
termination
  by (relation "measure (\<lambda>(rule, b, s). length s)") auto

declare rule_from.simps [simp del]

definition rule_sub :: "string \<Rightarrow> rule \<Rightarrow> string" where
  "rule_sub s rule = rule_from rule None s"

definition WHITESPACE_RE :: regex where "WHITESPACE_RE = Plus (Chars is_space)"

definition normalize_message :: "string \<Rightarrow> string" where
  "normalize_message message =
     (if message = [] then []
      else strip_str (re_sub WHITESPACE_RE '' '' (foldl rule_sub message NORMALIZATION_RULES)))"

section \<open>Fingerprints\<close>

text \<open>\<open>digest\<close> is the hexadecimal SHA-256 of a text.\<close>

definition compute_fingerprint :: "(string \<Rightarrow> string) \<Rightarrow> string \<Rightarrow> string" where
  "compute_fingerprint digest normalized = (if normalized = [] then ''empty'' else take 16 (digest normalized))"

definition fingerprint_message :: "(string \<Rightarrow> string) \<Rightarrow> string \<Rightarrow> string \<times> string" where
  "fingerprint_message digest raw = (let normalized = normalize_message raw in (normalized, compute_fingerprint digest normalized))"

section \<open>Digits carry no identity\<close>

text \<open>The text with every digit hidden; two texts are alike when they differ only in their digits.\<close>

definition mask :: "char \<Rightarrow> char" where "mask c = (if is_digit c then CHR ''0'' else c)"

definition alike :: "string \<Rightarrow> string \<Rightarrow> bool" where "alike s t \<longleftrightarrow> map mask s = map mask t"

fun mask_at :: "position \<Rightarrow> position" where
  "mask_at (b, s) = (map_option mask b, map mask s)"

text \<open>A pattern that cannot tell one digit from another.\<close>

fun blind :: "regex \<Rightarrow> bool" where
  "blind (Chars q) \<longleftrightarrow> (\<forall>c. q (mask c) = q c)"
| "blind (Seq r r') \<longleftrightarrow> blind r \<and> blind r'"
| "blind (Alt r r') \<longleftrightarrow> blind r \<and> blind r'"
| "blind (Star r) \<longleftrightarrow> blind r"
| "blind (Look r) \<longleftrightarrow> blind r"
| "blind _ \<longleftrightarrow> True"

lemma digit_zero [simp]: "is_digit (CHR ''0'')"
  by (simp add: is_digit_def)

lemma mask_facts [simp]: "mask (mask c) = mask c" "is_digit (mask c) = is_digit c" "is_space (mask c) = is_space c"
  "is_word (mask c) = is_word c" "letter (mask c) = letter c" "hex_letter (mask c) = hex_letter c"
proof -
  show "mask (mask c) = mask c" "is_digit (mask c) = is_digit c" by (simp_all add: mask_def)
  have "is_space c = is_space (CHR ''0'')" "is_word c = is_word (CHR ''0'')" "letter c = letter (CHR ''0'')" "hex_letter c = hex_letter (CHR ''0'')"
    if "is_digit c"
    using that by (auto simp: is_digit_def is_space_def is_word_def letter_def hex_letter_def in_range_def Let_def)
  then show "is_space (mask c) = is_space c" "is_word (mask c) = is_word c" "letter (mask c) = letter c" "hex_letter (mask c) = hex_letter c"
    by (auto simp: mask_def)
qed

lemma mask_eq: "\<not> is_digit d \<Longrightarrow> mask c = d \<longleftrightarrow> c = d"
  by (auto simp: mask_def)

lemma mask_mem: "list_all (\<lambda>d. \<not> is_digit d) ds \<Longrightarrow> mask c \<in> set ds \<longleftrightarrow> c \<in> set ds"
  by (auto simp: mask_def list_all_iff)

lemma class_blind [simp]: "hex (mask c) = hex c" "alnum (mask c) = alnum c"
  "list_all (\<lambda>d. \<not> is_digit d) ds \<Longrightarrow> also_in ds (mask c) = also_in ds c"
  by (simp_all add: hex_def alnum_def also_in_def mask_mem)

lemma length_mask_at [simp]: "length (snd (mask_at p)) = length (snd p)"
  by (cases p) simp

lemma at_boundary_mask: "at_boundary (mask_at p) = at_boundary p"
  by (cases p; cases "fst p"; cases "snd p") auto

lemma at_end_mask: "at_end (mask_at p) = at_end p"
  by (cases p) (auto simp: at_end_def mask_eq is_digit_def)

lemma ends_mask: "blind r \<Longrightarrow> ends r (mask_at p) = map mask_at (ends r p)"
proof (induction r p rule: ends.induct)
  case (2 q p)
  then show ?case by (cases p; cases "snd p") auto
next
  case (3 r1 r2 p)
  then have each: "map (ends r2) (map mask_at (ends r1 p)) = map (\<lambda>q. map mask_at (ends r2 q)) (ends r1 p)" by simp
  have "ends (Seq r1 r2) (mask_at p) = concat (map (ends r2) (map mask_at (ends r1 p)))" using 3 by simp
  also have "\<dots> = map mask_at (ends (Seq r1 r2) p)" unfolding each by (simp add: map_concat comp_def)
  finally show ?case .
next
  case (5 r p)
  have rec: "map (\<lambda>p'. if length (snd p') < length (snd p) then ends (Star r) p' else []) (map mask_at (ends r p))
      = map (map mask_at \<circ> (\<lambda>p'. if length (snd p') < length (snd p) then ends (Star r) p' else [])) (ends r p)"
    using 5 by simp
  have step: "ends r (mask_at p) = map mask_at (ends r p)" using 5 by simp
  have "ends (Star r) (mask_at p)
      = concat (map (\<lambda>p'. if length (snd p') < length (snd p) then ends (Star r) p' else []) (map mask_at (ends r p))) @ [mask_at p]"
    by (subst ends.simps(5)) (simp only: step length_mask_at)
  also have "\<dots> = map mask_at (ends (Star r) p)" unfolding rec by (subst ends.simps(5)) (simp add: map_concat comp_def)
  finally show ?case .
qed (auto simp: at_boundary_mask at_end_mask)

lemma blind_Lit: "list_all (\<lambda>d. \<not> is_digit d) s \<Longrightarrow> blind (Lit s)"
  by (induction s) (auto simp: mask_eq)

lemma lower_mask: "\<not> is_digit d \<Longrightarrow> \<not> is_digit (lower_char d) \<Longrightarrow> lower_char (mask c) = lower_char d \<longleftrightarrow> lower_char c = lower_char d"
proof (cases "is_digit c")
  case True
  then have "lower_char c = c" "lower_char (mask c) = mask c" by (auto simp: mask_def is_digit_def lower_char_def Let_def)
  moreover assume "\<not> is_digit (lower_char d)"
  moreover have "is_digit (mask c)" using True by simp
  ultimately show ?thesis using True by metis
qed (simp add: mask_def)

lemma blind_LitI: "list_all (\<lambda>d. \<not> is_digit d \<and> \<not> is_digit (lower_char d)) s \<Longrightarrow> blind (LitI s)"
  by (induction s) (auto simp: lower_mask)

lemma blind_Seqs [simp]: "blind (Seqs rs) \<longleftrightarrow> list_all blind rs"
  by (induction rs) auto

lemma blind_Alts [simp]: "blind (Alts rs) \<longleftrightarrow> list_all blind rs"
  by (induction rs rule: Alts.induct) auto

lemma blind_UpTo [simp]: "blind r \<Longrightarrow> blind (UpTo n r)"
  by (induction n) (auto simp: Opt_def)

lemma blind_derived [simp]: "blind (Plus r) \<longleftrightarrow> blind r" "blind (Opt r) \<longleftrightarrow> blind r" "blind r \<Longrightarrow> blind (Times n r)"
  "blind r \<Longrightarrow> blind (AtLeast n r)" "blind r \<Longrightarrow> blind (Between m n r)" "blind digits1"
  by (simp_all add: Plus_def Opt_def Times_def AtLeast_def Between_def digits1_def list_all_iff)

definition blind_rule :: "rule \<Rightarrow> bool" where
  "blind_rule = (\<lambda>(grp, rest, _). blind grp \<and> blind rest)"

lemma digit_char: "is_digit c \<longleftrightarrow> 48 \<le> (of_char c :: nat) \<and> (of_char c :: nat) \<le> 57"
  by (simp add: is_digit_def Let_def)

lemma blind_classes [simp]: "blind (Chars is_digit)" "blind (Chars hex)" "blind (Chars letter)" "blind (Chars hex_letter)" "blind (Chars is_space)"
  "blind (Chars (\<lambda>c. \<not> is_space c))" "list_all (\<lambda>d. \<not> is_digit d) ds \<Longrightarrow> blind (Chars (also_in ds))"
  by simp_all

lemma blind_choices [simp]: "blind (Chars (\<lambda>c. \<not> is_space c \<and> c \<noteq> CHR ''?''))" "blind (Chars (\<lambda>c. c = CHR ''T'' \<or> c = CHR '' ''))"
  "blind (Chars (\<lambda>c. c = CHR ''+'' \<or> c = CHR ''-''))"
  by (simp_all add: mask_eq digit_char)

lemma NORMALIZATION_RULES_blind: "list_all blind_rule NORMALIZATION_RULES"
  by (simp add: NORMALIZATION_RULES_def blind_rule_def plain_def blind_Lit blind_LitI lower_char_def mask_eq digit_char del: Lit.simps LitI.simps blind.simps(1))

lemma rule_ends_mask: "blind_rule rule \<Longrightarrow> rule_ends rule (mask_at p) = map (map_prod mask_at mask_at) (rule_ends rule p)"
  by (cases rule) (simp add: rule_ends_def blind_rule_def ends_mask map_concat comp_def)

lemma rule_from_mask:
  assumes "blind_rule rule"
  shows "map mask (rule_from rule (map_option mask b) (map mask s)) = map mask (rule_from rule b s)"
proof (induction "length s" arbitrary: b s rule: less_induct)
  case less
  show ?case
  proof (cases s)
    case Nil
    then show ?thesis by (simp add: rule_from.simps [of _ _ "[]"])
  next
    case (Cons c s')
    define L where "L = filter (\<lambda>(q, e). length (snd e) < length s) (rule_ends rule (b, s))"
    have masked: "filter (\<lambda>(q, e). length (snd e) < length s) (rule_ends rule (map_option mask b, map mask s)) = map (map_prod mask_at mask_at) L"
      using rule_ends_mask [OF assms, of "(b, s)"] by (simp add: L_def filter_map comp_def case_prod_unfold)
    show ?thesis
    proof (cases L)
      case Nil
      have "rule_from rule b s = c # rule_from rule (Some c) s'"
        using Nil unfolding L_def by (subst rule_from.simps) (simp add: Cons)
      moreover have "rule_from rule (map_option mask b) (map mask s) = mask c # rule_from rule (Some (mask c)) (map mask s')"
        using masked Nil by (subst rule_from.simps) (simp add: Cons)
      ultimately show ?thesis using less [of s' "Some c"] Cons by simp
    next
      case (Cons x rest)
      obtain q e where x: "x = (q, e)" by (cases x)
      obtain b' u where e: "e = (b', u)" by (cases e)
      obtain b'' w where q: "q = (b'', w)" by (cases q)
      have short: "length u < length s" using Cons x e unfolding L_def by (auto simp: filter_eq_Cons_iff)
      have "rule_from rule b s = take (length s - length w) s @ snd (snd rule) @ rule_from rule b' u"
        using Cons short \<open>s = c # s'\<close> unfolding L_def x e q by (subst rule_from.simps) simp
      moreover have "rule_from rule (map_option mask b) (map mask s)
          = take (length s - length w) (map mask s) @ snd (snd rule) @ rule_from rule (map_option mask b') (map mask u)"
        using masked short \<open>s = c # s'\<close> unfolding Cons x e q by (subst rule_from.simps) simp
      ultimately show ?thesis using less [OF short, of b'] by (simp add: take_map)
    qed
  qed
qed

lemma plain_rule: "rule_from (Eps, r, replacement) b s = sub_from r replacement b s"
proof (induction "length s" arbitrary: b s rule: less_induct)
  case less
  show ?case
  proof (cases s)
    case Nil
    then show ?thesis by (simp add: rule_from.simps [of _ _ "[]"] sub_from.simps [of _ _ _ "[]"])
  next
    case (Cons c s')
    define F where "F = filter (\<lambda>p. length (snd p) < length s) (ends r (b, s))"
    have found: "filter (\<lambda>(q, e). length (snd e) < length s) (rule_ends (Eps, r, replacement) (b, s)) = map (\<lambda>e. ((b, s), e)) F"
      by (simp add: rule_ends_def F_def filter_map comp_def)
    show ?thesis
    proof (cases F)
      case Nil
      have "rule_from (Eps, r, replacement) b s = c # rule_from (Eps, r, replacement) (Some c) s'"
        using found Nil by (subst rule_from.simps) (simp add: Cons)
      moreover have "sub_from r replacement b s = c # sub_from r replacement (Some c) s'"
        using Nil unfolding F_def by (subst sub_from.simps) (simp add: Cons)
      ultimately show ?thesis using less [of s' "Some c"] Cons by simp
    next
      case (Cons e rest)
      have short: "length (snd e) < length s" using Cons unfolding F_def by (auto simp: filter_eq_Cons_iff)
      have "rule_from (Eps, r, replacement) b s = replacement @ rule_from (Eps, r, replacement) (fst e) (snd e)"
        using found short \<open>s = c # s'\<close> unfolding Cons by (subst rule_from.simps) simp
      moreover have "sub_from r replacement b s = replacement @ sub_from r replacement (fst e) (snd e)"
        using Cons short \<open>s = c # s'\<close> unfolding F_def by (subst sub_from.simps) simp
      ultimately show ?thesis using less [OF short] by simp
    qed
  qed
qed

lemma alike_rule: "blind_rule rule \<Longrightarrow> alike s t \<Longrightarrow> alike (rule_sub s rule) (rule_sub t rule)"
  using rule_from_mask [of rule None] unfolding alike_def rule_sub_def by (metis option.map(1))

lemma alike_rules: "list_all blind_rule rules \<Longrightarrow> alike s t \<Longrightarrow> alike (foldl rule_sub s rules) (foldl rule_sub t rules)"
  by (induction rules arbitrary: s t) (auto intro: alike_rule)

lemma alike_whitespace: "alike s t \<Longrightarrow> alike (re_sub WHITESPACE_RE '' '' s) (re_sub WHITESPACE_RE '' '' t)"
  using alike_rule [of "(Eps, WHITESPACE_RE, '' '')" s t] by (simp add: blind_rule_def WHITESPACE_RE_def rule_sub_def plain_rule re_sub_def)

lemma strip_mask: "strip_str (map mask s) = map mask (strip_str s)"
  by (simp add: strip_str_def lstrip_str_def rstrip_str_def dropWhile_map rev_map comp_def)

lemma alike_normal: "alike s t \<Longrightarrow> alike (normalize_message s) (normalize_message t)"
proof -
  assume a: "alike s t"
  let ?n = "\<lambda>s. re_sub WHITESPACE_RE '' '' (foldl rule_sub s NORMALIZATION_RULES)"
  have "alike (?n s) (?n t)" by (intro alike_whitespace alike_rules NORMALIZATION_RULES_blind a)
  then have "alike (strip_str (?n s)) (strip_str (?n t))" unfolding alike_def strip_mask [symmetric] by simp
  moreover have "s = [] \<longleftrightarrow> t = []" using a by (auto simp: alike_def)
  ultimately show ?thesis by (auto simp: normalize_message_def alike_def)
qed

lemma alike_no_digits: "alike s t \<Longrightarrow> list_all (\<lambda>c. \<not> is_digit c) s \<Longrightarrow> s = t"
  unfolding alike_def by (induction s arbitrary: t) (auto simp: mask_def split: if_splits)


section \<open>Normal forms are clean\<close>

lemma dropWhile_less [termination_simp]: "length (dropWhile q s) < Suc (length s)"
  by (simp add: length_dropWhile_le le_imp_less_Suc)

fun squeeze :: "string \<Rightarrow> string" where
  "squeeze [] = []"
| "squeeze (c # s) = (if is_space c then CHR '' '' # squeeze (dropWhile is_space s) else c # squeeze s)"

lemma star_greedy: "\<exists>b' rest. ends (Star (Chars q)) (b, s) = (b', dropWhile q s) # rest"
proof (induction s arbitrary: b)
  case (Cons c s)
  then show ?case by (subst ends.simps(5)) (auto, metis append_Cons)
qed (subst ends.simps(5), simp)

lemma whitespace_squeezes: "sub_from WHITESPACE_RE '' '' b s = squeeze s"
proof (induction s arbitrary: b rule: squeeze.induct)
  case (2 c s)
  show ?case
  proof (cases "is_space c")
    case True
    obtain b' rest where e: "ends (Star (Chars is_space)) (Some c, s) = (b', dropWhile is_space s) # rest" using star_greedy by blast
    have "length (dropWhile is_space s) < length (c # s)" using length_dropWhile_le [of is_space s] by (simp add: le_imp_less_Suc)
    then show ?thesis using True 2(1) e by (subst sub_from.simps) (simp add: WHITESPACE_RE_def Plus_def)
  next
    case False
    then show ?thesis using 2(2) by (subst sub_from.simps) (simp add: WHITESPACE_RE_def Plus_def)
  qed
qed (simp add: sub_from.simps)

text \<open>Single spaces only, none at either end.\<close>

fun tidy :: "string \<Rightarrow> bool" where
  "tidy [] \<longleftrightarrow> True"
| "tidy [c] \<longleftrightarrow> \<not> is_space c"
| "tidy (c # d # s) \<longleftrightarrow> (is_space c \<longrightarrow> c = CHR '' '' \<and> \<not> is_space d) \<and> tidy (d # s)"

fun spaced :: "string \<Rightarrow> bool" where
  "spaced (c # d # s) \<longleftrightarrow> (is_space c \<longrightarrow> c = CHR '' '' \<and> \<not> is_space d) \<and> spaced (d # s)"
| "spaced [c] \<longleftrightarrow> (is_space c \<longrightarrow> c = CHR '' '')"
| "spaced [] \<longleftrightarrow> True"

lemma spaced_Cons: "spaced (c # s) \<longleftrightarrow> (is_space c \<longrightarrow> c = CHR '' '' \<and> (s = [] \<or> \<not> is_space (hd s))) \<and> spaced s"
  by (cases s) auto

lemma squeeze_spaced: "spaced (squeeze s) \<and> (squeeze s \<noteq> [] \<longrightarrow> is_space (hd (squeeze s)) = is_space (hd s))"
proof (induction s rule: squeeze.induct)
  case (2 c s)
  have blank: "is_space CHR '' ''" by (simp add: is_space_def)
  show ?case
  proof (cases "is_space c")
    case True
    define t where "t = dropWhile is_space s"
    have "\<not> is_space (hd t)" if "t \<noteq> []" using hd_dropWhile that unfolding t_def by blast
    moreover have "squeeze t \<noteq> [] \<longrightarrow> t \<noteq> []" by (cases t) auto
    ultimately show ?thesis using True 2(1) blank by (auto simp: spaced_Cons simp flip: t_def)
  next
    case False
    then show ?thesis using 2(2) by (auto simp: spaced_Cons)
  qed
qed simp

lemma spaced_dropWhile: "spaced s \<Longrightarrow> spaced (dropWhile P s)"
  by (induction s) (auto simp: spaced_Cons)

lemma spaced_rev: "spaced (s @ [c]) \<longleftrightarrow> spaced s \<and> (is_space c \<longrightarrow> c = CHR '' '' \<and> (s = [] \<or> \<not> is_space (last s)))"
  by (induction s rule: spaced.induct) auto

lemma spaced_of_rev: "spaced (rev s) \<longleftrightarrow> spaced s"
proof (induction s)
  case (Cons c s)
  then show ?case by (auto simp: spaced_rev spaced_Cons last_rev)
qed simp

lemma tidy_iff: "tidy s \<longleftrightarrow> spaced s \<and> (s = [] \<or> \<not> is_space (last s))"
  by (induction s rule: tidy.induct) auto

text \<open>
  A normal form is tidy: every white space in it is one blank between two other characters, and it
  neither starts nor ends with one, whatever the message contained.
\<close>
theorem normalize_tidy:
  "tidy (normalize_message m) \<and> strip_str (normalize_message m) = normalize_message m"
proof -
  let ?s = "squeeze (foldl rule_sub m NORMALIZATION_RULES)"
  have n: "m \<noteq> [] \<Longrightarrow> normalize_message m = strip_str ?s"
    by (simp add: normalize_message_def re_sub_def whitespace_squeezes)
  have "spaced (strip_str ?s)"
    unfolding strip_str_def lstrip_str_def rstrip_str_def using squeeze_spaced by (simp add: spaced_of_rev spaced_dropWhile)
  then have "tidy (strip_str ?s)" using strip_ends [of ?s] by (auto simp: tidy_iff)
  show ?thesis
  proof (cases "m = []")
    case True
    then show ?thesis by (simp add: normalize_message_def strip_id)
  next
    case False
    from \<open>tidy (strip_str ?s)\<close> show ?thesis unfolding n [OF False] by (simp only: strip_strip)
  qed
qed

section \<open>Examples\<close>

lemma job_normalized: "normalize_message ''job 7'' = ''job <id>''"
  by code_simp


text \<open>
  The rule for time stamps comes after the rule for long numbers, which takes the microseconds of a stamp
  with a numeric offset first: two stamps of the same instant format to different texts.
\<close>

lemma timestamp_split_by_number:
  "foldl rule_sub ''2026-03-12T22:01:10.123456+00:00'' (drop 12 NORMALIZATION_RULES) = ''<timestamp>.<num>+00:00''"
  "foldl rule_sub ''2026-03-12T22:01:10.123+00:00'' (drop 12 NORMALIZATION_RULES) = ''<timestamp>''"
  by code_simp+

end
