(* ===== verification/Parsing.thy ===== *)
theory Parsing
  imports Normalization TimeWindows
begin

text \<open>
  The parsers of log lines (\<open>core/parsing\<close>): the aliases of the known fields, time stamps, JSON lines and
  plain-text lines with their container prefixes. Third-party code is a parameter, gathered in a record:
  the JSON decoder (nothing when it raises), \<open>datetime.fromisoformat\<close> and \<open>dateutil.parser.parse\<close> (the
  instant in microseconds, nothing when they raise) and the printing of floats and containers. The text of a
  parse error is its constant prefix.
\<close>

record libraries =
  json_loads :: "string \<Rightarrow> pyval option"
  fromisoformat :: "string \<Rightarrow> int option"
  dateutil_parse :: "string \<Rightarrow> int option"
  py_repr :: "pyval \<Rightarrow> string"

section \<open>Known fields\<close>

definition TIMESTAMP_FIELDS :: "string list" where
  "TIMESTAMP_FIELDS = [''timestamp'', ''ts'', ''time'', ''@timestamp'', ''datetime'', ''date'', ''log_timestamp'']"
definition MESSAGE_FIELDS :: "string list" where
  "MESSAGE_FIELDS = [''message'', ''msg'', ''log'', ''text'', ''body'', ''content'', ''log_message'']"
definition LEVEL_FIELDS :: "string list" where
  "LEVEL_FIELDS = [''level'', ''severity'', ''log_level'', ''loglevel'', ''lvl'', ''priority'']"
definition SERVICE_FIELDS :: "string list" where
  "SERVICE_FIELDS = [''service'', ''app'', ''logger'', ''component'', ''application'', ''service_name'', ''app_name'', ''source'']"
definition ENVIRONMENT_FIELDS :: "string list" where
  "ENVIRONMENT_FIELDS = [''environment'', ''env'', ''deployment'', ''stage'', ''namespace'']"
definition TRACE_ID_FIELDS :: "string list" where
  "TRACE_ID_FIELDS = [''trace_id'', ''traceId'', ''trace'', ''x_trace_id'', ''X-Trace-Id'']"
definition REQUEST_ID_FIELDS :: "string list" where
  "REQUEST_ID_FIELDS = [''request_id'', ''requestId'', ''req_id'', ''reqId'', ''correlation_id'', ''correlationId'']"
definition HOST_FIELDS :: "string list" where
  "HOST_FIELDS = [''host'', ''hostname'', ''server'', ''instance'', ''pod'', ''node'']"

definition LEVEL_NORMALIZATIONS :: "(string, string) dict" where
  "LEVEL_NORMALIZATIONS =
     [(''fatal'', ''fatal''), (''critical'', ''fatal''), (''crit'', ''fatal''), (''error'', ''error''), (''err'', ''error''),
      (''warn'', ''warn''), (''warning'', ''warn''), (''info'', ''info''), (''information'', ''info''), (''informational'', ''info''),
      (''debug'', ''debug''), (''dbg'', ''debug''), (''trace'', ''debug''), (''verbose'', ''debug'')]"

type_synonym json_object = "(string, pyval) dict"

text \<open>The first alias with a value: the exact key before one that differs in case.\<close>

fun extract_field :: "json_object \<Rightarrow> string list \<Rightarrow> pyval" where
  "extract_field data [] = VNone"
| "extract_field data (f # fs) =
     (case dget data f of
        Some v \<Rightarrow> v
      | None \<Rightarrow>
          (case find (\<lambda>(k, _). lower_str k = lower_str f) data of
             Some (k, _) \<Rightarrow> the (dget data k)
           | None \<Rightarrow> extract_field data fs))"

definition normalize_level :: "string \<Rightarrow> string" where
  "normalize_level level_str =
     (if level_str = [] then ''info''
      else dget_or LEVEL_NORMALIZATIONS (strip_str (lower_str level_str)) (strip_str (lower_str level_str)))"

definition get_field :: "json_object \<Rightarrow> string \<Rightarrow> pyval" where
  "get_field d k = dget_or d k VNone"

definition first_of :: "json_object \<Rightarrow> string list \<Rightarrow> pyval" where
  "first_of d ks = foldr (\<lambda>k v. py_or (get_field d k) v) (butlast ks) (get_field d (last ks))"

record k8s_fields =
  k8_service :: pyval
  k8_environment :: pyval
  k8_host :: pyval

definition extract_kubernetes_fields :: "json_object \<Rightarrow> k8s_fields" where
  "extract_kubernetes_fields data =
     (case get_field data ''kubernetes'' of
        VDict k8s \<Rightarrow>
          (let labels = py_or (first_of k8s [''labels'', ''pod_labels'']) (VDict []);
               service = (case labels of VDict ls \<Rightarrow> first_of ls [''app'', ''app.kubernetes.io/name'', ''k8s-app''] | _ \<Rightarrow> VNone) in
           \<lparr>k8_service = py_or service (first_of k8s [''container_name'', ''container'']),
            k8_environment = first_of k8s [''namespace_name'', ''pod_namespace'', ''namespace''],
            k8_host = first_of k8s [''pod_name'', ''pod'', ''host'']\<rparr>)
      | _ \<Rightarrow> \<lparr>k8_service = VNone, k8_environment = VNone, k8_host = VNone\<rparr>)"

record line_fields =
  fd_timestamp_raw :: pyval
  fd_message :: pyval
  fd_level :: "string option"
  fd_service :: pyval
  fd_environment :: pyval
  fd_trace_id :: pyval
  fd_request_id :: pyval
  fd_host :: pyval
  fd_extra :: json_object

definition known_fields :: "string list" where
  "known_fields = TIMESTAMP_FIELDS @ MESSAGE_FIELDS @ LEVEL_FIELDS @ SERVICE_FIELDS @ ENVIRONMENT_FIELDS
     @ TRACE_ID_FIELDS @ REQUEST_ID_FIELDS @ HOST_FIELDS"

definition extract_all_fields :: "libraries \<Rightarrow> json_object \<Rightarrow> line_fields" where
  "extract_all_fields lib data =
     (let k8s = extract_kubernetes_fields data; level_raw = extract_field data LEVEL_FIELDS in
      \<lparr>fd_timestamp_raw = extract_field data TIMESTAMP_FIELDS,
       fd_message = extract_field data MESSAGE_FIELDS,
       fd_level = (if py_truthy level_raw then Some (normalize_level (py_str (py_repr lib) level_raw)) else None),
       fd_service = py_or (extract_field data SERVICE_FIELDS) (k8_service k8s),
       fd_environment = py_or (extract_field data ENVIRONMENT_FIELDS) (k8_environment k8s),
       fd_trace_id = extract_field data TRACE_ID_FIELDS,
       fd_request_id = extract_field data REQUEST_ID_FIELDS,
       fd_host = py_or (extract_field data HOST_FIELDS) (k8_host k8s),
       fd_extra = filter (\<lambda>(k, _). k \<notin> set known_fields) data\<rparr>)"

section \<open>Time stamps\<close>

text \<open>\<open>datetime.fromtimestamp\<close> in UTC: microseconds, within the years 1 to 9999.\<close>

definition fromtimestamp :: "real \<Rightarrow> int option" where
  "fromtimestamp x =
     (let us = round_half_even (x * 1000000) in
      if - 62135596800000000 \<le> us \<and> us < 253402300800000000 then Some us else None)"

definition numeric_timestamp :: "pyfloat \<Rightarrow> int option" where
  "numeric_timestamp v = (case v of Fin x \<Rightarrow> fromtimestamp (if 1000000000000 < x then x / 1000 else x) | _ \<Rightarrow> None)"

text \<open>The value of a decimal numeral \<open>-?\d+(\.\d+)?\<close>.\<close>

definition digits_value :: "string \<Rightarrow> nat" where
  "digits_value ds = foldl (\<lambda>n c. 10 * n + (of_char c - 48)) 0 ds"

definition decimal_value :: "string \<Rightarrow> real" where
  "decimal_value s =
     (let neg = startswith s ''-''; t = (if neg then tl s else s);
          whole = takeWhile is_digit t; frac = filter is_digit (dropWhile is_digit t);
          v = of_nat (digits_value whole) + of_nat (digits_value frac) / 10 ^ length frac in
      if neg then - v else v)"

definition decimal_re :: regex where
  "decimal_re = Seqs [Opt (Lit ''-''), digits1, Opt (Seq (Lit ''.'') digits1)]"

text \<open>\<open>re.fullmatch\<close>, and the text of the leftmost match.\<close>

definition re_fullmatch :: "regex \<Rightarrow> string \<Rightarrow> bool" where
  "re_fullmatch r s = list_ex (\<lambda>p. snd p = []) (ends r (None, s))"

fun find_text :: "regex \<Rightarrow> char option \<Rightarrow> string \<Rightarrow> string option" where
  "find_text r prev [] = (case ends r (prev, []) of [] \<Rightarrow> None | _ \<Rightarrow> Some [])"
| "find_text r prev (c # s) =
     (case ends r (prev, c # s) of
        [] \<Rightarrow> find_text r (Some c) s
      | p # _ \<Rightarrow> Some (take (length (c # s) - length (snd p)) (c # s)))"

definition digit :: regex where "digit = Chars is_digit"
definition fraction_re :: regex where "fraction_re = Opt (Seq (Lit ''.'') digits1)"
definition clock_re :: regex where
  "clock_re = Seqs [Times 2 digit, Lit '':'', Times 2 digit, Lit '':'', Times 2 digit]"
definition date_re :: regex where
  "date_re = Seqs [Times 4 digit, Lit ''-'', Times 2 digit, Lit ''-'', Times 2 digit]"
definition sign_re :: regex where "sign_re = Chars (\<lambda>c. c = CHR ''+'' \<or> c = CHR ''-'')"
definition epoch_re :: regex where "epoch_re = Seqs [Lit ''1'', Chars (in_range CHR ''5'' CHR ''9''), Times 8 digit]"

definition TIMESTAMP_PATTERNS :: "regex list" where
  "TIMESTAMP_PATTERNS =
     [Seqs [date_re, Lit ''T'', clock_re, fraction_re,
        Alts [Lit ''Z'', Seqs [sign_re, Times 2 digit, Opt (Lit '':''), Times 2 digit]]],
      Seqs [date_re, Lit ''T'', clock_re, fraction_re],
      Seqs [date_re, Lit '' '', clock_re, fraction_re],
      Seqs [Times 2 digit, Lit ''/'', Times 3 (Chars is_word), Lit ''/'', Times 4 digit, Lit '':'', clock_re, Lit '' '', sign_re, Times 4 digit],
      Seqs [Boundary, epoch_re, fraction_re, Boundary]]"

definition stamp_of :: "libraries \<Rightarrow> string \<Rightarrow> int option" where
  "stamp_of lib raw =
     (if ends epoch_re (None, raw) \<noteq> [] then fromtimestamp (decimal_value raw) else dateutil_parse lib raw)"

fun extract_with :: "libraries \<Rightarrow> regex list \<Rightarrow> string \<Rightarrow> int option" where
  "extract_with lib [] text = None"
| "extract_with lib (r # rs) text =
     (case Option.bind (find_text r None text) (stamp_of lib) of Some t \<Rightarrow> Some t | None \<Rightarrow> extract_with lib rs text)"

definition extract_timestamp :: "libraries \<Rightarrow> string \<Rightarrow> int option" where
  "extract_timestamp lib text = extract_with lib TIMESTAMP_PATTERNS text"

definition parse_timestamp_field :: "libraries \<Rightarrow> pyval \<Rightarrow> int option" where
  "parse_timestamp_field lib v =
     (case v of
        VBool b \<Rightarrow> numeric_timestamp (Fin (if b then 1 else 0))
      | VNum n \<Rightarrow> numeric_timestamp (fl_of_num n)
      | VStr s \<Rightarrow>
          (case fromisoformat lib (rewrite_iso_z s) of
             Some t \<Rightarrow> Some t
           | None \<Rightarrow>
               (case dateutil_parse lib s of
                  Some t \<Rightarrow> Some t
                | None \<Rightarrow>
                    (if re_fullmatch decimal_re (strip_str s) then numeric_timestamp (Fin (decimal_value (strip_str s)))
                     else extract_timestamp lib s)))
      | _ \<Rightarrow> None)"

section \<open>JSON lines\<close>

record parsed_line =
  pl_raw_line :: string
  pl_timestamp :: "int option"
  pl_level :: "string option"
  pl_service :: "string option"
  pl_environment :: "string option"
  pl_trace_id :: "string option"
  pl_request_id :: "string option"
  pl_host :: "string option"
  pl_message :: "string option"
  pl_extra :: json_object
  pl_parser_type :: string
  pl_parse_error :: "string option"

definition blank_line :: "string \<Rightarrow> string \<Rightarrow> parsed_line" where
  "blank_line line ptype =
     \<lparr>pl_raw_line = line, pl_timestamp = None, pl_level = None, pl_service = None, pl_environment = None, pl_trace_id = None,
      pl_request_id = None, pl_host = None, pl_message = None, pl_extra = [], pl_parser_type = ptype, pl_parse_error = None\<rparr>"

definition str_if :: "libraries \<Rightarrow> pyval \<Rightarrow> string option" where
  "str_if lib v = (if py_truthy v then Some (py_str (py_repr lib) v) else None)"

definition str_not_none :: "libraries \<Rightarrow> pyval \<Rightarrow> string option" where
  "str_not_none lib v = (if v = VNone then None else Some (py_str (py_repr lib) v))"

definition parse_json_line :: "libraries \<Rightarrow> string \<Rightarrow> string option \<Rightarrow> parsed_line option" where
  "parse_json_line lib line0 default_service =
     (let line = strip_str line0 in
      if line = [] then None
      else
        Some (case json_loads lib line of
           None \<Rightarrow> (blank_line line ''json'')\<lparr>pl_parse_error := Some ''JSON parse error''\<rparr>
         | Some (VDict data) \<Rightarrow>
             (let fields = extract_all_fields lib data in
              \<lparr>pl_raw_line = line,
               pl_timestamp = (if fd_timestamp_raw fields = VNone then None else parse_timestamp_field lib (fd_timestamp_raw fields)),
               pl_level = fd_level fields,
               pl_service = str_not_none lib (py_or (fd_service fields) (opt_str default_service)),
               pl_environment = str_if lib (fd_environment fields),
               pl_trace_id = str_if lib (fd_trace_id fields),
               pl_request_id = str_if lib (fd_request_id fields),
               pl_host = str_if lib (fd_host fields),
               pl_message = Some (case str_not_none lib (fd_message fields) of Some m \<Rightarrow> m | None \<Rightarrow> line),
               pl_extra = fd_extra fields, pl_parser_type = ''json'', pl_parse_error = None\<rparr>)
         | Some _ \<Rightarrow> (blank_line line ''json'')\<lparr>pl_parse_error := Some ''JSON line is not an object''\<rparr>))"

section \<open>Plain text\<close>

text \<open>
  \<open>pattern.match(s)\<close> for a pattern given in parts: the text each part matches in the first match of the
  whole. A part is a group of the source's pattern or the text between two groups.
\<close>

fun part_ends :: "regex list \<Rightarrow> position \<Rightarrow> position list list" where
  "part_ends [] p = [[]]"
| "part_ends (r # rs) p = concat (map (\<lambda>q. map ((#) q) (part_ends rs q)) (ends r p))"

fun texts_between :: "string \<Rightarrow> position list \<Rightarrow> string list" where
  "texts_between s [] = []"
| "texts_between s (q # qs) = take (length s - length (snd q)) s # texts_between (snd q) qs"

definition match_parts :: "regex list \<Rightarrow> string \<Rightarrow> string list option" where
  "match_parts rs s = (case part_ends rs (None, s) of [] \<Rightarrow> None | qs # _ \<Rightarrow> Some (texts_between s qs))"

definition level_re :: regex where
  "level_re = Alts [LitI ''FATAL'', LitI ''CRITICAL'', LitI ''ERROR'', LitI ''ERR'', Seq (LitI ''WARN'') (Opt (LitI ''ING'')),
     Seq (LitI ''INFO'') (Opt (Seq (LitI ''RMATION'') (Opt (LitI ''AL'')))), LitI ''DEBUG'', LitI ''TRACE'', LitI ''VERBOSE'']"

definition bracket_level_re :: regex where
  "bracket_level_re = Alts [LitI ''FATAL'', LitI ''CRITICAL'', LitI ''ERROR'', LitI ''ERR'', Seq (LitI ''WARN'') (Opt (LitI ''ING'')),
     LitI ''INFO'', LitI ''DEBUG'', LitI ''TRACE'']"

definition gap :: regex where "gap = Plus (Chars is_space)"
definition token1 :: regex where "token1 = Plus (Chars (\<lambda>c. \<not> is_space c))"
definition stamp_token :: regex where "stamp_token = Seq token1 (Opt (Seq (Chars is_space) token1))"
definition not_newline :: "char \<Rightarrow> bool" where "not_newline c \<longleftrightarrow> c \<noteq> CHR 0x0A"
definition rest1 :: regex where "rest1 = Plus (Chars not_newline)"
definition rest0 :: regex where "rest0 = Star (Chars not_newline)"
definition name1 :: regex where "name1 = Plus (Chars (\<lambda>c. is_word c \<or> c = CHR ''.'' \<or> c = CHR ''-''))"
definition this :: "char \<Rightarrow> regex" where "this c = Chars (\<lambda>x. x = c)"

definition STRUCTURED_TEXT_PATTERN :: "regex list" where
  "STRUCTURED_TEXT_PATTERN = [stamp_token, gap, level_re, gap, token1, gap, rest1, End]"
definition LEVEL_SERVICE_PATTERN :: "regex list" where
  "LEVEL_SERVICE_PATTERN = [level_re, gap, token1, gap, rest1, End]"
definition TS_LEVEL_MESSAGE_PATTERN :: "regex list" where
  "TS_LEVEL_MESSAGE_PATTERN = [stamp_token, gap, level_re, gap, rest1, End]"
definition BRACKET_PATTERN :: "regex list" where
  "BRACKET_PATTERN = [this CHR ''['', Plus (Chars (\<lambda>c. c \<noteq> CHR '']'')), this CHR '']'', Star (Chars is_space), Opt (this CHR ''[''),
     bracket_level_re, Opt (this CHR '']''), Star (Chars is_space), rest1, End]"
definition CRI_PATTERN :: "regex list" where
  "CRI_PATTERN = [Seqs [date_re, Lit ''T'', clock_re, fraction_re, Alts [Lit ''Z'', Seqs [sign_re, Times 2 digit, Lit '':'', Times 2 digit]]],
     gap, Alts [Lit ''stdout'', Lit ''stderr''], gap, Chars (\<lambda>c. c = CHR ''F'' \<or> c = CHR ''P''), gap, rest0, End]"

text \<open>The optional namespace of the container prefix is tried first.\<close>

definition NAMESPACED_PREFIX_PATTERN :: "regex list" where
  "NAMESPACED_PREFIX_PATTERN = [this CHR ''['', name1, this CHR ''/'', name1, this CHR ''/'', name1, this CHR '']'', gap, rest0, End]"
definition POD_PREFIX_PATTERN :: "regex list" where
  "POD_PREFIX_PATTERN = [this CHR ''['', name1, this CHR ''/'', name1, this CHR '']'', gap, rest0, End]"

record kubectl_prefix =
  kp_namespace :: "string option"
  kp_pod :: string
  kp_container :: string
  kp_rest :: string

definition kubectl_match :: "string \<Rightarrow> kubectl_prefix option" where
  "kubectl_match s =
     (case match_parts NAMESPACED_PREFIX_PATTERN s of
        Some ts \<Rightarrow> Some \<lparr>kp_namespace = Some (ts ! 1), kp_pod = ts ! 3, kp_container = ts ! 5, kp_rest = ts ! 8\<rparr>
      | None \<Rightarrow>
          (case match_parts POD_PREFIX_PATTERN s of
             Some ts \<Rightarrow> Some \<lparr>kp_namespace = None, kp_pod = ts ! 1, kp_container = ts ! 3, kp_rest = ts ! 6\<rparr>
           | None \<Rightarrow> None))"

definition level_anywhere :: regex where "level_anywhere = Seqs [Boundary, level_re, Boundary]"

definition ts_prefix_re :: "string \<Rightarrow> regex" where
  "ts_prefix_re line = (if CHR '' '' \<in> set (take 30 line) then Seq stamp_token (Star (Chars is_space)) else Seq token1 (Star (Chars is_space)))"

text \<open>The line without the part its start that the pattern matches.\<close>

definition cut_prefix :: "regex \<Rightarrow> string \<Rightarrow> string" where
  "cut_prefix r s = (case ends r (None, s) of [] \<Rightarrow> s | p # _ \<Rightarrow> snd p)"

record text_parts =
  tp_timestamp :: "int option"
  tp_level :: "string option"
  tp_service :: "string option"
  tp_message :: string

definition text_parts_of :: "libraries \<Rightarrow> bool \<Rightarrow> bool \<Rightarrow> string \<Rightarrow> text_parts" where
  "text_parts_of lib infer_service cri_unwrapped line =
     (case (if infer_service then match_parts STRUCTURED_TEXT_PATTERN line else None) of
        Some m \<Rightarrow> \<lparr>tp_timestamp = extract_timestamp lib (m ! 0), tp_level = Some (normalize_level (m ! 2)), tp_service = Some (m ! 4),
                   tp_message = strip_str (m ! 6)\<rparr>
      | None \<Rightarrow>
          (case (if infer_service \<and> cri_unwrapped then match_parts LEVEL_SERVICE_PATTERN line else None) of
             Some m \<Rightarrow> \<lparr>tp_timestamp = None, tp_level = Some (normalize_level (m ! 0)), tp_service = Some (m ! 2), tp_message = strip_str (m ! 4)\<rparr>
           | None \<Rightarrow>
               (case (if \<not> infer_service then match_parts TS_LEVEL_MESSAGE_PATTERN line else None) of
                  Some m \<Rightarrow> \<lparr>tp_timestamp = extract_timestamp lib (m ! 0), tp_level = Some (normalize_level (m ! 2)), tp_service = None,
                             tp_message = strip_str (m ! 4)\<rparr>
                | None \<Rightarrow>
                    (case match_parts BRACKET_PATTERN line of
                       Some m \<Rightarrow> \<lparr>tp_timestamp = extract_timestamp lib (m ! 1), tp_level = Some (normalize_level (m ! 5)), tp_service = None,
                                  tp_message = strip_str (m ! 8)\<rparr>
                     | None \<Rightarrow>
                         (let ts = extract_timestamp lib line in
                          \<lparr>tp_timestamp = ts, tp_level = map_option normalize_level (find_text level_anywhere None line), tp_service = None,
                           tp_message = (if ts \<noteq> None then strip_str (cut_prefix (ts_prefix_re line) line) else line)\<rparr>)))))"

definition plain_line :: "libraries \<Rightarrow> bool \<Rightarrow> bool \<Rightarrow> string option \<Rightarrow> string \<Rightarrow> parsed_line" where
  "plain_line lib infer_service cri_unwrapped default_service line =
     (let p = text_parts_of lib infer_service cri_unwrapped line in
      (blank_line line ''text'')
        \<lparr>pl_timestamp := tp_timestamp p, pl_level := tp_level p,
         pl_service := (case tp_service p of Some s \<Rightarrow> if s \<noteq> [] then Some s else default_service | None \<Rightarrow> default_service),
         pl_message := Some (if tp_message p \<noteq> [] then tp_message p else line)\<rparr>)"

definition opt_or :: "string option \<Rightarrow> string option \<Rightarrow> string option" where
  "opt_or a b = (case a of Some s \<Rightarrow> if s \<noteq> [] then a else b | None \<Rightarrow> b)"

lemma part_ends_texts:
  "qs \<in> set (part_ends rs p) \<Longrightarrow> length qs = length rs \<and> sum_list (map length (texts_between (snd p) qs)) \<le> length (snd p)"
proof (induction rs arbitrary: p qs)
  case (Cons r rs)
  then obtain q qs' where q: "q \<in> set (ends r p)" "qs' \<in> set (part_ends rs q)" "qs = q # qs'" by auto
  have "length (snd q) \<le> length (snd p)" using matches_progress [OF ends_sound [OF q(1)]] by auto
  moreover have "length qs' = length rs" "sum_list (map length (texts_between (snd q) qs')) \<le> length (snd q)"
    using Cons.IH [OF q(2)] by auto
  ultimately show ?case unfolding q(3) by simp
qed simp

lemma match_parts_total:
  assumes "match_parts rs s = Some ts"
  shows "length ts = length rs" "sum_list (map length ts) \<le> length s"
proof -
  obtain qs where qs: "qs \<in> set (part_ends rs (None, s))" "ts = texts_between s qs"
    using assms by (auto simp: match_parts_def split: list.splits)
  have "length (texts_between s qs) = length qs" by (induction s qs rule: texts_between.induct) auto
  with part_ends_texts [OF qs(1)] qs(2) show "length ts = length rs" "sum_list (map length ts) \<le> length s" by auto
qed

text \<open>A part that is one character long keeps every other part shorter than the line.\<close>

lemma part_text_char:
  "qs \<in> set (part_ends rs p) \<Longrightarrow> k < length rs \<Longrightarrow> rs ! k = Chars q \<Longrightarrow> length (texts_between (snd p) qs ! k) = 1"
proof (induction rs arbitrary: p qs k)
  case (Cons r rs)
  then obtain e qs' where e: "e \<in> set (ends r p)" "qs' \<in> set (part_ends rs e)" "qs = e # qs'" by auto
  show ?case
  proof (cases k)
    case 0
    then show ?thesis using e Cons.prems by (cases p; cases "snd p") (auto split: if_splits)
  next
    case (Suc k')
    then show ?thesis using Cons.IH [OF e(2), of k'] Cons.prems e(3) by simp
  qed
qed simp

lemma match_parts_shorter:
  assumes "match_parts rs s = Some ts" "k < length rs" "rs ! k = Chars q" "j < length rs" "j \<noteq> k"
  shows "length (ts ! j) < length s"
proof -
  obtain qs where qs: "qs \<in> set (part_ends rs (None, s))" "ts = texts_between s qs"
    using assms(1) by (auto simp: match_parts_def split: list.splits)
  have one: "length (ts ! k) = 1" using part_text_char [OF qs(1) assms(2,3)] qs(2) by simp
  have len: "length ts = length rs" "sum_list (map length ts) \<le> length s" using match_parts_total [OF assms(1)] by auto
  have "sum_list (map length ts) = (\<Sum>i < length ts. length (ts ! i))" by (simp add: sum_list_sum_nth atLeast0LessThan)
  moreover have "(\<Sum>i \<in> {j, k}. length (ts ! i)) \<le> (\<Sum>i < length ts. length (ts ! i))"
    by (rule sum_mono2) (use assms len in auto)
  ultimately show ?thesis using one len assms(5) by simp
qed

lemma length_strip: "length (strip_str s) \<le> length s"
  unfolding strip_str_def lstrip_str_def rstrip_str_def
  by (metis length_dropWhile_le length_rev order_trans)

lemma cri_shorter: "match_parts CRI_PATTERN (strip_str s) = Some m \<Longrightarrow> length (m ! 6) < length s"
  using match_parts_shorter [of CRI_PATTERN "strip_str s" m 4 "\<lambda>c. c = CHR ''F'' \<or> c = CHR ''P''" 6] length_strip [of s]
  by (simp add: CRI_PATTERN_def)

lemma prefix_shorter: "kubectl_match (strip_str s) = Some k \<Longrightarrow> length (kp_rest k) < length s"
  using match_parts_shorter [of NAMESPACED_PREFIX_PATTERN "strip_str s" _ 0 "\<lambda>x. x = CHR ''[''" 8]
    match_parts_shorter [of POD_PREFIX_PATTERN "strip_str s" _ 0 "\<lambda>x. x = CHR ''[''" 6] length_strip [of s]
  by (fastforce simp: kubectl_match_def NAMESPACED_PREFIX_PATTERN_def POD_PREFIX_PATTERN_def this_def split: option.splits)

function parse_text_line :: "libraries \<Rightarrow> string \<Rightarrow> string option \<Rightarrow> bool \<Rightarrow> bool \<Rightarrow> parsed_line option" where
  "parse_text_line lib line0 default_service infer_service cri_unwrapped =
     (let line = strip_str line0 in
      if line = [] then None
      else
        (case match_parts CRI_PATTERN line of
           Some m \<Rightarrow>
             (let cri_ts = extract_timestamp lib (m ! 0) in
              (case parse_text_line lib (m ! 6) default_service infer_service True of
                 None \<Rightarrow> Some ((blank_line line ''text'')\<lparr>pl_timestamp := cri_ts, pl_service := default_service, pl_message := Some (m ! 6)\<rparr>)
               | Some inner \<Rightarrow>
                   Some (inner\<lparr>pl_timestamp := (if pl_timestamp inner = None then cri_ts else pl_timestamp inner), pl_raw_line := line\<rparr>)))
         | None \<Rightarrow>
             (case kubectl_match line of
                Some k \<Rightarrow>
                  (case parse_text_line lib (kp_rest k) (opt_or default_service (Some (kp_container k))) False False of
                     None \<Rightarrow> Some ((blank_line line ''text'')\<lparr>pl_service := opt_or default_service (Some (kp_container k)), pl_host := Some (kp_pod k),
                         pl_environment := kp_namespace k, pl_message := Some (kp_rest k)\<rparr>)
                   | Some inner \<Rightarrow>
                       Some (inner\<lparr>pl_service := opt_or (Some (kp_container k)) (opt_or (pl_service inner) default_service),
                         pl_host := opt_or (Some (kp_pod k)) (pl_host inner), pl_environment := opt_or (kp_namespace k) (pl_environment inner),
                         pl_raw_line := line\<rparr>))
              | None \<Rightarrow> Some (plain_line lib infer_service cri_unwrapped default_service line))))"
  by pat_completeness auto
termination
  by (relation "measure (\<lambda>(lib, line0, _). length line0)") (auto dest: cri_shorter prefix_shorter)

declare parse_text_line.simps [simp del]

section \<open>What the parsers promise\<close>

lemma parse_text_line_facts:
  "(parse_text_line lib line d infer cri = None \<longleftrightarrow> strip_str line = [])
   \<and> (\<forall>p. parse_text_line lib line d infer cri = Some p \<longrightarrow>
        pl_raw_line p = strip_str line \<and> pl_message p \<noteq> None \<and> pl_parse_error p = None \<and> pl_parser_type p = ''text'' \<and> pl_extra p = [])"
proof (induction lib line d infer cri rule: parse_text_line.induct)
  case (1 lib line0 d infer cri)
  show ?case
  proof (cases "strip_str line0 = []")
    case False
    show ?thesis
    proof (cases "match_parts CRI_PATTERN (strip_str line0)")
      case (Some m)
      with False 1(2) [OF refl False Some refl] show ?thesis
        unfolding parse_text_line.simps [of lib line0 d infer cri] by (auto simp: blank_line_def Let_def split: option.splits)
    next
      case None
      note plain = None
      show ?thesis
      proof (cases "kubectl_match (strip_str line0)")
        case (Some k)
        with plain False 1(1) [OF refl False plain Some] show ?thesis
          unfolding parse_text_line.simps [of lib line0 d infer cri] by (auto simp: blank_line_def Let_def split: option.splits)
      qed (use plain False in \<open>simp add: parse_text_line.simps [of _ line0] plain_line_def blank_line_def Let_def\<close>)
    qed
  qed (simp add: parse_text_line.simps)
qed


text \<open>
  C27: A JSON line is read field by field. An object with the standard keys and any others gives exactly
  these: its instant, the level in standard form, service and message as they are, and the other entries in
  their order, nothing else.
\<close>
theorem json_line_roundtrip:
  assumes "strip_str line \<noteq> []"
    and "json_loads lib (strip_str line) = Some (VDict ([(''timestamp'', VStr ts), (''level'', VStr lv), (''service'', VStr svc), (''message'', VStr m)] @ others))"
    and "fromisoformat lib (rewrite_iso_z ts) = Some t" "lv \<noteq> []" "svc \<noteq> []"
    and "list_all (\<lambda>(k, _). lower_str k \<notin> lower_str ` set known_fields \<and> k \<noteq> ''kubernetes'') others"
  shows "parse_json_line lib line d = Some
     \<lparr>pl_raw_line = strip_str line, pl_timestamp = Some t, pl_level = Some (normalize_level lv), pl_service = Some svc,
      pl_environment = None, pl_trace_id = None, pl_request_id = None, pl_host = None, pl_message = Some m, pl_extra = others,
      pl_parser_type = ''json'', pl_parse_error = None\<rparr>"
proof -
  let ?own = "[(''timestamp'', VStr ts), (''level'', VStr lv), (''service'', VStr svc), (''message'', VStr m)]"
  let ?data = "?own @ others"
  have absent: "extract_field ?data fs = extract_field ?own fs" if "set fs \<subseteq> set known_fields" for fs
    using that
  proof (induction fs)
    case (Cons f fs)
    have other: "lower_str k \<noteq> lower_str f" if "(k, v) \<in> set others" for k v
      using assms(6) that Cons.prems by (fastforce simp: list_all_iff)
    have "dget others f = None" using other by (fastforce simp: dict_simps)
    moreover have "find (\<lambda>(k, _). lower_str k = lower_str f) others = None" using other by (auto simp: find_None_iff)
    moreover have "find P (xs @ ys) = find P xs" if "find P ys = None" for P :: "string \<times> pyval \<Rightarrow> bool" and xs ys
      using that by (induction xs) auto
    ultimately show ?case using Cons by (auto simp: map_add_def split: option.splits)
  qed simp
  have known: "set TIMESTAMP_FIELDS \<subseteq> set known_fields" "set MESSAGE_FIELDS \<subseteq> set known_fields" "set LEVEL_FIELDS \<subseteq> set known_fields"
    "set SERVICE_FIELDS \<subseteq> set known_fields" "set ENVIRONMENT_FIELDS \<subseteq> set known_fields" "set TRACE_ID_FIELDS \<subseteq> set known_fields"
    "set REQUEST_ID_FIELDS \<subseteq> set known_fields" "set HOST_FIELDS \<subseteq> set known_fields"
    by (auto simp: known_fields_def)
  have own: "extract_field ?own TIMESTAMP_FIELDS = VStr ts" "extract_field ?own MESSAGE_FIELDS = VStr m" "extract_field ?own LEVEL_FIELDS = VStr lv"
    "extract_field ?own SERVICE_FIELDS = VStr svc" "extract_field ?own ENVIRONMENT_FIELDS = VNone" "extract_field ?own TRACE_ID_FIELDS = VNone"
    "extract_field ?own REQUEST_ID_FIELDS = VNone" "extract_field ?own HOST_FIELDS = VNone"
    by (simp_all add: TIMESTAMP_FIELDS_def MESSAGE_FIELDS_def LEVEL_FIELDS_def SERVICE_FIELDS_def ENVIRONMENT_FIELDS_def TRACE_ID_FIELDS_def
        REQUEST_ID_FIELDS_def HOST_FIELDS_def lower_str_def lower_char_def)
  have none: "dget others ''kubernetes'' = None" using assms(6) by (auto simp: dict_simps list_all_iff)
  have k8s: "extract_kubernetes_fields ?data = \<lparr>k8_service = VNone, k8_environment = VNone, k8_host = VNone\<rparr>"
    by (simp add: extract_kubernetes_fields_def get_field_def dget_or_def map_add_def none)
  have "\<forall>x \<in> set others. fst x \<notin> set known_fields" using assms(6) by (fastforce simp: list_all_iff)
  then have extra: "filter (\<lambda>(k, _). k \<notin> set known_fields) ?data = others"
    by (auto simp: known_fields_def TIMESTAMP_FIELDS_def LEVEL_FIELDS_def SERVICE_FIELDS_def MESSAGE_FIELDS_def intro!: filter_True)
  have fields: "extract_all_fields lib ?data = \<lparr>fd_timestamp_raw = VStr ts, fd_message = VStr m, fd_level = Some (normalize_level lv), fd_service = VStr svc,
      fd_environment = VNone, fd_trace_id = VNone, fd_request_id = VNone, fd_host = VNone, fd_extra = others\<rparr>"
    unfolding extract_all_fields_def Let_def k8s extra absent [OF known(1)] absent [OF known(2)] absent [OF known(3)] absent [OF known(4)]
      absent [OF known(5)] absent [OF known(6)] absent [OF known(7)] absent [OF known(8)] own
    using assms(4,5) by (simp add: py_or_def)
  show ?thesis
    unfolding parse_json_line_def Let_def assms(2) using assms(1,3,5)
    by (simp add: fields[simplified] py_or_def str_if_def str_not_none_def parse_timestamp_field_def)
qed

text \<open>A blank level is kept as an empty one, where a missing one becomes \<open>info\<close>.\<close>

lemma blank_level_kept: "normalize_level '' '' = []" "normalize_level [] = ''info''" "normalize_level ''Critical '' = ''fatal''"
  by code_simp+

section \<open>Examples\<close>

definition demo_libraries :: libraries where
  "demo_libraries = \<lparr>json_loads = (\<lambda>s. if s = ''{...}'' then Some (VDict [(''timestamp'', VStr ''t0''), (''level'', VStr ''Critical''),
       (''service'', VStr ''cart''), (''message'', VStr ''boom''), (''retries'', VNum (IntN 3))]) else None),
     fromisoformat = (\<lambda>s. if s = ''t0'' then Some 0 else None), dateutil_parse = (\<lambda>_. None), py_repr = (\<lambda>_. [])\<rparr>"

theorem json_line_roundtrip_witness:
  "map_option pl_level (parse_json_line demo_libraries ''{...} '' None) = Some (Some ''fatal'')
   \<and> map_option pl_extra (parse_json_line demo_libraries ''{...} '' None) = Some [(''retries'', VNum (IntN 3))]"
proof -
  have strip: "strip_str ''{...} '' = ''{...}''" by code_simp
  have level: "normalize_level ''Critical'' = ''fatal''" by code_simp
  have key: "lower_str ''retries'' \<notin> lower_str ` set known_fields" by code_simp
  have "parse_json_line demo_libraries ''{...} '' None = Some
     \<lparr>pl_raw_line = ''{...}'', pl_timestamp = Some 0, pl_level = Some (normalize_level ''Critical''), pl_service = Some ''cart'',
      pl_environment = None, pl_trace_id = None, pl_request_id = None, pl_host = None, pl_message = Some ''boom'',
      pl_extra = [(''retries'', VNum (IntN 3))], pl_parser_type = ''json'', pl_parse_error = None\<rparr>"
    using json_line_roundtrip [of "''{...} ''" demo_libraries "''t0''" "''Critical''" "''cart''" "''boom''" "[(''retries'', VNum (IntN 3))]" 0 None] key
    by (simp add: strip demo_libraries_def rewrite_iso_z_def endswith_def)
  then show ?thesis by (simp add: level)
qed

end
