(* ===== verification/Ingestion.thy ===== *)
theory Ingestion
  imports Parsing Clustering
begin

text \<open>
  Ingestion of log lines (\<open>core/ingestion/service.py\<close>): one raw line through the parser and the fingerprint
  to a row, batches written with \<open>ON CONFLICT DO NOTHING\<close>, and the three entry points (files, adapters,
  pushed lines) with their job rows. Row ids are taken from a counter. Files and adapters are outside: a
  file is its decoded lines or a read error, an adapter what each stream yields from a cursor and how it
  ended. Embeddings, metrics and progress callbacks are left out; clock readings are arguments.
\<close>

section \<open>Rows\<close>

record stored_line = log_entry +
  sl_source_id :: nat
  sl_trace_id :: "string option"
  sl_request_id :: "string option"
  sl_host :: "string option"
  sl_parser_type :: string
  sl_extra_json :: "json_object option"
  sl_source_adapter :: string
  sl_source_ref :: string
  sl_original_line_hash :: string

record ingest_libraries = libraries +
  sha256_hex :: "string \<Rightarrow> string"

record ingest_stats =
  is_files_processed :: nat
  is_lines_read :: nat
  is_parsed_count :: nat
  is_error_count :: nat
  is_deduped_count :: nat
  is_services_detected :: "string set"

definition no_stats :: ingest_stats where
  "no_stats = \<lparr>is_files_processed = 0, is_lines_read = 0, is_parsed_count = 0, is_error_count = 0, is_deduped_count = 0, is_services_detected = {}\<rparr>"

text \<open>What a raw line comes with.\<close>

record line_context =
  lc_default_service :: "string option"
  lc_default_env :: "string option"
  lc_source_id :: nat
  lc_job_id :: nat
  lc_source_adapter :: string
  lc_source_ref :: "string option"
  lc_received_at :: "int option"
  lc_default_host :: "string option"
  lc_extra :: json_object
  lc_scope :: string

definition DEFAULT_LOG_SCOPE :: string where "DEFAULT_LOG_SCOPE = ''default''"
definition BATCH_SIZE :: nat where "BATCH_SIZE = 500"

definition resolve_fmt :: "string \<Rightarrow> string \<Rightarrow> string" where
  "resolve_fmt line fmt =
     (if fmt \<noteq> ''auto'' then fmt
      else if startswith (strip_str line) ''{'' \<and> endswith (strip_str line) ''}'' then ''json'' else ''text'')"

definition parse_line :: "('z) ingest_libraries_scheme \<Rightarrow> string \<Rightarrow> string \<Rightarrow> string option \<Rightarrow> parsed_line option" where
  "parse_line lib line fmt default_service =
     (if fmt = ''json'' then parse_json_line (libraries.truncate lib) line default_service
      else parse_text_line (libraries.truncate lib) line default_service True False)"

definition hash_raw_line :: "('z) ingest_libraries_scheme \<Rightarrow> string \<Rightarrow> string" where
  "hash_raw_line lib text = sha256_hex lib text"

definition none_if_blank :: "string \<Rightarrow> string option" where
  "none_if_blank s = (if s = [] then None else Some s)"

text \<open>The row of a parsed line.\<close>

definition entry_of :: "('z) ingest_libraries_scheme \<Rightarrow> line_context \<Rightarrow> string \<Rightarrow> parsed_line \<Rightarrow> nat \<Rightarrow> stored_line" where
  "entry_of lib ctx line p new_id =
     (let (normalized, fp) = fingerprint_message (sha256_hex lib) (case pl_message p of Some m \<Rightarrow> m | None \<Rightarrow> []);
          merged = fold (\<lambda>(k, v) d. dset k v d) (pl_extra p) (lc_extra ctx) in
      \<lparr>lr_scope = (if lc_scope ctx = [] then DEFAULT_LOG_SCOPE else lc_scope ctx),
       lr_service = opt_or (pl_service p) (lc_default_service ctx),
       lr_level = pl_level p,
       lr_timestamp = (case pl_timestamp p of None \<Rightarrow> lc_received_at ctx | Some t \<Rightarrow> Some t),
       lr_raw_message = map_option (take 4096) (none_if_blank (pl_raw_line p)),
       lr_normalized_message = map_option (take 2048) (none_if_blank normalized),
       lr_fingerprint = Some fp,
       le_id = new_id,
       le_environment = opt_or (pl_environment p) (lc_default_env ctx),
       le_ingestion_job_id = Some (lc_job_id ctx),
       sl_source_id = lc_source_id ctx,
       sl_trace_id = pl_trace_id p,
       sl_request_id = pl_request_id p,
       sl_host = opt_or (pl_host p) (lc_default_host ctx),
       sl_parser_type = pl_parser_type p,
       sl_extra_json = (if merged = [] then None else Some merged),
       sl_source_adapter = lc_source_adapter ctx,
       sl_source_ref = (case lc_source_ref ctx of Some r \<Rightarrow> r | None \<Rightarrow> []),
       sl_original_line_hash = hash_raw_line lib line\<rparr>)"

definition process_line ::
    "('z) ingest_libraries_scheme \<Rightarrow> line_context \<Rightarrow> string \<Rightarrow> string \<Rightarrow> nat \<Rightarrow> ingest_stats \<Rightarrow> stored_line option \<times> ingest_stats" where
  "process_line lib ctx fmt line new_id stats0 =
     (let stats = stats0\<lparr>is_lines_read := is_lines_read stats0 + 1\<rparr> in
      if strip_str line = [] then (None, stats)
      else
        (case parse_line lib line fmt (lc_default_service ctx) of
           None \<Rightarrow> (None, stats)
         | Some p \<Rightarrow>
             (if pl_parse_error p \<noteq> None then (None, stats\<lparr>is_error_count := is_error_count stats + 1\<rparr>)
              else
                (let e = entry_of lib ctx line p new_id in
                 (Some e,
                  stats\<lparr>is_parsed_count := is_parsed_count stats + 1,
                    is_services_detected := (case lr_service e of Some s \<Rightarrow> if s \<noteq> [] then insert s (is_services_detected stats)
                      else is_services_detected stats | None \<Rightarrow> is_services_detected stats)\<rparr>)))))"

section \<open>The upsert\<close>

text \<open>The unique index over scope, source, line hash and time covers the rows that have a time.\<close>

definition entry_key :: "stored_line \<Rightarrow> (string \<times> string \<times> string \<times> int) option" where
  "entry_key e = map_option (\<lambda>t. (lr_scope e, sl_source_ref e, sl_original_line_hash e, t)) (lr_timestamp e)"

definition conflicts :: "stored_line list \<Rightarrow> stored_line \<Rightarrow> bool" where
  "conflicts rows e \<longleftrightarrow> entry_key e \<noteq> None \<and> entry_key e \<in> entry_key ` set rows"

fun upsert :: "stored_line list \<Rightarrow> stored_line list \<Rightarrow> stored_line list \<times> nat list" where
  "upsert rows [] = (rows, [])"
| "upsert rows (e # es) =
     (if conflicts rows e then upsert rows es
      else let (rows', ids) = upsert (rows @ [e]) es in (rows', le_id e # ids))"

definition entries_inserted :: "stored_line list \<Rightarrow> nat list \<Rightarrow> stored_line list" where
  "entries_inserted batch returned = (if returned = [] then [] else filter (\<lambda>e. le_id e \<in> set returned) batch)"

definition flush_log_batch :: "stored_line list \<Rightarrow> stored_line list \<Rightarrow> stored_line list \<times> nat \<times> nat" where
  "flush_log_batch rows batch =
     (if batch = [] then (rows, 0, 0)
      else
        let (rows', returned) = upsert rows batch; inserted = entries_inserted batch returned in
        (rows', length inserted, length batch - length inserted))"

record ingest_state =
  ig_rows :: "stored_line list"
  ig_next_id :: nat
  ig_batch :: "stored_line list"
  ig_stats :: ingest_stats

definition flush_and_count :: "ingest_state \<Rightarrow> ingest_state" where
  "flush_and_count st =
     (let (rows, _, skipped) = flush_log_batch (ig_rows st) (ig_batch st); stats = ig_stats st in
      st\<lparr>ig_rows := rows, ig_batch := [], ig_stats := stats\<lparr>is_deduped_count := is_deduped_count stats + skipped\<rparr>\<rparr>)"

section \<open>The loop\<close>

text \<open>A raw line with its context and format.\<close>

type_synonym raw_line = "line_context \<times> string \<times> string"

definition ingest_step :: "('z) ingest_libraries_scheme \<Rightarrow> ingest_state \<Rightarrow> raw_line \<Rightarrow> ingest_state" where
  "ingest_step lib st = (\<lambda>(ctx, fmt, line).
     (case process_line lib ctx fmt line (ig_next_id st) (ig_stats st) of
        (None, stats) \<Rightarrow> st\<lparr>ig_stats := stats\<rparr>
      | (Some e, stats) \<Rightarrow>
          (let st' = st\<lparr>ig_next_id := ig_next_id st + 1, ig_batch := ig_batch st @ [e], ig_stats := stats\<rparr> in
           if BATCH_SIZE \<le> length (ig_batch st') then flush_and_count st' else st')))"

definition flush_rest :: "ingest_state \<Rightarrow> ingest_state" where
  "flush_rest st = (if ig_batch st \<noteq> [] then flush_and_count st else st)"

definition ingest_lines :: "('z) ingest_libraries_scheme \<Rightarrow> ingest_state \<Rightarrow> raw_line list \<Rightarrow> ingest_state" where
  "ingest_lines lib st lines = foldl (ingest_step lib) st lines"

section \<open>Batches are invisible\<close>

text \<open>The same line written at once.\<close>

definition insert_now :: "('z) ingest_libraries_scheme \<Rightarrow> ingest_state \<Rightarrow> raw_line \<Rightarrow> ingest_state" where
  "insert_now lib st = (\<lambda>(ctx, fmt, line).
     (case process_line lib ctx fmt line (ig_next_id st) (ig_stats st) of
        (None, stats) \<Rightarrow> st\<lparr>ig_stats := stats\<rparr>
      | (Some e, stats) \<Rightarrow>
          (if conflicts (ig_rows st) e
           then st\<lparr>ig_next_id := ig_next_id st + 1, ig_stats := stats\<lparr>is_deduped_count := is_deduped_count stats + 1\<rparr>\<rparr>
           else st\<lparr>ig_next_id := ig_next_id st + 1, ig_rows := ig_rows st @ [e], ig_stats := stats\<rparr>)))"

definition state_ok :: "ingest_state \<Rightarrow> bool" where
  "state_ok st \<longleftrightarrow> distinct (map le_id (ig_batch st)) \<and> (\<forall>e \<in> set (ig_batch st). le_id e < ig_next_id st)"

lemma upsert_append:
  "upsert rows (es @ fs) = (let (rows', ids) = upsert rows es; (rows'', ids') = upsert rows' fs in (rows'', ids @ ids'))"
  by (induction rows es rule: upsert.induct) (auto simp: Let_def split: prod.splits)

lemma upsert_ids: "set (snd (upsert rows es)) \<subseteq> le_id ` set es"
  by (induction rows es rule: upsert.induct) (auto split: prod.splits)

lemma upsert_inserted:
  "distinct (map le_id es) \<Longrightarrow> length (entries_inserted es (snd (upsert rows es))) = length (snd (upsert rows es))"
proof (induction rows es rule: upsert.induct)
  case (2 rows e es)
  have fresh: "le_id e \<notin> set (snd (upsert r es))" for r using upsert_ids [of r es] 2(3) by auto
  have drop: "filter (\<lambda>x. le_id x \<in> insert (le_id e) I) es = filter (\<lambda>x. le_id x \<in> I) es" for I
    using 2(3) by (intro filter_cong refl) (auto simp: image_iff)
  show ?case
  proof (cases "conflicts rows e")
    case True
    then show ?thesis using 2 fresh [of rows] by (auto simp: entries_inserted_def split: if_splits)
  next
    case False
    obtain rows' ids where u: "upsert (rows @ [e]) es = (rows', ids)" by force
    have "length (filter (\<lambda>x. le_id x \<in> set ids) es) = length ids"
      using 2(2) [OF False] 2(3) u by (cases "ids = []") (auto simp: entries_inserted_def)
    then show ?thesis using False u drop by (simp add: entries_inserted_def)
  qed
qed (simp add: entries_inserted_def)

lemma flush_rest_simps [simp]:
  "ig_batch (flush_rest st) = []" "ig_next_id (flush_rest st) = ig_next_id st"
  by (auto simp: flush_rest_def flush_and_count_def Let_def split: prod.splits)

lemma upsert_length: "length (snd (upsert rows es)) \<le> length es"
  by (induction rows es rule: upsert.induct) (auto split: prod.splits)

lemma flush_rest_eq:
  assumes "distinct (map le_id (ig_batch st))"
  shows "flush_rest st = st\<lparr>ig_rows := fst (upsert (ig_rows st) (ig_batch st)), ig_batch := [],
     ig_stats := (ig_stats st)\<lparr>is_deduped_count := is_deduped_count (ig_stats st) + (length (ig_batch st) - length (snd (upsert (ig_rows st) (ig_batch st))))\<rparr>\<rparr>"
  using upsert_inserted [OF assms, of "ig_rows st"]
  by (auto simp: flush_rest_def flush_and_count_def flush_log_batch_def Let_def split: prod.splits)

lemma process_line_stats:
  "process_line lib ctx fmt line n (s\<lparr>is_deduped_count := k\<rparr>)
     = map_prod id (\<lambda>s'. s'\<lparr>is_deduped_count := k\<rparr>) (process_line lib ctx fmt line n s)"
  "is_deduped_count (snd (process_line lib ctx fmt line n s)) = is_deduped_count s"
  by (auto simp: process_line_def Let_def split: option.splits)

lemma process_line_id: "process_line lib ctx fmt line n s = (Some e, s') \<Longrightarrow> le_id e = n"
  by (auto simp: process_line_def entry_of_def Let_def split: option.splits if_splits prod.splits)

lemma flush_full: "flush_rest (if b then flush_and_count st else st) = flush_rest st"
  by (auto simp: flush_rest_def flush_and_count_def flush_log_batch_def Let_def split: prod.splits)

lemma ingest_step_insert:
  assumes "state_ok st"
  shows "flush_rest (ingest_step lib st l) = insert_now lib (flush_rest st) l" "state_ok (ingest_step lib st l)"
proof -
  obtain ctx fmt line where l: "l = (ctx, fmt, line)" by (cases l)
  obtain eo stats where pr: "process_line lib ctx fmt line (ig_next_id st) (ig_stats st) = (eo, stats)" by force
  have dist: "distinct (map le_id (ig_batch st))" using assms by (simp add: state_ok_def)
  let ?u = "upsert (ig_rows st) (ig_batch st)"
  let ?k = "is_deduped_count (ig_stats st) + (length (ig_batch st) - length (snd ?u))"
  have pr': "process_line lib ctx fmt line (ig_next_id st) (ig_stats (flush_rest st)) = (eo, stats\<lparr>is_deduped_count := ?k\<rparr>)"
    using process_line_stats(1) [of lib ctx fmt line "ig_next_id st" ?k "ig_stats st"] by (simp add: flush_rest_eq [OF dist] pr)
  have same: "is_deduped_count stats = is_deduped_count (ig_stats st)"
    using process_line_stats(2) [of lib ctx fmt line "ig_next_id st" "ig_stats st"] by (simp add: pr)
  show "flush_rest (ingest_step lib st l) = insert_now lib (flush_rest st) l"
  proof (cases eo)
    case None
    then have "insert_now lib (flush_rest st) l = (flush_rest st)\<lparr>ig_stats := stats\<lparr>is_deduped_count := ?k\<rparr>\<rparr>"
      by (simp add: l insert_now_def pr')
    moreover have "ingest_step lib st l = st\<lparr>ig_stats := stats\<rparr>" using None by (simp add: l ingest_step_def pr)
    ultimately show ?thesis using dist same by (simp add: flush_rest_eq)
  next
    case (Some e)
    have ide: "le_id e = ig_next_id st" using process_line_id pr Some by blast
    have dist': "distinct (map le_id (ig_batch st @ [e]))" using assms by (auto simp: state_ok_def ide)
    let ?st = "st\<lparr>ig_next_id := ig_next_id st + 1, ig_batch := ig_batch st @ [e], ig_stats := stats\<rparr>"
    have step: "ingest_step lib st l = (if BATCH_SIZE \<le> length (ig_batch ?st) then flush_and_count ?st else ?st)"
      by (simp add: l ingest_step_def pr Some Let_def)
    have "flush_rest (ingest_step lib st l) = flush_rest ?st" unfolding step by (rule flush_full)
    also have "\<dots> = ?st\<lparr>ig_rows := (if conflicts (fst ?u) e then fst ?u else fst ?u @ [e]), ig_batch := [],
        ig_stats := stats\<lparr>is_deduped_count := (if conflicts (fst ?u) e then ?k + 1 else ?k)\<rparr>\<rparr>"
      using flush_rest_eq [of ?st] dist' upsert_length [of "ig_rows st" "ig_batch st"] same
      by (auto simp: upsert_append Let_def split: prod.splits)
    also have "\<dots> = insert_now lib (flush_rest st) l"
    proof -
      have "ig_rows (flush_rest st) = fst ?u" by (simp add: flush_rest_eq [OF dist])
      then have "insert_now lib (flush_rest st) l = (if conflicts (fst ?u) e
          then (flush_rest st)\<lparr>ig_next_id := ig_next_id st + 1, ig_stats := stats\<lparr>is_deduped_count := ?k + 1\<rparr>\<rparr>
          else (flush_rest st)\<lparr>ig_next_id := ig_next_id st + 1, ig_rows := fst ?u @ [e], ig_stats := stats\<lparr>is_deduped_count := ?k\<rparr>\<rparr>)"
        by (simp add: l insert_now_def pr' Some)
      then show ?thesis by (simp add: flush_rest_eq [OF dist])
    qed
    finally show ?thesis .
  qed
  show "state_ok (ingest_step lib st l)"
  proof (cases eo)
    case None
    then show ?thesis using assms by (simp add: l ingest_step_def pr state_ok_def)
  next
    case (Some e)
    let ?st = "st\<lparr>ig_next_id := ig_next_id st + 1, ig_batch := ig_batch st @ [e], ig_stats := stats\<rparr>"
    have "le_id e = ig_next_id st" using process_line_id pr Some by blast
    then have "state_ok ?st" using assms by (auto simp: state_ok_def less_Suc_eq)
    moreover have "state_ok (flush_and_count ?st)" by (simp add: state_ok_def flush_and_count_def Let_def split: prod.splits)
    ultimately show ?thesis by (simp add: l ingest_step_def pr Some Let_def)
  qed
qed

lemma ingest_lines_insert:
  "state_ok st \<Longrightarrow> flush_rest (ingest_lines lib st lines) = foldl (insert_now lib) (flush_rest st) lines"
  unfolding ingest_lines_def by (induction lines arbitrary: st) (simp_all add: ingest_step_insert)

lemma ingest_lines_ok: "state_ok st \<Longrightarrow> state_ok (ingest_lines lib st lines)"
  unfolding ingest_lines_def by (induction lines arbitrary: st) (simp_all add: ingest_step_insert)

text \<open>
  C24: Batching is invisible. Whatever the batch size and wherever the batches fall, the rows stored and every
  counter are those of writing each line at once, in order, skipping a line whose scope, source, hash and
  time are already stored.
\<close>
theorem batches_invisible:
  assumes "distinct (map le_id (ig_batch st))" "\<forall>e \<in> set (ig_batch st). le_id e < ig_next_id st"
  shows "flush_rest (ingest_lines lib st lines) = foldl (insert_now lib) (flush_rest st) lines"
  using assms by (intro ingest_lines_insert) (simp add: state_ok_def)

text \<open>Concrete libraries, a row and lines for the witnesses.\<close>

definition demo_ingest :: ingest_libraries where
  "demo_ingest = libraries.extend demo_libraries (ingest_libraries.fields rev)"

definition demo_context :: line_context where
  "demo_context = \<lparr>lc_default_service = Some ''cart'', lc_default_env = None, lc_source_id = 1, lc_job_id = 1, lc_source_adapter = ''loki'',
     lc_source_ref = Some ''pod'', lc_received_at = Some 5, lc_default_host = None, lc_extra = [], lc_scope = ''default''\<rparr>"

definition demo_row :: stored_line where
  "demo_row = entry_of demo_ingest demo_context ''boom'' (plain_line demo_libraries True False None ''boom'') 0"

definition demo_state :: "stored_line list \<Rightarrow> ingest_state" where
  "demo_state batch = \<lparr>ig_rows = [], ig_next_id = 1, ig_batch = batch, ig_stats = no_stats\<rparr>"

theorem batches_invisible_witness:
  "flush_rest (ingest_lines demo_ingest (demo_state [demo_row]) [(demo_context, ''text'', ''boom''), (demo_context, ''text'', ''boom'')])
     = foldl (insert_now demo_ingest) (flush_rest (demo_state [demo_row])) [(demo_context, ''text'', ''boom''), (demo_context, ''text'', ''boom'')]"
  by (rule batches_invisible) (simp_all add: demo_state_def demo_row_def entry_of_def Let_def split: prod.splits)

section \<open>Accounting and deduplication\<close>

definition keys_unique :: "stored_line list \<Rightarrow> bool" where
  "keys_unique rows \<longleftrightarrow> distinct (List.map_filter entry_key rows)"

lemma process_line_None:
  "process_line lib ctx fmt line n s = (None, s') \<Longrightarrow>
     s' = s\<lparr>is_lines_read := is_lines_read s + 1\<rparr> \<or> s' = s\<lparr>is_lines_read := is_lines_read s + 1, is_error_count := is_error_count s + 1\<rparr>"
  by (auto simp: process_line_def Let_def split: option.splits if_splits)

lemma entry_of_fields:
  "lr_scope (entry_of lib ctx line p n) = (if lc_scope ctx = [] then DEFAULT_LOG_SCOPE else lc_scope ctx)"
  "le_ingestion_job_id (entry_of lib ctx line p n) = Some (lc_job_id ctx)"
  "sl_original_line_hash (entry_of lib ctx line p n) = hash_raw_line lib line"
  "sl_source_ref (entry_of lib ctx line p n) = (case lc_source_ref ctx of Some r \<Rightarrow> r | None \<Rightarrow> [])"
  "lr_timestamp (entry_of lib ctx line p n) = (case pl_timestamp p of None \<Rightarrow> lc_received_at ctx | Some t \<Rightarrow> Some t)"
  by (simp_all add: entry_of_def Let_def split: prod.splits)

lemma process_line_Some:
  "process_line lib ctx fmt line n s = (Some e, s') \<Longrightarrow>
     is_lines_read s' = is_lines_read s + 1 \<and> is_parsed_count s' = is_parsed_count s + 1 \<and> is_error_count s' = is_error_count s
     \<and> is_deduped_count s' = is_deduped_count s
     \<and> lr_scope e = (if lc_scope ctx = [] then DEFAULT_LOG_SCOPE else lc_scope ctx) \<and> le_ingestion_job_id e = Some (lc_job_id ctx)
     \<and> sl_original_line_hash e = hash_raw_line lib line"
  by (auto simp: process_line_def entry_of_fields Let_def split: option.splits if_splits)

text \<open>What a line adds to a table.\<close>

definition row_from :: "('z) ingest_libraries_scheme \<Rightarrow> raw_line list \<Rightarrow> stored_line \<Rightarrow> bool" where
  "row_from lib lines e \<longleftrightarrow> (\<exists>(ctx, fmt, line) \<in> set lines.
     lr_scope e = (if lc_scope ctx = [] then DEFAULT_LOG_SCOPE else lc_scope ctx) \<and> le_ingestion_job_id e = Some (lc_job_id ctx)
     \<and> sl_original_line_hash e = hash_raw_line lib line)"

lemma keys_unique_snoc: "keys_unique rows \<Longrightarrow> \<not> conflicts rows e \<Longrightarrow> keys_unique (rows @ [e])"
  by (cases "entry_key e") (force simp: keys_unique_def conflicts_def List.map_filter_simps map_filter_append set_map_filter image_iff)+

definition advances :: "('z) ingest_libraries_scheme \<Rightarrow> raw_line list \<Rightarrow> ingest_state \<Rightarrow> ingest_state \<Rightarrow> bool" where
  "advances lib lines st st' \<longleftrightarrow>
     is_lines_read (ig_stats st') = is_lines_read (ig_stats st) + length lines
     \<and> is_parsed_count (ig_stats st') + length (ig_rows st) + is_deduped_count (ig_stats st)
         = is_parsed_count (ig_stats st) + length (ig_rows st') + is_deduped_count (ig_stats st')
     \<and> is_parsed_count (ig_stats st') + is_error_count (ig_stats st') \<le> is_parsed_count (ig_stats st) + is_error_count (ig_stats st) + length lines
     \<and> (keys_unique (ig_rows st) \<longrightarrow> keys_unique (ig_rows st'))
     \<and> (\<exists>new. ig_rows st' = ig_rows st @ new \<and> list_all (row_from lib lines) new)"

lemma advances_step: "advances lib [(ctx, fmt, line)] st (insert_now lib st (ctx, fmt, line))"
proof -
  obtain eo s' where pr: "process_line lib ctx fmt line (ig_next_id st) (ig_stats st) = (eo, s')" by force
  show ?thesis
  proof (cases eo)
    case None
    with process_line_None [of lib ctx fmt line "ig_next_id st" "ig_stats st" s'] pr show ?thesis
      by (auto simp: advances_def insert_now_def)
  next
    case (Some e)
    with process_line_Some [of lib ctx fmt line "ig_next_id st" "ig_stats st" e s'] pr show ?thesis
      by (auto simp: advances_def insert_now_def keys_unique_snoc row_from_def)
  qed
qed

lemma row_from_mono: "set xs \<subseteq> set zs \<Longrightarrow> row_from lib xs e \<Longrightarrow> row_from lib zs e"
  unfolding row_from_def by blast

lemma advances_trans:
  assumes "advances lib xs st st'" "advances lib ys st' st''"
  shows "advances lib (xs @ ys) st st''"
proof -
  have mono: "list_all (row_from lib xs) new \<Longrightarrow> list_all (row_from lib (xs @ ys)) new"
    "list_all (row_from lib ys) new \<Longrightarrow> list_all (row_from lib (xs @ ys)) new" for new
    by (auto simp: list_all_iff elim!: row_from_mono [rotated])
  obtain new where new: "ig_rows st' = ig_rows st @ new" "list_all (row_from lib xs) new" using assms(1) by (auto simp: advances_def)
  obtain new' where new': "ig_rows st'' = ig_rows st' @ new'" "list_all (row_from lib ys) new'" using assms(2) by (auto simp: advances_def)
  have rows: "\<exists>n. ig_rows st'' = ig_rows st @ n \<and> list_all (row_from lib (xs @ ys)) n"
    using new new' mono by (intro exI [of _ "new @ new'"]) simp
  have counts: "is_lines_read (ig_stats st'') = is_lines_read (ig_stats st) + length (xs @ ys)"
    "is_parsed_count (ig_stats st'') + length (ig_rows st) + is_deduped_count (ig_stats st)
       = is_parsed_count (ig_stats st) + length (ig_rows st'') + is_deduped_count (ig_stats st'')"
    "is_parsed_count (ig_stats st'') + is_error_count (ig_stats st'') \<le> is_parsed_count (ig_stats st) + is_error_count (ig_stats st) + length (xs @ ys)"
    using assms unfolding advances_def length_append by linarith+
  have "keys_unique (ig_rows st) \<longrightarrow> keys_unique (ig_rows st'')" using assms unfolding advances_def by blast
  with rows counts show ?thesis unfolding advances_def by blast
qed

lemma advances_run: "advances lib lines st (foldl (insert_now lib) st lines)"
proof (induction lines rule: rev_induct)
  case Nil
  show ?case by (simp add: advances_def)
next
  case (snoc l lines)
  have "advances lib [l] (foldl (insert_now lib) st lines) (insert_now lib (foldl (insert_now lib) st lines) l)"
    by (cases l) (simp add: advances_step)
  from advances_trans [OF snoc this] show ?case by simp
qed

definition idle :: "ingest_state \<Rightarrow> bool" where "idle st \<longleftrightarrow> ig_batch st = []"

lemma idle_flush: "idle st \<Longrightarrow> flush_rest st = st" "idle st \<Longrightarrow> state_ok st"
  by (simp_all add: idle_def flush_rest_def state_ok_def)



section \<open>Ingesting again\<close>

text \<open>The key a line would be stored under: nothing when it gives no row, no key when the row has no time.\<close>

definition line_key :: "('z) ingest_libraries_scheme \<Rightarrow> raw_line \<Rightarrow> (string \<times> string \<times> string \<times> int) option option" where
  "line_key lib = (\<lambda>(ctx, fmt, line).
     if strip_str line = [] then None
     else
       (case parse_line lib line fmt (lc_default_service ctx) of
          None \<Rightarrow> None
        | Some p \<Rightarrow> if pl_parse_error p \<noteq> None then None else Some (entry_key (entry_of lib ctx line p 0))))"

lemma entry_key_any_id: "entry_key (entry_of lib ctx line p n) = entry_key (entry_of lib ctx line p 0)"
  by (simp add: entry_key_def entry_of_fields)

lemma process_line_key: "process_line lib ctx fmt line n s = (eo, s') \<Longrightarrow> map_option entry_key eo = line_key lib (ctx, fmt, line)"
  using entry_key_any_id by (fastforce simp: process_line_def line_key_def Let_def split: option.splits if_splits)

definition stored_keys :: "ingest_state \<Rightarrow> (string \<times> string \<times> string \<times> int) set" where
  "stored_keys st = {k. Some k \<in> entry_key ` set (ig_rows st)}"

lemma insert_now_keys:
  "line_key lib l = Some (Some k) \<Longrightarrow> k \<in> stored_keys (insert_now lib st l)"
  "line_key lib l = None \<or> (\<exists>k. line_key lib l = Some (Some k) \<and> k \<in> stored_keys st) \<Longrightarrow> ig_rows (insert_now lib st l) = ig_rows st"
  "stored_keys st \<subseteq> stored_keys (insert_now lib st l)"
proof -
  obtain ctx fmt line where l: "l = (ctx, fmt, line)" by (cases l)
  obtain eo s' where pr: "process_line lib ctx fmt line (ig_next_id st) (ig_stats st) = (eo, s')" by force
  note key = process_line_key [OF pr]
  show "line_key lib l = Some (Some k) \<Longrightarrow> k \<in> stored_keys (insert_now lib st l)"
    using key by (cases eo) (auto simp: l insert_now_def pr conflicts_def stored_keys_def)
  show "line_key lib l = None \<or> (\<exists>k. line_key lib l = Some (Some k) \<and> k \<in> stored_keys st) \<Longrightarrow> ig_rows (insert_now lib st l) = ig_rows st"
    using key by (cases eo) (auto simp: l insert_now_def pr conflicts_def stored_keys_def simp del: split_paired_Ex, metis option.discI)
  show "stored_keys st \<subseteq> stored_keys (insert_now lib st l)"
    by (cases eo) (auto simp: l insert_now_def pr stored_keys_def)
qed

lemma run_keys:
  "stored_keys st \<subseteq> stored_keys (foldl (insert_now lib) st lines)"
  "l \<in> set lines \<Longrightarrow> line_key lib l = Some (Some k) \<Longrightarrow> k \<in> stored_keys (foldl (insert_now lib) st lines)"
proof (induction lines rule: rev_induct)
  case (snoc x xs)
  { case 1 then show ?case using snoc(1) insert_now_keys(3) [of "foldl (insert_now lib) st xs" lib x] by simp }
  { case 2 then show ?case
      using snoc(2) insert_now_keys(1) [of lib x k "foldl (insert_now lib) st xs"] insert_now_keys(3) [of "foldl (insert_now lib) st xs" lib x] by auto }
qed simp_all

lemma run_nothing_new:
  "\<forall>l \<in> set lines. line_key lib l = None \<or> (\<exists>k. line_key lib l = Some (Some k) \<and> k \<in> stored_keys st) \<Longrightarrow>
     ig_rows (foldl (insert_now lib) st lines) = ig_rows st"
proof (induction lines arbitrary: st)
  case (Cons l lines)
  have same: "ig_rows (insert_now lib st l) = ig_rows st" using insert_now_keys(2) [of lib l st] Cons.prems by (simp del: split_paired_Ex)
  then have "stored_keys (insert_now lib st l) = stored_keys st" by (simp add: stored_keys_def)
  with Cons same show ?case by simp
qed simp

definition for_job :: "nat \<Rightarrow> raw_line \<Rightarrow> raw_line" where
  "for_job j = (\<lambda>(ctx, fmt, line). (ctx\<lparr>lc_job_id := j\<rparr>, fmt, line))"

lemma line_key_for_job: "line_key lib (for_job j l) = line_key lib l"
  by (cases l) (auto simp: for_job_def line_key_def entry_key_def entry_of_fields split: option.splits)

text \<open>
  C26: Ingesting the same lines again stores nothing. When every row a set of lines gives has a time, a second
  run over them, for another job, leaves the table as it was and reports each parsed line as a duplicate,
  however the lines fell into batches.
\<close>
theorem reingest_idempotent:
  assumes "idle st" "\<forall>l \<in> set lines. line_key lib l \<noteq> Some None"
  shows "let st1 = flush_rest (ingest_lines lib st lines); st2 = flush_rest (ingest_lines lib st1 (map (for_job j) lines)) in
      ig_rows st2 = ig_rows st1
      \<and> is_deduped_count (ig_stats st2) - is_deduped_count (ig_stats st1) = is_parsed_count (ig_stats st2) - is_parsed_count (ig_stats st1)"
proof -
  let ?st1 = "flush_rest (ingest_lines lib st lines)"
  let ?st2 = "flush_rest (ingest_lines lib ?st1 (map (for_job j) lines))"
  have st1: "?st1 = foldl (insert_now lib) st lines"
    using ingest_lines_insert [OF idle_flush(2) [OF assms(1)], of lib lines] idle_flush(1) [OF assms(1)] by simp
  have idle1: "idle ?st1" by (simp add: idle_def)
  have st2: "?st2 = foldl (insert_now lib) ?st1 (map (for_job j) lines)"
    using ingest_lines_insert [OF idle_flush(2) [OF idle1], of lib "map (for_job j) lines"] idle_flush(1) [OF idle1] by simp
  have known: "line_key lib l = None \<or> (\<exists>k. line_key lib l = Some (Some k) \<and> k \<in> stored_keys ?st1)"
    if l: "l \<in> set (map (for_job j) lines)" for l
  proof -
    obtain l0 where l0: "l0 \<in> set lines" "l = for_job j l0" using l unfolding set_map by blast
    show ?thesis
    proof (cases "line_key lib l0")
      case (Some o')
      then obtain k where "line_key lib l0 = Some (Some k)" using assms(2) l0(1) by (cases o') auto
      then show ?thesis using run_keys(2) [OF l0(1)] st1 by (simp add: l0(2) line_key_for_job)
    qed (simp add: l0(2) line_key_for_job)
  qed
  have rows: "ig_rows ?st2 = ig_rows ?st1" unfolding st2 by (rule run_nothing_new) (use known in blast)
  have "advances lib (map (for_job j) lines) ?st1 ?st2" unfolding st2 by (rule advances_run)
  then have "is_parsed_count (ig_stats ?st2) + is_deduped_count (ig_stats ?st1) = is_parsed_count (ig_stats ?st1) + is_deduped_count (ig_stats ?st2)"
    using rows by (simp add: advances_def)
  then have "is_deduped_count (ig_stats ?st2) - is_deduped_count (ig_stats ?st1) = is_parsed_count (ig_stats ?st2) - is_parsed_count (ig_stats ?st1)" by linarith
  with rows show ?thesis unfolding Let_def by blast
qed

lemma demo_line_key: "line_key demo_ingest (demo_context, fmt, line) \<noteq> Some None"
  by (auto simp: line_key_def entry_key_def entry_of_fields demo_context_def split: option.splits)

theorem reingest_idempotent_witness:
  "ig_rows (flush_rest (ingest_lines demo_ingest (flush_rest (ingest_lines demo_ingest (demo_state []) [(demo_context, ''text'', ''boom'')]))
       [for_job 2 (demo_context, ''text'', ''boom'')]))
   = ig_rows (flush_rest (ingest_lines demo_ingest (demo_state []) [(demo_context, ''text'', ''boom'')]))"
proof -
  have "idle (demo_state [])" by (simp add: idle_def demo_state_def)
  moreover have "\<forall>l \<in> set [(demo_context, ''text'', ''boom'')]. line_key demo_ingest l \<noteq> Some None" using demo_line_key by simp
  ultimately show ?thesis
    using reingest_idempotent [of "demo_state []" "[(demo_context, ''text'', ''boom'')]" demo_ingest 2] by (simp add: Let_def)
qed

end
