(* ===== verification/IngestRuns.thy ===== *)
theory IngestRuns
  imports Ingestion
begin

text \<open>
  The entry points of ingestion (\<open>core/ingestion/service.py\<close>): pushed lines, files and adapters, each with its
  job row, and the resumption of an adapter run from the cursors and completed streams of an earlier one. An
  adapter is a parameter: what a stream yields from a cursor, the cursor it stops at and how it ended.
\<close>

section \<open>Sources and jobs\<close>

record source =
  so_id :: nat
  so_name :: string
  so_type :: string

record job_row = ingestion_job +
  jr_source_id :: nat
  jr_status :: string
  jr_finished_at :: "int option"
  jr_file_count :: nat
  jr_line_count :: nat
  jr_error_count :: nat
  jr_parsed_count :: nat
  jr_error_message :: "string option"
  jr_source_adapter :: string
  jr_source_ref :: string
  jr_mode :: string
  jr_cursors :: "(string, string option) dict option"
  jr_completed_streams :: "string list option"
  jr_partial :: bool

definition get_or_create_source :: "nat \<Rightarrow> source list \<Rightarrow> string \<Rightarrow> string \<Rightarrow> source list \<times> source" where
  "get_or_create_source new_id sources name ty =
     (case find (\<lambda>s. so_name s = name) sources of
        Some s \<Rightarrow> (sources, s)
      | None \<Rightarrow> (let s = \<lparr>so_id = new_id, so_name = name, so_type = ty\<rparr> in (sources @ [s], s)))"

definition new_job :: "nat \<Rightarrow> int \<Rightarrow> string \<Rightarrow> nat \<Rightarrow> nat \<Rightarrow> string \<Rightarrow> string \<Rightarrow> string \<Rightarrow> job_row" where
  "new_job job_id now scope source_id files adapter ref mode =
     \<lparr>ij_id = job_id, ij_started_at = Some now, ij_scope = (if scope = [] then DEFAULT_LOG_SCOPE else scope), jr_source_id = source_id,
      jr_status = ''running'', jr_finished_at = None, jr_file_count = files, jr_line_count = 0, jr_error_count = 0, jr_parsed_count = 0,
      jr_error_message = None, jr_source_adapter = adapter, jr_source_ref = ref, jr_mode = mode, jr_cursors = None,
      jr_completed_streams = None, jr_partial = False\<rparr>"

definition apply_ingest_counts :: "job_row \<Rightarrow> ingest_stats \<Rightarrow> bool \<Rightarrow> job_row" where
  "apply_ingest_counts job stats adding =
     (if adding
      then job\<lparr>jr_line_count := jr_line_count job + is_lines_read stats, jr_error_count := jr_error_count job + is_error_count stats,
        jr_parsed_count := jr_parsed_count job + is_parsed_count stats\<rparr>
      else job\<lparr>jr_line_count := is_lines_read stats, jr_error_count := is_error_count stats, jr_parsed_count := is_parsed_count stats\<rparr>)"

definition completed_job :: "job_row \<Rightarrow> int \<Rightarrow> job_row" where
  "completed_job job now = job\<lparr>jr_status := ''completed'', jr_finished_at := Some now\<rparr>"

definition failed_job :: "job_row \<Rightarrow> int \<Rightarrow> string \<Rightarrow> job_row" where
  "failed_job job now message = job\<lparr>jr_status := ''failed'', jr_error_message := Some message, jr_finished_at := Some now\<rparr>"

definition fresh_state :: "stored_line list \<Rightarrow> nat \<Rightarrow> nat \<Rightarrow> ingest_state" where
  "fresh_state rows next_id files = \<lparr>ig_rows = rows, ig_next_id = next_id, ig_batch = [], ig_stats = no_stats\<lparr>is_files_processed := files\<rparr>\<rparr>"

text \<open>What every run leaves: the rows, the job and the exception it raises, if any.\<close>

record ingest_outcome =
  io_state :: ingest_state
  io_job :: job_row
  io_raised :: "string option"

section \<open>Pushed lines\<close>

definition push_context :: "source \<Rightarrow> job_row \<Rightarrow> string option \<Rightarrow> string option \<Rightarrow> string \<Rightarrow> line_context" where
  "push_context src job service env scope =
     \<lparr>lc_default_service = service, lc_default_env = env, lc_source_id = so_id src, lc_job_id = ij_id job, lc_source_adapter = ''push'',
      lc_source_ref = Some ''push'', lc_received_at = None, lc_default_host = None, lc_extra = [], lc_scope = scope\<rparr>"

definition ingest_push_lines ::
    "('z) ingest_libraries_scheme \<Rightarrow> stored_line list \<Rightarrow> nat \<Rightarrow> source \<Rightarrow> nat \<Rightarrow> int \<Rightarrow> int \<Rightarrow> string list \<Rightarrow> string option \<Rightarrow> string option
      \<Rightarrow> string \<Rightarrow> string \<Rightarrow> ingest_outcome" where
  "ingest_push_lines lib rows next_id src job_id started finished raw_lines service env fmt scope =
     (let job = new_job job_id started scope (so_id src) 0 ''push'' ''push'' ''push'';
          st = flush_rest (ingest_lines lib (fresh_state rows next_id 0)
                 (map (\<lambda>line. (push_context src job service env scope, resolve_fmt line fmt, line)) raw_lines)) in
      \<lparr>io_state = st, io_job = completed_job (apply_ingest_counts job (ig_stats st) False) finished, io_raised = None\<rparr>)"

section \<open>Files\<close>

text \<open>A file: its name without and with extension, the lines that can be read and the error that ends the reading.\<close>

record log_file =
  lf_path :: string
  lf_stem :: string
  lf_suffix :: string
  lf_lines :: "string list"
  lf_error :: "string option"

definition detect_format :: "log_file \<Rightarrow> string \<Rightarrow> string" where
  "detect_format f hint =
     (if hint \<noteq> [] \<and> hint \<noteq> ''auto'' then hint
      else if lf_suffix f \<in> {''.json'', ''.jsonl'', ''.ndjson''} then ''json''
      else
        (case find (\<lambda>l. strip_str l \<noteq> []) (lf_lines f) of
           Some l \<Rightarrow> if startswith (strip_str l) ''{'' \<and> endswith (strip_str l) ''}'' then ''json'' else ''text''
         | None \<Rightarrow> ''text''))"

definition separator :: regex where "separator = Chars (\<lambda>c. c = CHR ''-'' \<or> c = CHR ''_'')"

definition strip_separators :: "string \<Rightarrow> string" where
  "strip_separators s = (let drop = dropWhile (\<lambda>c. c = CHR ''-'' \<or> c = CHR ''_'') in rev (drop (rev (drop s))))"

definition infer_service_from_filename :: "string \<Rightarrow> string option" where
  "infer_service_from_filename stem =
     (let name1 = re_sub (Seqs [Opt separator, Times 4 digit, separator, Times 2 digit, separator, Times 2 digit, rest0, End]) [] stem;
          name2 = re_sub (Seqs [Opt separator, digits1, End]) [] name1;
          name = strip_separators name2 in
      if name \<noteq> [] then Some name else None)"

definition file_context :: "source \<Rightarrow> job_row \<Rightarrow> string option \<Rightarrow> string option \<Rightarrow> string \<Rightarrow> log_file \<Rightarrow> line_context" where
  "file_context src job service env scope f =
     \<lparr>lc_default_service = opt_or service (infer_service_from_filename (lf_stem f)), lc_default_env = env, lc_source_id = so_id src,
      lc_job_id = ij_id job, lc_source_adapter = ''file'', lc_source_ref = Some (lf_path f), lc_received_at = None,
      lc_default_host = None, lc_extra = [], lc_scope = scope\<rparr>"

fun ingest_file_loop :: "('z) ingest_libraries_scheme \<Rightarrow> (log_file \<Rightarrow> raw_line list) \<Rightarrow> ingest_state \<Rightarrow> log_file list \<Rightarrow> ingest_state \<times> string option" where
  "ingest_file_loop lib lines_of st [] = (st, None)"
| "ingest_file_loop lib lines_of st (f # fs) =
     (let st' = ingest_lines lib st (lines_of f) in
      case lf_error f of Some e \<Rightarrow> (st', Some e) | None \<Rightarrow> ingest_file_loop lib lines_of st' fs)"

definition ingest_files ::
    "('z) ingest_libraries_scheme \<Rightarrow> stored_line list \<Rightarrow> nat \<Rightarrow> source \<Rightarrow> nat \<Rightarrow> int \<Rightarrow> int \<Rightarrow> log_file list \<Rightarrow> string option \<Rightarrow> string option
      \<Rightarrow> string \<Rightarrow> string \<Rightarrow> ingest_outcome option" where
  "ingest_files lib rows next_id src job_id started finished files service env fmt scope =
     (if files = [] then None
      else
        let job = new_job job_id started scope (so_id src) (length files) ''file'' (join_str '', '' (take 5 (map lf_path files))) ''batch'';
            lines_of = (\<lambda>f. map (\<lambda>line. (file_context src job service env scope f, detect_format f fmt, line)) (lf_lines f)) in
        Some
         (case ingest_file_loop lib lines_of (fresh_state rows next_id (length files)) files of
            (st, Some e) \<Rightarrow> \<lparr>io_state = st, io_job = apply_ingest_counts (failed_job job finished e) (ig_stats st) False, io_raised = Some e\<rparr>
          | (st0, None) \<Rightarrow>
              (let st = flush_rest st0 in
               \<lparr>io_state = st, io_job = completed_job (apply_ingest_counts job (ig_stats st) False) finished, io_raised = None\<rparr>)))"

section \<open>Adapters\<close>

record stream_ref =
  sr_stream_id :: string
  sr_cursor :: "string option"

record raw_log_line =
  rl_text :: string
  rl_source_ref :: string
  rl_received_at :: "int option"
  rl_default_service :: "string option"
  rl_default_environment :: "string option"
  rl_default_host :: "string option"
  rl_extra :: json_object

record source_spec =
  ss_adapter :: string
  ss_service :: "string option"
  ss_env :: "string option"

datatype read_end = Exhausted | Unavailable string | Crashed string

type_synonym adapter = "string \<Rightarrow> string option \<Rightarrow> raw_log_line list \<times> string option \<times> read_end"

definition source_line :: "source_spec \<Rightarrow> nat \<Rightarrow> nat \<Rightarrow> string \<Rightarrow> string \<Rightarrow> raw_log_line \<Rightarrow> raw_line" where
  "source_line spec source_id job_id fmt scope raw =
     (\<lparr>lc_default_service = opt_or (ss_service spec) (rl_default_service raw), lc_default_env = opt_or (ss_env spec) (rl_default_environment raw),
       lc_source_id = source_id, lc_job_id = job_id, lc_source_adapter = ss_adapter spec, lc_source_ref = Some (rl_source_ref raw),
       lc_received_at = rl_received_at raw, lc_default_host = rl_default_host raw, lc_extra = rl_extra raw, lc_scope = scope\<rparr>,
      resolve_fmt (rl_text raw) fmt, rl_text raw)"

record source_loop =
  sl_state :: ingest_state
  sl_adapter_errors :: "string list"
  sl_cursors :: "(string, string option) dict"
  sl_completed :: "string list"
  sl_crash :: "string option"

definition read_stream ::
    "('z) ingest_libraries_scheme \<Rightarrow> adapter \<Rightarrow> (raw_log_line \<Rightarrow> raw_line) \<Rightarrow> bool \<Rightarrow> stream_ref \<Rightarrow> source_loop \<Rightarrow> source_loop" where
  "read_stream lib adapter mk finalize ref s =
     (let (raws, cursor, ending) = adapter (sr_stream_id ref) (sr_cursor ref);
          s' = s\<lparr>sl_state := ingest_lines lib (sl_state s) (map mk raws), sl_cursors := dset (sr_stream_id ref) cursor (sl_cursors s)\<rparr> in
      case ending of
        Unavailable e \<Rightarrow> s'\<lparr>sl_adapter_errors := sl_adapter_errors s @ [e]\<rparr>
      | Crashed e \<Rightarrow> s'\<lparr>sl_crash := Some e\<rparr>
      | Exhausted \<Rightarrow>
          (if finalize \<and> cursor = None \<and> sr_stream_id ref \<notin> set (sl_completed s)
           then s'\<lparr>sl_completed := sl_completed s @ [sr_stream_id ref]\<rparr> else s'))"

definition source_step ::
    "('z) ingest_libraries_scheme \<Rightarrow> adapter \<Rightarrow> (raw_log_line \<Rightarrow> raw_line) \<Rightarrow> bool \<Rightarrow> string list \<Rightarrow> source_loop \<Rightarrow> stream_ref \<Rightarrow> source_loop" where
  "source_step lib adapter mk finalize done_before s ref =
     (if sl_crash s \<noteq> None \<or> sr_stream_id ref \<in> set done_before then s else read_stream lib adapter mk finalize ref s)"

definition apply_resume_cursors :: "(string, string option) dict \<Rightarrow> string list \<Rightarrow> stream_ref list \<Rightarrow> stream_ref list" where
  "apply_resume_cursors cursors done_before refs =
     map (\<lambda>r. case dget cursors (sr_stream_id r) of
            Some c \<Rightarrow> if sr_stream_id r \<notin> set done_before then r\<lparr>sr_cursor := c\<rparr> else r
          | None \<Rightarrow> r) refs"

definition store_job_cursors :: "job_row \<Rightarrow> source_loop \<Rightarrow> bool \<Rightarrow> job_row" where
  "store_job_cursors job s finalize =
     (let job' = job\<lparr>jr_cursors := Some (sl_cursors s)\<rparr> in
      if finalize
      then job'\<lparr>jr_completed_streams := Some (sort (sl_completed s)), jr_partial := (if sl_adapter_errors s \<noteq> [] then True else jr_partial job')\<rparr>
      else job')"

text \<open>The job of a run: the one given, or a new one.\<close>

definition source_job :: "source_spec \<Rightarrow> nat \<Rightarrow> nat \<Rightarrow> int \<Rightarrow> string \<Rightarrow> stream_ref list \<Rightarrow> job_row option \<Rightarrow> job_row" where
  "source_job spec source_id job_id started scope refs existing =
     (let ref = join_str '', '' (map sr_stream_id (take 5 refs)) in
      case existing of
        Some j \<Rightarrow> j\<lparr>jr_source_ref := (if jr_source_ref j = [] then ref else jr_source_ref j), jr_file_count := max (jr_file_count j) (length refs)\<rparr>
      | None \<Rightarrow> new_job job_id started scope source_id (length refs) (ss_adapter spec) ref ''batch'')"

definition source_loop_run ::
    "('z) ingest_libraries_scheme \<Rightarrow> adapter \<Rightarrow> (raw_log_line \<Rightarrow> raw_line) \<Rightarrow> bool \<Rightarrow> string list \<Rightarrow> ingest_state \<Rightarrow> stream_ref list \<Rightarrow> source_loop" where
  "source_loop_run lib adapter mk finalize done_before st refs =
     foldl (source_step lib adapter mk finalize done_before)
       \<lparr>sl_state = st, sl_adapter_errors = [], sl_cursors = [], sl_completed = dedup done_before, sl_crash = None\<rparr> refs"

definition ingest_from_source ::
    "('z) ingest_libraries_scheme \<Rightarrow> adapter \<Rightarrow> stored_line list \<Rightarrow> nat \<Rightarrow> nat \<Rightarrow> nat \<Rightarrow> int \<Rightarrow> int \<Rightarrow> source_spec \<Rightarrow> stream_ref list
      \<Rightarrow> (string, string option) dict \<Rightarrow> string list \<Rightarrow> job_row option \<Rightarrow> bool \<Rightarrow> string \<Rightarrow> string \<Rightarrow> ingest_outcome option" where
  "ingest_from_source lib adapter rows next_id source_id job_id started finished spec discovered cursors done_before existing finalize fmt scope =
     (if discovered = [] then None
      else
        let refs = apply_resume_cursors cursors done_before discovered;
            job = source_job spec source_id job_id started scope refs existing;
            s = source_loop_run lib adapter (source_line spec source_id (ij_id job) fmt scope) finalize done_before
                  (fresh_state rows next_id (length refs)) refs;
            failure = (\<lambda>e.
              \<lparr>io_state = sl_state s,
               io_job = (if finalize then store_job_cursors (apply_ingest_counts (failed_job job finished e) (ig_stats (sl_state s)) (existing \<noteq> None)) s True
                         else job),
               io_raised = Some e\<rparr>) in
        Some
         (case sl_crash s of
            Some e \<Rightarrow> failure e
          | None \<Rightarrow>
              (if sl_adapter_errors s \<noteq> [] \<and> is_lines_read (ig_stats (sl_state s)) = 0 then failure (join_str ''; '' (sl_adapter_errors s))
               else
                 (let st = flush_rest (sl_state s);
                      job1 = store_job_cursors (apply_ingest_counts job (ig_stats st) (existing \<noteq> None)) s finalize in
                  \<lparr>io_state = st, io_job = (if finalize then completed_job job1 finished else job1), io_raised = None\<rparr>))))"

section \<open>Resumption\<close>

text \<open>What identifies the row of a line: scope, source, hash and time, the time possibly missing.\<close>

definition row_id :: "stored_line \<Rightarrow> string \<times> string \<times> string \<times> int option" where
  "row_id e = (lr_scope e, sl_source_ref e, sl_original_line_hash e, lr_timestamp e)"

definition line_id :: "('z) ingest_libraries_scheme \<Rightarrow> raw_line \<Rightarrow> (string \<times> string \<times> string \<times> int option) option" where
  "line_id lib = (\<lambda>(ctx, fmt, line). map_option row_id (fst (process_line lib ctx fmt line 0 no_stats)))"

text \<open>The lines that would leave no row have nothing to lose.\<close>

definition has_row :: "('z) ingest_libraries_scheme \<Rightarrow> stored_line list \<Rightarrow> raw_line \<Rightarrow> bool" where
  "has_row lib rows l = (case line_id lib l of None \<Rightarrow> True | Some i \<Rightarrow> i \<in> row_id ` set rows)"

lemma process_line_id_eq: "map_option row_id (fst (process_line lib ctx fmt line n s)) = line_id lib (ctx, fmt, line)"
  by (auto simp: line_id_def process_line_def row_id_def entry_of_fields Let_def split: option.splits)

lemma has_row_mono: "set rows \<subseteq> set rows' \<Longrightarrow> has_row lib rows l \<Longrightarrow> has_row lib rows' l"
  by (auto simp: has_row_def split: option.splits)

lemma insert_now_grows: "\<exists>new. ig_rows (insert_now lib st l) = ig_rows st @ new"
  by (cases l) (auto simp: insert_now_def split: option.splits prod.splits)

lemma insert_now_has_row: "has_row lib (ig_rows (insert_now lib st l)) l"
proof -
  obtain ctx fmt line where l: "l = (ctx, fmt, line)" by (cases l)
  obtain eo s' where pr: "process_line lib ctx fmt line (ig_next_id st) (ig_stats st) = (eo, s')" by force
  have i: "line_id lib l = map_option row_id eo" using process_line_id_eq [of lib ctx fmt line "ig_next_id st" "ig_stats st"] by (simp add: pr l)
  show ?thesis
  proof (cases eo)
    case (Some e)
    have "row_id e \<in> row_id ` set (ig_rows st)" if c: "conflicts (ig_rows st) e"
    proof -
      from c obtain e' where e': "e' \<in> set (ig_rows st)" "entry_key e = entry_key e'" "entry_key e \<noteq> None"
        unfolding conflicts_def by blast
      then have "row_id e = row_id e'" by (auto simp: entry_key_def row_id_def)
      with e'(1) show ?thesis by blast
    qed
    then show ?thesis using Some i by (auto simp: has_row_def l insert_now_def pr)
  qed (simp add: has_row_def i)
qed

lemma run_has_rows:
  "set (ig_rows st) \<subseteq> set (ig_rows (foldl (insert_now lib) st lines))"
  "l \<in> set lines \<Longrightarrow> has_row lib (ig_rows (foldl (insert_now lib) st lines)) l"
proof (induction lines rule: rev_induct)
  case (snoc x xs)
  have grows: "set (ig_rows (foldl (insert_now lib) st xs)) \<subseteq> set (ig_rows (foldl (insert_now lib) st (xs @ [x])))"
    using insert_now_grows [of lib "foldl (insert_now lib) st xs" x] by auto
  { case 1 then show ?case using snoc(1) grows by blast }
  { case 2 then show ?case using snoc(2) insert_now_has_row [of lib "foldl (insert_now lib) st xs" x] has_row_mono [OF grows, of lib l] by auto }
qed simp_all

text \<open>The row of an adapter's line does not depend on the job and the source it is read for.\<close>

lemma source_line_id: "line_id lib (source_line spec s j fmt scope raw) = line_id lib (source_line spec 0 0 fmt scope raw)"
  by (auto simp: line_id_def source_line_def process_line_def row_id_def entry_of_fields Let_def split: option.splits)

definition kept :: "('z) ingest_libraries_scheme \<Rightarrow> source_spec \<Rightarrow> string \<Rightarrow> string \<Rightarrow> stored_line list \<Rightarrow> raw_log_line list \<Rightarrow> bool" where
  "kept lib spec fmt scope rows raws = list_all (\<lambda>r. has_row lib rows (source_line spec 0 0 fmt scope r)) raws"

lemma kept_mono: "set rows \<subseteq> set rows' \<Longrightarrow> kept lib spec fmt scope rows raws \<Longrightarrow> kept lib spec fmt scope rows' raws"
  unfolding kept_def list_all_iff by (blast intro: has_row_mono)

lemma kept_append [simp]: "kept lib spec fmt scope rows (xs @ ys) \<longleftrightarrow> kept lib spec fmt scope rows xs \<and> kept lib spec fmt scope rows ys"
  by (simp add: kept_def)

lemma kept_Nil [simp]: "kept lib spec fmt scope rows []" by (simp add: kept_def)

lemma kept_take: "kept lib spec fmt scope rows (take n xs) \<Longrightarrow> m \<le> n \<Longrightarrow> kept lib spec fmt scope rows (take m xs)"
  by (auto simp: kept_def list_all_iff dest: set_take_subset_set_take [THEN subsetD])

lemma run_kept:
  "kept lib spec fmt scope (ig_rows (foldl (insert_now lib) st (map (source_line spec s j fmt scope) raws))) raws"
proof -
  have "has_row lib (ig_rows (foldl (insert_now lib) st (map (source_line spec s j fmt scope) raws))) (source_line spec 0 0 fmt scope r)"
    if r: "r \<in> set raws" for r
  proof -
    have "source_line spec s j fmt scope r \<in> set (map (source_line spec s j fmt scope) raws)" using r by simp
    from run_has_rows(2) [OF this, of lib st] show ?thesis using source_line_id [of lib spec s j fmt scope r] by (simp add: has_row_def)
  qed
  then show ?thesis by (simp add: kept_def list_all_iff)
qed

text \<open>
  What an earlier run leaves for a later one is sound: below each saved cursor, and in each stream listed as
  completed, every line has its row.
\<close>

definition resume_point ::
    "('z) ingest_libraries_scheme \<Rightarrow> (string \<Rightarrow> raw_log_line list) \<Rightarrow> (string \<Rightarrow> string option \<Rightarrow> nat) \<Rightarrow> source_spec \<Rightarrow> string \<Rightarrow> string
      \<Rightarrow> stored_line list \<Rightarrow> (string, string option) dict \<Rightarrow> string list \<Rightarrow> bool" where
  "resume_point lib content pos spec fmt scope rows cursors completed =
     (list_all (\<lambda>(sid, c). kept lib spec fmt scope rows (take (pos sid c) (content sid))) cursors
      \<and> list_all (\<lambda>sid. kept lib spec fmt scope rows (content sid)) completed)"

lemma set_dset_subset: "set (dset k v d) \<subseteq> insert (k, v) (set d)" by (induction d) auto

lemma resume_point_mono:
  "set rows \<subseteq> set rows' \<Longrightarrow> resume_point lib content pos spec fmt scope rows cursors completed
     \<Longrightarrow> resume_point lib content pos spec fmt scope rows' cursors completed"
  by (auto simp: resume_point_def list_all_iff intro: kept_mono)

text \<open>
  The contract of a resumable adapter: a stream has a content, a cursor a position in it, reading from a
  cursor yields what follows the position, the cursor it leaves is not past what it yielded, and one that ends
  without a cursor has yielded everything.
\<close>

locale resumable_adapter =
  fixes content :: "string \<Rightarrow> raw_log_line list" and pos :: "string \<Rightarrow> string option \<Rightarrow> nat" and adapter :: adapter
  assumes start: "pos sid None = 0"
    and yields: "adapter sid c = (raws, c', ending) \<Longrightarrow> raws = take (length raws) (drop (pos sid c) (content sid))"
    and behind: "adapter sid c = (raws, c', ending) \<Longrightarrow> c' \<noteq> None \<Longrightarrow> pos sid c' \<le> pos sid c + length raws"
    and complete: "adapter sid c = (raws, None, Exhausted) \<Longrightarrow> raws = drop (pos sid c) (content sid)"
begin

lemma read_prefix:
  assumes "adapter sid c = (raws, c', ending)" "kept lib spec fmt scope rows (take (pos sid c) (content sid))" "kept lib spec fmt scope rows raws"
  shows "kept lib spec fmt scope rows (take (pos sid c') (content sid))"
    "c' = None \<and> ending = Exhausted \<Longrightarrow> kept lib spec fmt scope rows (content sid)"
proof -
  have all: "kept lib spec fmt scope rows (take (pos sid c + length raws) (content sid))"
    using assms(2,3) yields [OF assms(1)] by (simp add: take_add)
  show "kept lib spec fmt scope rows (take (pos sid c') (content sid))"
  proof (cases "c' = None")
    case False
    from kept_take [OF all behind [OF assms(1) False]] show ?thesis .
  qed (simp add: start)
  assume "c' = None \<and> ending = Exhausted"
  then have "raws = drop (pos sid c) (content sid)" using assms(1) complete by blast
  with assms(2,3) kept_append [of lib spec fmt scope rows "take (pos sid c) (content sid)" "drop (pos sid c) (content sid)"]
  show "kept lib spec fmt scope rows (content sid)" by simp
qed

text \<open>The loop keeps the saved cursors and completed streams sound, counting the lines still in the batch as stored.\<close>

definition loop_sound :: "('z) ingest_libraries_scheme \<Rightarrow> source_spec \<Rightarrow> string \<Rightarrow> string \<Rightarrow> source_loop \<Rightarrow> bool" where
  "loop_sound lib spec fmt scope s \<longleftrightarrow> state_ok (sl_state s) \<and>
     resume_point lib content pos spec fmt scope (ig_rows (flush_rest (sl_state s))) (sl_cursors s) (sl_completed s)"

lemma read_stream_sound:
  assumes s: "loop_sound lib spec fmt scope s"
    and r: "kept lib spec fmt scope (ig_rows (flush_rest (sl_state s))) (take (pos (sr_stream_id ref) (sr_cursor ref)) (content (sr_stream_id ref)))"
    and s'_def: "s' = read_stream lib adapter (source_line spec a b fmt scope) finalize ref s"
  shows "loop_sound lib spec fmt scope s'" "set (ig_rows (flush_rest (sl_state s))) \<subseteq> set (ig_rows (flush_rest (sl_state s')))"
proof -
  let ?sid = "sr_stream_id ref" and ?mk = "source_line spec a b fmt scope"
  obtain raws c' ending where ad: "adapter ?sid (sr_cursor ref) = (raws, c', ending)" by (metis prod_cases3)
  have ok: "state_ok (sl_state s)" using s by (simp add: loop_sound_def)
  let ?st = "ingest_lines lib (sl_state s) (map ?mk raws)"
  have rows: "flush_rest ?st = foldl (insert_now lib) (flush_rest (sl_state s)) (map ?mk raws)" by (rule ingest_lines_insert [OF ok])
  have grow: "set (ig_rows (flush_rest (sl_state s))) \<subseteq> set (ig_rows (flush_rest ?st))" unfolding rows by (rule run_has_rows(1))
  have new: "kept lib spec fmt scope (ig_rows (flush_rest ?st)) raws" unfolding rows by (rule run_kept)
  have parts: "kept lib spec fmt scope (ig_rows (flush_rest ?st)) (take (pos ?sid c') (content ?sid))"
    "c' = None \<and> ending = Exhausted \<Longrightarrow> kept lib spec fmt scope (ig_rows (flush_rest ?st)) (content ?sid)"
    using read_prefix [OF ad kept_mono [OF grow r] new] by blast+
  have st': "sl_state s' = ?st" by (simp add: s'_def read_stream_def ad Let_def split: read_end.splits)
  have cur: "sl_cursors s' = dset ?sid c' (sl_cursors s)" by (simp add: s'_def read_stream_def ad Let_def split: read_end.splits)
  have comp: "set (sl_completed s') \<subseteq> set (sl_completed s) \<or> (c' = None \<and> ending = Exhausted \<and> set (sl_completed s') \<subseteq> insert ?sid (set (sl_completed s)))"
    by (auto simp: s'_def read_stream_def ad Let_def split: read_end.splits)
  have old: "resume_point lib content pos spec fmt scope (ig_rows (flush_rest ?st)) (sl_cursors s) (sl_completed s)"
    using s resume_point_mono [OF grow, of lib content pos spec fmt scope "sl_cursors s" "sl_completed s"] by (simp add: loop_sound_def)
  have "resume_point lib content pos spec fmt scope (ig_rows (flush_rest ?st)) (dset ?sid c' (sl_cursors s)) (sl_completed s')"
    using old parts comp set_dset_subset [of ?sid c' "sl_cursors s"] unfolding resume_point_def list_all_iff by fastforce
  moreover have "state_ok ?st" by (rule ingest_lines_ok [OF ok])
  ultimately show "loop_sound lib spec fmt scope s'" by (simp add: loop_sound_def st' cur)
  show "set (ig_rows (flush_rest (sl_state s))) \<subseteq> set (ig_rows (flush_rest (sl_state s')))" using grow by (simp add: st')
qed

lemma loop_run_sound:
  assumes "loop_sound lib spec fmt scope s" "set rows \<subseteq> set (ig_rows (flush_rest (sl_state s)))"
    and "\<forall>r \<in> set refs. sr_stream_id r \<in> set done_before \<or> kept lib spec fmt scope rows (take (pos (sr_stream_id r) (sr_cursor r)) (content (sr_stream_id r)))"
    and "s' = foldl (source_step lib adapter (source_line spec a b fmt scope) finalize done_before) s refs"
  shows "loop_sound lib spec fmt scope s' \<and> set rows \<subseteq> set (ig_rows (flush_rest (sl_state s')))"
  using assms
proof (induction refs arbitrary: s)
  case (Cons r refs)
  let ?s' = "source_step lib adapter (source_line spec a b fmt scope) finalize done_before s r"
  have "loop_sound lib spec fmt scope ?s' \<and> set rows \<subseteq> set (ig_rows (flush_rest (sl_state ?s')))"
  proof (cases "sl_crash s \<noteq> None \<or> sr_stream_id r \<in> set done_before")
    case True
    then show ?thesis using Cons.prems by (simp add: source_step_def)
  next
    case False
    have "kept lib spec fmt scope (ig_rows (flush_rest (sl_state s))) (take (pos (sr_stream_id r) (sr_cursor r)) (content (sr_stream_id r)))"
      using Cons.prems False by (auto intro: kept_mono)
    from read_stream_sound [OF Cons.prems(1) this refl, of a b finalize] show ?thesis
      using Cons.prems(2) False by (auto simp: source_step_def)
  qed
  with Cons.IH [of ?s'] Cons.prems(3,4) show ?case by simp
qed simp

lemma resumed_refs:
  assumes "resume_point lib content pos spec fmt scope rows cursors done_before" "list_all (\<lambda>r. sr_cursor r = None) discovered"
    and "r \<in> set (apply_resume_cursors cursors done_before discovered)"
  shows "sr_stream_id r \<in> set done_before \<or> kept lib spec fmt scope rows (take (pos (sr_stream_id r) (sr_cursor r)) (content (sr_stream_id r)))"
proof -
  obtain r0 where r0: "r0 \<in> set discovered" "sr_cursor r0 = None"
    "r = (case dget cursors (sr_stream_id r0) of Some c \<Rightarrow> if sr_stream_id r0 \<notin> set done_before then r0\<lparr>sr_cursor := c\<rparr> else r0 | None \<Rightarrow> r0)"
    using assms(2,3) by (auto simp: apply_resume_cursors_def list_all_iff)
  show ?thesis
  proof (cases "dget cursors (sr_stream_id r0)")
    case (Some c)
    with assms(1) r0 show ?thesis by (auto simp: resume_point_def list_all_iff dest: dget_mem)
  qed (simp add: r0 start)
qed

lemma resumed_run:
  assumes "resume_point lib content pos spec fmt scope rows cursors done_before" "list_all (\<lambda>r. sr_cursor r = None) discovered"
    and "ingest_from_source lib adapter rows next_id sid jid t0 t1 spec discovered cursors done_before existing finalize fmt scope = Some out"
    and "io_raised out = None"
  shows "resume_point lib content pos spec fmt scope (ig_rows (io_state out)) (the (jr_cursors (io_job out)))
     (if finalize then the (jr_completed_streams (io_job out)) else done_before)"
proof -
  let ?refs = "apply_resume_cursors cursors done_before discovered"
  let ?job = "source_job spec sid jid t0 scope ?refs existing"
  let ?s = "source_loop_run lib adapter (source_line spec sid (ij_id ?job) fmt scope) finalize done_before (fresh_state rows next_id (length ?refs)) ?refs"
  let ?init = "\<lparr>sl_state = fresh_state rows next_id (length ?refs), sl_adapter_errors = [], sl_cursors = [], sl_completed = dedup done_before, sl_crash = None\<rparr>"
  have init: "flush_rest (fresh_state rows next_id (length ?refs)) = fresh_state rows next_id (length ?refs)" "state_ok (fresh_state rows next_id (length ?refs))"
    by (simp_all add: idle_flush idle_def fresh_state_def)
  have loop0: "loop_sound lib spec fmt scope ?init"
    using assms(1) by (simp add: loop_sound_def init) (simp add: fresh_state_def resume_point_def list_all_iff)
  have "loop_sound lib spec fmt scope ?s \<and> set rows \<subseteq> set (ig_rows (flush_rest (sl_state ?s)))"
    by (rule loop_run_sound [OF loop0 _ _ source_loop_run_def, where rows = rows])
      (use resumed_refs [OF assms(1,2)] init in \<open>auto simp: fresh_state_def\<close>)
  then have sound: "loop_sound lib spec fmt scope ?s" and grow: "set rows \<subseteq> set (ig_rows (flush_rest (sl_state ?s)))" by blast+
  have out: "ig_rows (io_state out) = ig_rows (flush_rest (sl_state ?s))" "jr_cursors (io_job out) = Some (sl_cursors ?s)"
    "finalize \<Longrightarrow> jr_completed_streams (io_job out) = Some (sort (sl_completed ?s))"
    using assms(3,4)
    by (auto simp: ingest_from_source_def Let_def store_job_cursors_def completed_job_def split: if_splits option.splits)
  show ?thesis
    using sound assms(1) resume_point_mono [OF grow assms(1)] out by (auto simp: loop_sound_def resume_point_def list_all_iff)
qed

end

section \<open>The file adapter\<close>

text \<open>It ignores the cursor and never sets one: a file that cannot be read to its end raises.\<close>

definition file_read :: "log_file list \<Rightarrow> adapter" where
  "file_read files sid cursor =
     (case find (\<lambda>f. lf_path f = sid) files of
        None \<Rightarrow> ([], cursor, Crashed (''Cannot read file '' @ sid))
      | Some f \<Rightarrow>
          (map (\<lambda>line. \<lparr>rl_text = line, rl_source_ref = sid, rl_received_at = None, rl_default_service = None,
                  rl_default_environment = None, rl_default_host = None, rl_extra = []\<rparr>) (lf_lines f),
           cursor, case lf_error f of None \<Rightarrow> Exhausted | Some e \<Rightarrow> Crashed e))"

definition file_content :: "log_file list \<Rightarrow> string \<Rightarrow> raw_log_line list" where
  "file_content files sid = fst (file_read files sid None)"

interpretation files: resumable_adapter "file_content files" "\<lambda>_ _. 0" "file_read files" for files
  by unfold_locales (auto simp: file_content_def file_read_def split: option.splits)

text \<open>
  C17: Resuming loses nothing. For every adapter that keeps the contract of resumable reading, a run that is given
  the cursors and completed streams of an earlier one and ends without raising leaves, in its job row, cursors and
  completed streams that are sound again: below each saved cursor and in each completed stream every line
  that makes a row has its row, whatever streams failed on the way. So any chain of resumed runs keeps
  everything read so far.
\<close>
theorem resume_loses_nothing:
  assumes "resumable_adapter content pos adapter"
    and "resume_point lib content pos spec fmt scope rows cursors done_before"
    and "list_all (\<lambda>r. sr_cursor r = None) discovered"
    and "ingest_from_source lib adapter rows next_id sid jid t0 t1 spec discovered cursors done_before existing finalize fmt scope = Some out"
    and "io_raised out = None"
  shows "resume_point lib content pos spec fmt scope (ig_rows (io_state out)) (the (jr_cursors (io_job out)))
     (if finalize then the (jr_completed_streams (io_job out)) else done_before)"
  using assms by (rule resumable_adapter.resumed_run)

definition demo_spec :: source_spec where "demo_spec = \<lparr>ss_adapter = ''file'', ss_service = None, ss_env = None\<rparr>"

definition demo_files :: "log_file list" where
  "demo_files = [\<lparr>lf_path = ''a.log'', lf_stem = ''a'', lf_suffix = ''.log'', lf_lines = [''boom''], lf_error = None\<rparr>]"

definition demo_run :: ingest_outcome where
  "demo_run = the (ingest_from_source demo_ingest (file_read demo_files) [] 0 1 1 0 9 demo_spec [\<lparr>sr_stream_id = ''a.log'', sr_cursor = None\<rparr>]
     [] [] None True ''auto'' ''default'')"

theorem resume_loses_nothing_witness:
  "jr_completed_streams (io_job demo_run) = Some [''a.log'']
   \<and> kept demo_ingest demo_spec ''auto'' ''default'' (ig_rows (io_state demo_run)) (file_content demo_files ''a.log'')"
proof -
  have run: "ingest_from_source demo_ingest (file_read demo_files) [] 0 1 1 0 9 demo_spec [\<lparr>sr_stream_id = ''a.log'', sr_cursor = None\<rparr>]
      [] [] None True ''auto'' ''default'' = Some demo_run"
    by (simp add: demo_run_def ingest_from_source_def Let_def)
  have end_state: "io_raised demo_run = None" "jr_completed_streams (io_job demo_run) = Some [''a.log'']"
    by (simp_all add: demo_run_def ingest_from_source_def source_loop_run_def source_step_def read_stream_def apply_resume_cursors_def
        file_read_def demo_files_def store_job_cursors_def completed_job_def Let_def)
  have "resume_point demo_ingest (file_content demo_files) (\<lambda>_ _. 0) demo_spec ''auto'' ''default'' (ig_rows (io_state demo_run))
      (the (jr_cursors (io_job demo_run))) (if True then the (jr_completed_streams (io_job demo_run)) else [])"
    by (rule resume_loses_nothing [OF files.resumable_adapter_axioms _ _ run end_state(1)]) (simp_all add: resume_point_def)
  then show ?thesis using end_state(2) by (simp add: resume_point_def)
qed

section \<open>Runs that lose or refuse\<close>

text \<open>
  An exception other than \<open>AdapterUnavailableError\<close> ends a run with the batch unwritten, but the job still
  lists the streams read before it as completed: a resumed run skips them, and their last lines are never stored.
\<close>
lemma ingest_step_pending:
  assumes "ig_batch st = []"
  shows "ig_rows (ingest_step lib st l) = ig_rows st" "ig_batch (ingest_step lib st l) = [] \<longleftrightarrow> line_id lib l = None"
proof -
  obtain ctx fmt line where l: "l = (ctx, fmt, line)" by (cases l)
  obtain eo s' where pr: "process_line lib ctx fmt line (ig_next_id st) (ig_stats st) = (eo, s')" by force
  have "line_id lib l = map_option row_id eo" using process_line_id_eq [of lib ctx fmt line "ig_next_id st" "ig_stats st"] by (simp add: pr l)
  then show "ig_rows (ingest_step lib st l) = ig_rows st" "ig_batch (ingest_step lib st l) = [] \<longleftrightarrow> line_id lib l = None"
    using assms by (cases eo; simp add: ingest_step_def l pr BATCH_SIZE_def)+
qed

lemma crash_forgets_pending:
  assumes "line_id lib (source_line spec sid jid fmt scope raw) \<noteq> None"
    and "adapter ''a'' None = ([raw], None, Exhausted)" "adapter ''b'' None = ([], None, Crashed e)"
    and "out = ingest_from_source lib adapter [] 0 sid jid t0 t1 spec [\<lparr>sr_stream_id = ''a'', sr_cursor = None\<rparr>, \<lparr>sr_stream_id = ''b'', sr_cursor = None\<rparr>]
        [] [] None True fmt scope"
  shows "map_option (\<lambda>out. (ig_rows (io_state out), ig_batch (io_state out) = [], jr_completed_streams (io_job out), jr_status (io_job out))) out
     = Some ([], False, Some [''a''], ''failed'')"
proof -
  have jid: "ij_id (new_job jid t0 scope sid 2 (ss_adapter spec) ref ''batch'') = jid" for ref by (simp add: new_job_def)
  have empty: "ig_batch (fresh_state [] 0 2) = []" "ig_rows (fresh_state [] 0 2) = []" by (simp_all add: fresh_state_def)
  note step = ingest_step_pending [OF empty(1), of lib "source_line spec sid jid fmt scope raw"]
  show ?thesis
    using step assms
    by (simp add: ingest_from_source_def apply_resume_cursors_def source_job_def source_loop_run_def source_step_def read_stream_def
        ingest_lines_def empty store_job_cursors_def failed_job_def apply_ingest_counts_def Let_def jid numeral_2_eq_2 [symmetric] split: prod.splits)
qed

text \<open>A stream that was read to its end and is empty does not count against the failure of another one.\<close>

lemma healthy_empty_stream_fails_job:
  assumes "adapter ''a'' None = ([], None, Exhausted)" "adapter ''b'' None = ([], None, Unavailable e)"
    and "out = ingest_from_source lib adapter rows n sid jid t0 t1 spec [\<lparr>sr_stream_id = ''a'', sr_cursor = None\<rparr>, \<lparr>sr_stream_id = ''b'', sr_cursor = None\<rparr>]
        [] [] None True fmt scope"
  shows "map_option (\<lambda>out. (io_raised out, jr_status (io_job out), jr_completed_streams (io_job out))) out = Some (Some e, ''failed'', Some [''a''])"
  using assms
  by (auto simp: ingest_from_source_def apply_resume_cursors_def source_job_def source_loop_run_def source_step_def read_stream_def
      ingest_lines_def fresh_state_def store_job_cursors_def failed_job_def apply_ingest_counts_def no_stats_def Let_def)

end
