(* ===== verification/Retention.thy ===== *)
theory Retention
  imports TimeWindows Interfaces
begin

text \<open>
  Retention (\<open>core/retention/policy.py\<close>, \<open>core/retention/purge.py\<close>): interval strings, the policy of a
  scope, and the chunked purge of expired rows. The database is a record of tables with the columns
  the purge reads; ids are naturals in place of UUIDs, stored times are instants in microseconds. A
  delete follows the foreign keys declared ON DELETE CASCADE in \<open>db/models.py\<close>. Operations return the
  session's tables together with their result, so what was deleted before an exception is visible;
  commits are not separated from the session. ISO printing and parsing of a stamp are parameters.
\<close>

section \<open>Policies\<close>

definition NEVER_TOKENS :: "string set" where
  "NEVER_TOKENS = {[], ''0'', ''off'', ''none'', ''never'', ''false''}"

record retention_policy =
  rp_scope :: string
  raw_interval :: string
  summary_interval :: string

fun is_value_error :: "py_error \<Rightarrow> bool" where
  "is_value_error (ValueError _) = True"
| "is_value_error _ = False"

definition is_retention_disabled :: "string option \<Rightarrow> bool res" where
  "is_retention_disabled v =
     (case v of
        None \<Rightarrow> Inr True
      | Some s \<Rightarrow>
          (let stripped = lower_str (strip_str s) in
           if stripped \<in> NEVER_TOKENS then Inr True
           else (case parse_duration stripped of
                   Inr d \<Rightarrow> Inr (d \<le> 0)
                 | Inl e \<Rightarrow> if is_value_error e then Inr False else Inl e)))"

definition parse_retention_interval :: "string option \<Rightarrow> timedelta option res" where
  "parse_retention_interval v =
     (case v of
        None \<Rightarrow> Inr None
      | Some s \<Rightarrow>
          (let stripped = strip_str s in
           if lower_str stripped \<in> NEVER_TOKENS then Inr None
           else if list_ex is_space stripped then Inl (ValueError ''Cannot parse retention interval'')
           else rbind (parse_duration stripped) (\<lambda>delta. Inr (if delta \<le> 0 then None else Some delta))))"

definition compute_cutoff :: "string option \<Rightarrow> datetime \<Rightarrow> datetime option res" where
  "compute_cutoff interval now =
     rbind (parse_retention_interval interval) (\<lambda>delta.
       case delta of None \<Rightarrow> Inr None | Some d \<Rightarrow> rbind (datetime_minus (as_utc now) d) (\<lambda>c. Inr (Some c)))"

definition validate_policy_intervals :: "retention_policy \<Rightarrow> unit res" where
  "validate_policy_intervals p =
     rbind (parse_retention_interval (Some (raw_interval p))) (\<lambda>_.
     rbind (parse_retention_interval (Some (summary_interval p))) (\<lambda>_. Inr ()))"

definition apply_scope_override ::
    "string \<Rightarrow> string \<Rightarrow> string \<Rightarrow> string option \<Rightarrow> string option \<Rightarrow> retention_policy" where
  "apply_scope_override scope default_raw default_summary override_raw override_summary =
     \<lparr>rp_scope = scope, raw_interval = (case override_raw of None \<Rightarrow> default_raw | Some r \<Rightarrow> r),
      summary_interval = (case override_summary of None \<Rightarrow> default_summary | Some s \<Rightarrow> s)\<rparr>"

section \<open>Tables\<close>

record stored_log = lr_id :: nat lr_scope :: string lr_created_at :: int
record log_embedding = le_id :: nat le_log_entry_id :: nat
record cluster_member = mb_id :: nat mb_cluster_id :: nat mb_log_entry_id :: nat
record cluster_embedding = ce_id :: nat ce_scope :: string ce_last_seen :: "int option" ce_updated_at :: int ce_created_at :: int
record purge_run = pr_id :: nat pr_scope :: string pr_window_end :: int pr_created_at :: int
record purge_cluster = pk_id :: nat pk_cluster_run_id :: nat
record explanation = ex_id :: nat ex_scope :: string ex_created_at :: int
record scope_retention = sr_scope :: string sr_raw_interval :: "string option" sr_summary_interval :: "string option"

record worker_job =
  wj_id :: nat
  wj_job_type :: string
  wj_status :: string
  wj_payload :: pyval
  wj_result :: "pyval option"
  wj_error :: "py_error option"
  wj_created_at :: int
  wj_started_at :: "int option"
  wj_finished_at :: "int option"

record retention_db =
  rd_logs :: "stored_log list"
  rd_log_embeddings :: "log_embedding list"
  rd_members :: "cluster_member list"
  rd_cluster_embeddings :: "cluster_embedding list"
  rd_runs :: "purge_run list"
  rd_clusters :: "purge_cluster list"
  rd_explanations :: "explanation list"
  rd_retention :: "scope_retention list"
  rd_jobs :: "worker_job list"
  rd_app_config :: "(string, pyval) dict"
  rd_purge_rows :: "(string, nat) dict"

record retention_settings =
  retention_raw :: string
  retention_summary :: string
  purge_interval_seconds :: int
  purge_chunk_size :: int

definition resolve_scope_policy :: "retention_db \<Rightarrow> string \<Rightarrow> retention_settings \<Rightarrow> retention_policy" where
  "resolve_scope_policy db scope cfg =
     (let row = find (\<lambda>r. sr_scope r = scope) (rd_retention db) in
      apply_scope_override scope (retention_raw cfg) (retention_summary cfg)
        (Option.bind row sr_raw_interval) (Option.bind row sr_summary_interval))"

section \<open>Queries\<close>

text \<open>\<open>SELECT id WHERE p ORDER BY expiry, id LIMIT n\<close>.\<close>

definition oldest_ids :: "('r \<Rightarrow> int) \<Rightarrow> ('r \<Rightarrow> nat) \<Rightarrow> ('r \<Rightarrow> bool) \<Rightarrow> nat \<Rightarrow> 'r list \<Rightarrow> nat list" where
  "oldest_ids expiry rid p limit rows = take limit (map rid (sort_key (\<lambda>r. (expiry r, rid r)) (filter p rows)))"

text \<open>\<open>SELECT count(*) FROM child JOIN parent ON fk = id WHERE p\<close>.\<close>

definition join_count :: "('c \<Rightarrow> nat) \<Rightarrow> 'c list \<Rightarrow> ('r \<Rightarrow> nat) \<Rightarrow> ('r \<Rightarrow> bool) \<Rightarrow> 'r list \<Rightarrow> nat" where
  "join_count fk children rid p rows = length (concat (map (\<lambda>c. filter (\<lambda>r. fk c = rid r \<and> p r) rows) children))"

text \<open>The COALESCE expressions, over columns that are not nullable after the first of the embedding.\<close>

definition summary_embedding_expiry :: "cluster_embedding \<Rightarrow> int" where
  "summary_embedding_expiry e = (case ce_last_seen e of Some t \<Rightarrow> t | None \<Rightarrow> ce_updated_at e)"

definition cluster_run_expiry :: "purge_run \<Rightarrow> int" where
  "cluster_run_expiry r = pr_window_end r"

definition log_expired :: "string \<Rightarrow> datetime \<Rightarrow> stored_log \<Rightarrow> bool" where
  "log_expired scope cutoff l \<longleftrightarrow> lr_scope l = scope \<and> lr_created_at l < instant cutoff"

definition embedding_expired :: "string \<Rightarrow> datetime \<Rightarrow> cluster_embedding \<Rightarrow> bool" where
  "embedding_expired scope cutoff e \<longleftrightarrow> ce_scope e = scope \<and> summary_embedding_expiry e < instant cutoff"

definition explanation_expired :: "string \<Rightarrow> datetime \<Rightarrow> explanation \<Rightarrow> bool" where
  "explanation_expired scope cutoff x \<longleftrightarrow> ex_scope x = scope \<and> ex_created_at x < instant cutoff"

definition run_expired :: "string \<Rightarrow> datetime \<Rightarrow> purge_run \<Rightarrow> bool" where
  "run_expired scope cutoff r \<longleftrightarrow> pr_scope r = scope \<and> cluster_run_expiry r < instant cutoff"

definition select_expired_log_entry_ids :: "string \<Rightarrow> datetime \<Rightarrow> nat \<Rightarrow> retention_db \<Rightarrow> nat list" where
  "select_expired_log_entry_ids scope cutoff limit db = oldest_ids lr_created_at lr_id (log_expired scope cutoff) limit (rd_logs db)"

definition select_expired_cluster_embedding_ids :: "string \<Rightarrow> datetime \<Rightarrow> nat \<Rightarrow> retention_db \<Rightarrow> nat list" where
  "select_expired_cluster_embedding_ids scope cutoff limit db =
     oldest_ids summary_embedding_expiry ce_id (embedding_expired scope cutoff) limit (rd_cluster_embeddings db)"

definition select_expired_explanation_ids :: "string \<Rightarrow> datetime \<Rightarrow> nat \<Rightarrow> retention_db \<Rightarrow> nat list" where
  "select_expired_explanation_ids scope cutoff limit db =
     oldest_ids ex_created_at ex_id (explanation_expired scope cutoff) limit (rd_explanations db)"

definition select_expired_cluster_run_ids :: "string \<Rightarrow> datetime \<Rightarrow> nat \<Rightarrow> retention_db \<Rightarrow> nat list" where
  "select_expired_cluster_run_ids scope cutoff limit db =
     oldest_ids cluster_run_expiry pr_id (run_expired scope cutoff) limit (rd_runs db)"

definition count_expired_log_entries :: "string \<Rightarrow> datetime \<Rightarrow> retention_db \<Rightarrow> nat" where
  "count_expired_log_entries scope cutoff db = length (filter (log_expired scope cutoff) (rd_logs db))"

definition count_expired_log_embeddings :: "string \<Rightarrow> datetime \<Rightarrow> retention_db \<Rightarrow> nat" where
  "count_expired_log_embeddings scope cutoff db =
     join_count le_log_entry_id (rd_log_embeddings db) lr_id (log_expired scope cutoff) (rd_logs db)"

definition count_expired_cluster_embeddings :: "string \<Rightarrow> datetime \<Rightarrow> retention_db \<Rightarrow> nat" where
  "count_expired_cluster_embeddings scope cutoff db = length (filter (embedding_expired scope cutoff) (rd_cluster_embeddings db))"

definition count_expired_explanations :: "string \<Rightarrow> datetime \<Rightarrow> retention_db \<Rightarrow> nat" where
  "count_expired_explanations scope cutoff db = length (filter (explanation_expired scope cutoff) (rd_explanations db))"

definition count_expired_cluster_runs :: "string \<Rightarrow> datetime \<Rightarrow> retention_db \<Rightarrow> nat" where
  "count_expired_cluster_runs scope cutoff db = length (filter (run_expired scope cutoff) (rd_runs db))"

definition count_expired_clusters :: "string \<Rightarrow> datetime \<Rightarrow> retention_db \<Rightarrow> nat" where
  "count_expired_clusters scope cutoff db =
     join_count pk_cluster_run_id (rd_clusters db) pr_id (run_expired scope cutoff) (rd_runs db)"

definition count_log_embeddings :: "nat list \<Rightarrow> retention_db \<Rightarrow> nat" where
  "count_log_embeddings ids db = length (filter (\<lambda>e. le_log_entry_id e \<in> set ids) (rd_log_embeddings db))"

definition count_cluster_members :: "nat list \<Rightarrow> retention_db \<Rightarrow> nat" where
  "count_cluster_members ids db = length (filter (\<lambda>m. mb_log_entry_id m \<in> set ids) (rd_members db))"

definition count_clusters_for_runs :: "nat list \<Rightarrow> retention_db \<Rightarrow> nat" where
  "count_clusters_for_runs ids db = length (filter (\<lambda>k. pk_cluster_run_id k \<in> set ids) (rd_clusters db))"

section \<open>Deletes with their cascades\<close>

definition delete_log_entries :: "nat list \<Rightarrow> retention_db \<Rightarrow> retention_db" where
  "delete_log_entries ids db =
     db\<lparr>rd_logs := filter (\<lambda>l. lr_id l \<notin> set ids) (rd_logs db),
        rd_log_embeddings := filter (\<lambda>e. le_log_entry_id e \<notin> set ids) (rd_log_embeddings db),
        rd_members := filter (\<lambda>m. mb_log_entry_id m \<notin> set ids) (rd_members db)\<rparr>"

definition delete_cluster_embeddings :: "nat list \<Rightarrow> retention_db \<Rightarrow> retention_db" where
  "delete_cluster_embeddings ids db =
     db\<lparr>rd_cluster_embeddings := filter (\<lambda>e. ce_id e \<notin> set ids) (rd_cluster_embeddings db)\<rparr>"

definition delete_explanations :: "nat list \<Rightarrow> retention_db \<Rightarrow> retention_db" where
  "delete_explanations ids db = db\<lparr>rd_explanations := filter (\<lambda>x. ex_id x \<notin> set ids) (rd_explanations db)\<rparr>"

definition delete_cluster_runs :: "nat list \<Rightarrow> retention_db \<Rightarrow> retention_db" where
  "delete_cluster_runs ids db =
     (let gone = map pk_id (filter (\<lambda>k. pk_cluster_run_id k \<in> set ids) (rd_clusters db)) in
      db\<lparr>rd_runs := filter (\<lambda>r. pr_id r \<notin> set ids) (rd_runs db),
         rd_clusters := filter (\<lambda>k. pk_cluster_run_id k \<notin> set ids) (rd_clusters db),
         rd_members := filter (\<lambda>m. mb_cluster_id m \<notin> set gone) (rd_members db)\<rparr>)"

section \<open>Purging\<close>

record purge_counts =
  pc_raw :: nat
  pc_summary :: nat
  pc_embedding :: nat
  pc_scopes :: "string list"
  pc_more_remaining :: bool

definition no_counts :: purge_counts where
  "no_counts = \<lparr>pc_raw = 0, pc_summary = 0, pc_embedding = 0, pc_scopes = [], pc_more_remaining = False\<rparr>"

definition add_scope :: "string \<Rightarrow> string list \<Rightarrow> string list" where
  "add_scope s ss = (if s \<in> set ss then ss else ss @ [s])"

definition counts_add :: "purge_counts \<Rightarrow> purge_counts \<Rightarrow> purge_counts" where
  "counts_add a b =
     \<lparr>pc_raw = pc_raw a + pc_raw b, pc_summary = pc_summary a + pc_summary b, pc_embedding = pc_embedding a + pc_embedding b,
      pc_scopes = fold add_scope (pc_scopes b) (pc_scopes a), pc_more_remaining = (pc_more_remaining a \<or> pc_more_remaining b)\<rparr>"

definition counts_is_empty :: "purge_counts \<Rightarrow> bool" where
  "counts_is_empty c \<longleftrightarrow> pc_raw c = 0 \<and> pc_summary c = 0 \<and> pc_embedding c = 0"

definition counts_as_dict :: "purge_counts \<Rightarrow> bool \<Rightarrow> pyval" where
  "counts_as_dict c dry_run =
     VDict [(''raw'', VNum (IntN (int (pc_raw c)))), (''summary'', VNum (IntN (int (pc_summary c)))),
            (''embedding'', VNum (IntN (int (pc_embedding c)))), (''scopes'', VList (map VStr (pc_scopes c))),
            (''dry_run'', VBool dry_run), (''more_remaining'', VBool (pc_more_remaining c))]"

text \<open>\<open>_record\<close>: the purged-rows counter of a kind.\<close>

definition record_rows :: "string \<Rightarrow> nat \<Rightarrow> bool \<Rightarrow> retention_db \<Rightarrow> retention_db" where
  "record_rows kind n dry_run db =
     (if dry_run \<or> n = 0 then db
      else db\<lparr>rd_purge_rows := dset kind (dget_or (rd_purge_rows db) kind 0 + n) (rd_purge_rows db)\<rparr>)"

definition purge_raw_chunk :: "string \<Rightarrow> datetime \<Rightarrow> nat \<Rightarrow> bool \<Rightarrow> retention_db \<Rightarrow> retention_db \<times> purge_counts" where
  "purge_raw_chunk scope cutoff limit dry_run db =
     (let ids = select_expired_log_entry_ids scope cutoff limit db in
      if ids = [] then (db, no_counts)
      else
        let embedding_n = count_log_embeddings ids db;
            member_n = count_cluster_members ids db;
            db1 = (if dry_run then db else delete_log_entries ids db);
            db2 = record_rows ''raw'' (length ids) dry_run db1;
            db3 = record_rows ''raw'' member_n dry_run db2;
            db4 = record_rows ''embedding'' embedding_n dry_run db3 in
        (db4, no_counts\<lparr>pc_raw := length ids, pc_embedding := embedding_n, pc_more_remaining := limit \<le> length ids\<rparr>))"

definition purge_cluster_embeddings :: "string \<Rightarrow> datetime \<Rightarrow> nat \<Rightarrow> bool \<Rightarrow> retention_db \<times> purge_counts \<Rightarrow> retention_db \<times> purge_counts" where
  "purge_cluster_embeddings scope cutoff limit dry_run = (\<lambda>(db, counts).
     (let ids = select_expired_cluster_embedding_ids scope cutoff limit db in
      if ids = [] then (db, counts)
      else (record_rows ''embedding'' (length ids) dry_run (if dry_run then db else delete_cluster_embeddings ids db),
            counts\<lparr>pc_embedding := pc_embedding counts + length ids,
                   pc_more_remaining := pc_more_remaining counts \<or> limit \<le> length ids\<rparr>)))"

definition purge_explanations :: "string \<Rightarrow> datetime \<Rightarrow> nat \<Rightarrow> bool \<Rightarrow> retention_db \<times> purge_counts \<Rightarrow> retention_db \<times> purge_counts" where
  "purge_explanations scope cutoff limit dry_run = (\<lambda>(db, counts).
     (let ids = select_expired_explanation_ids scope cutoff limit db in
      if ids = [] then (db, counts)
      else (record_rows ''summary'' (length ids) dry_run (if dry_run then db else delete_explanations ids db),
            counts\<lparr>pc_summary := pc_summary counts + length ids,
                   pc_more_remaining := pc_more_remaining counts \<or> limit \<le> length ids\<rparr>)))"

definition purge_cluster_runs :: "string \<Rightarrow> datetime \<Rightarrow> nat \<Rightarrow> bool \<Rightarrow> retention_db \<times> purge_counts \<Rightarrow> retention_db \<times> purge_counts" where
  "purge_cluster_runs scope cutoff limit dry_run = (\<lambda>(db, counts).
     (let ids = select_expired_cluster_run_ids scope cutoff limit db in
      if ids = [] then (db, counts)
      else
        let summary_n = length ids + count_clusters_for_runs ids db in
        (record_rows ''summary'' summary_n dry_run (if dry_run then db else delete_cluster_runs ids db),
         counts\<lparr>pc_summary := pc_summary counts + summary_n,
                pc_more_remaining := pc_more_remaining counts \<or> limit \<le> length ids\<rparr>)))"

definition purge_summary_chunk :: "string \<Rightarrow> datetime \<Rightarrow> nat \<Rightarrow> bool \<Rightarrow> retention_db \<Rightarrow> retention_db \<times> purge_counts" where
  "purge_summary_chunk scope cutoff limit dry_run db =
     purge_cluster_runs scope cutoff limit dry_run
       (purge_explanations scope cutoff limit dry_run
         (purge_cluster_embeddings scope cutoff limit dry_run (db, no_counts)))"

definition purge_scope_batch ::
    "retention_policy \<Rightarrow> datetime \<Rightarrow> nat \<Rightarrow> bool \<Rightarrow> retention_db \<Rightarrow> retention_db \<times> purge_counts res" where
  "purge_scope_batch policy now limit dry_run db =
     (let counts = no_counts\<lparr>pc_scopes := [rp_scope policy]\<rparr> in
      case compute_cutoff (Some (raw_interval policy)) now of
        Inl e \<Rightarrow> (db, Inl e)
      | Inr raw_cutoff \<Rightarrow>
          let (db1, counts1) =
            (case raw_cutoff of
               None \<Rightarrow> (db, counts)
             | Some c \<Rightarrow> let (d, k) = purge_raw_chunk (rp_scope policy) c limit dry_run db in (d, counts_add counts k)) in
          case compute_cutoff (Some (summary_interval policy)) now of
            Inl e \<Rightarrow> (db1, Inl e)
          | Inr summary_cutoff \<Rightarrow>
              (case summary_cutoff of
                 None \<Rightarrow> (db1, Inr counts1)
               | Some c \<Rightarrow> let (d, k) = purge_summary_chunk (rp_scope policy) c limit dry_run db1 in (d, Inr (counts_add counts1 k))))"

definition count_scope_expired :: "retention_policy \<Rightarrow> datetime \<Rightarrow> retention_db \<Rightarrow> purge_counts res" where
  "count_scope_expired policy now db =
     rbind (compute_cutoff (Some (raw_interval policy)) now) (\<lambda>raw_cutoff.
       let counts = no_counts\<lparr>pc_scopes := [rp_scope policy]\<rparr>;
           counts1 = (case raw_cutoff of
             None \<Rightarrow> counts
           | Some c \<Rightarrow> counts\<lparr>pc_raw := count_expired_log_entries (rp_scope policy) c db,
                              pc_embedding := pc_embedding counts + count_expired_log_embeddings (rp_scope policy) c db\<rparr>) in
       rbind (compute_cutoff (Some (summary_interval policy)) now) (\<lambda>summary_cutoff.
         Inr (case summary_cutoff of
             None \<Rightarrow> counts1
           | Some c \<Rightarrow>
               counts1\<lparr>pc_embedding := pc_embedding counts1 + count_expired_cluster_embeddings (rp_scope policy) c db,
                       pc_summary := pc_summary counts1 + (count_expired_explanations (rp_scope policy) c db
                         + count_expired_cluster_runs (rp_scope policy) c db + count_expired_clusters (rp_scope policy) c db)\<rparr>)))"

section \<open>A purge run\<close>

definition scopes_to_purge :: "retention_db \<Rightarrow> string list" where
  "scopes_to_purge db =
     dedup (map lr_scope (rd_logs db) @ map ce_scope (rd_cluster_embeddings db) @ map pr_scope (rd_runs db)
            @ map ex_scope (rd_explanations db) @ map sr_scope (rd_retention db))"

definition list_scopes_to_purge :: "retention_db \<Rightarrow> string list" where
  "list_scopes_to_purge db = sort (dedup (filter (\<lambda>s. s \<noteq> []) (scopes_to_purge db)))"

definition PURGE_JOB_TYPE :: string where "PURGE_JOB_TYPE = ''purge''"
definition LAST_PURGE_AT_KEY :: string where "LAST_PURGE_AT_KEY = ''last_purge_at''"

text \<open>The id and the creation time of a job come from the database.\<close>

definition enqueue_followup_purge :: "nat \<Rightarrow> int \<Rightarrow> retention_db \<Rightarrow> retention_db" where
  "enqueue_followup_purge new_id created db =
     db\<lparr>rd_jobs := rd_jobs db @ [\<lparr>wj_id = new_id, wj_job_type = PURGE_JOB_TYPE, wj_status = ''pending'', wj_payload = VDict [],
        wj_result = None, wj_error = None, wj_created_at = created, wj_started_at = None, wj_finished_at = None\<rparr>]\<rparr>"

definition write_last_purge_at :: "(datetime \<Rightarrow> string) \<Rightarrow> datetime \<Rightarrow> retention_db \<Rightarrow> retention_db" where
  "write_last_purge_at isoformat now db =
     db\<lparr>rd_app_config := dset LAST_PURGE_AT_KEY (VStr (isoformat (as_utc now))) (rd_app_config db)\<rparr>"

text \<open>The rows a chunk can still delete; every batch that reports something deletes at least one.\<close>

definition purgeable :: "retention_db \<Rightarrow> nat" where
  "purgeable db = length (rd_logs db) + length (rd_cluster_embeddings db) + length (rd_explanations db) + length (rd_runs db)"

lemma set_oldest_ids: "set (oldest_ids expiry rid p n rows) \<subseteq> rid ` {r \<in> set rows. p r}"
  by (auto simp: oldest_ids_def dest!: in_set_takeD)

lemma length_filter_ids:
  assumes "ids = oldest_ids expiry rid p n rows" "ids \<noteq> []"
  shows "length (filter (\<lambda>r. rid r \<notin> set ids) rows) < length rows"
proof -
  obtain i where "i \<in> set ids" using assms(2) by (cases ids) auto
  then obtain r where "r \<in> set rows" "rid r \<in> set ids"
    using set_oldest_ids [of expiry rid p n rows] assms(1) by auto
  then show ?thesis by (metis (mono_tags, lifting) length_filter_less)
qed

lemma record_rows_tables [simp]:
  "rd_logs (record_rows k n d db) = rd_logs db" "rd_log_embeddings (record_rows k n d db) = rd_log_embeddings db"
  "rd_cluster_embeddings (record_rows k n d db) = rd_cluster_embeddings db" "rd_runs (record_rows k n d db) = rd_runs db"
  "rd_clusters (record_rows k n d db) = rd_clusters db" "rd_explanations (record_rows k n d db) = rd_explanations db"
  "rd_retention (record_rows k n d db) = rd_retention db" "rd_jobs (record_rows k n d db) = rd_jobs db"
  "rd_app_config (record_rows k n d db) = rd_app_config db" "rd_members (record_rows k n d db) = rd_members db"
  by (simp_all add: record_rows_def)

text \<open>What each part of a batch does to the tables it touches, and that it leaves the others alone.\<close>

lemma raw_chunk_effect:
  assumes "purge_raw_chunk scope c limit False db = (db', k)"
  defines "ids \<equiv> select_expired_log_entry_ids scope c limit db"
  shows "rd_logs db' = filter (\<lambda>l. lr_id l \<notin> set ids) (rd_logs db)"
    and "rd_log_embeddings db' = filter (\<lambda>e. le_log_entry_id e \<notin> set ids) (rd_log_embeddings db)"
    and "rd_cluster_embeddings db' = rd_cluster_embeddings db" "rd_explanations db' = rd_explanations db"
    and "rd_runs db' = rd_runs db" "rd_clusters db' = rd_clusters db" "rd_retention db' = rd_retention db"
    and "rd_jobs db' = rd_jobs db" "rd_app_config db' = rd_app_config db"
    and "k = no_counts\<lparr>pc_raw := length ids, pc_embedding := count_log_embeddings ids db, pc_more_remaining := ids \<noteq> [] \<and> limit \<le> length ids\<rparr>"
  using assms(1) unfolding ids_def
  by (auto simp: purge_raw_chunk_def Let_def delete_log_entries_def count_log_embeddings_def no_counts_def split: if_splits)

lemma embeddings_effect:
  assumes "purge_cluster_embeddings scope c limit False (db, k) = (db', k')"
  defines "ids \<equiv> select_expired_cluster_embedding_ids scope c limit db"
  shows "rd_cluster_embeddings db' = filter (\<lambda>e. ce_id e \<notin> set ids) (rd_cluster_embeddings db)"
    and "rd_logs db' = rd_logs db" "rd_log_embeddings db' = rd_log_embeddings db" "rd_explanations db' = rd_explanations db"
    and "rd_runs db' = rd_runs db" "rd_clusters db' = rd_clusters db" "rd_retention db' = rd_retention db"
    and "rd_jobs db' = rd_jobs db" "rd_app_config db' = rd_app_config db"
    and "k' = k\<lparr>pc_embedding := pc_embedding k + length ids, pc_more_remaining := pc_more_remaining k \<or> ids \<noteq> [] \<and> limit \<le> length ids\<rparr>"
  using assms(1) unfolding ids_def
  by (auto simp: purge_cluster_embeddings_def Let_def delete_cluster_embeddings_def split: if_splits)

lemma explanations_effect:
  assumes "purge_explanations scope c limit False (db, k) = (db', k')"
  defines "ids \<equiv> select_expired_explanation_ids scope c limit db"
  shows "rd_explanations db' = filter (\<lambda>x. ex_id x \<notin> set ids) (rd_explanations db)"
    and "rd_logs db' = rd_logs db" "rd_log_embeddings db' = rd_log_embeddings db"
    and "rd_cluster_embeddings db' = rd_cluster_embeddings db"
    and "rd_runs db' = rd_runs db" "rd_clusters db' = rd_clusters db" "rd_retention db' = rd_retention db"
    and "rd_jobs db' = rd_jobs db" "rd_app_config db' = rd_app_config db"
    and "k' = k\<lparr>pc_summary := pc_summary k + length ids, pc_more_remaining := pc_more_remaining k \<or> ids \<noteq> [] \<and> limit \<le> length ids\<rparr>"
  using assms(1) unfolding ids_def
  by (auto simp: purge_explanations_def Let_def delete_explanations_def split: if_splits)

lemma runs_effect:
  assumes "purge_cluster_runs scope c limit False (db, k) = (db', k')"
  defines "ids \<equiv> select_expired_cluster_run_ids scope c limit db"
  shows "rd_runs db' = filter (\<lambda>r. pr_id r \<notin> set ids) (rd_runs db)"
    and "rd_clusters db' = filter (\<lambda>k. pk_cluster_run_id k \<notin> set ids) (rd_clusters db)"
    and "rd_logs db' = rd_logs db" "rd_log_embeddings db' = rd_log_embeddings db"
    and "rd_cluster_embeddings db' = rd_cluster_embeddings db" "rd_explanations db' = rd_explanations db"
    and "rd_retention db' = rd_retention db" "rd_jobs db' = rd_jobs db" "rd_app_config db' = rd_app_config db"
    and "k' = k\<lparr>pc_summary := pc_summary k + (length ids + count_clusters_for_runs ids db),
                pc_more_remaining := pc_more_remaining k \<or> ids \<noteq> [] \<and> limit \<le> length ids\<rparr>"
  using assms(1) unfolding ids_def
  by (auto simp: purge_cluster_runs_def Let_def delete_cluster_runs_def count_clusters_for_runs_def split: if_splits)

lemma summary_chunk_effect:
  assumes "purge_summary_chunk scope c limit False db = (db', k)"
  defines "es \<equiv> select_expired_cluster_embedding_ids scope c limit db"
    and "xs \<equiv> select_expired_explanation_ids scope c limit db"
    and "rs \<equiv> select_expired_cluster_run_ids scope c limit db"
  shows "rd_cluster_embeddings db' = filter (\<lambda>e. ce_id e \<notin> set es) (rd_cluster_embeddings db)"
    and "rd_explanations db' = filter (\<lambda>x. ex_id x \<notin> set xs) (rd_explanations db)"
    and "rd_runs db' = filter (\<lambda>r. pr_id r \<notin> set rs) (rd_runs db)"
    and "rd_clusters db' = filter (\<lambda>k. pk_cluster_run_id k \<notin> set rs) (rd_clusters db)"
    and "rd_logs db' = rd_logs db" "rd_log_embeddings db' = rd_log_embeddings db"
    and "rd_retention db' = rd_retention db" "rd_jobs db' = rd_jobs db" "rd_app_config db' = rd_app_config db"
    and "k = no_counts\<lparr>pc_embedding := length es, pc_summary := length xs + (length rs + count_clusters_for_runs rs db),
           pc_more_remaining := es \<noteq> [] \<and> limit \<le> length es \<or> xs \<noteq> [] \<and> limit \<le> length xs \<or> rs \<noteq> [] \<and> limit \<le> length rs\<rparr>"
proof -
  obtain db1 k1 where 1: "purge_cluster_embeddings scope c limit False (db, no_counts) = (db1, k1)" by fastforce
  obtain db2 k2 where 2: "purge_explanations scope c limit False (db1, k1) = (db2, k2)" by fastforce
  have 3: "purge_cluster_runs scope c limit False (db2, k2) = (db', k)"
    using assms(1) 1 2 by (simp add: purge_summary_chunk_def)
  note e = embeddings_effect [OF 1] explanations_effect [OF 2] runs_effect [OF 3]
  have xs: "select_expired_explanation_ids scope c limit db1 = xs" and rs: "select_expired_cluster_run_ids scope c limit db2 = rs"
    and n: "count_clusters_for_runs rs db2 = count_clusters_for_runs rs db"
    using e by (simp_all add: xs_def rs_def select_expired_explanation_ids_def select_expired_cluster_run_ids_def count_clusters_for_runs_def)
  show "rd_cluster_embeddings db' = filter (\<lambda>e. ce_id e \<notin> set es) (rd_cluster_embeddings db)"
    and "rd_explanations db' = filter (\<lambda>x. ex_id x \<notin> set xs) (rd_explanations db)"
    and "rd_runs db' = filter (\<lambda>r. pr_id r \<notin> set rs) (rd_runs db)"
    and "rd_clusters db' = filter (\<lambda>k. pk_cluster_run_id k \<notin> set rs) (rd_clusters db)"
    and "rd_logs db' = rd_logs db" "rd_log_embeddings db' = rd_log_embeddings db"
    and "rd_retention db' = rd_retention db" "rd_jobs db' = rd_jobs db" "rd_app_config db' = rd_app_config db"
    using e xs rs by (simp_all add: es_def)
  show "k = no_counts\<lparr>pc_embedding := length es, pc_summary := length xs + (length rs + count_clusters_for_runs rs db),
      pc_more_remaining := es \<noteq> [] \<and> limit \<le> length es \<or> xs \<noteq> [] \<and> limit \<le> length xs \<or> rs \<noteq> [] \<and> limit \<le> length rs\<rparr>"
    using e(10) e(20) e(30) n by (auto simp: xs rs es_def no_counts_def)
qed

section \<open>What is due\<close>

text \<open>
  The rows a policy lets expire at a time. A batch that cannot compute the cutoff of the raw tier
  stops before the summary tier.
\<close>

definition raw_due :: "retention_policy \<Rightarrow> datetime \<Rightarrow> stored_log \<Rightarrow> bool" where
  "raw_due policy now l \<longleftrightarrow>
     (\<exists>c. compute_cutoff (Some (raw_interval policy)) now = Inr (Some c) \<and> log_expired (rp_scope policy) c l)"

definition summary_due :: "(string \<Rightarrow> datetime \<Rightarrow> 'r \<Rightarrow> bool) \<Rightarrow> retention_policy \<Rightarrow> datetime \<Rightarrow> 'r \<Rightarrow> bool" where
  "summary_due expired policy now r \<longleftrightarrow>
     (\<exists>c0 c. compute_cutoff (Some (raw_interval policy)) now = Inr c0
       \<and> compute_cutoff (Some (summary_interval policy)) now = Inr (Some c) \<and> expired (rp_scope policy) c r)"

definition raw_ids :: "retention_policy \<Rightarrow> datetime \<Rightarrow> nat \<Rightarrow> retention_db \<Rightarrow> nat list" where
  "raw_ids policy now limit db = oldest_ids lr_created_at lr_id (raw_due policy now) limit (rd_logs db)"

definition embedding_ids :: "retention_policy \<Rightarrow> datetime \<Rightarrow> nat \<Rightarrow> retention_db \<Rightarrow> nat list" where
  "embedding_ids policy now limit db =
     oldest_ids summary_embedding_expiry ce_id (summary_due embedding_expired policy now) limit (rd_cluster_embeddings db)"

definition explanation_ids :: "retention_policy \<Rightarrow> datetime \<Rightarrow> nat \<Rightarrow> retention_db \<Rightarrow> nat list" where
  "explanation_ids policy now limit db =
     oldest_ids ex_created_at ex_id (summary_due explanation_expired policy now) limit (rd_explanations db)"

definition run_ids :: "retention_policy \<Rightarrow> datetime \<Rightarrow> nat \<Rightarrow> retention_db \<Rightarrow> nat list" where
  "run_ids policy now limit db = oldest_ids cluster_run_expiry pr_id (summary_due run_expired policy now) limit (rd_runs db)"

lemmas ids_defs = raw_ids_def embedding_ids_def explanation_ids_def run_ids_def

lemma oldest_ids_never [simp]: "oldest_ids expiry rid (\<lambda>_. False) n rows = []"
  by (simp add: oldest_ids_def)

lemma raw_due_simps:
  "compute_cutoff (Some (raw_interval p)) now = Inl e \<Longrightarrow> raw_due p now = (\<lambda>_. False)"
  "compute_cutoff (Some (raw_interval p)) now = Inr None \<Longrightarrow> raw_due p now = (\<lambda>_. False)"
  "compute_cutoff (Some (raw_interval p)) now = Inr (Some c) \<Longrightarrow> raw_due p now = log_expired (rp_scope p) c"
  by (simp_all add: raw_due_def fun_eq_iff)

lemma summary_due_simps:
  "compute_cutoff (Some (raw_interval p)) now = Inl e \<Longrightarrow> summary_due ex p now = (\<lambda>_. False)"
  "compute_cutoff (Some (summary_interval p)) now = Inl e \<Longrightarrow> summary_due ex p now = (\<lambda>_. False)"
  "compute_cutoff (Some (summary_interval p)) now = Inr None \<Longrightarrow> summary_due ex p now = (\<lambda>_. False)"
  "compute_cutoff (Some (raw_interval p)) now = Inr c0 \<Longrightarrow> compute_cutoff (Some (summary_interval p)) now = Inr (Some c)
    \<Longrightarrow> summary_due ex p now = ex (rp_scope p) c"
  by (simp_all add: summary_due_def fun_eq_iff)

lemmas due_simps = raw_due_simps summary_due_simps

lemmas select_defs = select_expired_log_entry_ids_def select_expired_cluster_embedding_ids_def
  select_expired_explanation_ids_def select_expired_cluster_run_ids_def

text \<open>The tables after a batch, whatever its result.\<close>

definition batch_tables :: "retention_policy \<Rightarrow> datetime \<Rightarrow> nat \<Rightarrow> retention_db \<Rightarrow> retention_db \<Rightarrow> bool" where
  "batch_tables p now limit db db' \<longleftrightarrow>
     rd_logs db' = filter (\<lambda>l. lr_id l \<notin> set (raw_ids p now limit db)) (rd_logs db)
     \<and> rd_log_embeddings db' = filter (\<lambda>e. le_log_entry_id e \<notin> set (raw_ids p now limit db)) (rd_log_embeddings db)
     \<and> rd_cluster_embeddings db' = filter (\<lambda>e. ce_id e \<notin> set (embedding_ids p now limit db)) (rd_cluster_embeddings db)
     \<and> rd_explanations db' = filter (\<lambda>x. ex_id x \<notin> set (explanation_ids p now limit db)) (rd_explanations db)
     \<and> rd_runs db' = filter (\<lambda>r. pr_id r \<notin> set (run_ids p now limit db)) (rd_runs db)
     \<and> rd_clusters db' = filter (\<lambda>k. pk_cluster_run_id k \<notin> set (run_ids p now limit db)) (rd_clusters db)
     \<and> rd_retention db' = rd_retention db \<and> rd_jobs db' = rd_jobs db \<and> rd_app_config db' = rd_app_config db"

definition full :: "nat \<Rightarrow> nat list \<Rightarrow> bool" where
  "full limit ids \<longleftrightarrow> ids \<noteq> [] \<and> limit \<le> length ids"

definition batch_counts :: "retention_policy \<Rightarrow> datetime \<Rightarrow> nat \<Rightarrow> retention_db \<Rightarrow> purge_counts" where
  "batch_counts p now limit db =
     \<lparr>pc_raw = length (raw_ids p now limit db),
      pc_summary = length (explanation_ids p now limit db)
        + (length (run_ids p now limit db) + count_clusters_for_runs (run_ids p now limit db) db),
      pc_embedding = count_log_embeddings (raw_ids p now limit db) db + length (embedding_ids p now limit db),
      pc_scopes = [rp_scope p],
      pc_more_remaining = (full limit (raw_ids p now limit db) \<or> full limit (embedding_ids p now limit db)
        \<or> full limit (explanation_ids p now limit db) \<or> full limit (run_ids p now limit db))\<rparr>"

text \<open>The raw half of a batch on its own.\<close>

definition raw_half :: "retention_policy \<Rightarrow> datetime \<Rightarrow> nat \<Rightarrow> datetime option \<Rightarrow> retention_db \<Rightarrow> retention_db \<times> purge_counts" where
  "raw_half p now limit cutoff db =
     (let counts = no_counts\<lparr>pc_scopes := [rp_scope p]\<rparr> in
      case cutoff of
        None \<Rightarrow> (db, counts)
      | Some c \<Rightarrow> let (d, k) = purge_raw_chunk (rp_scope p) c limit False db in (d, counts_add counts k))"

lemma raw_half_effect:
  assumes "compute_cutoff (Some (raw_interval p)) now = Inr cutoff" "raw_half p now limit cutoff db = (db', k)"
  shows "rd_logs db' = filter (\<lambda>l. lr_id l \<notin> set (raw_ids p now limit db)) (rd_logs db) \<and>
    rd_log_embeddings db' = filter (\<lambda>e. le_log_entry_id e \<notin> set (raw_ids p now limit db)) (rd_log_embeddings db) \<and>
    rd_cluster_embeddings db' = rd_cluster_embeddings db \<and> rd_explanations db' = rd_explanations db \<and>
    rd_runs db' = rd_runs db \<and> rd_clusters db' = rd_clusters db \<and> rd_retention db' = rd_retention db \<and>
    rd_jobs db' = rd_jobs db \<and> rd_app_config db' = rd_app_config db \<and>
    k = no_counts\<lparr>pc_raw := length (raw_ids p now limit db), pc_embedding := count_log_embeddings (raw_ids p now limit db) db,
           pc_scopes := [rp_scope p], pc_more_remaining := full limit (raw_ids p now limit db)\<rparr>"
proof (cases cutoff)
  case None
  then show ?thesis
    using assms by (auto simp: raw_half_def raw_ids_def due_simps count_log_embeddings_def no_counts_def full_def)
next
  case (Some c)
  obtain d k' where chunk: "purge_raw_chunk (rp_scope p) c limit False db = (d, k')" by fastforce
  have ids: "select_expired_log_entry_ids (rp_scope p) c limit db = raw_ids p now limit db"
    using assms(1) Some by (simp add: raw_ids_def due_simps select_defs)
  show ?thesis
    using assms(2) Some chunk raw_chunk_effect [OF chunk] ids
    by (auto simp: raw_half_def counts_add_def no_counts_def full_def)
qed

lemma batch_by_halves:
  "purge_scope_batch p now limit False db =
     (case compute_cutoff (Some (raw_interval p)) now of
        Inl e \<Rightarrow> (db, Inl e)
      | Inr cutoff \<Rightarrow>
          (let (db1, k1) = raw_half p now limit cutoff db in
           case compute_cutoff (Some (summary_interval p)) now of
             Inl e \<Rightarrow> (db1, Inl e)
           | Inr None \<Rightarrow> (db1, Inr k1)
           | Inr (Some c) \<Rightarrow>
               (let (d, k) = purge_summary_chunk (rp_scope p) c limit False db1 in (d, Inr (counts_add k1 k)))))"
  by (simp add: purge_scope_batch_def raw_half_def Let_def split: sum.splits option.splits)

lemma batch_effect:
  assumes "purge_scope_batch p now limit False db = (db', r)"
  shows "batch_tables p now limit db db' \<and>
    r = (case compute_cutoff (Some (raw_interval p)) now of
        Inl e \<Rightarrow> Inl e
      | Inr _ \<Rightarrow> (case compute_cutoff (Some (summary_interval p)) now of Inl e \<Rightarrow> Inl e | Inr _ \<Rightarrow> Inr (batch_counts p now limit db)))"
proof (cases "compute_cutoff (Some (raw_interval p)) now")
  case (Inl e)
  then show ?thesis
    using assms by (simp add: batch_by_halves batch_tables_def ids_defs due_simps)
next
  case raw: (Inr cutoff)
  obtain db1 k1 where half: "raw_half p now limit cutoff db = (db1, k1)" by fastforce
  note h = raw_half_effect [OF raw half]
  show ?thesis
  proof (cases "\<exists>c. compute_cutoff (Some (summary_interval p)) now = Inr (Some c)")
    case False
    then have "compute_cutoff (Some (summary_interval p)) now = Inr None \<or> (\<exists>e. compute_cutoff (Some (summary_interval p)) now = Inl e)"
      by (metis not_None_eq old.sum.exhaust)
    then show ?thesis
      using assms raw half h
      by (auto simp: batch_by_halves batch_tables_def batch_counts_def ids_defs due_simps no_counts_def count_clusters_for_runs_def full_def)
  next
    case True
    then obtain c where c: "compute_cutoff (Some (summary_interval p)) now = Inr (Some c)" by blast
    obtain d k where chunk: "purge_summary_chunk (rp_scope p) c limit False db1 = (d, k)" by fastforce
    have ids: "select_expired_cluster_embedding_ids (rp_scope p) c limit db1 = embedding_ids p now limit db"
      "select_expired_explanation_ids (rp_scope p) c limit db1 = explanation_ids p now limit db"
      "select_expired_cluster_run_ids (rp_scope p) c limit db1 = run_ids p now limit db"
      "count_clusters_for_runs (run_ids p now limit db) db1 = count_clusters_for_runs (run_ids p now limit db) db"
      using raw c h by (simp_all add: select_defs ids_defs due_simps count_clusters_for_runs_def)
    note s = summary_chunk_effect [OF chunk, unfolded ids]
    show ?thesis
      using assms raw half c chunk h s
      by (auto simp: batch_by_halves batch_tables_def batch_counts_def counts_add_def no_counts_def full_def)
  qed
qed

lemma batch_tables_shrink:
  assumes "batch_tables p now limit db db'"
  shows "purgeable db' \<le> purgeable db"
    and "\<not> counts_is_empty (batch_counts p now limit db) \<Longrightarrow> purgeable db' < purgeable db"
proof -
  note t = assms [unfolded batch_tables_def] and
    len = length_filter_ids [OF raw_ids_def] length_filter_ids [OF embedding_ids_def] length_filter_ids [OF explanation_ids_def]
      length_filter_ids [OF run_ids_def]
  show le: "purgeable db' \<le> purgeable db"
    using t by (simp add: purgeable_def add_mono)
  assume "\<not> counts_is_empty (batch_counts p now limit db)"
  then have "raw_ids p now limit db \<noteq> [] \<or> embedding_ids p now limit db \<noteq> [] \<or> explanation_ids p now limit db \<noteq> [] \<or> run_ids p now limit db \<noteq> []"
    by (auto simp: counts_is_empty_def batch_counts_def count_log_embeddings_def count_clusters_for_runs_def)
  then show "purgeable db' < purgeable db"
    using t len [of p now limit db] unfolding purgeable_def
    by (elim disjE) (simp_all add: add_less_le_mono add_le_less_mono add_mono)
qed

lemma batch_shrinks:
  assumes "purge_scope_batch p now limit False db = (db', Inr k)" "\<not> counts_is_empty k"
  shows "purgeable db' < purgeable db"
  using assms batch_effect [OF assms(1)] batch_tables_shrink(2) by (auto split: sum.splits)

section \<open>The drain loop and the run\<close>

function drain ::
    "int option \<Rightarrow> retention_policy \<Rightarrow> datetime \<Rightarrow> nat \<Rightarrow> int \<Rightarrow> retention_db \<Rightarrow> purge_counts
      \<Rightarrow> retention_db \<times> (purge_counts \<times> bool) res" where
  "drain max_chunks policy now limit chunks db totals =
     (case purge_scope_batch policy now limit False db of
        (db', Inl e) \<Rightarrow> (db', Inl e)
      | (db', Inr batch) \<Rightarrow>
          (let totals' = counts_add totals batch in
           if counts_is_empty batch
           then (db', Inr (totals'\<lparr>pc_scopes := add_scope (rp_scope policy) (pc_scopes totals')\<rparr>, False))
           else if (case max_chunks of None \<Rightarrow> False | Some m \<Rightarrow> m \<le> chunks + 1)
           then (db', Inr (totals', pc_more_remaining batch))
           else drain max_chunks policy now limit (chunks + 1) db' totals'))"
  by pat_completeness auto
termination
  by (relation "measure (\<lambda>(m, p, now, l, c, db, t). purgeable db)") (auto dest: batch_shrinks [OF sym])

declare drain.simps [simp del]

fun purge_scopes ::
    "retention_settings \<Rightarrow> bool \<Rightarrow> int option \<Rightarrow> datetime \<Rightarrow> nat \<Rightarrow> string list \<Rightarrow> retention_db \<Rightarrow> purge_counts \<Rightarrow> bool
      \<Rightarrow> retention_db \<times> (purge_counts \<times> bool) res" where
  "purge_scopes cfg dry_run max_chunks clock limit [] db totals remaining = (db, Inr (totals, remaining))"
| "purge_scopes cfg dry_run max_chunks clock limit (s # ss) db totals remaining =
     (let policy = resolve_scope_policy db s cfg in
      case validate_policy_intervals policy of
        Inl e \<Rightarrow>
          if is_value_error e
          then purge_scopes cfg dry_run max_chunks clock limit ss db (totals\<lparr>pc_scopes := add_scope s (pc_scopes totals)\<rparr>) remaining
          else (db, Inl e)
      | Inr _ \<Rightarrow>
          if dry_run
          then (case count_scope_expired policy clock db of
                  Inl e \<Rightarrow> (db, Inl e)
                | Inr c \<Rightarrow> purge_scopes cfg dry_run max_chunks clock limit ss db (counts_add totals c) remaining)
          else (case drain max_chunks policy clock limit 0 db totals of
                  (db', Inl e) \<Rightarrow> (db', Inl e)
                | (db', Inr (totals', remaining')) \<Rightarrow>
                    purge_scopes cfg dry_run max_chunks clock limit ss db' totals' (remaining \<or> remaining')))"

record purge_env =
  pe_isoformat :: "datetime \<Rightarrow> string"
  pe_new_id :: nat
  pe_created_at :: int

definition chunk_limit :: "retention_settings \<Rightarrow> nat" where
  "chunk_limit cfg = nat (max 1 (purge_chunk_size cfg))"

definition purge_targets :: "string option \<Rightarrow> retention_db \<Rightarrow> string list" where
  "purge_targets scope db = (case scope of Some (c # cs) \<Rightarrow> [c # cs] | _ \<Rightarrow> list_scopes_to_purge db)"

definition run_purge ::
    "purge_env \<Rightarrow> retention_settings \<Rightarrow> string option \<Rightarrow> bool \<Rightarrow> int option \<Rightarrow> datetime \<Rightarrow> retention_db
      \<Rightarrow> retention_db \<times> purge_counts res" where
  "run_purge env cfg scope dry_run max_chunks clock db =
     (case purge_scopes cfg dry_run max_chunks clock (chunk_limit cfg) (purge_targets scope db) db no_counts False of
        (db', Inl e) \<Rightarrow> (db', Inl e)
      | (db', Inr (totals, remaining)) \<Rightarrow>
          (if dry_run then db'
           else if remaining then enqueue_followup_purge (pe_new_id env) (pe_created_at env) db'
           else write_last_purge_at (pe_isoformat env) clock db',
           Inr (totals\<lparr>pc_more_remaining := remaining\<rparr>)))"

section \<open>Chunks of due rows\<close>

text \<open>
  What the purge needs of the query that picks the rows of a chunk: it picks rows that are due, none
  twice, and as many as the limit allows. The accounting of a chunk and of its cascade follows.
\<close>

locale chunked_select =
  fixes pick :: "nat \<Rightarrow> 'r list \<Rightarrow> nat list" and rid :: "'r \<Rightarrow> nat" and due :: "'r \<Rightarrow> bool"
  assumes pick_due: "set (pick n rows) \<subseteq> rid ` {r \<in> set rows. due r}"
    and pick_distinct: "distinct (map rid rows) \<Longrightarrow> distinct (pick n rows)"
    and pick_length: "length (pick n rows) = min n (length (filter due rows))"
begin

lemma picked_is_due:
  assumes "distinct (map rid rows)" "r \<in> set rows" "rid r \<in> set (pick n rows)"
  shows "due r"
proof -
  obtain r' where "r' \<in> set rows" "due r'" "rid r' = rid r"
    using assms(3) pick_due [of n rows] by force
  then show ?thesis using assms(1,2) by (metis distinct_map inj_onD)
qed

lemma nothing_picked: "0 < n \<Longrightarrow> pick n rows = [] \<Longrightarrow> filter due rows = []"
  using pick_length [of n rows] by (auto simp: min_def split: if_splits)

lemma picked_count:
  assumes "distinct (map rid rows)"
  shows "length (filter due (filter (\<lambda>r. rid r \<notin> set (pick n rows)) rows)) + length (pick n rows) = length (filter due rows)"
proof -
  let ?ids = "pick n rows"
  have "rid ` set (filter (\<lambda>r. rid r \<in> set ?ids) (filter due rows)) = set ?ids"
    using pick_due [of n rows] by auto
  moreover have "distinct (map rid (filter (\<lambda>r. rid r \<in> set ?ids) (filter due rows)))"
    using assms by (metis distinct_map_filter)
  ultimately have "length (filter (\<lambda>r. rid r \<in> set ?ids) (filter due rows)) = length ?ids"
    using distinct_card [OF pick_distinct [OF assms]] by (metis distinct_card length_map list.set_map)
  moreover have "length (filter due (filter (\<lambda>r. rid r \<notin> set ?ids) rows)) = length (filter (\<lambda>r. rid r \<notin> set ?ids) (filter due rows))"
    by (simp add: conj_commute)
  ultimately show ?thesis
    using sum_length_filter_compl [of "\<lambda>r. rid r \<in> set ?ids" "filter due rows"] by simp
qed

lemma picked_all:
  assumes "distinct (map rid rows)" "length (pick n rows) < n"
  shows "filter due (filter (\<lambda>r. rid r \<notin> set (pick n rows)) rows) = []"
  using picked_count [OF assms(1), of n] pick_length [of n rows] assms(2) by simp

lemma others_untouched:
  assumes "distinct (map rid rows)" "\<And>r. q r \<Longrightarrow> \<not> due r"
  shows "filter q (filter (\<lambda>r. rid r \<notin> set (pick n rows)) rows) = filter q rows"
  unfolding filter_filter by (rule filter_cong) (use assms picked_is_due [OF assms(1)] in auto)

lemma other_children_untouched:
  assumes "distinct (map rid rows)" "\<And>r. q r \<Longrightarrow> \<not> due r"
  shows "join_count fk (filter (\<lambda>c. fk c \<notin> set (pick n rows)) cs) rid q (filter (\<lambda>r. rid r \<notin> set (pick n rows)) rows)
    = join_count fk cs rid q rows"
proof (induction cs)
  case (Cons c cs)
  have "filter (\<lambda>r. fk c = rid r \<and> q r) rows = []" if "fk c \<in> set (pick n rows)"
  proof -
    have "\<not> (fk c = rid r \<and> q r)" if r: "r \<in> set rows" for r
      using picked_is_due [OF assms(1) r, of n] assms(2) [of r] \<open>fk c \<in> set (pick n rows)\<close> by metis
    then show ?thesis by (simp add: filter_empty_conv)
  qed
  moreover have "filter (\<lambda>r. fk c = rid r \<and> q r) (filter (\<lambda>r. rid r \<notin> set (pick n rows)) rows) = filter (\<lambda>r. fk c = rid r \<and> q r) rows"
    by (rule others_untouched [OF assms(1)]) (use assms(2) in blast)
  ultimately show ?case using Cons.IH by (simp add: join_count_def)
qed (simp add: join_count_def)

lemma picked_children:
  assumes "distinct (map rid rows)"
  shows "join_count fk (filter (\<lambda>c. fk c \<notin> set (pick n rows)) cs) rid due (filter (\<lambda>r. rid r \<notin> set (pick n rows)) rows)
    + length (filter (\<lambda>c. fk c \<in> set (pick n rows)) cs) = join_count fk cs rid due rows"
proof (induction cs)
  case (Cons c cs)
  let ?match = "\<lambda>rows. filter (\<lambda>r. fk c = rid r \<and> due r) rows"
  have one: "length (?match rows) = 1" if picked: "fk c \<in> set (pick n rows)"
  proof -
    obtain r where r: "r \<in> set rows" "due r" "rid r = fk c"
      using picked pick_due [of n rows] by force
    have set: "set (?match rows) = {r}"
    proof (rule set_eqI)
      fix x
      have "x = r" if "x \<in> set rows" "rid x = fk c"
        using assms that r(1,3) by (metis distinct_map inj_onD)
      then show "x \<in> set (?match rows) \<longleftrightarrow> x \<in> {r}" using r by auto
    qed
    have "distinct (?match rows)" using assms by (simp add: distinct_map)
    from distinct_card [OF this, unfolded set] show ?thesis by simp
  qed
  have "?match (filter (\<lambda>r. rid r \<notin> set (pick n rows)) rows) = ?match rows" if "fk c \<notin> set (pick n rows)"
    unfolding filter_filter by (rule filter_cong) (use that in auto)
  then show ?case using Cons.IH one by (simp add: join_count_def)
qed (simp add: join_count_def)

end

lemma oldest_ids_length: "length (oldest_ids expiry rid p n rows) = min n (length (filter p rows))"
  by (simp add: oldest_ids_def)

lemma oldest_ids_distinct: "distinct (map rid rows) \<Longrightarrow> distinct (oldest_ids expiry rid p n rows)"
proof -
  assume "distinct (map rid rows)"
  then have "distinct (map rid (filter p rows))" by (rule distinct_map_filter)
  then have "distinct (map rid (sort_key (\<lambda>r. (expiry r, rid r)) (filter p rows)))"
    unfolding distinct_map distinct_sort set_sort .
  then show ?thesis by (simp add: oldest_ids_def distinct_take)
qed

interpretation oldest: chunked_select "oldest_ids expiry rid p" rid p for expiry rid p
  by unfold_locales (simp_all add: set_oldest_ids oldest_ids_length oldest_ids_distinct)

end
