(* ===== verification/Tail.thy ===== *)
theory Tail
  imports IngestRuns Retention
begin

text \<open>
  Tail jobs (\<open>core/ingestion/tail.py\<close>, \<open>core/ingestion/backpressure.py\<close>): a long-lived ingestion job polled by the worker. The
  life cycle of its status, the window of a poll, one tick of a job over an adapter run that is not
  finalized, and the round over all due jobs. The cursor column and the metadata entry \<open>cursors\<close> are written
  together and kept as one; stored instants are their closed_none.
\<close>

section \<open>Life cycle\<close>

datatype tail_error = TailLifecycleError string string

definition TAIL_ADAPTERS :: "string set" where "TAIL_ADAPTERS = {''cloudwatch'', ''datadog'', ''loki''}"
definition TAIL_LIFECYCLE_ACTIONS :: "string set" where "TAIL_LIFECYCLE_ACTIONS = {''pause'', ''resume'', ''stop''}"

definition apply_tail_lifecycle :: "string \<Rightarrow> string \<Rightarrow> string \<Rightarrow> tail_error + string" where
  "apply_tail_lifecycle mode status action =
     (if mode \<noteq> ''tail'' then Inl (TailLifecycleError ''not_tail'' ''lifecycle actions require mode=tail'')
      else if action \<notin> TAIL_LIFECYCLE_ACTIONS then Inl (TailLifecycleError ''conflict'' ''unknown action'')
      else if action = ''stop'' then Inr ''stopped''
      else if status = ''stopped'' then Inl (TailLifecycleError ''conflict'' ''stopped tail jobs cannot be paused or resumed'')
      else if action = ''pause'' then Inr ''paused'' else Inr ''running'')"

definition consecutive_errors_after_failure :: "nat \<Rightarrow> nat \<Rightarrow> nat \<times> bool" where
  "consecutive_errors_after_failure current threshold = (current + 1, threshold \<le> current + 1)"

section \<open>Jobs\<close>

type_synonym window = "int \<times> int"

record tail_job = job_row +
  tj_last_polled_at :: "int option"
  tj_consecutive_errors :: nat
  tj_held :: "window option"
  tj_since :: "string option"
  tj_from_time :: "datetime option"
  tj_to_time :: "datetime option"
  tj_adapter :: "string option"
  tj_service :: "string option"
  tj_env :: "string option"
  tj_format :: "string option"
  tj_scope :: "string option"

definition cursors_from_job :: "tail_job \<Rightarrow> (string, string option) dict" where
  "cursors_from_job job = (case jr_cursors job of Some cs \<Rightarrow> cs | None \<Rightarrow> [])"

definition has_open_cursors :: "(string, string option) dict \<Rightarrow> bool" where
  "has_open_cursors cursors = list_ex (\<lambda>(_, v). v \<noteq> None \<and> v \<noteq> Some []) cursors"

definition is_tail_job_due :: "tail_job \<Rightarrow> int \<Rightarrow> int \<Rightarrow> bool" where
  "is_tail_job_due job now poll_interval =
     (if jr_mode job \<noteq> ''tail'' \<or> jr_status job \<noteq> ''running'' then False
      else (case tj_last_polled_at job of None \<Rightarrow> True | Some t \<Rightarrow> t \<le> now - poll_interval))"

definition held_paging_window :: "tail_job \<Rightarrow> window option" where
  "held_paging_window job = (if \<not> has_open_cursors (cursors_from_job job) then None else tj_held job)"

definition utc_datetime :: "int \<Rightarrow> datetime" where
  "utc_datetime t = \<lparr>wall = t, utcoff = Some 0\<rparr>"

definition first_window :: "tail_job \<Rightarrow> int \<Rightarrow> window res" where
  "first_window job now =
     rbind (if (tj_since job \<noteq> None \<and> tj_since job \<noteq> Some []) \<or> tj_from_time job \<noteq> None \<or> tj_to_time job \<noteq> None
            then resolve_window (utc_datetime now) (tj_since job) (tj_from_time job) (tj_to_time job)
            else resolve_window (utc_datetime now) (Some ''1m'') None None)
       (\<lambda>(s, e). Inr (instant s, instant e))"

definition tick_window_for_job :: "tail_job \<Rightarrow> int \<Rightarrow> window res" where
  "tick_window_for_job job now =
     (case held_paging_window job of
        Some w \<Rightarrow> Inr w
      | None \<Rightarrow> (case tj_last_polled_at job of Some t \<Rightarrow> Inr (t, now) | None \<Rightarrow> first_window job now))"

definition apply_tail_window_progress :: "tail_job \<Rightarrow> window \<Rightarrow> int \<Rightarrow> tail_job" where
  "apply_tail_window_progress job w now =
     job\<lparr>tj_last_polled_at := Some now, tj_held := (if has_open_cursors (cursors_from_job job) then Some w else None)\<rparr>"

definition spec_from_tail_job :: "tail_job \<Rightarrow> source_spec" where
  "spec_from_tail_job job =
     \<lparr>ss_adapter = (case tj_adapter job of Some (c # cs) \<Rightarrow> c # cs | _ \<Rightarrow> jr_source_adapter job), ss_service = tj_service job, ss_env = tj_env job\<rparr>"

definition tick_format :: "tail_job \<Rightarrow> string" where
  "tick_format job = (case tj_format job of Some (c # cs) \<Rightarrow> c # cs | _ \<Rightarrow> ''auto'')"

definition tick_scope :: "tail_job \<Rightarrow> string" where
  "tick_scope job =
     (if strip_str (ij_scope job) \<noteq> [] then strip_str (ij_scope job)
      else (case tj_scope job of Some (c # cs) \<Rightarrow> c # cs | _ \<Rightarrow> DEFAULT_LOG_SCOPE))"

section \<open>One tick\<close>

text \<open>The stored rows and the next free row id.\<close>

type_synonym log_store = "stored_line list \<times> nat"

text \<open>The adapter a job polls: the streams it discovers, or the exception of that, and what it reads in a window.\<close>

record tail_source =
  ts_discover :: "string + stream_ref list"
  ts_read :: "window \<Rightarrow> adapter"

definition with_row :: "tail_job \<Rightarrow> job_row \<Rightarrow> tail_job" where
  "with_row job row = job_row.extend row (job_row.more job)"

definition tail_tick_failed :: "tail_job \<Rightarrow> int \<Rightarrow> nat \<Rightarrow> string \<Rightarrow> tail_job" where
  "tail_tick_failed job now threshold message =
     (let (new_count, should_pause) = consecutive_errors_after_failure (tj_consecutive_errors job) threshold in
      job\<lparr>tj_consecutive_errors := new_count, jr_error_message := Some message,
        jr_status := (if should_pause then ''paused'' else jr_status job), tj_last_polled_at := Some now\<rparr>)"

definition tick_one_tail_job ::
    "('z) ingest_libraries_scheme \<Rightarrow> tail_source \<Rightarrow> nat \<Rightarrow> int \<Rightarrow> tail_job \<times> log_store \<Rightarrow> (tail_job \<times> log_store) res" where
  "tick_one_tail_job lib src threshold now = (\<lambda>(job, rows, next_id).
     rbind (tick_window_for_job job now) (\<lambda>w.
       Inr (case ts_discover src of
              Inl e \<Rightarrow> (tail_tick_failed job now threshold e, rows, next_id)
            | Inr refs \<Rightarrow>
                (case ingest_from_source lib (ts_read src w) rows next_id (jr_source_id job) (ij_id job) now now (spec_from_tail_job job) refs
                        (cursors_from_job job) [] (Some (job_row.truncate job)) False (tick_format job) (tick_scope job) of
                   None \<Rightarrow> (tail_tick_failed job now threshold ''No streams discovered'', rows, next_id)
                 | Some out \<Rightarrow>
                     (let job' = with_row job (io_job out); store = (ig_rows (io_state out), ig_next_id (io_state out)) in
                      case io_raised out of
                        Some e \<Rightarrow> (tail_tick_failed job' now threshold e, store)
                      | None \<Rightarrow>
                          (apply_tail_window_progress (job'\<lparr>tj_consecutive_errors := 0, jr_error_message := None\<rparr>) w now, store))))))"

section \<open>The round over the due jobs\<close>

definition pending_worker_job_count :: "worker_job list \<Rightarrow> nat" where
  "pending_worker_job_count jobs = length (filter (\<lambda>j. wj_status j = ''pending'') jobs)"

definition ingest_queue_is_full :: "nat \<Rightarrow> int \<Rightarrow> bool" where
  "ingest_queue_is_full pending max_depth \<longleftrightarrow> max_depth \<le> int pending"

fun tick_due :: "('z) ingest_libraries_scheme \<Rightarrow> (tail_job \<Rightarrow> tail_source) \<Rightarrow> int \<Rightarrow> nat \<Rightarrow> int \<Rightarrow> tail_job list \<Rightarrow> log_store \<Rightarrow> (tail_job list \<times> log_store \<times> nat) res" where
  "tick_due lib src_of poll threshold now [] store = Inr ([], store, 0)"
| "tick_due lib src_of poll threshold now (j # js) store =
     (if is_tail_job_due j now poll
      then rbind (tick_one_tail_job lib (src_of j) threshold now (j, store)) (\<lambda>(j', store').
             rbind (tick_due lib src_of poll threshold now js store') (\<lambda>(js', store'', n). Inr (j' # js', store'', n + 1)))
      else rbind (tick_due lib src_of poll threshold now js store) (\<lambda>(js', store', n). Inr (j # js', store', n)))"

definition tick_tail_jobs ::
    "('z) ingest_libraries_scheme \<Rightarrow> (tail_job \<Rightarrow> tail_source) \<Rightarrow> worker_job list \<Rightarrow> int \<Rightarrow> int \<Rightarrow> nat \<Rightarrow> int \<Rightarrow> tail_job list \<Rightarrow> log_store
      \<Rightarrow> (tail_job list \<times> log_store \<times> nat) res" where
  "tick_tail_jobs lib src_of queue queue_max poll threshold now jobs store =
     (if ingest_queue_is_full (pending_worker_job_count queue) queue_max then Inr (jobs, store, 0)
      else tick_due lib src_of poll threshold now jobs store)"

definition tail_job_counts :: "tail_job list \<Rightarrow> nat \<times> nat" where
  "tail_job_counts jobs =
     (length (filter (\<lambda>j. jr_mode j = ''tail'' \<and> jr_status j = ''running'') jobs),
      length (filter (\<lambda>j. jr_mode j = ''tail'' \<and> jr_status j = ''paused'') jobs))"

section \<open>A healthy run completes what it closes\<close>

context resumable_adapter
begin

text \<open>Nothing failed so far, and a stream whose cursor is closed is stored completely.\<close>

definition healthy_loop :: "('z) ingest_libraries_scheme \<Rightarrow> source_spec \<Rightarrow> string \<Rightarrow> string \<Rightarrow> source_loop \<Rightarrow> bool" where
  "healthy_loop lib spec fmt scope s \<longleftrightarrow> loop_sound lib spec fmt scope s \<and> sl_crash s = None \<and> sl_adapter_errors s = [] \<and>
     list_all (\<lambda>(sid, c). c \<noteq> Some [] \<and> (c = None \<longrightarrow> kept lib spec fmt scope (ig_rows (flush_rest (sl_state s))) (content sid))) (sl_cursors s)"

lemma healthy_read:
  assumes good: "\<forall>sid c. fst (snd (adapter sid c)) \<noteq> Some [] \<and> snd (snd (adapter sid c)) = Exhausted"
    and s: "healthy_loop lib spec fmt scope s"
    and r: "kept lib spec fmt scope (ig_rows (flush_rest (sl_state s))) (take (pos (sr_stream_id ref) (sr_cursor ref)) (content (sr_stream_id ref)))"
    and s'_def: "s' = read_stream lib adapter (source_line spec a b fmt scope) finalize ref s"
  shows "healthy_loop lib spec fmt scope s'" "set (ig_rows (flush_rest (sl_state s))) \<subseteq> set (ig_rows (flush_rest (sl_state s')))"
    "fst ` set (sl_cursors s') = insert (sr_stream_id ref) (fst ` set (sl_cursors s))"
proof -
  let ?sid = "sr_stream_id ref"
  obtain raws c' ending where ad: "adapter ?sid (sr_cursor ref) = (raws, c', ending)" by (metis prod_cases3)
  have ex: "ending = Exhausted" "c' \<noteq> Some []" using good [THEN spec [of _ ?sid], THEN spec [of _ "sr_cursor ref"]] by (simp_all add: ad)
  have s0: "loop_sound lib spec fmt scope s" using s by (simp add: healthy_loop_def)
  note sound = read_stream_sound [OF s0 r s'_def]
  show grow: "set (ig_rows (flush_rest (sl_state s))) \<subseteq> set (ig_rows (flush_rest (sl_state s')))" by (rule sound(2))
  have shape: "sl_crash s' = sl_crash s" "sl_adapter_errors s' = sl_adapter_errors s" "sl_cursors s' = dset ?sid c' (sl_cursors s)"
    "sl_state s' = ingest_lines lib (sl_state s) (map (source_line spec a b fmt scope) raws)"
    by (simp_all add: s'_def read_stream_def ad ex Let_def)
  have "kept lib spec fmt scope (ig_rows (flush_rest (sl_state s'))) raws"
    using s0 by (simp add: loop_sound_def shape ingest_lines_insert run_kept)
  then have "c' = None \<Longrightarrow> kept lib spec fmt scope (ig_rows (flush_rest (sl_state s'))) (content ?sid)"
    using read_prefix(2) [OF ad kept_mono [OF grow r]] ex by simp
  then show "healthy_loop lib spec fmt scope s'"
    using s sound(1) ex(2) set_dset_subset [of ?sid c' "sl_cursors s"] kept_mono [OF grow, of lib spec fmt scope]
    unfolding healthy_loop_def shape list_all_iff by fastforce
  show "fst ` set (sl_cursors s') = insert (sr_stream_id ref) (fst ` set (sl_cursors s))" by (simp add: shape)
qed

lemma healthy_loop_run:
  assumes good: "\<forall>sid c. fst (snd (adapter sid c)) \<noteq> Some [] \<and> snd (snd (adapter sid c)) = Exhausted"
    and "healthy_loop lib spec fmt scope s" "set rows \<subseteq> set (ig_rows (flush_rest (sl_state s)))"
    and "\<forall>r \<in> set refs. kept lib spec fmt scope rows (take (pos (sr_stream_id r) (sr_cursor r)) (content (sr_stream_id r)))"
    and "s' = foldl (source_step lib adapter (source_line spec a b fmt scope) finalize []) s refs"
  shows "healthy_loop lib spec fmt scope s' \<and> set rows \<subseteq> set (ig_rows (flush_rest (sl_state s')))
     \<and> fst ` set (sl_cursors s') = sr_stream_id ` set refs \<union> fst ` set (sl_cursors s)"
  using assms(2-)
proof (induction refs arbitrary: s)
  case (Cons r refs)
  let ?s' = "source_step lib adapter (source_line spec a b fmt scope) finalize [] s r"
  have "sl_crash s = None" using Cons.prems(1) by (simp add: healthy_loop_def)
  then have step: "?s' = read_stream lib adapter (source_line spec a b fmt scope) finalize r s" by (simp add: source_step_def)
  have "kept lib spec fmt scope (ig_rows (flush_rest (sl_state s))) (take (pos (sr_stream_id r) (sr_cursor r)) (content (sr_stream_id r)))"
    using Cons.prems(2,3) by (auto intro: kept_mono)
  note one = healthy_read [OF good Cons.prems(1) this step]
  from Cons.IH [of ?s'] one Cons.prems(2,3,4) show ?case by auto
qed simp

lemma healthy_run:
  assumes good: "\<forall>sid c. fst (snd (adapter sid c)) \<noteq> Some [] \<and> snd (snd (adapter sid c)) = Exhausted"
    and rp: "resume_point lib content pos spec fmt scope rows cursors []" "list_all (\<lambda>r. sr_cursor r = None) discovered"
    and out: "ingest_from_source lib adapter rows next_id sid jid t0 t1 spec discovered cursors [] existing finalize fmt scope = Some out"
  shows "io_raised out = None"
    "set rows \<subseteq> set (ig_rows (io_state out))"
    "fst ` set (the (jr_cursors (io_job out))) = sr_stream_id ` set discovered"
    "list_all (\<lambda>(sid, c). c \<noteq> Some [] \<and> (c = None \<longrightarrow> kept lib spec fmt scope (ig_rows (io_state out)) (content sid))) (the (jr_cursors (io_job out)))"
    "jr_cursors (io_job out) \<noteq> None"
proof -
  let ?refs = "apply_resume_cursors cursors [] discovered"
  let ?job = "source_job spec sid jid t0 scope ?refs existing"
  let ?s = "source_loop_run lib adapter (source_line spec sid (ij_id ?job) fmt scope) finalize [] (fresh_state rows next_id (length ?refs)) ?refs"
  let ?init = "\<lparr>sl_state = fresh_state rows next_id (length ?refs), sl_adapter_errors = [], sl_cursors = [], sl_completed = dedup [], sl_crash = None\<rparr>"
  have init: "flush_rest (fresh_state rows next_id (length ?refs)) = fresh_state rows next_id (length ?refs)" "state_ok (fresh_state rows next_id (length ?refs))"
    by (simp_all add: idle_flush idle_def fresh_state_def)
  have loop0: "healthy_loop lib spec fmt scope ?init"
    by (simp add: healthy_loop_def loop_sound_def init) (simp add: fresh_state_def resume_point_def)
  have run: "healthy_loop lib spec fmt scope ?s \<and> set rows \<subseteq> set (ig_rows (flush_rest (sl_state ?s)))
     \<and> fst ` set (sl_cursors ?s) = sr_stream_id ` set ?refs \<union> fst ` set (sl_cursors ?init)"
    by (rule healthy_loop_run [OF good loop0 _ _ source_loop_run_def, where rows = rows])
      (use resumed_refs [OF rp] init in \<open>auto simp: fresh_state_def\<close>)
  have ids: "sr_stream_id ` set ?refs = sr_stream_id ` set discovered"
    by (force simp: apply_resume_cursors_def image_image split: option.splits)
  have shape: "io_raised out = None" "io_state out = flush_rest (sl_state ?s)" "jr_cursors (io_job out) = Some (sl_cursors ?s)"
    using out run by (auto simp: ingest_from_source_def healthy_loop_def Let_def store_job_cursors_def completed_job_def split: if_splits)
  show "io_raised out = None" "set rows \<subseteq> set (ig_rows (io_state out))" "jr_cursors (io_job out) \<noteq> None"
    "fst ` set (the (jr_cursors (io_job out))) = sr_stream_id ` set discovered"
    "list_all (\<lambda>(sid, c). c \<noteq> Some [] \<and> (c = None \<longrightarrow> kept lib spec fmt scope (ig_rows (io_state out)) (content sid))) (the (jr_cursors (io_job out)))"
    using run ids by (simp_all add: shape healthy_loop_def)
qed

end

section \<open>A tail job follows its source\<close>

text \<open>
  A source whose polls never fail: it discovers its streams and every read ends, at the end of the window or at
  a page cursor. What a stream holds in a window and where a cursor points are arguments.
\<close>

definition steady :: "tail_source \<Rightarrow> stream_ref list \<Rightarrow> (window \<Rightarrow> string \<Rightarrow> raw_log_line list) \<Rightarrow> (window \<Rightarrow> string \<Rightarrow> string option \<Rightarrow> nat) \<Rightarrow> bool" where
  "steady src refs content pos \<longleftrightarrow>
     ts_discover src = Inr refs \<and> refs \<noteq> [] \<and> list_all (\<lambda>r. sr_cursor r = None) refs
     \<and> (\<forall>w. resumable_adapter (content w) (pos w) (ts_read src w))
     \<and> (\<forall>w sid c. fst (snd (ts_read src w sid c)) \<noteq> Some [] \<and> snd (snd (ts_read src w sid c)) = Exhausted)"

lemma steadyD:
  assumes "steady src refs content pos"
  shows "ts_discover src = Inr refs" "refs \<noteq> []" "list_all (\<lambda>r. sr_cursor r = None) refs"
    "resumable_adapter (content w) (pos w) (ts_read src w)"
    "\<forall>sid c. fst (snd (ts_read src w sid c)) \<noteq> Some [] \<and> snd (snd (ts_read src w sid c)) = Exhausted"
  using assms unfolding steady_def by blast+

text \<open>Everything the streams hold in a window is stored.\<close>

definition window_stored ::
    "('z) ingest_libraries_scheme \<Rightarrow> (window \<Rightarrow> string \<Rightarrow> raw_log_line list) \<Rightarrow> tail_job \<Rightarrow> stream_ref list \<Rightarrow> stored_line list \<Rightarrow> window \<Rightarrow> bool" where
  "window_stored lib content job refs rows w =
     list_all (\<lambda>r. kept lib (spec_from_tail_job job) (tick_format job) (tick_scope job) rows (content w (sr_stream_id r))) refs"

text \<open>Between two polls a window is held exactly while a cursor is open, and what lies below the cursors is stored.\<close>

definition tail_sound ::
    "('z) ingest_libraries_scheme \<Rightarrow> (window \<Rightarrow> string \<Rightarrow> raw_log_line list) \<Rightarrow> (window \<Rightarrow> string \<Rightarrow> string option \<Rightarrow> nat) \<Rightarrow> tail_job \<Rightarrow> stored_line list \<Rightarrow> bool" where
  "tail_sound lib content pos job rows =
     (case tj_held job of
        None \<Rightarrow> list_all (\<lambda>(_, c). c = None) (cursors_from_job job)
      | Some w \<Rightarrow> has_open_cursors (cursors_from_job job)
          \<and> resume_point lib (content w) (pos w) (spec_from_tail_job job) (tick_format job) (tick_scope job) rows (cursors_from_job job) [])"

lemma with_row_simps [simp]:
  "jr_cursors (with_row job row) = jr_cursors row" "jr_status (with_row job row) = jr_status row" "jr_mode (with_row job row) = jr_mode row"
  "jr_source_adapter (with_row job row) = jr_source_adapter row" "ij_scope (with_row job row) = ij_scope row" "ij_id (with_row job row) = ij_id row"
  "jr_source_id (with_row job row) = jr_source_id row"
  "tj_adapter (with_row job row) = tj_adapter job" "tj_service (with_row job row) = tj_service job" "tj_env (with_row job row) = tj_env job"
  "tj_format (with_row job row) = tj_format job" "tj_scope (with_row job row) = tj_scope job" "tj_held (with_row job row) = tj_held job"
  "tj_consecutive_errors (with_row job row) = tj_consecutive_errors job" "tj_last_polled_at (with_row job row) = tj_last_polled_at job"
  by (cases job; cases row; simp add: with_row_def job_row.defs)+

text \<open>A run that is not finalized leaves these fields of its job alone.\<close>

lemma unfinalized_row:
  assumes "ingest_from_source lib adapter rows next_id sid jid t0 t1 spec discovered cursors done_before (Some j) False fmt scope = Some out"
  shows "jr_status (io_job out) = jr_status j" "jr_mode (io_job out) = jr_mode j" "jr_source_adapter (io_job out) = jr_source_adapter j"
    "ij_scope (io_job out) = ij_scope j" "ij_id (io_job out) = ij_id j" "jr_source_id (io_job out) = jr_source_id j"
    "io_raised out \<noteq> None \<Longrightarrow> jr_cursors (io_job out) = jr_cursors j"
  using assms
  by (auto simp: ingest_from_source_def source_job_def store_job_cursors_def apply_ingest_counts_def Let_def split: if_splits option.splits)

lemma truncate_simps:
  "jr_status (job_row.truncate j) = jr_status j" "jr_mode (job_row.truncate j) = jr_mode j" "jr_source_adapter (job_row.truncate j) = jr_source_adapter j"
  "ij_scope (job_row.truncate j) = ij_scope j" "jr_cursors (job_row.truncate j) = jr_cursors j" "ij_id (job_row.truncate j) = ij_id j"
  "jr_source_id (job_row.truncate j) = jr_source_id j"
  by (cases j; simp add: job_row.defs)+

lemma open_cursors_closed: "list_all (\<lambda>(_, c). c = None) cs \<Longrightarrow> \<not> has_open_cursors cs"
  by (auto simp: has_open_cursors_def list_all_iff list_ex_iff)

lemma tick_start:
  assumes "steady src refs content pos" "tail_sound lib content pos job rows" "tick_window_for_job job now = Inr w"
  shows "resume_point lib (content w) (pos w) (spec_from_tail_job job) (tick_format job) (tick_scope job) rows (cursors_from_job job) []"
proof (cases "tj_held job")
  case None
  note zero = resumable_adapter.start [OF steadyD(4) [OF assms(1)]]
  then show ?thesis using assms(2) None by (auto simp: tail_sound_def resume_point_def list_all_iff zero split_beta)
next
  case (Some w')
  with assms(2,3) have "w' = w" by (simp add: tail_sound_def tick_window_for_job_def held_paging_window_def)
  with assms(2) Some show ?thesis by (simp add: tail_sound_def)
qed

definition same_source :: "tail_job \<Rightarrow> tail_job \<Rightarrow> bool" where
  "same_source job job' \<longleftrightarrow> spec_from_tail_job job' = spec_from_tail_job job \<and> tick_format job' = tick_format job \<and> tick_scope job' = tick_scope job"

lemma tick_steady:
  assumes src: "steady src refs content pos" and sound: "tail_sound lib content pos job rows"
    and w: "tick_window_for_job job now = Inr w"
    and tick: "tick_one_tail_job lib src threshold now (job, rows, k) = Inr (job', rows', k')"
  shows "tail_sound lib content pos job' rows' \<and> same_source job job' \<and> set rows \<subseteq> set rows'
     \<and> tj_last_polled_at job' = Some now \<and> tj_consecutive_errors job' = 0 \<and> jr_status job' = jr_status job
     \<and> (tj_held job' = None \<and> window_stored lib content job refs rows' w \<or> tj_held job' = Some w)"
proof -
  let ?spec = "spec_from_tail_job job" and ?fmt = "tick_format job" and ?scope = "tick_scope job"
  note disc = steadyD(1-3) [OF src] and ra = steadyD(4) [OF src, of w] and good = steadyD(5) [OF src, of w]
  obtain out where out: "ingest_from_source lib (ts_read src w) rows k (jr_source_id job) (ij_id job) now now ?spec refs
      (cursors_from_job job) [] (Some (job_row.truncate job)) False ?fmt ?scope = Some out"
    using disc(2) by (auto simp: ingest_from_source_def Let_def)
  note start = tick_start [OF src sound w]
  note run = resumable_adapter.healthy_run [OF ra good start disc(3) out]
  have rp: "resume_point lib (content w) (pos w) ?spec ?fmt ?scope (ig_rows (io_state out)) (the (jr_cursors (io_job out))) []"
    using resumable_adapter.resumed_run [OF ra start disc(3) out run(1)] by simp
  note row = unfinalized_row [OF out, unfolded truncate_simps]
  let ?job1 = "(with_row job (io_job out))\<lparr>tj_consecutive_errors := 0, jr_error_message := None\<rparr>"
  have job': "job' = apply_tail_window_progress ?job1 w now" "rows' = ig_rows (io_state out)"
    using tick out run(1) by (simp_all add: tick_one_tail_job_def w disc(1) Let_def)
  have cur: "cursors_from_job job' = the (jr_cursors (io_job out))" "cursors_from_job ?job1 = the (jr_cursors (io_job out))"
    using run(5) by (auto simp: job' apply_tail_window_progress_def cursors_from_job_def)
  have fields: "jr_source_adapter job' = jr_source_adapter job" "ij_scope job' = ij_scope job" "tj_adapter job' = tj_adapter job"
    "tj_service job' = tj_service job" "tj_env job' = tj_env job" "tj_format job' = tj_format job" "tj_scope job' = tj_scope job"
    by (simp_all add: job'(1) apply_tail_window_progress_def row)
  have same: "same_source job job'"
    unfolding same_source_def spec_from_tail_job_def tick_format_def tick_scope_def fields by simp
  have held: "tj_held job' = (if has_open_cursors (cursors_from_job job') then Some w else None)"
    unfolding cur(1) by (simp add: job'(1) apply_tail_window_progress_def cur(2))
  have closed_none: "c = None" if "\<not> has_open_cursors (cursors_from_job job')" "(sid, c) \<in> set (cursors_from_job job')" for sid c
    using that run(4) unfolding cur(1) has_open_cursors_def list_ex_iff list_all_iff by fastforce
  have snd': "tail_sound lib content pos job' rows'"
    using rp same held closed_none unfolding tail_sound_def same_source_def cur(1) job'(2) list_all_iff by (auto simp: cur(1))
  have all: "window_stored lib content job refs rows' w" if closed: "tj_held job' = None"
    unfolding window_stored_def list_all_iff
  proof
    fix r assume "r \<in> set refs"
    then obtain c where "(sr_stream_id r, c) \<in> set (the (jr_cursors (io_job out)))" using run(3) by (metis (no_types, lifting) image_eqI image_iff prod.collapse)
    moreover from this have "c = None" using closed_none closed held cur(1) by (auto split: if_splits)
    ultimately show "kept lib ?spec ?fmt ?scope rows' (content w (sr_stream_id r))"
      using run(4) unfolding job'(2) list_all_iff by fastforce
  qed
  have rest: "tj_last_polled_at job' = Some now" "tj_consecutive_errors job' = 0" "jr_status job' = jr_status job"
    by (simp_all add: job'(1) apply_tail_window_progress_def row)
  show ?thesis using snd' same run(2) rest all held job'(2) by (auto split: if_splits)
qed


section \<open>Undisturbed polling\<close>

fun tail_ticks :: "('z) ingest_libraries_scheme \<Rightarrow> tail_source \<Rightarrow> nat \<Rightarrow> int list \<Rightarrow> tail_job \<times> log_store \<Rightarrow> (tail_job \<times> log_store) res" where
  "tail_ticks lib src threshold [] s = Inr s"
| "tail_ticks lib src threshold (now # nows) s = rbind (tick_one_tail_job lib src threshold now s) (tail_ticks lib src threshold nows)"

lemma closing_step:
  assumes "\<forall>sid c. fst (snd (adapter sid c)) = None" "list_all (\<lambda>(_, c). c = None) (sl_cursors s)"
  shows "list_all (\<lambda>(_, c). c = None) (sl_cursors (foldl (source_step lib adapter mk finalize done_before) s refs))"
  using assms(2)
proof (induction refs arbitrary: s)
  case (Cons r refs)
  obtain raws c' ending where ad: "adapter (sr_stream_id r) (sr_cursor r) = (raws, c', ending)" by (metis prod_cases3)
  have "c' = None" using assms(1) [THEN spec [of _ "sr_stream_id r"], THEN spec [of _ "sr_cursor r"]] by (simp add: ad)
  then have "sl_cursors (source_step lib adapter mk finalize done_before s r) \<in> {sl_cursors s, dset (sr_stream_id r) None (sl_cursors s)}"
    by (auto simp: source_step_def read_stream_def ad Let_def split: read_end.splits)
  then have "list_all (\<lambda>(_, c). c = None) (sl_cursors (source_step lib adapter mk finalize done_before s r))"
    using Cons.prems set_dset_subset [of "sr_stream_id r" None "sl_cursors s"] by (auto simp: list_all_iff)
  with Cons.IH show ?case by simp
qed simp

lemma closing_run:
  assumes "\<forall>sid c. fst (snd (adapter sid c)) = None"
    and "ingest_from_source lib adapter rows next_id sid jid t0 t1 spec discovered cursors done_before existing finalize fmt scope = Some out"
    and "io_raised out = None"
  shows "list_all (\<lambda>(_, c). c = None) (the (jr_cursors (io_job out)))"
proof -
  have loop: "list_all (\<lambda>(_, c). c = None) (sl_cursors (source_loop_run lib adapter mk fin done_before st refs))" for mk fin st refs
    unfolding source_loop_run_def by (rule closing_step [OF assms(1)]) simp
  show ?thesis
    using assms(2,3) by (auto simp: ingest_from_source_def store_job_cursors_def completed_job_def Let_def loop split: if_splits option.splits)
qed

lemma closing_tick:
  assumes src: "steady src refs content pos" and closing: "\<forall>w sid c. fst (snd (ts_read src w sid c)) = None"
    and sound: "tail_sound lib content pos job rows" and w: "tick_window_for_job job now = Inr w"
    and tick: "tick_one_tail_job lib src threshold now (job, rows, k) = Inr (job', rows', k')"
  shows "tj_held job' = None"
proof -
  note disc = steadyD(1-3) [OF src] and ra = steadyD(4) [OF src, of w] and good = steadyD(5) [OF src, of w]
  obtain out where out: "ingest_from_source lib (ts_read src w) rows k (jr_source_id job) (ij_id job) now now (spec_from_tail_job job) refs
      (cursors_from_job job) [] (Some (job_row.truncate job)) False (tick_format job) (tick_scope job) = Some out"
    using disc(2) by (auto simp: ingest_from_source_def Let_def)
  note run = resumable_adapter.healthy_run [OF ra good tick_start [OF src sound w] disc(3) out]
  have "list_all (\<lambda>(_, c). c = None) (the (jr_cursors (io_job out)))" using closing_run [OF _ out run(1)] closing by blast
  then have "\<not> has_open_cursors (the (jr_cursors (io_job out)))" by (rule open_cursors_closed)
  then show ?thesis
    using tick out run(1,5) by (auto simp: tick_one_tail_job_def w disc(1) Let_def apply_tail_window_progress_def cursors_from_job_def)
qed

lemma window_stored_mono: "set rows \<subseteq> set rows' \<Longrightarrow> window_stored lib content job refs rows w \<Longrightarrow> window_stored lib content job refs rows' w"
  unfolding window_stored_def list_all_iff using kept_mono by blast

lemma undisturbed:
  assumes src: "steady src refs content pos" and closing: "\<forall>w sid c. fst (snd (ts_read src w sid c)) = None"
  shows "tail_sound lib content pos job rows \<Longrightarrow> tj_held job = None \<Longrightarrow> tick_window_for_job job t = Inr (a, t) \<Longrightarrow>
    tail_ticks lib src threshold (t # ts) (job, rows, k) = Inr (job', rows', k') \<Longrightarrow>
    list_all (window_stored lib content job refs rows') (zip (a # t # ts) (t # ts))
    \<and> set rows \<subseteq> set rows' \<and> tj_last_polled_at job' = Some (last (t # ts)) \<and> jr_status job' = jr_status job"
proof (induction ts arbitrary: job rows k t a)
  case Nil
  have "tick_one_tail_job lib src threshold t (job, rows, k) = Inr (job', rows', k')" using Nil(4) by (auto simp: rbind_Inr_iff)
  with Nil show ?case
    using tick_steady [OF src Nil(1,3), of threshold k job' rows' k'] closing_tick [OF src closing Nil(1,3), of threshold k job' rows' k'] by simp
next
  case (Cons u us)
  obtain job1 rows1 k1 where one: "tick_one_tail_job lib src threshold t (job, rows, k) = Inr (job1, rows1, k1)"
    and rest: "tail_ticks lib src threshold (u # us) (job1, rows1, k1) = Inr (job', rows', k')"
    using Cons.prems(4) unfolding tail_ticks.simps(2) [of lib src threshold t "u # us"] by (auto simp: rbind_Inr_iff)
  note step = tick_steady [OF src Cons.prems(1,3) one] and held = closing_tick [OF src closing Cons.prems(1,3) one]
  have "\<not> has_open_cursors (cursors_from_job job1)"
    using step held by (intro open_cursors_closed) (simp add: tail_sound_def)
  then have win: "tick_window_for_job job1 u = Inr (t, u)" using step by (simp add: tick_window_for_job_def held_paging_window_def)
  have tail1: "tail_sound lib content pos job1 rows1" using step by blast
  note ih = Cons.IH [OF tail1 held win rest]
  have same: "window_stored lib content job1 = window_stored lib content job"
    using step unfolding same_source_def window_stored_def by (intro ext) simp
  have "window_stored lib content job refs rows' (a, t)" using step held ih by (auto intro: window_stored_mono)
  with ih step show ?case unfolding same by auto
qed

text \<open>
  C19: An undisturbed tail job misses nothing. As long as every poll succeeds and reads its window to the end, the
  windows of consecutive polls join without a gap, and every line the streams hold from the start of the
  first window to the last poll is stored.
\<close>
theorem undisturbed_tail_stores_all:
  assumes "steady src refs content pos" "\<forall>w sid c. fst (snd (ts_read src w sid c)) = None"
    and "tail_sound lib content pos job rows" "tj_held job = None" "tick_window_for_job job t = Inr (a, t)"
    and "tail_ticks lib src threshold (t # ts) (job, rows, k) = Inr (job', rows', k')"
  shows "list_all (window_stored lib content job refs rows') (zip (a # t # ts) (t # ts))
     \<and> tj_last_polled_at job' = Some (last (t # ts)) \<and> jr_status job' = jr_status job"
  using undisturbed [OF assms] by blast

section \<open>Polls that skip time\<close>

text \<open>
  A failed poll counts as the last one although its window was not read: the next poll starts after it. So does
  the poll that closes a held window: what the streams logged between the end of the window and this poll is in
  no window.
\<close>

lemma failed_poll_skips_window:
  assumes "held_paging_window job = None" "tick_window_for_job job now = Inr w" "ts_discover src = Inl e"
    and "tick_one_tail_job lib src threshold now (job, store) = Inr (job', store')"
  shows "store' = store" "tick_window_for_job job' later = Inr (now, later)"
proof -
  obtain rows k where "store = (rows, k)" by force
  then have r: "store' = store" "job' = tail_tick_failed job now threshold e" using assms(2-) by (simp_all add: tick_one_tail_job_def)
  then show "store' = store" "tick_window_for_job job' later = Inr (now, later)"
    using assms(1) by (auto simp: tick_window_for_job_def held_paging_window_def tail_tick_failed_def consecutive_errors_after_failure_def
        cursors_from_job_def split: if_splits)
qed

lemma closing_poll_skips_time:
  assumes src: "steady src refs content pos" and sound: "tail_sound lib content pos job rows" and held: "tj_held job = Some (a, b)"
    and tick: "tick_one_tail_job lib src threshold now (job, rows, k) = Inr (job', rows', k')" and closed: "tj_held job' = None"
  shows "tick_window_for_job job now = Inr (a, b)" "tick_window_for_job job' later = Inr (now, later)"
proof -
  show w: "tick_window_for_job job now = Inr (a, b)"
    using sound held by (simp add: tail_sound_def tick_window_for_job_def held_paging_window_def)
  from tick_steady [OF src sound w tick] closed show "tick_window_for_job job' later = Inr (now, later)"
    by (auto simp: tail_sound_def tick_window_for_job_def held_paging_window_def dest: open_cursors_closed)
qed

section \<open>Life cycle over time\<close>

text \<open>The steps of a job: an action of the API, or a poll when it is due.\<close>

definition act :: "string \<Rightarrow> int \<Rightarrow> tail_job \<Rightarrow> tail_error + tail_job" where
  "act action now job =
     (case apply_tail_lifecycle (jr_mode job) (jr_status job) action of
        Inl e \<Rightarrow> Inl e
      | Inr s \<Rightarrow> Inr (job\<lparr>jr_status := s, jr_finished_at := (if action = ''stop'' then Some now else jr_finished_at job)\<rparr>))"

inductive tail_step :: "('z) ingest_libraries_scheme \<Rightarrow> nat \<Rightarrow> int \<Rightarrow> tail_job \<times> log_store \<Rightarrow> tail_job \<times> log_store \<Rightarrow> bool"
  for lib threshold poll where
  action: "act a now job = Inr job' \<Longrightarrow> tail_step lib threshold poll (job, store) (job', store)"
| poll: "is_tail_job_due job now poll \<Longrightarrow> tick_one_tail_job lib src threshold now (job, store) = Inr (job', store')
    \<Longrightarrow> tail_step lib threshold poll (job, store) (job', store')"

inductive_cases tail_stepE: "tail_step lib threshold poll (job, store) (job', store')"

lemma stopped_stays:
  assumes "(tail_step lib threshold poll)\<^sup>*\<^sup>* s s'" "jr_status (fst s) = ''stopped''"
  shows "jr_status (fst s') = ''stopped'' \<and> snd s' = snd s"
  using assms
proof (induction rule: rtranclp_induct)
  case (step y z)
  obtain job store job' store' where yz: "y = (job, store)" "z = (job', store')" by (metis surj_pair)
  have "jr_status job = ''stopped''" using step by (simp add: yz)
  with step.hyps(2) have "jr_status job' = ''stopped'' \<and> store' = store"
    unfolding yz by (elim tail_stepE)
      (auto simp: act_def apply_tail_lifecycle_def is_tail_job_due_def TAIL_LIFECYCLE_ACTIONS_def split: sum.splits if_splits)
  with step show ?case by (simp add: yz)
qed simp

text \<open>
  Stopping a tail job is final. Whatever actions and polls follow, the job stays stopped and not a row is
  written for it.
\<close>
theorem stopped_is_final:
  assumes "act ''stop'' now job = Inr stopped" "(tail_step lib threshold poll)\<^sup>*\<^sup>* (stopped, store) (job', store')"
  shows "jr_status job' = ''stopped'' \<and> store' = store"
proof -
  have "jr_status stopped = ''stopped''"
    using assms(1) by (auto simp: act_def apply_tail_lifecycle_def TAIL_LIFECYCLE_ACTIONS_def split: if_splits)
  with stopped_stays [OF assms(2)] show ?thesis by simp
qed

section \<open>Examples\<close>

definition demo_tail :: tail_job where
  "demo_tail = job_row.extend (new_job 1 0 ''default'' 1 0 ''loki'' ''tail:loki'' ''tail'')
     \<lparr>tj_last_polled_at = Some 60, tj_consecutive_errors = 0, tj_held = None, tj_since = None, tj_from_time = None, tj_to_time = None,
      tj_adapter = Some ''loki'', tj_service = None, tj_env = None, tj_format = None, tj_scope = None\<rparr>"

definition demo_content :: "window \<Rightarrow> string \<Rightarrow> raw_log_line list" where
  "demo_content w sid =
     [\<lparr>rl_text = ''boom'', rl_source_ref = sid, rl_received_at = Some (fst w), rl_default_service = None, rl_default_environment = None,
       rl_default_host = None, rl_extra = []\<rparr>]"

definition demo_source :: tail_source where
  "demo_source = \<lparr>ts_discover = Inr [\<lparr>sr_stream_id = ''app'', sr_cursor = None\<rparr>], ts_read = (\<lambda>w sid c. (demo_content w sid, None, Exhausted))\<rparr>"

lemma demo_steady: "steady demo_source [\<lparr>sr_stream_id = ''app'', sr_cursor = None\<rparr>] demo_content (\<lambda>_ _ _. 0)"
  by (auto simp: steady_def demo_source_def demo_content_def intro!: resumable_adapter.intro)

lemma demo_tail_facts:
  "tail_sound demo_ingest demo_content (\<lambda>_ _ _. 0) demo_tail []" "tj_held demo_tail = None" "tick_window_for_job demo_tail 90 = Inr (60, 90)"
  "jr_mode demo_tail = ''tail''" "jr_status demo_tail = ''running''"
  by (simp_all add: demo_tail_def new_job_def job_row.defs tail_sound_def cursors_from_job_def tick_window_for_job_def held_paging_window_def
      has_open_cursors_def)

lemma tick_returns: "tick_window_for_job job now = Inr w \<Longrightarrow> \<exists>r. tick_one_tail_job lib src threshold now (job, store) = Inr r"
  by (cases store) (simp add: tick_one_tail_job_def del: split_paired_Ex)

lemma demo_ticks: "\<exists>job rows k. tail_ticks demo_ingest demo_source 5 [90, 120] (demo_tail, [], 0) = Inr (job, rows, k)"
proof -
  obtain j1 r1 k1 where one: "tick_one_tail_job demo_ingest demo_source 5 90 (demo_tail, [], 0) = Inr (j1, r1, k1)"
    using tick_returns [OF demo_tail_facts(3)] by (metis prod_cases3)
  note step = tick_steady [OF demo_steady demo_tail_facts(1,3) one]
  obtain w where "tick_window_for_job j1 120 = Inr w"
    using step by (cases "held_paging_window j1") (simp_all add: tick_window_for_job_def del: split_paired_All)
  then obtain r2 where "tick_one_tail_job demo_ingest demo_source 5 120 (j1, r1, k1) = Inr r2" using tick_returns by blast
  then show ?thesis using one by (cases r2) simp
qed


theorem undisturbed_tail_stores_all_witness:
  "case tail_ticks demo_ingest demo_source 5 [90, 120] (demo_tail, [], 0) of
     Inl _ \<Rightarrow> False
   | Inr (job, rows, _) \<Rightarrow> window_stored demo_ingest demo_content demo_tail [\<lparr>sr_stream_id = ''app'', sr_cursor = None\<rparr>] rows (60, 90)
       \<and> window_stored demo_ingest demo_content demo_tail [\<lparr>sr_stream_id = ''app'', sr_cursor = None\<rparr>] rows (90, 120)"
proof -
  obtain job rows k where run: "tail_ticks demo_ingest demo_source 5 [90, 120] (demo_tail, [], 0) = Inr (job, rows, k)" using demo_ticks by blast
  have "\<forall>w sid c. fst (snd (ts_read demo_source w sid c)) = None" by (simp add: demo_source_def)
  from undisturbed_tail_stores_all [OF demo_steady this demo_tail_facts(1-3) run] show ?thesis unfolding run by simp
qed

theorem stopped_is_final_witness:
  "case act ''stop'' 7 demo_tail of Inl _ \<Rightarrow> False | Inr job \<Rightarrow> jr_status job = ''stopped'' \<and> act ''resume'' 8 job = Inl (TailLifecycleError ''conflict'' ''stopped tail jobs cannot be paused or resumed'')"
proof -
  obtain job where job: "act ''stop'' 7 demo_tail = Inr job" by (simp add: act_def apply_tail_lifecycle_def TAIL_LIFECYCLE_ACTIONS_def demo_tail_facts)
  have "(tail_step demo_ingest 5 30)\<^sup>*\<^sup>* (job, [], 0) (job, [], 0)" by blast
  from stopped_is_final [OF job this] have s: "jr_status job = ''stopped''" by blast
  have "jr_mode job = ''tail''" using job by (auto simp: act_def apply_tail_lifecycle_def TAIL_LIFECYCLE_ACTIONS_def demo_tail_facts)
  with s show ?thesis by (simp add: job) (simp add: act_def apply_tail_lifecycle_def TAIL_LIFECYCLE_ACTIONS_def)
qed

end
