(* ===== verification/IngestRequests.thy ===== *)
theory IngestRequests
  imports Tail
begin

text \<open>
  The requests that start ingestion (\<open>api/routes/ingestions.py\<close>, \<open>core/ingestion/idempotency.py\<close>, \<open>push.py\<close> and the
  decisions of \<open>webhooks.py\<close>): enqueueing a batch or tail job under an \<open>Idempotency-Key\<close> and the queue ceiling, and
  splitting pushed lines. Checking the request against files and adapters is an argument, and so are the row
  another request commits between the lookup of a key and its insertion, the printing of instants and the
  JSON library.
\<close>

section \<open>Idempotency keys\<close>

definition MAX_IDEMPOTENCY_KEY_LENGTH :: nat where "MAX_IDEMPOTENCY_KEY_LENGTH = 256"

definition parse_idempotency_key :: "string option \<Rightarrow> string + string option" where
  "parse_idempotency_key raw =
     (case raw of
        None \<Rightarrow> Inr None
      | Some r \<Rightarrow>
          (let key = strip_str r in
           if key = [] then Inl ''Idempotency-Key must be a non-empty string''
           else if MAX_IDEMPOTENCY_KEY_LENGTH < length key then Inl ''Idempotency-Key exceeds 256 characters''
           else Inr (Some key)))"

record idempotency_row =
  ik_key :: string
  ik_worker_job_id :: "nat option"
  ik_ingestion_job_id :: "nat option"
  ik_mode :: string
  ik_created_at :: int
  ik_expires_at :: int

definition get_idempotency_row :: "idempotency_row list \<Rightarrow> string \<Rightarrow> idempotency_row option" where
  "get_idempotency_row rows key = find (\<lambda>r. ik_key r = key) rows"

definition is_active :: "idempotency_row \<Rightarrow> int \<Rightarrow> bool" where
  "is_active row now \<longleftrightarrow> now < ik_expires_at row"

definition lookup_active_key :: "idempotency_row list \<Rightarrow> string \<Rightarrow> int \<Rightarrow> idempotency_row option" where
  "lookup_active_key rows key now =
     (case get_idempotency_row rows key of Some row \<Rightarrow> if is_active row now then Some row else None | None \<Rightarrow> None)"

text \<open>The row and whether it is a replay; nothing when the insertion fails and there is no active winner.\<close>

definition store_idempotency_key ::
    "idempotency_row list \<Rightarrow> idempotency_row option \<Rightarrow> string \<Rightarrow> nat option \<Rightarrow> nat option \<Rightarrow> string \<Rightarrow> int \<Rightarrow> int
      \<Rightarrow> idempotency_row list \<times> (idempotency_row \<times> bool) option" where
  "store_idempotency_key rows racer key worker_job_id ingestion_job_id mode now ttl =
     (case lookup_active_key rows key now of
        Some existing \<Rightarrow> (rows, Some (existing, True))
      | None \<Rightarrow>
          (let others = filter (\<lambda>r. ik_key r \<noteq> key) rows;
               row = \<lparr>ik_key = key, ik_worker_job_id = worker_job_id, ik_ingestion_job_id = ingestion_job_id, ik_mode = mode,
                 ik_created_at = now, ik_expires_at = now + ttl\<rparr> in
           case racer of
             Some winner \<Rightarrow>
               (if ik_key winner = key then (others @ [winner], if is_active winner now then Some (winner, True) else None)
                else (others @ [winner, row], Some (row, False)))
           | None \<Rightarrow> (others @ [row], Some (row, False))))"

section \<open>Requests\<close>

record ingest_request =
  rq_paths :: "string list"
  rq_recursive :: bool
  rq_format :: string
  rq_source_name :: "string option"
  rq_service :: "string option"
  rq_env :: "string option"
  rq_adapter :: string
  rq_since :: "string option"
  rq_from_time :: "datetime option"
  rq_to_time :: "datetime option"
  rq_resume_id :: "string option"
  rq_with_embeddings :: bool
  rq_mode :: string
  rq_callback_url :: "string option"

text \<open>Who asks: the scope resolved for the request, and scope and key of the principal.\<close>

record caller =
  cl_resolved_scope :: string
  cl_principal_scope :: "string option"
  cl_key_id :: "string option"

definition nonblank :: "string option \<Rightarrow> string option" where
  "nonblank v = (case v of Some (c # cs) \<Rightarrow> Some (c # cs) | _ \<Rightarrow> None)"

definition meta_scope :: "caller \<Rightarrow> string" where
  "meta_scope c =
     (if strip_str (cl_resolved_scope c) \<noteq> [] then strip_str (cl_resolved_scope c)
      else (case nonblank (cl_principal_scope c) of Some s \<Rightarrow> s | None \<Rightarrow> ''default''))"

definition callback_meta_from_request :: "caller \<Rightarrow> (string, pyval) dict" where
  "callback_meta_from_request c =
     (''scope'', VStr (meta_scope c)) # (case nonblank (cl_key_id c) of Some k \<Rightarrow> [(''api_key_id'', VStr k)] | None \<Rightarrow> [])"

definition ingest_payload :: "(datetime \<Rightarrow> string) \<Rightarrow> ingest_request \<Rightarrow> pyval \<Rightarrow> (string, pyval) dict \<Rightarrow> pyval" where
  "ingest_payload isoformat rq params meta =
     VDict
      ([(''paths'', VList (map VStr (rq_paths rq))), (''recursive'', VBool (rq_recursive rq)), (''format'', VStr (rq_format rq)),
        (''source_name'', opt_str (rq_source_name rq)), (''service'', opt_str (rq_service rq)), (''env'', opt_str (rq_env rq)),
        (''adapter'', VStr (rq_adapter rq)), (''params'', params), (''since'', opt_str (rq_since rq)),
        (''from_time'', opt_str (map_option isoformat (rq_from_time rq))), (''to_time'', opt_str (map_option isoformat (rq_to_time rq))),
        (''resume_ingestion_job_id'', opt_str (rq_resume_id rq)), (''with_embeddings'', VBool (rq_with_embeddings rq)),
        (''mode'', VStr (rq_mode rq))]
       @ meta @ (case nonblank (rq_callback_url rq) of Some u \<Rightarrow> [(''callback_url'', VStr u)] | None \<Rightarrow> []))"

definition payload_scope :: "pyval \<Rightarrow> string \<Rightarrow> string" where
  "payload_scope payload fallback =
     (case payload of
        VDict d \<Rightarrow> (case dget d ''scope'' of Some (VStr s) \<Rightarrow> if strip_str s \<noteq> [] then strip_str s else fallback | _ \<Rightarrow> fallback)
      | _ \<Rightarrow> fallback)"

definition column_scope :: "string \<Rightarrow> string \<Rightarrow> string" where
  "column_scope scope fallback = (if strip_str scope \<noteq> [] then strip_str scope else fallback)"

record request_db =
  qd_workers :: "worker_job list"
  qd_jobs :: "tail_job list"
  qd_sources :: "source list"
  qd_keys :: "idempotency_row list"
  qd_next_id :: nat

definition find_worker :: "request_db \<Rightarrow> nat \<Rightarrow> worker_job option" where
  "find_worker db i = find (\<lambda>j. wj_id j = i) (qd_workers db)"

definition find_job :: "request_db \<Rightarrow> nat \<Rightarrow> tail_job option" where
  "find_job db i = find (\<lambda>j. ij_id j = i) (qd_jobs db)"

definition scope_of_idempotency_row :: "request_db \<Rightarrow> idempotency_row \<Rightarrow> string" where
  "scope_of_idempotency_row db row =
     (case Option.bind (ik_worker_job_id row) (find_worker db) of
        Some j \<Rightarrow> payload_scope (wj_payload j) ''default''
      | None \<Rightarrow>
          (case Option.bind (ik_ingestion_job_id row) (find_job db) of
             Some j \<Rightarrow>
               (if column_scope (ij_scope j) [] \<noteq> [] then column_scope (ij_scope j) []
                else (case tj_scope j of Some s \<Rightarrow> column_scope s ''default'' | None \<Rightarrow> ''default''))
           | None \<Rightarrow> ''default''))"

datatype create_reply = Enqueued "nat option" string "nat option" string | Rejected nat string

definition idempotency_scope_conflict :: create_reply where
  "idempotency_scope_conflict = Rejected 409 ''IDEMPOTENCY_SCOPE_CONFLICT''"

definition enqueued_from_idempotency :: "idempotency_row \<Rightarrow> create_reply" where
  "enqueued_from_idempotency row =
     (if ik_mode row = ''tail'' then Enqueued None ''running'' (ik_ingestion_job_id row) ''tail''
      else Enqueued (ik_worker_job_id row) ''pending'' (ik_ingestion_job_id row) ''batch'')"

definition replay_of :: "request_db \<Rightarrow> idempotency_row \<Rightarrow> string \<Rightarrow> create_reply" where
  "replay_of db row scope =
     (if scope_of_idempotency_row db row \<noteq> scope then idempotency_scope_conflict else enqueued_from_idempotency row)"

definition replay_if_active :: "request_db \<Rightarrow> string option \<Rightarrow> string \<Rightarrow> int \<Rightarrow> create_reply option" where
  "replay_if_active db key scope now =
     (case key of
        None \<Rightarrow> None
      | Some k \<Rightarrow> (case lookup_active_key (qd_keys db) k now of None \<Rightarrow> None | Some row \<Rightarrow> Some (replay_of db row scope)))"

definition bind_idempotency_key ::
    "request_db \<Rightarrow> idempotency_row option \<Rightarrow> string option \<Rightarrow> nat option \<Rightarrow> nat option \<Rightarrow> string \<Rightarrow> string \<Rightarrow> int \<Rightarrow> int
      \<Rightarrow> request_db \<times> create_reply option" where
  "bind_idempotency_key db racer key worker_job_id ingestion_job_id mode scope now ttl =
     (case key of
        None \<Rightarrow> (db, None)
      | Some k \<Rightarrow>
          (let (rows, stored) = store_idempotency_key (qd_keys db) racer k worker_job_id ingestion_job_id mode now ttl;
               db' = db\<lparr>qd_keys := rows\<rparr> in
           case stored of
             None \<Rightarrow> (db', Some (Rejected 500 ''IntegrityError''))
           | Some (row, is_replay) \<Rightarrow> (db', if is_replay then Some (replay_of db' row scope) else None)))"

text \<open>A new tail job, with its source.\<close>

definition tail_job_of :: "ingest_request \<Rightarrow> caller \<Rightarrow> nat \<Rightarrow> nat \<Rightarrow> int \<Rightarrow> string \<Rightarrow> tail_job" where
  "tail_job_of rq c job_id source_id now source_name =
     job_row.extend (new_job job_id now (meta_scope c) source_id 0 (rq_adapter rq) source_name ''tail'')
       \<lparr>tj_last_polled_at = None, tj_consecutive_errors = 0, tj_held = None, tj_since = rq_since rq, tj_from_time = rq_from_time rq,
        tj_to_time = rq_to_time rq, tj_adapter = Some (rq_adapter rq), tj_service = rq_service rq, tj_env = rq_env rq,
        tj_format = Some (rq_format rq), tj_scope = Some (meta_scope c)\<rparr>"

definition create_tail_job :: "ingest_request \<Rightarrow> caller \<Rightarrow> int \<Rightarrow> request_db \<Rightarrow> request_db \<times> nat" where
  "create_tail_job rq c now db =
     (let name = (case nonblank (rq_source_name rq) of Some n \<Rightarrow> n | None \<Rightarrow> ''tail:'' @ rq_adapter rq);
          (sources, src) = get_or_create_source (qd_next_id db) (qd_sources db) name (rq_adapter rq);
          job_id = qd_next_id db + 1 in
      (db\<lparr>qd_sources := sources, qd_jobs := qd_jobs db @ [tail_job_of rq c job_id (so_id src) now name], qd_next_id := job_id + 1\<rparr>, job_id))"

definition enqueue_batch_job :: "(datetime \<Rightarrow> string) \<Rightarrow> ingest_request \<Rightarrow> pyval \<Rightarrow> caller \<Rightarrow> int \<Rightarrow> request_db \<Rightarrow> request_db \<times> nat" where
  "enqueue_batch_job isoformat rq params c now db =
     (let i = qd_next_id db;
          job = \<lparr>wj_id = i, wj_job_type = ''ingest'', wj_status = ''pending'',
            wj_payload = ingest_payload isoformat rq params (callback_meta_from_request c), wj_result = None, wj_error = None,
            wj_created_at = now, wj_started_at = None, wj_finished_at = None\<rparr> in
      (db\<lparr>qd_workers := qd_workers db @ [job], qd_next_id := i + 1\<rparr>, i))"

record request_settings =
  rs_queue_max :: int
  rs_ttl :: int

text \<open>A request as the route sees it: the header, the caller, the outcome of its checks, the time and the racer.\<close>

record posted =
  po_request :: ingest_request
  po_caller :: caller
  po_header :: "string option"
  po_checked :: "string + pyval"
  po_now :: int
  po_racer :: "idempotency_row option"

definition create_ingestion :: "request_settings \<Rightarrow> (datetime \<Rightarrow> string) \<Rightarrow> posted \<Rightarrow> request_db \<Rightarrow> request_db \<times> create_reply" where
  "create_ingestion cfg isoformat po db =
     (let rq = po_request po; c = po_caller po; scope = cl_resolved_scope c; now = po_now po in
      case parse_idempotency_key (po_header po) of
        Inl e \<Rightarrow> (db, Rejected 400 e)
      | Inr key \<Rightarrow>
          (case po_checked po of
             Inl e \<Rightarrow> (db, Rejected 400 e)
           | Inr params \<Rightarrow>
               (case replay_if_active db key scope now of
                  Some reply \<Rightarrow> (db, reply)
                | None \<Rightarrow>
                    (if ingest_queue_is_full (pending_worker_job_count (qd_workers db)) (rs_queue_max cfg)
                     then (db, Rejected 429 ''INGEST_QUEUE_FULL'')
                     else if rq_mode rq = ''tail'' then
                       (let (db1, job_id) = create_tail_job rq c now db in
                        case bind_idempotency_key db1 (po_racer po) key None (Some job_id) ''tail'' scope now (rs_ttl cfg) of
                          (db2, Some race) \<Rightarrow> (db2\<lparr>qd_jobs := filter (\<lambda>j. ij_id j \<noteq> job_id) (qd_jobs db2)\<rparr>, race)
                        | (db2, None) \<Rightarrow> (db2, Enqueued None ''running'' (Some job_id) ''tail''))
                     else
                       (let (db1, job_id) = enqueue_batch_job isoformat rq params c now db in
                        case bind_idempotency_key db1 (po_racer po) key (Some job_id) None ''batch'' scope now (rs_ttl cfg) of
                          (db2, Some race) \<Rightarrow> (db2\<lparr>qd_workers := filter (\<lambda>j. wj_id j \<noteq> job_id) (qd_workers db2)\<rparr>, race)
                        | (db2, None) \<Rightarrow> (db2, Enqueued (Some job_id) ''pending'' None ''batch''))))))"

section \<open>A key keeps its job\<close>

definition ids_ok :: "request_db \<Rightarrow> bool" where
  "ids_ok db \<longleftrightarrow> list_all (\<lambda>j. wj_id j < qd_next_id db) (qd_workers db) \<and> list_all (\<lambda>j. ij_id j < qd_next_id db) (qd_jobs db)"

text \<open>The key leads to this row, and the row to a job that is there, in this scope.\<close>

definition bound_key :: "request_db \<Rightarrow> string \<Rightarrow> idempotency_row \<Rightarrow> string \<Rightarrow> bool" where
  "bound_key db key row scope \<longleftrightarrow> get_idempotency_row (qd_keys db) key = Some row \<and> scope_of_idempotency_row db row = scope
     \<and> (Option.bind (ik_worker_job_id row) (find_worker db) \<noteq> None \<or> ik_worker_job_id row = None \<and> Option.bind (ik_ingestion_job_id row) (find_job db) \<noteq> None)"

lemma find_append_Some: "find p xs = Some x \<Longrightarrow> find p (xs @ ys) = Some x"
  by (induction xs) auto

lemma find_filter_same: "(\<And>x. p x \<Longrightarrow> q x) \<Longrightarrow> find p (filter q xs) = find p xs"
  by (induction xs) auto

lemma store_keeps_key:
  assumes "get_idempotency_row rows k = Some row" "k' \<noteq> k" "racer = None"
  shows "get_idempotency_row (fst (store_idempotency_key rows racer k' w i mode now ttl)) k = Some row"
proof -
  have "find (\<lambda>r. ik_key r = k) (filter (\<lambda>r. ik_key r \<noteq> k') rows) = Some row"
    using assms(1,2) by (subst find_filter_same) (auto simp: get_idempotency_row_def)
  then show ?thesis
    using assms by (auto simp: store_idempotency_key_def get_idempotency_row_def Let_def find_append_Some split: option.splits)
qed

lemma bound_key_later:
  assumes "bound_key db k row scope" "get_idempotency_row (qd_keys db') k = Some row"
    and "qd_workers db' = qd_workers db @ ws" "qd_jobs db' = qd_jobs db @ js"
  shows "bound_key db' k row scope"
  using assms find_append_Some [of _ "qd_workers db" _ ws] find_append_Some [of _ "qd_jobs db" _ js]
  unfolding bound_key_def scope_of_idempotency_row_def find_worker_def find_job_def
  by (cases "ik_worker_job_id row"; cases "ik_ingestion_job_id row") (auto split: option.splits)

text \<open>Without a racer, binding a key that is not active succeeds.\<close>

lemma bind_fresh:
  assumes "key = None \<or> (\<exists>k. key = Some k \<and> lookup_active_key (qd_keys db) k now = None)"
  shows "snd (bind_idempotency_key db None key w i mode scope now ttl) = None"
  using assms by (auto simp: bind_idempotency_key_def store_idempotency_key_def Let_def)

lemma bind_tables [simp]:
  "qd_workers (fst (bind_idempotency_key db racer key w i mode scope now ttl)) = qd_workers db"
  "qd_jobs (fst (bind_idempotency_key db racer key w i mode scope now ttl)) = qd_jobs db"
  "qd_next_id (fst (bind_idempotency_key db racer key w i mode scope now ttl)) = qd_next_id db"
  by (auto simp: bind_idempotency_key_def Let_def split: option.splits prod.splits)

lemma meta_scope_nonempty: "meta_scope c \<noteq> []"
  by (auto simp: meta_scope_def nonblank_def split: option.splits list.splits)

lemma create_tail_tables:
  "create_tail_job rq c now db = (db1, j) \<Longrightarrow> qd_workers db1 = qd_workers db \<and> qd_keys db1 = qd_keys db \<and> qd_next_id db1 = qd_next_id db + 2
     \<and> j = qd_next_id db + 1 \<and> (\<exists>job. qd_jobs db1 = qd_jobs db @ [job] \<and> ij_id job = j \<and> ij_scope job = meta_scope c)"
  using meta_scope_nonempty [of c]
  by (auto simp: create_tail_job_def Let_def tail_job_of_def new_job_def job_row.defs split: prod.splits option.splits if_splits)

lemma enqueue_tables:
  "enqueue_batch_job printed rq params c now db = (db1, j) \<Longrightarrow> qd_jobs db1 = qd_jobs db \<and> qd_keys db1 = qd_keys db \<and> qd_next_id db1 = qd_next_id db + 1
     \<and> j = qd_next_id db \<and> (\<exists>job. qd_workers db1 = qd_workers db @ [job] \<and> wj_id job = j \<and> wj_payload job = ingest_payload printed rq params (callback_meta_from_request c))"
  by (auto simp: enqueue_batch_job_def Let_def)

text \<open>A request without a racer changes nothing, or adds one job and binds its key, which no active row has.\<close>

definition fresh_key :: "request_db \<Rightarrow> string option \<Rightarrow> int \<Rightarrow> bool" where
  "fresh_key db key now \<longleftrightarrow> (case key of None \<Rightarrow> True | Some k \<Rightarrow> lookup_active_key (qd_keys db) k now = None)"

definition adds_job :: "request_db \<Rightarrow> request_db \<Rightarrow> bool" where
  "adds_job db db1 \<longleftrightarrow> qd_keys db1 = qd_keys db \<and> qd_next_id db \<le> qd_next_id db1
     \<and> (\<exists>ws js. qd_workers db1 = qd_workers db @ ws \<and> qd_jobs db1 = qd_jobs db @ js
         \<and> list_all (\<lambda>j. wj_id j < qd_next_id db1) ws \<and> list_all (\<lambda>j. ij_id j < qd_next_id db1) js)"

lemma create_cases:
  assumes "po_racer po = None" "create_ingestion cfg printed po db = (db', reply)"
  obtains "db' = db"
  | key db1 w i mode where "fresh_key db key (po_now po)" "adds_job db db1"
      "db' = fst (bind_idempotency_key db1 None key w i mode (cl_resolved_scope (po_caller po)) (po_now po) (rs_ttl cfg))"
proof (cases "db' = db")
  case False
  let ?c = "po_caller po" and ?rq = "po_request po" and ?now = "po_now po"
  obtain key params where parts: "parse_idempotency_key (po_header po) = Inr key" "po_checked po = Inr params"
    "replay_if_active db key (cl_resolved_scope ?c) ?now = None"
    "\<not> ingest_queue_is_full (pending_worker_job_count (qd_workers db)) (rs_queue_max cfg)"
    using False assms(2) by (auto simp: create_ingestion_def Let_def split: sum.splits option.splits if_splits)
  have fresh: "fresh_key db key ?now"
    using parts(3) by (auto simp: fresh_key_def replay_if_active_def split: option.splits)
  have bound: "snd (bind_idempotency_key db1 None key w i mode (cl_resolved_scope ?c) ?now (rs_ttl cfg)) = None"
    if "qd_keys db1 = qd_keys db" for db1 w i mode
    using fresh that by (intro bind_fresh) (auto simp: fresh_key_def split: option.splits)
  obtain db1 w i mode where "adds_job db db1"
    "db' = fst (bind_idempotency_key db1 None key w i mode (cl_resolved_scope ?c) ?now (rs_ttl cfg))"
  proof (cases "rq_mode ?rq = ''tail''")
    case True
    obtain db1 j where one: "create_tail_job ?rq ?c ?now db = (db1, j)" by force
    note t = create_tail_tables [OF one]
    obtain d where d: "bind_idempotency_key db1 None key None (Some j) ''tail'' (cl_resolved_scope ?c) ?now (rs_ttl cfg) = (d, None)"
      using bound [of db1] t by (metis prod.collapse)
    have "db' = d" using assms one True parts d by (simp add: create_ingestion_def)
    moreover have "adds_job db db1" using t by (auto simp: adds_job_def)
    ultimately show ?thesis using d by (intro that [of db1 None "Some j" "''tail''"]) simp_all
  next
    case False
    obtain db1 j where one: "enqueue_batch_job printed ?rq params ?c ?now db = (db1, j)" by force
    note t = enqueue_tables [OF one]
    obtain d where d: "bind_idempotency_key db1 None key (Some j) None ''batch'' (cl_resolved_scope ?c) ?now (rs_ttl cfg) = (d, None)"
      using bound [of db1] t by (metis prod.collapse)
    have "db' = d" using assms one False parts d by (simp add: create_ingestion_def)
    moreover have "adds_job db db1" using t by (auto simp: adds_job_def)
    ultimately show ?thesis using d by (intro that [of db1 "Some j" None "''batch''"]) simp_all
  qed
  with fresh show thesis by (rule \<open>\<And>key db1 w i mode. fresh_key db key ?now \<Longrightarrow> adds_job db db1 \<Longrightarrow>
      db' = fst (bind_idempotency_key db1 None key w i mode (cl_resolved_scope ?c) ?now (rs_ttl cfg)) \<Longrightarrow> thesis\<close>)
qed

lemma create_keeps_key:
  assumes "po_racer po = None" "create_ingestion cfg printed po db = (db', reply)"
    and "bound_key db k row scope" "po_now po < ik_expires_at row"
  shows "bound_key db' k row scope"
  using assms(1,2)
proof (cases rule: create_cases)
  case 1
  with assms(3) show ?thesis by simp
next
  case (2 key db1 w i mode)
  have row: "get_idempotency_row (qd_keys db) k = Some row" using assms(3) by (simp add: bound_key_def)
  have "get_idempotency_row (qd_keys db') k = Some row"
  proof (cases key)
    case (Some k')
    then have "k' \<noteq> k" using 2(1) row assms(4) by (auto simp: fresh_key_def lookup_active_key_def is_active_def)
    then show ?thesis
      using store_keeps_key [OF row, of k' None w i mode "po_now po" "rs_ttl cfg"] 2(2,3)
      by (auto simp: adds_job_def bind_idempotency_key_def Some Let_def split: prod.splits option.splits)
  qed (use 2 row in \<open>simp add: adds_job_def bind_idempotency_key_def\<close>)
  with bound_key_later [OF assms(3)] 2(2,3) show ?thesis by (auto simp: adds_job_def)
qed

lemma create_ids_ok:
  assumes "po_racer po = None" "create_ingestion cfg printed po db = (db', reply)" "ids_ok db"
  shows "ids_ok db'"
  using assms(1,2) by (cases rule: create_cases) (use assms(3) in \<open>fastforce simp: ids_ok_def adds_job_def list_all_iff\<close>)+

lemma payload_scope_ingest:
  assumes "strip_str (cl_resolved_scope c) = cl_resolved_scope c" "cl_resolved_scope c \<noteq> []"
  shows "payload_scope (ingest_payload printed rq params (callback_meta_from_request c)) ''default'' = cl_resolved_scope c"
    "meta_scope c = cl_resolved_scope c"
  using assms by (simp_all add: payload_scope_def ingest_payload_def callback_meta_from_request_def meta_scope_def)

lemma find_new: "list_all (\<lambda>x. f x < n) xs \<Longrightarrow> f y = n' \<Longrightarrow> n \<le> n' \<Longrightarrow> find (\<lambda>x. f x = n') (xs @ [y]) = Some y"
  for n :: nat
proof (induction xs)
  case (Cons x xs)
  then have "f x \<noteq> n'" by simp
  with Cons show ?case by simp
qed simp

lemma store_fresh:
  assumes "lookup_active_key rows k now = None"
  shows "get_idempotency_row (fst (store_idempotency_key rows None k w i mode now ttl)) k =
    Some \<lparr>ik_key = k, ik_worker_job_id = w, ik_ingestion_job_id = i, ik_mode = mode, ik_created_at = now, ik_expires_at = now + ttl\<rparr>"
proof -
  have "find (\<lambda>r. ik_key r = k) (filter (\<lambda>r. ik_key r \<noteq> k) rows @ [r]) = Some r" if "ik_key r = k" for r :: idempotency_row
    using that by (induction rows) auto
  then show ?thesis using assms by (simp add: store_idempotency_key_def get_idempotency_row_def Let_def)
qed

lemma create_binds:
  assumes "po_racer po = None" "create_ingestion cfg printed po db = (db', Enqueued w status i m)" "ids_ok db"
    and "parse_idempotency_key (po_header po) = Inr (Some k)" "lookup_active_key (qd_keys db) k (po_now po) = None"
    and "strip_str (cl_resolved_scope (po_caller po)) = cl_resolved_scope (po_caller po)" "cl_resolved_scope (po_caller po) \<noteq> []"
  obtains row where "bound_key db' k row (cl_resolved_scope (po_caller po))" "ik_expires_at row = po_now po + rs_ttl cfg"
    "enqueued_from_idempotency row = Enqueued w status i m"
proof -
  let ?c = "po_caller po" and ?rq = "po_request po" and ?now = "po_now po" and ?scope = "cl_resolved_scope (po_caller po)"
  obtain params where parts: "po_checked po = Inr params" "replay_if_active db (Some k) ?scope ?now = None"
    "\<not> ingest_queue_is_full (pending_worker_job_count (qd_workers db)) (rs_queue_max cfg)"
    using assms(2,4,5) by (auto simp: create_ingestion_def replay_if_active_def Let_def split: sum.splits if_splits)
  note clean = payload_scope_ingest [OF assms(6,7)]
  have col: "column_scope ?scope [] = ?scope" using assms(6,7) by (simp add: column_scope_def)
  show thesis
  proof (cases "rq_mode ?rq = ''tail''")
    case True
    obtain db1 j where one: "create_tail_job ?rq ?c ?now db = (db1, j)" by force
    note t = create_tail_tables [OF one]
    let ?row = "\<lparr>ik_key = k, ik_worker_job_id = None, ik_ingestion_job_id = Some j, ik_mode = ''tail'', ik_created_at = ?now, ik_expires_at = ?now + rs_ttl cfg\<rparr>"
    obtain d where d: "bind_idempotency_key db1 None (Some k) None (Some j) ''tail'' ?scope ?now (rs_ttl cfg) = (d, None)"
      using bind_fresh [of "Some k" db1 ?now] assms(5) t by (metis prod.collapse)
    have res: "db' = d" "Enqueued w status i m = Enqueued None ''running'' (Some j) ''tail''"
      using assms(1,2,4) one True parts d by (simp_all add: create_ingestion_def)
    obtain job where job: "qd_jobs db1 = qd_jobs db @ [job]" "ij_id job = j" "ij_scope job = meta_scope ?c" using t by blast
    have "qd_jobs d = qd_jobs db1" by (metis bind_tables(2) d fst_conv)
    then have "find_job d j = Some job"
      using assms(3) t job
        find_new [of ij_id "qd_next_id db" "qd_jobs db" job j] by (simp add: find_job_def d ids_ok_def)
    moreover have "get_idempotency_row (qd_keys d) k = Some ?row"
      using store_fresh [of "qd_keys db1" k ?now None "Some j" "''tail''" "rs_ttl cfg"] assms(5) t d
      by (auto simp: bind_idempotency_key_def Let_def split: prod.splits option.splits)
    ultimately have "bound_key db' k ?row ?scope"
      using job col clean(2) by (simp add: bound_key_def scope_of_idempotency_row_def res(1) assms(7))
    then show thesis by (rule that) (use res(2) in \<open>simp_all add: enqueued_from_idempotency_def\<close>)
  next
    case False
    obtain db1 j where one: "enqueue_batch_job printed ?rq params ?c ?now db = (db1, j)" by force
    note t = enqueue_tables [OF one]
    let ?row = "\<lparr>ik_key = k, ik_worker_job_id = Some j, ik_ingestion_job_id = None, ik_mode = ''batch'', ik_created_at = ?now, ik_expires_at = ?now + rs_ttl cfg\<rparr>"
    obtain d where d: "bind_idempotency_key db1 None (Some k) (Some j) None ''batch'' ?scope ?now (rs_ttl cfg) = (d, None)"
      using bind_fresh [of "Some k" db1 ?now] assms(5) t by (metis prod.collapse)
    have res: "db' = d" "Enqueued w status i m = Enqueued (Some j) ''pending'' None ''batch''"
      using assms(1,2,4) one False parts d by (simp_all add: create_ingestion_def)
    obtain job where job: "qd_workers db1 = qd_workers db @ [job]" "wj_id job = j"
      "wj_payload job = ingest_payload printed ?rq params (callback_meta_from_request ?c)" using t by blast
    have "qd_workers d = qd_workers db1" by (metis bind_tables(1) d fst_conv)
    then have "find_worker d j = Some job"
      using assms(3) t job
        find_new [of wj_id "qd_next_id db" "qd_workers db" job j] by (simp add: find_worker_def d ids_ok_def)
    moreover have "get_idempotency_row (qd_keys d) k = Some ?row"
      using store_fresh [of "qd_keys db1" k ?now "Some j" None "''batch''" "rs_ttl cfg"] assms(5) t d
      by (auto simp: bind_idempotency_key_def Let_def split: prod.splits option.splits)
    ultimately have "bound_key db' k ?row ?scope"
      using job clean(1) by (simp add: bound_key_def scope_of_idempotency_row_def res(1))
    then show thesis by (rule that) (use res(2) in \<open>simp_all add: enqueued_from_idempotency_def\<close>)
  qed
qed

definition create_all :: "request_settings \<Rightarrow> (datetime \<Rightarrow> string) \<Rightarrow> posted list \<Rightarrow> request_db \<Rightarrow> request_db" where
  "create_all cfg printed pos db = fold (\<lambda>po db. fst (create_ingestion cfg printed po db)) pos db"

lemma create_all_keeps:
  "list_all (\<lambda>po. po_racer po = None \<and> po_now po < ik_expires_at row) pos \<Longrightarrow> bound_key db k row scope \<Longrightarrow>
     bound_key (create_all cfg printed pos db) k row scope"
proof (induction pos arbitrary: db)
  case (Cons po pos)
  have "bound_key (fst (create_ingestion cfg printed po db)) k row scope"
    using Cons.prems create_keeps_key [of po cfg printed db "fst (create_ingestion cfg printed po db)" "snd (create_ingestion cfg printed po db)" k row scope]
    by simp
  with Cons show ?case by (simp add: create_all_def)
qed (simp add: create_all_def)


definition demo_posted :: "string \<Rightarrow> int \<Rightarrow> posted" where
  "demo_posted scope now =
     \<lparr>po_request = \<lparr>rq_paths = [''a.log''], rq_recursive = False, rq_format = ''auto'', rq_source_name = None, rq_service = None, rq_env = None,
        rq_adapter = ''file'', rq_since = None, rq_from_time = None, rq_to_time = None, rq_resume_id = None, rq_with_embeddings = False,
        rq_mode = ''batch'', rq_callback_url = None\<rparr>,
      po_caller = \<lparr>cl_resolved_scope = scope, cl_principal_scope = None, cl_key_id = None\<rparr>, po_header = Some ''k1'', po_checked = Inr (VDict []),
      po_now = now, po_racer = None\<rparr>"

definition empty_request_db :: request_db where
  "empty_request_db = \<lparr>qd_workers = [], qd_jobs = [], qd_sources = [], qd_keys = [], qd_next_id = 7\<rparr>"

definition demo_limits :: request_settings where "demo_limits = \<lparr>rs_queue_max = 1, rs_ttl = 100\<rparr>"


section \<open>Pushed lines\<close>

text \<open>\<open>str.splitlines\<close> breaks at every line boundary of Unicode, not only at newlines.\<close>

definition line_break :: "char \<Rightarrow> bool" where
  "line_break c \<longleftrightarrow> c \<in> {CHR 0x0A, CHR 0x0B, CHR 0x0C, CHR 0x0D, CHR 0x1C, CHR 0x1D, CHR 0x1E, CHR 0x85}"

function splitlines :: "string \<Rightarrow> string list" where
  "splitlines s =
     (if s = [] then []
      else
        let line = takeWhile (\<lambda>c. \<not> line_break c) s; rest = dropWhile (\<lambda>c. \<not> line_break c) s in
        line # splitlines (if startswith rest [CHR 0x0D, CHR 0x0A] then drop 2 rest else drop 1 rest))"
  by pat_completeness auto
termination
proof (relation "measure length", goal_cases)
  case (2 s line rest)
  have "length rest \<le> length s" using 2 by (simp add: length_dropWhile_le)
  then show ?case using 2(1) by (cases rest) auto
qed simp

declare splitlines.simps [simp del]

record json_codec =
  jc_loads :: "string \<Rightarrow> pyval option"
  jc_dumps :: "pyval \<Rightarrow> string"

definition object_to_json_line :: "json_codec \<Rightarrow> json_object \<Rightarrow> string" where
  "object_to_json_line codec obj =
     jc_dumps codec (VDict
      (if dget obj ''message'' = None
       then (case find (\<lambda>key. dget obj key \<noteq> None \<and> dget obj key \<noteq> Some VNone) [''raw'', ''text'', ''msg''] of
               Some key \<Rightarrow> dset ''message'' (the (dget obj key)) obj
             | None \<Rightarrow> obj)
       else obj))"

definition coerce_ndjson_line :: "json_codec \<Rightarrow> string \<Rightarrow> string" where
  "coerce_ndjson_line codec line =
     (case jc_loads codec (strip_str line) of
        Some (VStr s) \<Rightarrow> s
      | Some (VDict d) \<Rightarrow> object_to_json_line codec d
      | _ \<Rightarrow> strip_str line)"

definition parse_ndjson_payload :: "json_codec \<Rightarrow> string \<Rightarrow> int \<Rightarrow> string + string list" where
  "parse_ndjson_payload codec body max_lines =
     (if max_lines < 1 then Inl ''max_lines must be >= 1''
      else
        let physical = filter (\<lambda>l. strip_str l \<noteq> []) (splitlines body) in
        if physical = [] then Inl ''NDJSON body is empty''
        else if max_lines < int (length physical) then Inl ''payload exceeds INGEST_PUSH_MAX_LINES''
        else Inr (map (coerce_ndjson_line codec) physical))"

definition push_ingestion_lines ::
    "('z) ingest_libraries_scheme \<Rightarrow> json_codec \<Rightarrow> int \<Rightarrow> worker_job list \<Rightarrow> int \<Rightarrow> log_store \<Rightarrow> source \<Rightarrow> nat \<Rightarrow> int \<Rightarrow> int \<Rightarrow> caller \<Rightarrow> string
      \<Rightarrow> (nat \<times> string) + ingest_outcome" where
  "push_ingestion_lines lib codec max_lines queue queue_max store src job_id started finished c body =
     (case parse_ndjson_payload codec body max_lines of
        Inl e \<Rightarrow> Inl (400, e)
      | Inr raw_lines \<Rightarrow>
          (if ingest_queue_is_full (pending_worker_job_count queue) queue_max then Inl (429, ''INGEST_QUEUE_FULL'')
           else Inr (ingest_push_lines lib (fst store) (snd store) src job_id started finished raw_lines None None ''auto'' (meta_scope c))))"

lemma pushed_lines_bound:
  "parse_ndjson_payload codec body n = Inr ls \<Longrightarrow> ls \<noteq> [] \<and> int (length ls) \<le> n"
  by (auto simp: parse_ndjson_payload_def Let_def split: if_splits)

text \<open>A string of a JSON line may contain the character U+0085: the line is cut there.\<close>

lemma pushed_line_cut_in_string:
  assumes "body = ''{\"message\":\"a'' @ [CHR 0x85] @ ''b\"}''"
  shows "splitlines body = [''{\"message\":\"a'', ''b\"}'']"
  unfolding assms by code_simp

end
