(* ===== verification/Telemetry.thy ===== *)
theory Telemetry
  imports PyValues
begin

text \<open>
  Storing spans and metric samples (\<open>core/ingestion/telemetry.py\<close>): deterministic row ids and inserts that skip the
  ids already there, in chunks. The name-based UUID, the printing of instants and the JSON text of
  attributes are arguments.
\<close>

section \<open>Rows and their ids\<close>

record parsed_span =
  ps_trace_id :: "string option"
  ps_span_id :: "string option"
  ps_parent_span_id :: "string option"
  ps_service :: "string option"
  ps_operation :: "string option"
  ps_start_time :: "int option"
  ps_duration_ms :: "pyfloat option"
  ps_status_code :: "string option"
  ps_attributes :: "(string, pyval) dict option"

record parsed_metric_sample =
  pm_service :: "string option"
  pm_metric :: string
  pm_value :: "pyfloat option"
  pm_ts :: "int option"
  pm_attributes :: "(string, pyval) dict option"
  pm_metric_type :: "string option"

record 'u telemetry_libraries =
  tl_uuid5 :: "string \<Rightarrow> 'u"
  tl_show_time :: "int \<Rightarrow> string"
  tl_json_sorted :: "(string, pyval) dict \<Rightarrow> string"

text \<open>An optional value inside a formatted string.\<close>

definition shown :: "string option \<Rightarrow> string" where
  "shown v = (case v of Some s \<Rightarrow> s | None \<Rightarrow> ''None'')"

definition span_key :: "('u, 'z) telemetry_libraries_scheme \<Rightarrow> string \<Rightarrow> parsed_span \<Rightarrow> string" where
  "span_key lib scope s =
     join_str ''|'' [scope, shown (ps_trace_id s), shown (ps_span_id s), shown (map_option (tl_show_time lib) (ps_start_time s)), shown (ps_service s)]"

definition span_pk :: "('u, 'z) telemetry_libraries_scheme \<Rightarrow> string \<Rightarrow> parsed_span \<Rightarrow> 'u" where
  "span_pk lib scope s = tl_uuid5 lib (span_key lib scope s)"

definition metric_key :: "('u, 'z) telemetry_libraries_scheme \<Rightarrow> string \<Rightarrow> parsed_metric_sample \<Rightarrow> string" where
  "metric_key lib scope m =
     join_str ''|'' [scope, shown (pm_service m), pm_metric m, shown (map_option (tl_show_time lib) (pm_ts m))]
     @ (case pm_attributes m of Some a \<Rightarrow> ''|'' @ tl_json_sorted lib a | None \<Rightarrow> [])"

definition metric_pk :: "('u, 'z) telemetry_libraries_scheme \<Rightarrow> string \<Rightarrow> parsed_metric_sample \<Rightarrow> 'u" where
  "metric_pk lib scope m = tl_uuid5 lib (metric_key lib scope m)"

record ('u, 'p) telemetry_row =
  tr_id :: 'u
  tr_job_id :: "nat option"
  tr_scope :: string
  tr_parsed :: 'p

section \<open>Persisting\<close>

definition TELEMETRY_BATCH :: nat where "TELEMETRY_BATCH = 1000"

function chunks :: "nat \<Rightarrow> 'a list \<Rightarrow> 'a list list" where
  "chunks n rows = (if rows = [] \<or> n = 0 then [] else take n rows # chunks n (drop n rows))"
  by pat_completeness auto
termination by (relation "measure (length \<circ> snd)") auto

declare chunks.simps [simp del]

text \<open>\<open>INSERT ... ON CONFLICT (id) DO NOTHING\<close>.\<close>

fun insert_new :: "('u, 'p) telemetry_row list \<Rightarrow> ('u, 'p) telemetry_row list \<Rightarrow> ('u, 'p) telemetry_row list" where
  "insert_new table [] = table"
| "insert_new table (r # rs) = insert_new (if tr_id r \<in> tr_id ` set table then table else table @ [r]) rs"

definition stored_scope :: "string \<Rightarrow> string" where
  "stored_scope scope = (if scope = [] then ''default'' else scope)"

definition persist_spans ::
    "('u, 'z) telemetry_libraries_scheme \<Rightarrow> ('u, parsed_span) telemetry_row list \<Rightarrow> parsed_span list \<Rightarrow> string \<Rightarrow> nat option
      \<Rightarrow> ('u, parsed_span) telemetry_row list \<times> nat" where
  "persist_spans lib table spans scope job =
     (let sc = stored_scope scope;
          rows = map (\<lambda>s. \<lparr>tr_id = span_pk lib sc s, tr_job_id = job, tr_scope = sc, tr_parsed = s\<rparr>) spans in
      (foldl insert_new table (chunks TELEMETRY_BATCH rows), length rows))"

definition persist_metric_samples ::
    "('u, 'z) telemetry_libraries_scheme \<Rightarrow> ('u, parsed_metric_sample) telemetry_row list \<Rightarrow> parsed_metric_sample list \<Rightarrow> string \<Rightarrow> nat option
      \<Rightarrow> ('u, parsed_metric_sample) telemetry_row list \<times> nat" where
  "persist_metric_samples lib table samples scope job =
     (let sc = stored_scope scope;
          rows = map (\<lambda>m. \<lparr>tr_id = metric_pk lib sc m, tr_job_id = job, tr_scope = sc, tr_parsed = m\<rparr>) samples in
      (foldl insert_new table (chunks TELEMETRY_BATCH rows), length rows))"

section \<open>Chunks are invisible\<close>

lemma insert_new_append: "insert_new table (xs @ ys) = insert_new (insert_new table xs) ys"
  by (induction xs arbitrary: table) auto

lemma insert_chunks: "0 < n \<Longrightarrow> foldl insert_new table (chunks n rows) = insert_new table rows"
proof (induction n rows arbitrary: table rule: chunks.induct)
  case (1 n rows)
  show ?case
  proof (cases "rows = []")
    case False
    then have "foldl insert_new table (chunks n rows) = insert_new (insert_new table (take n rows)) (drop n rows)"
      using 1 by (simp add: chunks.simps [of n rows])
    also have "\<dots> = insert_new table rows" by (simp flip: insert_new_append)
    finally show ?thesis .
  qed (simp add: chunks.simps)
qed

lemma insert_new_ids: "tr_id ` set (insert_new table rows) = tr_id ` set table \<union> tr_id ` set rows"
  by (induction rows arbitrary: table) auto

lemma insert_new_known: "tr_id ` set rows \<subseteq> tr_id ` set table \<Longrightarrow> insert_new table rows = table"
  by (induction rows) auto

lemma insert_new_grows: "\<exists>new. insert_new table rows = table @ new \<and> set new \<subseteq> set rows"
proof (induction rows arbitrary: table)
  case (Cons r rs)
  show ?case
  proof (cases "tr_id r \<in> tr_id ` set table")
    case True
    then show ?thesis using Cons.IH [of table] by auto
  next
    case False
    obtain new where "insert_new (table @ [r]) rs = (table @ [r]) @ new" "set new \<subseteq> set rs" using Cons.IH by blast
    then show ?thesis using False by (intro exI [of _ "r # new"]) auto
  qed
qed simp

lemma insert_new_distinct: "distinct (map tr_id table) \<Longrightarrow> distinct (map tr_id (insert_new table rows))"
  by (induction rows arbitrary: table) auto


definition demo_telemetry :: "string telemetry_libraries" where
  "demo_telemetry = \<lparr>tl_uuid5 = (\<lambda>s. s), tl_show_time = (\<lambda>_. ''t''), tl_json_sorted = (\<lambda>_. ''{}'')\<rparr>"

definition demo_span :: "string \<Rightarrow> parsed_span" where
  "demo_span trace = \<lparr>ps_trace_id = Some trace, ps_span_id = Some ''1'', ps_parent_span_id = None, ps_service = Some ''cart'', ps_operation = None,
     ps_start_time = Some 0, ps_duration_ms = None, ps_status_code = None, ps_attributes = None\<rparr>"


text \<open>
  The fields are joined without escaping: spans of two scopes can have the same id, and the second one is
  dropped although the call reports it.
\<close>

lemma telemetry_ids_cross_scopes:
  assumes "s1 = demo_span ''c''" "s2 = demo_span ''b|c''" "table = fst (persist_spans lib [] [s1] ''a|b'' None)"
  shows "span_pk lib ''a|b'' s1 = span_pk lib ''a'' s2" "persist_spans lib table [s2] ''a'' None = (table, 1)"
proof -
  show same: "span_pk lib ''a|b'' s1 = span_pk lib ''a'' s2"
    by (simp add: assms span_pk_def span_key_def demo_span_def shown_def)
  show "persist_spans lib table [s2] ''a'' None = (table, 1)"
    using same by (simp add: assms persist_spans_def insert_chunks TELEMETRY_BATCH_def stored_scope_def Let_def)
qed

end
