(* ===== verification/Adapters.thy ===== *)
theory Adapters
  imports IngestRuns
begin

text \<open>
  Two adapters beside the file one. CloudWatch (\<open>adapters/cloudwatch/adapter.py\<close>): the paging loop of
  \<open>read\<close>, over a client that answers a page token with a page or an error. Kubernetes exports
  (\<open>adapters/k8s/adapter.py\<close>): the reassembly of CRI fragments and the lines of a file, with the path's metadata as
  an argument. Both keep the contract of resumable reading.
\<close>

section \<open>CloudWatch\<close>

record cloudwatch_event =
  ce_message :: "string option"
  ce_timestamp :: "int option"

text \<open>The client's answer to a token after the retries: nothing when it failed, else the events and the next token.\<close>

type_synonym fetch = "string option \<Rightarrow> (cloudwatch_event list \<times> string option) option"

text \<open>The instant of an event in milliseconds is assumed to be within the range of \<open>datetime\<close>.\<close>

definition event_line :: "string \<Rightarrow> cloudwatch_event \<Rightarrow> raw_log_line" where
  "event_line sid ev =
     \<lparr>rl_text = (case ce_message ev of Some m \<Rightarrow> m | None \<Rightarrow> []), rl_source_ref = sid,
      rl_received_at = map_option (\<lambda>ts. ts * 1000) (ce_timestamp ev), rl_default_service = None, rl_default_environment = None,
      rl_default_host = None, rl_extra = []\<rparr>"

definition sent_token :: "string option \<Rightarrow> string option" where
  "sent_token next_token = (if next_token = Some [] then None else next_token)"

partial_function (option) read_pages ::
    "fetch \<Rightarrow> string \<Rightarrow> string option \<Rightarrow> string option \<Rightarrow> (raw_log_line list \<times> string option \<times> read_end) option" where
  "read_pages fetch sid next_token cursor =
     (case fetch (sent_token next_token) of
        None \<Rightarrow> Some ([], cursor, Unavailable (''CloudWatch Logs unavailable for '' @ sid))
      | Some (events, new_token) \<Rightarrow>
          (if new_token = None \<or> new_token = Some [] \<or> new_token = next_token
           then Some (map (event_line sid) events, None, Exhausted)
           else Option.bind (read_pages fetch sid new_token new_token)
             (\<lambda>(raws, c, ending). Some (map (event_line sid) events @ raws, c, ending))))"

definition cloudwatch_read :: "fetch \<Rightarrow> string \<Rightarrow> string option \<Rightarrow> (raw_log_line list \<times> string option \<times> read_end) option" where
  "cloudwatch_read fetch sid cursor = read_pages fetch sid cursor cursor"

text \<open>
  The documented behaviour of the service: a query has a list of pages, every page but the first has a token
  of its own, a page comes with the token of the next one, the last with none or its own, and an unknown
  token is refused. Any call may fail.
\<close>

definition page_token :: "string list \<Rightarrow> nat \<Rightarrow> string option" where
  "page_token tokens k = (case k of 0 \<Rightarrow> None | Suc i \<Rightarrow> Some (tokens ! i))"

definition serves_pages :: "fetch \<Rightarrow> string list \<Rightarrow> cloudwatch_event list list \<Rightarrow> bool" where
  "serves_pages fetch tokens pages \<longleftrightarrow>
     length pages = Suc (length tokens) \<and> distinct tokens \<and> [] \<notin> set tokens
     \<and> (\<forall>k < length pages. case fetch (page_token tokens k) of
          None \<Rightarrow> True
        | Some (events, t) \<Rightarrow> events = pages ! k \<and>
            (if Suc k < length pages then t = page_token tokens (Suc k) else t = None \<or> t = page_token tokens k))
     \<and> (\<forall>t. t \<notin> set tokens \<longrightarrow> fetch (Some t) = None)"

definition page_of :: "string list \<Rightarrow> string option \<Rightarrow> nat option" where
  "page_of tokens c = (case c of None \<Rightarrow> Some 0 | Some [] \<Rightarrow> Some 0 | Some t \<Rightarrow> map_option Suc (find (\<lambda>i. tokens ! i = t) [0..<length tokens]))"

definition cloudwatch_content :: "string \<Rightarrow> cloudwatch_event list list \<Rightarrow> raw_log_line list" where
  "cloudwatch_content sid pages = map (event_line sid) (concat pages)"

definition cloudwatch_pos :: "string list \<Rightarrow> cloudwatch_event list list \<Rightarrow> string option \<Rightarrow> nat" where
  "cloudwatch_pos tokens pages c = (case page_of tokens c of Some k \<Rightarrow> length (concat (take k pages)) | None \<Rightarrow> 0)"

lemma page_of_token:
  assumes "distinct tokens" "[] \<notin> set tokens" "k \<le> length tokens"
  shows "page_of tokens (page_token tokens k) = Some k"
proof (cases k)
  case (Suc i)
  then have i: "i < length tokens" using assms(3) by simp
  then have ne: "tokens ! i \<noteq> []" using assms(2) nth_mem by fastforce
  have "find (\<lambda>j. tokens ! j = tokens ! i) [0..<length tokens] = Some i"
    using i assms(1) by (auto simp: find_Some_iff nth_eq_iff_index_eq)
  then show ?thesis using ne by (cases "tokens ! i") (simp_all add: page_of_def page_token_def Suc)
qed (simp add: page_of_def page_token_def)

lemma read_pages_from:
  assumes sp: "serves_pages fetch tokens pages" and "k < length pages" "sent_token next = page_token tokens k" "next = Some [] \<longrightarrow> k = 0"
  shows "\<exists>m raws c ending. read_pages fetch sid next cursor = Some (raws, c, ending)
     \<and> raws = map (event_line sid) (concat (take m (drop k pages))) \<and> k + m \<le> length pages
     \<and> (ending = Exhausted \<and> c = None \<and> k + m = length pages
        \<or> ending \<noteq> Exhausted \<and> (c = (if m = 0 then cursor else page_token tokens (k + m))) \<and> k + m < length pages)"
  using assms(2-)
proof (induction "length pages - k" arbitrary: k "next" cursor rule: less_induct)
  case less
  have len: "length pages = Suc (length tokens)" "distinct tokens" "[] \<notin> set tokens" using sp by (auto simp: serves_pages_def)
  have ans: "case fetch (page_token tokens k) of None \<Rightarrow> True
      | Some (events, t) \<Rightarrow> events = pages ! k \<and> (if Suc k < length pages then t = page_token tokens (Suc k) else t = None \<or> t = page_token tokens k)"
    using sp less.prems(1) unfolding serves_pages_def by blast
  have first: "take (Suc m) (drop k pages) = pages ! k # take m (drop (Suc k) pages)" for m
    using less.prems(1) by (simp add: Cons_nth_drop_Suc [symmetric])
  show ?case
  proof (cases "fetch (page_token tokens k)")
    case None
    then have "read_pages fetch sid next cursor = Some ([], cursor, Unavailable (''CloudWatch Logs unavailable for '' @ sid))"
      using less.prems(2) by (simp add: read_pages.simps)
    then show ?thesis using less.prems(1) by (intro exI [of _ 0]) auto
  next
    case (Some a)
    then obtain events t where a: "fetch (page_token tokens k) = Some (events, t)" by (cases a) auto
    show ?thesis
    proof (cases "Suc k < length pages")
      case False
      then have "t = None \<or> t = next \<or> t = Some []"
        using ans a less.prems(2) by (auto simp: sent_token_def split: if_splits)
      then have "read_pages fetch sid next cursor = Some (map (event_line sid) events, None, Exhausted)"
        using less.prems(2) a by (auto simp: read_pages.simps)
      moreover have "take 1 (drop k pages) = [events]" using first [of 0] ans a by simp
      ultimately show ?thesis using False less.prems(1) by (intro exI [of _ 1]) auto
    next
      case True
      then have t: "t = page_token tokens (Suc k)" "events = pages ! k" using ans a by auto
      have tk: "tokens ! k \<noteq> []" using True len by (metis Suc_less_eq nth_mem)
      then have go: "\<not> (t = None \<or> t = Some [] \<or> t = next)"
      proof -
        have "t \<noteq> next"
        proof
          assume "t = next"
          then have "page_token tokens k = page_token tokens (Suc k)"
            using less.prems(2) t tk by (auto simp: sent_token_def page_token_def split: if_splits nat.splits)
          then show False using page_of_token [OF len(2,3), of k] page_of_token [OF len(2,3), of "Suc k"] True len(1) by simp
        qed
        then show ?thesis using t tk by (simp add: page_token_def)
      qed
      have rec: "\<exists>m raws c ending. read_pages fetch sid t t = Some (raws, c, ending)
         \<and> raws = map (event_line sid) (concat (take m (drop (Suc k) pages))) \<and> Suc k + m \<le> length pages
         \<and> (ending = Exhausted \<and> c = None \<and> Suc k + m = length pages
            \<or> ending \<noteq> Exhausted \<and> (c = (if m = 0 then t else page_token tokens (Suc k + m))) \<and> Suc k + m < length pages)"
        by (rule less.hyps) (use True t tk in \<open>auto simp: sent_token_def page_token_def\<close>)
      then obtain m raws c ending where r: "read_pages fetch sid t t = Some (raws, c, ending)"
        "raws = map (event_line sid) (concat (take m (drop (Suc k) pages)))" "Suc k + m \<le> length pages"
        "ending = Exhausted \<and> c = None \<and> Suc k + m = length pages
            \<or> ending \<noteq> Exhausted \<and> (c = (if m = 0 then t else page_token tokens (Suc k + m))) \<and> Suc k + m < length pages" by blast
      have "read_pages fetch sid next cursor = Some (map (event_line sid) events @ raws, c, ending)"
        using less.prems(2) a go r(1) by (subst read_pages.simps) auto
      moreover have "map (event_line sid) events @ raws = map (event_line sid) (concat (take (Suc m) (drop k pages)))"
        unfolding first r(2) t(2) by simp
      moreover have "ending \<noteq> Exhausted \<longrightarrow> c = page_token tokens (k + Suc m)" using r(4) t(1) by (auto split: if_splits)
      ultimately show ?thesis using r(3,4) by (intro exI [of _ "Suc m"]) auto
    qed
  qed
qed

lemma page_of_Some:
  assumes "page_of tokens c = Some k" "distinct tokens" "[] \<notin> set tokens"
  shows "k \<le> length tokens" "sent_token c = page_token tokens k" "c = Some [] \<longrightarrow> k = 0"
  using assms by (auto simp: page_of_def sent_token_def page_token_def find_Some_iff split: option.splits list.splits)

lemma concat_take_split: "k + m \<le> length pages \<Longrightarrow> length (concat (take (k + m) pages)) = length (concat (take k pages)) + length (concat (take m (drop k pages)))"
  by (simp add: take_add)

lemma cloudwatch_ends:
  assumes sp: "serves_pages fetch tokens pages"
  shows "cloudwatch_read fetch sid c \<noteq> None"
    "cloudwatch_read fetch sid c = Some (raws, c', ending) \<Longrightarrow>
       raws = take (length raws) (drop (cloudwatch_pos tokens pages c) (cloudwatch_content sid pages))"
    "cloudwatch_read fetch sid c = Some (raws, c', ending) \<Longrightarrow> c' \<noteq> None \<Longrightarrow>
       cloudwatch_pos tokens pages c' \<le> cloudwatch_pos tokens pages c + length raws"
    "cloudwatch_read fetch sid c = Some (raws, None, Exhausted) \<Longrightarrow>
       raws = drop (cloudwatch_pos tokens pages c) (cloudwatch_content sid pages)"
proof -
  have len: "length pages = Suc (length tokens)" "distinct tokens" "[] \<notin> set tokens" using sp by (auto simp: serves_pages_def)
  have main: "cloudwatch_read fetch sid c \<noteq> None \<and> (cloudwatch_read fetch sid c = Some (raws, c', ending) \<longrightarrow>
      (\<exists>rest. drop (cloudwatch_pos tokens pages c) (cloudwatch_content sid pages) = raws @ rest \<and> (ending = Exhausted \<longrightarrow> rest = []))
      \<and> (c' \<noteq> None \<longrightarrow> cloudwatch_pos tokens pages c' \<le> cloudwatch_pos tokens pages c + length raws))" for raws c' ending
  proof (cases "page_of tokens c")
    case None
    then obtain t where t: "c = Some t" "t \<noteq> []" "t \<notin> set tokens"
      by (auto simp: page_of_def find_None_iff in_set_conv_nth split: option.splits list.splits)
    then have "fetch (sent_token c) = None" using sp by (simp add: serves_pages_def sent_token_def)
    then show ?thesis using None by (auto simp: cloudwatch_read_def read_pages.simps cloudwatch_pos_def)
  next
    case (Some k)
    note k = page_of_Some [OF Some len(2,3)]
    have "k < length pages" using k(1) len(1) by simp
    from read_pages_from [OF sp this k(2,3), of sid c] obtain m raws0 c0 ending0 where
      r: "cloudwatch_read fetch sid c = Some (raws0, c0, ending0)" "raws0 = map (event_line sid) (concat (take m (drop k pages)))" "k + m \<le> length pages"
        "ending0 = Exhausted \<and> c0 = None \<and> k + m = length pages
         \<or> ending0 \<noteq> Exhausted \<and> c0 = (if m = 0 then c else page_token tokens (k + m)) \<and> k + m < length pages"
      unfolding cloudwatch_read_def by blast
    have pos: "cloudwatch_pos tokens pages c = length (concat (take k pages))" using Some by (simp add: cloudwatch_pos_def)
    have "concat pages = concat (take k pages) @ concat (take m (drop k pages)) @ concat (drop (k + m) pages)"
      by (metis add.commute append_take_drop_id concat_append drop_drop)
    then have content: "cloudwatch_content sid pages = map (event_line sid) (concat (take k pages)) @ raws0 @ map (event_line sid) (concat (drop (k + m) pages))"
      using r(2) by (simp add: cloudwatch_content_def)
    have rest: "drop (cloudwatch_pos tokens pages c) (cloudwatch_content sid pages) = raws0 @ map (event_line sid) (concat (drop (k + m) pages))"
      by (simp add: content pos)
    have "cloudwatch_pos tokens pages c0 \<le> cloudwatch_pos tokens pages c + length raws0" if "c0 \<noteq> None"
    proof (cases "m = 0")
      case True
      then show ?thesis using r(4) that by (auto split: if_splits)
    next
      case False
      then have "c0 = page_token tokens (k + m)" "k + m \<le> length tokens" using r(4) that len(1) by (auto split: if_splits)
      then show ?thesis using page_of_token [OF len(2,3)] concat_take_split [OF r(3)] r(2) Some by (simp add: cloudwatch_pos_def)
    qed
    with rest r(1,4) show ?thesis by auto
  qed
  show "cloudwatch_read fetch sid c \<noteq> None"
    "cloudwatch_read fetch sid c = Some (raws, c', ending) \<Longrightarrow>
       raws = take (length raws) (drop (cloudwatch_pos tokens pages c) (cloudwatch_content sid pages))"
    "cloudwatch_read fetch sid c = Some (raws, c', ending) \<Longrightarrow> c' \<noteq> None \<Longrightarrow>
       cloudwatch_pos tokens pages c' \<le> cloudwatch_pos tokens pages c + length raws"
    "cloudwatch_read fetch sid c = Some (raws, None, Exhausted) \<Longrightarrow>
       raws = drop (cloudwatch_pos tokens pages c) (cloudwatch_content sid pages)"
    using main [of raws c' ending] main [of raws None Exhausted] by auto
qed

text \<open>
  C22: The CloudWatch reader always ends and can be resumed. Over a service that pages its answers, whatever calls
  fail, each read returns, and the reader keeps the contract of resumable reading: it yields what follows the
  page of its cursor, the cursor it leaves is the page it could not get, and without an error it has yielded
  everything. So a run resumed over it loses nothing.
\<close>
theorem cloudwatch_resumable:
  assumes "\<forall>sid. serves_pages (fetch sid) (tokens sid) (pages sid)"
  shows "cloudwatch_read (fetch sid) sid c \<noteq> None
     \<and> resumable_adapter (\<lambda>sid. cloudwatch_content sid (pages sid)) (\<lambda>sid. cloudwatch_pos (tokens sid) (pages sid))
         (\<lambda>sid c. the (cloudwatch_read (fetch sid) sid c))"
proof
  show "cloudwatch_read (fetch sid) sid c \<noteq> None" using cloudwatch_ends(1) assms by blast
  show "resumable_adapter (\<lambda>sid. cloudwatch_content sid (pages sid)) (\<lambda>sid. cloudwatch_pos (tokens sid) (pages sid))
      (\<lambda>sid c. the (cloudwatch_read (fetch sid) sid c))"
  proof
    fix sid c raws c' ending
    note ends = cloudwatch_ends [OF assms [THEN spec, of sid]]
    show "cloudwatch_pos (tokens sid) (pages sid) None = 0" by (simp add: cloudwatch_pos_def page_of_def)
    assume r: "the (cloudwatch_read (fetch sid) sid c) = (raws, c', ending)"
    then have s: "cloudwatch_read (fetch sid) sid c = Some (raws, c', ending)" using ends(1) by (metis option.collapse)
    show "raws = take (length raws) (drop (cloudwatch_pos (tokens sid) (pages sid) c) (cloudwatch_content sid (pages sid)))" by (rule ends(2) [OF s])
    show "c' \<noteq> None \<Longrightarrow> cloudwatch_pos (tokens sid) (pages sid) c' \<le> cloudwatch_pos (tokens sid) (pages sid) c + length raws" by (rule ends(3) [OF s])
  next
    fix sid c raws
    note ends = cloudwatch_ends [OF assms [THEN spec, of sid]]
    assume "the (cloudwatch_read (fetch sid) sid c) = (raws, None, Exhausted)"
    then have "cloudwatch_read (fetch sid) sid c = Some (raws, None, Exhausted)" using ends(1) by (metis option.collapse)
    then show "raws = drop (cloudwatch_pos (tokens sid) (pages sid) c) (cloudwatch_content sid (pages sid))" by (rule ends(4))
  qed
qed

definition demo_fetch :: fetch where
  "demo_fetch c =
     (if c = None then Some ([\<lparr>ce_message = Some ''one'', ce_timestamp = Some 1\<rparr>], Some ''p2'')
      else if c = Some ''p2'' then Some ([\<lparr>ce_message = Some ''two'', ce_timestamp = Some 2\<rparr>], Some ''p2'') else None)"

theorem cloudwatch_resumable_witness:
  "cloudwatch_read demo_fetch ''/aws/app'' None \<noteq> None
   \<and> resumable_adapter (\<lambda>sid. cloudwatch_content sid [[\<lparr>ce_message = Some ''one'', ce_timestamp = Some 1\<rparr>], [\<lparr>ce_message = Some ''two'', ce_timestamp = Some 2\<rparr>]])
       (\<lambda>_. cloudwatch_pos [''p2''] [[\<lparr>ce_message = Some ''one'', ce_timestamp = Some 1\<rparr>], [\<lparr>ce_message = Some ''two'', ce_timestamp = Some 2\<rparr>]])
       (\<lambda>sid c. the (cloudwatch_read demo_fetch sid c))"
proof (rule cloudwatch_resumable [of "\<lambda>_. demo_fetch" "\<lambda>_. [''p2'']"
      "\<lambda>_. [[\<lparr>ce_message = Some ''one'', ce_timestamp = Some 1\<rparr>], [\<lparr>ce_message = Some ''two'', ce_timestamp = Some 2\<rparr>]]"])
  show "\<forall>sid. serves_pages demo_fetch [''p2''] [[\<lparr>ce_message = Some ''one'', ce_timestamp = Some 1\<rparr>], [\<lparr>ce_message = Some ''two'', ce_timestamp = Some 2\<rparr>]]"
    by (auto simp: serves_pages_def demo_fetch_def page_token_def less_Suc_eq)
qed

section \<open>Fragments of CRI records\<close>

text \<open>A record: its time, stream, tag and message.\<close>

definition cri_record :: "string \<Rightarrow> (string \<times> string \<times> string \<times> string) option" where
  "cri_record line = map_option (\<lambda>m. (m ! 0, m ! 2, m ! 4, m ! 6)) (match_parts CRI_PATTERN line)"

record fragments =
  fr_parts :: "string list"
  fr_ts :: "string option"
  fr_stream :: "string option"

definition no_fragments :: fragments where
  "no_fragments = \<lparr>fr_parts = [], fr_ts = None, fr_stream = None\<rparr>"

definition joined_line :: "string \<Rightarrow> string \<Rightarrow> string list \<Rightarrow> string" where
  "joined_line ts stream parts = ts @ '' '' @ stream @ '' F '' @ concat parts"

text \<open>The lines given out when the pending fragments are taken.\<close>

definition take_joined :: "fragments \<Rightarrow> string list" where
  "take_joined p =
     (if fr_parts p = [] then []
      else [joined_line (case fr_ts p of Some t \<Rightarrow> t | None \<Rightarrow> ''None'') (case fr_stream p of Some s \<Rightarrow> s | None \<Rightarrow> ''None'') (fr_parts p)])"

definition other_stream :: "fragments \<Rightarrow> string \<Rightarrow> bool" where
  "other_stream p stream \<longleftrightarrow> fr_stream p \<noteq> None \<and> fr_stream p \<noteq> Some stream"

definition add_part :: "fragments \<Rightarrow> string \<Rightarrow> string \<Rightarrow> string \<Rightarrow> fragments" where
  "add_part p ts stream msg =
     (let p' = (if fr_parts p = [] then p\<lparr>fr_ts := Some ts, fr_stream := Some stream\<rparr> else p) in p'\<lparr>fr_parts := fr_parts p' @ [msg]\<rparr>)"

text \<open>One line: what is given out and what is pending after it.\<close>

definition reassemble_step :: "fragments \<Rightarrow> string \<Rightarrow> string list \<times> fragments" where
  "reassemble_step p line =
     (case cri_record line of
        None \<Rightarrow> (take_joined p @ [line], no_fragments)
      | Some (ts, stream, tag, msg) \<Rightarrow>
          (if tag = ''P'' then
             (if other_stream p stream then (take_joined p, add_part no_fragments ts stream msg) else ([], add_part p ts stream msg))
           else if fr_parts p \<noteq> [] then
             (if other_stream p stream then (take_joined p @ [line], no_fragments)
              else (take_joined (p\<lparr>fr_parts := fr_parts p @ [msg]\<rparr>), no_fragments))
           else ([line], p)))"

text \<open>All lines; a source that breaks off leaves the pending fragments unread.\<close>

fun reassemble_from :: "bool \<Rightarrow> fragments \<Rightarrow> string list \<Rightarrow> string list" where
  "reassemble_from ended p [] = (if ended then take_joined p else [])"
| "reassemble_from ended p (line # ls) = (let (out, p') = reassemble_step p line in out @ reassemble_from ended p' ls)"

definition reassemble_cri_fragments :: "string list \<Rightarrow> string list" where
  "reassemble_cri_fragments ls = reassemble_from True no_fragments ls"

text \<open>
  What the machine promises: a block is a partial record, the partial ones of its stream right after it, and a
  full one of the stream after these, if it comes next. A block becomes one record, every other line stays.
\<close>

definition part_of :: "string \<Rightarrow> string \<Rightarrow> bool" where
  "part_of stream line = (case cri_record line of Some (_, s, tag, _) \<Rightarrow> tag = ''P'' \<and> s = stream | None \<Rightarrow> False)"

definition full_of :: "string \<Rightarrow> string \<Rightarrow> bool" where
  "full_of stream line = (case cri_record line of Some (_, s, tag, _) \<Rightarrow> tag \<noteq> ''P'' \<and> s = stream | None \<Rightarrow> False)"

definition message_of :: "string \<Rightarrow> string" where
  "message_of line = (case cri_record line of Some (_, _, _, msg) \<Rightarrow> msg | None \<Rightarrow> line)"

lemma tl_dropWhile_less: "length (tl (dropWhile q s)) < Suc (length s)"
  using dropWhile_less [of q s] by simp

function join_blocks :: "string list \<Rightarrow> string list" where
  "join_blocks [] = []"
| "join_blocks (line # ls) =
     (case cri_record line of
        Some (ts, stream, tag, msg) \<Rightarrow>
          (if tag = ''P'' then
             (let parts = takeWhile (part_of stream) ls; rest = dropWhile (part_of stream) ls in
              if rest \<noteq> [] \<and> full_of stream (hd rest)
              then joined_line ts stream (msg # map message_of (parts @ [hd rest])) # join_blocks (tl rest)
              else joined_line ts stream (msg # map message_of parts) # join_blocks rest)
           else line # join_blocks ls)
      | None \<Rightarrow> line # join_blocks ls)"
  by pat_completeness auto
termination
  by (relation "measure length") (auto simp: dropWhile_less tl_dropWhile_less less_imp_diff_less)

lemma pending_run:
  assumes "parts \<noteq> []"
  shows "reassemble_from True \<lparr>fr_parts = parts, fr_ts = Some ts, fr_stream = Some stream\<rparr> ls =
    (let more_parts = takeWhile (part_of stream) ls; rest = dropWhile (part_of stream) ls in
     if rest \<noteq> [] \<and> full_of stream (hd rest)
     then joined_line ts stream (parts @ map message_of (more_parts @ [hd rest])) # reassemble_from True no_fragments (tl rest)
     else joined_line ts stream (parts @ map message_of more_parts) # reassemble_from True no_fragments rest)"
  using assms
proof (induction ls arbitrary: parts)
  case Nil
  then show ?case by (simp add: take_joined_def no_fragments_def)
next
  case (Cons l ls)
  let ?p = "\<lparr>fr_parts = parts, fr_ts = Some ts, fr_stream = Some stream\<rparr>"
  have taken: "take_joined ?p = [joined_line ts stream parts]" using Cons.prems by (simp add: take_joined_def)
  show ?case
  proof (cases "cri_record l")
    case None
    then have "\<not> part_of stream l" "\<not> full_of stream l" by (simp_all add: part_of_def full_of_def)
    then show ?thesis using None Cons.prems by (simp add: reassemble_step_def taken no_fragments_def take_joined_def)
  next
    case (Some r)
    then obtain t s tag msg where r: "cri_record l = Some (t, s, tag, msg)" by (cases r) auto
    have kind: "part_of stream l \<longleftrightarrow> tag = ''P'' \<and> s = stream" "full_of stream l \<longleftrightarrow> tag \<noteq> ''P'' \<and> s = stream" "message_of l = msg"
      by (simp_all add: part_of_def full_of_def message_of_def r)
    show ?thesis
    proof (cases "s = stream")
      case True
      then show ?thesis
        using Cons.IH [of "parts @ [msg]"] Cons.prems kind
        by (auto simp: reassemble_step_def r other_stream_def add_part_def take_joined_def no_fragments_def Let_def simp del: dropWhile_eq_Nil_conv)
    next
      case False
      then have "\<not> part_of stream l" "\<not> full_of stream l" using kind by simp_all
      then show ?thesis using False kind Cons.prems
        by (auto simp: reassemble_step_def r other_stream_def taken add_part_def no_fragments_def take_joined_def Let_def)
    qed
  qed
qed

text \<open>
  C23: The reassembly of partial records joins exactly the blocks. Lines that are no records and complete records pass
  unchanged and in order; a partial record takes in the partial records of its stream that follow it
  and the complete one that ends them, with their messages in order and nothing between them.
\<close>
theorem reassembly_joins_blocks: "reassemble_cri_fragments ls = join_blocks ls"
  unfolding reassemble_cri_fragments_def
proof (induction "length ls" arbitrary: ls rule: less_induct)
  case less
  show ?case
  proof (cases ls)
    case Nil
    then show ?thesis by (simp add: take_joined_def no_fragments_def)
  next
    case (Cons line rest)
    have rest: "reassemble_from True no_fragments rest = join_blocks rest" using less Cons by simp
    show ?thesis
    proof (cases "cri_record line")
      case None
      then show ?thesis using rest by (simp add: Cons reassemble_step_def take_joined_def no_fragments_def)
    next
      case (Some r)
      then obtain ts stream tag msg where r: "cri_record line = Some (ts, stream, tag, msg)" by (cases r) auto
      show ?thesis
      proof (cases "tag = ''P''")
        case False
        then show ?thesis using rest r by (simp add: Cons reassemble_step_def no_fragments_def)
      next
        case True
        have "reassemble_from True no_fragments ls = reassemble_from True \<lparr>fr_parts = [msg], fr_ts = Some ts, fr_stream = Some stream\<rparr> rest"
          by (simp add: Cons reassemble_step_def r True other_stream_def add_part_def no_fragments_def)
        moreover have "reassemble_from True no_fragments (tl (dropWhile (part_of stream) rest)) = join_blocks (tl (dropWhile (part_of stream) rest))"
          "reassemble_from True no_fragments (dropWhile (part_of stream) rest) = join_blocks (dropWhile (part_of stream) rest)"
          using less Cons dropWhile_less [of "part_of stream" rest] tl_dropWhile_less [of "part_of stream" rest] by simp_all
        ultimately show ?thesis
          using r True pending_run [of "[msg]" ts stream rest] by (simp add: Cons Let_def)
      qed
    qed
  qed
qed

text \<open>The blanks between tag and message are matched greedily, so a fragment that starts with a blank loses it.\<close>

lemma fragment_blank_lost:
  "reassemble_cri_fragments [''2026-03-12T22:01:10Z stdout P hello'', ''2026-03-12T22:01:10Z stdout F  world'']
     = [''2026-03-12T22:01:10Z stdout F helloworld'']"
  by code_simp

section \<open>Kubernetes exports\<close>

text \<open>A file of an export: its lines as far as they can be read, and what reading on raises.\<close>

record export_file =
  ef_lines :: "string list"
  ef_error :: "read_end option"

text \<open>The metadata of a stream: what the path tells of namespace, pod, container and pod id.\<close>

type_synonym k8s_meta = "(string, string) dict"

definition meta_of :: "k8s_meta \<Rightarrow> string \<Rightarrow> string option" where
  "meta_of meta key = (case dget meta key of Some [] \<Rightarrow> None | v \<Rightarrow> v)"

definition k8s_source_ref :: "k8s_meta \<Rightarrow> string \<Rightarrow> string" where
  "k8s_source_ref meta fallback =
     (case (meta_of meta ''pod'', meta_of meta ''container'') of
        (Some pod, Some container) \<Rightarrow>
          (case meta_of meta ''namespace'' of
             Some namespace \<Rightarrow> namespace @ ''/'' @ pod @ ''/'' @ container
           | None \<Rightarrow> pod @ ''/'' @ container)
      | _ \<Rightarrow> fallback)"

definition k8s_extra :: "k8s_meta \<Rightarrow> json_object" where
  "k8s_extra meta =
     (let kubernetes = List.map_filter (\<lambda>key. map_option (\<lambda>v. (key, VStr v)) (meta_of meta key)) [''namespace'', ''pod'', ''container'', ''pod_uid''] in
      if kubernetes \<noteq> [] then [(''kubernetes'', VDict kubernetes)] else [])"

definition k8s_line :: "k8s_meta \<Rightarrow> string \<Rightarrow> string \<Rightarrow> raw_log_line" where
  "k8s_line meta sid line =
     \<lparr>rl_text = line, rl_source_ref = k8s_source_ref meta sid, rl_received_at = None, rl_default_service = dget meta ''container'',
      rl_default_environment = dget meta ''namespace'', rl_default_host = dget meta ''pod'', rl_extra = k8s_extra meta\<rparr>"

definition k8s_read :: "(string \<Rightarrow> k8s_meta) \<Rightarrow> (string \<Rightarrow> export_file) \<Rightarrow> adapter" where
  "k8s_read meta files sid cursor =
     (let f = files sid in
      (map (k8s_line (meta sid) sid) (reassemble_from (ef_error f = None) no_fragments (ef_lines f)), cursor,
       case ef_error f of None \<Rightarrow> Exhausted | Some e \<Rightarrow> e))"

definition k8s_content :: "(string \<Rightarrow> k8s_meta) \<Rightarrow> (string \<Rightarrow> export_file) \<Rightarrow> string \<Rightarrow> raw_log_line list" where
  "k8s_content meta files sid = fst (k8s_read meta files sid None)"

interpretation k8s: resumable_adapter "k8s_content meta files" "\<lambda>_ _. 0" "k8s_read meta files" for meta files
  by unfold_locales (auto simp: k8s_content_def k8s_read_def Let_def)

end
