(* ===== verification/Ranker.thy ===== *)
theory Ranker
  imports Candidates TimeWindows
begin

text \<open>
  The learned ranker and its calibration (\<open>core/rca/ranker.py\<close>, \<open>core/rca/calibration.py\<close>): artifacts
  decoded from JSON, the walk of the regression trees, the probability of a service and of a top-ranked
  list. Decoded values keep their dynamic types, so a malformed artifact behaves as in the source. The
  tree walk is a partial function, \<open>None\<close> being a walk that never ends. Float arithmetic is exact, with
  infinities, NaN and the range errors of \<open>float()\<close> and \<open>math.exp\<close>. Files and the JSON decoder are
  a parameter, as is the fitted estimator that \<open>serialize_gbc\<close> reads.
\<close>

section \<open>Floats\<close>

text \<open>Numbers from here on round to infinity.\<close>

definition float_limit :: real where "float_limit = 2 ^ 1024 - 2 ^ 970"

fun fl_neg :: "pyfloat \<Rightarrow> pyfloat" where
  "fl_neg (Fin x) = Fin (- x)"
| "fl_neg PosInf = NegInf"
| "fl_neg NegInf = PosInf"
| "fl_neg NotANumber = NotANumber"

fun fl_add :: "pyfloat \<Rightarrow> pyfloat \<Rightarrow> pyfloat" where
  "fl_add (Fin x) (Fin y) = Fin (x + y)"
| "fl_add NotANumber _ = NotANumber"
| "fl_add _ NotANumber = NotANumber"
| "fl_add PosInf NegInf = NotANumber"
| "fl_add NegInf PosInf = NotANumber"
| "fl_add PosInf _ = PosInf"
| "fl_add _ PosInf = PosInf"
| "fl_add NegInf _ = NegInf"
| "fl_add _ NegInf = NegInf"

definition signed_inf :: "bool \<Rightarrow> pyfloat" where
  "signed_inf positive = (if positive then PosInf else NegInf)"

fun fl_mul :: "pyfloat \<Rightarrow> pyfloat \<Rightarrow> pyfloat" where
  "fl_mul (Fin x) (Fin y) = Fin (x * y)"
| "fl_mul NotANumber _ = NotANumber"
| "fl_mul _ NotANumber = NotANumber"
| "fl_mul (Fin x) PosInf = (if x = 0 then NotANumber else signed_inf (0 < x))"
| "fl_mul (Fin x) NegInf = (if x = 0 then NotANumber else signed_inf (x < 0))"
| "fl_mul PosInf (Fin y) = (if y = 0 then NotANumber else signed_inf (0 < y))"
| "fl_mul NegInf (Fin y) = (if y = 0 then NotANumber else signed_inf (y < 0))"
| "fl_mul PosInf PosInf = PosInf"
| "fl_mul PosInf NegInf = NegInf"
| "fl_mul NegInf PosInf = NegInf"
| "fl_mul NegInf NegInf = PosInf"

text \<open>\<open>math.exp\<close> and the logistic function \<open>1.0 / (1.0 + math.exp(-x))\<close>.\<close>

fun fl_exp :: "pyfloat \<Rightarrow> pyfloat res" where
  "fl_exp (Fin x) = (if float_limit \<le> exp x then Inl OverflowError else Inr (Fin (exp x)))"
| "fl_exp PosInf = Inr PosInf"
| "fl_exp NegInf = Inr (Fin 0)"
| "fl_exp NotANumber = Inr NotANumber"

fun fl_inv_one_plus :: "pyfloat \<Rightarrow> pyfloat" where
  "fl_inv_one_plus (Fin e) = Fin (1 / (1 + e))"
| "fl_inv_one_plus PosInf = Fin 0"
| "fl_inv_one_plus _ = NotANumber"

definition logistic :: "pyfloat \<Rightarrow> pyfloat res" where
  "logistic x = rbind (fl_exp (fl_neg x)) (\<lambda>e. Inr (fl_inv_one_plus e))"

section \<open>Conversions of decoded values\<close>

text \<open>\<open>float(s)\<close> for a string: digits with single underscores between them, a fraction, an exponent.\<close>

fun more_digits :: "string \<Rightarrow> string \<times> string" where
  "more_digits [] = ([], [])"
| "more_digits [c] = (if is_digit c then ([c], []) else ([], [c]))"
| "more_digits (c # d # s) =
     (if is_digit c then (let (ds, r) = more_digits (d # s) in (c # ds, r))
      else if c = CHR ''_'' \<and> is_digit d then more_digits (d # s)
      else ([], c # d # s))"

definition digit_part :: "string \<Rightarrow> (string \<times> string) option" where
  "digit_part s = (case s of [] \<Rightarrow> None | c # _ \<Rightarrow> if is_digit c then Some (more_digits s) else None)"

definition mantissa :: "string \<Rightarrow> (real \<times> string) option" where
  "mantissa s =
     (case digit_part s of
        Some (ip, r) \<Rightarrow>
          (let (fp, r') = (if startswith r ''.''
                           then (case digit_part (tl r) of Some p \<Rightarrow> p | None \<Rightarrow> ([], tl r)) else ([], r)) in
           Some (real (digits_value ip) + real (digits_value fp) / 10 ^ length fp, r'))
      | None \<Rightarrow>
          if startswith s ''.''
          then map_option (\<lambda>(fp, r). (real (digits_value fp) / 10 ^ length fp, r)) (digit_part (tl s))
          else None)"

definition take_sign :: "string \<Rightarrow> bool \<times> string" where
  "take_sign s = (if startswith s ''-'' then (True, tl s) else if startswith s ''+'' then (False, tl s) else (False, s))"

definition exponent :: "string \<Rightarrow> real option" where
  "exponent s =
     (if s = [] then Some 1
      else if startswith (lower_str s) ''e''
      then (let (neg, r) = take_sign (tl s) in
            case digit_part r of
              Some (ds, []) \<Rightarrow> Some (if neg then 1 / 10 ^ digits_value ds else 10 ^ digits_value ds)
            | _ \<Rightarrow> None)
      else None)"

definition to_float :: "real \<Rightarrow> pyfloat" where
  "to_float x = (if float_limit \<le> x then PosInf else if x \<le> - float_limit then NegInf else Fin x)"

definition float_of_str :: "string \<Rightarrow> pyfloat option" where
  "float_of_str s =
     (let (neg, u) = take_sign (strip_str s); sign = (\<lambda>f. if neg then fl_neg f else f) in
      if lower_str u \<in> {''inf'', ''infinity''} then Some (sign PosInf)
      else if lower_str u = ''nan'' then Some NotANumber
      else Option.bind (mantissa u) (\<lambda>(m, r). map_option (\<lambda>e. sign (to_float (m * e))) (exponent r)))"

fun float_of :: "pyval \<Rightarrow> pyfloat res" where
  "float_of (VNum (IntN i)) = (if float_limit \<le> \<bar>real_of_int i\<bar> then Inl OverflowError else Inr (Fin (of_int i)))"
| "float_of (VNum (FloatN f)) = Inr f"
| "float_of (VBool b) = Inr (Fin (of_bool b))"
| "float_of (VStr s) = (case float_of_str s of Some f \<Rightarrow> Inr f | None \<Rightarrow> Inl (ValueError ''could not convert string to float''))"
| "float_of _ = Inl (TypeError ''float() argument must be a string or a real number'')"

text \<open>\<open>list(v)\<close>, \<open>v[key]\<close> for a string key, \<open>xs[i]\<close> with negative indices, and \<open>v == n\<close>.\<close>

fun list_of :: "pyval \<Rightarrow> pyval list res" where
  "list_of (VList vs) = Inr vs"
| "list_of (VStr s) = Inr (map (\<lambda>c. VStr [c]) s)"
| "list_of (VDict d) = Inr (map (\<lambda>(k, _). VStr k) d)"
| "list_of _ = Inl (TypeError ''object is not iterable'')"

fun item :: "pyval \<Rightarrow> string \<Rightarrow> pyval res" where
  "item (VDict d) k = (case dget d k of Some v \<Rightarrow> Inr v | None \<Rightarrow> Inl (KeyError k))"
| "item _ k = Inl (TypeError ''object is not subscriptable by a string'')"

fun index_of :: "pyval \<Rightarrow> int res" where
  "index_of (VNum (IntN i)) = Inr i"
| "index_of (VBool b) = Inr (of_bool b)"
| "index_of _ = Inl (TypeError ''list indices must be integers or slices'')"

definition py_nth :: "'a list \<Rightarrow> pyval \<Rightarrow> 'a res" where
  "py_nth xs v =
     rbind (index_of v) (\<lambda>i.
       if 0 \<le> i \<and> i < int (length xs) then Inr (xs ! nat i)
       else if i < 0 \<and> 0 \<le> int (length xs) + i then Inr (xs ! nat (int (length xs) + i))
       else Inl IndexError)"

fun equals_int :: "pyval \<Rightarrow> int \<Rightarrow> bool" where
  "equals_int (VNum (IntN i)) n = (i = n)"
| "equals_int (VNum (FloatN (Fin x))) n = (x = of_int n)"
| "equals_int (VBool b) n = (of_bool b = n)"
| "equals_int _ n = False"

section \<open>Regression trees\<close>

record tree =
  children_left :: "pyval list"
  children_right :: "pyval list"
  feature :: "pyval list"
  threshold :: "pyfloat list"
  tvalue :: "pyfloat list"

definition LEAF :: int where "LEAF = -1"

text \<open>One turn of the loop: the result of the walk, or the node to go on with.\<close>

definition visit :: "tree \<Rightarrow> real list \<Rightarrow> pyval \<Rightarrow> (pyfloat + pyval) res" where
  "visit t x node =
     rbind (py_nth (children_left t) node) (\<lambda>left.
       if equals_int left LEAF then rbind (py_nth (tvalue t) node) (\<lambda>v. Inr (Inl v))
       else
         rbind (py_nth (feature t) node) (\<lambda>f.
         rbind (py_nth x f) (\<lambda>xv.
         rbind (py_nth (threshold t) node) (\<lambda>th.
           if fl_le (Fin xv) th then Inr (Inr left)
           else rbind (py_nth (children_right t) node) (\<lambda>right. Inr (Inr right))))))"

partial_function (option) walk :: "tree \<Rightarrow> real list \<Rightarrow> pyval \<Rightarrow> pyfloat res option" where
  "walk t x node =
     (case visit t x node of
        Inl e \<Rightarrow> Some (Inl e)
      | Inr r \<Rightarrow> (case r of Inl v \<Rightarrow> Some (Inr v) | Inr node' \<Rightarrow> walk t x node'))"

declare walk.simps [code]

definition predict :: "tree \<Rightarrow> real list \<Rightarrow> pyfloat res option" where
  "predict t x = walk t x (VNum (IntN 0))"

fun predict_sum :: "tree list \<Rightarrow> real list \<Rightarrow> pyfloat \<Rightarrow> pyfloat res option" where
  "predict_sum [] x acc = Some (Inr acc)"
| "predict_sum (t # ts) x acc =
     Option.bind (predict t x) (\<lambda>r. case r of Inl e \<Rightarrow> Some (Inl e) | Inr v \<Rightarrow> predict_sum ts x (fl_add acc v))"

section \<open>The ranker\<close>

record rca_ranker =
  rk_feature_names :: "pyval list"
  rk_init :: pyfloat
  rk_learning_rate :: pyfloat
  rk_trees :: "tree list"

definition decision_function :: "rca_ranker \<Rightarrow> real list \<Rightarrow> pyfloat res option" where
  "decision_function r x =
     map_option (\<lambda>s. rbind s (\<lambda>total. Inr (fl_add (rk_init r) (fl_mul (rk_learning_rate r) total)))) (predict_sum (rk_trees r) x (Fin 0))"

definition score_vector :: "rca_ranker \<Rightarrow> real list \<Rightarrow> pyfloat res option" where
  "score_vector r x = map_option (\<lambda>d. rbind d logistic) (decision_function r x)"

text \<open>\<open>getattr(self, f)\<close> with a name that is not a string raises; an empty list of names means all features.\<close>

fun attr_name :: "pyval \<Rightarrow> string res" where
  "attr_name (VStr f) = Inr f"
| "attr_name _ = Inl (TypeError ''attribute name must be string'')"

definition rk_score :: "rca_ranker \<Rightarrow> service_features \<Rightarrow> pyfloat res option" where
  "rk_score r sf =
     (case rmap attr_name (rk_feature_names r) of
        Inl e \<Rightarrow> Some (Inl e)
      | Inr names \<Rightarrow>
          (case sf_vector sf (if names = [] then FEATURE_NAMES else names) of
             Inl e \<Rightarrow> Some (Inl e)
           | Inr x \<Rightarrow> score_vector r x))"

definition ARTIFACT_VERSION :: int where "ARTIFACT_VERSION = 1"

definition tree_from_dict :: "pyval \<Rightarrow> tree res" where
  "tree_from_dict t =
     rbind (item t ''children_left'') (\<lambda>cl. rbind (list_of cl) (\<lambda>children_left.
     rbind (item t ''children_right'') (\<lambda>cr. rbind (list_of cr) (\<lambda>children_right.
     rbind (item t ''feature'') (\<lambda>f. rbind (list_of f) (\<lambda>feature.
     rbind (item t ''threshold'') (\<lambda>th. rbind (list_of th) (\<lambda>ths. rbind (rmap float_of ths) (\<lambda>threshold.
     rbind (item t ''value'') (\<lambda>v. rbind (list_of v) (\<lambda>vs. rbind (rmap float_of vs) (\<lambda>vals.
       Inr \<lparr>children_left = children_left, children_right = children_right, feature = feature,
            threshold = threshold, tvalue = vals\<rparr>))))))))))))"

fun get_attr_get :: "pyval \<Rightarrow> ((string, pyval) dict) res" where
  "get_attr_get (VDict d) = Inr d"
| "get_attr_get _ = Inl (AttributeError ''get'')"

definition ranker_from_dict :: "pyval \<Rightarrow> rca_ranker res" where
  "ranker_from_dict data =
     rbind (get_attr_get data) (\<lambda>d.
       if \<not> equals_int (dget_or d ''version'' VNone) ARTIFACT_VERSION
       then Inl (ValueError ''unsupported RCA ranker artifact version'')
       else
         rbind (item data ''trees'') (\<lambda>ts. rbind (list_of ts) (\<lambda>ts. rbind (rmap tree_from_dict ts) (\<lambda>trees.
         rbind (item data ''feature_names'') (\<lambda>fn. rbind (list_of fn) (\<lambda>feature_names.
         rbind (item data ''init'') (\<lambda>i. rbind (float_of i) (\<lambda>init.
         rbind (item data ''learning_rate'') (\<lambda>l. rbind (float_of l) (\<lambda>learning_rate.
           Inr \<lparr>rk_feature_names = feature_names, rk_init = init, rk_learning_rate = learning_rate, rk_trees = trees\<rparr>))))))))))"

text \<open>What reading an artifact file can yield: no such file, an error of reading or decoding, or a value.\<close>

datatype artifact = NoFile | Unreadable | Decoded pyval

fun caught :: "py_error \<Rightarrow> bool" where
  "caught (ValueError _) = True"
| "caught (KeyError _) = True"
| "caught (TypeError _) = True"
| "caught _ = False"

definition graceful :: "'a res \<Rightarrow> 'a option res" where
  "graceful r = (case r of Inr x \<Rightarrow> Inr (Some x) | Inl e \<Rightarrow> if caught e then Inr None else Inl e)"

definition load_artifact :: "(pyval \<Rightarrow> 'a res) \<Rightarrow> string option \<Rightarrow> (string \<Rightarrow> artifact) \<Rightarrow> 'a option res" where
  "load_artifact decode path file =
     (case path of
        None \<Rightarrow> Inr None
      | Some p \<Rightarrow>
          if p = [] then Inr None
          else (case file p of NoFile \<Rightarrow> Inr None | Unreadable \<Rightarrow> Inr None | Decoded v \<Rightarrow> graceful (decode v)))"

definition load_ranker :: "string option \<Rightarrow> (string \<Rightarrow> artifact) \<Rightarrow> rca_ranker option res" where
  "load_ranker = load_artifact ranker_from_dict"

section \<open>Serialising a fitted estimator\<close>

text \<open>What \<open>serialize_gbc\<close> reads of the estimator: integer and float arrays and its decision function.\<close>

record raw_tree =
  rt_left :: "int list"
  rt_right :: "int list"
  rt_feature :: "int list"
  rt_threshold :: "real list"
  rt_value :: "real list"

record fitted_gbc =
  gb_learning_rate :: real
  gb_trees :: "raw_tree list"
  gb_decision :: "real list \<Rightarrow> real"

definition ints :: "int list \<Rightarrow> pyval list" where "ints is = map (\<lambda>i. VNum (IntN i)) is"
definition floats :: "real list \<Rightarrow> pyval list" where "floats xs = map (\<lambda>x. VNum (FloatN (Fin x))) xs"

definition artifact_tree :: "raw_tree \<Rightarrow> pyval" where
  "artifact_tree rt =
     VDict [(''children_left'', VList (ints (rt_left rt))), (''children_right'', VList (ints (rt_right rt))),
            (''feature'', VList (ints (rt_feature rt))), (''threshold'', VList (floats (rt_threshold rt))),
            (''value'', VList (floats (rt_value rt)))]"

definition tree_of_raw :: "raw_tree \<Rightarrow> tree" where
  "tree_of_raw rt =
     \<lparr>children_left = ints (rt_left rt), children_right = ints (rt_right rt), feature = ints (rt_feature rt),
      threshold = map Fin (rt_threshold rt), tvalue = map Fin (rt_value rt)\<rparr>"

definition serialize_gbc :: "fitted_gbc \<Rightarrow> string list \<Rightarrow> pyval res option" where
  "serialize_gbc clf feature_names =
     (let lr = gb_learning_rate clf; x0 = replicate (length feature_names) 0 in
      map_option (\<lambda>s. rbind s (\<lambda>trees_sum.
        let init = fl_add (Fin (gb_decision clf x0)) (fl_neg (fl_mul (Fin lr) trees_sum)) in
        Inr (VDict [(''version'', VNum (IntN ARTIFACT_VERSION)), (''feature_names'', VList (map VStr feature_names)),
                    (''init'', VNum (FloatN init)), (''learning_rate'', VNum (FloatN (Fin lr))),
                    (''trees'', VList (map artifact_tree (gb_trees clf)))])))
        (predict_sum (map tree_of_raw (gb_trees clf)) x0 (Fin 0)))"

section \<open>Calibration\<close>

definition CALIBRATOR_VERSION :: int where "CALIBRATOR_VERSION = 1"

definition CALIBRATION_FEATURES :: "string list" where
  "CALIBRATION_FEATURES = [''top_score'', ''margin'', ''n_candidates'', ''n_modalities'', ''cross_modal_agreement'']"

definition calibration_features :: "candidate list \<Rightarrow> (string, real) dict" where
  "calibration_features candidates =
     (case candidates of
        [] \<Rightarrow> map (\<lambda>f. (f, 0)) CALIBRATION_FEATURES
      | best # rest \<Rightarrow>
          let top_score = ca_score best;
              margin = (case rest of [] \<Rightarrow> 0 | c # _ \<Rightarrow> top_score - ca_score c);
              present = dedup (concat (map ca_modalities candidates));
              top_modalities = dedup (ca_modalities best);
              agreement = (if present = [] then 0 else of_nat (length top_modalities) / of_nat (length present)) in
          [(''top_score'', top_score), (''margin'', margin), (''n_candidates'', of_nat (length candidates)),
           (''n_modalities'', of_nat (length top_modalities)), (''cross_modal_agreement'', agreement)])"

record platt =
  pl_a :: pyfloat
  pl_b :: pyfloat
  pl_feature :: string

definition probability :: "platt \<Rightarrow> real \<Rightarrow> pyfloat res" where
  "probability c v = logistic (fl_add (fl_mul (pl_a c) (Fin v)) (pl_b c))"

definition confidence :: "platt \<Rightarrow> candidate list \<Rightarrow> pyfloat option res" where
  "confidence c candidates =
     (if candidates = [] then Inr None
      else
        (case dget (calibration_features candidates) (pl_feature c) of
           None \<Rightarrow> Inl (KeyError (pl_feature c))
         | Some v \<Rightarrow> rbind (probability c v) (\<lambda>p. Inr (Some p))))"

definition platt_to_dict :: "platt \<Rightarrow> pyval" where
  "platt_to_dict c =
     VDict [(''version'', VNum (IntN CALIBRATOR_VERSION)), (''type'', VStr ''platt''), (''feature'', VStr (pl_feature c)),
            (''a'', VNum (FloatN (pl_a c))), (''b'', VNum (FloatN (pl_b c)))]"

text \<open>\<open>str(v)\<close> of a value that is not a string is never one of the feature names.\<close>

fun feature_str :: "pyval \<Rightarrow> string option" where
  "feature_str (VStr s) = Some s"
| "feature_str _ = None"

definition calibrator_from_dict :: "pyval \<Rightarrow> platt res" where
  "calibrator_from_dict data =
     rbind (get_attr_get data) (\<lambda>d.
       if \<not> equals_int (dget_or d ''version'' VNone) CALIBRATOR_VERSION \<or> dget_or d ''type'' VNone \<noteq> VStr ''platt''
       then Inl (ValueError ''unsupported calibrator artifact'')
       else
         (case feature_str (dget_or d ''feature'' (VStr ''top_score'')) of
            None \<Rightarrow> Inl (ValueError ''unknown calibrator feature'')
          | Some f \<Rightarrow>
              if f \<notin> set CALIBRATION_FEATURES then Inl (ValueError ''unknown calibrator feature'')
              else
                rbind (item data ''a'') (\<lambda>a. rbind (float_of a) (\<lambda>a.
                rbind (item data ''b'') (\<lambda>b. rbind (float_of b) (\<lambda>b.
                  Inr \<lparr>pl_a = a, pl_b = b, pl_feature = f\<rparr>))))))"

definition calibrated_confidence :: "platt \<Rightarrow> candidate list \<Rightarrow> pyfloat option res" where
  "calibrated_confidence c candidates = confidence c candidates"

definition load_calibrator :: "string option \<Rightarrow> (string \<Rightarrow> artifact) \<Rightarrow> platt option res" where
  "load_calibrator = load_artifact calibrator_from_dict"

section \<open>The walk of a well-formed tree\<close>

text \<open>The reference: a tree as a data type, and the leaf an input reaches.\<close>

datatype dtree = DLeaf real | DNode nat real dtree dtree

fun eval :: "dtree \<Rightarrow> real list \<Rightarrow> real" where
  "eval (DLeaf v) x = v"
| "eval (DNode f th l r) x = (if x ! f \<le> th then eval l x else eval r x)"

text \<open>
  The layout of a fitted tree over \<open>d\<close> features: arrays of one length, leaves marked by -1, and the
  children of a node after it.
\<close>

definition raw_ok :: "nat \<Rightarrow> raw_tree \<Rightarrow> bool" where
  "raw_ok d rt \<longleftrightarrow>
     (let n = length (rt_left rt) in
      0 < n \<and> length (rt_right rt) = n \<and> length (rt_feature rt) = n \<and> length (rt_threshold rt) = n \<and> length (rt_value rt) = n
      \<and> list_all (\<lambda>i. rt_left rt ! i = -1 \<or>
          int i < rt_left rt ! i \<and> rt_left rt ! i < int n \<and> int i < rt_right rt ! i \<and> rt_right rt ! i < int n
          \<and> 0 \<le> rt_feature rt ! i \<and> rt_feature rt ! i < int d) [0..<n])"

function (sequential) decode :: "raw_tree \<Rightarrow> nat \<Rightarrow> dtree" where
  "decode rt i =
     (if i < length (rt_left rt) \<and> int i < rt_left rt ! i \<and> int i < rt_right rt ! i
      then DNode (nat (rt_feature rt ! i)) (rt_threshold rt ! i) (decode rt (nat (rt_left rt ! i))) (decode rt (nat (rt_right rt ! i)))
      else DLeaf (rt_value rt ! i))"
  by pat_completeness auto
termination
  by (relation "measure (\<lambda>(rt, i). length (rt_left rt) - i)") auto

declare decode.simps [simp del]

lemma py_nth_int: "i < length xs \<Longrightarrow> py_nth xs (VNum (IntN (int i))) = Inr (xs ! i)"
  by (simp add: py_nth_def)

lemma raw_okD:
  assumes "raw_ok d rt" "i < length (rt_left rt)" "rt_left rt ! i \<noteq> -1"
  shows "int i < rt_left rt ! i" "rt_left rt ! i < int (length (rt_left rt))"
    and "int i < rt_right rt ! i" "rt_right rt ! i < int (length (rt_left rt))"
    and "0 \<le> rt_feature rt ! i" "rt_feature rt ! i < int d"
  using assms by (auto simp: raw_ok_def Let_def list_all_iff)

lemma raw_ok_lengths:
  assumes "raw_ok d rt"
  shows "length (rt_right rt) = length (rt_left rt)" "length (rt_feature rt) = length (rt_left rt)"
    and "length (rt_threshold rt) = length (rt_left rt)" "length (rt_value rt) = length (rt_left rt)" "0 < length (rt_left rt)"
  using assms by (auto simp: raw_ok_def Let_def)

lemma visit_leaf:
  assumes "raw_ok d rt" "i < length (rt_left rt)" "rt_left rt ! i = -1"
  shows "visit (tree_of_raw rt) x (VNum (IntN (int i))) = Inr (Inl (Fin (rt_value rt ! i)))"
  using assms raw_ok_lengths [OF assms(1)] by (simp add: visit_def tree_of_raw_def ints_def py_nth_int LEAF_def)

lemma visit_node:
  assumes "raw_ok d rt" "i < length (rt_left rt)" "rt_left rt ! i \<noteq> -1" "length x = d"
  shows "visit (tree_of_raw rt) x (VNum (IntN (int i))) =
    Inr (Inr (VNum (IntN (if x ! nat (rt_feature rt ! i) \<le> rt_threshold rt ! i then rt_left rt ! i else rt_right rt ! i))))"
proof -
  note ok = raw_ok_lengths [OF assms(1)] raw_okD [OF assms(1-3)]
  have "py_nth x (VNum (IntN (rt_feature rt ! i))) = Inr (x ! nat (rt_feature rt ! i))"
    using ok assms(4) by (simp add: py_nth_def)
  then show ?thesis
    using assms ok by (simp add: visit_def tree_of_raw_def ints_def py_nth_int LEAF_def)
qed

lemma walk_decode:
  assumes "raw_ok d rt" "length x = d" "i < length (rt_left rt)"
  shows "walk (tree_of_raw rt) x (VNum (IntN (int i))) = Some (Inr (Fin (eval (decode rt i) x)))"
  using assms
proof (induction rt i rule: decode.induct)
  case (1 rt i)
  show ?case
  proof (cases "rt_left rt ! i = -1")
    case True
    then show ?thesis
      using visit_leaf [OF 1(3) 1(5) True] by (subst walk.simps) (simp add: decode.simps)
  next
    case False
    note ok = raw_okD [OF 1(3) 1(5) False]
    have l: "int (nat (rt_left rt ! i)) = rt_left rt ! i" and r: "int (nat (rt_right rt ! i)) = rt_right rt ! i"
      using ok by linarith+
    have "walk (tree_of_raw rt) x (VNum (IntN (rt_left rt ! i))) = Some (Inr (Fin (eval (decode rt (nat (rt_left rt ! i))) x)))"
      using 1(1) 1(3-5) ok l by auto
    moreover have "walk (tree_of_raw rt) x (VNum (IntN (rt_right rt ! i))) = Some (Inr (Fin (eval (decode rt (nat (rt_right rt ! i))) x)))"
      using 1(2) 1(3-5) ok r by auto
    ultimately show ?thesis
      using visit_node [OF 1(3) 1(5) False 1(4)] 1(5) ok
      by (subst walk.simps, subst decode.simps) simp
  qed
qed

section \<open>Serialised estimators\<close>

lemma predict_sum_decode:
  "\<lbrakk>list_all (raw_ok d) ts; length x = d\<rbrakk> \<Longrightarrow>
   predict_sum (map tree_of_raw ts) x (Fin a) = Some (Inr (Fin (a + (\<Sum>t\<leftarrow>ts. eval (decode t 0) x))))"
proof (induction ts arbitrary: a)
  case (Cons t ts)
  then have "predict (tree_of_raw t) x = Some (Inr (Fin (eval (decode t 0) x)))"
    using walk_decode [of d t x 0] raw_ok_lengths(5) [of d t] by (simp add: predict_def)
  with Cons show ?case by (simp add: add.assoc)
qed simp

lemma rmap_float_floats [simp]: "rmap float_of (floats xs) = Inr (map Fin xs)"
  by (induction xs) (simp_all add: floats_def)

lemma tree_from_artifact: "tree_from_dict (artifact_tree rt) = Inr (tree_of_raw rt)"
  by (simp add: tree_from_dict_def artifact_tree_def tree_of_raw_def)

lemma trees_from_artifacts: "rmap tree_from_dict (map artifact_tree ts) = Inr (map tree_of_raw ts)"
  by (induction ts) (simp_all add: tree_from_artifact)

text \<open>The contract of a boosted ensemble: an initial score plus the weighted sum of its trees.\<close>

definition additive :: "fitted_gbc \<Rightarrow> nat \<Rightarrow> real \<Rightarrow> bool" where
  "additive clf d f0 \<longleftrightarrow>
     (\<forall>x. length x = d \<longrightarrow> gb_decision clf x = f0 + gb_learning_rate clf * (\<Sum>t\<leftarrow>gb_trees clf. eval (decode t 0) x))"

definition ranker_of :: "fitted_gbc \<Rightarrow> string list \<Rightarrow> real \<Rightarrow> rca_ranker" where
  "ranker_of clf names f0 =
     \<lparr>rk_feature_names = map VStr names, rk_init = Fin f0, rk_learning_rate = Fin (gb_learning_rate clf),
      rk_trees = map tree_of_raw (gb_trees clf)\<rparr>"

lemma serialize_then_load:
  assumes "list_all (raw_ok (length names)) (gb_trees clf)" "additive clf (length names) f0"
  shows "\<exists>art. serialize_gbc clf names = Some (Inr art) \<and> ranker_from_dict art = Inr (ranker_of clf names f0)"
  using assms
  by (auto simp: serialize_gbc_def Let_def predict_sum_decode [where d = "length names"] additive_def ranker_from_dict_def
      ranker_of_def ARTIFACT_VERSION_def dget_or_def trees_from_artifacts)

lemma decision_of_ranker:
  assumes "list_all (raw_ok d) (gb_trees clf)" "additive clf d f0" "length x = d"
  shows "decision_function (ranker_of clf names f0) x = Some (Inr (Fin (gb_decision clf x)))"
  using assms by (simp add: decision_function_def ranker_of_def predict_sum_decode additive_def)

lemma logistic_fin:
  "logistic (Fin z) = (if float_limit \<le> exp (- z) then Inl OverflowError else Inr (Fin (1 / (1 + exp (- z)))))"
  by (simp add: logistic_def)

text \<open>
  Serialising a fitted estimator and loading the artifact gives a ranker that computes the estimator's
  own decision function on every input and, unless the exponential leaves the range of floats, its
  logistic probability. The trees are laid out as the estimator lays them out and the ensemble is
  additive, the identity the source states.
\<close>
theorem serialized_ranker_exact:
  assumes "list_all (raw_ok (length names)) (gb_trees clf)" "additive clf (length names) f0"
  shows "\<exists>art r. serialize_gbc clf names = Some (Inr art) \<and> ranker_from_dict art = Inr r \<and> rk_feature_names r = map VStr names
    \<and> (\<forall>x. length x = length names \<longrightarrow>
         decision_function r x = Some (Inr (Fin (gb_decision clf x)))
         \<and> score_vector r x = Some (if float_limit \<le> exp (- gb_decision clf x) then Inl OverflowError
                                     else Inr (Fin (1 / (1 + exp (- gb_decision clf x))))))"
proof -
  obtain art where art: "serialize_gbc clf names = Some (Inr art)" "ranker_from_dict art = Inr (ranker_of clf names f0)"
    using serialize_then_load [OF assms] by blast
  show ?thesis
    by (rule exI [of _ art], rule exI [of _ "ranker_of clf names f0"])
      (simp add: art score_vector_def decision_of_ranker [OF assms] logistic_fin, simp add: ranker_of_def)
qed

definition stump :: raw_tree where
  "stump = \<lparr>rt_left = [1, -1, -1], rt_right = [2, -1, -1], rt_feature = [0, -2, -2], rt_threshold = [1 / 2, -2, -2], rt_value = [0, -1, 3]\<rparr>"

definition stump_gbc :: fitted_gbc where
  "stump_gbc = \<lparr>gb_learning_rate = 1 / 10, gb_trees = [stump], gb_decision = (\<lambda>x. 2 + 1 / 10 * (if x ! 0 \<le> 1 / 2 then -1 else 3))\<rparr>"

lemma stump_decode: "decode stump 0 = DNode 0 (1 / 2) (DLeaf (-1)) (DLeaf 3)"
  by (simp add: stump_def decode.simps)

theorem serialized_ranker_exact_witness:
  "\<exists>art r. serialize_gbc stump_gbc [''log_err''] = Some (Inr art) \<and> ranker_from_dict art = Inr r
    \<and> decision_function r [1] = Some (Inr (Fin (23 / 10)))"
proof -
  have "raw_ok 1 stump" by (simp add: raw_ok_def stump_def)
  then have "list_all (raw_ok (length [''log_err''])) (gb_trees stump_gbc)" by (simp add: stump_gbc_def)
  moreover have "additive stump_gbc (length [''log_err'']) 2"
    by (simp add: additive_def stump_gbc_def stump_decode)
  ultimately obtain art r where "serialize_gbc stump_gbc [''log_err''] = Some (Inr art)" "ranker_from_dict art = Inr r"
    and all: "\<forall>x. length x = length [''log_err''] \<longrightarrow> decision_function r x = Some (Inr (Fin (gb_decision stump_gbc x)))"
    using serialized_ranker_exact [of "[''log_err'']" stump_gbc 2] by blast
  moreover have "decision_function r [1] = Some (Inr (Fin (23 / 10)))"
    using spec [OF all, of "[1]"] by (simp add: stump_gbc_def)
  ultimately show ?thesis by blast
qed

section \<open>Loading artifacts\<close>

text \<open>Results whose error, if any, is caught by the loader or is an overflow.\<close>

definition tame :: "'a res \<Rightarrow> bool" where
  "tame r \<longleftrightarrow> (\<forall>e. r = Inl e \<longrightarrow> caught e \<or> e = OverflowError)"

lemma tame_Inr [simp]: "tame (Inr x)"
  by (simp add: tame_def)

lemma tame_Inl [simp]: "tame (Inl e) \<longleftrightarrow> caught e \<or> e = OverflowError"
  by (simp add: tame_def)

lemma tame_rbind: "\<lbrakk>tame m; \<And>x. m = Inr x \<Longrightarrow> tame (f x)\<rbrakk> \<Longrightarrow> tame (rbind m f)"
  by (cases m) simp_all

lemma tame_rmap: "(\<And>x. tame (f x)) \<Longrightarrow> tame (rmap f xs)"
  by (induction xs) (auto intro!: tame_rbind)

lemma tame_item: "tame (item v k)"
  by (cases "(v, k)" rule: item.cases) (auto split: option.splits)

lemma tame_list_of: "tame (list_of v)"
  by (cases v rule: list_of.cases) auto

lemma tame_float_of: "tame (float_of v)"
  by (cases v rule: float_of.cases) (auto split: option.splits)

lemmas tame_intros = tame_rbind tame_rmap tame_item tame_list_of tame_float_of

lemma tame_tree: "tame (tree_from_dict v)"
  unfolding tree_from_dict_def by (intro tame_intros) simp_all

lemma ranker_from_dict_error:
  assumes "ranker_from_dict data = Inl e"
  shows "caught e \<or> e = OverflowError \<or> e = AttributeError ''get'' \<and> (\<forall>d. data \<noteq> VDict d)"
proof (cases "\<exists>d. data = VDict d")
  case True
  then have "tame (ranker_from_dict data)"
    unfolding ranker_from_dict_def by (auto intro!: tame_intros tame_tree simp del: item.simps)
  with assms show ?thesis by auto
next
  case False
  then have "get_attr_get data = Inl (AttributeError ''get'')"
    by (cases data rule: get_attr_get.cases) auto
  with False assms show ?thesis by (simp add: ranker_from_dict_def)
qed

lemma calibrator_from_dict_error:
  assumes "calibrator_from_dict data = Inl e"
  shows "caught e \<or> e = OverflowError \<or> e = AttributeError ''get'' \<and> (\<forall>d. data \<noteq> VDict d)"
proof (cases "\<exists>d. data = VDict d")
  case True
  then have "tame (calibrator_from_dict data)"
    unfolding calibrator_from_dict_def by (auto intro!: tame_intros simp del: item.simps split: option.splits)
  with assms show ?thesis by auto
next
  case False
  then have "get_attr_get data = Inl (AttributeError ''get'')"
    by (cases data rule: get_attr_get.cases) auto
  with False assms show ?thesis by (simp add: calibrator_from_dict_def)
qed

lemma load_artifact_error:
  assumes "load_artifact dec path file = Inl e"
  shows "\<exists>p v. path = Some p \<and> file p = Decoded v \<and> dec v = Inl e \<and> \<not> caught e"
  using assms by (auto simp: load_artifact_def graceful_def split: option.splits if_splits artifact.splits sum.splits)

lemma load_artifact_found:
  assumes "load_artifact dec path file = Inr (Some a)"
  shows "\<exists>p v. path = Some p \<and> file p = Decoded v \<and> dec v = Inr a"
  using assms by (auto simp: load_artifact_def graceful_def split: option.splits if_splits artifact.splits sum.splits)

text \<open>
  The only exceptions that escape the two loaders are the overflow of an integer too large for a
  float and the missing \<open>get\<close> of a JSON document that is not an object; both need a readable file,
  and every other malformed artifact is answered by \<open>None\<close>, the documented fallback.
\<close>
theorem loader_errors:
  assumes "load_ranker path file = Inl e \<or> load_calibrator path file = Inl e"
  shows "\<exists>p v. path = Some p \<and> file p = Decoded v
    \<and> (e = OverflowError \<or> e = AttributeError ''get'' \<and> (\<forall>d. v \<noteq> VDict d))"
  using assms unfolding load_ranker_def load_calibrator_def
  by (auto dest!: load_artifact_error dest: ranker_from_dict_error calibrator_from_dict_error)

text \<open>A JSON list, and a tree threshold of more than 308 digits, are readable documents that stop the caller.\<close>

theorem loader_not_graceful:
  "load_ranker (Some ''m.json'') (\<lambda>_. Decoded (VList [])) = Inl (AttributeError ''get'')
   \<and> load_calibrator (Some ''c.json'') (\<lambda>_. Decoded (VList [])) = Inl (AttributeError ''get'')
   \<and> load_ranker (Some ''m.json'') (\<lambda>_. Decoded (VDict [(''version'', VNum (IntN 1)), (''trees'', VList []),
        (''feature_names'', VList []), (''init'', VNum (IntN (2 ^ 1024)))])) = Inl OverflowError"
  by (simp add: load_ranker_def load_calibrator_def load_artifact_def ranker_from_dict_def calibrator_from_dict_def graceful_def
      ARTIFACT_VERSION_def dget_or_def float_limit_def)

theorem loader_errors_witness:
  "\<exists>p v. Some ''m.json'' = Some p \<and> Decoded (VList []) = Decoded v
    \<and> (AttributeError ''get'' = OverflowError \<or> AttributeError ''get'' = AttributeError ''get'' \<and> (\<forall>d. v \<noteq> VDict d))"
  using loader_errors [of "Some ''m.json''" "\<lambda>_. Decoded (VList [])" "AttributeError ''get''"]
  by (simp add: load_ranker_def load_artifact_def ranker_from_dict_def graceful_def)

section \<open>Trees that are not trees\<close>

text \<open>A node that is its own child: the artifact loads and the walk never ends.\<close>

definition loop_artifact :: pyval where
  "loop_artifact =
     VDict [(''version'', VNum (IntN 1)), (''feature_names'', VList [VStr ''log_err'']), (''init'', VNum (IntN 0)),
            (''learning_rate'', VNum (IntN 1)),
            (''trees'', VList [VDict [(''children_left'', VList [VNum (IntN 0)]), (''children_right'', VList [VNum (IntN 0)]),
              (''feature'', VList [VNum (IntN 0)]), (''threshold'', VList [VNum (IntN 0)]), (''value'', VList [VNum (IntN 0)])]])]"

definition loop_tree :: tree where
  "loop_tree = \<lparr>children_left = [VNum (IntN 0)], children_right = [VNum (IntN 0)], feature = [VNum (IntN 0)],
     threshold = [Fin 0], tvalue = [Fin 0]\<rparr>"

lemma visit_loop: "visit loop_tree [v] (VNum (IntN 0)) = Inr (Inr (VNum (IntN 0)))"
  by (simp add: visit_def loop_tree_def py_nth_def LEAF_def)

lemma walk_loop_no_result: "walk t x n = Some y \<Longrightarrow> \<not> (t = loop_tree \<and> x = [v] \<and> n = VNum (IntN 0))"
  by (rule walk.raw_induct
      [where P = "\<lambda>t x n y. \<not> (t = loop_tree \<and> x = [v] \<and> n = VNum (IntN 0))" and xa = "((t, x), n)", unfolded prod.case])
    (auto simp: visit_loop split: sum.splits, blast)

lemma walk_loop: "walk loop_tree [v] (VNum (IntN 0)) = None"
  using walk_loop_no_result by (cases "walk loop_tree [v] (VNum (IntN 0))") blast+

theorem cyclic_tree_never_scores:
  "\<exists>r. load_ranker (Some ''m.json'') (\<lambda>_. Decoded loop_artifact) = Inr (Some r) \<and> (\<forall>v. score_vector r [v] = None)"
proof -
  have "load_ranker (Some ''m.json'') (\<lambda>_. Decoded loop_artifact) =
      Inr (Some \<lparr>rk_feature_names = [VStr ''log_err''], rk_init = Fin 0, rk_learning_rate = Fin 1, rk_trees = [loop_tree]\<rparr>)"
    by (simp add: load_ranker_def load_artifact_def ranker_from_dict_def graceful_def loop_artifact_def ARTIFACT_VERSION_def
        dget_or_def tree_from_dict_def loop_tree_def float_limit_def)
  moreover have "score_vector \<lparr>rk_feature_names = [VStr ''log_err''], rk_init = Fin 0, rk_learning_rate = Fin 1, rk_trees = [loop_tree]\<rparr> [v] = None" for v
    by (simp add: score_vector_def decision_function_def predict_def walk_loop)
  ultimately show ?thesis by blast
qed

section \<open>Calibrated confidence\<close>

lemma calibrator_roundtrip:
  "pl_feature c \<in> set CALIBRATION_FEATURES \<Longrightarrow> calibrator_from_dict (platt_to_dict c) = Inr c"
  by (simp add: calibrator_from_dict_def platt_to_dict_def dget_or_def CALIBRATOR_VERSION_def)

lemma calibrator_feature:
  "calibrator_from_dict v = Inr c \<Longrightarrow> pl_feature c \<in> set CALIBRATION_FEATURES"
  by (auto simp: calibrator_from_dict_def rbind_Inr_iff split: if_splits option.splits)

lemma calibration_features_keys: "map fst (calibration_features cs) = CALIBRATION_FEATURES"
  by (simp add: calibration_features_def CALIBRATION_FEATURES_def Let_def split: list.split)

lemma calibration_features_total:
  assumes "f \<in> set CALIBRATION_FEATURES"
  shows "\<exists>v. dget (calibration_features cs) f = Some v"
  using assms calibration_features_keys [of cs] dget_None_iff [of "calibration_features cs" f] by (metis list.set_map not_None_eq)

lemma logistic_between:
  assumes "logistic (Fin z) = Inr (Fin p)"
  shows "0 < p \<and> p < 1"
  using assms by (auto simp: logistic_fin add_pos_pos split: if_splits)

lemma logistic_mono:
  assumes "logistic (Fin y) = Inr (Fin p)" "logistic (Fin z) = Inr (Fin q)" "y \<le> z"
  shows "p \<le> q"
  using assms by (auto simp: logistic_fin frac_le add_pos_pos split: if_splits)

lemma probability_fin: "\<lbrakk>pl_a c = Fin a; pl_b c = Fin b\<rbrakk> \<Longrightarrow> probability c v = logistic (Fin (a * v + b))"
  by (simp add: probability_def)

text \<open>
  A calibrator that loads, with finite coefficients, answers every ranked list: \<open>None\<close> for the empty
  one and otherwise the logistic of its feature's value, a probability strictly between 0 and 1, unless
  the exponential overflows. Its feature is always one of the computed ones, so no lookup fails.
\<close>
theorem loaded_calibrator_confidence:
  assumes "load_calibrator path file = Inr (Some c)" "pl_a c = Fin a" "pl_b c = Fin b"
  shows "calibrated_confidence c [] = Inr None
    \<and> (\<forall>best rest. \<exists>v. dget (calibration_features (best # rest)) (pl_feature c) = Some v
        \<and> calibrated_confidence c (best # rest) =
            (if float_limit \<le> exp (- (a * v + b)) then Inl OverflowError
             else Inr (Some (Fin (1 / (1 + exp (- (a * v + b)))))))
        \<and> 0 < 1 / (1 + exp (- (a * v + b))) \<and> 1 / (1 + exp (- (a * v + b))) < 1)"
proof -
  have f: "pl_feature c \<in> set CALIBRATION_FEATURES"
    using assms(1) by (auto simp: load_calibrator_def dest!: load_artifact_found intro: calibrator_feature)
  have "\<exists>v. dget (calibration_features (best # rest)) (pl_feature c) = Some v
      \<and> calibrated_confidence c (best # rest) =
          (if float_limit \<le> exp (- (a * v + b)) then Inl OverflowError else Inr (Some (Fin (1 / (1 + exp (- (a * v + b)))))))
      \<and> 0 < 1 / (1 + exp (- (a * v + b))) \<and> 1 / (1 + exp (- (a * v + b))) < 1" for best rest
  proof -
    obtain v where "dget (calibration_features (best # rest)) (pl_feature c) = Some v"
      using calibration_features_total [OF f] by blast
    then show ?thesis
      using add_pos_pos [OF zero_less_one exp_gt_zero, of "- (a * v + b)"]
      by (intro exI [of _ v]) (simp add: calibrated_confidence_def confidence_def probability_fin [OF assms(2,3)] logistic_fin)
  qed
  then show ?thesis by (simp add: calibrated_confidence_def confidence_def)
qed

definition demo_calibrator :: platt where
  "demo_calibrator = \<lparr>pl_a = Fin 2, pl_b = Fin (-1), pl_feature = ''top_score''\<rparr>"

theorem loaded_calibrator_confidence_witness:
  "load_calibrator (Some ''c.json'') (\<lambda>_. Decoded (platt_to_dict demo_calibrator)) = Inr (Some demo_calibrator)
   \<and> calibrated_confidence demo_calibrator [] = Inr None"
proof -
  have load: "load_calibrator (Some ''c.json'') (\<lambda>_. Decoded (platt_to_dict demo_calibrator)) = Inr (Some demo_calibrator)"
    by (simp add: load_calibrator_def load_artifact_def graceful_def calibrator_roundtrip demo_calibrator_def CALIBRATION_FEATURES_def)
  show ?thesis
    using loaded_calibrator_confidence [OF load, of 2 "-1"] load by (simp add: demo_calibrator_def)
qed

lemma probability_monotone:
  assumes "pl_a c = Fin a" "pl_b c = Fin b" "0 \<le> a" "v \<le> w"
    and "probability c v = Inr (Fin p)" "probability c w = Inr (Fin q)"
  shows "p \<le> q"
  using assms(5,6) logistic_mono [of "a * v + b" p "a * w + b" q] mult_left_mono [OF assms(4,3)]
  by (simp add: probability_fin [OF assms(1,2)])

lemma agreement_bounds:
  assumes "dget (calibration_features cs) ''cross_modal_agreement'' = Some v"
  shows "0 \<le> v \<and> v \<le> 1"
proof (cases cs)
  case (Cons best rest)
  have sub: "length (dedup (ca_modalities best)) \<le> length (dedup (concat (map ca_modalities cs)))"
    using Cons by (simp only: distinct_card [OF distinct_dedup, symmetric] set_dedup) (auto intro: card_mono)
  then show ?thesis
    using assms Cons by (auto simp: calibration_features_def Let_def divide_le_eq_1 split: if_splits)
qed (use assms in \<open>simp add: calibration_features_def CALIBRATION_FEATURES_def\<close>)

end
