(* ===== verification/PurgeRuns.thy ===== *)
theory PurgeRuns
  imports Retention
begin

text \<open>
  The purge run as a whole: what it may delete, what it leaves behind, what a dry run tells about it,
  and the scheduling of the next one.
\<close>

section \<open>Well-formed tables\<close>

text \<open>Primary keys are unique.\<close>

definition store_ok :: "retention_db \<Rightarrow> bool" where
  "store_ok db \<longleftrightarrow>
     distinct (map lr_id (rd_logs db)) \<and> distinct (map ce_id (rd_cluster_embeddings db))
     \<and> distinct (map ex_id (rd_explanations db)) \<and> distinct (map pr_id (rd_runs db))"

lemma batch_tables_ok: "batch_tables p now limit db db' \<Longrightarrow> store_ok db \<Longrightarrow> store_ok db'"
  by (simp add: batch_tables_def store_ok_def distinct_map_filter)

definition cutoffs_ok :: "retention_policy \<Rightarrow> datetime \<Rightarrow> bool" where
  "cutoffs_ok p now \<longleftrightarrow>
     (\<exists>a b. compute_cutoff (Some (raw_interval p)) now = Inr a \<and> compute_cutoff (Some (summary_interval p)) now = Inr b)"

text \<open>The counts of everything that is due.\<close>

definition pending :: "retention_policy \<Rightarrow> datetime \<Rightarrow> retention_db \<Rightarrow> purge_counts" where
  "pending p now db =
     \<lparr>pc_raw = length (filter (raw_due p now) (rd_logs db)),
      pc_summary = length (filter (summary_due explanation_expired p now) (rd_explanations db))
        + (length (filter (summary_due run_expired p now) (rd_runs db))
           + join_count pk_cluster_run_id (rd_clusters db) pr_id (summary_due run_expired p now) (rd_runs db)),
      pc_embedding = join_count le_log_entry_id (rd_log_embeddings db) lr_id (raw_due p now) (rd_logs db)
        + length (filter (summary_due embedding_expired p now) (rd_cluster_embeddings db)),
      pc_scopes = [rp_scope p], pc_more_remaining = False\<rparr>"

definition nothing_due :: "retention_policy \<Rightarrow> datetime \<Rightarrow> retention_db \<Rightarrow> bool" where
  "nothing_due p now db \<longleftrightarrow>
     filter (raw_due p now) (rd_logs db) = []
     \<and> filter (summary_due embedding_expired p now) (rd_cluster_embeddings db) = []
     \<and> filter (summary_due explanation_expired p now) (rd_explanations db) = []
     \<and> filter (summary_due run_expired p now) (rd_runs db) = []"

lemma join_count_never [simp]: "join_count fk cs rid (\<lambda>_. False) rows = 0"
  by (induction cs) (simp_all add: join_count_def)

lemma join_count_none: "filter p rows = [] \<Longrightarrow> join_count fk cs rid p rows = 0"
  by (induction cs) (auto simp: join_count_def filter_empty_conv)

lemma pending_zero: "nothing_due p now db \<Longrightarrow> counts_is_empty (pending p now db)"
  by (simp add: nothing_due_def pending_def counts_is_empty_def join_count_none)

lemma count_scope_expired_pending:
  "count_scope_expired p now db =
     (case compute_cutoff (Some (raw_interval p)) now of
        Inl e \<Rightarrow> Inl e
      | Inr _ \<Rightarrow> (case compute_cutoff (Some (summary_interval p)) now of Inl e \<Rightarrow> Inl e | Inr _ \<Rightarrow> Inr (pending p now db)))"
proof (cases "cutoffs_ok p now")
  case True
  then obtain a b where "compute_cutoff (Some (raw_interval p)) now = Inr a" "compute_cutoff (Some (summary_interval p)) now = Inr b"
    by (auto simp: cutoffs_ok_def)
  then show ?thesis
    by (cases a; cases b)
      (simp_all add: count_scope_expired_def pending_def no_counts_def due_simps Let_def count_expired_log_entries_def
        count_expired_log_embeddings_def count_expired_cluster_embeddings_def count_expired_explanations_def
        count_expired_cluster_runs_def count_expired_clusters_def)
qed (auto simp: cutoffs_ok_def count_scope_expired_def split: sum.splits)

section \<open>One batch\<close>

lemma batch_accounts:
  assumes "batch_tables p now limit db db'" "store_ok db"
  shows "pc_raw (pending p now db') + pc_raw (batch_counts p now limit db) = pc_raw (pending p now db)"
    and "pc_summary (pending p now db') + pc_summary (batch_counts p now limit db) = pc_summary (pending p now db)"
    and "pc_embedding (pending p now db') + pc_embedding (batch_counts p now limit db) = pc_embedding (pending p now db)"
proof -
  note t = assms(1) [unfolded batch_tables_def] and d = assms(2) [unfolded store_ok_def]
  show "pc_raw (pending p now db') + pc_raw (batch_counts p now limit db) = pc_raw (pending p now db)"
    using t d oldest.picked_count [of lr_id "rd_logs db" "raw_due p now" lr_created_at limit]
    by (simp del: filter_filter add: pending_def batch_counts_def raw_ids_def)
  show "pc_summary (pending p now db') + pc_summary (batch_counts p now limit db) = pc_summary (pending p now db)"
    using t d oldest.picked_count [of ex_id "rd_explanations db" "summary_due explanation_expired p now" ex_created_at limit]
      oldest.picked_count [of pr_id "rd_runs db" "summary_due run_expired p now" cluster_run_expiry limit]
      oldest.picked_children [of pr_id "rd_runs db" pk_cluster_run_id cluster_run_expiry "summary_due run_expired p now" limit "rd_clusters db"]
    by (simp del: filter_filter add: pending_def batch_counts_def explanation_ids_def run_ids_def count_clusters_for_runs_def)
  show "pc_embedding (pending p now db') + pc_embedding (batch_counts p now limit db) = pc_embedding (pending p now db)"
    using t d oldest.picked_count [of ce_id "rd_cluster_embeddings db" "summary_due embedding_expired p now" summary_embedding_expiry limit]
      oldest.picked_children [of lr_id "rd_logs db" le_log_entry_id lr_created_at "raw_due p now" limit "rd_log_embeddings db"]
    by (simp del: filter_filter add: pending_def batch_counts_def raw_ids_def embedding_ids_def count_log_embeddings_def)
qed

lemma batch_empty_nothing_due:
  assumes "counts_is_empty (batch_counts p now limit db)" "0 < limit"
  shows "nothing_due p now db"
proof -
  have ids: "raw_ids p now limit db = []" "embedding_ids p now limit db = []" "explanation_ids p now limit db = []" "run_ids p now limit db = []"
    using assms(1) by (auto simp: counts_is_empty_def batch_counts_def)
  show ?thesis
    using oldest.nothing_picked [OF assms(2) ids(1) [unfolded raw_ids_def]] oldest.nothing_picked [OF assms(2) ids(2) [unfolded embedding_ids_def]]
      oldest.nothing_picked [OF assms(2) ids(3) [unfolded explanation_ids_def]] oldest.nothing_picked [OF assms(2) ids(4) [unfolded run_ids_def]]
    by (simp add: nothing_due_def)
qed

lemma batch_not_full_nothing_due:
  assumes "batch_tables p now limit db db'" "store_ok db" "0 < limit" "\<not> pc_more_remaining (batch_counts p now limit db)"
  shows "nothing_due p now db'"
proof -
  note t = assms(1) [unfolded batch_tables_def] and d = assms(2) [unfolded store_ok_def]
  have "length (raw_ids p now limit db) < limit" "length (embedding_ids p now limit db) < limit"
    "length (explanation_ids p now limit db) < limit" "length (run_ids p now limit db) < limit"
    using assms(3,4) by (auto simp: batch_counts_def full_def)
  then show ?thesis
    using t d oldest.picked_all [of lr_id "rd_logs db" lr_created_at "raw_due p now" limit]
      oldest.picked_all [of ce_id "rd_cluster_embeddings db" summary_embedding_expiry "summary_due embedding_expired p now" limit]
      oldest.picked_all [of ex_id "rd_explanations db" ex_created_at "summary_due explanation_expired p now" limit]
      oldest.picked_all [of pr_id "rd_runs db" cluster_run_expiry "summary_due run_expired p now" limit]
    by (simp add: nothing_due_def ids_defs del: filter_filter)
qed

text \<open>Rows of one scope are not due in another, so a batch leaves what is due elsewhere as it is.\<close>

lemma due_scope:
  "raw_due p now l \<Longrightarrow> lr_scope l = rp_scope p"
  "summary_due embedding_expired p now e \<Longrightarrow> ce_scope e = rp_scope p"
  "summary_due explanation_expired p now x \<Longrightarrow> ex_scope x = rp_scope p"
  "summary_due run_expired p now r \<Longrightarrow> pr_scope r = rp_scope p"
  by (auto simp: raw_due_def summary_due_def log_expired_def embedding_expired_def explanation_expired_def run_expired_def)

lemma batch_other_scope:
  assumes "batch_tables p now limit db db'" "store_ok db" "rp_scope q \<noteq> rp_scope p"
  shows "pending q now' db' = pending q now' db"
proof -
  note t = assms(1) [unfolded batch_tables_def ids_defs] and d = assms(2) [unfolded store_ok_def]
  have dis: "\<And>l. raw_due q now' l \<Longrightarrow> \<not> raw_due p now l"
    "\<And>e. summary_due embedding_expired q now' e \<Longrightarrow> \<not> summary_due embedding_expired p now e"
    "\<And>x. summary_due explanation_expired q now' x \<Longrightarrow> \<not> summary_due explanation_expired p now x"
    "\<And>r. summary_due run_expired q now' r \<Longrightarrow> \<not> summary_due run_expired p now r"
    using assms(3) due_scope by metis+
  show ?thesis
    using t d dis by (simp add: pending_def oldest.others_untouched oldest.other_children_untouched del: filter_filter)
qed

section \<open>The drain of a scope\<close>

text \<open>Rows only leave the tables, only those the predicates allow, and a child row only with its parent.\<close>

definition loses_only :: "('r \<Rightarrow> bool) \<Rightarrow> 'r list \<Rightarrow> 'r list \<Rightarrow> bool" where
  "loses_only P rows rows' \<longleftrightarrow> set rows' \<subseteq> set rows \<and> (\<forall>r \<in> set rows - set rows'. P r)"

definition cascades :: "('c \<Rightarrow> nat) \<Rightarrow> ('r \<Rightarrow> nat) \<Rightarrow> 'r list \<Rightarrow> 'r list \<Rightarrow> 'c list \<Rightarrow> 'c list \<Rightarrow> bool" where
  "cascades fk rid rows rows' cs cs' \<longleftrightarrow> loses_only (\<lambda>c. fk c \<in> rid ` (set rows - set rows')) cs cs'"

definition shrinks ::
    "(stored_log \<Rightarrow> bool) \<Rightarrow> (cluster_embedding \<Rightarrow> bool) \<Rightarrow> (explanation \<Rightarrow> bool) \<Rightarrow> (purge_run \<Rightarrow> bool)
      \<Rightarrow> retention_db \<Rightarrow> retention_db \<Rightarrow> bool" where
  "shrinks L E X R db db' \<longleftrightarrow>
     loses_only L (rd_logs db) (rd_logs db') \<and> loses_only E (rd_cluster_embeddings db) (rd_cluster_embeddings db')
     \<and> loses_only X (rd_explanations db) (rd_explanations db') \<and> loses_only R (rd_runs db) (rd_runs db')
     \<and> cascades le_log_entry_id lr_id (rd_logs db) (rd_logs db') (rd_log_embeddings db) (rd_log_embeddings db')
     \<and> cascades pk_cluster_run_id pr_id (rd_runs db) (rd_runs db') (rd_clusters db) (rd_clusters db')
     \<and> rd_retention db' = rd_retention db \<and> rd_jobs db' = rd_jobs db \<and> rd_app_config db' = rd_app_config db"

lemma loses_only_refl [simp]: "loses_only P rows rows"
  by (simp add: loses_only_def)

lemma loses_only_trans: "loses_only P a b \<Longrightarrow> loses_only P b c \<Longrightarrow> loses_only P a c"
  by (auto simp: loses_only_def)

lemma loses_only_mono: "loses_only P a b \<Longrightarrow> (\<And>r. P r \<Longrightarrow> Q r) \<Longrightarrow> loses_only Q a b"
  by (auto simp: loses_only_def)

lemma loses_only_subset: "loses_only P a b \<Longrightarrow> set b \<subseteq> set a"
  by (simp add: loses_only_def)

lemma cascades_trans:
  assumes "cascades fk rid a b cs cs'" "cascades fk rid b c cs' cs''" "set b \<subseteq> set a" "set c \<subseteq> set b"
  shows "cascades fk rid a c cs cs''"
proof -
  have sub: "rid ` (set a - set b) \<subseteq> rid ` (set a - set c)" "rid ` (set b - set c) \<subseteq> rid ` (set a - set c)"
    using assms(3,4) by (auto intro!: image_mono)
  have "loses_only (\<lambda>x. fk x \<in> rid ` (set a - set c)) cs cs'"
    by (rule loses_only_mono [OF assms(1) [unfolded cascades_def]]) (erule subsetD [OF sub(1)])
  moreover have "loses_only (\<lambda>x. fk x \<in> rid ` (set a - set c)) cs' cs''"
    by (rule loses_only_mono [OF assms(2) [unfolded cascades_def]]) (erule subsetD [OF sub(2)])
  ultimately show ?thesis unfolding cascades_def by (rule loses_only_trans)
qed

lemma shrinks_refl [simp]: "shrinks L E X R db db"
  by (simp add: shrinks_def cascades_def)

lemma shrinks_trans:
  assumes "shrinks L E X R a b" "shrinks L E X R b c"
  shows "shrinks L E X R a c"
proof -
  note a = assms(1) [unfolded shrinks_def] and b = assms(2) [unfolded shrinks_def]
  have logs: "loses_only L (rd_logs a) (rd_logs b)" "loses_only L (rd_logs b) (rd_logs c)"
    and embs: "loses_only E (rd_cluster_embeddings a) (rd_cluster_embeddings b)" "loses_only E (rd_cluster_embeddings b) (rd_cluster_embeddings c)"
    and exps: "loses_only X (rd_explanations a) (rd_explanations b)" "loses_only X (rd_explanations b) (rd_explanations c)"
    and runs: "loses_only R (rd_runs a) (rd_runs b)" "loses_only R (rd_runs b) (rd_runs c)"
    using a b by simp_all
  have "cascades le_log_entry_id lr_id (rd_logs a) (rd_logs c) (rd_log_embeddings a) (rd_log_embeddings c)"
    by (rule cascades_trans) (use a b logs loses_only_subset in blast)+
  moreover have "cascades pk_cluster_run_id pr_id (rd_runs a) (rd_runs c) (rd_clusters a) (rd_clusters c)"
    by (rule cascades_trans) (use a b runs loses_only_subset in blast)+
  ultimately show ?thesis
    using a b loses_only_trans [OF logs] loses_only_trans [OF embs] loses_only_trans [OF exps] loses_only_trans [OF runs]
    by (simp add: shrinks_def)
qed

lemma shrinks_mono:
  assumes "shrinks L E X R a b" "\<And>l. L l \<Longrightarrow> L' l" "\<And>e. E e \<Longrightarrow> E' e" "\<And>x. X x \<Longrightarrow> X' x" "\<And>r. R r \<Longrightarrow> R' r"
  shows "shrinks L' E' X' R' a b"
  using assms unfolding shrinks_def by (blast intro: loses_only_mono)

abbreviation expires :: "retention_policy \<Rightarrow> datetime \<Rightarrow> retention_db \<Rightarrow> retention_db \<Rightarrow> bool" where
  "expires p now \<equiv> shrinks (raw_due p now) (summary_due embedding_expired p now) (summary_due explanation_expired p now) (summary_due run_expired p now)"

lemma loses_picked:
  "distinct (map rid rows) \<Longrightarrow> loses_only P rows (filter (\<lambda>r. rid r \<notin> set (oldest_ids ex rid P n rows)) rows)"
  by (auto simp: loses_only_def dest: oldest.picked_is_due)

lemma cascades_picked:
  "cascades fk rid rows (filter (\<lambda>r. rid r \<notin> set (oldest_ids ex rid P n rows)) rows) cs
     (filter (\<lambda>c. fk c \<notin> set (oldest_ids ex rid P n rows)) cs)"
proof -
  have "i \<in> rid ` (set rows - set (filter (\<lambda>r. rid r \<notin> set (oldest_ids ex rid P n rows)) rows))"
    if i: "i \<in> set (oldest_ids ex rid P n rows)" for i
    using set_oldest_ids [of ex rid P n rows] i by auto
  then show ?thesis by (auto simp: cascades_def loses_only_def)
qed

lemma batch_expires:
  assumes "batch_tables p now limit db db'" "store_ok db"
  shows "expires p now db db'"
  using assms by (simp add: shrinks_def batch_tables_def ids_defs store_ok_def loses_picked cascades_picked)

lemma drain_expires:
  "drain m p now limit n db t = (db', r) \<Longrightarrow> store_ok db \<Longrightarrow> store_ok db' \<and> expires p now db db'"
proof (induction m p now limit n db t rule: drain.induct)
  case (1 m p now limit n db t)
  obtain d b where batch: "purge_scope_batch p now limit False db = (d, b)" by fastforce
  have tables: "batch_tables p now limit db d" using batch_effect [OF batch] by blast
  have here: "store_ok d" "expires p now db d"
    using batch_tables_ok [OF tables 1(3)] batch_expires [OF tables 1(3)] .
  show ?case
    using 1 batch here by (subst (asm) (2) drain.simps) (auto simp: Let_def split: sum.splits if_splits intro: shrinks_trans)
qed

lemma batch_result:
  assumes "purge_scope_batch p now limit False db = (db', r)" "cutoffs_ok p now"
  shows "r = Inr (batch_counts p now limit db)"
  using batch_effect [OF assms(1)] assms(2) by (auto simp: cutoffs_ok_def)

lemma drain_error:
  assumes "\<not> cutoffs_ok p now"
  shows "\<exists>db' e. drain m p now limit n db t = (db', Inl e) \<and> count_scope_expired p now db = Inl e"
proof -
  obtain d b where batch: "purge_scope_batch p now limit False db = (d, b)" by fastforce
  then show ?thesis
    using batch_effect [OF batch] assms
    by (subst drain.simps) (auto simp: count_scope_expired_pending cutoffs_ok_def split: sum.splits)
qed

text \<open>A drain that reports nothing left has left nothing due, however many chunks it was given.\<close>

lemma drain_complete:
  "drain m p now limit n db t = (db', Inr (t', False)) \<Longrightarrow> store_ok db \<Longrightarrow> 0 < limit \<Longrightarrow> cutoffs_ok p now \<Longrightarrow> nothing_due p now db'"
proof (induction m p now limit n db t rule: drain.induct)
  case (1 m p now limit n db t)
  obtain d b where batch: "purge_scope_batch p now limit False db = (d, b)" by fastforce
  have tables: "batch_tables p now limit db d" using batch_effect [OF batch] by blast
  have b: "b = Inr (batch_counts p now limit db)" by (rule batch_result [OF batch 1(5)])
  have ok: "store_ok d" using batch_tables_ok [OF tables 1(3)] .
  have empty: "nothing_due p now d" if e: "counts_is_empty (batch_counts p now limit db)"
  proof -
    have "nothing_due p now db" by (rule batch_empty_nothing_due [OF e 1(4)])
    then show ?thesis
      using tables by (auto simp: nothing_due_def batch_tables_def filter_empty_conv)
  qed
  have last: "nothing_due p now d" if "\<not> pc_more_remaining (batch_counts p now limit db)"
    by (rule batch_not_full_nothing_due [OF tables 1(3,4) that])
  show ?case
    using 1(1) 1(2) 1(4) 1(5) batch b ok empty last
    by (subst (asm) (2) drain.simps) (auto simp: Let_def split: if_splits)
qed

definition same_counts :: "purge_counts \<Rightarrow> purge_counts \<Rightarrow> bool" where
  "same_counts a b \<longleftrightarrow> a\<lparr>pc_more_remaining := False\<rparr> = b\<lparr>pc_more_remaining := False\<rparr>"

lemma same_counts_iff:
  "same_counts a b \<longleftrightarrow> pc_raw a = pc_raw b \<and> pc_summary a = pc_summary b \<and> pc_embedding a = pc_embedding b \<and> pc_scopes a = pc_scopes b"
  by (cases a; cases b) (simp add: same_counts_def)

lemma add_scope_again [simp]: "add_scope s (add_scope s ss) = add_scope s ss"
  by (simp add: add_scope_def)

text \<open>An unbounded drain reports exactly what was due.\<close>

lemma drain_exact:
  "cutoffs_ok p now \<Longrightarrow> store_ok db \<Longrightarrow> 0 < limit \<Longrightarrow>
   \<exists>db' t'. drain None p now limit n db t = (db', Inr (t', False)) \<and> same_counts t' (counts_add t (pending p now db))"
proof (induction "None :: int option" p now limit n db t rule: drain.induct)
  case (1 p now limit n db t)
  obtain d b where batch: "purge_scope_batch p now limit False db = (d, b)" by fastforce
  have tables: "batch_tables p now limit db d" using batch_effect [OF batch] by blast
  have b: "b = Inr (batch_counts p now limit db)" by (rule batch_result [OF batch 1(2)])
  note acc = batch_accounts [OF tables 1(3)]
  let ?k = "batch_counts p now limit db"
  show ?case
  proof (cases "counts_is_empty ?k")
    case True
    have "counts_is_empty (pending p now db)"
      by (rule pending_zero [OF batch_empty_nothing_due [OF True 1(4)]])
    then show ?thesis
      using batch b True
      by (subst drain.simps) (auto simp: Let_def same_counts_iff counts_add_def counts_is_empty_def batch_counts_def pending_def)
  next
    case False
    have "\<exists>db' t'. drain None p now limit (n + 1) d (counts_add t ?k) = (db', Inr (t', False))
        \<and> same_counts t' (counts_add (counts_add t ?k) (pending p now d))"
      using 1(1) [OF batch [symmetric, unfolded b] refl refl] 1(2,4) False batch_tables_ok [OF tables 1(3)] batch b by auto
    moreover have "same_counts (counts_add (counts_add t ?k) (pending p now d)) (counts_add t (pending p now db))"
      using acc by (simp add: same_counts_iff counts_add_def) (simp add: batch_counts_def pending_def)
    ultimately show ?thesis
      using batch b False by (subst drain.simps) (auto simp: Let_def same_counts_iff)
  qed
qed

lemma drain_other_scope:
  "drain m p now limit n db t = (db', r) \<Longrightarrow> store_ok db \<Longrightarrow> rp_scope q \<noteq> rp_scope p \<Longrightarrow> pending q now' db' = pending q now' db"
proof (induction m p now limit n db t rule: drain.induct)
  case (1 m p now limit n db t)
  obtain d b where batch: "purge_scope_batch p now limit False db = (d, b)" by fastforce
  have tables: "batch_tables p now limit db d" using batch_effect [OF batch] by blast
  have here: "store_ok d" "pending q now' d = pending q now' db"
    using batch_tables_ok [OF tables 1(3)] batch_other_scope [OF tables 1(3,4)] .
  show ?case
    using 1 batch here by (subst (asm) (2) drain.simps) (auto simp: Let_def split: sum.splits if_splits)
qed

section \<open>The run over the scopes\<close>

lemma policy_scope [simp]: "rp_scope (resolve_scope_policy db s cfg) = s"
  by (simp add: resolve_scope_policy_def apply_scope_override_def Let_def)

lemma policy_cong: "rd_retention db' = rd_retention db \<Longrightarrow> resolve_scope_policy db' s cfg = resolve_scope_policy db s cfg"
  by (simp add: resolve_scope_policy_def)

text \<open>The rows the run over some scopes may delete: due by the policy of their own scope.\<close>

definition due_in :: "retention_settings \<Rightarrow> retention_db \<Rightarrow> string list \<Rightarrow> ('r \<Rightarrow> string) \<Rightarrow> (retention_policy \<Rightarrow> 'r \<Rightarrow> bool) \<Rightarrow> 'r \<Rightarrow> bool" where
  "due_in cfg db ss scope due r \<longleftrightarrow> scope r \<in> set ss \<and> due (resolve_scope_policy db (scope r) cfg) r"

abbreviation run_expires :: "retention_settings \<Rightarrow> string list \<Rightarrow> datetime \<Rightarrow> retention_db \<Rightarrow> retention_db \<Rightarrow> bool" where
  "run_expires cfg ss now db db' \<equiv>
     shrinks (due_in cfg db ss lr_scope (\<lambda>p. raw_due p now)) (due_in cfg db ss ce_scope (\<lambda>p. summary_due embedding_expired p now))
       (due_in cfg db ss ex_scope (\<lambda>p. summary_due explanation_expired p now)) (due_in cfg db ss pr_scope (\<lambda>p. summary_due run_expired p now)) db db'"

lemma run_expires_first:
  assumes "expires (resolve_scope_policy db s cfg) now db db'"
  shows "run_expires cfg (s # ss) now db db'"
  by (rule shrinks_mono [OF assms]) (frule due_scope, simp add: due_in_def)+

lemma run_expires_then:
  assumes "run_expires cfg ss now db1 db2" "rd_retention db1 = rd_retention db"
  shows "shrinks (due_in cfg db (s # ss) lr_scope (\<lambda>p. raw_due p now)) (due_in cfg db (s # ss) ce_scope (\<lambda>p. summary_due embedding_expired p now))
       (due_in cfg db (s # ss) ex_scope (\<lambda>p. summary_due explanation_expired p now)) (due_in cfg db (s # ss) pr_scope (\<lambda>p. summary_due run_expired p now)) db1 db2"
  by (rule shrinks_mono [OF assms(1)]) (auto simp: due_in_def policy_cong [OF assms(2)])

lemma shrinks_retention: "shrinks L E X R db db' \<Longrightarrow> rd_retention db' = rd_retention db"
  by (simp add: shrinks_def)

lemma purge_scopes_expires:
  "purge_scopes cfg dry m now limit ss db t remaining = (db', r) \<Longrightarrow> store_ok db \<Longrightarrow>
   store_ok db' \<and> run_expires cfg ss now db db' \<and> (dry \<longrightarrow> db' = db)"
proof (induction ss arbitrary: db t remaining)
  case (Cons s ss)
  let ?p = "resolve_scope_policy db s cfg"
  have skip: "store_ok db' \<and> run_expires cfg (s # ss) now db db' \<and> (dry \<longrightarrow> db' = db)"
    if "purge_scopes cfg dry m now limit ss db t' rem' = (db', r)" for t' rem'
    using Cons.IH [OF that Cons.prems(2)] run_expires_then [where ?db1.0 = db and db = db and s = s] by blast
  have drained: "store_ok db' \<and> run_expires cfg (s # ss) now db db'"
    if d: "drain m ?p now limit 0 db t = (d, q)" and rest: "purge_scopes cfg dry m now limit ss d t' rem' = (db', r) \<or> db' = d" for d q t' rem'
  proof -
    have 1: "store_ok d" "run_expires cfg (s # ss) now db d"
      using drain_expires [OF d Cons.prems(2)] run_expires_first by blast+
    from rest show ?thesis
    proof
      assume "purge_scopes cfg dry m now limit ss d t' rem' = (db', r)"
      from Cons.IH [OF this 1(1)] run_expires_then [where ?db1.0 = d and db = db and s = s] shrinks_retention [OF 1(2)]
      show ?thesis using shrinks_trans [OF 1(2)] by blast
    qed (use 1 in simp)
  qed
  from Cons.prems(1) show ?case
    using Cons.prems(2) skip drained
    by (fastforce simp: Let_def split: sum.splits if_splits prod.splits)
qed simp

lemma purge_scopes_complete:
  "purge_scopes cfg False m now limit ss db t remaining = (db', Inr (t', False)) \<Longrightarrow> store_ok db \<Longrightarrow> 0 < limit \<Longrightarrow>
   \<not> remaining \<and> (\<forall>s \<in> set ss. validate_policy_intervals (resolve_scope_policy db s cfg) = Inr () \<longrightarrow>
     nothing_due (resolve_scope_policy db s cfg) now db')"
proof (induction ss arbitrary: db t remaining)
  case (Cons s ss)
  let ?p = "resolve_scope_policy db s cfg"
  show ?case
  proof (cases "validate_policy_intervals ?p")
    case (Inl e)
    with Cons.prems have "purge_scopes cfg False m now limit ss db (t\<lparr>pc_scopes := add_scope s (pc_scopes t)\<rparr>) remaining = (db', Inr (t', False))"
      by (simp add: Let_def split: if_splits)
    from Cons.IH [OF this Cons.prems(2,3)] Inl show ?thesis by simp
  next
    case (Inr u)
    obtain d q where d: "drain m ?p now limit 0 db t = (d, q)" by fastforce
    have "cutoffs_ok ?p now"
      using drain_error [of ?p now m limit 0 db t] Cons.prems(1) Inr by (fastforce simp: Let_def)
    moreover obtain t1 rem1 where q: "q = Inr (t1, rem1)"
      and rest: "purge_scopes cfg False m now limit ss d t1 (remaining \<or> rem1) = (db', Inr (t', False))"
      using Cons.prems(1) Inr d by (auto simp: Let_def split: sum.splits)
    have dr: "store_ok d" "expires ?p now db d" using drain_expires [OF d Cons.prems(2)] by blast+
    from Cons.IH [OF rest dr(1) Cons.prems(3)] have IH: "\<not> remaining" "\<not> rem1"
      "\<forall>s \<in> set ss. validate_policy_intervals (resolve_scope_policy d s cfg) = Inr () \<longrightarrow> nothing_due (resolve_scope_policy d s cfg) now db'"
      by blast+
    ultimately have "nothing_due ?p now d"
      using drain_complete [of m ?p now limit 0 db t d t1] d q Cons.prems(2,3) by simp
    moreover have "run_expires cfg ss now d db'" using purge_scopes_expires [OF rest dr(1)] by blast
    ultimately have "nothing_due ?p now db'"
      by (auto simp: nothing_due_def filter_empty_conv shrinks_def loses_only_def)
    then show ?thesis
      using IH policy_cong [of d db] shrinks_retention [OF dr(2)] by simp
  qed
qed simp

fun same_result :: "(purge_counts \<times> bool) res \<Rightarrow> (purge_counts \<times> bool) res \<Rightarrow> bool" where
  "same_result (Inl e) (Inl e') = (e = e')"
| "same_result (Inr (a, x)) (Inr (b, y)) = (same_counts a b \<and> x = y)"
| "same_result _ _ = False"

lemma same_counts_add: "same_counts a b \<Longrightarrow> same_counts (counts_add a k) (counts_add b k)"
  by (simp add: same_counts_iff counts_add_def)

lemma same_counts_trans: "same_counts a b \<Longrightarrow> same_counts b c \<Longrightarrow> same_counts a c"
  by (simp add: same_counts_def)

lemma count_error_any:
  "count_scope_expired p now db = Inl e \<Longrightarrow> count_scope_expired p now db2 = Inl e"
  by (simp add: count_scope_expired_pending split: sum.splits)

lemma purge_scopes_dry:
  "\<lbrakk>distinct ss; store_ok db2; 0 < limit; rd_retention db2 = rd_retention db;
    \<And>q. rp_scope q \<in> set ss \<Longrightarrow> pending q now db2 = pending q now db; same_counts t t2\<rbrakk> \<Longrightarrow>
   same_result (snd (purge_scopes cfg True m now limit ss db t remaining)) (snd (purge_scopes cfg False None now limit ss db2 t2 remaining))"
proof (induction ss arbitrary: db2 t t2)
  case (Cons s ss)
  let ?p = "resolve_scope_policy db s cfg"
  have p2: "resolve_scope_policy db2 s cfg = ?p" using Cons.prems(4) by (rule policy_cong)
  show ?case
  proof (cases "validate_policy_intervals ?p")
    case (Inl e)
    have "same_result (snd (purge_scopes cfg True m now limit ss db (t\<lparr>pc_scopes := add_scope s (pc_scopes t)\<rparr>) remaining))
        (snd (purge_scopes cfg False None now limit ss db2 (t2\<lparr>pc_scopes := add_scope s (pc_scopes t2)\<rparr>) remaining))"
      using Cons.prems by (intro Cons.IH) (auto simp: same_counts_iff)
    with Inl p2 show ?thesis by (simp add: Let_def)
  next
    case valid: (Inr u)
    show ?thesis
    proof (cases "cutoffs_ok ?p now")
      case False
      obtain db' e where "drain None ?p now limit 0 db2 t2 = (db', Inl e)" "count_scope_expired ?p now db2 = Inl e"
        using drain_error [OF False] by blast
      then show ?thesis using valid p2 count_error_any [of ?p now db2 e db] by (simp add: Let_def)
    next
      case True
      obtain d t' where d: "drain None ?p now limit 0 db2 t2 = (d, Inr (t', False))"
        and t': "same_counts t' (counts_add t2 (pending ?p now db2))"
        using drain_exact [OF True Cons.prems(2,3)] by blast
      have dr: "store_ok d" "rd_retention d = rd_retention db"
        using drain_expires [OF d Cons.prems(2)] Cons.prems(4) by (auto dest: shrinks_retention)
      have pen: "pending q now d = pending q now db" if "rp_scope q \<in> set ss" for q
        using drain_other_scope [OF d Cons.prems(2), of q now] Cons.prems(1) Cons.prems(5) [of q] that by auto
      have "same_counts (counts_add t (pending ?p now db)) t'"
        using t' same_counts_add [OF Cons.prems(6)] Cons.prems(5) [of ?p] by (simp add: same_counts_iff)
      then have "same_result (snd (purge_scopes cfg True m now limit ss db (counts_add t (pending ?p now db)) remaining))
          (snd (purge_scopes cfg False None now limit ss d t' remaining))"
        using Cons.prems(1,3) dr pen by (intro Cons.IH) auto
      moreover have "count_scope_expired ?p now db = Inr (pending ?p now db)"
        using True by (auto simp: count_scope_expired_pending cutoffs_ok_def)
      ultimately show ?thesis using valid p2 d by (simp add: Let_def)
    qed
  qed
qed simp

lemma purge_targets_distinct: "distinct (purge_targets scope db)"
  by (simp add: purge_targets_def list_scopes_to_purge_def split: option.split list.split)

lemma chunk_limit_pos: "0 < chunk_limit cfg"
  by (simp add: chunk_limit_def)

section \<open>What the run guarantees\<close>


lemma run_purge_finish:
  assumes "run_purge env cfg scope False m now db = (db', Inr totals)" "store_ok db"
  shows "\<exists>d t. purge_scopes cfg False m now (chunk_limit cfg) (purge_targets scope db) db no_counts False = (d, Inr (t, pc_more_remaining totals))
    \<and> db' = (if pc_more_remaining totals then enqueue_followup_purge (pe_new_id env) (pe_created_at env) d
             else write_last_purge_at (pe_isoformat env) now d)
    \<and> rd_jobs d = rd_jobs db \<and> rd_app_config d = rd_app_config db \<and> store_ok d"
proof -
  obtain d t left where d: "purge_scopes cfg False m now (chunk_limit cfg) (purge_targets scope db) db no_counts False = (d, Inr (t, left))"
    and rest: "db' = (if left then enqueue_followup_purge (pe_new_id env) (pe_created_at env) d else write_last_purge_at (pe_isoformat env) now d)"
      "pc_more_remaining totals = left"
    using assms(1) by (auto simp: run_purge_def split: sum.splits prod.splits)
  show ?thesis
    using d rest purge_scopes_expires [OF d assms(2)] by (auto simp: shrinks_def)
qed

text \<open>
  C31: A purge that returns and reports nothing remaining, whatever its chunk limits, has left no due row in any
  scope whose policy is valid and has recorded its time; one that reports more has queued a follow-up job.
\<close>
theorem purge_complete:
  assumes "store_ok db" "run_purge env cfg scope False m now db = (db', Inr totals)"
  shows "(\<not> pc_more_remaining totals \<longrightarrow>
      (\<forall>s \<in> set (purge_targets scope db). validate_policy_intervals (resolve_scope_policy db s cfg) = Inr () \<longrightarrow>
        nothing_due (resolve_scope_policy db s cfg) now db')
      \<and> dget (rd_app_config db') LAST_PURGE_AT_KEY = Some (VStr (pe_isoformat env (as_utc now))) \<and> rd_jobs db' = rd_jobs db)
    \<and> (pc_more_remaining totals \<longrightarrow>
      (\<exists>j. rd_jobs db' = rd_jobs db @ [j] \<and> wj_job_type j = PURGE_JOB_TYPE \<and> wj_status j = ''pending'') \<and> rd_app_config db' = rd_app_config db)"
proof -
  obtain d t where d: "purge_scopes cfg False m now (chunk_limit cfg) (purge_targets scope db) db no_counts False = (d, Inr (t, pc_more_remaining totals))"
    and db': "db' = (if pc_more_remaining totals then enqueue_followup_purge (pe_new_id env) (pe_created_at env) d
             else write_last_purge_at (pe_isoformat env) now d)"
    and same: "rd_jobs d = rd_jobs db" "rd_app_config d = rd_app_config db"
    using run_purge_finish [OF assms(2,1)] by blast
  have "\<forall>s \<in> set (purge_targets scope db). validate_policy_intervals (resolve_scope_policy db s cfg) = Inr () \<longrightarrow>
      nothing_due (resolve_scope_policy db s cfg) now d" if "\<not> pc_more_remaining totals"
    using purge_scopes_complete [of cfg m now "chunk_limit cfg" "purge_targets scope db" db no_counts False d t] d that assms(1) chunk_limit_pos
    by simp
  then show ?thesis
    using db' same by (auto simp: enqueue_followup_purge_def write_last_purge_at_def nothing_due_def)
qed

text \<open>
  A dry run returns exactly what the full drain then returns: the same counts for every kind of row,
  over all scopes and their cascades, and the same exception.
\<close>
theorem dry_run_predicts_drain:
  assumes "store_ok db"
  shows "snd (run_purge env cfg scope True m now db) = snd (run_purge env cfg scope False None now db)"
proof -
  let ?dry = "purge_scopes cfg True m now (chunk_limit cfg) (purge_targets scope db) db no_counts False"
  let ?wet = "purge_scopes cfg False None now (chunk_limit cfg) (purge_targets scope db) db no_counts False"
  have "same_result (snd ?dry) (snd ?wet)"
    by (rule purge_scopes_dry) (simp_all add: purge_targets_distinct chunk_limit_pos assms same_counts_iff)
  moreover obtain d r w q where "?dry = (d, r)" "?wet = (w, q)" by fastforce
  ultimately show ?thesis
    by (cases "(r, q)" rule: same_result.cases) (auto simp: run_purge_def same_counts_iff)
qed

section \<open>Scheduling\<close>

definition has_active_purge :: "retention_db \<Rightarrow> bool" where
  "has_active_purge db \<longleftrightarrow> (\<exists>j \<in> set (rd_jobs db). wj_job_type j = PURGE_JOB_TYPE \<and> wj_status j \<in> {''pending'', ''running''})"

definition should_enqueue_purge :: "datetime option \<Rightarrow> bool \<Rightarrow> datetime \<Rightarrow> int \<Rightarrow> bool" where
  "should_enqueue_purge last_purge_at active now interval_seconds =
     (if active then False
      else if interval_seconds \<le> 0 then False
      else case last_purge_at of None \<Rightarrow> True | Some stamp \<Rightarrow> interval_seconds * 1000000 \<le> instant (as_utc now) - instant (as_utc stamp))"

definition read_last_purge_at :: "(string \<Rightarrow> datetime option) \<Rightarrow> retention_db \<Rightarrow> datetime option" where
  "read_last_purge_at fromisoformat db =
     (case dget (rd_app_config db) LAST_PURGE_AT_KEY of
        None \<Rightarrow> None
      | Some v \<Rightarrow>
          (let raw = (case v of VDict d \<Rightarrow> dget_or d ''at'' VNone | _ \<Rightarrow> v) in
           case raw of
             VStr s \<Rightarrow> if strip_str s = [] then None else map_option as_utc (fromisoformat s)
           | _ \<Rightarrow> None))"

definition maybe_enqueue_purge ::
    "purge_env \<Rightarrow> (string \<Rightarrow> datetime option) \<Rightarrow> retention_settings \<Rightarrow> datetime \<Rightarrow> retention_db \<Rightarrow> retention_db \<times> bool" where
  "maybe_enqueue_purge env fromisoformat cfg now db =
     (if \<not> should_enqueue_purge (read_last_purge_at fromisoformat db) (has_active_purge db) now (purge_interval_seconds cfg)
      then (db, False)
      else (enqueue_followup_purge (pe_new_id env) (pe_created_at env) db, True))"

text \<open>The payload of a purge job may pin one scope; its result is the JSON of the counts.\<close>

definition job_scope :: "worker_job \<Rightarrow> string option" where
  "job_scope j =
     (case wj_payload j of
        VDict d \<Rightarrow> (case dget_or d ''scope'' VNone of VStr s \<Rightarrow> if strip_str s = [] then None else Some (strip_str s) | _ \<Rightarrow> None)
      | _ \<Rightarrow> None)"

definition run_purge_job :: "purge_env \<Rightarrow> retention_settings \<Rightarrow> worker_job \<Rightarrow> datetime \<Rightarrow> retention_db \<Rightarrow> retention_db \<times> pyval res" where
  "run_purge_job env cfg j now db =
     (case run_purge env cfg (job_scope j) False (Some 1) now db of
        (db', Inl e) \<Rightarrow> (db', Inl e)
      | (db', Inr counts) \<Rightarrow> (db', Inr (counts_as_dict counts False)))"

lemma maybe_enqueue_once:
  "has_active_purge db \<Longrightarrow> maybe_enqueue_purge env fi cfg now db = (db, False)"
  by (simp add: maybe_enqueue_purge_def should_enqueue_purge_def)

lemma enqueue_active: "has_active_purge (enqueue_followup_purge i c db)"
  by (simp add: has_active_purge_def enqueue_followup_purge_def)

text \<open>After a purge that left nothing, the next one is queued exactly when its interval has passed.\<close>

lemma next_purge_due:
  assumes "store_ok db" "run_purge env cfg scope False m now db = (db', Inr totals)" "\<not> pc_more_remaining totals"
    and "\<not> has_active_purge db" "fi (pe_isoformat env (as_utc now)) = Some (as_utc now)" "strip_str (pe_isoformat env (as_utc now)) \<noteq> []"
  shows "snd (maybe_enqueue_purge env' fi cfg later db') \<longleftrightarrow>
    0 < purge_interval_seconds cfg \<and> purge_interval_seconds cfg * 1000000 \<le> instant (as_utc later) - instant (as_utc now)"
proof -
  have "\<not> has_active_purge db'" "read_last_purge_at fi db' = Some (as_utc now)"
    using run_purge_finish [OF assms(2,1)] assms(3-6) as_utc_aware [OF is_aware_as_utc, of now]
    by (auto simp: has_active_purge_def read_last_purge_at_def Let_def write_last_purge_at_def)
  then show ?thesis
    using as_utc_aware [OF is_aware_as_utc, of now] by (auto simp: maybe_enqueue_purge_def should_enqueue_purge_def)
qed

section \<open>Examples\<close>

definition demo_now :: datetime where "demo_now = \<lparr>wall = 738000 * us_per_day, utcoff = Some 0\<rparr>"

definition demo_retention :: retention_settings where
  "demo_retention = \<lparr>retention_raw = ''30d'', retention_summary = ''180d'', purge_interval_seconds = 3600, purge_chunk_size = 1000\<rparr>"

definition demo_purge_env :: purge_env where
  "demo_purge_env = \<lparr>pe_isoformat = (\<lambda>_. ''stamp''), pe_new_id = 99, pe_created_at = 0\<rparr>"

definition demo_store :: "scope_retention list \<Rightarrow> retention_db" where
  "demo_store overrides =
     \<lparr>rd_logs = [\<lparr>lr_id = 1, lr_scope = ''b'', lr_created_at = 0\<rparr>, \<lparr>lr_id = 2, lr_scope = ''b'', lr_created_at = 737999 * us_per_day\<rparr>],
      rd_log_embeddings = [\<lparr>le_id = 1, le_log_entry_id = 1\<rparr>], rd_members = [], rd_cluster_embeddings = [], rd_runs = [], rd_clusters = [],
      rd_explanations = [], rd_retention = overrides, rd_jobs = [], rd_app_config = [], rd_purge_rows = []\<rparr>"

lemma demo_store_ok: "store_ok (demo_store ov)"
  by (simp add: store_ok_def demo_store_def)

definition overlong_override :: "scope_retention list" where
  "overlong_override = [\<lparr>sr_scope = ''a'', sr_raw_interval = Some ''9999999999d'', sr_summary_interval = None\<rparr>]"

text \<open>An override too long for a timedelta in one scope keeps every later scope from being purged.\<close>

theorem overlong_override_blocks_purge:
  "run_purge demo_purge_env demo_retention None False m demo_now (demo_store overlong_override) = (demo_store overlong_override, Inl OverflowError)"
proof -
  have targets: "purge_targets None (demo_store overlong_override) = [''a'', ''b'']"
    by code_simp
  have "parse_retention_interval (Some ''9999999999d'') = Inl OverflowError"
    using overlong_duration by (simp add: parse_retention_interval_def NEVER_TOKENS_def strip_str_def lstrip_str_def rstrip_str_def is_space_def lower_str_def lower_char_def)
  then have "validate_policy_intervals (resolve_scope_policy (demo_store overlong_override) ''a'' demo_retention) = Inl OverflowError"
    by (simp add: Let_def validate_policy_intervals_def resolve_scope_policy_def apply_scope_override_def demo_store_def overlong_override_def)
  then show ?thesis by (simp add: run_purge_def targets Let_def)
qed

lemma demo_intervals:
  "parse_retention_interval (Some ''30d'') = Inr (Some (30 * us_per_day))"
  "parse_retention_interval (Some ''180d'') = Inr (Some (180 * us_per_day))"
  by (simp_all add: parse_retention_interval_def NEVER_TOKENS_def parse_duration_def match_duration_def strip_str_def lstrip_str_def
      rstrip_str_def is_space_def is_digit_def lower_str_def lower_char_def startswith_def unit_us_def mk_timedelta_def timedelta_limit_def
      us_per_day_def round_half_even_def Let_def)

lemma demo_policy: "resolve_scope_policy (demo_store []) ''b'' demo_retention = \<lparr>rp_scope = ''b'', raw_interval = ''30d'', summary_interval = ''180d''\<rparr>"
  by (simp add: resolve_scope_policy_def apply_scope_override_def demo_store_def demo_retention_def)

lemma demo_cutoffs:
  "compute_cutoff (Some ''30d'') demo_now = Inr (Some \<lparr>wall = 737970 * us_per_day, utcoff = Some 0\<rparr>)"
  "compute_cutoff (Some ''180d'') demo_now = Inr (Some \<lparr>wall = 737820 * us_per_day, utcoff = Some 0\<rparr>)"
  by (simp_all add: compute_cutoff_def demo_intervals datetime_minus_def as_utc_def demo_now_def wall_limit_def us_per_day_def)

lemma demo_run:
  "\<exists>totals. run_purge demo_purge_env demo_retention (Some ''b'') False None demo_now (demo_store []) =
     (fst (run_purge demo_purge_env demo_retention (Some ''b'') False None demo_now (demo_store [])), Inr totals) \<and> \<not> pc_more_remaining totals"
proof -
  have "cutoffs_ok \<lparr>rp_scope = ''b'', raw_interval = ''30d'', summary_interval = ''180d''\<rparr> demo_now"
    by (simp add: cutoffs_ok_def demo_cutoffs)
  from drain_exact [OF this demo_store_ok [of "[]"] chunk_limit_pos [of demo_retention], of 0 no_counts] show ?thesis
    by (auto simp: run_purge_def purge_targets_def Let_def demo_policy validate_policy_intervals_def demo_intervals)
qed


theorem purge_complete_witness:
  "nothing_due (resolve_scope_policy (demo_store []) ''b'' demo_retention) demo_now
     (fst (run_purge demo_purge_env demo_retention (Some ''b'') False None demo_now (demo_store [])))"
proof -
  obtain totals where run: "run_purge demo_purge_env demo_retention (Some ''b'') False None demo_now (demo_store []) =
      (fst (run_purge demo_purge_env demo_retention (Some ''b'') False None demo_now (demo_store [])), Inr totals)" "\<not> pc_more_remaining totals"
    using demo_run by blast
  show ?thesis
    using purge_complete [OF demo_store_ok run(1)] run(2)
    by (simp add: purge_targets_def demo_policy validate_policy_intervals_def demo_intervals)
qed

theorem dry_run_predicts_drain_witness:
  "snd (run_purge demo_purge_env demo_retention (Some ''b'') True (Some 1) demo_now (demo_store [])) =
   snd (run_purge demo_purge_env demo_retention (Some ''b'') False None demo_now (demo_store []))"
  by (rule dry_run_predicts_drain [OF demo_store_ok])

end
