(* ===== verification/Worker.thy ===== *)
theory Worker
  imports PurgeRuns
begin

text \<open>
  The background worker (\<open>worker/runner.py\<close>): claiming the oldest pending job of the queue table and
  running it to a terminal status. Rows locked by other workers are skipped, as FOR UPDATE SKIP LOCKED
  does. The ingestion pipeline behind an ingest job is an argument; the polling loop, its signals and
  the callback sent after a job are left out.
\<close>

section \<open>The queue\<close>

definition update_job :: "nat \<Rightarrow> (worker_job \<Rightarrow> worker_job) \<Rightarrow> retention_db \<Rightarrow> retention_db" where
  "update_job i f db = db\<lparr>rd_jobs := map (\<lambda>j. if wj_id j = i then f j else j) (rd_jobs db)\<rparr>"

definition claimable :: "nat set \<Rightarrow> worker_job \<Rightarrow> bool" where
  "claimable locked j \<longleftrightarrow> wj_status j = ''pending'' \<and> wj_id j \<notin> locked"

definition claim_next_job :: "nat set \<Rightarrow> int \<Rightarrow> retention_db \<Rightarrow> (worker_job \<times> retention_db) option" where
  "claim_next_job locked now db =
     (case sort_key wj_created_at (filter (claimable locked) (rd_jobs db)) of
        [] \<Rightarrow> None
      | j # _ \<Rightarrow>
          (let claim = (\<lambda>j. j\<lparr>wj_status := ''running'', wj_started_at := Some now\<rparr>) in
           Some (claim j, update_job (wj_id j) claim db)))"

record worker_env =
  we_purge :: purge_env
  we_clock :: datetime
  we_locked :: "nat set"
  we_started_at :: int
  we_finished_at :: int

type_synonym ingest_handler = "worker_job \<Rightarrow> retention_db \<Rightarrow> retention_db \<times> pyval res"

definition run_job :: "retention_settings \<Rightarrow> ingest_handler \<Rightarrow> worker_env \<Rightarrow> worker_job \<Rightarrow> retention_db \<Rightarrow> retention_db \<times> pyval res" where
  "run_job cfg ingest env j db =
     (if wj_job_type j = ''ingest'' then ingest j db
      else if wj_job_type j = PURGE_JOB_TYPE then run_purge_job (we_purge env) cfg j (we_clock env) db
      else (db, Inl (ValueError ''Unknown job type'')))"

definition finish_job :: "int \<Rightarrow> pyval res \<Rightarrow> worker_job \<Rightarrow> worker_job" where
  "finish_job now r j =
     (case r of
        Inr v \<Rightarrow> j\<lparr>wj_status := ''done'', wj_result := Some v, wj_finished_at := Some now\<rparr>
      | Inl e \<Rightarrow> j\<lparr>wj_status := ''failed'', wj_error := Some e, wj_finished_at := Some now\<rparr>)"

definition process_one :: "retention_settings \<Rightarrow> ingest_handler \<Rightarrow> worker_env \<Rightarrow> retention_db \<Rightarrow> retention_db \<times> bool" where
  "process_one cfg ingest env db =
     (case claim_next_job (we_locked env) (we_started_at env) db of
        None \<Rightarrow> (db, False)
      | Some (j, db1) \<Rightarrow>
          (let (db2, r) = run_job cfg ingest env j db1 in
           (update_job (wj_id j) (finish_job (we_finished_at env) r) db2, True)))"

section \<open>The life of a job\<close>

definition terminal :: "worker_job \<Rightarrow> bool" where
  "terminal j \<longleftrightarrow> wj_status j \<in> {''done'', ''failed''}"

definition job_ids :: "retention_db \<Rightarrow> nat list" where
  "job_ids db = map wj_id (rd_jobs db)"

lemma job_ids_update [simp]: "(\<And>j. wj_id (f j) = wj_id j) \<Longrightarrow> job_ids (update_job i f db) = job_ids db"
  by (simp add: job_ids_def update_job_def)

lemma finish_job_id [simp]: "wj_id (finish_job now r j) = wj_id j"
  by (simp add: finish_job_def split: sum.split)

lemma claim_SomeD:
  assumes "claim_next_job locked now db = Some (j, db1)"
  obtains j0 where "j0 \<in> set (rd_jobs db)" "claimable locked j0" "\<forall>k \<in> set (rd_jobs db). claimable locked k \<longrightarrow> wj_created_at j0 \<le> wj_created_at k"
    "j = j0\<lparr>wj_status := ''running'', wj_started_at := Some now\<rparr>"
    "db1 = update_job (wj_id j0) (\<lambda>j. j\<lparr>wj_status := ''running'', wj_started_at := Some now\<rparr>) db"
proof -
  obtain j0 js where s: "sort_key wj_created_at (filter (claimable locked) (rd_jobs db)) = j0 # js"
    and j: "j = j0\<lparr>wj_status := ''running'', wj_started_at := Some now\<rparr>"
      "db1 = update_job (wj_id j0) (\<lambda>j. j\<lparr>wj_status := ''running'', wj_started_at := Some now\<rparr>) db"
    using assms by (auto simp: claim_next_job_def Let_def split: list.splits)
  have set: "set (j0 # js) = {k \<in> set (rd_jobs db). claimable locked k}"
    by (simp flip: s)
  have "sorted (map wj_created_at (j0 # js))" by (simp flip: s)
  then have "\<forall>k \<in> set (rd_jobs db). claimable locked k \<longrightarrow> wj_created_at j0 \<le> wj_created_at k"
    using set by (auto simp: set_eq_iff)
  moreover have "j0 \<in> set (rd_jobs db)" "claimable locked j0" using set by auto
  ultimately show ?thesis using that j by blast
qed

lemma claim_None_iff: "claim_next_job locked now db = None \<longleftrightarrow> (\<forall>j \<in> set (rd_jobs db). \<not> claimable locked j)"
proof -
  have "claim_next_job locked now db = None \<longleftrightarrow> sort_key wj_created_at (filter (claimable locked) (rd_jobs db)) = []"
    by (auto simp: claim_next_job_def Let_def split: list.splits)
  also have "\<dots> \<longleftrightarrow> set (sort_key wj_created_at (filter (claimable locked) (rd_jobs db))) = {}"
    by (simp only: set_empty)
  finally show ?thesis by auto
qed

text \<open>What a handler may do to the queue: append jobs that are pending and new.\<close>

definition only_enqueues :: "retention_db \<Rightarrow> retention_db \<Rightarrow> bool" where
  "only_enqueues db db' \<longleftrightarrow>
     (\<exists>new. rd_jobs db' = rd_jobs db @ new \<and> (\<forall>j \<in> set new. wj_status j = ''pending'') \<and> distinct (job_ids db @ map wj_id new))"

lemma only_enqueues_refl: "distinct (job_ids db) \<Longrightarrow> only_enqueues db db"
  by (simp add: only_enqueues_def)

lemma drain_jobs: "drain m p now limit n db t = (db', r) \<Longrightarrow> rd_jobs db' = rd_jobs db"
proof (induction m p now limit n db t rule: drain.induct)
  case (1 m p now limit n db t)
  obtain d b where batch: "purge_scope_batch p now limit False db = (d, b)" by fastforce
  have "rd_jobs d = rd_jobs db" using batch_effect [OF batch] by (simp add: batch_tables_def)
  then show ?case
    using 1 batch by (subst (asm) (2) drain.simps) (auto simp: Let_def split: sum.splits if_splits)
qed

lemma purge_scopes_jobs: "purge_scopes cfg dry m now limit ss db t left = (db', r) \<Longrightarrow> rd_jobs db' = rd_jobs db"
  by (induction ss arbitrary: db t left) (auto simp: Let_def split: sum.splits if_splits prod.splits dest!: drain_jobs)

lemma run_purge_job_enqueues:
  assumes "run_purge_job env cfg j now db = (db', r)" "distinct (job_ids db)" "pe_new_id env \<notin> set (job_ids db)"
  shows "only_enqueues db db'"
proof -
  obtain d q where d: "purge_scopes cfg False (Some 1) now (chunk_limit cfg) (purge_targets (job_scope j) db) db no_counts False = (d, q)"
    by fastforce
  have "db' = d \<or> db' = enqueue_followup_purge (pe_new_id env) (pe_created_at env) d \<or> db' = write_last_purge_at (pe_isoformat env) now d"
    using assms(1) d by (auto simp: run_purge_job_def run_purge_def split: sum.splits if_splits)
  then show ?thesis
    using purge_scopes_jobs [OF d] assms(2,3)
    by (auto simp: only_enqueues_def enqueue_followup_purge_def write_last_purge_at_def job_ids_def)
qed

text \<open>
  C33: Processing one job runs the oldest unlocked pending job to a terminal status with its finishing
  time, leaves every other job of the queue as it was, and adds at most new pending jobs; with nothing
  to claim it changes nothing. So a finished job is never touched again.
\<close>
theorem process_one_lifecycle:
  assumes ids: "distinct (job_ids db)" "pe_new_id (we_purge env) \<notin> set (job_ids db)"
    and ingest: "\<forall>j d d' r. ingest j d = (d', r) \<longrightarrow> distinct (job_ids d) \<longrightarrow> only_enqueues d d'"
    and run: "process_one cfg ingest env db = (db', processed)"
  shows "(\<not> processed \<longrightarrow> db' = db \<and> (\<forall>j \<in> set (rd_jobs db). \<not> claimable (we_locked env) j))
    \<and> (processed \<longrightarrow>
      (\<exists>j0 \<in> set (rd_jobs db). claimable (we_locked env) j0
        \<and> (\<forall>k \<in> set (rd_jobs db). claimable (we_locked env) k \<longrightarrow> wj_created_at j0 \<le> wj_created_at k)
        \<and> (\<exists>j1 new. terminal j1 \<and> wj_id j1 = wj_id j0 \<and> wj_finished_at j1 = Some (we_finished_at env)
            \<and> rd_jobs db' = map (\<lambda>j. if wj_id j = wj_id j0 then j1 else j) (rd_jobs db) @ new
            \<and> (\<forall>j \<in> set new. wj_status j = ''pending'') \<and> distinct (job_ids db'))))"
proof (cases "claim_next_job (we_locked env) (we_started_at env) db")
  case None
  then have "db' = db" "\<not> processed" using run by (simp_all add: process_one_def)
  then show ?thesis using None claim_None_iff by blast
next
  case (Some c)
  obtain j db1 where c: "c = (j, db1)" by (cases c)
  obtain j0 where j0: "j0 \<in> set (rd_jobs db)" "claimable (we_locked env) j0"
      "\<forall>k \<in> set (rd_jobs db). claimable (we_locked env) k \<longrightarrow> wj_created_at j0 \<le> wj_created_at k"
    and j: "j = j0\<lparr>wj_status := ''running'', wj_started_at := Some (we_started_at env)\<rparr>"
    and db1: "db1 = update_job (wj_id j0) (\<lambda>j. j\<lparr>wj_status := ''running'', wj_started_at := Some (we_started_at env)\<rparr>) db"
    using claim_SomeD [of "we_locked env" "we_started_at env" db j db1] Some c by metis
  obtain db2 r where r: "run_job cfg ingest env j db1 = (db2, r)" by fastforce
  have id1: "job_ids db1 = job_ids db" by (simp add: db1)
  have "only_enqueues db1 db2"
    using r ids ingest [rule_format, of j db1 db2 r] run_purge_job_enqueues [of "we_purge env" cfg j "we_clock env" db1 db2 r] id1 only_enqueues_refl [of db1]
    by (auto simp: run_job_def split: if_splits)
  then obtain new where new: "rd_jobs db2 = rd_jobs db1 @ new" "\<forall>j \<in> set new. wj_status j = ''pending''" "distinct (job_ids db1 @ map wj_id new)"
    by (auto simp: only_enqueues_def)
  have db': "db' = update_job (wj_id j0) (finish_job (we_finished_at env) r) db2" and "processed"
    using run Some c r j by (simp_all add: process_one_def)
  let ?j1 = "finish_job (we_finished_at env) r j"
  have others: "map (\<lambda>j. if wj_id j = wj_id j0 then finish_job (we_finished_at env) r j else j) new = new"
  proof -
    have "wj_id j0 \<in> set (job_ids db)" using j0(1) by (simp add: job_ids_def)
    then have "wj_id j0 \<notin> wj_id ` set new" using new(3) [unfolded id1] by auto
    then show ?thesis by (intro map_idI) (metis image_eqI)
  qed
  have here: "map (\<lambda>j. if wj_id j = wj_id j0 then finish_job (we_finished_at env) r j else j) (rd_jobs db1)
      = map (\<lambda>j. if wj_id j = wj_id j0 then ?j1 else j) (rd_jobs db)"
  proof (simp add: db1 update_job_def comp_def, intro ballI impI)
    fix k assume k: "k \<in> set (rd_jobs db)" "wj_id k = wj_id j0"
    then have "k = j0" using ids(1) j0(1) by (auto simp: job_ids_def distinct_map inj_on_def)
    then show "finish_job (we_finished_at env) r (k\<lparr>wj_status := ''running'', wj_started_at := Some (we_started_at env)\<rparr>) = ?j1"
      by (simp add: j)
  qed
  have "rd_jobs db' = map (\<lambda>j. if wj_id j = wj_id j0 then ?j1 else j) (rd_jobs db) @ new"
    using db' new(1) others here by (simp add: update_job_def)
  moreover have "job_ids db2 = job_ids db1 @ map wj_id new" by (simp add: job_ids_def new(1))
  then have "distinct (job_ids db')" using db' new(3) by simp
  moreover have "terminal ?j1" "wj_id ?j1 = wj_id j0" "wj_finished_at ?j1 = Some (we_finished_at env)"
    by (simp_all add: terminal_def finish_job_def j split: sum.split)
  ultimately show ?thesis using j0 new(2) \<open>processed\<close> by blast
qed

section \<open>The chain of purge jobs\<close>

text \<open>Every scope's policy is invalid, and skipped, or has cutoffs that fit a date.\<close>

definition policies_ok :: "retention_settings \<Rightarrow> datetime \<Rightarrow> retention_db \<Rightarrow> bool" where
  "policies_ok cfg now db \<longleftrightarrow>
     (\<forall>s. (\<exists>e. validate_policy_intervals (resolve_scope_policy db s cfg) = Inl (ValueError e)) \<or> cutoffs_ok (resolve_scope_policy db s cfg) now)"

lemma cutoffs_valid: "cutoffs_ok p now \<Longrightarrow> validate_policy_intervals p = Inr ()"
  by (auto simp: cutoffs_ok_def compute_cutoff_def validate_policy_intervals_def res_simps)

lemma drain_returns: "drain m p now limit n db t = (db', r) \<Longrightarrow> cutoffs_ok p now \<Longrightarrow> \<exists>x. r = Inr x"
proof (induction m p now limit n db t rule: drain.induct)
  case (1 m p now limit n db t)
  obtain d b where batch: "purge_scope_batch p now limit False db = (d, b)" by fastforce
  then show ?case
    using 1 batch_result [OF batch 1(3)] by (subst (asm) (2) drain.simps) (auto simp: Let_def split: if_splits)
qed

lemma drain_shrinks: "drain m p now limit n db t = (db', r) \<Longrightarrow> purgeable db' \<le> purgeable db"
proof (induction m p now limit n db t rule: drain.induct)
  case (1 m p now limit n db t)
  obtain d b where batch: "purge_scope_batch p now limit False db = (d, b)" by fastforce
  have "purgeable d \<le> purgeable db" using batch_effect [OF batch] batch_tables_shrink(1) by blast
  then show ?case
    using 1 batch by (subst (asm) (2) drain.simps) (auto simp: Let_def split: sum.splits if_splits intro: le_trans)
qed

lemma drain_more_shrinks: "drain m p now limit n db t = (db', Inr (t', True)) \<Longrightarrow> purgeable db' < purgeable db"
proof (induction m p now limit n db t rule: drain.induct)
  case (1 m p now limit n db t)
  obtain d b where batch: "purge_scope_batch p now limit False db = (d, b)" by fastforce
  have "purgeable d < purgeable db" if "b = Inr k" "\<not> counts_is_empty k" for k
    using batch_shrinks batch that by blast
  then show ?case
    using 1 batch by (subst (asm) (2) drain.simps) (fastforce simp: Let_def split: sum.splits if_splits)
qed

lemma purge_scopes_returns:
  "policies_ok cfg now db \<Longrightarrow> store_ok db \<Longrightarrow> \<exists>db' x. purge_scopes cfg False m now limit ss db t left = (db', Inr x)"
proof (induction ss arbitrary: db t left)
  case (Cons s ss)
  let ?p = "resolve_scope_policy db s cfg"
  show ?case
  proof (cases "cutoffs_ok ?p now")
    case False
    then obtain e where "validate_policy_intervals ?p = Inl (ValueError e)"
      using Cons.prems(1) by (auto simp: policies_ok_def)
    then show ?thesis using Cons by (simp add: Let_def)
  next
    case True
    obtain d r where d: "drain m ?p now limit 0 db t = (d, r)" by fastforce
    obtain x where "r = Inr x" using drain_returns [OF d True] by blast
    moreover have "store_ok d" "rd_retention d = rd_retention db"
      using drain_expires [OF d Cons.prems(2)] shrinks_retention by blast+
    then have "policies_ok cfg now d" "store_ok d" using Cons.prems(1) by (simp_all add: policies_ok_def policy_cong [of d db])
    ultimately show ?thesis
      using Cons.IH d cutoffs_valid [OF True] by (cases x) (simp add: Let_def)
  qed
qed simp

lemma purge_scopes_shrinks:
  "purge_scopes cfg False m now limit ss db t left = (db', Inr (t', left')) \<Longrightarrow>
   purgeable db' \<le> purgeable db \<and> (left' \<longrightarrow> left \<or> purgeable db' < purgeable db)"
proof (induction ss arbitrary: db t left)
  case (Cons s ss)
  let ?p = "resolve_scope_policy db s cfg"
  show ?case
  proof (cases "validate_policy_intervals ?p")
    case (Inl e)
    with Cons show ?thesis by (auto simp: Let_def split: if_splits)
  next
    case (Inr u)
    obtain d r where d: "drain m ?p now limit 0 db t = (d, r)" by fastforce
    then obtain t1 l1 where r: "r = Inr (t1, l1)" and rest: "purge_scopes cfg False m now limit ss d t1 (left \<or> l1) = (db', Inr (t', left'))"
      using Cons.prems Inr by (auto simp: Let_def split: sum.splits)
    show ?thesis
      using Cons.IH [OF rest] drain_shrinks [OF d] drain_more_shrinks [of m ?p now limit 0 db t d t1] d r by (cases l1) auto
  qed
qed simp

fun worker_steps :: "retention_settings \<Rightarrow> ingest_handler \<Rightarrow> (nat \<Rightarrow> worker_env) \<Rightarrow> nat \<Rightarrow> retention_db \<Rightarrow> retention_db" where
  "worker_steps cfg ingest envs 0 db = db"
| "worker_steps cfg ingest envs (Suc n) db =
     worker_steps cfg ingest (\<lambda>i. envs (Suc i)) n (fst (process_one cfg ingest (envs 0) db))"

definition pending_jobs :: "retention_db \<Rightarrow> worker_job list" where
  "pending_jobs db = filter (claimable {}) (rd_jobs db)"

definition all_purged :: "retention_settings \<Rightarrow> datetime \<Rightarrow> retention_db \<Rightarrow> bool" where
  "all_purged cfg now db \<longleftrightarrow>
     (\<forall>s. s \<noteq> [] \<and> validate_policy_intervals (resolve_scope_policy db s cfg) = Inr () \<longrightarrow> nothing_due (resolve_scope_policy db s cfg) now db)"

lemma nothing_due_elsewhere:
  assumes "s \<noteq> []" "s \<notin> set (list_scopes_to_purge db)" "shrinks L E X R db db'"
  shows "nothing_due (resolve_scope_policy c s cfg) now db'"
proof -
  let ?p = "resolve_scope_policy c s cfg"
  have out: "\<forall>l \<in> set (rd_logs db). lr_scope l \<noteq> s" "\<forall>e \<in> set (rd_cluster_embeddings db). ce_scope e \<noteq> s"
    "\<forall>x \<in> set (rd_explanations db). ex_scope x \<noteq> s" "\<forall>r \<in> set (rd_runs db). pr_scope r \<noteq> s"
    using assms(1,2) by (auto simp: list_scopes_to_purge_def scopes_to_purge_def)
  have sub: "set (rd_logs db') \<subseteq> set (rd_logs db)" "set (rd_cluster_embeddings db') \<subseteq> set (rd_cluster_embeddings db)"
    "set (rd_explanations db') \<subseteq> set (rd_explanations db)" "set (rd_runs db') \<subseteq> set (rd_runs db)"
    using assms(3) by (simp_all add: shrinks_def loses_only_def)
  have "\<forall>l \<in> set (rd_logs db'). \<not> raw_due ?p now l" "\<forall>e \<in> set (rd_cluster_embeddings db'). \<not> summary_due embedding_expired ?p now e"
    "\<forall>x \<in> set (rd_explanations db'). \<not> summary_due explanation_expired ?p now x" "\<forall>r \<in> set (rd_runs db'). \<not> summary_due run_expired ?p now r"
    using out sub due_scope [where p = ?p and now = now] by (metis policy_scope subsetD)+
  then show ?thesis by (simp add: nothing_due_def filter_empty_conv)
qed

lemma update_job_tables [simp]:
  "rd_logs (update_job i f db) = rd_logs db" "rd_cluster_embeddings (update_job i f db) = rd_cluster_embeddings db"
  "rd_runs (update_job i f db) = rd_runs db" "rd_explanations (update_job i f db) = rd_explanations db"
  "rd_retention (update_job i f db) = rd_retention db" "rd_app_config (update_job i f db) = rd_app_config db"
  by (simp_all add: update_job_def)

lemma update_job_props [simp]:
  "store_ok (update_job i f db) = store_ok db" "purgeable (update_job i f db) = purgeable db"
  "policies_ok cfg now (update_job i f db) = policies_ok cfg now db" "nothing_due p now (update_job i f db) = nothing_due p now db"
  "all_purged cfg now (update_job i f db) = all_purged cfg now db"
  "list_scopes_to_purge (update_job i f db) = list_scopes_to_purge db"
  by (simp_all add: store_ok_def purgeable_def policies_ok_def nothing_due_def all_purged_def resolve_scope_policy_def
      list_scopes_to_purge_def scopes_to_purge_def)

text \<open>One purge job over all scopes: either everything due is gone, or a follow-up is queued and rows are fewer.\<close>

definition purge_step :: "purge_env \<Rightarrow> retention_settings \<Rightarrow> datetime \<Rightarrow> retention_db \<Rightarrow> retention_db \<Rightarrow> bool" where
  "purge_step env cfg now db db' \<longleftrightarrow>
     store_ok db' \<and> rd_retention db' = rd_retention db \<and>
     (all_purged cfg now db' \<and> rd_jobs db' = rd_jobs db \<and> dget (rd_app_config db') LAST_PURGE_AT_KEY = Some (VStr (pe_isoformat env (as_utc now)))
      \<or> purgeable db' < purgeable db \<and>
        (\<exists>j. rd_jobs db' = rd_jobs db @ [j] \<and> wj_id j = pe_new_id env \<and> wj_job_type j = PURGE_JOB_TYPE \<and> wj_status j = ''pending'' \<and> job_scope j = None))"

lemma purge_job_step:
  assumes "store_ok db" "policies_ok cfg now db" "job_scope j = None"
  shows "\<exists>db' v. run_purge_job env cfg j now db = (db', Inr v) \<and> purge_step env cfg now db db'"
proof -
  let ?ss = "list_scopes_to_purge db"
  have targets: "purge_targets (job_scope j) db = ?ss" by (simp add: assms(3) purge_targets_def)
  obtain d t left where d: "purge_scopes cfg False (Some 1) now (chunk_limit cfg) ?ss db no_counts False = (d, Inr (t, left))"
    using purge_scopes_returns [OF assms(2,1)] by (metis surj_pair)
  have d_ok: "store_ok d" "rd_retention d = rd_retention db" "rd_jobs d = rd_jobs db" "rd_app_config d = rd_app_config db"
    using purge_scopes_expires [OF d assms(1)] by (simp_all add: shrinks_def)
  let ?db' = "if left then enqueue_followup_purge (pe_new_id env) (pe_created_at env) d else write_last_purge_at (pe_isoformat env) now d"
  have run: "\<exists>v. run_purge_job env cfg j now db = (?db', Inr v)"
    by (simp add: run_purge_job_def run_purge_def targets d)
  have tables: "store_ok ?db'" "rd_retention ?db' = rd_retention db"
    using d_ok by (simp_all add: store_ok_def enqueue_followup_purge_def write_last_purge_at_def)
  have "purge_step env cfg now db ?db'"
  proof (cases left)
    case True
    then have "purgeable d < purgeable db" using purge_scopes_shrinks [OF d] by simp
    then show ?thesis
      using True tables d_ok
      by (simp add: purge_step_def) (simp add: enqueue_followup_purge_def purgeable_def job_scope_def dget_or_def)
  next
    case False
    have sh: "run_expires cfg ?ss now db d" using purge_scopes_expires [OF d assms(1)] by blast
    have "nothing_due (resolve_scope_policy db s cfg) now d"
      if s: "s \<noteq> []" "validate_policy_intervals (resolve_scope_policy db s cfg) = Inr ()" for s
      using purge_scopes_complete [of cfg "Some 1" now "chunk_limit cfg" ?ss db no_counts False d t] d False assms(1) chunk_limit_pos s
        nothing_due_elsewhere [OF s(1) _ sh, of db cfg now] by (cases "s \<in> set ?ss") simp_all
    then have "all_purged cfg now ?db'"
      using False d_ok policy_cong [of ?db' db] by (simp add: all_purged_def write_last_purge_at_def nothing_due_def)
    then show ?thesis
      using False tables d_ok by (simp add: purge_step_def) (simp add: write_last_purge_at_def)
  qed
  with run show ?thesis by blast
qed

lemma pending_update:
  assumes "\<And>j. wj_id (f j) = wj_id j" "\<And>j. wj_status (f j) \<noteq> ''pending''"
  shows "pending_jobs (update_job i f db) = filter (\<lambda>j. wj_id j \<noteq> i) (pending_jobs db)"
proof -
  have "filter (claimable {}) (map (\<lambda>j. if wj_id j = i then f j else j) js) = filter (\<lambda>j. wj_id j \<noteq> i) (filter (claimable {}) js)" for js
    using assms by (induction js) (auto simp: claimable_def)
  then show ?thesis by (simp add: pending_jobs_def update_job_def)
qed

lemma finish_not_pending [simp]: "wj_status (finish_job now r j) \<noteq> ''pending''"
  by (simp add: finish_job_def split: sum.split)

text \<open>One turn of the worker on a queue whose only pending job is a purge of all scopes.\<close>

lemma process_purge:
  assumes "store_ok db" "policies_ok cfg (we_clock env) db" "pending_jobs db = [j]" "wj_job_type j = PURGE_JOB_TYPE" "job_scope j = None"
    and "we_locked env = {}" "pe_new_id (we_purge env) \<notin> set (job_ids db)"
  shows "\<exists>db'. process_one cfg ingest env db = (db', True) \<and> store_ok db' \<and> policies_ok cfg (we_clock env) db' \<and>
    (all_purged cfg (we_clock env) db' \<and> pending_jobs db' = []
       \<and> dget (rd_app_config db') LAST_PURGE_AT_KEY = Some (VStr (pe_isoformat (we_purge env) (as_utc (we_clock env))))
     \<or> purgeable db' < purgeable db \<and> set (job_ids db') \<subseteq> insert (pe_new_id (we_purge env)) (set (job_ids db))
       \<and> (\<exists>j'. pending_jobs db' = [j'] \<and> wj_job_type j' = PURGE_JOB_TYPE \<and> job_scope j' = None))"
proof -
  let ?now = "we_clock env" and ?claim = "\<lambda>j. j\<lparr>wj_status := ''running'', wj_started_at := Some (we_started_at env)\<rparr>"
  let ?db1 = "update_job (wj_id j) ?claim db"
  have claim: "claim_next_job {} (we_started_at env) db = Some (?claim j, ?db1)"
    using assms(3) by (simp add: claim_next_job_def pending_jobs_def Let_def)
  have scope: "job_scope (?claim j) = None" using assms(5) by (simp add: job_scope_def)
  obtain db2 v where run: "run_purge_job (we_purge env) cfg (?claim j) ?now ?db1 = (db2, Inr v)"
    and step: "purge_step (we_purge env) cfg ?now ?db1 db2"
    using purge_job_step [of ?db1 cfg ?now "?claim j" "we_purge env"] assms(1,2) scope by auto
  let ?db' = "update_job (wj_id j) (finish_job (we_finished_at env) (Inr v)) db2"
  have one: "process_one cfg ingest env db = (?db', True)"
    using claim run assms(4,6) by (simp add: process_one_def run_job_def PURGE_JOB_TYPE_def)
  have none: "pending_jobs ?db1 = []" using assms(3) by (simp add: pending_update)
  have job: "wj_id j \<in> set (job_ids db)"
    using assms(3) by (force simp: pending_jobs_def job_ids_def dest: arg_cong [of _ _ set])
  have tables: "store_ok ?db'" "policies_ok cfg ?now ?db'"
    using step assms(2) by (auto simp: purge_step_def policies_ok_def policy_cong [of db2 ?db1] resolve_scope_policy_def)
  from step consider "all_purged cfg ?now db2" "rd_jobs db2 = rd_jobs ?db1"
      "dget (rd_app_config db2) LAST_PURGE_AT_KEY = Some (VStr (pe_isoformat (we_purge env) (as_utc ?now)))"
    | k where "purgeable db2 < purgeable ?db1" "rd_jobs db2 = rd_jobs ?db1 @ [k]" "wj_id k = pe_new_id (we_purge env)"
      "wj_job_type k = PURGE_JOB_TYPE" "wj_status k = ''pending''" "job_scope k = None"
    by (auto simp: purge_step_def)
  then show ?thesis
  proof cases
    case 1
    have "pending_jobs db2 = []" using none unfolding pending_jobs_def 1(2) .
    then have "pending_jobs ?db' = []" by (simp add: pending_update)
    then show ?thesis using one tables 1 by simp
  next
    case 2
    have "pending_jobs db2 = [k]" using none 2(5) unfolding pending_jobs_def 2(2) by (simp add: claimable_def)
    moreover have "wj_id k \<noteq> wj_id j" using 2(3) job assms(7) by metis
    ultimately have "pending_jobs ?db' = [k]" by (simp add: pending_update)
    moreover have "job_ids db2 = job_ids ?db1 @ [pe_new_id (we_purge env)]" using 2(2,3) by (simp add: job_ids_def)
    then have "set (job_ids ?db') \<subseteq> insert (pe_new_id (we_purge env)) (set (job_ids db))" by simp
    ultimately show ?thesis using one tables 2 by auto
  qed
qed


section \<open>Examples\<close>

definition demo_job :: worker_job where
  "demo_job = \<lparr>wj_id = 1, wj_job_type = ''purge'', wj_status = ''pending'', wj_payload = VDict [], wj_result = None, wj_error = None,
     wj_created_at = 0, wj_started_at = None, wj_finished_at = None\<rparr>"

definition demo_queue :: retention_db where "demo_queue = (demo_store [])\<lparr>rd_jobs := [demo_job]\<rparr>"

definition demo_worker :: "nat \<Rightarrow> worker_env" where
  "demo_worker i = \<lparr>we_purge = demo_purge_env\<lparr>pe_new_id := 100 + i\<rparr>, we_clock = demo_now, we_locked = {}, we_started_at = 1, we_finished_at = 2\<rparr>"

definition no_ingest :: ingest_handler where "no_ingest j db = (db, Inr VNone)"

lemma demo_queue_facts:
  "store_ok demo_queue" "pending_jobs demo_queue = [demo_job]" "job_ids demo_queue = [1]" "policies_ok demo_retention demo_now demo_queue"
proof -
  show "store_ok demo_queue" using demo_store_ok [of "[]"] by (simp add: demo_queue_def store_ok_def)
  show "pending_jobs demo_queue = [demo_job]" by (simp add: pending_jobs_def demo_queue_def claimable_def demo_job_def)
  show "job_ids demo_queue = [1]" by (simp add: job_ids_def demo_queue_def demo_job_def)
  have "resolve_scope_policy demo_queue s demo_retention = \<lparr>rp_scope = s, raw_interval = ''30d'', summary_interval = ''180d''\<rparr>" for s
    by (simp add: resolve_scope_policy_def apply_scope_override_def demo_queue_def demo_store_def demo_retention_def)
  then show "policies_ok demo_retention demo_now demo_queue"
    by (simp add: policies_ok_def cutoffs_ok_def demo_cutoffs)
qed

theorem process_one_lifecycle_witness:
  "\<exists>j1. terminal j1 \<and> wj_id j1 = 1 \<and> j1 \<in> set (rd_jobs (fst (process_one demo_retention no_ingest (demo_worker 0) demo_queue)))"
proof -
  let ?run = "process_one demo_retention no_ingest (demo_worker 0) demo_queue"
  have ing: "\<forall>j d d' r. no_ingest j d = (d', r) \<longrightarrow> distinct (job_ids d) \<longrightarrow> only_enqueues d d'"
    by (simp add: no_ingest_def only_enqueues_refl)
  have ids: "distinct (job_ids demo_queue)" "pe_new_id (we_purge (demo_worker 0)) \<notin> set (job_ids demo_queue)"
    by (simp_all add: demo_queue_facts demo_worker_def)
  have "snd ?run \<and> (\<exists>j0 \<in> set (rd_jobs demo_queue). \<exists>j1 new. terminal j1 \<and> wj_id j1 = wj_id j0
      \<and> rd_jobs (fst ?run) = map (\<lambda>j. if wj_id j = wj_id j0 then j1 else j) (rd_jobs demo_queue) @ new)
    \<or> (\<forall>j \<in> set (rd_jobs demo_queue). \<not> claimable (we_locked (demo_worker 0)) j)"
    using process_one_lifecycle [OF ids ing prod.collapse [symmetric, of ?run]] by blast
  moreover have "claimable (we_locked (demo_worker 0)) demo_job" "rd_jobs demo_queue = [demo_job]" "wj_id demo_job = 1"
    by (simp_all add: claimable_def demo_worker_def demo_job_def demo_queue_def)
  ultimately show ?thesis by auto
qed


end
