(* ===== verification/AccessRoles.thy ===== *)
theory AccessRoles
  imports PyValues
begin

text \<open>
  The routing vocabulary of the HTTP layer: \<open>api/auth/roles.py\<close> (which roles may call which path)
  and \<open>api/auth/bind_guard.py\<close> (refusing to listen unauthenticated off the loopback interface).
  Paths are matched after one trailing-slash normalisation and after one leading \<open>/v<digits>\<close> is
  dropped; the lemmas say what the version prefix may and may not change. The authenticated caller
  (\<open>AuthPrincipal\<close> of \<open>middleware.py\<close>) is declared here because scopes, limits and overrides read it.
\<close>

section \<open>Strings of the request line\<close>

text \<open>
  \<open>str.upper\<close>. The capitals of U+00B5 and U+00FF lie outside the modelled range; both stay, which no
  comparison with an ASCII verb can see.
\<close>

definition upper_char :: "char \<Rightarrow> string" where
  "upper_char c =
     (let n = (of_char c :: nat) in
      if (97 \<le> n \<and> n \<le> 122) \<or> (224 \<le> n \<and> n \<le> 254 \<and> n \<noteq> 247) then [char_of (n - 32)]
      else if n = 223 then ''SS'' else [c])"

definition upper_str :: "string \<Rightarrow> string" where
  "upper_str s = concat (map upper_char s)"

definition rstrip_char :: "char \<Rightarrow> string \<Rightarrow> string" where
  "rstrip_char c s = rev (dropWhile (\<lambda>x. x = c) (rev s))"

definition newline :: string where
  "newline = [char_of (10::nat)]"

section \<open>Role map\<close>

definition INGEST_ROLES :: "string set" where "INGEST_ROLES = {''ingest'', ''admin''}"
definition QUERY_ROLES :: "string set" where "QUERY_ROLES = {''query'', ''admin''}"
definition ADMIN_ROLES :: "string set" where "ADMIN_ROLES = {''admin''}"

definition EXEMPT_PREFIXES :: "string list" where
  "EXEMPT_PREFIXES = [''/health'', ''/metrics'']"

definition normalize_path :: "string \<Rightarrow> string" where
  "normalize_path path =
     (if path = [] then ''/''
      else if 1 < length path \<and> endswith path ''/'' then rstrip_char (CHR ''/'') path
      else path)"

text \<open>\<open>re.compile(r"^/v\d+(?=/|$)").sub("", path, count=1)\<close>; \<open>$\<close> also matches before a final newline.\<close>

definition sub_version :: "string \<Rightarrow> string" where
  "sub_version path =
     (if startswith path ''/v'' then
        let digits = takeWhile is_digit (drop 2 path); rest = dropWhile is_digit (drop 2 path) in
        if digits \<noteq> [] \<and> (rest = [] \<or> rest = newline \<or> hd rest = CHR ''/'') then rest else path
      else path)"

definition strip_api_version :: "string \<Rightarrow> string" where
  "strip_api_version path = (let stripped = sub_version path in if stripped \<noteq> [] then stripped else ''/'')"

definition is_under :: "string \<Rightarrow> string \<Rightarrow> bool" where
  "is_under p prefix = (p = prefix \<or> startswith p (prefix @ ''/''))"

definition is_exempt_path :: "string \<Rightarrow> bool" where
  "is_exempt_path path =
     (let normalized = strip_api_version (normalize_path path) in
      list_ex (is_under normalized) EXEMPT_PREFIXES)"

definition required_roles :: "string \<Rightarrow> string \<Rightarrow> string set option" where
  "required_roles verb path =
     (if is_exempt_path path then None
      else
        let normalized = strip_api_version (normalize_path path); verb = upper_str verb in
        if is_under normalized ''/ingestions'' then
          (if verb = ''POST'' then Some INGEST_ROLES else Some QUERY_ROLES)
        else if is_under normalized ''/query'' then Some QUERY_ROLES
        else if is_under normalized ''/config'' then Some ADMIN_ROLES
        else if normalized = ''/'' \<or> startswith normalized ''/static'' then Some QUERY_ROLES
        else if normalized \<in> {''/docs'', ''/redoc'', ''/openapi.json''}
             \<or> startswith normalized ''/docs/'' \<or> startswith normalized ''/redoc/'' then Some QUERY_ROLES
        else if is_under normalized ''/admin'' then Some ADMIN_ROLES
        else Some ADMIN_ROLES)"

section \<open>The authenticated caller\<close>

record auth_principal =
  role :: string
  scope :: string
  auth_method :: string
  key_id :: "string option"
  subject :: "string option"
  allow_scope_override :: bool
  config_json :: "(string \<times> pyval) list option"

section \<open>Binding off the loopback interface\<close>

datatype bind_outcome = BindSilently | BindWarned | InsecureBindError

definition LOOPBACK_HOSTS :: "string set" where
  "LOOPBACK_HOSTS = {''127.0.0.1'', ''::1'', ''localhost''}"

definition is_loopback_host :: "string \<Rightarrow> bool" where
  "is_loopback_host host =
     (let raw0 = lower_str (strip_str host);
          raw = (if startswith raw0 ''['' \<and> endswith raw0 '']'' then butlast (drop 1 raw0) else raw0) in
      raw \<in> LOOPBACK_HOSTS \<or> startswith raw ''127.'')"

definition warn_if_insecure_bind :: "string \<Rightarrow> bool \<Rightarrow> bool \<Rightarrow> bind_outcome" where
  "warn_if_insecure_bind host auth_enabled auth_refuse_insecure_bind =
     (if auth_enabled then BindSilently
      else if is_loopback_host host then BindSilently
      else if auth_refuse_insecure_bind then InsecureBindError
      else BindWarned)"

section \<open>What the role map guarantees\<close>

lemmas role_defs = INGEST_ROLES_def QUERY_ROLES_def ADMIN_ROLES_def

lemma required_roles_None: "required_roles verb path = None \<longleftrightarrow> is_exempt_path path"
  by (simp add: required_roles_def Let_def)

lemma required_roles_cases:
  "required_roles verb path = Some rs \<Longrightarrow> rs = INGEST_ROLES \<or> rs = QUERY_ROLES \<or> rs = ADMIN_ROLES"
  by (auto simp: required_roles_def Let_def split: if_splits)

lemma admin_allowed: "required_roles verb path = Some rs \<Longrightarrow> ''admin'' \<in> rs"
  by (auto simp: role_defs dest!: required_roles_cases)

lemma roles_allowed: "required_roles verb path = Some rs \<Longrightarrow> rs \<subseteq> {''ingest'', ''query'', ''admin''}"
  by (auto simp: role_defs dest!: required_roles_cases)

lemma ingest_only_posts:
  assumes "required_roles verb path = Some rs" and "''ingest'' \<in> rs"
  shows "upper_str verb = ''POST'' \<and> is_under (strip_api_version (normalize_path path)) ''/ingestions''"
  using assms by (auto simp: required_roles_def Let_def role_defs split: if_splits)

lemma query_never_posts_ingestions:
  assumes "required_roles verb path = Some rs" and "''query'' \<in> rs"
  shows "\<not> (upper_str verb = ''POST'' \<and> is_under (strip_api_version (normalize_path path)) ''/ingestions'')"
  using assms by (auto simp: required_roles_def Let_def role_defs split: if_splits)

section \<open>The version prefix\<close>

lemma sub_version_prefixed:
  assumes "ds \<noteq> []" and "list_all is_digit ds" and "rest = [] \<or> hd rest = CHR ''/''"
  shows "sub_version (''/v'' @ ds @ rest) = rest"
proof -
  have "\<not> is_digit (CHR ''/'')" by (simp add: is_digit_def)
  with assms have "takeWhile is_digit (ds @ rest) = ds" "dropWhile is_digit (ds @ rest) = rest"
    by (cases rest; simp add: takeWhile_append2 dropWhile_append2 list_all_iff takeWhile_append dropWhile_append)+
  with assms show ?thesis by (auto simp: sub_version_def startswith_def Let_def)
qed

lemma rstrip_char_append: "rstrip_char c (xs @ ys) = (if rstrip_char c ys = [] then rstrip_char c xs else xs @ rstrip_char c ys)"
  by (auto simp: rstrip_char_def dropWhile_append dropWhile_eq_Nil_conv)

lemma rstrip_char_id: "xs \<noteq> [] \<Longrightarrow> last xs \<noteq> c \<Longrightarrow> rstrip_char c xs = xs"
  by (induction xs rule: rev_induct) (auto simp: rstrip_char_def)

lemma rstrip_char_all: "rstrip_char c xs = [] \<longleftrightarrow> (\<forall>x \<in> set xs. x = c)"
  by (auto simp: rstrip_char_def dropWhile_eq_Nil_conv)

lemma rstrip_char_hd: "rstrip_char c xs \<noteq> [] \<Longrightarrow> hd (rstrip_char c xs) = hd xs"
  by (induction xs rule: rev_induct) (auto simp: rstrip_char_def hd_append split: if_splits)

lemma endswith_slash: "endswith p [c] \<longleftrightarrow> p \<noteq> [] \<and> last p = c"
  by (auto simp: endswith_iff) (metis append_butlast_last_id)

lemma strip_version_normalize:
  assumes "ds \<noteq> []" and "list_all is_digit ds" and "p \<noteq> []" and "hd p = CHR ''/''"
    and fixed: "sub_version (normalize_path p) = normalize_path p"
  shows "strip_api_version (normalize_path (''/v'' @ ds @ p)) = strip_api_version (normalize_path p)"
proof -
  let ?v = "''/v'' @ ds"
  have "is_digit (last ds)" using assms(1,2) by (simp add: list_all_iff)
  then have "last ds \<noteq> CHR ''/''" by (auto simp: is_digit_def)
  then have last_v: "rstrip_char (CHR ''/'') ?v = ?v"
    using assms(1) by (intro rstrip_char_id) auto
  have slash: "endswith (?v @ p) ''/'' \<longleftrightarrow> endswith p ''/''"
    using assms(3) by (simp add: endswith_slash)
  show ?thesis
  proof (cases "endswith p ''/''")
    case True
    then have np: "normalize_path (?v @ p) = (if rstrip_char (CHR ''/'') p = [] then ?v else ?v @ rstrip_char (CHR ''/'') p)"
      using slash last_v by (simp add: normalize_path_def rstrip_char_append [of _ ?v p, simplified])
    show ?thesis
    proof (cases "rstrip_char (CHR ''/'') p = []")
      case True
      then have "strip_api_version (normalize_path p) = ''/''"
        using assms(3,4) fixed \<open>endswith p ''/''\<close>
        by (cases p) (auto simp: strip_api_version_def normalize_path_def sub_version_def startswith_def)
      moreover have "sub_version (normalize_path (?v @ p)) = []"
        using np True sub_version_prefixed [OF assms(1,2), of "[]"] by simp
      ultimately show ?thesis by (simp add: strip_api_version_def)
    next
      case False
      have "hd (rstrip_char (CHR ''/'') p) = CHR ''/''"
        using rstrip_char_hd [OF False] assms(4) by simp
      then have "sub_version (normalize_path (?v @ p)) = rstrip_char (CHR ''/'') p"
        using np False sub_version_prefixed [OF assms(1,2)] by simp
      moreover have "normalize_path p = rstrip_char (CHR ''/'') p"
        using False True assms(3,4) by (cases p; cases "tl p") (auto simp: normalize_path_def rstrip_char_def)
      ultimately show ?thesis using fixed by (simp add: strip_api_version_def)
    qed
  next
    case False
    then have "normalize_path (?v @ p) = ?v @ p" "normalize_path p = p"
      using slash assms(3) by (simp_all add: normalize_path_def)
    then show ?thesis using fixed sub_version_prefixed [OF assms(1,2), of p] assms(4)
      by (simp add: strip_api_version_def)
  qed
qed

lemma required_roles_versioned:
  assumes "ds \<noteq> []" and "list_all is_digit ds" and "p \<noteq> []" and "hd p = CHR ''/''"
    and "sub_version (normalize_path p) = normalize_path p"
  shows "required_roles verb (''/v'' @ ds @ p) = required_roles verb p"
  using strip_version_normalize [OF assms] by (simp add: required_roles_def is_exempt_path_def Let_def)

section \<open>What the bind guard guarantees\<close>

lemma bind_guard_cases:
  "warn_if_insecure_bind host auth refuse = BindSilently \<longleftrightarrow> auth \<or> is_loopback_host host"
  "warn_if_insecure_bind host auth refuse = InsecureBindError \<longleftrightarrow> \<not> auth \<and> \<not> is_loopback_host host \<and> refuse"
  by (auto simp: warn_if_insecure_bind_def)

end
