(* ===== verification/Overrides.thy ===== *)
theory Overrides
  imports AccessRoles TimeWindows
begin

text \<open>
  \<open>api/overrides.py\<close>: the per-request tunables of the query routes, resolved with the precedence
  request, then per-key default, then server default, and the JSON object that stores the per-key
  defaults. \<open>OverrideValidationError\<close> is the typed 400 of the API; every other exception that can leave
  the resolution is kept as \<open>Escapes\<close>. Quoted inputs are left out of the messages.
\<close>

section \<open>Data\<close>

datatype override_exc =
    OverrideValidationError (ov_message: string) (ov_field: string) (ov_min: "int option") (ov_max: "int option")
  | Escapes py_error

definition MAX_CLUSTERS_MIN :: int where "MAX_CLUSTERS_MIN = 1"
definition MAX_CLUSTERS_MAX :: int where "MAX_CLUSTERS_MAX = 100"
definition MAX_EVIDENCE_ITEMS_MIN :: int where "MAX_EVIDENCE_ITEMS_MIN = 1"
definition MAX_EVIDENCE_ITEMS_MAX :: int where "MAX_EVIDENCE_ITEMS_MAX = 50"

definition LLM_PROVIDERS :: "string set" where
  "LLM_PROVIDERS = {''openai'', ''ollama'', ''claude'', ''disabled''}"

text \<open>\<open>as_dict\<close>, the body of the error response.\<close>

fun override_as_dict :: "override_exc \<Rightarrow> (string \<times> pyval) list" where
  "override_as_dict (OverrideValidationError msg fld mn mx) =
     [(''error_code'', VStr ''INVALID_OVERRIDE''), (''message'', VStr msg), (''field'', VStr fld)]
     @ (case mn of None \<Rightarrow> [] | Some i \<Rightarrow> [(''min'', VNum (IntN i))])
     @ (case mx of None \<Rightarrow> [] | Some i \<Rightarrow> [(''max'', VNum (IntN i))])"
| "override_as_dict (Escapes e) = []"

record llm_override =
  provider :: "string option"
  enabled :: "bool option"

record query_body =
  qb_baseline_window :: "string option"
  qb_max_clusters :: "int option"
  qb_max_evidence_items :: "int option"
  qb_llm :: "llm_override option"
  qb_no_llm :: "bool option"

record key_override_defaults =
  baseline_window :: "string option"
  max_clusters :: "int option"
  max_evidence_items :: "int option"
  llm_provider :: "string option"
  llm_enabled :: "bool option"

record override_input = key_override_defaults +
  no_llm :: "bool option"

record resolved_overrides =
  ro_baseline_window :: string
  ro_max_clusters :: int
  ro_max_evidence_items :: int
  ro_llm_provider :: string
  ro_llm_enabled :: bool

record tunables =
  st_default_baseline_window :: string
  st_max_clusters_for_explain :: int
  st_max_evidence_items :: int
  st_llm_provider :: string

definition cache_parts :: "resolved_overrides \<Rightarrow> (string \<times> pyval) list" where
  "cache_parts r =
     [(''baseline_window'', VStr (ro_baseline_window r)),
      (''max_clusters'', VNum (IntN (ro_max_clusters r))),
      (''max_evidence_items'', VNum (IntN (ro_max_evidence_items r))),
      (''llm_provider'', VStr (ro_llm_provider r)),
      (''llm_enabled'', VBool (ro_llm_enabled r))]"

section \<open>Validation\<close>

fun coalesce :: "'a option list \<Rightarrow> 'a option" where
  "coalesce [] = None"
| "coalesce (None # vs) = coalesce vs"
| "coalesce (Some v # vs) = Some v"

definition override_input_from_request :: "query_body \<Rightarrow> override_input" where
  "override_input_from_request request =
     \<lparr>baseline_window = qb_baseline_window request,
      max_clusters = qb_max_clusters request,
      max_evidence_items = qb_max_evidence_items request,
      llm_provider = Option.bind (qb_llm request) provider,
      llm_enabled = Option.bind (qb_llm request) enabled,
      no_llm = qb_no_llm request\<rparr>"

definition normalize_provider :: "string \<Rightarrow> string \<Rightarrow> override_exc + string" where
  "normalize_provider value fld =
     (let normalized = lower_str (strip_str value) in
      if normalized \<notin> LLM_PROVIDERS
      then Inl (OverrideValidationError ''Unknown llm.provider'' fld None None)
      else Inr normalized)"

definition parse_int_bound :: "pyval \<Rightarrow> string \<Rightarrow> int \<Rightarrow> int \<Rightarrow> override_exc + int" where
  "parse_int_bound value fld minimum maximum =
     (case value of
        VNum (IntN i) \<Rightarrow>
          if i < minimum \<or> maximum < i
          then Inl (OverrideValidationError
                 (fld @ '' must be between '' @ str_of_int minimum @ '' and '' @ str_of_int maximum) fld (Some minimum) (Some maximum))
          else Inr i
      | _ \<Rightarrow> Inl (OverrideValidationError
               (fld @ '' must be an integer between '' @ str_of_int minimum @ '' and '' @ str_of_int maximum) fld (Some minimum) (Some maximum)))"

definition parse_baseline_window :: "string \<Rightarrow> string \<Rightarrow> override_exc + string" where
  "parse_baseline_window value fld =
     (let stripped = strip_str value in
      if stripped = [] then
        Inl (OverrideValidationError ''baseline_window must be a duration like 24h or 7d'' fld None None)
      else
        (case parse_duration stripped of
           Inl (ValueError msg) \<Rightarrow> Inl (OverrideValidationError msg fld None None)
         | Inl e \<Rightarrow> Inl (Escapes e)
         | Inr _ \<Rightarrow> Inr stripped))"

definition enabled_from_layer :: "bool option \<Rightarrow> string option \<Rightarrow> bool option \<Rightarrow> bool option" where
  "enabled_from_layer en pr no =
     (if en \<noteq> None then en
      else if pr \<noteq> None then Some (pr \<noteq> Some ''disabled'')
      else map_option Not no)"

section \<open>Per-key defaults\<close>

fun as_str :: "pyval option \<Rightarrow> string option" where
  "as_str (Some (VStr s)) = Some s"
| "as_str _ = None"

fun as_int :: "pyval option \<Rightarrow> int option" where
  "as_int (Some (VNum (IntN i))) = Some i"
| "as_int _ = None"

fun as_boolean :: "pyval option \<Rightarrow> bool option" where
  "as_boolean (Some (VBool b)) = Some b"
| "as_boolean _ = None"

fun as_mapping :: "pyval option \<Rightarrow> (string \<times> pyval) list option" where
  "as_mapping (Some (VDict d)) = Some d"
| "as_mapping _ = None"

definition no_defaults :: key_override_defaults where
  "no_defaults = \<lparr>baseline_window = None, max_clusters = None, max_evidence_items = None,
     llm_provider = None, llm_enabled = None\<rparr>"

definition parse_key_config :: "pyval \<Rightarrow> key_override_defaults" where
  "parse_key_config raw =
     (case as_mapping (Some raw) of
        None \<Rightarrow> no_defaults
      | Some d \<Rightarrow>
          let llm = (case as_mapping (dget d ''llm'') of None \<Rightarrow> [] | Some l \<Rightarrow> l) in
          \<lparr>baseline_window = as_str (dget d ''baseline_window''),
           max_clusters = as_int (dget d ''max_clusters''),
           max_evidence_items = as_int (dget d ''max_evidence_items''),
           llm_provider = as_str (dget llm ''provider''),
           llm_enabled = as_boolean (dget llm ''enabled'')\<rparr>)"

text \<open>\<open>if x is not None: payload[key] = check(x)\<close>.\<close>

definition put_if ::
    "string \<Rightarrow> 'a option \<Rightarrow> ('a \<Rightarrow> 'e + pyval) \<Rightarrow> (string \<times> pyval) list \<Rightarrow> 'e + (string \<times> pyval) list" where
  "put_if key value check payload =
     (case value of None \<Rightarrow> Inr payload | Some x \<Rightarrow> rbind (check x) (\<lambda>v. Inr (dset key v payload)))"

definition checked :: "('b \<Rightarrow> pyval) \<Rightarrow> 'e + 'b \<Rightarrow> 'e + pyval" where
  "checked wrap r = rbind r (\<lambda>x. Inr (wrap x))"

definition build_key_config_json ::
    "key_override_defaults \<Rightarrow> override_exc + (string \<times> pyval) list option" where
  "build_key_config_json f =
     rbind (put_if ''baseline_window'' (baseline_window f)
        (\<lambda>w. checked VStr (parse_baseline_window w ''baseline_window'')) []) (\<lambda>payload.
     rbind (put_if ''max_clusters'' (max_clusters f)
        (\<lambda>n. checked (\<lambda>i. VNum (IntN i))
           (parse_int_bound (VNum (IntN n)) ''max_clusters'' MAX_CLUSTERS_MIN MAX_CLUSTERS_MAX)) payload) (\<lambda>payload.
     rbind (put_if ''max_evidence_items'' (max_evidence_items f)
        (\<lambda>n. checked (\<lambda>i. VNum (IntN i))
           (parse_int_bound (VNum (IntN n)) ''max_evidence_items'' MAX_EVIDENCE_ITEMS_MIN MAX_EVIDENCE_ITEMS_MAX))
        payload) (\<lambda>payload.
     rbind (put_if ''provider'' (llm_provider f)
        (\<lambda>p. checked VStr (normalize_provider p ''llm.provider'')) []) (\<lambda>llm.
     rbind (put_if ''enabled'' (llm_enabled f) (\<lambda>b. Inr (VBool b)) llm) (\<lambda>llm.
     let payload = (if llm \<noteq> [] then dset ''llm'' (VDict llm) payload else payload) in
     Inr (if payload \<noteq> [] then Some payload else None))))))"

definition none_if_empty :: "(string \<times> pyval) list \<Rightarrow> (string \<times> pyval) list option" where
  "none_if_empty d = (if d \<noteq> [] then Some d else None)"

text \<open>\<open>if key in incoming: current[key] = incoming[key]\<close>.\<close>

definition copy_key ::
    "(string \<times> pyval) list \<Rightarrow> string \<Rightarrow> (string \<times> pyval) list \<Rightarrow> (string \<times> pyval) list" where
  "copy_key incoming key current =
     (case dget incoming key of None \<Rightarrow> current | Some v \<Rightarrow> dset key v current)"

definition merge_key_config ::
    "pyval \<Rightarrow> key_override_defaults \<Rightarrow> bool \<Rightarrow> override_exc + (string \<times> pyval) list option" where
  "merge_key_config existing f clear =
     (if clear then Inr None
      else
        let current = (case as_mapping (Some existing) of None \<Rightarrow> [] | Some d \<Rightarrow> d);
            current_llm = (case as_mapping (dget current ''llm'') of None \<Rightarrow> [] | Some d \<Rightarrow> d) in
        rbind (build_key_config_json f) (\<lambda>incoming.
          (case incoming of
             None \<Rightarrow> Inr (none_if_empty current)
           | Some inc \<Rightarrow>
               let current = copy_key inc ''baseline_window'' current;
                   current = copy_key inc ''max_clusters'' current;
                   current = copy_key inc ''max_evidence_items'' current;
                   current = (case as_mapping (dget inc ''llm'') of
                                None \<Rightarrow> current
                              | Some l \<Rightarrow> dset ''llm'' (VDict (fold (\<lambda>(k, v) d. dset k v d) l current_llm)) current) in
               Inr (none_if_empty current))))"

section \<open>Resolution\<close>

text \<open>The stored value an absent or invalid \<open>config_json\<close> stands for.\<close>

definition key_layer :: "bool \<Rightarrow> auth_principal option \<Rightarrow> key_override_defaults" where
  "key_layer auth_enabled who =
     (case who of
        None \<Rightarrow> no_defaults
      | Some p \<Rightarrow>
          if auth_enabled
          then parse_key_config (case config_json p of None \<Rightarrow> VNone | Some d \<Rightarrow> VDict d)
          else no_defaults)"

definition resolve_query_overrides ::
    "override_input \<Rightarrow> auth_principal option \<Rightarrow> tunables \<Rightarrow> bool \<Rightarrow> override_exc + resolved_overrides" where
  "resolve_query_overrides request_fields who settings auth_enabled =
     (let key = key_layer auth_enabled who;
          raw_baseline = the (coalesce [baseline_window request_fields, baseline_window key,
                                        Some (st_default_baseline_window settings)]) in
      rbind (parse_baseline_window raw_baseline ''baseline_window'') (\<lambda>bw.
      let raw_clusters = the (coalesce [max_clusters request_fields, max_clusters key,
                                        Some (st_max_clusters_for_explain settings)]) in
      rbind (parse_int_bound (VNum (IntN raw_clusters)) ''max_clusters'' MAX_CLUSTERS_MIN MAX_CLUSTERS_MAX) (\<lambda>mc.
      let raw_evidence = the (coalesce [max_evidence_items request_fields, max_evidence_items key,
                                        Some (st_max_evidence_items settings)]) in
      rbind (parse_int_bound (VNum (IntN raw_evidence)) ''max_evidence_items''
               MAX_EVIDENCE_ITEMS_MIN MAX_EVIDENCE_ITEMS_MAX) (\<lambda>me.
      let raw_provider = the (coalesce [llm_provider request_fields, llm_provider key,
                                        Some (st_llm_provider settings)]) in
      rbind (normalize_provider raw_provider ''llm.provider'') (\<lambda>pr.
      let request_enabled = enabled_from_layer (llm_enabled request_fields) (llm_provider request_fields)
                              (no_llm request_fields);
          key_enabled = enabled_from_layer (llm_enabled key) (llm_provider key) None;
          server_enabled = (st_llm_provider settings \<noteq> ''disabled'');
          enabled_flag = the (coalesce [request_enabled, key_enabled, Some server_enabled]) in
      Inr \<lparr>ro_baseline_window = bw, ro_max_clusters = mc, ro_max_evidence_items = me,
           ro_llm_provider = pr, ro_llm_enabled = (enabled_flag \<and> pr \<noteq> ''disabled'')\<rparr>)))))"

definition resolve_overrides_from_http ::
    "auth_principal option \<Rightarrow> query_body \<Rightarrow> tunables \<Rightarrow> bool \<Rightarrow> override_exc + resolved_overrides" where
  "resolve_overrides_from_http who body settings auth_enabled =
     resolve_query_overrides (override_input_from_request body) who settings auth_enabled"

definition settings_with_overrides :: "tunables \<Rightarrow> resolved_overrides \<Rightarrow> tunables" where
  "settings_with_overrides settings ov =
     settings\<lparr>st_default_baseline_window := ro_baseline_window ov,
              st_max_clusters_for_explain := ro_max_clusters ov,
              st_max_evidence_items := ro_max_evidence_items ov,
              st_llm_provider := ro_llm_provider ov\<rparr>"

section \<open>Each layer\<close>

text \<open>The first layer that has a value, from the request down to the server.\<close>

definition first_layer :: "'a option \<Rightarrow> 'a option \<Rightarrow> 'a \<Rightarrow> 'a" where
  "first_layer request key server = (case request of Some x \<Rightarrow> x | None \<Rightarrow> case_option server (\<lambda>x. x) key)"

lemma coalesce_first_layer [simp]: "the (coalesce [a, b, Some c]) = first_layer a b c"
  by (simp add: first_layer_def split: option.splits)

lemma first_layer_simps [simp]: "first_layer (Some x) b c = x" "first_layer None (Some y) c = y" "first_layer None None c = c"
  by (simp_all add: first_layer_def)

lemma parse_int_bound_Inr:
  "parse_int_bound (VNum (IntN i)) fld lo hi = Inr j \<longleftrightarrow> j = i \<and> lo \<le> i \<and> i \<le> hi"
  by (auto simp: parse_int_bound_def)

lemma normalize_provider_Inr:
  "normalize_provider v fld = Inr p \<longleftrightarrow> p = lower_str (strip_str v) \<and> p \<in> LLM_PROVIDERS"
  by (auto simp: normalize_provider_def Let_def)

lemma parse_baseline_window_Inr:
  "parse_baseline_window v fld = Inr w \<longleftrightarrow> w = strip_str v \<and> w \<noteq> [] \<and> (\<exists>d. parse_duration w = Inr d)"
  by (auto simp: parse_baseline_window_def Let_def split: sum.splits py_error.splits)

lemma parse_baseline_window_escapes:
  "parse_baseline_window v fld = Inl (Escapes e) \<longleftrightarrow>
     strip_str v \<noteq> [] \<and> e = OverflowError \<and> parse_duration (strip_str v) = Inl OverflowError"
  using parse_duration_errors [of "strip_str v"]
  by (auto simp: parse_baseline_window_def Let_def split: sum.splits py_error.splits)

lemma validation_never_escapes:
  "parse_int_bound v fld lo hi \<noteq> Inl (Escapes e)"
  "normalize_provider s fld \<noteq> Inl (Escapes e)"
  by (auto simp: parse_int_bound_def normalize_provider_def Let_def split: pyval.splits pynum.splits)

lemmas layer_simps = parse_int_bound_Inr normalize_provider_Inr parse_baseline_window_Inr

section \<open>Precedence and bounds\<close>

definition overrides_ok :: "resolved_overrides \<Rightarrow> bool" where
  "overrides_ok r \<longleftrightarrow>
     (\<exists>d. parse_duration (ro_baseline_window r) = Inr d)
     \<and> 1 \<le> ro_max_clusters r \<and> ro_max_clusters r \<le> 100
     \<and> 1 \<le> ro_max_evidence_items r \<and> ro_max_evidence_items r \<le> 50
     \<and> ro_llm_provider r \<in> LLM_PROVIDERS
     \<and> (ro_llm_enabled r \<longrightarrow> ro_llm_provider r \<noteq> ''disabled'')"

lemma resolve_query_overrides_Inr:
  "resolve_query_overrides req who st auth = Inr r \<longleftrightarrow>
     (let key = key_layer auth who;
          bw = strip_str (first_layer (baseline_window req) (baseline_window key) (st_default_baseline_window st));
          mc = first_layer (max_clusters req) (max_clusters key) (st_max_clusters_for_explain st);
          me = first_layer (max_evidence_items req) (max_evidence_items key) (st_max_evidence_items st);
          pr = lower_str (strip_str (first_layer (llm_provider req) (llm_provider key) (st_llm_provider st)));
          en = first_layer (enabled_from_layer (llm_enabled req) (llm_provider req) (no_llm req))
                 (enabled_from_layer (llm_enabled key) (llm_provider key) None)
                 (st_llm_provider st \<noteq> ''disabled'') in
      r = \<lparr>ro_baseline_window = bw, ro_max_clusters = mc, ro_max_evidence_items = me,
           ro_llm_provider = pr, ro_llm_enabled = (en \<and> pr \<noteq> ''disabled'')\<rparr>
      \<and> bw \<noteq> [] \<and> overrides_ok r)"
  by (auto simp: resolve_query_overrides_def Let_def res_simps layer_simps overrides_ok_def
      MAX_CLUSTERS_MIN_def MAX_CLUSTERS_MAX_def MAX_EVIDENCE_ITEMS_MIN_def MAX_EVIDENCE_ITEMS_MAX_def)

lemma resolve_query_overrides_escapes:
  "resolve_query_overrides req who st auth = Inl (Escapes e) \<longleftrightarrow>
     (let w = strip_str (first_layer (baseline_window req) (baseline_window (key_layer auth who))
                (st_default_baseline_window st)) in
      w \<noteq> [] \<and> e = OverflowError \<and> parse_duration w = Inl OverflowError)"
  by (auto simp: resolve_query_overrides_def Let_def res_simps parse_baseline_window_escapes
      validation_never_escapes)

section \<open>Stored defaults\<close>

definition config_of :: "(string \<times> pyval) list option \<Rightarrow> pyval" where
  "config_of c = (case c of None \<Rightarrow> VNone | Some d \<Rightarrow> VDict d)"

definition overlay :: "key_override_defaults \<Rightarrow> key_override_defaults \<Rightarrow> key_override_defaults" where
  "overlay f old =
     \<lparr>baseline_window = (case baseline_window f of None \<Rightarrow> baseline_window old | Some w \<Rightarrow> Some (strip_str w)),
      max_clusters = (case max_clusters f of None \<Rightarrow> max_clusters old | n \<Rightarrow> n),
      max_evidence_items = (case max_evidence_items f of None \<Rightarrow> max_evidence_items old | n \<Rightarrow> n),
      llm_provider = (case llm_provider f of None \<Rightarrow> llm_provider old | Some p \<Rightarrow> Some (lower_str (strip_str p))),
      llm_enabled = (case llm_enabled f of None \<Rightarrow> llm_enabled old | b \<Rightarrow> b)\<rparr>"

definition llm_part :: "key_override_defaults \<Rightarrow> (string \<times> pyval) list" where
  "llm_part f =
     (case llm_provider f of None \<Rightarrow> [] | Some p \<Rightarrow> [(''provider'', VStr (lower_str (strip_str p)))])
     @ (case llm_enabled f of None \<Rightarrow> [] | Some b \<Rightarrow> [(''enabled'', VBool b)])"

lemma build_key_config_json_Inr:
  assumes "build_key_config_json f = Inr inc"
  shows "inc = none_if_empty
     ((case baseline_window f of None \<Rightarrow> [] | Some w \<Rightarrow> [(''baseline_window'', VStr (strip_str w))])
      @ (case max_clusters f of None \<Rightarrow> [] | Some n \<Rightarrow> [(''max_clusters'', VNum (IntN n))])
      @ (case max_evidence_items f of None \<Rightarrow> [] | Some n \<Rightarrow> [(''max_evidence_items'', VNum (IntN n))])
      @ (if llm_part f = [] then [] else [(''llm'', VDict (llm_part f))]))"
  using assms
  by (auto simp: build_key_config_json_def put_if_def checked_def res_simps layer_simps llm_part_def
      none_if_empty_def Let_def split: option.splits if_splits)

lemma dget_copy_key: "dget (copy_key inc k cur) k' = (if k' = k \<and> dget inc k \<noteq> None then dget inc k else dget cur k')"
  by (auto simp: copy_key_def split: option.splits)

lemma build_key_config_json_lookup:
  assumes "build_key_config_json f = Inr inc"
  obtains I where "inc = none_if_empty I"
    and "dget I ''baseline_window'' = map_option (\<lambda>w. VStr (strip_str w)) (baseline_window f)"
    and "dget I ''max_clusters'' = map_option (\<lambda>n. VNum (IntN n)) (max_clusters f)"
    and "dget I ''max_evidence_items'' = map_option (\<lambda>n. VNum (IntN n)) (max_evidence_items f)"
    and "dget I ''llm'' = (if llm_part f = [] then None else Some (VDict (llm_part f)))"
  by (rule that [OF build_key_config_json_Inr [OF assms]])
    (simp_all add: map_add_def split: option.splits)

lemma dget_fold_llm_part:
  "dget (fold (\<lambda>(k, v) d. dset k v d) (llm_part f) l) k =
     (if k = ''provider'' \<and> llm_provider f \<noteq> None
      then map_option (\<lambda>p. VStr (lower_str (strip_str p))) (llm_provider f)
      else if k = ''enabled'' \<and> llm_enabled f \<noteq> None then map_option VBool (llm_enabled f) else dget l k)"
  by (auto simp: llm_part_def split: option.splits)

lemma merge_key_config_lookup:
  assumes "merge_key_config existing f False = Inr stored"
    and "cur = (case as_mapping (Some existing) of None \<Rightarrow> [] | Some d \<Rightarrow> d)"
    and "cur_llm = (case as_mapping (dget cur ''llm'') of None \<Rightarrow> [] | Some d \<Rightarrow> d)"
  obtains d where "stored = none_if_empty d"
    and "dget d ''baseline_window'' = (case baseline_window f of None \<Rightarrow> dget cur ''baseline_window'' | Some w \<Rightarrow> Some (VStr (strip_str w)))"
    and "dget d ''max_clusters'' = (case max_clusters f of None \<Rightarrow> dget cur ''max_clusters'' | Some n \<Rightarrow> Some (VNum (IntN n)))"
    and "dget d ''max_evidence_items'' = (case max_evidence_items f of None \<Rightarrow> dget cur ''max_evidence_items'' | Some n \<Rightarrow> Some (VNum (IntN n)))"
    and "dget d ''llm'' = (if llm_part f = [] then dget cur ''llm'' else Some (VDict (fold (\<lambda>(k, v) d. dset k v d) (llm_part f) cur_llm)))"
proof -
  obtain inc where inc: "build_key_config_json f = Inr inc"
    using assms(1) by (auto simp: merge_key_config_def Let_def res_simps)
  from inc obtain I where I: "inc = none_if_empty I"
    "dget I ''baseline_window'' = map_option (\<lambda>w. VStr (strip_str w)) (baseline_window f)"
    "dget I ''max_clusters'' = map_option (\<lambda>n. VNum (IntN n)) (max_clusters f)"
    "dget I ''max_evidence_items'' = map_option (\<lambda>n. VNum (IntN n)) (max_evidence_items f)"
    "dget I ''llm'' = (if llm_part f = [] then None else Some (VDict (llm_part f)))"
    by (rule build_key_config_json_lookup)
  define c where "c = copy_key I ''max_evidence_items'' (copy_key I ''max_clusters'' (copy_key I ''baseline_window'' cur))"
  have "stored = none_if_empty (if llm_part f = [] then c
      else dset ''llm'' (VDict (fold (\<lambda>(k, v) d. dset k v d) (llm_part f) cur_llm)) c)"
  proof (cases I)
    case Nil
    then have "llm_part f = []" using I(5) by (simp split: if_splits)
    moreover have "c = cur" by (simp add: c_def copy_key_def Nil)
    ultimately show ?thesis
      using assms(1) by (simp add: merge_key_config_def inc I(1) Nil assms(2) none_if_empty_def [of "[]"])
  next
    case (Cons a b)
    then have "inc = Some I" by (simp add: I(1) none_if_empty_def)
    with assms(1) I(5) show ?thesis
      by (simp add: merge_key_config_def inc c_def assms(2,3) Let_def split: if_splits)
  qed
  then show ?thesis
    by (rule that) (simp_all add: c_def dget_copy_key I split: option.splits)
qed

lemma parse_key_config_stored:
  "parse_key_config (config_of (none_if_empty d)) =
     (let l = (case as_mapping (dget d ''llm'') of None \<Rightarrow> [] | Some l \<Rightarrow> l) in
      \<lparr>baseline_window = as_str (dget d ''baseline_window''), max_clusters = as_int (dget d ''max_clusters''),
       max_evidence_items = as_int (dget d ''max_evidence_items''),
       llm_provider = as_str (dget l ''provider''), llm_enabled = as_boolean (dget l ''enabled'')\<rparr>)"
  by (simp add: parse_key_config_def config_of_def none_if_empty_def no_defaults_def Let_def)

lemma parse_key_config_mapping:
  "parse_key_config existing = parse_key_config (config_of (none_if_empty (case as_mapping (Some existing) of None \<Rightarrow> [] | Some d \<Rightarrow> d)))"
  by (simp add: parse_key_config_def config_of_def none_if_empty_def no_defaults_def Let_def split: option.splits)

lemma merge_key_config_layers:
  assumes "merge_key_config existing f False = Inr stored"
  shows "parse_key_config (config_of stored) = overlay f (parse_key_config existing)"
proof -
  define cur where "cur = (case as_mapping (Some existing) of None \<Rightarrow> [] | Some d \<Rightarrow> d)"
  define cur_llm where "cur_llm = (case as_mapping (dget cur ''llm'') of None \<Rightarrow> [] | Some d \<Rightarrow> d)"
  from assms cur_def cur_llm_def show ?thesis
  proof (rule merge_key_config_lookup)
    fix d
    assume d: "stored = none_if_empty d"
      "dget d ''baseline_window'' = (case baseline_window f of None \<Rightarrow> dget cur ''baseline_window'' | Some w \<Rightarrow> Some (VStr (strip_str w)))"
      "dget d ''max_clusters'' = (case max_clusters f of None \<Rightarrow> dget cur ''max_clusters'' | Some n \<Rightarrow> Some (VNum (IntN n)))"
      "dget d ''max_evidence_items'' = (case max_evidence_items f of None \<Rightarrow> dget cur ''max_evidence_items'' | Some n \<Rightarrow> Some (VNum (IntN n)))"
    assume llm: "dget d ''llm'' = (if llm_part f = [] then dget cur ''llm'' else Some (VDict (fold (\<lambda>(k, v) d. dset k v d) (llm_part f) cur_llm)))"
    have "(case as_mapping (dget d ''llm'') of None \<Rightarrow> [] | Some l \<Rightarrow> l) = fold (\<lambda>(k, v) d. dset k v d) (llm_part f) cur_llm"
      by (simp add: llm cur_llm_def)
    moreover have "parse_key_config existing = parse_key_config (config_of (none_if_empty cur))"
      unfolding cur_def by (rule parse_key_config_mapping)
    ultimately show ?thesis
      by (simp add: parse_key_config_stored d overlay_def dget_fold_llm_part Let_def flip: cur_llm_def split: option.splits)
  qed
qed

section \<open>Properties of the overrides\<close>

definition no_request :: override_input where
  "no_request = \<lparr>baseline_window = None, max_clusters = None, max_evidence_items = None,
     llm_provider = None, llm_enabled = None, no_llm = None\<rparr>"

lemma lower_char_idem [simp]: "lower_char (lower_char c) = lower_char c"
  by (auto simp: lower_char_def Let_def)

lemma provider_fixed: "p \<in> LLM_PROVIDERS \<Longrightarrow> lower_str (strip_str p) = p"
  by (auto simp: LLM_PROVIDERS_def lower_str_def lower_char_def strip_str_def lstrip_str_def rstrip_str_def is_space_def)

lemma resolve_again:
  assumes "resolve_query_overrides req who st auth = Inr r"
  shows "resolve_query_overrides no_request None (settings_with_overrides st r) auth
    = Inr (r\<lparr>ro_llm_enabled := (ro_llm_provider r \<noteq> ''disabled'')\<rparr>)"
proof -
  have w: "strip_str (ro_baseline_window r) = ro_baseline_window r" "ro_baseline_window r \<noteq> []"
    and ok: "overrides_ok r"
    using assms by (auto simp: resolve_query_overrides_Inr Let_def)
  from ok have "lower_str (strip_str (ro_llm_provider r)) = ro_llm_provider r"
    by (simp add: overrides_ok_def provider_fixed)
  with w ok show ?thesis
    by (auto simp: resolve_query_overrides_Inr Let_def no_request_def key_layer_def no_defaults_def
        settings_with_overrides_def enabled_from_layer_def overrides_ok_def)
qed

lemma resolve_error_field:
  assumes "resolve_query_overrides req who st auth = Inl (OverrideValidationError m fld mn mx)"
  shows "fld \<in> {''baseline_window'', ''max_clusters'', ''max_evidence_items'', ''llm.provider''}"
  using assms
  by (auto simp: resolve_query_overrides_def Let_def res_simps parse_baseline_window_def parse_int_bound_def
      normalize_provider_def split: if_splits sum.splits py_error.splits)


text \<open>
  Storing per-key defaults and reading them back: after merging new defaults into whatever object
  the key had, the stored object parses to exactly the new values (normalised) where given and the old
  ones elsewhere, so no field is lost or shadowed, including within the nested \<open>llm\<close> object.
\<close>

theorem merge_key_config_roundtrip:
  assumes "merge_key_config existing f False = Inr stored"
  shows "parse_key_config (config_of stored) = overlay f (parse_key_config existing)"
  using assms by (rule merge_key_config_layers)

theorem merge_key_config_roundtrip_witness:
  "parse_key_config (config_of (Some [(''llm'', VDict [(''provider'', VStr ''ollama''), (''enabled'', VBool False)]), (''max_clusters'', VNum (IntN 7))]))
   = overlay (no_defaults\<lparr>max_clusters := Some 7, llm_enabled := Some False\<rparr>)
       (parse_key_config (VDict [(''llm'', VDict [(''provider'', VStr ''ollama'')])]))"
  by (rule merge_key_config_roundtrip)
    (simp add: merge_key_config_def build_key_config_json_def put_if_def checked_def no_defaults_def parse_int_bound_def
      MAX_CLUSTERS_MIN_def MAX_CLUSTERS_MAX_def copy_key_def none_if_empty_def)

text \<open>A window that parses but does not fit leaves the resolution as an \<open>OverflowError\<close>.\<close>

lemma overlong_window_escapes:
  "resolve_query_overrides (no_request\<lparr>baseline_window := Some ''9999999999d''\<rparr>) None st auth = Inl (Escapes OverflowError)"
  using overlong_duration
  by (simp add: resolve_query_overrides_escapes Let_def no_request_def key_layer_def no_defaults_def
      strip_str_def lstrip_str_def rstrip_str_def is_space_def)

text \<open>A stored default outside its bounds is not ignored: it refuses every query of that key.\<close>

lemma stored_out_of_bounds_refused:
  assumes "config_json p = Some [(''max_clusters'', VNum (IntN 500))]" and "max_clusters req = None"
  shows "\<nexists>r. resolve_query_overrides req (Some p) st True = Inr r"
  using assms
  by (simp add: resolve_query_overrides_Inr Let_def key_layer_def parse_key_config_def overrides_ok_def)

end
