(* ===== verification/ApiKeys.thy ===== *)
theory ApiKeys
  imports Overrides
begin

text \<open>
  \<open>api/auth/keys.py\<close>: hashed API keys and their table. The table \<open>api_keys\<close> is the list of its rows in
  the order a query returns them; one transaction is one function from table to table. The password
  hasher is third-party: \<open>hsh salt token\<close> and \<open>vfy key_hash token\<close> are parameters, and \<open>argon2_ok\<close> states
  what its documentation promises. Random secrets, row ids and the clock are arguments of the
  operations that draw them. The life of the table is the step relation \<open>key_step\<close>.
\<close>

section \<open>Data\<close>

record api_key_row =
  row_id :: string
  row_name :: "string option"
  row_key_prefix :: string
  row_key_hash :: string
  row_role :: string
  row_scope :: string
  row_allow_scope_override :: bool
  row_webhook_secret :: "string option"
  row_config_json :: "(string \<times> pyval) list option"
  row_revoked_at :: "int option"
  row_created_at :: int

record api_key_info =
  info_id :: string
  info_name :: "string option"
  info_key_prefix :: string
  info_role :: string
  info_scope :: string
  info_revoked_at :: "int option"
  info_created_at :: int
  info_webhook_secret_preview :: "string option"
  info_allow_scope_override :: bool
  info_config_json :: "(string \<times> pyval) list option"

record api_key_record =
  rec_id :: string
  rec_name :: "string option"
  rec_key_prefix :: string
  rec_key_hash :: string
  rec_role :: string
  rec_scope :: string
  rec_revoked_at :: "int option"
  rec_created_at :: int
  rec_allow_scope_override :: bool
  rec_config_json :: "(string \<times> pyval) list option"

type_synonym key_table = "api_key_row list"

definition VALID_ROLES :: "string set" where
  "VALID_ROLES = {''ingest'', ''query'', ''admin''}"

section \<open>Tokens and hashes\<close>

definition generate_api_key :: "string \<Rightarrow> string" where
  "generate_api_key secret = ''rlk_'' @ secret"

definition generate_webhook_secret :: "string \<Rightarrow> string" where
  "generate_webhook_secret secret = ''whsec_'' @ secret"

definition mask_webhook_secret :: "string option \<Rightarrow> string option" where
  "mask_webhook_secret secret =
     (case secret of None \<Rightarrow> None | Some s \<Rightarrow> if s = [] then None else Some ''whsec_****'')"

definition key_prefix :: "string \<Rightarrow> string" where
  "key_prefix token = take 12 token"

datatype verify_outcome =
    Verified bool
  | VerifyMismatchError
  | InvalidHashError
  | VerifyTypeError
  | VerifyValueError
  | OtherVerifyError

text \<open>Exceptions outside the caught four leave \<open>verify_api_key\<close>.\<close>

fun verify_api_key :: "(string \<Rightarrow> string \<Rightarrow> verify_outcome) \<Rightarrow> string \<Rightarrow> string \<Rightarrow> verify_outcome + bool" where
  "verify_api_key vfy token key_hash =
     (case vfy key_hash token of
        Verified b \<Rightarrow> Inr b
      | OtherVerifyError \<Rightarrow> Inl OtherVerifyError
      | _ \<Rightarrow> Inr False)"

fun find_verified_key ::
    "(string \<Rightarrow> string \<Rightarrow> verify_outcome) \<Rightarrow> string \<Rightarrow> api_key_record list \<Rightarrow> verify_outcome + api_key_record option" where
  "find_verified_key vfy token [] = Inr None"
| "find_verified_key vfy token (candidate # rest) =
     (if rec_revoked_at candidate \<noteq> None then find_verified_key vfy token rest
      else if rec_key_prefix candidate \<noteq> key_prefix token then find_verified_key vfy token rest
      else rbind (verify_api_key vfy token (rec_key_hash candidate)) (\<lambda>ok.
        if ok then Inr (Some candidate) else find_verified_key vfy token rest))"

section \<open>Operations on the table\<close>

definition record_of_row :: "api_key_row \<Rightarrow> api_key_record" where
  "record_of_row row =
     \<lparr>rec_id = row_id row, rec_name = row_name row, rec_key_prefix = row_key_prefix row,
      rec_key_hash = row_key_hash row, rec_role = row_role row, rec_scope = row_scope row,
      rec_revoked_at = row_revoked_at row, rec_created_at = row_created_at row,
      rec_allow_scope_override = row_allow_scope_override row, rec_config_json = row_config_json row\<rparr>"

definition lookup_api_key ::
    "(string \<Rightarrow> string \<Rightarrow> verify_outcome) \<Rightarrow> key_table \<Rightarrow> string \<Rightarrow> verify_outcome + api_key_record option" where
  "lookup_api_key vfy table token =
     (let prefix = key_prefix token;
          rows = filter (\<lambda>row. row_key_prefix row = prefix \<and> row_revoked_at row = None) table in
      find_verified_key vfy token (map record_of_row rows))"

definition key_info :: "api_key_row \<Rightarrow> api_key_info" where
  "key_info row =
     \<lparr>info_id = row_id row, info_name = row_name row, info_key_prefix = row_key_prefix row,
      info_role = row_role row, info_scope = row_scope row, info_revoked_at = row_revoked_at row,
      info_created_at = row_created_at row,
      info_webhook_secret_preview = mask_webhook_secret (row_webhook_secret row),
      info_allow_scope_override = row_allow_scope_override row, info_config_json = row_config_json row\<rparr>"

record key_request =
  kr_role :: string
  kr_scope :: string
  kr_name :: "string option"
  kr_allow_scope_override :: bool
  kr_config_json :: "(string \<times> pyval) list option"

text \<open>What the operation draws from outside: two secrets, the hash salt, the row id and the clock.\<close>

record key_draw =
  kd_secret :: string
  kd_webhook :: string
  kd_salt :: nat
  kd_id :: string
  kd_now :: int

definition persist_key ::
    "(nat \<Rightarrow> string \<Rightarrow> string) \<Rightarrow> key_request \<Rightarrow> key_draw \<Rightarrow> string \<Rightarrow> string \<Rightarrow> key_table \<Rightarrow> key_table \<times> api_key_info" where
  "persist_key hsh req draw plaintext webhook_secret table =
     (let row = \<lparr>row_id = kd_id draw, row_name = kr_name req, row_key_prefix = key_prefix plaintext,
                 row_key_hash = hsh (kd_salt draw) plaintext, row_role = kr_role req, row_scope = kr_scope req,
                 row_allow_scope_override = kr_allow_scope_override req,
                 row_webhook_secret = Some webhook_secret, row_config_json = kr_config_json req,
                 row_revoked_at = None, row_created_at = kd_now draw\<rparr> in
      (table @ [row], key_info row))"

definition create_api_key ::
    "(nat \<Rightarrow> string \<Rightarrow> string) \<Rightarrow> key_request \<Rightarrow> key_draw \<Rightarrow> key_table \<Rightarrow>
     (key_table \<times> string \<times> string \<times> api_key_info) res" where
  "create_api_key hsh req draw table =
     (if kr_role req \<notin> VALID_ROLES then Inl (ValueError ''role must be one of [admin, ingest, query]'')
      else if kr_scope req = [] then Inl (ValueError ''scope must be a non-empty string'')
      else
        let plaintext = generate_api_key (kd_secret draw);
            webhook_secret = generate_webhook_secret (kd_webhook draw);
            (table', info) = persist_key hsh req draw plaintext webhook_secret table in
        Inr (table', plaintext, webhook_secret, info))"

definition list_api_keys :: "key_table \<Rightarrow> api_key_info list" where
  "list_api_keys table = map key_info (sort_key (\<lambda>row. - row_created_at row) table)"

definition get_row :: "key_table \<Rightarrow> string \<Rightarrow> api_key_row option" where
  "get_row table key = find (\<lambda>row. row_id row = key) table"

definition put_row :: "api_key_row \<Rightarrow> key_table \<Rightarrow> key_table" where
  "put_row row table = map (\<lambda>r. if row_id r = row_id row then row else r) table"

definition revoke_api_key :: "int \<Rightarrow> string \<Rightarrow> key_table \<Rightarrow> key_table \<times> api_key_info option" where
  "revoke_api_key now key table =
     (case get_row table key of
        None \<Rightarrow> (table, None)
      | Some row \<Rightarrow>
          let row = (if row_revoked_at row = None then row\<lparr>row_revoked_at := Some now\<rparr> else row) in
          (put_row row table, Some (key_info row)))"

definition set_api_key_defaults ::
    "string \<Rightarrow> key_override_defaults \<Rightarrow> bool \<Rightarrow> key_table \<Rightarrow> override_exc + (key_table \<times> api_key_info option)" where
  "set_api_key_defaults key f clear table =
     (case get_row table key of
        None \<Rightarrow> Inr (table, None)
      | Some row \<Rightarrow>
          rbind (merge_key_config (config_of (row_config_json row)) f clear) (\<lambda>c.
            let row = row\<lparr>row_config_json := c\<rparr> in Inr (put_row row table, Some (key_info row))))"

section \<open>The life of the table\<close>

text \<open>A new id never repeats one of the table: it is the primary key.\<close>

inductive key_step :: "(nat \<Rightarrow> string \<Rightarrow> string) \<Rightarrow> key_table \<Rightarrow> key_table \<Rightarrow> bool" for hsh where
  create: "create_api_key hsh req draw t = Inr (t', tok, wh, info) \<Longrightarrow> kd_id draw \<notin> row_id ` set t \<Longrightarrow> key_step hsh t t'"
| revoke: "revoke_api_key now key t = (t', info) \<Longrightarrow> key_step hsh t t'"
| defaults: "set_api_key_defaults key f clear t = Inr (t', info) \<Longrightarrow> key_step hsh t t'"

inductive_cases key_step_cases: "key_step hsh t t'"

definition argon2_ok :: "(nat \<Rightarrow> string \<Rightarrow> string) \<Rightarrow> (string \<Rightarrow> string \<Rightarrow> verify_outcome) \<Rightarrow> bool" where
  "argon2_ok hsh vfy \<longleftrightarrow>
     (\<forall>salt t t'. vfy (hsh salt t) t' = (if t' = t then Verified True else VerifyMismatchError))"

definition row_ok :: "(nat \<Rightarrow> string \<Rightarrow> string) \<Rightarrow> api_key_row \<Rightarrow> bool" where
  "row_ok hsh row \<longleftrightarrow>
     row_role row \<in> VALID_ROLES \<and> row_scope row \<noteq> []
     \<and> (\<exists>salt secret. row_key_hash row = hsh salt (generate_api_key secret)
          \<and> row_key_prefix row = key_prefix (generate_api_key secret))"

definition table_ok :: "(nat \<Rightarrow> string \<Rightarrow> string) \<Rightarrow> key_table \<Rightarrow> bool" where
  "table_ok hsh t \<longleftrightarrow> distinct (map row_id t) \<and> list_all (row_ok hsh) t"

lemma get_row_Some: "get_row t k = Some r \<Longrightarrow> r \<in> set t \<and> row_id r = k"
  by (auto simp: get_row_def find_Some_iff)

lemma get_row_None: "get_row t k = None \<longleftrightarrow> k \<notin> row_id ` set t"
  by (auto simp: get_row_def find_None_iff)

lemma put_row_ids [simp]: "map row_id (put_row r t) = map row_id t"
  by (simp add: put_row_def)

lemma put_row_id_set [simp]: "row_id ` set (put_row r t) = row_id ` set t"
  using put_row_ids [of r t] by (metis set_map)

lemma put_row_set: "r' \<in> set (put_row r t) \<Longrightarrow> r' = r \<or> r' \<in> set t"
  by (auto simp: put_row_def split: if_splits)

lemma put_row_ok: "table_ok hsh t \<Longrightarrow> row_ok hsh r \<Longrightarrow> table_ok hsh (put_row r t)"
  by (auto simp: table_ok_def list_all_iff dest: put_row_set)

lemma get_row_ok: "table_ok hsh t \<Longrightarrow> get_row t k = Some r \<Longrightarrow> row_ok hsh r"
  by (auto simp: table_ok_def list_all_iff dest: get_row_Some)

lemma create_Inr:
  assumes "create_api_key hsh req draw t = Inr (t', tok, wh, info)"
  obtains row where "t' = t @ [row]" "info = key_info row" "tok = generate_api_key (kd_secret draw)"
    "row_id row = kd_id draw" "row_role row = kr_role req" "row_scope row = kr_scope req"
    "row_key_hash row = hsh (kd_salt draw) tok" "row_key_prefix row = key_prefix tok"
    "row_revoked_at row = None" "row_ok hsh row"
    "row_allow_scope_override row = kr_allow_scope_override req" "row_config_json row = kr_config_json req"
  using assms
  by (auto simp: create_api_key_def persist_key_def row_ok_def Let_def split: if_splits) blast

lemma key_step_ok: "key_step hsh t t' \<Longrightarrow> table_ok hsh t \<Longrightarrow> table_ok hsh t'"
proof (induction rule: key_step.induct)
  case (create req draw t t' tok wh info)
  from create(1) show ?case
    by (rule create_Inr) (use create in \<open>auto simp: table_ok_def\<close>)
next
  case (revoke now key t t' info)
  show ?case
  proof (cases "get_row t key")
    case (Some r)
    then have "row_ok hsh r" using revoke by (auto intro: get_row_ok)
    then have "row_ok hsh (r\<lparr>row_revoked_at := x\<rparr>)" for x by (simp add: row_ok_def)
    with Some revoke \<open>row_ok hsh r\<close> show ?thesis
      by (auto simp: revoke_api_key_def Let_def put_row_ok split: if_splits)
  qed (use revoke in \<open>simp add: revoke_api_key_def\<close>)
next
  case (defaults key f clear t t' info)
  show ?case
  proof (cases "get_row t key")
    case (Some r)
    then have "row_ok hsh r" using defaults by (auto intro: get_row_ok)
    then have "row_ok hsh (r\<lparr>row_config_json := x\<rparr>)" for x by (simp add: row_ok_def)
    with Some defaults show ?thesis
      by (auto simp: set_api_key_defaults_def Let_def res_simps put_row_ok)
  qed (use defaults in \<open>simp add: set_api_key_defaults_def\<close>)
qed

lemma reachable_table_ok: "(key_step hsh)\<^sup>*\<^sup>* [] t \<Longrightarrow> table_ok hsh t"
  by (induction rule: rtranclp_induct) (auto simp: table_ok_def [of _ "[]"] intro: key_step_ok)

section \<open>Lookup\<close>

definition live :: "(string \<Rightarrow> string \<Rightarrow> verify_outcome) \<Rightarrow> string \<Rightarrow> api_key_row \<Rightarrow> bool" where
  "live vfy token row \<longleftrightarrow>
     row_revoked_at row = None \<and> row_key_prefix row = key_prefix token \<and> vfy (row_key_hash row) token = Verified True"

lemma row_ok_verify:
  "argon2_ok hsh vfy \<Longrightarrow> row_ok hsh row \<Longrightarrow> vfy (row_key_hash row) token = Verified True \<or> vfy (row_key_hash row) token = VerifyMismatchError"
  by (auto simp: argon2_ok_def row_ok_def split: if_splits)

lemma lookup_find:
  assumes "argon2_ok hsh vfy" and "list_all (row_ok hsh) t"
  shows "lookup_api_key vfy t token = Inr (map_option record_of_row (find (live vfy token) t))"
  using assms(2)
proof (induction t)
  case Nil
  then show ?case by (simp add: lookup_api_key_def)
next
  case (Cons row t)
  then have IH: "lookup_api_key vfy t token = Inr (map_option record_of_row (find (live vfy token) t))"
    and "row_ok hsh row" by simp_all
  then have "vfy (row_key_hash row) token = Verified True \<or> vfy (row_key_hash row) token = VerifyMismatchError"
    using row_ok_verify [OF assms(1)] by blast
  moreover have "lookup_api_key vfy (row # t) token =
      (if live vfy token row then Inr (Some (record_of_row row)) else lookup_api_key vfy t token)"
    using calculation by (auto simp: lookup_api_key_def live_def Let_def) (simp_all add: record_of_row_def)
  ultimately show ?case using IH by simp
qed

lemmas lookup_reachable = lookup_find [OF _ reachable_table_ok [unfolded table_ok_def, THEN conjunct2]]

lemma find_live: "find (live vfy token) t = Some r \<Longrightarrow> r \<in> set t \<and> live vfy token r"
  by (auto simp: find_Some_iff)

section \<open>Revocation is permanent\<close>

definition dead_in :: "string \<Rightarrow> key_table \<Rightarrow> bool" where
  "dead_in k t \<longleftrightarrow> k \<in> row_id ` set t \<and> list_all (\<lambda>r. row_id r = k \<longrightarrow> row_revoked_at r \<noteq> None) t"

lemma put_row_dead:
  assumes "dead_in k t" and "get_row t key = Some r" and "row_id r' = row_id r"
    and "row_revoked_at r \<noteq> None \<longrightarrow> row_revoked_at r' \<noteq> None"
  shows "dead_in k (put_row r' t)"
proof -
  have "k \<in> row_id ` set (put_row r' t)" using assms(1) by (simp add: dead_in_def)
  moreover have "row_revoked_at x \<noteq> None" if "x \<in> set (put_row r' t)" "row_id x = k" for x
    using that assms get_row_Some [OF assms(2)] by (auto simp: put_row_def dead_in_def list_all_iff split: if_splits)
  ultimately show ?thesis by (simp add: dead_in_def list_all_iff)
qed

lemma key_step_dead: "key_step hsh t t' \<Longrightarrow> dead_in k t \<Longrightarrow> dead_in k t'"
proof (induction rule: key_step.induct)
  case (create req draw t t' tok wh info)
  from create(1) show ?case
    by (rule create_Inr) (use create in \<open>auto simp: dead_in_def\<close>)
next
  case (revoke now key t t' info)
  then show ?case
    by (cases "get_row t key") (auto simp: revoke_api_key_def Let_def intro!: put_row_dead)
next
  case (defaults key f clear t t' info)
  then show ?case
    by (cases "get_row t key") (auto simp: set_api_key_defaults_def Let_def res_simps intro!: put_row_dead)
qed

lemma revoke_dead:
  assumes "distinct (map row_id t)" and "revoke_api_key now k t = (t', Some info)"
  shows "dead_in k t'"
proof -
  obtain r where r: "get_row t k = Some r" using assms(2) by (cases "get_row t k") (auto simp: revoke_api_key_def)
  then have k: "r \<in> set t" "row_id r = k" by (auto dest: get_row_Some)
  have "t' = put_row (if row_revoked_at r = None then r\<lparr>row_revoked_at := Some now\<rparr> else r) t"
    using assms(2) r by (simp add: revoke_api_key_def Let_def)
  moreover from this have "k \<in> row_id ` set t'" using k by auto
  moreover have "list_all (\<lambda>x. row_id x = k \<longrightarrow> row_revoked_at x \<noteq> None) t'"
    using k by (auto simp: calculation(1) put_row_def list_all_iff)
  ultimately show ?thesis by (simp add: dead_in_def)
qed

text \<open>
  C35: From the empty table, after any interleaving of creations, revocations and default updates: a
  bearer token only ever authenticates as a key that is not revoked, whose stored hash verifies the
  token, and whose role and scope are legitimate; and a key that was revoked at some point never
  authenticates again, whatever happens later.
\<close>

theorem revoked_key_never_authenticates:
  assumes "argon2_ok hsh vfy"
    and "(key_step hsh)\<^sup>*\<^sup>* [] t" and "revoke_api_key now k t = (t', Some info)" and "(key_step hsh)\<^sup>*\<^sup>* t' t''"
    and "lookup_api_key vfy t'' token = Inr (Some r)"
  shows "rec_id r \<noteq> k \<and> rec_revoked_at r = None \<and> vfy (rec_key_hash r) token = Verified True
    \<and> rec_role r \<in> VALID_ROLES \<and> rec_scope r \<noteq> []"
proof -
  have "key_step hsh t t'" using assms(3) by (rule key_step.revoke)
  with assms(2,4) have reach: "(key_step hsh)\<^sup>*\<^sup>* [] t''" by auto
  have "dead_in k t'"
    using revoke_dead [OF _ assms(3)] reachable_table_ok [OF assms(2)] by (simp add: table_ok_def)
  with assms(4) have dead: "dead_in k t''" by (induction rule: rtranclp_induct) (auto intro: key_step_dead)
  from assms(5) lookup_reachable [OF assms(1) reach] obtain row
    where row: "find (live vfy token) t'' = Some row" "r = record_of_row row" by auto
  then have "row \<in> set t''" "live vfy token row" by (auto dest: find_live)
  moreover from this(1) have "row_ok hsh row"
    using reachable_table_ok [OF reach] by (auto simp: table_ok_def list_all_iff)
  ultimately show ?thesis
    using dead row(2) by (auto simp: live_def dead_in_def list_all_iff record_of_row_def row_ok_def)
qed

definition demo_hash :: "nat \<Rightarrow> string \<Rightarrow> string" where
  "demo_hash salt token = replicate salt (CHR ''s'') @ ''$'' @ token"

definition demo_verify :: "string \<Rightarrow> string \<Rightarrow> verify_outcome" where
  "demo_verify h token =
     (if drop 1 (dropWhile (\<lambda>c. c = CHR ''s'') h) = token then Verified True else VerifyMismatchError)"

lemma demo_argon2_ok: "argon2_ok demo_hash demo_verify"
proof -
  have "dropWhile (\<lambda>c. c = CHR ''s'') (replicate n (CHR ''s'') @ ''$'' @ t) = ''$'' @ t" for n t
    by (induction n) simp_all
  then show ?thesis by (auto simp: argon2_ok_def demo_hash_def demo_verify_def)
qed

definition demo_request :: key_request where
  "demo_request = \<lparr>kr_role = ''query'', kr_scope = ''default'', kr_name = None, kr_allow_scope_override = False, kr_config_json = None\<rparr>"

definition demo_draw :: "string \<Rightarrow> key_draw" where
  "demo_draw s = \<lparr>kd_secret = s, kd_webhook = s, kd_salt = 2, kd_id = s, kd_now = 1\<rparr>"

definition demo_create :: "string \<Rightarrow> key_table \<Rightarrow> key_table" where
  "demo_create s t = fst (projr (create_api_key demo_hash demo_request (demo_draw s) t))"

lemma demo_step: "s \<notin> row_id ` set t \<Longrightarrow> key_step demo_hash t (demo_create s t)"
proof -
  assume "s \<notin> row_id ` set t"
  moreover have "\<exists>tok wh info. create_api_key demo_hash demo_request (demo_draw s) t = Inr (demo_create s t, tok, wh, info)"
    by (simp add: demo_create_def create_api_key_def persist_key_def demo_request_def VALID_ROLES_def Let_def)
  ultimately show ?thesis by (auto intro: key_step.create simp: demo_draw_def)
qed

theorem revoked_key_never_authenticates_witness:
  "let t = demo_create ''k2'' (demo_create ''k1'' []); t' = fst (revoke_api_key 5 ''k1'' t) in
   case lookup_api_key demo_verify t' ''rlk_k2'' of
     Inr (Some r) \<Rightarrow> rec_id r \<noteq> ''k1'' \<and> rec_revoked_at r = None \<and> demo_verify (rec_key_hash r) ''rlk_k2'' = Verified True
       \<and> rec_role r \<in> VALID_ROLES \<and> rec_scope r \<noteq> []
   | _ \<Rightarrow> False"
proof -
  define t where "t = demo_create ''k2'' (demo_create ''k1'' [])"
  note eval = t_def demo_create_def create_api_key_def persist_key_def demo_request_def demo_draw_def VALID_ROLES_def Let_def
  have "key_step demo_hash [] (demo_create ''k1'' [])" by (rule demo_step) simp
  moreover have "key_step demo_hash (demo_create ''k1'' []) t"
    unfolding t_def by (rule demo_step) (simp add: eval)
  ultimately have reach: "(key_step demo_hash)\<^sup>*\<^sup>* [] t" by auto
  obtain t' info where rev: "revoke_api_key 5 ''k1'' t = (t', Some info)"
    by (simp add: eval revoke_api_key_def get_row_def)
  have t': "t' = fst (revoke_api_key 5 ''k1'' t)" by (simp add: rev)
  obtain r where r: "lookup_api_key demo_verify t' ''rlk_k2'' = Inr (Some r)"
    by (simp add: t' eval revoke_api_key_def get_row_def put_row_def lookup_api_key_def record_of_row_def
        key_prefix_def generate_api_key_def demo_hash_def demo_verify_def numeral_2_eq_2)
  from revoked_key_never_authenticates [OF demo_argon2_ok reach rev rtranclp.rtrancl_refl r]
  show ?thesis by (simp add: r flip: t_def t')
qed

lemma find_snoc: "find P (xs @ [x]) = (case find P xs of None \<Rightarrow> (if P x then Some x else None) | y \<Rightarrow> y)"
  by (induction xs) auto

lemma revoke_fresh:
  assumes "row_id row \<notin> row_id ` set t" and "row_revoked_at row = None"
  shows "fst (revoke_api_key now (row_id row) (t @ [row])) = t @ [row\<lparr>row_revoked_at := Some now\<rparr>]"
proof -
  have "find (\<lambda>r. row_id r = row_id row) t = None" using assms(1) by (induction t) auto
  moreover have "put_row (row\<lparr>row_revoked_at := Some now\<rparr>) t = t"
    using assms(1) by (induction t) (auto simp: put_row_def)
  ultimately show ?thesis using assms(2) by (simp add: revoke_api_key_def get_row_def find_snoc put_row_def Let_def)
qed

text \<open>
  Minting and using a key. When no live key of the table already verifies the fresh token, the
  token of a created key looks up exactly the new key with the requested role, scope and override
  permission; every other token looks up what it did before; and after the key is revoked its token
  authenticates nobody.
\<close>

theorem created_key_roundtrip:
  assumes "argon2_ok hsh vfy" and "(key_step hsh)\<^sup>*\<^sup>* [] t"
    and "create_api_key hsh req draw t = Inr (t', tok, wh, info)" and "kd_id draw \<notin> row_id ` set t"
    and "lookup_api_key vfy t tok = Inr None"
  shows "(\<exists>r. lookup_api_key vfy t' tok = Inr (Some r) \<and> rec_id r = kd_id draw \<and> rec_role r = kr_role req
        \<and> rec_scope r = kr_scope req \<and> rec_allow_scope_override r = kr_allow_scope_override req)
    \<and> (tok' \<noteq> tok \<longrightarrow> lookup_api_key vfy t' tok' = lookup_api_key vfy t tok')
    \<and> lookup_api_key vfy (fst (revoke_api_key now (kd_id draw) t')) tok = Inr None"
proof -
  from assms(3) obtain row where row: "t' = t @ [row]" "row_id row = kd_id draw" "row_role row = kr_role req"
    "row_scope row = kr_scope req" "row_key_hash row = hsh (kd_salt draw) tok" "row_key_prefix row = key_prefix tok"
    "row_revoked_at row = None" "row_ok hsh row" "row_allow_scope_override row = kr_allow_scope_override req"
    by (rule create_Inr)
  define dead where "dead = row\<lparr>row_revoked_at := Some now\<rparr>"
  have ok: "list_all (row_ok hsh) t" using reachable_table_ok [OF assms(2)] by (simp add: table_ok_def)
  have "row_ok hsh dead" using row(8) by (simp add: dead_def row_ok_def)
  have find: "lookup_api_key vfy (t @ [x]) tk = (if find (live vfy tk) t = None \<and> live vfy tk x
      then Inr (Some (record_of_row x)) else lookup_api_key vfy t tk)" if "row_ok hsh x" for x tk
    using that ok by (simp add: lookup_find [OF assms(1)] find_snoc split: option.splits)
  have none: "find (live vfy tok) t = None" using assms(5) ok by (simp add: lookup_find [OF assms(1)])
  have verify: "vfy (row_key_hash row) tk = (if tk = tok then Verified True else VerifyMismatchError)" for tk
    using assms(1) row(5) by (simp add: argon2_ok_def)
  have "fst (revoke_api_key now (kd_id draw) t') = t @ [dead]"
    using revoke_fresh [of row t now] row assms(4) by (simp add: dead_def)
  moreover have "live vfy tok row" "\<not> live vfy tok dead" and other: "tok' \<noteq> tok \<Longrightarrow> \<not> live vfy tok' row"
    using row verify by (simp_all add: live_def dead_def)
  ultimately show ?thesis
    using none find [OF row(8)] find [OF \<open>row_ok hsh dead\<close>] assms(5) row
    by (auto simp: record_of_row_def)
qed

theorem created_key_roundtrip_witness:
  "(\<exists>r. lookup_api_key demo_verify (demo_create ''k1'' []) ''rlk_k1'' = Inr (Some r) \<and> rec_role r = ''query'')
   \<and> lookup_api_key demo_verify (fst (revoke_api_key 9 ''k1'' (demo_create ''k1'' []))) ''rlk_k1'' = Inr None"
proof -
  have "\<exists>wh info. create_api_key demo_hash demo_request (demo_draw ''k1'') [] = Inr (demo_create ''k1'' [], ''rlk_k1'', wh, info)"
    by (simp add: demo_create_def create_api_key_def persist_key_def demo_request_def demo_draw_def VALID_ROLES_def
        generate_api_key_def Let_def)
  then obtain wh info where "create_api_key demo_hash demo_request (demo_draw ''k1'') [] = Inr (demo_create ''k1'' [], ''rlk_k1'', wh, info)"
    by blast
  from created_key_roundtrip [OF demo_argon2_ok rtranclp.rtrancl_refl this, of "[]" 9]
  show ?thesis by (auto simp: lookup_api_key_def demo_draw_def demo_request_def)
qed

end
