(* ===== verification/Authentication.thy ===== *)
theory Authentication
  imports ApiKeys
begin

text \<open>
  Who may call the API and on whose data: \<open>api/auth/oidc.py\<close> (validation of identity-provider tokens),
  \<open>api/auth/middleware.py\<close> (bearer extraction, authentication, the role check) and \<open>api/auth/scope.py\<close>
  (the isolation scope of a request). The JWT library, the HTTP client and \<open>str()\<close> of composite values
  are the fields of \<open>idp\<close>, a parameter; nothing is assumed of them. The JWKS cache is threaded through.
\<close>

section \<open>Identity-provider tokens\<close>

datatype oidc_exc = InvalidTokenError | OidcValueError | HTTPError | OidcKeyError | OidcTypeError | OtherExc

type_synonym jwks = "(string \<times> pyval) list"
type_synonym jwks_cache = "(string, jwks) dict"

record idp =
  unverified_kid :: "string \<Rightarrow> oidc_exc + string option"
  http_get :: "string \<Rightarrow> oidc_exc + pyval"
  pyjwk_key :: "(string \<times> pyval) list \<Rightarrow> oidc_exc + string"
  jwt_decode :: "string \<Rightarrow> string \<Rightarrow> string list \<Rightarrow> string \<Rightarrow> string option \<Rightarrow> oidc_exc + pyval"
  str_of :: "pyval \<Rightarrow> string"

record auth_settings =
  auth_enabled :: bool
  auth_mode :: string
  oidc_issuer :: string
  oidc_audience :: string
  oidc_jwks_url :: string

record oidc_principal =
  op_role :: string
  op_scope :: string
  op_subject :: "string option"

definition ALLOWED_ALGORITHMS :: "string list" where
  "ALLOWED_ALGORITHMS = [''RS256'', ''RS384'', ''RS512'', ''ES256'', ''ES384'', ''ES512'']"

definition looks_like_jwt :: "string \<Rightarrow> bool" where
  "looks_like_jwt token =
     (let parts = split_on (CHR ''.'') token in length parts = 3 \<and> list_all (\<lambda>p. p \<noteq> []) parts)"

text \<open>\<open>item in VALID_ROLES\<close> hashes the item: a list or a dict raises.\<close>

fun role_from_list :: "pyval list \<Rightarrow> oidc_exc + string" where
  "role_from_list [] = Inr ''query''"
| "role_from_list (VList _ # items) = Inl OidcTypeError"
| "role_from_list (VDict _ # items) = Inl OidcTypeError"
| "role_from_list (VStr s # items) = (if s \<in> VALID_ROLES then Inr s else role_from_list items)"
| "role_from_list (_ # items) = role_from_list items"

definition role_from_roles :: "pyval option \<Rightarrow> oidc_exc + string" where
  "role_from_roles roles =
     (case roles of
        Some (VStr s) \<Rightarrow> if s \<in> VALID_ROLES then Inr s else Inr ''query''
      | Some (VList items) \<Rightarrow> role_from_list items
      | _ \<Rightarrow> Inr ''query'')"

definition role_from_claims :: "(string \<times> pyval) list \<Rightarrow> oidc_exc + string" where
  "role_from_claims claims =
     (case as_str (dget claims ''raglogs_role'') of
        Some r \<Rightarrow> if r \<in> VALID_ROLES then Inr r else role_from_roles (dget claims ''roles'')
      | None \<Rightarrow> role_from_roles (dget claims ''roles''))"

definition http_get_json :: "idp \<Rightarrow> string \<Rightarrow> oidc_exc + jwks" where
  "http_get_json w url =
     rbind (http_get w url) (\<lambda>payload. case payload of VDict d \<Rightarrow> Inr d | _ \<Rightarrow> Inl OidcValueError)"

definition looks_like_jwks_url :: "string \<Rightarrow> bool" where
  "looks_like_jwks_url url =
     (let lowered = lower_str url in
      endswith lowered ''jwks.json'' \<or> endswith lowered ''/jwks'' \<or> contains_str lowered ''/jwks'')"

text \<open>The \<open>try\<close> of both discovery branches: the advertised URI, or \<open>fallback\<close> without one or on an error.\<close>

definition discover :: "idp \<Rightarrow> string \<Rightarrow> string \<Rightarrow> oidc_exc + string" where
  "discover w url fallback =
     (case http_get_json w url of
        Inr document \<Rightarrow>
          (case dget document ''jwks_uri'' of
             Some (VStr (c # cs)) \<Rightarrow> Inr (c # cs)
           | _ \<Rightarrow> Inr fallback)
      | Inl HTTPError \<Rightarrow> Inr fallback
      | Inl OidcValueError \<Rightarrow> Inr fallback
      | Inl e \<Rightarrow> Inl e)"

definition resolve_jwks_uri :: "idp \<Rightarrow> auth_settings \<Rightarrow> oidc_exc + string" where
  "resolve_jwks_uri w cfg =
     (let explicit = strip_str (oidc_jwks_url cfg) in
      if explicit \<noteq> [] then
        (if looks_like_jwks_url explicit then Inr explicit else discover w explicit explicit)
      else
        let issuer = rstrip_char (CHR ''/'') (oidc_issuer cfg) in
        if issuer = [] then Inr []
        else discover w (issuer @ ''/.well-known/openid-configuration'') (issuer @ ''/.well-known/jwks.json''))"

definition get_jwks :: "idp \<Rightarrow> auth_settings \<Rightarrow> jwks_cache \<Rightarrow> (oidc_exc + jwks) \<times> jwks_cache" where
  "get_jwks w cfg cache =
     (case resolve_jwks_uri w cfg of
        Inl e \<Rightarrow> (Inl e, cache)
      | Inr uri \<Rightarrow>
          if uri = [] then (Inl OidcValueError, cache)
          else
            (case dget cache uri of
               Some cached \<Rightarrow> (Inr cached, cache)
             | None \<Rightarrow>
                 (case http_get_json w uri of
                    Inl e \<Rightarrow> (Inl e, cache)
                  | Inr document \<Rightarrow> (Inr document, dset uri document cache))))"

fun find_kid :: "string \<Rightarrow> pyval list \<Rightarrow> jwks option" where
  "find_kid kid [] = None"
| "find_kid kid (VDict d # items) = (if dget d ''kid'' = Some (VStr kid) then Some d else find_kid kid items)"
| "find_kid kid (_ # items) = find_kid kid items"

definition key_from_jwks :: "idp \<Rightarrow> jwks \<Rightarrow> string option \<Rightarrow> oidc_exc + string" where
  "key_from_jwks w doc kid =
     (case dget doc ''keys'' of
        Some (VList (k # ks)) \<Rightarrow>
          let selected =
            (case kid of
               Some (c # cs) \<Rightarrow> find_kid (c # cs) (k # ks)
             | _ \<Rightarrow> (if ks = [] then (case k of VDict d \<Rightarrow> Some d | _ \<Rightarrow> None) else None)) in
          (case selected of None \<Rightarrow> Inl OidcValueError | Some d \<Rightarrow> pyjwk_key w d)
      | _ \<Rightarrow> Inl OidcValueError)"

fun caught_by_validate :: "oidc_exc \<Rightarrow> bool" where
  "caught_by_validate OtherExc = False"
| "caught_by_validate _ = True"

definition validate_oidc_token ::
    "idp \<Rightarrow> auth_settings \<Rightarrow> jwks_cache \<Rightarrow> string \<Rightarrow> (oidc_exc + oidc_principal option) \<times> jwks_cache" where
  "validate_oidc_token w cfg cache token =
     (let issuer = strip_str (oidc_issuer cfg) in
      if issuer = [] then (Inr None, cache)
      else
        let audience = strip_str (oidc_audience cfg);
            (attempt, cache') =
              (case unverified_kid w token of
                 Inl e \<Rightarrow> (Inl e, cache)
               | Inr kid \<Rightarrow>
                   let (doc, cache') = get_jwks w cfg cache in
                   (rbind doc (\<lambda>d. rbind (key_from_jwks w d kid) (\<lambda>key.
                      jwt_decode w token key ALLOWED_ALGORITHMS issuer (if audience = [] then None else Some audience))),
                    cache')) in
        ((case attempt of
            Inl e \<Rightarrow> if caught_by_validate e then Inr None else Inl e
          | Inr (VDict claims) \<Rightarrow>
              rbind (role_from_claims claims) (\<lambda>r.
                Inr (Some \<lparr>op_role = r, op_scope = ''default'',
                     op_subject = (case dget claims ''sub'' of
                                     None \<Rightarrow> None
                                   | Some VNone \<Rightarrow> None
                                   | Some (VStr s) \<Rightarrow> Some s
                                   | Some v \<Rightarrow> Some (str_of w v))\<rparr>))
          | Inr _ \<Rightarrow> Inr None), cache'))"

section \<open>Bearer authentication and the role check\<close>

datatype auth_exc = FromOidc oidc_exc | FromVerify verify_outcome

record http_request =
  rq_method :: string
  rq_path :: string
  rq_authorization :: "string option"
  rq_query_scope :: "string option"

datatype auth_outcome =
    AuthError (ae_status: int) (ae_code: string) (ae_message: string)
  | AuthPass (ap_principal: "auth_principal option")

definition www_authenticate :: "auth_outcome \<Rightarrow> bool" where
  "www_authenticate r = (case r of AuthError status _ _ \<Rightarrow> status = 401 | _ \<Rightarrow> False)"

definition extract_bearer :: "http_request \<Rightarrow> string option" where
  "extract_bearer request =
     (case rq_authorization request of
        None \<Rightarrow> None
      | Some header \<Rightarrow>
          let scheme = takeWhile (\<lambda>c. c \<noteq> CHR '' '') header;
              remainder = drop 1 (dropWhile (\<lambda>c. c \<noteq> CHR '' '') header) in
          if lower_str scheme \<noteq> ''bearer'' \<or> strip_str remainder = [] then None
          else Some (strip_str remainder))"

record auth_world =
  aw_idp :: idp
  aw_verify :: "string \<Rightarrow> string \<Rightarrow> verify_outcome"
  aw_settings :: auth_settings
  aw_table :: key_table

definition authenticate_token ::
    "auth_world \<Rightarrow> jwks_cache \<Rightarrow> string \<Rightarrow> (auth_exc + auth_principal option) \<times> jwks_cache" where
  "authenticate_token w cache token =
     (let mode = auth_mode (aw_settings w) in
      if looks_like_jwt token then
        (if mode \<notin> {''oidc'', ''both''} then (Inr None, cache)
         else
           let (res, cache') = validate_oidc_token (aw_idp w) (aw_settings w) cache token in
           ((case res of
               Inl e \<Rightarrow> Inl (FromOidc e)
             | Inr None \<Rightarrow> Inr None
             | Inr (Some p) \<Rightarrow>
                 Inr (Some \<lparr>role = op_role p, scope = op_scope p, auth_method = ''oidc'', key_id = None,
                            subject = op_subject p, allow_scope_override = False, config_json = None\<rparr>)), cache'))
      else if mode \<notin> {''api_key'', ''both''} then (Inr None, cache)
      else
        ((case lookup_api_key (aw_verify w) (aw_table w) token of
            Inl e \<Rightarrow> Inl (FromVerify e)
          | Inr None \<Rightarrow> Inr None
          | Inr (Some r) \<Rightarrow>
              Inr (Some \<lparr>role = rec_role r, scope = rec_scope r, auth_method = ''api_key'',
                         key_id = Some (rec_id r), subject = None,
                         allow_scope_override = rec_allow_scope_override r, config_json = rec_config_json r\<rparr>)),
         cache))"

definition authorize_request ::
    "auth_world \<Rightarrow> jwks_cache \<Rightarrow> http_request \<Rightarrow> (auth_exc + auth_outcome) \<times> jwks_cache" where
  "authorize_request w cache request =
     (case required_roles (rq_method request) (rq_path request) of
        None \<Rightarrow> (Inr (AuthPass None), cache)
      | Some allowed \<Rightarrow>
          if \<not> auth_enabled (aw_settings w) then (Inr (AuthPass None), cache)
          else
            (case extract_bearer request of
               None \<Rightarrow> (Inr (AuthError 401 ''AUTH_UNAUTHORIZED'' ''Missing or invalid Authorization bearer token''), cache)
             | Some token \<Rightarrow>
                 let (res, cache') = authenticate_token w cache token in
                 ((case res of
                     Inl e \<Rightarrow> Inl e
                   | Inr None \<Rightarrow> Inr (AuthError 401 ''AUTH_UNAUTHORIZED'' ''Invalid or revoked credentials'')
                   | Inr (Some p) \<Rightarrow>
                       if role p \<notin> allowed
                       then Inr (AuthError 403 ''AUTH_FORBIDDEN'' ''Insufficient role for this endpoint'')
                       else Inr (AuthPass (Some p))), cache')))"

section \<open>The isolation scope\<close>

record scope_error =
  se_status_code :: int
  se_error_code :: string
  se_message :: string

definition DEFAULT_LOG_SCOPE :: string where "DEFAULT_LOG_SCOPE = ''default''"

definition normalize_requested_scope :: "string option \<Rightarrow> string option" where
  "normalize_requested_scope value =
     (case value of
        None \<Rightarrow> None
      | Some v \<Rightarrow> let stripped = strip_str v in if stripped = [] then None else Some stripped)"

definition scope_required :: "string \<Rightarrow> scope_error" where
  "scope_required msg = \<lparr>se_status_code = 400, se_error_code = ''SCOPE_REQUIRED'', se_message = msg\<rparr>"

definition resolve_scope ::
    "string option \<Rightarrow> bool \<Rightarrow> auth_principal option \<Rightarrow> scope_error + string" where
  "resolve_scope requested_scope auth_on who =
     (let requested = normalize_requested_scope requested_scope in
      if \<not> auth_on then
        (let resolved = (case requested of Some r \<Rightarrow> r | None \<Rightarrow> DEFAULT_LOG_SCOPE) in
         if resolved = [] then Inl (scope_required ''A non-empty scope is required'') else Inr resolved)
      else
        (case who of
           None \<Rightarrow> Inl (scope_required ''A resolvable scope is required for this request'')
         | Some p \<Rightarrow>
             let pinned = (auth_method p = ''oidc'' \<or> \<not> allow_scope_override p);
                 principal_scope = normalize_requested_scope (Some (scope p)) in
             if pinned then
               (case principal_scope of
                  None \<Rightarrow> Inl (scope_required ''API key has no scope; mint a key with --scope'')
                | Some s \<Rightarrow>
                    if requested \<noteq> None \<and> requested \<noteq> Some s
                    then Inl \<lparr>se_status_code = 403, se_error_code = ''SCOPE_MISMATCH'',
                              se_message = ''Request scope does not match the API key's pinned scope''\<rparr>
                    else Inr s)
             else
               (case requested of
                  Some r \<Rightarrow> Inr r
                | None \<Rightarrow>
                    (case principal_scope of
                       Some s \<Rightarrow> Inr s
                     | None \<Rightarrow> Inl (scope_required ''Pass scope on the request or mint a key with a default scope'')))))"

definition requested_scope_from_http :: "http_request \<Rightarrow> string option \<Rightarrow> string option" where
  "requested_scope_from_http request body_scope =
     (case normalize_requested_scope body_scope of
        Some s \<Rightarrow> Some s
      | None \<Rightarrow> normalize_requested_scope (rq_query_scope request))"

definition bind_request_scope ::
    "auth_settings \<Rightarrow> auth_principal option \<Rightarrow> http_request \<Rightarrow> string option \<Rightarrow> scope_error + string" where
  "bind_request_scope cfg who request body_scope =
     resolve_scope (requested_scope_from_http request body_scope) (auth_enabled cfg) who"

section \<open>What authentication guarantees\<close>

lemma VALID_ROLES_query [simp]: "''query'' \<in> VALID_ROLES"
  by (simp add: VALID_ROLES_def)

lemma role_from_list_valid: "role_from_list items = Inr r \<Longrightarrow> r \<in> VALID_ROLES"
  by (induction items rule: role_from_list.induct) (auto split: if_splits)

lemma role_from_claims_valid: "role_from_claims claims = Inr r \<Longrightarrow> r \<in> VALID_ROLES"
  by (auto simp: role_from_claims_def role_from_roles_def dest: role_from_list_valid
      split: option.splits pyval.splits if_splits)

lemma validate_oidc_token_valid:
  "validate_oidc_token w cfg cache token = (Inr (Some q), cache') \<Longrightarrow> op_role q \<in> VALID_ROLES \<and> op_scope q = ''default''"
  by (auto simp: validate_oidc_token_def Let_def res_simps dest: role_from_claims_valid
      split: if_splits prod.splits sum.splits pyval.splits)

lemma validate_oidc_token_unconfigured:
  "strip_str (oidc_issuer cfg) = [] \<Longrightarrow> validate_oidc_token w cfg cache token = (Inr None, cache)"
  by (simp add: validate_oidc_token_def)

text \<open>A list or an object among the roles of a verified token leaves validation as a \<open>TypeError\<close>.\<close>

lemma unhashable_role_escapes:
  assumes "strip_str (oidc_issuer cfg) \<noteq> []" and "unverified_kid w token = Inr kid"
    and "get_jwks w cfg cache = (Inr doc, cache')" and "key_from_jwks w doc kid = Inr key"
    and "\<And>iss aud. jwt_decode w token key ALLOWED_ALGORITHMS iss aud = Inr (VDict [(''roles'', VList [VDict []])])"
  shows "validate_oidc_token w cfg cache token = (Inl OidcTypeError, cache')"
  using assms by (simp add: validate_oidc_token_def role_from_claims_def role_from_roles_def)

definition api_key_principal :: "api_key_record \<Rightarrow> auth_principal" where
  "api_key_principal r =
     \<lparr>role = rec_role r, scope = rec_scope r, auth_method = ''api_key'', key_id = Some (rec_id r), subject = None,
      allow_scope_override = rec_allow_scope_override r, config_json = rec_config_json r\<rparr>"

text \<open>How a principal can come about.\<close>

definition authentic :: "auth_world \<Rightarrow> string \<Rightarrow> auth_principal \<Rightarrow> bool" where
  "authentic w token p \<longleftrightarrow>
     (if looks_like_jwt token
      then auth_mode (aw_settings w) \<in> {''oidc'', ''both''} \<and> auth_method p = ''oidc'' \<and> key_id p = None
        \<and> role p \<in> VALID_ROLES \<and> scope p = ''default'' \<and> \<not> allow_scope_override p
      else auth_mode (aw_settings w) \<in> {''api_key'', ''both''} \<and>
        (\<exists>r. lookup_api_key (aw_verify w) (aw_table w) token = Inr (Some r) \<and> p = api_key_principal r))"

lemma authenticate_token_authentic:
  "authenticate_token w cache token = (Inr (Some p), cache') \<Longrightarrow> authentic w token p"
  by (auto simp: authenticate_token_def authentic_def api_key_principal_def Let_def
      dest: validate_oidc_token_valid split: if_splits prod.splits sum.splits option.splits)

lemma authorize_pass:
  assumes "authorize_request w cache req = (Inr (AuthPass (Some p)), cache')"
  obtains token allowed where "extract_bearer req = Some token" "authentic w token p"
    "required_roles (rq_method req) (rq_path req) = Some allowed" "role p \<in> allowed" "auth_enabled (aw_settings w)"
  using assms
  by (auto simp: authorize_request_def Let_def dest: authenticate_token_authentic
      split: if_splits prod.splits sum.splits option.splits)

lemma authorize_pass_anonymous:
  "authorize_request w cache req = (Inr (AuthPass None), cache') \<longleftrightarrow>
     (is_exempt_path (rq_path req) \<or> \<not> auth_enabled (aw_settings w)) \<and> cache' = cache"
  using required_roles_None [of "rq_method req" "rq_path req"]
  by (auto simp: authorize_request_def Let_def split: if_splits prod.splits sum.splits option.splits)

lemma authorize_error:
  assumes "authorize_request w cache req = (Inr (AuthError status code msg), cache')"
  shows "status = 401 \<and> (extract_bearer req = None
        \<or> (\<exists>token. extract_bearer req = Some token \<and> authenticate_token w cache token = (Inr None, cache')))
    \<or> status = 403 \<and> (\<exists>token p allowed. extract_bearer req = Some token \<and> authentic w token p
        \<and> required_roles (rq_method req) (rq_path req) = Some allowed \<and> role p \<notin> allowed)"
  using assms
  by (auto simp: authorize_request_def Let_def dest: authenticate_token_authentic
      split: if_splits prod.splits sum.splits option.splits)


definition demo_idp :: idp where
  "demo_idp = \<lparr>unverified_kid = (\<lambda>_. Inl InvalidTokenError), http_get = (\<lambda>_. Inl HTTPError),
     pyjwk_key = (\<lambda>_. Inl OidcValueError), jwt_decode = (\<lambda>_ _ _ _ _. Inl InvalidTokenError), str_of = (\<lambda>_. [])\<rparr>"

definition demo_world :: auth_world where
  "demo_world = \<lparr>aw_idp = demo_idp, aw_verify = demo_verify,
     aw_settings = \<lparr>auth_enabled = True, auth_mode = ''both'', oidc_issuer = [], oidc_audience = [], oidc_jwks_url = []\<rparr>,
     aw_table = demo_create ''k1'' []\<rparr>"

definition demo_http :: http_request where
  "demo_http = \<lparr>rq_method = ''post'', rq_path = ''/v1/query/explain'', rq_authorization = Some ''Bearer rlk_k1'', rq_query_scope = None\<rparr>"

lemma demo_bearer: "extract_bearer demo_http = Some ''rlk_k1''"
  by code_simp

lemma demo_roles: "required_roles (rq_method demo_http) (rq_path demo_http) = Some QUERY_ROLES"
  by (simp add: demo_http_def required_roles_def is_exempt_path_def EXEMPT_PREFIXES_def strip_api_version_def normalize_path_def
      endswith_def sub_version_def startswith_def is_digit_def is_under_def)

lemma demo_authenticates:
  "\<exists>p. authenticate_token demo_world [] ''rlk_k1'' = (Inr (Some p), []) \<and> role p = ''query'' \<and> scope p = ''default''
     \<and> \<not> allow_scope_override p"
  by (simp add: authenticate_token_def demo_world_def looks_like_jwt_def lookup_api_key_def demo_create_def create_api_key_def
      persist_key_def demo_request_def demo_draw_def VALID_ROLES_def key_prefix_def generate_api_key_def record_of_row_def
      demo_hash_def demo_verify_def numeral_2_eq_2 Let_def)

lemma demo_authorized:
  "\<exists>p. authorize_request demo_world [] demo_http = (Inr (AuthPass (Some p)), []) \<and> role p = ''query'' \<and> scope p = ''default''
     \<and> \<not> allow_scope_override p"
  using demo_authenticates
  by (auto simp: authorize_request_def demo_bearer demo_roles QUERY_ROLES_def) (simp add: demo_world_def)


section \<open>What scope resolution guarantees\<close>

lemma normalize_requested_scope_Some:
  "normalize_requested_scope v = Some s \<longleftrightarrow> (\<exists>x. v = Some x \<and> s = strip_str x \<and> s \<noteq> [])"
  by (auto simp: normalize_requested_scope_def Let_def split: option.splits if_splits)

lemma normalize_requested_scope_idem [simp]:
  "normalize_requested_scope (normalize_requested_scope v) = normalize_requested_scope v"
  by (auto simp: normalize_requested_scope_def Let_def split: option.splits if_splits)

lemma requested_scope_normal [simp]:
  "normalize_requested_scope (requested_scope_from_http req body) = requested_scope_from_http req body"
  by (auto simp: requested_scope_from_http_def normalize_requested_scope_Some split: option.splits)

lemma resolve_scope_clean: "resolve_scope v on who = Inr s \<Longrightarrow> s \<noteq> [] \<and> strip_str s = s"
  by (auto simp: resolve_scope_def Let_def DEFAULT_LOG_SCOPE_def normalize_requested_scope_Some
      strip_str_def [of "''default''"] lstrip_str_def rstrip_str_def is_space_def
      split: option.splits if_splits)

lemma resolve_scope_pinned:
  assumes "auth_method p = ''oidc'' \<or> \<not> allow_scope_override p"
  shows "resolve_scope v True (Some p) = Inr s \<longleftrightarrow>
    s = strip_str (scope p) \<and> s \<noteq> [] \<and> normalize_requested_scope v \<in> {None, Some s}"
  using assms
  by (auto simp: resolve_scope_def Let_def normalize_requested_scope_Some split: option.splits if_splits)
    (auto simp: normalize_requested_scope_def Let_def split: option.splits if_splits)

text \<open>
  C37: Tenant isolation. When authentication is on, a request that passed the middleware on a
  protected path and obtained a scope acts for one principal, in a non-empty scope. Unless the
  principal is a live API key that carries the override permission, that scope is the principal's own,
  and a request that names any other scope, in the body or in the query string, obtains none.
\<close>

theorem scope_isolation:
  assumes "authorize_request w cache req = (Inr (AuthPass who), cache')"
    and "auth_enabled (aw_settings w)" and "\<not> is_exempt_path (rq_path req)"
    and "bind_request_scope (aw_settings w) who req body = Inr s"
  shows "\<exists>p token. who = Some p \<and> extract_bearer req = Some token \<and> s \<noteq> [] \<and> strip_str s = s \<and>
    (if allow_scope_override p
     then (\<exists>r. lookup_api_key (aw_verify w) (aw_table w) token = Inr (Some r) \<and> rec_allow_scope_override r
             \<and> s = (case requested_scope_from_http req body of Some x \<Rightarrow> x | None \<Rightarrow> strip_str (rec_scope r)))
     else s = strip_str (scope p) \<and> requested_scope_from_http req body \<in> {None, Some s})"
proof -
  obtain p where p: "who = Some p"
    using assms(1-3) by (cases who) (auto simp: authorize_pass_anonymous)
  then obtain token where token: "extract_bearer req = Some token" "authentic w token p"
    using assms(1) by (auto elim: authorize_pass)
  have res: "resolve_scope (requested_scope_from_http req body) True (Some p) = Inr s"
    using assms(2,4) p by (simp add: bind_request_scope_def)
  show ?thesis
  proof (cases "allow_scope_override p")
    case True
    then obtain r where r: "lookup_api_key (aw_verify w) (aw_table w) token = Inr (Some r)" "p = api_key_principal r"
      using token(2) by (auto simp: authentic_def split: if_splits)
    then have "s = (case requested_scope_from_http req body of Some x \<Rightarrow> x | None \<Rightarrow> strip_str (rec_scope r))"
      using res True by (auto simp: resolve_scope_def Let_def api_key_principal_def normalize_requested_scope_Some split: option.splits)
    with True p token(1) r resolve_scope_clean [OF res] show ?thesis by (auto simp: api_key_principal_def)
  next
    case False
    with res p token resolve_scope_clean [OF res] show ?thesis by (auto simp: resolve_scope_pinned)
  qed
qed

theorem scope_isolation_witness:
  "\<exists>p. authorize_request demo_world [] demo_http = (Inr (AuthPass (Some p)), [])
     \<and> bind_request_scope (aw_settings demo_world) (Some p) demo_http None = Inr ''default''
     \<and> strip_str (scope p) = ''default''"
proof -
  obtain p where p: "authorize_request demo_world [] demo_http = (Inr (AuthPass (Some p)), [])"
    "scope p = ''default''" "\<not> allow_scope_override p" using demo_authorized by blast
  have path: "\<not> is_exempt_path (rq_path demo_http)"
    using demo_roles required_roles_None [of "rq_method demo_http" "rq_path demo_http"] by simp
  have on: "auth_enabled (aw_settings demo_world)" by (simp add: demo_world_def)
  have "strip_str ''default'' = ''default''"
    by (simp add: strip_str_def lstrip_str_def rstrip_str_def is_space_def)
  then have bound: "bind_request_scope (aw_settings demo_world) (Some p) demo_http None = Inr ''default''"
    using p on by (simp add: bind_request_scope_def resolve_scope_pinned requested_scope_from_http_def demo_http_def
        normalize_requested_scope_def)
  from scope_isolation [OF p(1) on path bound] p bound show ?thesis by auto
qed

end
