(* ===== verification/RateLimit.thy ===== *)
theory RateLimit
  imports Authentication Interfaces
begin

text \<open>
  \<open>api/ratelimit.py\<close>: one token bucket per route category and caller, consulted by a middleware that
  runs inside authentication. The store of buckets is explicit; the readings of the monotonic clock
  are arguments. Rates, bursts and times are exact reals. The locks make each operation one step, so a
  run of the middleware is a sequence of steps in the order the locks were taken.
\<close>

section \<open>The bucket\<close>

record token_bucket =
  tb_tokens :: real
  tb_updated :: real
  tb_rate :: real
  tb_burst :: real

definition new_bucket :: "real \<Rightarrow> token_bucket" where
  "new_bucket now = \<lparr>tb_tokens = 0, tb_updated = now, tb_rate = 0, tb_burst = 0\<rparr>"

definition consume :: "real \<Rightarrow> real \<Rightarrow> real \<Rightarrow> real \<Rightarrow> token_bucket \<Rightarrow> bool \<times> token_bucket" where
  "consume now rate burst tokens b =
     (if rate \<le> 0 then (True, b)
      else
        let capacity = max burst tokens;
            b = (if rate \<noteq> tb_rate b \<or> capacity \<noteq> tb_burst b
                 then b\<lparr>tb_rate := rate, tb_burst := capacity, tb_tokens := capacity, tb_updated := now\<rparr>
                 else b\<lparr>tb_tokens := min capacity (tb_tokens b + (now - tb_updated b) * rate), tb_updated := now\<rparr>) in
        if tokens \<le> tb_tokens b then (True, b\<lparr>tb_tokens := tb_tokens b - tokens\<rparr>) else (False, b))"

section \<open>Categories, callers and the store\<close>

datatype limit_kind = Ingest | Query

type_synonym buckets = "(limit_kind \<times> string, token_bucket) dict"

definition reset_rate_limiter :: "buckets \<Rightarrow> buckets" where
  "reset_rate_limiter store = []"

definition rate_limit_kind :: "string \<Rightarrow> string \<Rightarrow> limit_kind option" where
  "rate_limit_kind verb path =
     (let normalized = sub_version (normalize_path path);
          normalized = (if normalized = [] then ''/'' else normalized);
          verb = upper_str verb in
      if is_under normalized ''/ingestions'' then (if verb = ''POST'' then Some Ingest else None)
      else if is_under normalized ''/query'' then Some Query
      else None)"

definition bucket_identity :: "auth_principal option \<Rightarrow> string" where
  "bucket_identity who =
     (case who of
        None \<Rightarrow> ''anonymous''
      | Some p \<Rightarrow>
          (case key_id p of
             Some (c # cs) \<Rightarrow> c # cs
           | _ \<Rightarrow> (case subject p of Some (c # cs) \<Rightarrow> ''oidc:'' @ c # cs | _ \<Rightarrow> ''anonymous'')))"

definition allow_request ::
    "real \<Rightarrow> real \<Rightarrow> limit_kind \<Rightarrow> string \<Rightarrow> real \<Rightarrow> real \<Rightarrow> buckets \<Rightarrow> bool \<times> buckets" where
  "allow_request created now kind identity rate burst store =
     (if rate \<le> 0 then (True, store)
      else
        let key = (kind, identity);
            bucket = (case dget store key of None \<Rightarrow> new_bucket created | Some b \<Rightarrow> b);
            (ok, bucket') = consume now rate burst 1 bucket in
        (ok, dset key bucket' store))"

record ratelimit_settings =
  ratelimit_enabled :: bool
  ratelimit_ingest_rps :: real
  ratelimit_query_rps :: real
  ratelimit_burst :: real
  ratelimit_retry_after_seconds :: int

datatype limit_outcome = Forward | Limited (retry_after: int)

record limit_event =
  ev_created :: real
  ev_now :: real
  ev_who :: "auth_principal option"
  ev_method :: string
  ev_path :: string

definition rate_of :: "ratelimit_settings \<Rightarrow> limit_kind \<Rightarrow> real" where
  "rate_of cfg kind = (if kind = Ingest then ratelimit_ingest_rps cfg else ratelimit_query_rps cfg)"

text \<open>\<open>Limited\<close> stands for the 429 response with its \<open>Retry-After\<close> header.\<close>

definition dispatch :: "ratelimit_settings \<Rightarrow> buckets \<Rightarrow> limit_event \<Rightarrow> limit_outcome \<times> buckets" where
  "dispatch cfg store e =
     (if \<not> ratelimit_enabled cfg then (Forward, store)
      else
        (case rate_limit_kind (ev_method e) (ev_path e) of
           None \<Rightarrow> (Forward, store)
         | Some kind \<Rightarrow>
             let rate = rate_of cfg kind in
             if rate \<le> 0 then (Forward, store)
             else
               let (ok, store') = allow_request (ev_created e) (ev_now e) kind (bucket_identity (ev_who e)) rate
                                    (ratelimit_burst cfg) store in
               if ok then (Forward, store')
               else (Limited (ratelimit_retry_after_seconds cfg), store')))"

fun run_dispatch :: "ratelimit_settings \<Rightarrow> buckets \<Rightarrow> limit_event list \<Rightarrow> (limit_event \<times> limit_outcome) list" where
  "run_dispatch cfg store [] = []"
| "run_dispatch cfg store (e # es) =
     (let (r, store') = dispatch cfg store e in (e, r) # run_dispatch cfg store' es)"

section \<open>The level of a bucket\<close>

definition limit_key :: "ratelimit_settings \<Rightarrow> limit_event \<Rightarrow> (limit_kind \<times> string) option" where
  "limit_key cfg e =
     (case rate_limit_kind (ev_method e) (ev_path e) of
        None \<Rightarrow> None
      | Some kind \<Rightarrow>
          if ratelimit_enabled cfg \<and> 0 < rate_of cfg kind then Some (kind, bucket_identity (ev_who e)) else None)"

definition capacity :: "ratelimit_settings \<Rightarrow> real" where
  "capacity cfg = max (ratelimit_burst cfg) 1"

text \<open>The tokens a request of the given key would find at a given time.\<close>

definition level :: "ratelimit_settings \<Rightarrow> buckets \<Rightarrow> limit_kind \<times> string \<Rightarrow> real \<Rightarrow> real" where
  "level cfg store key now =
     (case dget store key of
        None \<Rightarrow> capacity cfg
      | Some b \<Rightarrow>
          if tb_rate b = rate_of cfg (fst key) \<and> tb_burst b = capacity cfg
          then min (capacity cfg) (tb_tokens b + (now - tb_updated b) * rate_of cfg (fst key))
          else capacity cfg)"

lemma capacity_ge [simp]: "1 \<le> capacity cfg"
  by (simp add: capacity_def)

lemma capacity_nonneg [simp]: "0 \<le> capacity cfg"
  using capacity_ge [of cfg] by linarith

lemma level_le: "level cfg store key now \<le> capacity cfg"
  by (simp add: level_def split: option.splits)

lemma level_later:
  assumes "now \<le> t" and "0 \<le> rate_of cfg (fst key)"
  shows "level cfg store key t \<le> level cfg store key now + rate_of cfg (fst key) * (t - now)"
  using assms mult_nonneg_nonneg [of "rate_of cfg (fst key)" "t - now"]
  by (auto simp: level_def min_def algebra_simps split: option.splits)

lemma dispatch_free: "limit_key cfg e = None \<Longrightarrow> dispatch cfg store e = (Forward, store)"
  by (auto simp: limit_key_def dispatch_def Let_def split: option.splits if_splits)

lemma limit_key_rate: "limit_key cfg e = Some key \<Longrightarrow> 0 < rate_of cfg (fst key)"
  by (auto simp: limit_key_def split: option.splits if_splits)

lemma consume_eq:
  assumes "0 < rate" and "a = (if tb_rate b = rate \<and> tb_burst b = max burst 1
    then min (max burst 1) (tb_tokens b + (now - tb_updated b) * rate) else max burst 1)"
  shows "consume now rate burst 1 b =
    (1 \<le> a, \<lparr>tb_tokens = (if 1 \<le> a then a - 1 else a), tb_updated = now, tb_rate = rate, tb_burst = max burst 1\<rparr>)"
  using assms by (cases b) (auto simp: consume_def Let_def)

lemma dispatch_limited:
  assumes "limit_key cfg e = Some key" and a: "a = level cfg store key (ev_now e)"
  shows "dispatch cfg store e =
    (if 1 \<le> a then Forward else Limited (ratelimit_retry_after_seconds cfg),
     dset key \<lparr>tb_tokens = (if 1 \<le> a then a - 1 else a), tb_updated = ev_now e,
               tb_rate = rate_of cfg (fst key), tb_burst = capacity cfg\<rparr> store)"
proof -
  obtain kind where kind: "rate_limit_kind (ev_method e) (ev_path e) = Some kind" "ratelimit_enabled cfg"
    "0 < rate_of cfg kind" "key = (kind, bucket_identity (ev_who e))"
    using assms(1) by (auto simp: limit_key_def split: option.splits if_splits)
  define b where "b = (case dget store key of None \<Rightarrow> new_bucket (ev_created e) | Some b \<Rightarrow> b)"
  have "a = (if tb_rate b = rate_of cfg kind \<and> tb_burst b = max (ratelimit_burst cfg) 1
    then min (max (ratelimit_burst cfg) 1) (tb_tokens b + (ev_now e - tb_updated b) * rate_of cfg kind)
    else max (ratelimit_burst cfg) 1)"
    using kind by (auto simp: a b_def level_def capacity_def new_bucket_def split: option.splits)
  from consume_eq [OF kind(3) this] show ?thesis
    using kind by (simp add: dispatch_def allow_request_def capacity_def b_def)
qed

lemma level_dispatch:
  assumes "limit_key cfg e = Some key"
  shows "level cfg (snd (dispatch cfg store e)) key' (ev_now e) =
    level cfg store key' (ev_now e) - (if key' = key \<and> fst (dispatch cfg store e) = Forward then 1 else 0)"
  using level_le [of cfg store key "ev_now e"]
  by (auto simp: dispatch_limited [OF assms refl] level_def [of _ "dset _ _ _"]) (simp_all add: level_def)

section \<open>The store stays well formed\<close>

definition bucket_ok :: "token_bucket \<Rightarrow> bool" where
  "bucket_ok b \<longleftrightarrow> 0 \<le> tb_tokens b \<and> tb_tokens b \<le> tb_burst b \<and> 1 \<le> tb_burst b \<and> 0 < tb_rate b"

definition store_ok :: "buckets \<Rightarrow> bool" where
  "store_ok store \<longleftrightarrow> dict_wf store \<and> list_all bucket_ok (dvals store)"

text \<open>The clock is monotonic: no bucket was updated after the present reading.\<close>

definition clock_ok :: "buckets \<Rightarrow> limit_event \<Rightarrow> bool" where
  "clock_ok store e \<longleftrightarrow> list_all (\<lambda>b. tb_updated b \<le> ev_now e) (dvals store)"

lemma dget_dvals: "dget d k = Some v \<Longrightarrow> v \<in> set (dvals d)"
  by (auto dest: dget_mem intro: rev_image_eqI)

lemma dvals_dset: "set (dvals (dset k v d)) \<subseteq> insert v (set (dvals d))"
  by (induction d) auto

lemma level_nonneg:
  assumes "store_ok store" and "clock_ok store e" and "0 < rate_of cfg (fst key)"
  shows "0 \<le> level cfg store key (ev_now e)"
proof (cases "dget store key")
  case (Some b)
  with assms(1,2) have "0 \<le> tb_tokens b" "tb_updated b \<le> ev_now e"
    using dget_dvals [OF Some] by (auto simp: store_ok_def bucket_ok_def clock_ok_def list_all_iff)
  with assms(3) have "0 \<le> tb_tokens b + (ev_now e - tb_updated b) * rate_of cfg (fst key)" by simp
  with Some show ?thesis by (simp add: level_def)
next
  case None
  then show ?thesis by (simp add: level_def)
qed

lemma dispatch_store_ok:
  assumes "store_ok store" and "clock_ok store e"
  shows "store_ok (snd (dispatch cfg store e))"
proof (cases "limit_key cfg e")
  case None
  with assms show ?thesis by (simp add: dispatch_free)
next
  case (Some key)
  let ?b = "\<lambda>a. \<lparr>tb_tokens = (if 1 \<le> a then a - 1 else a), tb_updated = ev_now e,
    tb_rate = rate_of cfg (fst key), tb_burst = capacity cfg\<rparr>"
  have "0 \<le> level cfg store key (ev_now e)"
    using assms limit_key_rate [OF Some] by (rule level_nonneg)
  then have "bucket_ok (?b (level cfg store key (ev_now e)))"
    using level_le [of cfg store key "ev_now e"] limit_key_rate [OF Some] by (simp add: bucket_ok_def)
  then show ?thesis
    using assms(1) dvals_dset [of key _ store]
    by (fastforce simp: dispatch_limited [OF Some refl] store_ok_def list_all_iff)
qed

interpretation limiter: event_machine "[]" "\<lambda>store e. snd (dispatch cfg store e)" clock_ok store_ok for cfg
  by unfold_locales (simp_all add: dispatch_store_ok store_ok_def [of "[]"])

section \<open>No caller exceeds its rate\<close>

definition forwarded :: "ratelimit_settings \<Rightarrow> limit_kind \<times> string \<Rightarrow> (limit_event \<times> limit_outcome) list \<Rightarrow> nat" where
  "forwarded cfg key outs = length (filter (\<lambda>(e, r). limit_key cfg e = Some key \<and> r = Forward) outs)"

lemma forwarded_Cons:
  "forwarded cfg key (run_dispatch cfg store (e # es)) =
     (if limit_key cfg e = Some key \<and> fst (dispatch cfg store e) = Forward then 1 else 0)
     + forwarded cfg key (run_dispatch cfg (snd (dispatch cfg store e)) es)"
  by (simp add: forwarded_def split: prod.splits)

lemma granted_level: "limit_key cfg e = Some key \<Longrightarrow> fst (dispatch cfg store e) = Forward \<longleftrightarrow> 1 \<le> level cfg store key (ev_now e)"
  by (simp add: dispatch_limited [OF _ refl])

lemma level_after:
  "level cfg (snd (dispatch cfg store e)) key (ev_now e) =
     level cfg store key (ev_now e) - (if limit_key cfg e = Some key \<and> fst (dispatch cfg store e) = Forward then 1 else 0)"
  by (cases "limit_key cfg e") (auto simp: dispatch_free level_dispatch)

lemma forwarded_bound:
  assumes "sorted (t0 # map ev_now es @ [t1])" and rate: "0 < rate_of cfg (fst key)"
  shows "real (forwarded cfg key (run_dispatch cfg store es)) \<le> max 0 (level cfg store key t0 + rate_of cfg (fst key) * (t1 - t0))"
  using assms(1)
proof (induction es arbitrary: store t0)
  case Nil
  then show ?case by (simp add: forwarded_def)
next
  case (Cons e es)
  let ?r = "rate_of cfg (fst key)" and ?store = "snd (dispatch cfg store e)"
  let ?g = "limit_key cfg e = Some key \<and> fst (dispatch cfg store e) = Forward"
  have IH: "real (forwarded cfg key (run_dispatch cfg ?store es)) \<le> max 0 (level cfg ?store key (ev_now e) + ?r * (t1 - ev_now e))"
    using Cons.prems by (intro Cons.IH) auto
  have times: "t0 \<le> ev_now e" "ev_now e \<le> t1" using Cons.prems by auto
  have later: "level cfg store key (ev_now e) + ?r * (t1 - ev_now e) \<le> level cfg store key t0 + ?r * (t1 - t0)"
    using level_later [OF times(1), of cfg key store] rate by (simp add: algebra_simps)
  have "0 \<le> ?r * (t1 - ev_now e)" using times rate by simp
  moreover have "1 \<le> level cfg store key (ev_now e)" if ?g using that granted_level [of cfg e key store] by simp
  ultimately show ?case
    using IH later unfolding forwarded_Cons level_after by (cases ?g) auto
qed

lemma rate_bound:
  assumes "sorted (t0 # map ev_now es @ [t1])" and "0 < rate_of cfg kind"
  shows "real (forwarded cfg (kind, caller) (run_dispatch cfg store es)) \<le> capacity cfg + rate_of cfg kind * (t1 - t0)"
proof -
  have "0 \<le> rate_of cfg kind * (t1 - t0)" using assms by (auto simp: sorted_append)
  with forwarded_bound [OF assms(1), of cfg "(kind, caller)" store] assms(2) level_le [of cfg store "(kind, caller)" t0]
  show ?thesis using capacity_nonneg [of cfg] unfolding fst_conv by linarith
qed

text \<open>
  C38: The rate limit. Whatever the buckets held before, and whatever other callers and routes are
  interleaved, between two moments a caller gets at most the burst capacity plus the rate times the
  elapsed time through in each limited category.
\<close>

theorem rate_limit_bound:
  assumes "sorted (t0 # map ev_now es @ [t1])" and "0 < rate_of cfg kind"
  shows "real (forwarded cfg (kind, caller) (run_dispatch cfg store es)) \<le> capacity cfg + rate_of cfg kind * (t1 - t0)"
  using assms by (rule rate_bound)

definition demo_limits :: ratelimit_settings where
  "demo_limits = \<lparr>ratelimit_enabled = True, ratelimit_ingest_rps = 1, ratelimit_query_rps = 2, ratelimit_burst = 1,
     ratelimit_retry_after_seconds = 1\<rparr>"

definition demo_event :: "real \<Rightarrow> limit_event" where
  "demo_event t = \<lparr>ev_created = t, ev_now = t, ev_who = None, ev_method = ''POST'', ev_path = ''/v1/query/explain''\<rparr>"

lemma demo_limit_key: "limit_key demo_limits (demo_event t) = Some (Query, ''anonymous'')"
proof -
  have "rate_limit_kind ''POST'' ''/v1/query/explain'' = Some Query" by code_simp
  then show ?thesis by (simp add: limit_key_def demo_event_def demo_limits_def rate_of_def bucket_identity_def)
qed

theorem rate_limit_bound_witness:
  "real (forwarded demo_limits (Query, ''anonymous'') (run_dispatch demo_limits [] [demo_event 0, demo_event 1])) \<le> 3
   \<and> forwarded demo_limits (Query, ''anonymous'') (run_dispatch demo_limits [] [demo_event 0, demo_event 1]) = 2"
proof
  have "sorted (0 # map ev_now [demo_event 0, demo_event 1] @ [1])" by (simp add: demo_event_def)
  from rate_limit_bound [OF this, of demo_limits Query "''anonymous''" "[]"]
  show "real (forwarded demo_limits (Query, ''anonymous'') (run_dispatch demo_limits [] [demo_event 0, demo_event 1])) \<le> 3"
    by (simp add: demo_limits_def rate_of_def capacity_def)
  show "forwarded demo_limits (Query, ''anonymous'') (run_dispatch demo_limits [] [demo_event 0, demo_event 1]) = 2"
    by (simp add: forwarded_def dispatch_limited [OF demo_limit_key refl] demo_limit_key level_def)
      (simp add: demo_limits_def demo_event_def capacity_def rate_of_def)
qed

section \<open>A caller within its rate is never refused\<close>

text \<open>The bucket of the key lets a request through at \<open>t\<close> and later.\<close>

definition ready :: "ratelimit_settings \<Rightarrow> buckets \<Rightarrow> limit_kind \<times> string \<Rightarrow> real \<Rightarrow> bool" where
  "ready cfg store key t \<longleftrightarrow> (\<forall>t'. t \<le> t' \<longrightarrow> 1 \<le> level cfg store key t')"

lemma ready_other: "limit_key cfg e \<noteq> Some key \<Longrightarrow> ready cfg (snd (dispatch cfg store e)) key t = ready cfg store key t"
proof (cases "limit_key cfg e")
  case (Some k)
  moreover assume "limit_key cfg e \<noteq> Some key"
  ultimately show ?thesis by (simp add: ready_def dispatch_limited [OF Some refl] level_def)
qed (simp add: dispatch_free)

lemma ready_after:
  assumes key: "limit_key cfg e = Some key" and ready: "ready cfg store key (ev_now e)"
  shows "ready cfg (snd (dispatch cfg store e)) key (ev_now e + 1 / rate_of cfg (fst key))"
proof -
  have r: "0 < rate_of cfg (fst key)" using key by (rule limit_key_rate)
  let ?a = "level cfg store key (ev_now e)"
  have a: "1 \<le> ?a" using ready by (simp add: ready_def)
  have "1 \<le> ?a - 1 + (t - ev_now e) * rate_of cfg (fst key)" if "ev_now e + 1 / rate_of cfg (fst key) \<le> t" for t
  proof -
    have "1 / rate_of cfg (fst key) \<le> t - ev_now e" using that by simp
    then have "1 \<le> (t - ev_now e) * rate_of cfg (fst key)" using r by (simp add: pos_divide_le_eq)
    with a show ?thesis by simp
  qed
  with a show ?thesis by (simp add: ready_def dispatch_limited [OF key refl] level_def [of _ "dset _ _ _"])
qed

lemma ready_run:
  assumes "sorted_wrt (\<lambda>a b. ev_now a + 1 / rate_of cfg (fst key) \<le> ev_now b) (filter (\<lambda>e. limit_key cfg e = Some key) es)"
    and "\<And>e. e \<in> set es \<Longrightarrow> limit_key cfg e = Some key \<Longrightarrow> ready cfg store key (ev_now e)"
  shows "list_all (\<lambda>(e, r). limit_key cfg e = Some key \<longrightarrow> r = Forward) (run_dispatch cfg store es)"
  using assms
proof (induction es arbitrary: store)
  case Nil
  then show ?case by simp
next
  case (Cons e es)
  let ?store = "snd (dispatch cfg store e)"
  have fwd: "fst (dispatch cfg store e) = Forward" if "limit_key cfg e = Some key"
    using Cons.prems(2) [of e] that by (auto simp: granted_level ready_def)
  have "ready cfg ?store key (ev_now e')" if e': "e' \<in> set es" "limit_key cfg e' = Some key" for e'
  proof (cases "limit_key cfg e = Some key")
    case True
    then have "ready cfg ?store key (ev_now e + 1 / rate_of cfg (fst key))"
      using Cons.prems(2) [of e] by (auto intro: ready_after)
    moreover have "ev_now e + 1 / rate_of cfg (fst key) \<le> ev_now e'" using Cons.prems(1) True e' by auto
    ultimately show ?thesis by (auto simp: ready_def)
  next
    case False
    then show ?thesis using Cons.prems(2) [of e'] e' by (auto simp: ready_other)
  qed
  then have "list_all (\<lambda>(e, r). limit_key cfg e = Some key \<longrightarrow> r = Forward) (run_dispatch cfg ?store es)"
    using Cons.prems(1) by (intro Cons.IH) (auto split: if_splits)
  with fwd show ?case by (auto split: prod.splits)
qed

text \<open>
  No starvation. From an empty store, a caller whose requests in a category keep at least one
  over the rate apart is never refused, whatever other callers send in between.
\<close>

theorem paced_caller_never_limited:
  assumes "sorted_wrt (\<lambda>a b. ev_now a + 1 / rate_of cfg (fst key) \<le> ev_now b) (filter (\<lambda>e. limit_key cfg e = Some key) es)"
  shows "list_all (\<lambda>(e, r). limit_key cfg e = Some key \<longrightarrow> r = Forward) (run_dispatch cfg [] es)"
  using assms by (rule ready_run) (simp add: ready_def level_def)

theorem paced_caller_never_limited_witness:
  "map snd (run_dispatch demo_limits [] [demo_event 0, demo_event (1/2)]) = [Forward, Forward]"
proof -
  have "sorted_wrt (\<lambda>a b. ev_now a + 1 / rate_of demo_limits (fst (Query, ''anonymous'')) \<le> ev_now b)
    (filter (\<lambda>e. limit_key demo_limits e = Some (Query, ''anonymous'')) [demo_event 0, demo_event (1/2)])"
    by (simp add: demo_limit_key) (simp add: demo_event_def demo_limits_def rate_of_def)
  from paced_caller_never_limited [OF this] show ?thesis
    by (simp add: demo_limit_key split: prod.splits)
qed

end
