(* ===== verification/LlmResilience.thy ===== *)
theory LlmResilience
  imports PyValues Interfaces
begin

text \<open>
  \<open>core/llm/resilience.py\<close> and the wrapper of \<open>core/llm/provider.py\<close> that uses it: the process-local
  circuit breaker, the token budget of the evidence packet and the retried provider call. Clock
  readings are arguments. The retry library is third-party: \<open>retrying\<close> is a parameter and \<open>retries_ok\<close>
  states its documented behaviour. The provider's HTTP call is the sequence of outcomes \<open>attempt\<close>.
  Spans, logs and metrics are left out.
\<close>

section \<open>Circuit breaker\<close>

datatype breaker_state = Closed | Open | HalfOpen

record breaker =
  br_failures :: int
  br_opened_at :: "real option"
  br_probe_in_flight :: bool

definition new_breaker :: breaker where
  "new_breaker = \<lparr>br_failures = 0, br_opened_at = None, br_probe_in_flight = False\<rparr>"

text \<open>\<open>round(x, 1)\<close>.\<close>

definition round1 :: "real \<Rightarrow> real" where
  "round1 x = of_int (round_half_even (x * 10)) / 10"

definition state_unlocked :: "real \<Rightarrow> real \<Rightarrow> breaker \<Rightarrow> breaker_state \<times> real" where
  "state_unlocked now cooldown_seconds b =
     (case br_opened_at b of
        None \<Rightarrow> (Closed, 0)
      | Some opened_at \<Rightarrow>
          let elapsed = now - opened_at;
              remaining = round1 (max 0 (cooldown_seconds - elapsed)) in
          if 0 < remaining then (Open, remaining) else (HalfOpen, 0))"

record breaker_snapshot =
  sn_state :: breaker_state
  sn_consecutive_failures :: int
  sn_cooldown_remaining_seconds :: real

definition snapshot :: "real \<Rightarrow> real \<Rightarrow> breaker \<Rightarrow> breaker_snapshot" where
  "snapshot now cooldown_seconds b =
     (let (state, remaining) = state_unlocked now cooldown_seconds b in
      \<lparr>sn_state = state, sn_consecutive_failures = br_failures b, sn_cooldown_remaining_seconds = remaining\<rparr>)"

definition breaker_allow :: "real \<Rightarrow> real \<Rightarrow> breaker \<Rightarrow> bool \<times> breaker" where
  "breaker_allow now cooldown_seconds b =
     (case fst (state_unlocked now cooldown_seconds b) of
        Closed \<Rightarrow> (True, b)
      | Open \<Rightarrow> (False, b)
      | HalfOpen \<Rightarrow>
          if br_probe_in_flight b then (False, b) else (True, b\<lparr>br_probe_in_flight := True\<rparr>))"

definition record_success :: "breaker \<Rightarrow> breaker" where
  "record_success b = b\<lparr>br_failures := 0, br_opened_at := None, br_probe_in_flight := False\<rparr>"

definition record_failure :: "real \<Rightarrow> int \<Rightarrow> breaker \<Rightarrow> breaker" where
  "record_failure now threshold b =
     (let b = b\<lparr>br_probe_in_flight := False, br_failures := br_failures b + 1\<rparr> in
      if 0 < threshold \<and> threshold \<le> br_failures b then b\<lparr>br_opened_at := Some now\<rparr> else b)"

definition breaker_reset :: "breaker \<Rightarrow> breaker" where
  "breaker_reset b = b\<lparr>br_failures := 0, br_opened_at := None, br_probe_in_flight := False\<rparr>"

section \<open>Token budget\<close>

record llm_settings =
  llm_max_retries :: int
  llm_max_tokens :: int
  llm_max_input_tokens :: int
  llm_breaker_threshold :: int
  llm_breaker_cooldown_seconds :: real
  llm_max_evidence_items :: int

text \<open>\<open>json.dumps(payload, indent=2)\<close>; \<open>float_repr\<close> is the shortest decimal of a finite float.\<close>

definition hex_digit :: "nat \<Rightarrow> char" where
  "hex_digit n = (if n < 10 then char_of (48 + n) else char_of (87 + n))"

definition backslash :: char where "backslash = char_of (92::nat)"
definition dquote :: char where "dquote = char_of (34::nat)"
definition line_feed :: char where "line_feed = char_of (10::nat)"

definition json_escape :: "char \<Rightarrow> string" where
  "json_escape c =
     (let n = (of_char c :: nat) in
      if n = 34 \<or> n = 92 then [backslash, c]
      else if n = 10 then [backslash, CHR ''n'']
      else if n = 13 then [backslash, CHR ''r'']
      else if n = 9 then [backslash, CHR ''t'']
      else if n = 8 then [backslash, CHR ''b'']
      else if n = 12 then [backslash, CHR ''f'']
      else if 32 \<le> n \<and> n \<le> 126 then [c]
      else [backslash, CHR ''u'', CHR ''0'', CHR ''0'', hex_digit (n div 16), hex_digit (n mod 16)])"

definition json_string :: "string \<Rightarrow> string" where
  "json_string s = [dquote] @ concat (map json_escape s) @ [dquote]"

definition json_break :: "nat \<Rightarrow> string" where
  "json_break depth = line_feed # replicate (2 * depth) (CHR '' '')"

fun json_num :: "(real \<Rightarrow> string) \<Rightarrow> pynum \<Rightarrow> string" where
  "json_num float_repr (IntN i) = str_of_int i"
| "json_num float_repr (FloatN (Fin x)) = float_repr x"
| "json_num float_repr (FloatN PosInf) = ''Infinity''"
| "json_num float_repr (FloatN NegInf) = ''-Infinity''"
| "json_num float_repr (FloatN NotANumber) = ''NaN''"

definition json_block :: "nat \<Rightarrow> string \<Rightarrow> string \<Rightarrow> string list \<Rightarrow> string" where
  "json_block depth opening closing items =
     (if items = [] then opening @ closing
      else opening @ json_break (Suc depth) @ join_str (CHR '','' # json_break (Suc depth)) items
           @ json_break depth @ closing)"

fun json_dumps :: "(real \<Rightarrow> string) \<Rightarrow> nat \<Rightarrow> pyval \<Rightarrow> string" where
  "json_dumps fr depth VNone = ''null''"
| "json_dumps fr depth (VBool b) = (if b then ''true'' else ''false'')"
| "json_dumps fr depth (VNum n) = json_num fr n"
| "json_dumps fr depth (VStr s) = json_string s"
| "json_dumps fr depth (VList vs) = json_block depth ''['' '']'' (map (json_dumps fr (Suc depth)) vs)"
| "json_dumps fr depth (VDict d) =
     json_block depth ''{'' ''}'' (map (\<lambda>(k, v). json_string k @ '': '' @ json_dumps fr (Suc depth) v) d)"

fun estimate_tokens :: "(real \<Rightarrow> string) \<Rightarrow> pyval \<Rightarrow> nat" where
  "estimate_tokens fr payload =
     (let text = (case payload of VStr s \<Rightarrow> s | _ \<Rightarrow> json_dumps fr 0 payload) in
      max 1 ((length text + 3) div 4))"

definition input_token_budget :: "llm_settings \<Rightarrow> int" where
  "input_token_budget cfg =
     (if 0 < llm_max_input_tokens cfg then llm_max_input_tokens cfg else max 512 (llm_max_tokens cfg * 8))"

type_synonym packet = "(string \<times> pyval) list"

definition LIST_KEYS :: "string list" where
  "LIST_KEYS = [''evidence'', ''clusters'', ''secondary_clusters'', ''trigger_candidates'']"

definition trim_key :: "nat \<Rightarrow> string \<Rightarrow> packet \<Rightarrow> packet" where
  "trim_key cap key trimmed =
     (case dget trimmed key of
        Some (VList vs) \<Rightarrow> if cap < length vs then dset key (VList (take cap vs)) trimmed else trimmed
      | _ \<Rightarrow> trimmed)"

definition trim_evidence_packet :: "packet \<Rightarrow> int \<Rightarrow> packet" where
  "trim_evidence_packet pkt max_items = fold (trim_key (nat (max 0 max_items))) LIST_KEYS pkt"

text \<open>One round of the shrinking loop: the last item of the first list that still has one.\<close>

fun shrink_first :: "string list \<Rightarrow> packet \<Rightarrow> packet option" where
  "shrink_first [] trimmed = None"
| "shrink_first (key # keys) trimmed =
     (case dget trimmed key of
        Some (VList (v # vs)) \<Rightarrow> Some (dset key (VList (butlast (v # vs))) trimmed)
      | _ \<Rightarrow> shrink_first keys trimmed)"

fun list_size_at :: "packet \<Rightarrow> string \<Rightarrow> nat" where
  "list_size_at d key = (case dget d key of Some (VList vs) \<Rightarrow> length vs | _ \<Rightarrow> 0)"

definition evidence_load :: "packet \<Rightarrow> nat" where
  "evidence_load d = sum_list (map (list_size_at d) LIST_KEYS)"

datatype llm_exc =
    LLMCircuitOpen
  | LLMBudgetExceeded
  | HTTPStatusError int
  | OtherHTTPError
  | OtherException
  | NonException

lemma shrink_first_Some:
  assumes "shrink_first keys d = Some d'"
  obtains pre key post v vs where "keys = pre @ key # post" "dget d key = Some (VList (v # vs))"
    "d' = dset key (VList (butlast (v # vs))) d" "list_all (\<lambda>k. list_size_at d k = 0) pre"
  using assms
proof (induction keys arbitrary: thesis)
  case (Cons k keys)
  show ?case
  proof (cases "list_size_at d k = 0")
    case True
    then have "shrink_first keys d = Some d'"
      using Cons.prems(2) by (auto split: option.splits pyval.splits list.splits)
    then show ?thesis
      by (rule Cons.IH [rotated]) (rule Cons.prems(1) [of "k # _"], auto simp: True simp del: list_size_at.simps)
  next
    case False
    then obtain v vs where "dget d k = Some (VList (v # vs))"
      by (auto split: option.splits pyval.splits) (metis neq_Nil_conv)
    then show ?thesis using Cons.prems by (intro Cons.prems(1) [of "[]"]) auto
  qed
qed simp

lemma shrink_first_None: "shrink_first keys d = None \<longleftrightarrow> list_all (\<lambda>k. list_size_at d k = 0) keys"
proof (induction keys)
  case (Cons k keys)
  have "shrink_first (k # keys) d = None \<longleftrightarrow> list_size_at d k = 0 \<and> shrink_first keys d = None"
    by (auto split: option.splits pyval.splits list.splits)
  with Cons.IH show ?case by (simp del: list_size_at.simps shrink_first.simps)
qed simp

lemma list_size_dset: "list_size_at (dset k (VList vs) d) k' = (if k' = k then length vs else list_size_at d k')"
  by simp

lemma evidence_load_shrinks:
  assumes "shrink_first LIST_KEYS d = Some d'"
  shows "evidence_load d' < evidence_load d"
  using assms
proof (rule shrink_first_Some)
  fix pre key post v vs
  assume keys: "LIST_KEYS = pre @ key # post" and v: "dget d key = Some (VList (v # vs))"
    and d': "d' = dset key (VList (butlast (v # vs))) d"
  have le: "list_size_at d' k \<le> list_size_at d k" for k
    unfolding d' list_size_dset using v by simp
  have "list_size_at d' key < list_size_at d key" unfolding d' list_size_dset using v by simp
  moreover have "sum_list (map (list_size_at d') pre) \<le> sum_list (map (list_size_at d) pre)"
    "sum_list (map (list_size_at d') post) \<le> sum_list (map (list_size_at d) post)"
    using le by (simp_all add: sum_list_mono del: list_size_at.simps)
  ultimately show ?thesis by (simp add: evidence_load_def keys del: list_size_at.simps)
qed

function shrink_loop :: "(real \<Rightarrow> string) \<Rightarrow> int \<Rightarrow> packet \<Rightarrow> llm_exc + packet" where
  "shrink_loop fr budget trimmed =
     (if int (estimate_tokens fr (VDict trimmed)) \<le> budget then Inr trimmed
      else
        (case shrink_first LIST_KEYS trimmed of
           None \<Rightarrow> Inl LLMBudgetExceeded
         | Some trimmed' \<Rightarrow> shrink_loop fr budget trimmed'))"
  by pat_completeness auto
termination
  by (relation "measure (\<lambda>(fr, budget, d). evidence_load d)") (auto dest: evidence_load_shrinks)

declare shrink_loop.simps [simp del]

definition prepare_llm_packet :: "(real \<Rightarrow> string) \<Rightarrow> packet \<Rightarrow> llm_settings \<Rightarrow> llm_exc + packet" where
  "prepare_llm_packet fr pkt cfg =
     (let trimmed = trim_evidence_packet pkt (llm_max_evidence_items cfg);
          budget = input_token_budget cfg in
      if int (estimate_tokens fr (VDict trimmed)) \<le> budget then Inr trimmed
      else shrink_loop fr budget trimmed)"

section \<open>Cutting a packet\<close>

text \<open>\<open>r\<close> is \<open>d\<close> with some of the list fields cut at their end.\<close>

definition cut_entry :: "string \<times> pyval \<Rightarrow> string \<times> pyval \<Rightarrow> bool" where
  "cut_entry x y \<longleftrightarrow> fst x = fst y \<and>
     (snd x = snd y \<or> fst y \<in> set LIST_KEYS \<and> (\<exists>n vs. snd y = VList vs \<and> snd x = VList (take n vs)))"

definition cut_packet :: "packet \<Rightarrow> packet \<Rightarrow> bool" where
  "cut_packet r d \<longleftrightarrow> list_all2 cut_entry r d"

definition empty_entry :: "string \<times> pyval \<Rightarrow> string \<times> pyval" where
  "empty_entry x =
     (if fst x \<in> set LIST_KEYS then (fst x, case snd x of VList _ \<Rightarrow> VList [] | v \<Rightarrow> v) else x)"

lemma cut_entry_refl: "cut_entry x x"
  by (simp add: cut_entry_def)

lemma cut_entry_trans: "cut_entry x y \<Longrightarrow> cut_entry y z \<Longrightarrow> cut_entry x z"
  by (auto simp: cut_entry_def) ((rule exI, rule refl)+)

lemma cut_packet_refl [simp]: "cut_packet d d"
  by (simp add: cut_packet_def list_all2_refl cut_entry_refl)

lemma cut_packet_trans: "cut_packet a b \<Longrightarrow> cut_packet b c \<Longrightarrow> cut_packet a c"
  unfolding cut_packet_def by (rule list_all2_trans [of cut_entry cut_entry]) (auto intro: cut_entry_trans)

lemma cut_packet_dset:
  "dget d key = Some (VList vs) \<Longrightarrow> key \<in> set LIST_KEYS \<Longrightarrow> cut_packet (dset key (VList (take n vs)) d) d"
proof (induction d)
  case (Cons x d)
  then show ?case
    by (cases x) (auto simp: cut_packet_def cut_entry_def [of "(_, _)"] list_all2_refl cut_entry_refl split: if_splits)
qed simp

lemma cut_packet_keys: "cut_packet r d \<Longrightarrow> map fst r = map fst d"
  by (auto simp: cut_packet_def cut_entry_def list_all2_conv_all_nth intro: nth_equalityI)

lemma cut_trim_key: "key \<in> set LIST_KEYS \<Longrightarrow> cut_packet (trim_key cap key d) d"
  by (auto simp: trim_key_def cut_packet_dset split: option.splits pyval.splits)

lemma cut_trim_fold: "set keys \<subseteq> set LIST_KEYS \<Longrightarrow> cut_packet (fold (trim_key cap) keys d) d"
proof (induction keys arbitrary: d)
  case (Cons k keys)
  then have "cut_packet (fold (trim_key cap) keys (trim_key cap k d)) (trim_key cap k d)" by auto
  with Cons.prems show ?case by (auto intro: cut_packet_trans cut_trim_key)
qed simp

lemma cut_trim: "cut_packet (trim_evidence_packet d n) d"
  by (simp add: trim_evidence_packet_def cut_trim_fold)

lemma cut_shrink:
  assumes "shrink_first LIST_KEYS d = Some d'"
  shows "cut_packet d' d"
  using assms
proof (rule shrink_first_Some)
  fix pre key post v vs
  assume keys: "LIST_KEYS = pre @ key # post" and v: "dget d key = Some (VList (v # vs))"
    and d': "d' = dset key (VList (butlast (v # vs))) d"
  have "butlast (v # vs) = take (length vs) (v # vs)" by (simp add: butlast_conv_take)
  then show "cut_packet d' d" unfolding d' using cut_packet_dset [OF v] keys by (metis in_set_conv_decomp)
qed

lemma cut_empty: "cut_packet r d \<Longrightarrow> map empty_entry r = map empty_entry d"
  unfolding cut_packet_def
  by (induction rule: list_all2_induct) (auto simp: cut_entry_def empty_entry_def)

lemma empty_cut: "cut_packet (map empty_entry d) d"
proof -
  have "cut_entry (empty_entry x) x" for x
    by (cases x; cases "snd x") (auto simp: cut_entry_def empty_entry_def intro: exI [of _ 0])
  then show ?thesis by (simp add: cut_packet_def list_all2_map1 list_all2_refl)
qed

lemma no_evidence_empty:
  assumes "dict_wf r" and "list_all (\<lambda>k. list_size_at r k = 0) LIST_KEYS"
  shows "map empty_entry r = r"
proof (rule map_idI)
  fix x assume "x \<in> set r"
  then have "dget r (fst x) = Some (snd x)" using assms(1) by (simp add: dget_wf_iff)
  then show "empty_entry x = x"
    using assms(2) by (cases x) (auto simp: empty_entry_def list_all_iff split: pyval.splits)
qed

section \<open>A cut packet is not longer\<close>

lemma length_join: "items \<noteq> [] \<Longrightarrow> length (join_str sep items) = sum_list (map length items) + (length items - 1) * length sep"
  by (induction sep items rule: join_str.induct) auto

lemma length_block_take: "length (json_block depth a b (take n items)) \<le> length (json_block depth a b items)"
proof (cases "take n items = []")
  case False
  then have "items \<noteq> []" by auto
  have "sum_list (map length (take n items)) \<le> sum_list (map length items)"
    by (metis append_take_drop_id le_add1 map_append sum_list_append)
  moreover have "(length (take n items) - 1) * k \<le> (length items - 1) * k" for k by (intro mult_le_mono1) simp
  ultimately have "length (join_str sep (take n items)) \<le> length (join_str sep items)" for sep
    unfolding length_join [OF False] length_join [OF \<open>items \<noteq> []\<close>] by (rule add_mono)
  with False \<open>items \<noteq> []\<close> show ?thesis by (simp add: json_block_def del: take_eq_Nil)
qed (simp add: json_block_def)

lemma length_block_mono:
  assumes "list_all2 (\<lambda>x y. length x \<le> length y) xs ys"
  shows "length (json_block depth a b xs) \<le> length (json_block depth a b ys)"
proof -
  have "sum_list (map length xs) \<le> sum_list (map length ys)" using assms by (induction rule: list_all2_induct) auto
  moreover have len: "length xs = length ys" using assms by (rule list_all2_lengthD)
  ultimately have "length (join_str sep xs) \<le> length (join_str sep ys)" if "xs \<noteq> []" for sep
    using that by (cases "ys = []") (auto simp: length_join)
  moreover have "xs = [] \<longleftrightarrow> ys = []" using len by auto
  ultimately show ?thesis by (cases "xs = []") (auto simp: json_block_def)
qed

lemma estimate_mono: "cut_packet r d \<Longrightarrow> estimate_tokens fr (VDict r) \<le> estimate_tokens fr (VDict d)"
proof -
  assume "cut_packet r d"
  have entry: "fst x = fst y \<and> length (json_dumps fr 1 (snd x)) \<le> length (json_dumps fr 1 (snd y))" if "cut_entry x y" for x y
    using that length_block_take by (auto simp: cut_entry_def simp flip: take_map)
  have "list_all2 (\<lambda>x y. length x \<le> length y)
      (map (\<lambda>(k, v). json_string k @ '': '' @ json_dumps fr 1 v) r) (map (\<lambda>(k, v). json_string k @ '': '' @ json_dumps fr 1 v) d)"
    using \<open>cut_packet r d\<close> unfolding cut_packet_def list_all2_map1 list_all2_map2
    by (elim list_all2_mono) (auto simp: case_prod_beta simp del: json_dumps.simps One_nat_def dest: entry)
  then have "length (json_dumps fr 0 (VDict r)) \<le> length (json_dumps fr 0 (VDict d))"
    by (simp add: length_block_mono)
  then show ?thesis by (simp del: json_dumps.simps)
qed

section \<open>The shrinking loop\<close>

lemma shrink_loop_spec:
  "case shrink_loop fr budget d of
     Inr r \<Rightarrow> cut_packet r d \<and> int (estimate_tokens fr (VDict r)) \<le> budget
   | Inl e \<Rightarrow> e = LLMBudgetExceeded \<and> (\<exists>r. cut_packet r d \<and> list_all (\<lambda>k. list_size_at r k = 0) LIST_KEYS
       \<and> budget < int (estimate_tokens fr (VDict r)))"
proof (induction fr budget d rule: shrink_loop.induct)
  case (1 fr budget d)
  show ?case
  proof (cases "int (estimate_tokens fr (VDict d)) \<le> budget")
    case True
    then show ?thesis by (simp add: shrink_loop.simps del: estimate_tokens.simps)
  next
    case over: False
    show ?thesis
    proof (cases "shrink_first LIST_KEYS d")
      case None
      then have "shrink_loop fr budget d = Inl LLMBudgetExceeded"
        using over by (simp add: shrink_loop.simps [of _ _ d] del: estimate_tokens.simps)
      with None over show ?thesis
        by (auto simp: shrink_first_None simp del: estimate_tokens.simps list_size_at.simps intro: exI [of _ d])
    next
      case (Some d')
      then have eq: "shrink_loop fr budget d = shrink_loop fr budget d'"
        using over by (simp add: shrink_loop.simps [of _ _ d] del: estimate_tokens.simps)
      have cut: "cut_packet r d" if "cut_packet r d'" for r
        using that cut_shrink [OF Some] by (rule cut_packet_trans)
      show ?thesis
      proof (cases "shrink_loop fr budget d'")
        case (Inl e)
        with "1" [OF over Some] obtain r where "e = LLMBudgetExceeded" "cut_packet r d'"
          "list_all (\<lambda>k. list_size_at r k = 0) LIST_KEYS" "budget < int (estimate_tokens fr (VDict r))"
          by (auto simp del: estimate_tokens.simps list_size_at.simps)
        with cut Inl eq show ?thesis by (simp del: estimate_tokens.simps list_size_at.simps) blast
      next
        case (Inr r)
        with "1" [OF over Some] cut eq show ?thesis by (simp del: estimate_tokens.simps)
      qed
    qed
  qed
qed

lemma list_size_cut: "cut_packet r d \<Longrightarrow> list_size_at r k \<le> list_size_at d k"
  unfolding cut_packet_def
proof (induction rule: list_all2_induct)
  case (Cons x r y d)
  have head: "list_size_at (z # zs) k = (if k = fst z then list_size_at [z] k else list_size_at zs k)" for z zs
    by simp
  have "list_size_at [x] (fst x) \<le> list_size_at [y] (fst y)"
    using Cons.hyps(1) by (cases x; cases y) (auto simp: cut_entry_def)
  with Cons show ?case unfolding head [of x r] head [of y d] by (simp add: cut_entry_def del: list_size_at.simps)
qed simp

lemma shrink_order:
  assumes "shrink_first LIST_KEYS d = Some d'" and "dget d' (LIST_KEYS ! j) \<noteq> dget d (LIST_KEYS ! j)" and "i < j" "j < length LIST_KEYS"
  shows "list_size_at d (LIST_KEYS ! i) = 0"
  using assms(1)
proof (rule shrink_first_Some)
  fix pre key post v vs
  assume keys: "LIST_KEYS = pre @ key # post" and v: "dget d key = Some (VList (v # vs))"
    and d': "d' = dset key (VList (butlast (v # vs))) d" and pre: "list_all (\<lambda>k. list_size_at d k = 0) pre"
  have "distinct LIST_KEYS" by (simp add: LIST_KEYS_def)
  moreover have "LIST_KEYS ! j = key" using assms(2) by (auto simp: d' split: if_splits)
  moreover have "LIST_KEYS ! length pre = key" "length pre < length LIST_KEYS" by (simp_all add: keys)
  ultimately have "j = length pre" using assms(4) by (metis nth_eq_iff_index_eq)
  then have "LIST_KEYS ! i \<in> set pre" using assms(3) by (simp add: keys nth_append)
  then show ?thesis using pre by (simp add: list_all_iff del: list_size_at.simps)
qed

lemma shrink_loop_order:
  assumes "shrink_loop fr budget d = Inr r" and "dget r (LIST_KEYS ! j) \<noteq> dget d (LIST_KEYS ! j)"
    and "i < j" "j < length LIST_KEYS"
  shows "list_size_at r (LIST_KEYS ! i) = 0"
  using assms(1,2)
proof (induction fr budget d rule: shrink_loop.induct)
  case (1 fr budget d)
  show ?case
  proof (cases "int (estimate_tokens fr (VDict d)) \<le> budget")
    case True
    with "1.prems" show ?thesis by (simp add: shrink_loop.simps [of _ _ d] del: estimate_tokens.simps)
  next
    case over: False
    with "1.prems"(1) obtain d' where d': "shrink_first LIST_KEYS d = Some d'" "shrink_loop fr budget d' = Inr r"
      by (auto simp: shrink_loop.simps [of _ _ d] simp del: estimate_tokens.simps split: option.splits)
    show ?thesis
    proof (cases "dget r (LIST_KEYS ! j) = dget d' (LIST_KEYS ! j)")
      case True
      with "1.prems"(2) shrink_order [OF d'(1) _ assms(3,4)] have "list_size_at d (LIST_KEYS ! i) = 0" by metis
      moreover have "cut_packet r d'" using shrink_loop_spec [where fr = fr and budget = budget and d = d'] d'(2) by simp
      ultimately show ?thesis
        using list_size_cut cut_shrink [OF d'(1)] by (metis cut_packet_trans le_zero_eq)
    next
      case False
      with "1.IH" [OF over d'(1) d'(2)] show ?thesis by blast
    qed
  qed
qed

lemma trim_size:
  assumes "k \<in> set LIST_KEYS"
  shows "list_size_at (trim_evidence_packet d n) k \<le> nat (max 0 n)"
proof -
  have step: "list_size_at (trim_key cap key d) key \<le> cap" for cap key d
    by (auto simp: trim_key_def split: option.splits pyval.splits)
  have later: "set keys \<subseteq> set LIST_KEYS \<Longrightarrow> k \<in> set keys \<Longrightarrow> list_size_at (fold (trim_key cap) keys d) k \<le> cap" for keys cap d
  proof (induction keys arbitrary: d)
    case (Cons key keys)
    show ?case
    proof (cases "k \<in> set keys")
      case True
      with Cons show ?thesis by (simp del: list_size_at.simps)
    next
      case False
      have "cut_packet (fold (trim_key cap) keys (trim_key cap key d)) (trim_key cap key d)"
        using Cons.prems(1) by (intro cut_trim_fold) auto
      with step [of cap key d] list_size_cut [of _ "trim_key cap key d" key] False Cons.prems show ?thesis
        by (auto simp del: list_size_at.simps intro: le_trans)
    qed
  qed simp
  from assms show ?thesis unfolding trim_evidence_packet_def by (intro later) simp_all
qed

lemma dict_wf_cut: "cut_packet r d \<Longrightarrow> dict_wf r = dict_wf d"
  by (simp add: dict_wf_def cut_packet_keys)

lemma emptied_over_budget:
  assumes "dict_wf d" and "cut_packet r d" and "list_all (\<lambda>k. list_size_at r k = 0) LIST_KEYS"
  shows "r = map empty_entry d"
  using no_evidence_empty [OF _ assms(3)] assms dict_wf_cut cut_empty by metis

text \<open>
  C39: Preparing the evidence packet for the LLM always ends. The packet returned fits the token budget
  and is the given packet with its four evidence lists cut at their ends to at most the configured
  number of items; every other field is untouched. A later list loses an item only when all earlier
  ones are already empty. The budget error is raised exactly when the packet is over budget even
  without any listed evidence.
\<close>

theorem prepare_llm_packet_spec:
  assumes "dict_wf pkt"
  shows "case prepare_llm_packet fr pkt cfg of
      Inr r \<Rightarrow>
        cut_packet r pkt \<and> int (estimate_tokens fr (VDict r)) \<le> input_token_budget cfg
        \<and> list_all (\<lambda>k. list_size_at r k \<le> nat (max 0 (llm_max_evidence_items cfg))) LIST_KEYS
        \<and> (\<forall>i j. i < j \<and> j < length LIST_KEYS
             \<and> dget r (LIST_KEYS ! j) \<noteq> dget (trim_evidence_packet pkt (llm_max_evidence_items cfg)) (LIST_KEYS ! j)
             \<longrightarrow> list_size_at r (LIST_KEYS ! i) = 0)
        \<and> int (estimate_tokens fr (VDict (map empty_entry pkt))) \<le> input_token_budget cfg
    | Inl e \<Rightarrow> e = LLMBudgetExceeded \<and> input_token_budget cfg < int (estimate_tokens fr (VDict (map empty_entry pkt)))"
proof -
  define t where "t = trim_evidence_packet pkt (llm_max_evidence_items cfg)"
  define B where "B = input_token_budget cfg"
  have t: "cut_packet t pkt" unfolding t_def by (rule cut_trim)
  have eq: "prepare_llm_packet fr pkt cfg = shrink_loop fr B t"
    by (simp add: prepare_llm_packet_def t_def B_def Let_def shrink_loop.simps [of _ _ "trim_evidence_packet _ _"]
        del: estimate_tokens.simps)
  show ?thesis
  proof (cases "shrink_loop fr B t")
    case (Inl e)
    with shrink_loop_spec [where fr = fr and budget = B and d = t] obtain r where "e = LLMBudgetExceeded" "cut_packet r t"
      "list_all (\<lambda>k. list_size_at r k = 0) LIST_KEYS" and over: "B < int (estimate_tokens fr (VDict r))"
      by (auto simp del: estimate_tokens.simps list_size_at.simps)
    moreover from this have "r = map empty_entry pkt"
      using assms t by (intro emptied_over_budget) (auto intro: cut_packet_trans)
    ultimately show ?thesis using Inl eq by (simp add: B_def del: estimate_tokens.simps)
  next
    case (Inr r)
    with shrink_loop_spec [where fr = fr and budget = B and d = t] have r: "cut_packet r t" "int (estimate_tokens fr (VDict r)) \<le> B"
      by (simp_all del: estimate_tokens.simps)
    have pkt: "cut_packet r pkt" using r(1) t by (rule cut_packet_trans)
    have "estimate_tokens fr (VDict (map empty_entry pkt)) \<le> estimate_tokens fr (VDict r)"
      using estimate_mono [OF empty_cut [of r]] by (simp only: cut_empty [OF pkt])
    moreover have "list_size_at r k \<le> nat (max 0 (llm_max_evidence_items cfg))" if "k \<in> set LIST_KEYS" for k
      using list_size_cut [OF r(1), of k] trim_size [OF that] unfolding t_def by (rule le_trans)
    moreover have "list_size_at r (LIST_KEYS ! i) = 0"
      if "i < j" "j < length LIST_KEYS" "dget r (LIST_KEYS ! j) \<noteq> dget t (LIST_KEYS ! j)" for i j
      using Inr that(3,1,2) by (rule shrink_loop_order)
    ultimately show ?thesis
      using pkt r(2) eq [unfolded Inr]
      by (auto simp: list_all_iff simp del: estimate_tokens.simps list_size_at.simps simp flip: t_def B_def)
  qed
qed

definition demo_packet :: packet where
  "demo_packet = [(''window'', VStr ''w''), (''evidence'', VList [VStr ''a'', VStr ''b'']), (''clusters'', VList [VStr ''c''])]"

definition demo_llm :: llm_settings where
  "demo_llm = \<lparr>llm_max_retries = 2, llm_max_tokens = 600, llm_max_input_tokens = 17, llm_breaker_threshold = 2,
     llm_breaker_cooldown_seconds = 60, llm_max_evidence_items = 1\<rparr>"

theorem prepare_llm_packet_spec_witness:
  "prepare_llm_packet (\<lambda>_. []) demo_packet demo_llm
     = Inr [(''window'', VStr ''w''), (''evidence'', VList []), (''clusters'', VList [VStr ''c''])]
   \<and> int (estimate_tokens (\<lambda>_. []) (VDict [(''window'', VStr ''w''), (''evidence'', VList []), (''clusters'', VList [VStr ''c''])]))
       \<le> input_token_budget demo_llm"
proof
  show eq: "prepare_llm_packet (\<lambda>_. []) demo_packet demo_llm
     = Inr [(''window'', VStr ''w''), (''evidence'', VList []), (''clusters'', VList [VStr ''c''])]"
    by code_simp
  have "dict_wf demo_packet" by code_simp
  from prepare_llm_packet_spec [OF this, where fr = "\<lambda>_. []" and cfg = demo_llm]
  show "int (estimate_tokens (\<lambda>_. []) (VDict [(''window'', VStr ''w''), (''evidence'', VList []), (''clusters'', VList [VStr ''c''])]))
       \<le> input_token_budget demo_llm"
    unfolding eq by (simp del: estimate_tokens.simps)
qed

section \<open>The retried call\<close>

fun is_retryable_llm_error :: "llm_exc \<Rightarrow> bool" where
  "is_retryable_llm_error LLMCircuitOpen = False"
| "is_retryable_llm_error LLMBudgetExceeded = False"
| "is_retryable_llm_error (HTTPStatusError code) = (code = 429 \<or> 500 \<le> code)"
| "is_retryable_llm_error OtherHTTPError = True"
| "is_retryable_llm_error OtherException = True"
| "is_retryable_llm_error NonException = True"

text \<open>
  \<open>attempt i\<close> is the outcome of the provider's call number \<open>i\<close>; \<open>retrying n p attempt\<close> is what iterating
  \<open>Retrying(stop=stop_after_attempt(n), retry=retry_if_exception(p), reraise=True)\<close> ends with.
\<close>

type_synonym attempts = "nat \<Rightarrow> llm_exc + string"
type_synonym retrier = "nat \<Rightarrow> (llm_exc \<Rightarrow> bool) \<Rightarrow> attempts \<Rightarrow> llm_exc + string"

definition invoke_llm ::
    "retrier \<Rightarrow> llm_settings \<Rightarrow> real \<Rightarrow> real \<Rightarrow> attempts \<Rightarrow> breaker \<Rightarrow> (llm_exc + string) \<times> breaker" where
  "invoke_llm retrying cfg started ended attempt b =
     (let threshold = llm_breaker_threshold cfg; cooldown = llm_breaker_cooldown_seconds cfg;
          (ok, b) = breaker_allow started cooldown b in
      if \<not> ok then (Inl LLMCircuitOpen, b)
      else
        (case retrying (nat (max 1 (llm_max_retries cfg + 1))) is_retryable_llm_error attempt of
           Inr result \<Rightarrow> (Inr result, record_success b)
         | Inl LLMCircuitOpen \<Rightarrow> (Inl LLMCircuitOpen, b)
         | Inl LLMBudgetExceeded \<Rightarrow> (Inl LLMBudgetExceeded, b)
         | Inl NonException \<Rightarrow> (Inl NonException, b)
         | Inl e \<Rightarrow> (Inl e, record_failure ended threshold b)))"

text \<open>\<open>ResilientLLMProvider\<close>: \<open>inner p i\<close> is the provider's attempt number \<open>i\<close> on the prepared packet \<open>p\<close>.\<close>

definition resilient_generate_summary ::
    "(real \<Rightarrow> string) \<Rightarrow> retrier \<Rightarrow> llm_settings \<Rightarrow> real \<Rightarrow> real \<Rightarrow> (packet \<Rightarrow> attempts) \<Rightarrow> packet \<Rightarrow> breaker \<Rightarrow>
     (llm_exc + string) \<times> breaker" where
  "resilient_generate_summary fr retrying cfg started ended inner pkt b =
     (case prepare_llm_packet fr pkt cfg of
        Inl e \<Rightarrow> (Inl e, b)
      | Inr prepared \<Rightarrow> invoke_llm retrying cfg started ended (inner prepared) b)"

definition resilient_complete ::
    "retrier \<Rightarrow> llm_settings \<Rightarrow> real \<Rightarrow> real \<Rightarrow> (string \<Rightarrow> string \<Rightarrow> attempts) option \<Rightarrow> string \<Rightarrow> string \<Rightarrow> breaker \<Rightarrow>
     (llm_exc + string) \<times> breaker" where
  "resilient_complete retrying cfg started ended inner system_prompt user_message b =
     (case inner of
        None \<Rightarrow> (Inr [], b)
      | Some call \<Rightarrow> invoke_llm retrying cfg started ended (call system_prompt user_message) b)"

text \<open>The documented contract of the retry library: the outcome is that of the last attempt made, and
  another attempt is made exactly after a retryable error while the limit is not reached.\<close>

fun fails_retryably :: "(llm_exc \<Rightarrow> bool) \<Rightarrow> llm_exc + string \<Rightarrow> bool" where
  "fails_retryably p (Inl e) = p e"
| "fails_retryably p (Inr s) = False"

definition retries_ok :: "retrier \<Rightarrow> bool" where
  "retries_ok retrying \<longleftrightarrow>
     (\<forall>n p f. 0 < n \<longrightarrow> (\<exists>k < n. retrying n p f = f k \<and> (\<forall>j < k. fails_retryably p (f j))
        \<and> (k = n - 1 \<or> \<not> fails_retryably p (f k))))"

fun retry_loop :: retrier where
  "retry_loop 0 p f = f 0"
| "retry_loop (Suc 0) p f = f 0"
| "retry_loop (Suc n) p f = (if fails_retryably p (f 0) then retry_loop n p (\<lambda>i. f (Suc i)) else f 0)"

lemma retry_loop_ok: "retries_ok retry_loop"
proof -
  have "0 < n \<Longrightarrow> \<exists>k < n. retry_loop n p f = f k \<and> (\<forall>j < k. fails_retryably p (f j)) \<and> (k = n - 1 \<or> \<not> fails_retryably p (f k))" for n p f
  proof (induction n p f rule: retry_loop.induct)
    case (3 m p f)
    show ?case
    proof (cases "fails_retryably p (f 0)")
      case True
      with "3.IH" obtain k where k: "k < Suc m" "retry_loop (Suc m) p (\<lambda>i. f (Suc i)) = f (Suc k)"
        "\<forall>j < k. fails_retryably p (f (Suc j))" "k = m \<or> \<not> fails_retryably p (f (Suc k))" by auto
      then have "\<forall>j < Suc k. fails_retryably p (f j)" using True by (auto simp: less_Suc_eq_0_disj)
      with k True show ?thesis by (intro exI [of _ "Suc k"]) auto
    qed (auto intro: exI [of _ 0])
  qed auto
  then show ?thesis by (simp add: retries_ok_def)
qed

section \<open>The breaker as a machine\<close>

datatype breaker_event = EvAllow real | EvSuccess | EvFailure real | EvReset

fun breaker_step :: "llm_settings \<Rightarrow> breaker \<Rightarrow> breaker_event \<Rightarrow> breaker" where
  "breaker_step cfg b (EvAllow now) = snd (breaker_allow now (llm_breaker_cooldown_seconds cfg) b)"
| "breaker_step cfg b EvSuccess = record_success b"
| "breaker_step cfg b (EvFailure now) = record_failure now (llm_breaker_threshold cfg) b"
| "breaker_step cfg b EvReset = breaker_reset b"

definition breaker_ok :: "llm_settings \<Rightarrow> breaker \<Rightarrow> bool" where
  "breaker_ok cfg b \<longleftrightarrow>
     0 \<le> br_failures b
     \<and> (br_opened_at b \<noteq> None \<longleftrightarrow> 0 < llm_breaker_threshold cfg \<and> llm_breaker_threshold cfg \<le> br_failures b)
     \<and> (br_probe_in_flight b \<longrightarrow> br_opened_at b \<noteq> None)"

lemma round_half_even_pos:
  assumes "0 \<le> y"
  shows "0 < round_half_even y \<longleftrightarrow> 1 / 2 < y"
proof (cases "\<lfloor>y\<rfloor> = 0")
  case True
  then show ?thesis by (auto simp: round_half_even_def Let_def)
next
  case False
  with assms have "1 \<le> \<lfloor>y\<rfloor>" by linarith
  then have "1 \<le> round_half_even y" "1 \<le> y" by (auto simp: round_half_even_def Let_def le_floor_iff)
  then show ?thesis by linarith
qed

lemma round1_pos: "0 \<le> x \<Longrightarrow> 0 < round1 x \<longleftrightarrow> 1 / 20 < x"
  using round_half_even_pos [of "x * 10"] by (auto simp: round1_def)

lemma state_unlocked_fst:
  "fst (state_unlocked now cd b) =
     (case br_opened_at b of None \<Rightarrow> Closed | Some t \<Rightarrow> if now < t + cd - 1 / 20 then Open else HalfOpen)"
proof (cases "br_opened_at b")
  case (Some t)
  have "0 < round1 (max 0 (cd - (now - t))) \<longleftrightarrow> now < t + cd - 1 / 20"
    by (subst round1_pos) (simp, linarith)
  with Some show ?thesis by (simp add: state_unlocked_def Let_def)
qed (simp add: state_unlocked_def)

lemma breaker_allow_simps:
  "br_opened_at b = None \<Longrightarrow> breaker_allow now cd b = (True, b)"
  "br_opened_at b = Some t \<Longrightarrow> now < t + cd - 1 / 20 \<Longrightarrow> breaker_allow now cd b = (False, b)"
  "br_opened_at b = Some t \<Longrightarrow> \<not> now < t + cd - 1 / 20 \<Longrightarrow>
     breaker_allow now cd b = (\<not> br_probe_in_flight b, b\<lparr>br_probe_in_flight := True\<rparr>)"
  by (auto simp: breaker_allow_def state_unlocked_fst)

lemma breaker_allow_ok: "breaker_ok cfg b \<Longrightarrow> breaker_ok cfg (snd (breaker_allow now cd b))"
  by (auto simp: breaker_allow_def breaker_ok_def state_unlocked_fst split: option.splits)

lemma record_failure_ok: "breaker_ok cfg b \<Longrightarrow> breaker_ok cfg (record_failure now (llm_breaker_threshold cfg) b)"
  by (auto simp: breaker_ok_def record_failure_def Let_def)

lemma record_success_ok: "breaker_ok cfg (record_success b)" "breaker_ok cfg (breaker_reset b)"
  by (auto simp: breaker_ok_def record_success_def breaker_reset_def)

interpretation breaker: event_machine new_breaker "breaker_step cfg" "\<lambda>_ _. True" "breaker_ok cfg" for cfg
proof unfold_locales
  show "breaker_ok cfg new_breaker" by (auto simp: breaker_ok_def new_breaker_def)
  show "breaker_ok cfg b \<Longrightarrow> True \<Longrightarrow> breaker_ok cfg (breaker_step cfg b e)" for b e
    by (cases e) (simp_all add: breaker_allow_ok record_failure_ok record_success_ok)
qed

text \<open>Every call of the wrapper is a short run of the machine.\<close>

lemma invoke_llm_events:
  "\<exists>es. snd (invoke_llm retrying cfg started ended attempt b) = foldl (breaker_step cfg) b es"
proof -
  let ?b = "breaker_step cfg b (EvAllow started)"
  have "snd (invoke_llm retrying cfg started ended attempt b) \<in> {?b, record_success ?b, record_failure ended (llm_breaker_threshold cfg) ?b}"
    by (auto simp: invoke_llm_def Let_def split: prod.splits sum.splits llm_exc.splits)
  moreover have "?b = foldl (breaker_step cfg) b [EvAllow started]"
    "record_success ?b = foldl (breaker_step cfg) b [EvAllow started, EvSuccess]"
    "record_failure ended (llm_breaker_threshold cfg) ?b = foldl (breaker_step cfg) b [EvAllow started, EvFailure ended]"
    by simp_all
  ultimately show ?thesis by (metis empty_iff insert_iff)
qed

record llm_call =
  lc_started :: real
  lc_ended :: real
  lc_attempt :: attempts

definition run_call :: "retrier \<Rightarrow> llm_settings \<Rightarrow> breaker \<Rightarrow> llm_call \<Rightarrow> breaker" where
  "run_call retrying cfg b c = snd (invoke_llm retrying cfg (lc_started c) (lc_ended c) (lc_attempt c) b)"

lemma admissible_always: "admissible (\<lambda>_ _. True) step s es"
  by (induction es arbitrary: s) auto

lemma run_call_ok: "breaker_ok cfg b \<Longrightarrow> breaker_ok cfg (run_call retrying cfg b c)"
  unfolding run_call_def using invoke_llm_events breaker.inv_from admissible_always by metis

fun ordinary :: "llm_exc + string \<Rightarrow> bool" where
  "ordinary (Inl LLMCircuitOpen) = False"
| "ordinary (Inl LLMBudgetExceeded) = False"
| "ordinary (Inl NonException) = False"
| "ordinary _ = True"

lemma retry_outcome:
  assumes "retries_ok retrying" and "0 < n"
  obtains k where "retrying n p f = f k" "\<And>j. j < k \<Longrightarrow> fails_retryably p (f j)"
  using assms unfolding retries_ok_def by blast

lemma retry_first: "retries_ok retrying \<Longrightarrow> 0 < n \<Longrightarrow> f 0 = Inr s \<Longrightarrow> retrying n p f = Inr s"
  by (rule retry_outcome [of retrying n p f]) (auto, metis fails_retryably.simps(2) gr0I)

lemma attempt_limit_pos [simp]: "0 < nat (max 1 (x + 1))"
  by simp

lemma ordinary_invoke:
  assumes "retries_ok retrying" and "\<And>i. ordinary (attempt i)"
  shows "snd (invoke_llm retrying cfg started ended attempt b) =
    (let (ok, b') = breaker_allow started (llm_breaker_cooldown_seconds cfg) b in
     if \<not> ok then b'
     else if (\<exists>s. retrying (nat (max 1 (llm_max_retries cfg + 1))) is_retryable_llm_error attempt = Inr s)
     then record_success b' else record_failure ended (llm_breaker_threshold cfg) b')"
proof -
  obtain k where k: "retrying (nat (max 1 (llm_max_retries cfg + 1))) is_retryable_llm_error attempt = attempt k"
    using retry_outcome [OF assms(1) attempt_limit_pos] by metis
  have "ordinary (attempt k)" by (rule assms(2))
  then show ?thesis
    by (cases "attempt k") (auto simp: invoke_llm_def k Let_def split: prod.splits llm_exc.splits)
qed

section \<open>Opening\<close>

definition call_fails :: "llm_call \<Rightarrow> bool" where
  "call_fails c \<longleftrightarrow> (\<forall>i. \<exists>e. lc_attempt c i = Inl e \<and> ordinary (Inl e))"

lemma fails_ordinary: "call_fails c \<Longrightarrow> ordinary (lc_attempt c i)"
  unfolding call_fails_def by metis

lemma failing_call:
  assumes "retries_ok retrying" and "call_fails c" and "br_opened_at b = None"
  shows "run_call retrying cfg b c = record_failure (lc_ended c) (llm_breaker_threshold cfg) b"
proof -
  obtain k where "retrying (nat (max 1 (llm_max_retries cfg + 1))) is_retryable_llm_error (lc_attempt c) = lc_attempt c k"
    using retry_outcome [OF assms(1) attempt_limit_pos] by metis
  moreover have "lc_attempt c k \<noteq> Inr s" for s using assms(2) unfolding call_fails_def by (metis Inl_Inr_False)
  ultimately show ?thesis
    using ordinary_invoke [OF assms(1) fails_ordinary [OF assms(2)]] assms(3)
    by (simp add: run_call_def breaker_allow_simps)
qed

lemma failing_calls:
  assumes "retries_ok retrying" and "0 < llm_breaker_threshold cfg" and "list_all call_fails cs"
    and "int (length cs) < llm_breaker_threshold cfg"
  shows "foldl (run_call retrying cfg) new_breaker cs = \<lparr>br_failures = int (length cs), br_opened_at = None, br_probe_in_flight = False\<rparr>"
  using assms(3,4)
proof (induction cs rule: rev_induct)
  case Nil
  then show ?case by (simp add: new_breaker_def)
next
  case (snoc c cs)
  with assms(1,2) show ?case by (simp add: failing_call record_failure_def)
qed

text \<open>
  The breaker opens after exactly the threshold of consecutive failed calls, each counted once
  whatever its number of retries: before that it stays closed, then it carries the time of the last
  failure, and until the cooldown is over (to the twentieth of a second the remaining time is rounded
  by) every call is refused without an attempt and without a change of the breaker.
\<close>

theorem breaker_opens_after_threshold:
  assumes "retries_ok retrying" and "0 < llm_breaker_threshold cfg" and "list_all call_fails (cs @ [c])"
    and "b = foldl (run_call retrying cfg) new_breaker (cs @ [c])"
  shows "(int (length (cs @ [c])) < llm_breaker_threshold cfg \<longrightarrow> br_opened_at b = None)
    \<and> (int (length (cs @ [c])) = llm_breaker_threshold cfg \<longrightarrow>
         br_opened_at b = Some (lc_ended c)
         \<and> (\<forall>started ended attempt retrying'.
              started < lc_ended c + llm_breaker_cooldown_seconds cfg - 1 / 20 \<longrightarrow>
              invoke_llm retrying' cfg started ended attempt b = (Inl LLMCircuitOpen, b)))"
proof (intro conjI impI)
  assume "int (length (cs @ [c])) < llm_breaker_threshold cfg"
  then show "br_opened_at b = None" using failing_calls [OF assms(1-3)] assms(4) by simp
next
  assume n: "int (length (cs @ [c])) = llm_breaker_threshold cfg"
  then have "foldl (run_call retrying cfg) new_breaker cs = \<lparr>br_failures = int (length cs), br_opened_at = None, br_probe_in_flight = False\<rparr>"
    using assms by (intro failing_calls) auto
  then have opened: "br_opened_at b = Some (lc_ended c)"
    using assms n by (simp add: failing_call record_failure_def)
  then show "br_opened_at b = Some (lc_ended c)" .
  from opened show "\<forall>started ended attempt retrying'.
      started < lc_ended c + llm_breaker_cooldown_seconds cfg - 1 / 20 \<longrightarrow>
      invoke_llm retrying' cfg started ended attempt b = (Inl LLMCircuitOpen, b)"
    by (simp add: invoke_llm_def breaker_allow_simps)
qed

definition demo_failure :: llm_call where
  "demo_failure = \<lparr>lc_started = 1, lc_ended = 2, lc_attempt = (\<lambda>_. Inl (HTTPStatusError 503))\<rparr>"

theorem breaker_opens_after_threshold_witness:
  "br_opened_at (foldl (run_call retry_loop demo_llm) new_breaker [demo_failure, demo_failure]) = Some 2
   \<and> invoke_llm retry_loop demo_llm 30 31 (\<lambda>_. Inr ''text'') (foldl (run_call retry_loop demo_llm) new_breaker [demo_failure, demo_failure])
     = (Inl LLMCircuitOpen, foldl (run_call retry_loop demo_llm) new_breaker [demo_failure, demo_failure])"
proof -
  have "list_all call_fails ([demo_failure] @ [demo_failure])" by (simp add: demo_failure_def call_fails_def)
  moreover have "0 < llm_breaker_threshold demo_llm" by (simp add: demo_llm_def)
  ultimately show ?thesis
    using breaker_opens_after_threshold [OF retry_loop_ok, of demo_llm "[demo_failure]" demo_failure, OF _ _ refl]
    by (simp add: demo_llm_def demo_failure_def)
qed

section \<open>Recovery\<close>

definition call_ordinary :: "llm_call \<Rightarrow> bool" where
  "call_ordinary c \<longleftrightarrow> (\<forall>i. ordinary (lc_attempt c i))"

lemma ordinary_call_clears_probe:
  assumes "retries_ok retrying" and "call_ordinary c" and "\<not> br_probe_in_flight b"
  shows "\<not> br_probe_in_flight (run_call retrying cfg b c)"
proof -
  have "ordinary (lc_attempt c i)" for i using assms(2) by (simp add: call_ordinary_def)
  from ordinary_invoke [OF assms(1) this] show ?thesis
    using assms(3)
    by (auto simp: run_call_def breaker_allow_def record_success_def record_failure_def Let_def
        split: breaker_state.splits if_splits)
qed

lemma ordinary_history_no_probe:
  assumes "retries_ok retrying" and "list_all call_ordinary cs"
  shows "\<not> br_probe_in_flight (foldl (run_call retrying cfg) new_breaker cs)"
  using assms(2)
proof (induction cs rule: rev_induct)
  case Nil
  then show ?case by (simp add: new_breaker_def)
next
  case (snoc c cs)
  then show ?case using ordinary_call_clears_probe [OF assms(1)] by simp
qed

text \<open>
  The breaker recovers. After any history of calls, each of which ended with an answer or an
  ordinary exception, the breaker never holds a stale probe: once the cooldown has passed the next
  call reaches the provider, and when the provider answers the caller gets the answer and the breaker
  is closed with no failure on record.
\<close>

theorem breaker_recovers:
  assumes "retries_ok retrying" and "list_all call_ordinary cs"
    and "b = foldl (run_call retrying cfg) new_breaker cs"
    and "case br_opened_at b of None \<Rightarrow> True | Some t \<Rightarrow> t + llm_breaker_cooldown_seconds cfg \<le> started"
    and "attempt 0 = Inr s"
  shows "invoke_llm retrying cfg started ended attempt b = (Inr s, new_breaker)"
proof -
  have answer: "retrying (nat (max 1 (llm_max_retries cfg + 1))) is_retryable_llm_error attempt = Inr s"
    using assms(5) by (rule retry_first [OF assms(1) attempt_limit_pos])
  have "\<not> br_probe_in_flight b" using ordinary_history_no_probe [OF assms(1,2)] assms(3) by simp
  moreover have "\<not> started < t + llm_breaker_cooldown_seconds cfg - 1 / 20" if "br_opened_at b = Some t" for t
    using assms(4) that by simp
  ultimately have "fst (breaker_allow started (llm_breaker_cooldown_seconds cfg) b)"
    by (cases "br_opened_at b") (auto simp: breaker_allow_simps)
  then show ?thesis
    using answer by (auto simp: invoke_llm_def record_success_def new_breaker_def Let_def split: prod.splits)
qed

theorem breaker_recovers_witness:
  "invoke_llm retry_loop demo_llm 62 63 (\<lambda>_. Inr ''text'') (foldl (run_call retry_loop demo_llm) new_breaker [demo_failure, demo_failure])
   = (Inr ''text'', new_breaker)"
proof (rule breaker_recovers [OF retry_loop_ok _ refl])
  show "list_all call_ordinary [demo_failure, demo_failure]" by (simp add: demo_failure_def call_ordinary_def)
  have "foldl (run_call retry_loop demo_llm) new_breaker [demo_failure] = \<lparr>br_failures = 1, br_opened_at = None, br_probe_in_flight = False\<rparr>"
    using failing_calls [OF retry_loop_ok, of demo_llm "[demo_failure]"] by (simp add: demo_llm_def demo_failure_def call_fails_def)
  then have "br_opened_at (foldl (run_call retry_loop demo_llm) new_breaker [demo_failure, demo_failure]) = Some 2"
    using failing_call [OF retry_loop_ok, of demo_failure] by (simp add: demo_failure_def call_fails_def record_failure_def demo_llm_def)
  then show "case br_opened_at (foldl (run_call retry_loop demo_llm) new_breaker [demo_failure, demo_failure]) of None \<Rightarrow> True
      | Some t \<Rightarrow> t + llm_breaker_cooldown_seconds demo_llm \<le> 62"
    by (simp add: demo_llm_def)
qed simp

text \<open>
  An interrupt that is not an \<open>Exception\<close> during the half-open probe is not recorded: the probe flag stays
  set and no later call is admitted, at any time.
\<close>

lemma interrupted_probe_locks:
  assumes "retries_ok retrying" and "br_opened_at b = Some t" and "t + llm_breaker_cooldown_seconds cfg \<le> started"
    and "\<not> br_probe_in_flight b" and "b' = snd (invoke_llm retrying cfg started ended (\<lambda>_. Inl NonException) b)"
  shows "invoke_llm retrying cfg started' ended' attempt b' = (Inl LLMCircuitOpen, b')"
proof -
  obtain k where "retrying (nat (max 1 (llm_max_retries cfg + 1))) is_retryable_llm_error (\<lambda>_. Inl NonException) = (\<lambda>_. Inl NonException) k"
    using retry_outcome [OF assms(1) attempt_limit_pos] by metis
  then have b': "b' = b\<lparr>br_probe_in_flight := True\<rparr>"
    using assms by (simp add: invoke_llm_def breaker_allow_simps)
  then show ?thesis
    using assms(2)
    by (cases "started' < t + llm_breaker_cooldown_seconds cfg - 1 / 20")
      (simp_all add: invoke_llm_def breaker_allow_simps)
qed

end
