(* ===== verification/Spec2Isabelle.thy ===== *)
theory Spec2Isabelle
  imports Compare IngestRequests Telemetry Adapters Ranker Worker RateLimit LlmResilience
begin

text \<open>
  \<^bold>\<open>The program.\<close> raglogs ingests logs, spans and metrics, groups them into clusters and explains an
  incident window: which services are candidate root causes, which of them the evidence eliminates,
  which remain indistinguishable and what is missing to tell them apart. A web service offers this to
  authenticated callers, an optional language model words the result. The development models the
  way of a log line from its source to its row and cluster (\<open>src/src/core\<close>: \<open>ingestion\<close>, \<open>parsing\<close>,
  \<open>normalization\<close>, \<open>clustering\<close>), the decision core (\<open>core/rca\<close>, \<open>core/explain\<close>, \<open>core/compare\<close>), retention and
  the worker, the access layer of the service (\<open>src/src/api\<close>) and the guard around the language model
  (\<open>core/llm\<close>).

  \<^bold>\<open>Theories and sources.\<close>
  \<^item> \<open>Prelude\<close>, \<open>PyValues\<close>: exceptions as values of a sum type, dictionaries as association lists in
    insertion order, list idioms, strings, numbers and dynamically typed values of Python.
  \<^item> \<open>Interfaces\<close>: the contracts as locales. \<open>ranking\<close> (a stable sort by a key), \<open>grouping\<close> (a dictionary of
    lists), \<open>evidence_gate\<close> (admission of measured evidence), \<open>event_machine\<close> (a state machine with an
    invariant). They are interpreted on \<open>sort_key\<close>, \<open>group_by\<close>, the gates of \<open>Observables\<close> and \<open>Partitioning\<close>,
    the rate limiter and the circuit breaker. \<open>Retention\<close> adds \<open>chunked_select\<close> (picking a chunk of due rows).
  \<^item> \<open>Observables\<close> (\<open>observable.py\<close>), \<open>Expectations\<close> (\<open>expectations.py\<close>), \<open>Candidates\<close> (\<open>candidates.py\<close>),
    \<open>Hypotheses\<close> (\<open>hypothesis.py\<close>), \<open>Partitioning\<close> (\<open>partition.py\<close>), \<open>Outcomes\<close> (\<open>outcome.py\<close>), \<open>ClassScoring\<close>
    (\<open>scoring.py\<close>): from validated observations and hypotheses to the partition, its outcome label, the
    evidence packet and the ranking.
  \<^item> \<open>SpanSignals\<close>, \<open>MetricSignals\<close>, \<open>StructuralModel\<close> (\<open>structural_model.py\<close>, \<open>metric_series.py\<close>,
    \<open>structural.py\<close>): three-valued summaries of spans, metrics and utilization, the call graph, and the run
    that turns them into hypotheses and observables.
  \<^item> \<open>ServiceGraphs\<close> (\<open>linkage.py\<close>), \<open>Propagation\<close> (\<open>propagation.py\<close>): reachability in the service graph and
    the reranking of candidates along it.
  \<^item> \<open>Regexes\<close>: patterns of Python's \<open>re\<close> with a matcher proved sound and complete for them; \<open>Features\<close>
    (\<open>features.py\<close>): the feature table, silent services and trace symptoms from the persisted rows;
    \<open>Ranker\<close> (\<open>ranker.py\<close>, \<open>calibration.py\<close>): the learned tree ensemble over them and its calibration.
  \<^item> \<open>Triggers\<close> (\<open>normalization/patterns.py\<close>), \<open>Clustering\<close>, \<open>SemanticMerge\<close>, \<open>ClusterRuns\<close>
    (\<open>core/clustering\<close>): grouping of log lines by fingerprint, the merge of similar clusters with its
    union-find, ranking and the stored run. \<open>RareEvents\<close> (\<open>triggers.py\<close>), \<open>Evidence\<close> (\<open>explain/evidence.py\<close>,
    \<open>explain/confidence.py\<close>): trigger candidates, the evidence packet and its confidence label. \<open>Compare\<close> (\<open>core/compare/differ.py\<close>): the
    comparison of two windows.
  \<^item> \<open>Normalization\<close> (\<open>normalization/normalize.py\<close>, \<open>fingerprint.py\<close>), \<open>Parsing\<close> (\<open>core/parsing\<close>), \<open>Ingestion\<close> and
    \<open>IngestRuns\<close> (\<open>core/ingestion/service.py\<close>, \<open>adapters/base.py\<close>, the file adapter): from a raw line to its
    fingerprint, fields and row; batches written with deduplication; pushed lines, files and adapter runs
    with their job row and resumption, under the contract \<open>resumable_adapter\<close>, which \<open>IngestRuns\<close> interprets on the
    file reader and \<open>Adapters\<close> (\<open>adapters/cloudwatch\<close>, \<open>adapters/k8s\<close>) on Kubernetes exports and proves for CloudWatch.
    \<open>Tail\<close> (\<open>core/ingestion/tail.py\<close>, \<open>backpressure.py\<close>): tail jobs, their life cycle, windows and polls.
    \<open>IngestRequests\<close> (\<open>api/routes/ingestions.py\<close>, \<open>core/ingestion/idempotency.py\<close>, \<open>push.py\<close>): creating ingestion jobs
    under idempotency keys and pushing lines. \<open>Telemetry\<close> (\<open>core/ingestion/telemetry.py\<close>): storing spans and metric points.
  \<^item> \<open>AccessRoles\<close> (\<open>auth/roles.py\<close>, \<open>auth/bind_guard.py\<close>), \<open>TimeWindows\<close> (\<open>utils/time.py\<close>), \<open>Overrides\<close>
    (\<open>overrides.py\<close>), \<open>ApiKeys\<close> (\<open>auth/keys.py\<close>), \<open>Authentication\<close> (\<open>auth/oidc.py\<close>, \<open>auth/middleware.py\<close>,
    \<open>auth/scope.py\<close>), \<open>RateLimit\<close> (\<open>ratelimit.py\<close>): the access layer. This theory composes authentication
    and rate limiting in the order of \<open>app.py\<close>.
  \<^item> \<open>Retention\<close>, \<open>PurgeRuns\<close> (\<open>core/retention\<close>): policies and the chunked purge with its cascades, dry run and
    schedule; \<open>Worker\<close> (\<open>worker/runner.py\<close>): the job queue and the chain of purge jobs.
  \<^item> \<open>LlmResilience\<close> (\<open>resilience.py\<close> and the wrapper of \<open>provider.py\<close>): circuit breaker, token budget and
    the retried call.

  \<^bold>\<open>How the code is modelled.\<close> A validating constructor is a function from raw values to an error or a
  record; a class with state is a record and one function per method; a method under a lock is one
  step, and interleavings are lists of steps; a database table is the list of its rows. Every raise
  and early return is a branch. Clock readings, random draws and row ids are arguments of the
  operation that reads them. Third-party code is a parameter: the password hasher, the JWT library, the
  HTTP client, the retry library, and the decimal printing of floats; \<open>argon2_ok\<close> and \<open>retries_ok\<close> state
  what is relied on, with concrete instances in the witnesses, as does \<open>answers\<close> for the aggregation
  queries of the database. Numbers: integers are unbounded as in
  Python; floats are exact reals (with infinities and NaN where the code can meet them), so no
  statement depends on rounding, and \<open>round\<close> is modelled where the code calls it. Strings range over the
  code points U+0000 to U+00FF. Quoted inputs inside error messages are left out.

  \<^bold>\<open>What is shown.\<close> Evidence: an unmeasured observation is inert everywhere, no fact supports and
  eliminates at once, the partition is exactly the quotient of the survivors by usable predictions and
  independent of order and scores, the outcome label means what it says, the packet cites only real
  observations. Signals: each summary equals its three-valued specification, the call graph is exact,
  learnt call targets are dominant. Clusters: the aggregation in the database equals the row scan, the
  merge yields the components of the similarity graph and conserves every count, the cap never changes
  which failure is primary, triggers are eligible and in order, high confidence rests on a logged trigger, a run accounts for every line. Graphs: the search terminates and decides reachability, attribution
  conserves weight, reranking stays in its band. Ranker: a serialised estimator is reproduced exactly. Lines: digits
  never split a cluster, a JSON line gives back its fields, every text line is parsed, batches are invisible,
  ingestion accounts for every line, repeating it stores nothing, and resuming it loses nothing; an undisturbed tail job misses nothing and a
  stopped one writes nothing; an idempotency key leads to one job, and storing the same spans again adds nothing. Windows:
  each fingerprint is in exactly one list of a comparison. Access: only authorized requests pass, scopes are
  isolated, revocation is permanent, minted keys work, tunables respect precedence and bounds, stored
  defaults round-trip. Limits: no caller exceeds its rate under any interleaving and a paced caller is
  never refused; a purge deletes only what is due, leaves nothing due when it says so, is predicted
  exactly by its dry run, and drains through its follow-up jobs; the breaker opens after its threshold and recovers; packet preparation terminates
  and fits the budget. Where the code departs from its documentation or raises where it means not to,
  a lemma exhibits it: \<open>summarize_metrics_spec\<close>, \<open>empty_service_aborts\<close>, \<open>reused_span_id_miswires\<close>,
  \<open>overlong_window_escapes\<close>, \<open>stored_out_of_bounds_refused\<close>, \<open>unhashable_role_escapes\<close>,
  \<open>interrupted_probe_locks\<close>, \<open>negative_duration_aborts\<close>,
  \<open>boundary_line_counted_twice\<close>, \<open>overlong_override_blocks_purge\<close>, \<open>maybe_enqueue_once\<close>,
  \<open>loader_not_graceful\<close>, \<open>cyclic_tree_never_scores\<close>, \<open>crash_forgets_pending\<close>, \<open>healthy_empty_stream_fails_job\<close>,
  \<open>timestamp_split_by_number\<close>, \<open>blank_level_kept\<close>, \<open>failed_poll_skips_window\<close>, \<open>closing_poll_skips_time\<close>,
  \<open>fragment_blank_lost\<close>, \<open>telemetry_ids_cross_scopes\<close>, \<open>pushed_line_cut_in_string\<close>.

  \<^bold>\<open>Termination.\<close> The union-find loop of \<open>SemanticMerge\<close> is a partial function, proved to end on every
  array the code builds; the tree walk of \<open>Ranker\<close> is one too, and ends on every fitted tree, as is the paging loop of \<open>Adapters\<close>, which ends
  over every service that pages its answers. All other functions are total: the searches of \<open>ServiceGraphs\<close> and \<open>Propagation\<close> terminate by
  the nodes not yet seen, the shrinking loop of \<open>LlmResilience\<close> by the number of listed items, the drain of
  \<open>Retention\<close> by the rows left. No fuel is
  used.

  \<^bold>\<open>Not modelled.\<close> The wording of explanations, the timeline and the routing of questions, webhooks,
  database sessions and bulk queries, adapters and providers that are network clients, the web framework's routes and schemas other than those of ingestion jobs,
  command line, observability, and the offline evaluation harness.
\<close>

section \<open>The middleware stack\<close>

text \<open>
  \<open>app.py\<close> adds the rate limiter before authentication, and the middleware added last runs first: a
  request is authenticated, then counted against the bucket of the authenticated caller, then handled.
\<close>

record timed_request =
  tr_http :: http_request
  tr_created :: real
  tr_now :: real

datatype request_outcome =
    Raised auth_exc
  | Rejected int
  | TooMany int
  | Handled "auth_principal option"

definition limit_event_of :: "timed_request \<Rightarrow> auth_principal option \<Rightarrow> limit_event" where
  "limit_event_of r who =
     \<lparr>ev_created = tr_created r, ev_now = tr_now r, ev_who = who,
      ev_method = rq_method (tr_http r), ev_path = rq_path (tr_http r)\<rparr>"

definition handle_request ::
    "auth_world \<Rightarrow> ratelimit_settings \<Rightarrow> jwks_cache \<times> buckets \<Rightarrow> timed_request \<Rightarrow> request_outcome \<times> jwks_cache \<times> buckets" where
  "handle_request w cfg st r =
     (case authorize_request w (fst st) (tr_http r) of
        (Inl e, cache) \<Rightarrow> (Raised e, cache, snd st)
      | (Inr (AuthError status code msg), cache) \<Rightarrow> (Rejected status, cache, snd st)
      | (Inr (AuthPass who), cache) \<Rightarrow>
          (case dispatch cfg (snd st) (limit_event_of r who) of
             (Forward, store) \<Rightarrow> (Handled who, cache, store)
           | (Limited n, store) \<Rightarrow> (TooMany n, cache, store)))"

fun run_requests ::
    "auth_world \<Rightarrow> ratelimit_settings \<Rightarrow> jwks_cache \<times> buckets \<Rightarrow> timed_request list \<Rightarrow> (timed_request \<times> request_outcome) list" where
  "run_requests w cfg st [] = []"
| "run_requests w cfg st (r # rs) =
     (let (res, st') = handle_request w cfg st r in (r, res) # run_requests w cfg st' rs)"

section \<open>Authenticated callers and their limits\<close>

text \<open>The requests that pass authentication, as the limiter sees them.\<close>

fun passed :: "auth_world \<Rightarrow> jwks_cache \<Rightarrow> timed_request list \<Rightarrow> limit_event list" where
  "passed w cache [] = []"
| "passed w cache (r # rs) =
     (case authorize_request w cache (tr_http r) of
        (Inr (AuthPass who), cache') \<Rightarrow> limit_event_of r who # passed w cache' rs
      | (_, cache') \<Rightarrow> passed w cache' rs)"

definition handled_by :: "limit_kind \<Rightarrow> string \<Rightarrow> timed_request \<times> request_outcome \<Rightarrow> bool" where
  "handled_by kind key x \<longleftrightarrow>
     rate_limit_kind (rq_method (tr_http (fst x))) (rq_path (tr_http (fst x))) = Some kind
     \<and> (case snd x of Handled (Some p) \<Rightarrow> key_id p = Some key | _ \<Rightarrow> False)"

lemma passed_times: "sorted (t0 # map tr_now rs @ [t1]) \<Longrightarrow> sorted (t0 # map ev_now (passed w cache rs) @ [t1])"
proof (induction rs arbitrary: t0 cache)
  case (Cons r rs)
  have weaker: "sorted (t0 # map tr_now rs @ [t1])" using Cons.prems by auto
  have tail: "sorted (tr_now r # map tr_now rs @ [t1])" "t0 \<le> tr_now r" using Cons.prems by auto
  show ?case
    using Cons.IH [OF weaker] Cons.IH [OF tail(1)] tail(2)
    by (auto simp: limit_event_of_def split: prod.splits sum.splits auth_outcome.splits)
qed simp

lemma handled_key:
  assumes "ratelimit_enabled cfg" "0 < rate_of cfg kind" "key \<noteq> []" "key_id p = Some key"
    and "rate_limit_kind (rq_method (tr_http r)) (rq_path (tr_http r)) = Some kind"
  shows "limit_key cfg (limit_event_of r (Some p)) = Some (kind, key)"
  using assms by (cases key) (auto simp: limit_key_def limit_event_of_def bucket_identity_def)

lemma handled_forwarded:
  assumes "ratelimit_enabled cfg" "0 < rate_of cfg kind" "key \<noteq> []"
  shows "length (filter (handled_by kind key) (run_requests w cfg (cache, store) rs))
    \<le> forwarded cfg (kind, key) (run_dispatch cfg store (passed w cache rs))"
proof (induction rs arbitrary: cache store)
  case (Cons r rs)
  show ?case
    using Cons.IH handled_key [OF assms]
    by (auto simp: handle_request_def forwarded_def handled_by_def Let_def intro!: le_SucI
        split: prod.splits sum.splits auth_outcome.splits limit_outcome.splits option.splits)
qed simp

lemma run_requests_authorized:
  "(r, Handled who) \<in> set (run_requests w cfg st rs) \<Longrightarrow>
     \<exists>cache cache'. authorize_request w cache (tr_http r) = (Inr (AuthPass who), cache')"
  by (induction rs arbitrary: st)
    (auto simp: handle_request_def Let_def split: prod.splits sum.splits auth_outcome.splits limit_outcome.splits)



end
